(* ===== verification/Prelude.thy ===== *)
theory Prelude
  imports Main "HOL-Library.Word"
begin

unbundle bit_operations_syntax

text \<open>
  What the components share: the machine integers of the Go code as fixed-width words, byte
  slices, the big- and little-endian accessors of \<open>encoding/binary\<close>, the unsigned LEB128
  coding of \<open>binary.AppendUvarint\<close> and \<open>binary.Uvarint\<close>, and the lemmas and locales about them
  that the component theories use.

  A Go \<open>[]byte\<close> is a \<open>bytes\<close> value, a Go \<open>string\<close> (a byte sequence) is a HOL \<open>string\<close>, a Go
  \<open>int\<close> that is a length or an offset is a \<open>nat\<close>.  A slice expression \<open>data[a:b]\<close> is
  \<open>slice data a b\<close>; it is only used where the code has checked that the bounds are in range.
\<close>

type_synonym u8 = "8 word"
type_synonym u16 = "16 word"
type_synonym u32 = "32 word"
type_synonym u64 = "64 word"
type_synonym bytes = "u8 list"

named_theorems wire_simps \<open>lengths and read-after-write equations of the byte encoders\<close>

lemma bit_word_ge [simp]: "LENGTH('a) \<le> n \<Longrightarrow> \<not> bit (w :: 'a::len word) n"
  using bit_imp_le_length [of w n] by auto

section \<open>Slices\<close>

definition slice :: "'a list \<Rightarrow> nat \<Rightarrow> nat \<Rightarrow> 'a list" where
  "slice xs a b = take (b - a) (drop a xs)"

lemma length_slice [simp]: "b \<le> length xs \<Longrightarrow> length (slice xs a b) = b - a"
  by (simp add: slice_def)

lemma slice_append_exact: "length xs = a \<Longrightarrow> b = a + length ys \<Longrightarrow> slice (xs @ ys @ zs) a b = ys"
  by (simp add: slice_def)

lemma slice_0_append [simp]: "slice (xs @ ys) 0 (length xs) = xs"
  by (simp add: slice_def)

lemma take_drop_split: "n \<le> length xs \<Longrightarrow> take n xs @ drop n xs = xs"
  by simp

section \<open>Fixed-width integers on the wire\<close>

definition be16 :: "u16 \<Rightarrow> bytes" where
  "be16 w = [ucast (drop_bit 8 w), ucast w]"

definition be32 :: "u32 \<Rightarrow> bytes" where
  "be32 w = [ucast (drop_bit 24 w), ucast (drop_bit 16 w), ucast (drop_bit 8 w), ucast w]"

definition be64 :: "u64 \<Rightarrow> bytes" where
  "be64 w = [ucast (drop_bit 56 w), ucast (drop_bit 48 w), ucast (drop_bit 40 w),
     ucast (drop_bit 32 w), ucast (drop_bit 24 w), ucast (drop_bit 16 w),
     ucast (drop_bit 8 w), ucast w]"

definition le32 :: "u32 \<Rightarrow> bytes" where
  "le32 w = rev (be32 w)"

definition le64 :: "u64 \<Rightarrow> bytes" where
  "le64 w = rev (be64 w)"

text \<open>The readers look at the first bytes of the slice they are given, as Go's do.\<close>

definition get16 :: "bytes \<Rightarrow> u16" where
  "get16 b = push_bit 8 (ucast (b ! 0)) OR ucast (b ! 1)"

definition get32 :: "bytes \<Rightarrow> u32" where
  "get32 b = push_bit 24 (ucast (b ! 0)) OR push_bit 16 (ucast (b ! 1)) OR
     push_bit 8 (ucast (b ! 2)) OR ucast (b ! 3)"

definition get32_le :: "bytes \<Rightarrow> u32" where
  "get32_le b = ucast (b ! 0) OR push_bit 8 (ucast (b ! 1)) OR
     push_bit 16 (ucast (b ! 2)) OR push_bit 24 (ucast (b ! 3))"

lemma length_be [simp]:
  "length (be16 w) = 2" "length (be32 v) = 4" "length (be64 u) = 8"
  "length (le32 v) = 4" "length (le64 u) = 8"
  by (simp_all add: be16_def be32_def be64_def le32_def le64_def)

lemma get16_be16 [simp]: "get16 (be16 w) = w"
  by (rule bit_word_eqI)
    (auto simp: get16_def be16_def bit_simps)

lemma get32_be32 [simp]: "get32 (be32 w) = w"
proof (rule bit_word_eqI)
  fix n
  assume "n < LENGTH(32)"
  then consider "n < 8" | "8 \<le> n" "n < 16" | "16 \<le> n" "n < 24" | "24 \<le> n" "n < 32"
    by fastforce
  then show "bit (get32 (be32 w)) n \<longleftrightarrow> bit w n"
    by cases (auto simp: get32_def be32_def bit_simps)
qed

lemma get32_le_le32 [simp]: "get32_le (le32 w) = w"
proof (rule bit_word_eqI)
  fix n
  assume "n < LENGTH(32)"
  then consider "n < 8" | "8 \<le> n" "n < 16" | "16 \<le> n" "n < 24" | "24 \<le> n" "n < 32"
    by fastforce
  then show "bit (get32_le (le32 w)) n \<longleftrightarrow> bit w n"
    by cases (auto simp: get32_le_def le32_def be32_def bit_simps)
qed

lemma get16_append [simp]: "2 \<le> length b \<Longrightarrow> get16 (b @ r) = get16 b"
  by (auto simp: get16_def nth_append)

lemma get32_append [simp]: "4 \<le> length b \<Longrightarrow> get32 (b @ r) = get32 b"
  by (auto simp: get32_def nth_append)

lemma be16_inject [simp]: "be16 v = be16 w \<longleftrightarrow> v = w"
  by (metis get16_be16)

lemma be32_inject [simp]: "be32 v = be32 w \<longleftrightarrow> v = w"
  by (metis get32_be32)

lemma byte_bits:
  fixes a b :: "'a::len word"
  assumes "(ucast (drop_bit k a) :: u8) = ucast (drop_bit k b)" "k \<le> n" "n < k + 8"
  shows "bit a n \<longleftrightarrow> bit b n"
proof -
  have "bit (ucast (drop_bit k a) :: u8) (n - k) \<longleftrightarrow> bit (ucast (drop_bit k b) :: u8) (n - k)"
    by (simp only: assms(1))
  moreover have "n - k < 8" using assms(2,3) by linarith
  ultimately show ?thesis using assms(2,3) by (simp add: bit_simps)
qed

lemma be64_inject [simp]: "be64 a = be64 b \<longleftrightarrow> a = b"
proof
  assume eq: "be64 a = be64 b"
  show "a = b"
  proof (rule bit_word_eqI)
    fix n
    assume "n < LENGTH(64)"
    then consider "n < 8" | "8 \<le> n" "n < 16" | "16 \<le> n" "n < 24" | "24 \<le> n" "n < 32"
      | "32 \<le> n" "n < 40" | "40 \<le> n" "n < 48" | "48 \<le> n" "n < 56" | "56 \<le> n" "n < 64"
      by fastforce
    then show "bit a n \<longleftrightarrow> bit b n"
      using eq byte_bits [of 0 a b n] byte_bits [of 8 a b n] byte_bits [of 16 a b n]
        byte_bits [of 24 a b n] byte_bits [of 32 a b n] byte_bits [of 40 a b n]
        byte_bits [of 48 a b n] byte_bits [of 56 a b n]
      by cases (simp_all add: be64_def)
  qed
qed simp

lemma le64_inject [simp]: "le64 a = le64 b \<longleftrightarrow> a = b"
  by (simp add: le64_def)

lemma be16_get16: "length b = 2 \<Longrightarrow> be16 (get16 b) = b"
proof -
  assume "length b = 2"
  then obtain x y where b: "b = [x, y]"
    by (auto simp: length_Suc_conv numeral_eq_Suc)
  have "ucast (drop_bit 8 (get16 b)) = x" "ucast (get16 b) = y"
    unfolding b by (rule bit_word_eqI, force simp: get16_def bit_simps)+
  then show ?thesis by (simp add: be16_def b)
qed

lemma be32_get32: "length b = 4 \<Longrightarrow> be32 (get32 b) = b"
proof -
  assume "length b = 4"
  then obtain w x y z where b: "b = [w, x, y, z]"
    by (auto simp: length_Suc_conv numeral_eq_Suc)
  have "ucast (drop_bit 24 (get32 b)) = w" "ucast (drop_bit 16 (get32 b)) = x"
      "ucast (drop_bit 8 (get32 b)) = y" "ucast (get32 b) = z"
    unfolding b by (rule bit_word_eqI, force simp: get32_def bit_simps)+
  then show ?thesis by (simp add: be32_def b)
qed

lemma get16_take [simp]: "2 \<le> n \<Longrightarrow> 2 \<le> length b \<Longrightarrow> get16 (take n b) = get16 b"
  by (simp add: get16_def)

lemma get32_take [simp]: "4 \<le> n \<Longrightarrow> 4 \<le> length b \<Longrightarrow> get32 (take n b) = get32 b"
  by (simp add: get32_def)

lemma unat_get16_be16_of_nat: "n < 65536 \<Longrightarrow> unat (get16 (be16 (of_nat n))) = n"
  by (simp add: unat_of_nat)

section \<open>Unsigned LEB128\<close>

text \<open>\<open>binary.AppendUvarint(nil, x)\<close>.\<close>

function append_uvarint :: "u64 \<Rightarrow> bytes" where
  "append_uvarint x =
     (if x < 0x80 then [ucast x] else (ucast x OR 0x80) # append_uvarint (drop_bit 7 x))"
  by pat_completeness auto
termination
proof (relation "measure unat", simp)
  fix x :: u64
  assume "\<not> x < 0x80"
  then have "128 \<le> unat x"
    by (simp add: word_less_nat_alt)
  then show "(drop_bit 7 x, x) \<in> measure unat"
    by (simp add: drop_bit_eq_div unat_div)
qed

declare append_uvarint.simps [simp del]

text \<open>
  \<open>binary.Uvarint\<close>: the value and the number of bytes read, \<open>(0, 0)\<close> when the buffer ends inside
  the number and \<open>(0, -(i + 1))\<close> when it does not fit 64 bits.
\<close>

fun uvarint_from :: "nat \<Rightarrow> u64 \<Rightarrow> bytes \<Rightarrow> u64 \<times> int" where
  "uvarint_from i x [] = (0, 0)"
| "uvarint_from i x (b # bs) =
     (if i = 10 then (0, - (int i + 1))
      else if b < 0x80 then
        (if i = 9 \<and> 1 < b then (0, - (int i + 1))
         else (x OR push_bit (7 * i) (ucast b), int i + 1))
      else uvarint_from (Suc i) (x OR push_bit (7 * i) (ucast (b AND 0x7f))) bs)"

definition uvarint :: "bytes \<Rightarrow> u64 \<times> int" where
  "uvarint b = uvarint_from 0 0 b"

lemma length_append_uvarint_pos [simp]: "0 < length (append_uvarint x)"
  by (subst append_uvarint.simps) simp

lemma append_uvarint_neq_Nil [simp]: "append_uvarint x \<noteq> []"
  using length_append_uvarint_pos [of x] by auto

lemma length_append_uvarint_le:
  "unat x < 2 ^ (7 * n) \<Longrightarrow> 0 < n \<Longrightarrow> length (append_uvarint x) \<le> n"
proof (induction n arbitrary: x)
  case 0
  then show ?case by simp
next
  case (Suc n)
  show ?case
  proof (cases "x < 0x80")
    case True
    then show ?thesis by (subst append_uvarint.simps) simp
  next
    case False
    then have n: "0 < n"
      using Suc.prems(1) by (cases n) (auto simp: word_less_nat_alt)
    have "unat (drop_bit 7 x) < 2 ^ (7 * n)"
      using Suc.prems(1)
      by (simp add: drop_bit_eq_div unat_div less_mult_imp_div_less power_add)
    then have "length (append_uvarint (drop_bit 7 x)) \<le> n"
      using n by (rule Suc.IH)
    with False show ?thesis by (subst append_uvarint.simps) simp
  qed
qed

lemma length_append_uvarint_le_10: "length (append_uvarint x) \<le> 10"
proof -
  have "unat x < 2 ^ 64" using unsigned_less [of x] by simp
  then have "unat x < 2 ^ (7 * 10)" by simp
  then show ?thesis by (rule length_append_uvarint_le) simp
qed

lemma mask_7f: "(0x7f :: u8) = mask 7"
  by (simp add: mask_eq_exp_minus_1)

lemma mask_ffff: "(0xffff :: 'a::len word) = mask 16"
  by (simp add: mask_eq_exp_minus_1)

lemma mask_ffffffff: "(0xffffffff :: 'a::len word) = mask 32"
  by (simp add: mask_eq_exp_minus_1)

lemma mask_7fffffff: "(0x7fffffff :: 'a::len word) = mask 31"
  by (simp add: mask_eq_exp_minus_1)

lemma bit_128_iff [simp]: "bit (128 :: 'a::len word) j \<longleftrightarrow> j = 7 \<and> 7 < LENGTH('a)"
proof -
  have "(128 :: 'a word) = 2 ^ 7" by simp
  then show ?thesis by (simp only: bit_exp_iff) auto
qed

lemma bit_128_int_iff [simp]: "bit (128 :: int) j \<longleftrightarrow> j = 7"
proof -
  have "(128 :: int) = 2 ^ 7" by simp
  then show ?thesis by (simp only: bit_exp_iff) auto
qed

lemma unat_ucast_mod:
  "unat (ucast (y :: 'a::len word) :: 'b::len word) = unat y mod 2 ^ LENGTH('b)"
  by (simp add: unsigned_ucast_eq unsigned_take_bit_eq take_bit_eq_mod)

lemma low7_split:
  fixes y :: u64
  shows "push_bit k (ucast ((ucast y OR 0x80 :: u8) AND 0x7f)) OR push_bit (k + 7) (drop_bit 7 y)
    = push_bit k y"
proof (rule bit_word_eqI)
  fix n
  assume n: "n < LENGTH(64)"
  show "bit (push_bit k (ucast ((ucast y OR 0x80 :: u8) AND 0x7f)) OR push_bit (k + 7) (drop_bit 7 y)) n
    \<longleftrightarrow> bit (push_bit k y) n"
    unfolding mask_7f
    by (cases "n < k"; cases "n - k < 7") (use n in \<open>auto simp: bit_simps\<close>)
qed

lemma cont_bit_ge_80: "\<not> (b OR 0x80 :: u8) < 0x80"
proof -
  have "(0x80 :: u8) \<le> b OR 0x80"
    by (rule le_word_or1)
  then show ?thesis by simp
qed

lemma ucast_small_u8:
  fixes y :: u64
  assumes "y < 0x100"
  shows "ucast (ucast y :: u8) = y" "unat (ucast y :: u8) = unat y"
proof -
  have "unat y < 256" using assms by (simp add: word_less_nat_alt)
  then show *: "unat (ucast y :: u8) = unat y"
    by (simp add: unat_ucast_mod)
  have "unat (ucast (ucast y :: u8) :: u64) = unat (ucast y :: u8)"
    by (simp add: unat_ucast_mod order_less_trans [OF unsigned_less])
  with * show "ucast (ucast y :: u8) = y"
    by (metis word_unat_eq_iff)
qed

lemma uvarint_from_append_uvarint:
  "i < 10 \<Longrightarrow> unat y < 2 ^ (64 - 7 * i) \<Longrightarrow>
   uvarint_from i acc (append_uvarint y @ r) =
     (acc OR push_bit (7 * i) y, int (i + length (append_uvarint y)))"
proof (induction y arbitrary: i acc rule: append_uvarint.induct)
  case (1 y)
  show ?case
  proof (cases "y < 0x80")
    case True
    then have nat: "unat y < 128" by (simp add: word_less_nat_alt)
    then have small: "ucast (ucast y :: u8) = y" "unat (ucast y :: u8) = unat y"
      by (simp_all add: ucast_small_u8 word_less_nat_alt)
    then have lt: "(ucast y :: u8) < 0x80"
      using nat by (simp add: word_less_nat_alt)
    have "\<not> 1 < (ucast y :: u8)" if "i = 9"
      using "1.prems"(2) that small(2) by (simp add: word_less_nat_alt)
    with True small(1) lt "1.prems"(1) show ?thesis
      by (subst append_uvarint.simps, subst (2) append_uvarint.simps) auto
  next
    case False
    then have ge: "128 \<le> unat y" by (simp add: word_less_nat_alt)
    have i: "i < 9"
    proof (rule ccontr)
      assume "\<not> i < 9"
      with "1.prems" have "unat y < 2" by (cases "i = 9") auto
      with ge show False by simp
    qed
    have "64 - 7 * i = 7 + (64 - 7 * Suc i)" using i by simp
    then have "unat y < 128 * 2 ^ (64 - 7 * Suc i)"
      using "1.prems"(2) by (simp only: power_add) simp
    then have "unat (drop_bit 7 y) < 2 ^ (64 - 7 * Suc i)"
      by (simp add: drop_bit_eq_div unat_div less_mult_imp_div_less mult.commute)
    then have IH: "uvarint_from (Suc i) acc' (append_uvarint (drop_bit 7 y) @ r) =
        (acc' OR push_bit (7 * Suc i) (drop_bit 7 y),
         int (Suc i + length (append_uvarint (drop_bit 7 y))))" for acc'
      using "1.IH" [OF False, of "Suc i"] i by simp
    have "uvarint_from i acc (append_uvarint y @ r) =
        uvarint_from (Suc i) (acc OR push_bit (7 * i) (ucast ((ucast y OR 0x80 :: u8) AND 0x7f)))
          (append_uvarint (drop_bit 7 y) @ r)"
      using False i by (subst append_uvarint.simps) (simp add: cont_bit_ge_80)
    also have "\<dots> = (acc OR push_bit (7 * i) y, int (i + length (append_uvarint y)))"
      using low7_split [of "7 * i" y] False
      by (subst IH) (subst (2) append_uvarint.simps, simp add: or.assoc add.commute)
    finally show ?thesis .
  qed
qed

lemma uvarint_append_uvarint [simp]:
  "uvarint (append_uvarint x @ r) = (x, int (length (append_uvarint x)))"
  using uvarint_from_append_uvarint [of 0 x 0 r] unsigned_less [of x]
  by (simp add: uvarint_def)

lemma uvarint_append_uvarint_Nil [simp]:
  "uvarint (append_uvarint x) = (x, int (length (append_uvarint x)))"
  using uvarint_append_uvarint [of x "[]"] by simp

lemma uvarint_from_bound:
  "uvarint_from i x b = (v, n) \<Longrightarrow> 0 < n \<Longrightarrow> nat n \<le> i + length b"
  by (induction i x b rule: uvarint_from.induct) (auto split: if_splits)

lemma uvarint_consumes: "uvarint b = (v, n) \<Longrightarrow> 0 < n \<Longrightarrow> nat n \<le> length b"
  using uvarint_from_bound [of 0 0 b v n] by (simp add: uvarint_def)

section \<open>The interface of a self-delimiting coding\<close>

text \<open>
  A field coding in the packets: the decoder reads the field back from any buffer that starts with
  its encoding and hands on the rest.  What the packet formats rely on is proved once here and
  holds of every coding that is an instance.
\<close>

locale field_code =
  fixes enc :: "'a \<Rightarrow> bytes"
    and dec :: "bytes \<Rightarrow> ('a \<times> bytes) option"
    and ok :: "'a \<Rightarrow> bool"
  assumes dec_enc: "ok x \<Longrightarrow> dec (enc x @ r) = Some (x, r)"
begin

lemma enc_unique: "ok x \<Longrightarrow> ok y \<Longrightarrow> enc x @ r = enc y @ s \<Longrightarrow> x = y \<and> r = s"
  by (metis dec_enc option.inject prod.inject)

lemma enc_inj: "ok x \<Longrightarrow> ok y \<Longrightarrow> enc x = enc y \<Longrightarrow> x = y"
  using enc_unique [of x y "[]" "[]"] by simp

lemma concat_enc_unique:
  "list_all ok xs \<Longrightarrow> list_all ok ys \<Longrightarrow> length xs = length ys \<Longrightarrow>
   concat (map enc xs) @ r = concat (map enc ys) @ s \<Longrightarrow> xs = ys \<and> r = s"
proof (induction xs arbitrary: ys)
  case Nil
  then show ?case by simp
next
  case (Cons x xs)
  then obtain y ys' where ys: "ys = y # ys'" by (cases ys) auto
  with Cons.prems have "x = y \<and> concat (map enc xs) @ r = concat (map enc ys') @ s"
    using enc_unique [of x y] by simp
  with Cons.IH [of ys'] Cons.prems ys show ?case by simp
qed

end

definition take_be16 :: "bytes \<Rightarrow> (u16 \<times> bytes) option" where
  "take_be16 b = (if length b < 2 then None else Some (get16 b, drop 2 b))"

definition take_be32 :: "bytes \<Rightarrow> (u32 \<times> bytes) option" where
  "take_be32 b = (if length b < 4 then None else Some (get32 b, drop 4 b))"

definition take_uvarint :: "bytes \<Rightarrow> (u64 \<times> bytes) option" where
  "take_uvarint b = (let (v, n) = uvarint b in if n \<le> 0 then None else Some (v, drop (nat n) b))"

interpretation be16_code: field_code be16 take_be16 "\<lambda>_. True"
  by unfold_locales (simp add: take_be16_def)

interpretation be32_code: field_code be32 take_be32 "\<lambda>_. True"
  by unfold_locales (simp add: take_be32_def)

interpretation uvarint_code: field_code append_uvarint take_uvarint "\<lambda>_. True"
  by unfold_locales (simp add: take_uvarint_def)

lemma append_uvarint_inject [simp]: "append_uvarint x = append_uvarint y \<longleftrightarrow> x = y"
  using uvarint_code.enc_inj [of x y] by auto

section \<open>Big-endian numbers of any length\<close>

definition be_nat :: "bytes \<Rightarrow> nat" where
  "be_nat b = foldl (\<lambda>a x. a * 256 + unat x) 0 b"

fun nat_be :: "nat \<Rightarrow> nat \<Rightarrow> bytes" where
  "nat_be 0 v = []"
| "nat_be (Suc n) v = nat_be n (v div 256) @ [of_nat v]"

lemma length_nat_be [simp]: "length (nat_be n v) = n"
  by (induction n arbitrary: v) auto

lemma be_nat_snoc: "be_nat (b @ [x]) = be_nat b * 256 + unat x"
  by (simp add: be_nat_def)

lemma be_nat_nat_be: "be_nat (nat_be n v) = v mod 256 ^ n"
proof (induction n arbitrary: v)
  case 0
  then show ?case by (simp add: be_nat_def)
next
  case (Suc n)
  have "v mod 256 ^ Suc n = 256 * (v div 256 mod 256 ^ n) + v mod 256"
    by (simp add: mod_mult2_eq mult.commute)
  with Suc show ?case
    by (simp add: be_nat_snoc unat_of_nat)
qed

lemma nat_be_be_nat: "nat_be (length b) (be_nat b) = b"
proof (induction b rule: rev_induct)
  case Nil
  then show ?case by simp
next
  case (snoc x b)
  have "unat x < 256" using unsigned_less [of x] by simp
  then have "(be_nat b * 256 + unat x) div 256 = be_nat b"
    "(be_nat b * 256 + unat x) mod 256 = unat x"
    by simp_all
  moreover from this(2) have "(of_nat (be_nat b * 256 + unat x) :: u8) = x"
    by (simp only: word_unat_eq_iff unat_of_nat) simp
  ultimately show ?case
    using snoc by (simp add: be_nat_snoc)
qed

lemma be_nat_bound: "be_nat b < 256 ^ length b"
  using be_nat_nat_be [of "length b" "be_nat b"] by (simp add: nat_be_be_nat) (metis mod_less_divisor zero_less_numeral zero_less_power)

lemma be_nat_inject: "length a = length b \<Longrightarrow> be_nat a = be_nat b \<Longrightarrow> a = b"
  by (metis nat_be_be_nat)

lemma be_nat_append: "be_nat (a @ b) = be_nat a * 256 ^ length b + be_nat b"
proof (induction b rule: rev_induct)
  case Nil
  then show ?case by (simp add: be_nat_def)
next
  case (snoc x b)
  then show ?case
    using be_nat_snoc [of "a @ b" x] by (simp add: be_nat_snoc algebra_simps)
qed

lemma two_bytes: "length c = n + 2 \<Longrightarrow> \<exists>x y. c = take n c @ [x, y]"
  by (metis (no_types, lifting) One_nat_def Suc_1 add_diff_cancel_left' append_take_drop_id
      length_0_conv length_Suc_conv length_drop)

end
