(* ===== verification/Crypto.thy ===== *)
theory Crypto
  imports Prelude
begin

text \<open>
  The primitives of Go's standard library that the code builds its key schedules and packet
  protection from: AES-128 (\<open>crypto/aes\<close>), counter mode (\<open>cipher.NewCTR\<close>), GCM with a 16-byte
  nonce (\<open>cipher.NewGCMWithNonceSize\<close>), SHA-1 and SHA-256, HMAC and HKDF, written out from their
  standards (FIPS 197, SP 800-38A and 38D, FIPS 180-4, RFC 2104 and RFC 5869).  Every definition
  computes.  The components rely on three kinds of facts about them, stated here: output lengths,
  that counter mode is its own inverse, and that GCM opens what it sealed.
\<close>

section \<open>AES-128\<close>

definition aes_sbox :: bytes where
  "aes_sbox = [
   0x63, 0x7c, 0x77, 0x7b, 0xf2, 0x6b, 0x6f, 0xc5, 0x30, 0x01, 0x67, 0x2b, 0xfe, 0xd7, 0xab, 0x76,
   0xca, 0x82, 0xc9, 0x7d, 0xfa, 0x59, 0x47, 0xf0, 0xad, 0xd4, 0xa2, 0xaf, 0x9c, 0xa4, 0x72, 0xc0,
   0xb7, 0xfd, 0x93, 0x26, 0x36, 0x3f, 0xf7, 0xcc, 0x34, 0xa5, 0xe5, 0xf1, 0x71, 0xd8, 0x31, 0x15,
   0x04, 0xc7, 0x23, 0xc3, 0x18, 0x96, 0x05, 0x9a, 0x07, 0x12, 0x80, 0xe2, 0xeb, 0x27, 0xb2, 0x75,
   0x09, 0x83, 0x2c, 0x1a, 0x1b, 0x6e, 0x5a, 0xa0, 0x52, 0x3b, 0xd6, 0xb3, 0x29, 0xe3, 0x2f, 0x84,
   0x53, 0xd1, 0x00, 0xed, 0x20, 0xfc, 0xb1, 0x5b, 0x6a, 0xcb, 0xbe, 0x39, 0x4a, 0x4c, 0x58, 0xcf,
   0xd0, 0xef, 0xaa, 0xfb, 0x43, 0x4d, 0x33, 0x85, 0x45, 0xf9, 0x02, 0x7f, 0x50, 0x3c, 0x9f, 0xa8,
   0x51, 0xa3, 0x40, 0x8f, 0x92, 0x9d, 0x38, 0xf5, 0xbc, 0xb6, 0xda, 0x21, 0x10, 0xff, 0xf3, 0xd2,
   0xcd, 0x0c, 0x13, 0xec, 0x5f, 0x97, 0x44, 0x17, 0xc4, 0xa7, 0x7e, 0x3d, 0x64, 0x5d, 0x19, 0x73,
   0x60, 0x81, 0x4f, 0xdc, 0x22, 0x2a, 0x90, 0x88, 0x46, 0xee, 0xb8, 0x14, 0xde, 0x5e, 0x0b, 0xdb,
   0xe0, 0x32, 0x3a, 0x0a, 0x49, 0x06, 0x24, 0x5c, 0xc2, 0xd3, 0xac, 0x62, 0x91, 0x95, 0xe4, 0x79,
   0xe7, 0xc8, 0x37, 0x6d, 0x8d, 0xd5, 0x4e, 0xa9, 0x6c, 0x56, 0xf4, 0xea, 0x65, 0x7a, 0xae, 0x08,
   0xba, 0x78, 0x25, 0x2e, 0x1c, 0xa6, 0xb4, 0xc6, 0xe8, 0xdd, 0x74, 0x1f, 0x4b, 0xbd, 0x8b, 0x8a,
   0x70, 0x3e, 0xb5, 0x66, 0x48, 0x03, 0xf6, 0x0e, 0x61, 0x35, 0x57, 0xb9, 0x86, 0xc1, 0x1d, 0x9e,
   0xe1, 0xf8, 0x98, 0x11, 0x69, 0xd9, 0x8e, 0x94, 0x9b, 0x1e, 0x87, 0xe9, 0xce, 0x55, 0x28, 0xdf,
   0x8c, 0xa1, 0x89, 0x0d, 0xbf, 0xe6, 0x42, 0x68, 0x41, 0x99, 0x2d, 0x0f, 0xb0, 0x54, 0xbb, 0x16]"

definition sub_byte :: "u8 \<Rightarrow> u8" where
  "sub_byte b = aes_sbox ! unat b"

definition xtime :: "u8 \<Rightarrow> u8" where
  "xtime b = push_bit 1 b XOR (if bit b 7 then 0x1b else 0)"

definition xor_bytes :: "bytes \<Rightarrow> bytes \<Rightarrow> bytes" where
  "xor_bytes xs ys = map (\<lambda>(x, y). x XOR y) (zip xs ys)"

fun aes_rcon :: "nat \<Rightarrow> u8" where
  "aes_rcon 0 = 1"
| "aes_rcon (Suc n) = xtime (aes_rcon n)"

text \<open>One round key from the previous one: four words, the first through the schedule core.\<close>

definition next_round_key :: "nat \<Rightarrow> bytes \<Rightarrow> bytes" where
  "next_round_key r k =
     (let w0 = take 4 k; w1 = slice k 4 8; w2 = slice k 8 12; w3 = slice k 12 16;
          t = [sub_byte (w3 ! 1) XOR aes_rcon r, sub_byte (w3 ! 2), sub_byte (w3 ! 3), sub_byte (w3 ! 0)];
          v0 = xor_bytes w0 t; v1 = xor_bytes w1 v0; v2 = xor_bytes w2 v1; v3 = xor_bytes w3 v2
      in v0 @ v1 @ v2 @ v3)"

definition shift_rows :: "bytes \<Rightarrow> bytes" where
  "shift_rows s = map (\<lambda>i. s ! ((i + 4 * (i mod 4)) mod 16)) [0..<16]"

definition mix_column :: "u8 \<Rightarrow> u8 \<Rightarrow> u8 \<Rightarrow> u8 \<Rightarrow> bytes" where
  "mix_column a b c d =
     [xtime a XOR xtime b XOR b XOR c XOR d,
      a XOR xtime b XOR xtime c XOR c XOR d,
      a XOR b XOR xtime c XOR xtime d XOR d,
      xtime a XOR a XOR b XOR c XOR xtime d]"

definition mix_columns :: "bytes \<Rightarrow> bytes" where
  "mix_columns s = concat (map (\<lambda>j. mix_column (s ! (4 * j)) (s ! (4 * j + 1))
     (s ! (4 * j + 2)) (s ! (4 * j + 3))) [0..<4])"

fun aes_rounds :: "nat \<Rightarrow> nat \<Rightarrow> bytes \<Rightarrow> bytes \<Rightarrow> bytes" where
  "aes_rounds 0 r k s = xor_bytes (shift_rows (map sub_byte s)) (next_round_key r k)"
| "aes_rounds (Suc n) r k s =
     (let k' = next_round_key r k
      in aes_rounds n (Suc r) k' (xor_bytes (mix_columns (shift_rows (map sub_byte s))) k'))"

text \<open>
  \<open>block.Encrypt\<close> for a cipher made by \<open>aes.NewCipher\<close> from a 16-byte key.  The result always has
  16 bytes: the padding is only reached for a key or block of the wrong length, which the callers
  rule out by their array types.
\<close>

definition aes_encrypt :: "bytes \<Rightarrow> bytes \<Rightarrow> bytes" where
  "aes_encrypt key block = take 16 (aes_rounds 9 0 key (xor_bytes block key) @ replicate 16 0)"

lemma length_xor_bytes [simp]: "length (xor_bytes xs ys) = min (length xs) (length ys)"
  by (simp add: xor_bytes_def)

lemma length_aes_encrypt [simp]: "length (aes_encrypt key block) = 16"
  by (simp add: aes_encrypt_def)

lemma nth_xor_bytes [simp]:
  "i < length xs \<Longrightarrow> i < length ys \<Longrightarrow> xor_bytes xs ys ! i = xs ! i XOR ys ! i"
  by (simp add: xor_bytes_def)

lemma xor_bytes_self_inverse: "length xs \<le> length ks \<Longrightarrow> xor_bytes (xor_bytes xs ks) ks = xs"
  by (rule nth_equalityI) (auto simp: xor_bytes_def xor.assoc)

section \<open>Counter mode\<close>

text \<open>
  \<open>cipher.NewCTR(block, iv)\<close>: the whole 16-byte block is one big-endian counter, incremented
  after each block; \<open>XORKeyStream\<close> xors the keystream in.
\<close>

definition ctr_block :: "bytes \<Rightarrow> nat \<Rightarrow> bytes" where
  "ctr_block iv i = nat_be 16 (be_nat iv + i)"

definition keystream :: "(bytes \<Rightarrow> bytes) \<Rightarrow> (nat \<Rightarrow> bytes) \<Rightarrow> nat \<Rightarrow> bytes" where
  "keystream encrypt counter n = take n (concat (map (\<lambda>i. encrypt (counter i)) [0..<(n + 15) div 16]))"

definition ctr_crypt :: "bytes \<Rightarrow> bytes \<Rightarrow> bytes \<Rightarrow> bytes" where
  "ctr_crypt key iv data = xor_bytes data (keystream (aes_encrypt key) (ctr_block iv) (length data))"

lemma length_concat_const: "(\<And>i. length (f i) = k) \<Longrightarrow> length (concat (map f xs)) = k * length xs"
  by (induction xs) auto

lemma length_keystream [simp]:
  assumes "\<And>b. length (encrypt b) = 16"
  shows "length (keystream encrypt counter n) = n"
proof -
  have "length (concat (map (\<lambda>i. encrypt (counter i)) [0..<(n + 15) div 16])) = 16 * ((n + 15) div 16)"
    using assms by (subst length_concat_const) auto
  moreover have "n \<le> 16 * ((n + 15) div 16)" by simp
  ultimately show ?thesis by (simp add: keystream_def)
qed

lemma length_ctr_crypt [simp]: "length (ctr_crypt key iv data) = length data"
  by (simp add: ctr_crypt_def)

lemma ctr_crypt_involution [simp]: "ctr_crypt key iv (ctr_crypt key iv data) = data"
  by (simp add: ctr_crypt_def xor_bytes_self_inverse)

section \<open>GCM with a 16-byte nonce\<close>

fun gf_mul_loop :: "nat \<Rightarrow> 128 word \<Rightarrow> 128 word \<Rightarrow> 128 word \<Rightarrow> 128 word" where
  "gf_mul_loop 0 x v z = z"
| "gf_mul_loop (Suc n) x v z =
     gf_mul_loop n x
       (if bit v 0 then drop_bit 1 v XOR push_bit 120 0xe1 else drop_bit 1 v)
       (if bit x n then z XOR v else z)"

definition gf_mul :: "128 word \<Rightarrow> 128 word \<Rightarrow> 128 word" where
  "gf_mul x y = gf_mul_loop 128 x y 0"

definition pad16 :: "bytes \<Rightarrow> bytes" where
  "pad16 b = b @ replicate ((16 - length b mod 16) mod 16) 0"

definition blocks16 :: "bytes \<Rightarrow> bytes list" where
  "blocks16 b = map (\<lambda>i. slice b (16 * i) (16 * i + 16)) [0..<length b div 16]"

definition ghash :: "128 word \<Rightarrow> bytes \<Rightarrow> 128 word" where
  "ghash h b = foldl (\<lambda>y blk. gf_mul (y XOR of_nat (be_nat blk)) h) 0 (blocks16 b)"

definition inc32_block :: "bytes \<Rightarrow> nat \<Rightarrow> bytes" where
  "inc32_block j0 i = take 12 j0 @ nat_be 4 (be_nat (drop 12 j0) + i)"

definition gcm_h :: "bytes \<Rightarrow> 128 word" where
  "gcm_h key = of_nat (be_nat (aes_encrypt key (replicate 16 0)))"

text \<open>The start block for a nonce that is not 12 bytes long is the hash of the nonce.\<close>

definition gcm_j0 :: "bytes \<Rightarrow> bytes \<Rightarrow> bytes" where
  "gcm_j0 key nonce =
     nat_be 16 (unat (ghash (gcm_h key) (pad16 nonce @ replicate 8 0 @ nat_be 8 (8 * length nonce))))"

definition gcm_crypt :: "bytes \<Rightarrow> bytes \<Rightarrow> bytes \<Rightarrow> bytes" where
  "gcm_crypt key nonce data =
     xor_bytes data (keystream (aes_encrypt key) (\<lambda>i. inc32_block (gcm_j0 key nonce) (i + 1)) (length data))"

definition gcm_tag :: "bytes \<Rightarrow> bytes \<Rightarrow> bytes \<Rightarrow> bytes" where
  "gcm_tag key nonce ct =
     xor_bytes (aes_encrypt key (gcm_j0 key nonce))
       (nat_be 16 (unat (ghash (gcm_h key) (pad16 ct @ replicate 8 0 @ nat_be 8 (8 * length ct)))))"

definition gcm_seal :: "bytes \<Rightarrow> bytes \<Rightarrow> bytes \<Rightarrow> bytes" where
  "gcm_seal key nonce pt = (let ct = gcm_crypt key nonce pt in ct @ gcm_tag key nonce ct)"

definition gcm_open :: "bytes \<Rightarrow> bytes \<Rightarrow> bytes \<Rightarrow> bytes option" where
  "gcm_open key nonce sealed =
     (if length sealed < 16 then None
      else let ct = take (length sealed - 16) sealed; tag = drop (length sealed - 16) sealed
           in if tag = gcm_tag key nonce ct then Some (gcm_crypt key nonce ct) else None)"

lemma length_gcm_crypt [simp]: "length (gcm_crypt key nonce data) = length data"
  by (simp add: gcm_crypt_def)

lemma length_gcm_tag [simp]: "length (gcm_tag key nonce ct) = 16"
  by (simp add: gcm_tag_def)

lemma length_gcm_seal [simp]: "length (gcm_seal key nonce pt) = length pt + 16"
  by (simp add: gcm_seal_def Let_def)

lemma gcm_crypt_involution [simp]: "gcm_crypt key nonce (gcm_crypt key nonce data) = data"
  by (simp add: gcm_crypt_def xor_bytes_self_inverse)

lemma gcm_open_seal [simp]: "gcm_open key nonce (gcm_seal key nonce pt) = Some pt"
  by (simp add: gcm_open_def gcm_seal_def Let_def)

lemma gcm_open_length: "gcm_open key nonce b = Some pt \<Longrightarrow> length b = length pt + 16"
  by (auto simp: gcm_open_def Let_def split: if_splits)

section \<open>SHA-1 and SHA-256\<close>

definition sha_pad :: "bytes \<Rightarrow> bytes" where
  "sha_pad m = m @ [0x80] @ replicate ((119 - length m mod 64) mod 64) 0 @ nat_be 8 (8 * length m)"

definition blocks64 :: "bytes \<Rightarrow> bytes list" where
  "blocks64 b = map (\<lambda>i. slice b (64 * i) (64 * i + 64)) [0..<length b div 64]"

definition block_words :: "bytes \<Rightarrow> u32 list" where
  "block_words b = map (\<lambda>i. get32 (drop (4 * i) b)) [0..<16]"

fun sha1_schedule :: "nat \<Rightarrow> u32 list \<Rightarrow> u32 list" where
  "sha1_schedule 0 w = w"
| "sha1_schedule (Suc n) w =
     (let t = length w
      in sha1_schedule n (w @ [word_rotl 1 (w ! (t - 3) XOR w ! (t - 8) XOR w ! (t - 14) XOR w ! (t - 16))]))"

type_synonym sha1_state = "u32 \<times> u32 \<times> u32 \<times> u32 \<times> u32"

definition sha1_f :: "nat \<Rightarrow> u32 \<Rightarrow> u32 \<Rightarrow> u32 \<Rightarrow> u32" where
  "sha1_f t b c d =
     (if t < 20 then (b AND c) OR (NOT b AND d)
      else if t < 40 then b XOR c XOR d
      else if t < 60 then (b AND c) OR (b AND d) OR (c AND d)
      else b XOR c XOR d)"

definition sha1_k :: "nat \<Rightarrow> u32" where
  "sha1_k t = (if t < 20 then 0x5a827999 else if t < 40 then 0x6ed9eba1
     else if t < 60 then 0x8f1bbcdc else 0xca62c1d6)"

fun sha1_rounds :: "nat \<Rightarrow> u32 list \<Rightarrow> sha1_state \<Rightarrow> sha1_state" where
  "sha1_rounds t [] s = s"
| "sha1_rounds t (w # ws) (a, b, c, d, e) =
     sha1_rounds (Suc t) ws
       (word_rotl 5 a + sha1_f t b c d + e + sha1_k t + w, a, word_rotl 30 b, c, d)"

fun sha1_compress :: "sha1_state \<Rightarrow> bytes \<Rightarrow> sha1_state" where
  "sha1_compress (a, b, c, d, e) blk =
     (case sha1_rounds 0 (sha1_schedule 64 (block_words blk)) (a, b, c, d, e) of
        (a', b', c', d', e') \<Rightarrow> (a + a', b + b', c + c', d + d', e + e'))"

definition sha1 :: "bytes \<Rightarrow> bytes" where
  "sha1 m =
     (case foldl sha1_compress (0x67452301, 0xefcdab89, 0x98badcfe, 0x10325476, 0xc3d2e1f0)
        (blocks64 (sha_pad m))
      of (a, b, c, d, e) \<Rightarrow> be32 a @ be32 b @ be32 c @ be32 d @ be32 e)"

text \<open>
  The 64 round constants are the first 32 bits of the fractional parts of the cube roots of the first 64
  primes; the root is found bit by bit.
\<close>

fun cube_root :: "nat \<Rightarrow> nat \<Rightarrow> nat \<Rightarrow> nat" where
  "cube_root 0 r n = r"
| "cube_root (Suc k) r n = (let r' = r + 2 ^ k in cube_root k (if r' ^ 3 \<le> n then r' else r) n)"

definition sha256_primes :: "nat list" where
  "sha256_primes =
     [2, 3, 5, 7, 11, 13, 17, 19, 23, 29, 31, 37, 41, 43, 47, 53,
      59, 61, 67, 71, 73, 79, 83, 89, 97, 101, 103, 107, 109, 113, 127, 131,
      137, 139, 149, 151, 157, 163, 167, 173, 179, 181, 191, 193, 197, 199, 211, 223,
      227, 229, 233, 239, 241, 251, 257, 263, 269, 271, 277, 281, 283, 293, 307, 311]"

definition sha256_k :: "u32 list" where
  "sha256_k = map (\<lambda>p. of_nat (cube_root 36 0 (p * 2 ^ 96))) sha256_primes"

fun sha256_schedule :: "nat \<Rightarrow> u32 list \<Rightarrow> u32 list" where
  "sha256_schedule 0 w = w"
| "sha256_schedule (Suc n) w =
     (let t = length w; x = w ! (t - 15); y = w ! (t - 2);
          s0 = word_rotr 7 x XOR word_rotr 18 x XOR drop_bit 3 x;
          s1 = word_rotr 17 y XOR word_rotr 19 y XOR drop_bit 10 y
      in sha256_schedule n (w @ [w ! (t - 16) + s0 + w ! (t - 7) + s1]))"

type_synonym sha256_state = "u32 \<times> u32 \<times> u32 \<times> u32 \<times> u32 \<times> u32 \<times> u32 \<times> u32"

fun sha256_rounds :: "(u32 \<times> u32) list \<Rightarrow> sha256_state \<Rightarrow> sha256_state" where
  "sha256_rounds [] s = s"
| "sha256_rounds ((k, w) # ws) (a, b, c, d, e, f, g, h) =
     (let s1 = word_rotr 6 e XOR word_rotr 11 e XOR word_rotr 25 e;
          ch = (e AND f) XOR (NOT e AND g);
          t1 = h + s1 + ch + k + w;
          s0 = word_rotr 2 a XOR word_rotr 13 a XOR word_rotr 22 a;
          maj = (a AND b) XOR (a AND c) XOR (b AND c)
      in sha256_rounds ws (t1 + (s0 + maj), a, b, c, d + t1, e, f, g))"

fun sha256_compress :: "sha256_state \<Rightarrow> bytes \<Rightarrow> sha256_state" where
  "sha256_compress (a, b, c, d, e, f, g, h) blk =
     (case sha256_rounds (zip sha256_k (sha256_schedule 48 (block_words blk))) (a, b, c, d, e, f, g, h) of
        (a', b', c', d', e', f', g', h') \<Rightarrow>
          (a + a', b + b', c + c', d + d', e + e', f + f', g + g', h + h'))"

definition sha256 :: "bytes \<Rightarrow> bytes" where
  "sha256 m =
     (case foldl sha256_compress
        (0x6a09e667, 0xbb67ae85, 0x3c6ef372, 0xa54ff53a, 0x510e527f, 0x9b05688c, 0x1f83d9ab, 0x5be0cd19)
        (blocks64 (sha_pad m))
      of (a, b, c, d, e, f, g, h) \<Rightarrow>
        be32 a @ be32 b @ be32 c @ be32 d @ be32 e @ be32 f @ be32 g @ be32 h)"

lemma length_sha1 [simp]: "length (sha1 m) = 20"
  by (simp add: sha1_def split: prod.splits)

lemma length_sha256 [simp]: "length (sha256 m) = 32"
  by (simp add: sha256_def split: prod.splits)

section \<open>HMAC and HKDF\<close>

definition hmac :: "(bytes \<Rightarrow> bytes) \<Rightarrow> bytes \<Rightarrow> bytes \<Rightarrow> bytes" where
  "hmac hash key msg =
     (let k = (if 64 < length key then hash key else key);
          k0 = k @ replicate (64 - length k) 0
      in hash (map (\<lambda>b. b XOR 0x5c) k0 @ hash (map (\<lambda>b. b XOR 0x36) k0 @ msg)))"

definition hmac_sha1 :: "bytes \<Rightarrow> bytes \<Rightarrow> bytes" where
  "hmac_sha1 = hmac sha1"

definition hmac_sha256 :: "bytes \<Rightarrow> bytes \<Rightarrow> bytes" where
  "hmac_sha256 = hmac sha256"

lemma length_hmac_sha1 [simp]: "length (hmac_sha1 k m) = 20"
  by (simp add: hmac_sha1_def hmac_def Let_def)

lemma length_hmac_sha256 [simp]: "length (hmac_sha256 k m) = 32"
  by (simp add: hmac_sha256_def hmac_def Let_def)

fun hkdf_expand :: "nat \<Rightarrow> bytes \<Rightarrow> bytes \<Rightarrow> nat \<Rightarrow> bytes \<Rightarrow> bytes" where
  "hkdf_expand 0 prk info i t = []"
| "hkdf_expand (Suc n) prk info i t =
     (let t' = hmac_sha256 prk (t @ info @ [of_nat i]) in t' @ hkdf_expand n prk info (Suc i) t')"

text \<open>\<open>hkdf.Key(sha256.New, ikm, salt, info, n)\<close>: an error for more than 255 blocks of output.\<close>

definition hkdf_key :: "bytes \<Rightarrow> bytes \<Rightarrow> bytes \<Rightarrow> nat \<Rightarrow> bytes option" where
  "hkdf_key ikm salt info n =
     (if 255 * 32 < n then None
      else let prk = hmac_sha256 (if salt = [] then replicate 32 0 else salt) ikm
           in Some (take n (hkdf_expand ((n + 31) div 32) prk info 1 [])))"

lemma length_hkdf_expand [simp]: "length (hkdf_expand n prk info i t) = 32 * n"
  by (induction n arbitrary: i t) (auto simp: Let_def)

lemma hkdf_key_length: "hkdf_key ikm salt info n = Some k \<Longrightarrow> length k = n"
  by (auto simp: hkdf_key_def Let_def split: if_splits)

lemma hkdf_key_small: "n \<le> 8160 \<Longrightarrow> \<exists>k. hkdf_key ikm salt info n = Some k \<and> length k = n"
  by (auto simp: hkdf_key_def Let_def)

end
