(* ===== verification/Participant.thy ===== *)
theory Participant
  imports Crypto "HOL-Library.Sublist"
begin

text \<open>
  The package \<open>util\<close>: the key derivation shape shared by every key schedule
  (\<open>HKDFSHA256\<close>, hkdf.go) and the device-qualified participant id that is its info string
  (\<open>FormatParticipantID\<close>, participant.go), with the functions of Go's \<open>strings\<close> package it calls.
  A string is its bytes; \<open>bytes_of\<close> is the conversion \<open>[]byte(s)\<close>.
\<close>

definition bytes_of :: "string \<Rightarrow> bytes" where
  "bytes_of s = map of_char s"

lemma length_bytes_of [simp]: "length (bytes_of s) = length s"
  by (simp add: bytes_of_def)

lemma bytes_of_append [simp]: "bytes_of (s @ t) = bytes_of s @ bytes_of t"
  by (simp add: bytes_of_def)

lemma of_char_u8_inject: "(of_char c :: u8) = of_char d \<longleftrightarrow> c = d"
proof
  assume *: "(of_char c :: u8) = of_char d"
  have lt: "(of_char c :: nat) < 256" "(of_char d :: nat) < 256" by simp_all
  have "unat (of_nat (of_char c :: nat) :: u8) = unat (of_nat (of_char d :: nat) :: u8)"
    using * by (simp only: of_nat_of_char)
  with lt show "c = d" by (simp only: unat_of_nat) simp
qed simp

lemma bytes_of_inject [simp]: "bytes_of s = bytes_of t \<longleftrightarrow> s = t"
proof
  have "inj (of_char :: char \<Rightarrow> u8)" by (rule injI) (simp only: of_char_u8_inject)
  then show "bytes_of s = bytes_of t \<Longrightarrow> s = t"
    by (simp add: bytes_of_def)
qed simp

definition HKDFSHA256 :: "bytes \<Rightarrow> bytes \<Rightarrow> bytes \<Rightarrow> nat \<Rightarrow> bytes option" where
  "HKDFSHA256 salt ikm info n = hkdf_key ikm salt info n"

lemma HKDFSHA256_length: "HKDFSHA256 salt ikm info n = Some k \<Longrightarrow> length k = n"
  by (simp add: HKDFSHA256_def hkdf_key_length)

lemma HKDFSHA256_total: "n \<le> 8160 \<Longrightarrow> \<exists>k. HKDFSHA256 salt ikm info n = Some k \<and> length k = n"
  by (simp add: HKDFSHA256_def hkdf_key_small)

section \<open>The functions of package strings\<close>

text \<open>The UTF-8 encodings of the code points for which \<open>unicode.IsSpace\<close> holds.\<close>

definition space_runes :: "string list" where
  "space_runes =
     [[CHR 0x09], [CHR 0x0A], [CHR 0x0B], [CHR 0x0C], [CHR 0x0D], [CHR 0x20],
      [CHR 0xC2, CHR 0x85], [CHR 0xC2, CHR 0xA0], [CHR 0xE1, CHR 0x9A, CHR 0x80]] @
     map (\<lambda>c. [CHR 0xE2, CHR 0x80, c])
       [CHR 0x80, CHR 0x81, CHR 0x82, CHR 0x83, CHR 0x84, CHR 0x85, CHR 0x86, CHR 0x87, CHR 0x88,
        CHR 0x89, CHR 0x8A, CHR 0xA8, CHR 0xA9, CHR 0xAF] @
     [[CHR 0xE2, CHR 0x81, CHR 0x9F], [CHR 0xE3, CHR 0x80, CHR 0x80]]"

definition leading :: "string list \<Rightarrow> string \<Rightarrow> string option" where
  "leading ws s = find (\<lambda>w. w \<noteq> [] \<and> prefix w s) ws"

lemma leading_SomeD: "leading ws s = Some w \<Longrightarrow> w \<in> set ws \<and> w \<noteq> [] \<and> prefix w s"
  by (auto simp: leading_def find_Some_iff)

lemma leading_None_iff: "leading ws s = None \<longleftrightarrow> (\<forall>w \<in> set ws. w \<noteq> [] \<longrightarrow> \<not> prefix w s)"
  by (auto simp: leading_def find_None_iff)

function strip :: "string list \<Rightarrow> string \<Rightarrow> string" where
  "strip ws s = (case leading ws s of None \<Rightarrow> s | Some w \<Rightarrow> strip ws (drop (length w) s))"
  by pat_completeness auto
termination
proof (relation "measure (\<lambda>(ws, s). length s)", simp)
  fix ws s w
  assume "leading ws s = Some w"
  then have "w \<noteq> []" "prefix w s" by (auto dest: leading_SomeD)
  then show "((ws, drop (length w) s), ws, s) \<in> measure (\<lambda>(ws, s). length s)"
    by (cases w) (auto simp: prefix_def)
qed

declare strip.simps [simp del]

lemma strip_done [simp]: "leading ws (strip ws s) = None"
  by (induction ws s rule: strip.induct) (subst strip.simps, auto split: option.splits)

lemma strip_id: "leading ws s = None \<Longrightarrow> strip ws s = s"
  by (subst strip.simps) simp

lemma suffix_strip: "suffix (strip ws s) s"
proof (induction ws s rule: strip.induct)
  case (1 ws s)
  then show ?case
    by (subst strip.simps)
      (auto split: option.splits simp: suffix_drop intro: suffix_order.order_trans)
qed

text \<open>\<open>strings.TrimSpace\<close>: white space runes are removed at the front, then at the end.\<close>

definition trim_space :: "string \<Rightarrow> string" where
  "trim_space s = rev (strip (map rev space_runes) (rev (strip space_runes s)))"

definition trimmed :: "string \<Rightarrow> bool" where
  "trimmed s \<longleftrightarrow> leading space_runes s = None \<and> leading (map rev space_runes) (rev s) = None"

lemma leading_None_prefix: "leading ws s = None \<Longrightarrow> prefix t s \<Longrightarrow> leading ws t = None"
  by (auto simp: leading_None_iff dest: prefix_order.order_trans)

lemma trimmed_trim_space: "trimmed (trim_space s)"
proof -
  have "prefix (trim_space s) (strip space_runes s)"
    using suffix_strip [of "map rev space_runes" "rev (strip space_runes s)"]
    by (simp add: trim_space_def suffix_to_prefix)
  then have "leading space_runes (trim_space s) = None"
    by (rule leading_None_prefix [OF strip_done])
  then show ?thesis
    by (simp add: trimmed_def) (simp add: trim_space_def)
qed

lemma trim_space_id: "trimmed s \<Longrightarrow> trim_space s = s"
  by (simp add: trimmed_def trim_space_def strip_id)

lemma set_trim_space: "set (trim_space s) \<subseteq> set s"
  using set_mono_suffix [OF suffix_strip [of space_runes s]]
    set_mono_suffix [OF suffix_strip [of "map rev space_runes" "rev (strip space_runes s)"]]
  by (auto simp: trim_space_def)

definition cut_before :: "char \<Rightarrow> string \<Rightarrow> string" where
  "cut_before c s = takeWhile (\<lambda>x. x \<noteq> c) s"

fun last_index :: "char \<Rightarrow> string \<Rightarrow> nat option" where
  "last_index c [] = None"
| "last_index c (x # xs) =
     (case last_index c xs of Some i \<Rightarrow> Some (Suc i) | None \<Rightarrow> if x = c then Some 0 else None)"

lemma last_index_None_iff: "last_index c s = None \<longleftrightarrow> c \<notin> set s"
  by (induction s) (auto split: option.splits)

lemma last_index_notin [simp]: "c \<notin> set s \<Longrightarrow> last_index c s = None"
  by (simp add: last_index_None_iff)

lemma last_index_append: "c \<notin> set t \<Longrightarrow> last_index c (s @ c # t) = Some (length s)"
proof (induction s)
  case Nil
  then show ?case by simp
next
  case (Cons x s)
  then show ?case by simp
qed

lemma last_index_SomeD:
  "last_index c s = Some i \<Longrightarrow> s = take i s @ c # drop (Suc i) s \<and> c \<notin> set (drop (Suc i) s)"
  by (induction s arbitrary: i)
    (auto split: option.splits if_splits dest: last_index_None_iff [THEN iffD1])

section \<open>FormatParticipantID\<close>

definition FormatParticipantID :: "string \<Rightarrow> string" where
  "FormatParticipantID jid =
     (let bare = trim_space (cut_before CHR ''/'' jid)
      in case last_index CHR ''@'' bare of
           None \<Rightarrow> bare
         | Some at \<Rightarrow>
             if at = 0 then bare
             else
               let user = take at bare; domain = drop (Suc at) bare
               in if domain = ''lid'' \<and> CHR '':'' \<notin> set user then user @ '':0@'' @ domain
                  else bare)"

lemma space_rune_shape:
  "w \<in> set space_runes \<Longrightarrow> CHR '':'' \<notin> set w \<and> CHR ''@'' \<notin> set w \<and> CHR ''d'' \<notin> set w"
  by (auto simp: space_runes_def)

lemma space_rune_nonempty: "w \<in> set space_runes \<Longrightarrow> w \<noteq> []"
  by (auto simp: space_runes_def)

lemma leading_before:
  assumes "c \<in> {CHR '':'', CHR ''@''}"
  shows "leading space_runes (u @ c # s) = None \<longleftrightarrow> leading space_runes u = None"
proof -
  have "prefix w (u @ c # s) \<longleftrightarrow> prefix w u" if "w \<in> set space_runes" for w
  proof
    assume "prefix w (u @ c # s)"
    then show "prefix w u"
      using space_rune_shape [OF that] assms
      by (auto simp: prefix_append prefix_Cons)
  qed (auto simp: prefix_append)
  then show ?thesis by (auto simp: leading_None_iff)
qed

lemma no_space_after_d: "leading (map rev space_runes) (CHR ''d'' # s) = None"
  using space_rune_shape by (fastforce simp: leading_None_iff prefix_Cons)

lemma trimmed_device_suffix:
  "trimmed (u @ ''@lid'') \<Longrightarrow> trimmed (u @ '':0@lid'')"
  using leading_before [of "CHR '':''" u] leading_before [of "CHR ''@''" u]
  by (simp add: trimmed_def no_space_after_d)

lemma cut_before_notin [simp]: "c \<notin> set (cut_before c s)"
  by (auto simp: cut_before_def dest: set_takeWhileD)

lemma cut_before_id: "c \<notin> set s \<Longrightarrow> cut_before c s = s"
  unfolding cut_before_def by (subst takeWhile_eq_all_conv) auto

text \<open>The two cases of the result, on the trimmed string before the resource.\<close>

lemma FormatParticipantID_bare_lid:
  assumes "trim_space (cut_before CHR ''/'' jid) = user @ ''@lid''"
    and "user \<noteq> []" and "CHR '':'' \<notin> set user"
  shows "FormatParticipantID jid = user @ '':0@lid''"
  using assms last_index_append [of "CHR ''@''" "''lid''" user]
  by (simp add: FormatParticipantID_def Let_def)

lemma FormatParticipantID_other:
  assumes "\<And>user. trim_space (cut_before CHR ''/'' jid) = user @ ''@lid'' \<Longrightarrow>
      user \<noteq> [] \<Longrightarrow> CHR '':'' \<in> set user"
  shows "FormatParticipantID jid = trim_space (cut_before CHR ''/'' jid)"
proof (cases "last_index CHR ''@'' (trim_space (cut_before CHR ''/'' jid))")
  case None
  then show ?thesis by (simp add: FormatParticipantID_def Let_def)
next
  case (Some i)
  then have "trim_space (cut_before CHR ''/'' jid) \<noteq> []" by auto
  with Some last_index_SomeD [OF Some] assms [of "take i (trim_space (cut_before CHR ''/'' jid))"]
  show ?thesis by (auto simp: FormatParticipantID_def Let_def)
qed

lemma FormatParticipantID_cases:
  obtains (lid) user where "trim_space (cut_before CHR ''/'' jid) = user @ ''@lid''"
      "FormatParticipantID jid = user @ '':0@lid''"
  | (other) "FormatParticipantID jid = trim_space (cut_before CHR ''/'' jid)"
      "\<And>user. trim_space (cut_before CHR ''/'' jid) = user @ ''@lid'' \<Longrightarrow>
        user \<noteq> [] \<Longrightarrow> CHR '':'' \<in> set user"
  using FormatParticipantID_bare_lid FormatParticipantID_other by blast

lemma FormatParticipantID_trimmed:
  "trimmed (FormatParticipantID jid) \<and> CHR ''/'' \<notin> set (FormatParticipantID jid)"
proof -
  let ?b = "trim_space (cut_before CHR ''/'' jid)"
  have t: "trimmed ?b" "CHR ''/'' \<notin> set ?b"
    using trimmed_trim_space set_trim_space [of "cut_before CHR ''/'' jid"] by auto
  show ?thesis
    by (cases jid rule: FormatParticipantID_cases) (use t trimmed_device_suffix in auto)
qed

text \<open>Formatting a participant id is idempotent: an id that has been formatted (resource removed,
  white space trimmed, \<open>:0\<close> added to a bare lid) is left alone by a second formatting, so the key
  info string of a participant does not depend on how often it was formatted.\<close>

theorem FormatParticipantID_idem:
  "FormatParticipantID (FormatParticipantID jid) = FormatParticipantID jid"
proof -
  let ?r = "FormatParticipantID jid"
  have r: "trim_space (cut_before CHR ''/'' ?r) = ?r"
    using FormatParticipantID_trimmed [of jid] by (simp add: cut_before_id trim_space_id)
  show ?thesis
  proof (cases jid rule: FormatParticipantID_cases)
    case (lid user)
    then have "?r = (user @ '':0'') @ ''@lid''" by simp
    then have "CHR '':'' \<in> set u" if "?r = u @ ''@lid''" for u
      using that by (simp only: append_same_eq) auto
    with r show ?thesis by (subst FormatParticipantID_other) auto
  next
    case other
    with r show ?thesis by (subst FormatParticipantID_other) auto
  qed
qed

end
