(* ===== verification/Warp.thy ===== *)
theory Warp
  imports Crypto
begin

text \<open>
  srtp/warp.go: the audio piggyback header extension and the message-integrity tag that closes
  every protected media packet.
\<close>

definition WarpExtProfile :: u16 where
  "WarpExtProfile = 0xdebe"

definition WarpMITagLen :: nat where
  "WarpMITagLen = 4"

definition WarpPiggybackStartPacket :: int where
  "WarpPiggybackStartPacket = 2"

definition WarpAudioPiggybackExt :: bytes where
  "WarpAudioPiggybackExt = [0x30, 0x01, 0x00, 0x00]"

definition AudioPiggybackExtensionFor :: "int \<Rightarrow> bool \<Rightarrow> int \<Rightarrow> u32 option" where
  "AudioPiggybackExtensionFor packetIndex enabled startPacket =
     (if \<not> enabled \<or> packetIndex < startPacket then None
      else Some (get32 WarpAudioPiggybackExt))"

text \<open>The tag length is at most the 20 bytes of the hash; Go would panic beyond.\<close>

definition ComputeWarpMITag :: "bytes \<Rightarrow> bytes \<Rightarrow> u32 \<Rightarrow> nat \<Rightarrow> bytes" where
  "ComputeWarpMITag authKey packetWithoutTag roc tagLen =
     take tagLen (hmac_sha1 authKey (packetWithoutTag @ be32 roc))"

definition AppendWarpMITag :: "bytes \<Rightarrow> bytes \<Rightarrow> u32 \<Rightarrow> nat \<Rightarrow> bytes" where
  "AppendWarpMITag authKey packetWithoutTag roc tagLen =
     packetWithoutTag @ ComputeWarpMITag authKey packetWithoutTag roc tagLen"

lemma length_ComputeWarpMITag [simp]:
  "tagLen \<le> 20 \<Longrightarrow> length (ComputeWarpMITag k p roc tagLen) = tagLen"
  by (simp add: ComputeWarpMITag_def)

lemma length_AppendWarpMITag [simp]:
  "tagLen \<le> 20 \<Longrightarrow> length (AppendWarpMITag k p roc tagLen) = length p + tagLen"
  by (simp add: AppendWarpMITag_def)

lemma take_AppendWarpMITag [simp]: "take (length p) (AppendWarpMITag k p roc n) = p"
  by (simp add: AppendWarpMITag_def)

lemma piggyback_word: "get32 WarpAudioPiggybackExt = 0x30010000"
  by (simp add: get32_def WarpAudioPiggybackExt_def)

end
