(* ===== verification/Hbh.thy ===== *)
theory Hbh
  imports Participant
begin

text \<open>
  srtp/hbh.go: the hop-by-hop keying.  A 30-byte hop key is expanded twice by HKDF, split into a
  master key and a master salt, and expanded by libsrtp's key derivation into the session keys;
  payloads are encrypted with libsrtp's integer counter mode, whose counter carries only from byte
  15 into byte 14.

  Go arrays of fixed size are byte lists of that length (\<open>wf_keying\<close>, \<open>wf_session\<close>).
  \<open>aes.NewCipher\<close> fails only for a key that is not 16, 24 or 32 bytes long; every key here is a
  16-byte array, so that error branch has no counterpart.
\<close>

datatype srtp_error = ErrBadHbhKeyLen | ErrShortKey | ErrBadCallKeyLen | ErrHkdf

record SrtpKeyingMaterial =
  MasterKey :: bytes
  MasterSalt :: bytes

record LibsrtpSessionKeys =
  SessionKey :: bytes
  SessionSalt :: bytes
  SessionAuthKey :: bytes

definition labelRTPEncryption :: u8 where "labelRTPEncryption = 0x00"
definition labelRTPAuth :: u8 where "labelRTPAuth = 0x01"
definition labelRTPSalt :: u8 where "labelRTPSalt = 0x02"

definition wf_keying :: "SrtpKeyingMaterial \<Rightarrow> bool" where
  "wf_keying m \<longleftrightarrow> length (MasterKey m) = 16 \<and> length (MasterSalt m) = 14"

definition wf_session :: "LibsrtpSessionKeys \<Rightarrow> bool" where
  "wf_session s \<longleftrightarrow> length (SessionKey s) = 16 \<and> length (SessionSalt s) = 14 \<and>
     length (SessionAuthKey s) = 20"

definition hkdf_result :: "bytes option \<Rightarrow> srtp_error + bytes" where
  "hkdf_result r = (case r of None \<Rightarrow> Inl ErrHkdf | Some k \<Rightarrow> Inr k)"

definition keyingFromCryptoKey :: "bytes \<Rightarrow> SrtpKeyingMaterial" where
  "keyingFromCryptoKey cryptoKey =
     \<lparr>MasterKey = slice cryptoKey 0 16, MasterSalt = slice cryptoKey 16 30\<rparr>"

definition deriveHbhSrtpKeyWithLabels :: "bytes \<Rightarrow> string \<Rightarrow> string \<Rightarrow> srtp_error + bytes" where
  "deriveHbhSrtpKeyWithLabels hbhKey saltLabel keyLabel =
     (if length hbhKey \<noteq> 30 then Inl ErrBadHbhKeyLen
      else
        let masterKey = slice hbhKey 0 16; masterSalt = slice hbhKey 16 30
        in case HKDFSHA256 (replicate 32 0) masterSalt (bytes_of saltLabel) 32 of
             None \<Rightarrow> Inl ErrHkdf
           | Some srtcpSalt \<Rightarrow> hkdf_result (HKDFSHA256 srtcpSalt masterKey (bytes_of keyLabel) 30))"

definition DeriveHbhSrtpKeyUplink :: "bytes \<Rightarrow> srtp_error + bytes" where
  "DeriveHbhSrtpKeyUplink hbhKey =
     deriveHbhSrtpKeyWithLabels hbhKey ''uplink hbh srtcp salt'' ''uplink hbh srtcp key''"

definition DeriveHbhSrtpKeyDownlink :: "bytes \<Rightarrow> srtp_error + bytes" where
  "DeriveHbhSrtpKeyDownlink hbhKey =
     deriveHbhSrtpKeyWithLabels hbhKey ''downlink hbh srtcp salt'' ''downlink hbh srtcp key''"

definition KeyingFromHbhKeyUplink :: "bytes \<Rightarrow> srtp_error + SrtpKeyingMaterial" where
  "KeyingFromHbhKeyUplink hbhKey =
     (case DeriveHbhSrtpKeyUplink hbhKey of Inl e \<Rightarrow> Inl e | Inr k \<Rightarrow> Inr (keyingFromCryptoKey k))"

definition KeyingFromHbhKeyDownlink :: "bytes \<Rightarrow> srtp_error + SrtpKeyingMaterial" where
  "KeyingFromHbhKeyDownlink hbhKey =
     (case DeriveHbhSrtpKeyDownlink hbhKey of Inl e \<Rightarrow> Inl e | Inr k \<Rightarrow> Inr (keyingFromCryptoKey k))"

section \<open>Integer counter mode\<close>

definition aesICMKey30 :: "bytes \<Rightarrow> bytes \<Rightarrow> bytes" where
  "aesICMKey30 aesKey salt = take 16 aesKey @ take 14 salt"

definition icm_next :: "bytes \<Rightarrow> bytes" where
  "icm_next counter =
     (let c = counter[15 := counter ! 15 + 1]
      in if c ! 15 = 0 then c[14 := c ! 14 + 1] else c)"

text \<open>The loop over the remaining data, one block a turn.\<close>

function icm_loop :: "bytes \<Rightarrow> bytes \<Rightarrow> bytes \<Rightarrow> bytes" where
  "icm_loop aesKey counter out =
     (if out = [] then []
      else xor_bytes (take 16 out) (aes_encrypt aesKey counter) @
        icm_loop aesKey (icm_next counter) (drop 16 out))"
  by pat_completeness auto
termination
  by (relation "measure (\<lambda>(k, c, out). length out)") auto

declare icm_loop.simps [simp del]

definition aesICMCrypt :: "bytes \<Rightarrow> bytes \<Rightarrow> bytes \<Rightarrow> bytes" where
  "aesICMCrypt key30 iv16 data =
     (let aesKey = take 16 key30; salt = slice key30 16 30;
          counter = xor_bytes (salt @ [0, 0]) iv16
      in icm_loop aesKey counter data)"

definition deriveSessionBytes :: "bytes \<Rightarrow> bytes \<Rightarrow> u8 \<Rightarrow> nat \<Rightarrow> bytes" where
  "deriveSessionBytes masterKey masterSalt label n =
     aesICMCrypt (aesICMKey30 masterKey masterSalt) ((replicate 16 0)[7 := label]) (replicate n 0)"

definition ExpandLibsrtpSessionKeys :: "SrtpKeyingMaterial \<Rightarrow> LibsrtpSessionKeys" where
  "ExpandLibsrtpSessionKeys keying =
     \<lparr>SessionKey = deriveSessionBytes (MasterKey keying) (MasterSalt keying) labelRTPEncryption 16,
      SessionSalt = deriveSessionBytes (MasterKey keying) (MasterSalt keying) labelRTPSalt 14,
      SessionAuthKey = deriveSessionBytes (MasterKey keying) (MasterSalt keying) labelRTPAuth 20\<rparr>"

definition BuildRtpICMNonce :: "u32 \<Rightarrow> u64 \<Rightarrow> bytes" where
  "BuildRtpICMNonce ssrc packetIndex = replicate 4 0 @ be32 ssrc @ be64 (push_bit 16 packetIndex)"

definition CryptRtpPayload :: "LibsrtpSessionKeys \<Rightarrow> u32 \<Rightarrow> u64 \<Rightarrow> bytes \<Rightarrow> bytes" where
  "CryptRtpPayload session ssrc packetIndex payload =
     aesICMCrypt (aesICMKey30 (SessionKey session) (SessionSalt session))
       (BuildRtpICMNonce ssrc packetIndex) payload"

section \<open>The interface of a length-preserving involutive cipher\<close>

text \<open>
  Both counter modes of the code are used the same way: a packet is a clear header followed by the
  encrypted body, and running the cipher again under the same key and nonce restores the body.
\<close>

locale packet_cipher =
  fixes crypt :: "'k \<Rightarrow> 'n \<Rightarrow> bytes \<Rightarrow> bytes"
  assumes crypt_crypt: "crypt k n (crypt k n d) = d"
    and crypt_length: "length (crypt k n d) = length d"
begin

lemma crypt_inj: "crypt k n a = crypt k n b \<longleftrightarrow> a = b"
  by (metis crypt_crypt)

lemma open_packet:
  "length h = m \<Longrightarrow> take m (h @ crypt k n d @ t) = h \<and>
     crypt k n (slice (h @ crypt k n d @ t) m (m + length d)) = d"
  by (simp add: slice_def crypt_length crypt_crypt)

end

interpretation aes_ctr: packet_cipher ctr_crypt
  by unfold_locales simp_all

interpretation aes_gcm: packet_cipher gcm_crypt
  by unfold_locales simp_all

lemma length_icm_loop [simp]: "length (icm_loop k c d) = length d"
  by (induction k c d rule: icm_loop.induct) (subst icm_loop.simps, auto)

lemma icm_loop_involution: "icm_loop k c (icm_loop k c d) = d"
proof (induction k c d rule: icm_loop.induct)
  case (1 k c d)
  show ?case
  proof (cases "d = []")
    case True
    then show ?thesis by (simp add: icm_loop.simps)
  next
    case False
    let ?x = "xor_bytes (take 16 d) (aes_encrypt k c)"
    have x: "length ?x = min 16 (length d)" by simp
    have unf: "icm_loop k c d = ?x @ icm_loop k (icm_next c) (drop 16 d)"
      using False by (subst icm_loop.simps) simp
    then have ne: "icm_loop k c d \<noteq> []" using False by (metis length_0_conv length_icm_loop)
    have "take 16 (icm_loop k c d) = ?x \<and> drop 16 (icm_loop k c d) = icm_loop k (icm_next c) (drop 16 d)"
      using x by (subst (1 2) unf) (cases "length d \<le> 16", auto simp: icm_loop.simps)
    then have "icm_loop k c (icm_loop k c d) = take 16 d @ drop 16 d"
      using ne 1 [OF False] by (subst icm_loop.simps) (simp add: xor_bytes_self_inverse)
    then show ?thesis by simp
  qed
qed

interpretation aes_icm: packet_cipher aesICMCrypt
  by unfold_locales (simp_all add: aesICMCrypt_def icm_loop_involution Let_def)

section \<open>Key schedules\<close>

lemma deriveHbhSrtpKeyWithLabels_total:
  assumes "length hbhKey = 30"
  shows "\<exists>k. deriveHbhSrtpKeyWithLabels hbhKey s l = Inr k \<and> length k = 30"
proof -
  obtain salt where salt:
      "HKDFSHA256 (replicate 32 0) (slice hbhKey 16 30) (bytes_of s) 32 = Some salt"
    using HKDFSHA256_total [of 32] by force
  obtain k where "HKDFSHA256 salt (slice hbhKey 0 16) (bytes_of l) 30 = Some k" "length k = 30"
    using HKDFSHA256_total [of 30] by force
  with salt assms show ?thesis
    by (simp add: deriveHbhSrtpKeyWithLabels_def hkdf_result_def)
qed

lemma wf_keyingFromCryptoKey: "length k = 30 \<Longrightarrow> wf_keying (keyingFromCryptoKey k)"
  by (simp add: wf_keying_def keyingFromCryptoKey_def)

text \<open>The hop-by-hop key schedule accepts exactly the 30-byte keys: for such a key both
  directions yield key material of the array sizes and the libsrtp expansion yields session keys of
  the array sizes; every other length is refused with the bad-length error in both directions.\<close>

theorem hbh_key_schedule:
  "if length hbhKey = 30
   then \<exists>u d. KeyingFromHbhKeyUplink hbhKey = Inr u \<and> KeyingFromHbhKeyDownlink hbhKey = Inr d \<and>
     wf_keying u \<and> wf_keying d \<and>
     wf_session (ExpandLibsrtpSessionKeys u) \<and> wf_session (ExpandLibsrtpSessionKeys d)
   else KeyingFromHbhKeyUplink hbhKey = Inl ErrBadHbhKeyLen \<and>
     KeyingFromHbhKeyDownlink hbhKey = Inl ErrBadHbhKeyLen"
proof (cases "length hbhKey = 30")
  case True
  obtain u d where
      "DeriveHbhSrtpKeyUplink hbhKey = Inr u" "length u = 30"
      "DeriveHbhSrtpKeyDownlink hbhKey = Inr d" "length d = 30"
    using deriveHbhSrtpKeyWithLabels_total [OF True]
    unfolding DeriveHbhSrtpKeyUplink_def DeriveHbhSrtpKeyDownlink_def by metis
  with True show ?thesis
    by (simp add: KeyingFromHbhKeyUplink_def KeyingFromHbhKeyDownlink_def wf_keyingFromCryptoKey
      wf_session_def ExpandLibsrtpSessionKeys_def deriveSessionBytes_def aes_icm.crypt_length)
next
  case False
  then show ?thesis
    by (simp add: KeyingFromHbhKeyUplink_def KeyingFromHbhKeyDownlink_def DeriveHbhSrtpKeyUplink_def
      DeriveHbhSrtpKeyDownlink_def deriveHbhSrtpKeyWithLabels_def)
qed

section \<open>Integer counter mode against counter mode\<close>

text \<open>The low 16 bits of the counter after \<open>i\<close> steps of \<open>icm_next\<close>.\<close>

definition icm_counter :: "bytes \<Rightarrow> nat \<Rightarrow> bytes" where
  "icm_counter c i = take 14 c @ nat_be 2 (be_nat (drop 14 c) + i)"

lemma icm_counter_0: "length c = 16 \<Longrightarrow> icm_counter c 0 = c"
  using nat_be_be_nat [of "drop 14 c"] by (simp add: icm_counter_def)

lemma be_nat_two: "be_nat [x, y] = unat x * 256 + unat y"
  by (simp add: be_nat_def)

lemma nat_be_two: "nat_be 2 v = [of_nat (v div 256), of_nat v]"
  by (simp add: numeral_2_eq_2)

lemma of_nat_low_byte: "(of_nat (n * 256 + unat y + 1) :: u8) = y + 1"
proof -
  have "(of_nat (n * 256 + unat y + 1) :: u8) = of_nat n * of_nat 256 + of_nat (unat y) + 1"
    by (simp only: of_nat_add of_nat_mult of_nat_1)
  moreover have "(of_nat 256 :: u8) = 0" by simp
  ultimately show ?thesis by (simp only: mult_zero_right add_0_left) simp
qed

lemma icm_next_two:
  assumes "length p = 14"
  shows "icm_next (p @ [x, y]) = p @ nat_be 2 (unat x * 256 + unat y + 1)"
proof (cases "y = 255")
  case True
  then have div: "(unat x * 256 + unat y + 1) div 256 = unat x + 1" by simp
  have "y + 1 = 0" using True by simp
  with of_nat_low_byte [of "unat x" y]
  have low: "(of_nat (unat x * 256 + unat y + 1) :: u8) = 0" by metis
  from \<open>y + 1 = 0\<close> show ?thesis
    unfolding nat_be_two div low using assms
    by (simp add: icm_next_def nth_append list_update_append Let_def)
next
  case False
  have lt: "unat y < 256" using unsigned_less [of y] by simp
  have ne: "unat y \<noteq> 255"
  proof
    assume "unat y = 255"
    then have "y = 255" by (simp add: word_unat_eq_iff)
    with False show False by simp
  qed
  have "y + 1 \<noteq> 0"
  proof
    assume *: "y + 1 = 0"
    have "y = (y + 1) - 1" by simp
    with * have "y = 255" by simp
    with False show False by simp
  qed
  moreover have div: "(unat x * 256 + unat y + 1) div 256 = unat x"
    using lt ne by simp
  ultimately show ?thesis
    unfolding nat_be_two div of_nat_low_byte
    using assms by (simp add: icm_next_def nth_append list_update_append Let_def)
qed

lemma icm_next_icm_counter:
  assumes "length c = 16"
  shows "icm_next (icm_counter c i) = icm_counter c (Suc i)"
proof -
  obtain x y where xy: "nat_be 2 (be_nat (drop 14 c) + i) = [x, y]"
    by (simp add: nat_be_two)
  have "unat x * 256 + unat y = (be_nat (drop 14 c) + i) mod 65536"
    using be_nat_nat_be [of 2 "be_nat (drop 14 c) + i"] xy by (simp add: be_nat_two)
  then have "nat_be 2 (unat x * 256 + unat y + 1) = nat_be 2 (be_nat (drop 14 c) + Suc i)"
    using be_nat_nat_be [of 2] by (intro be_nat_inject) (simp_all add: mod_simps)
  with xy show ?thesis
    using assms icm_next_two [of "take 14 c" x y] by (simp add: icm_counter_def)
qed

lemma icm_counter_ctr_block:
  assumes "length c = 16" and "be_nat (drop 14 c) + i < 65536"
  shows "icm_counter c i = ctr_block c i"
proof -
  have c: "be_nat c = be_nat (take 14 c) * 65536 + be_nat (drop 14 c)"
    using be_nat_append [of "take 14 c" "drop 14 c"] assms(1) by simp
  have b: "be_nat (take 14 c) < 256 ^ 14"
    using be_nat_bound [of "take 14 c"] assms(1) by simp
  have "be_nat (icm_counter c i) = be_nat (take 14 c) * 65536 + (be_nat (drop 14 c) + i)"
    using assms(2) by (simp add: icm_counter_def be_nat_append be_nat_nat_be)
  moreover have "be_nat (ctr_block c i) = be_nat (take 14 c) * 65536 + (be_nat (drop 14 c) + i)"
    using b assms(2) unfolding ctr_block_def be_nat_nat_be c by simp
  ultimately show ?thesis
    using assms(1) by (intro be_nat_inject) (simp_all add: icm_counter_def ctr_block_def)
qed

lemma xor_bytes_append2:
  "xor_bytes d (e @ ks) = xor_bytes (take (length e) d) e @ xor_bytes (drop (length e) d) ks"
  by (simp add: xor_bytes_def zip_append2)

lemma xor_bytes_take: "xor_bytes d (take (length d) ks) = xor_bytes d ks"
  by (rule nth_equalityI) (auto simp: xor_bytes_def)

lemma icm_loop_keystream:
  assumes "length c = 16"
  shows "icm_loop k (icm_counter c j) d =
    xor_bytes d (concat (map (\<lambda>i. aes_encrypt k (icm_counter c i)) [j..<j + (length d + 15) div 16]))"
proof (induction "length d" arbitrary: j d rule: less_induct)
  case less
  show ?case
  proof (cases "d = []")
    case True
    then show ?thesis by (simp add: icm_loop.simps xor_bytes_def)
  next
    case False
    have n: "(length d + 15) div 16 = Suc ((length (drop 16 d) + 15) div 16)"
      using False by (cases "length d \<le> 16") (auto simp: div_add_self2 le_Suc_eq neq_Nil_conv dest: le_imp_diff_is_add)
    have "icm_loop k (icm_counter c (Suc j)) (drop 16 d) =
        xor_bytes (drop 16 d) (concat (map (\<lambda>i. aes_encrypt k (icm_counter c i))
          [Suc j..<Suc j + (length (drop 16 d) + 15) div 16]))"
      using less(1) [of "drop 16 d" "Suc j"] False by simp
    then show ?thesis
      unfolding n using False
      by (subst icm_loop.simps)
        (simp add: icm_next_icm_counter [OF assms] upt_conv_Cons xor_bytes_append2 del: upt_Suc)
  qed
qed

text \<open>Libsrtp's two-byte counter agrees with the standard 128-bit counter mode as long as the
  counter of no block carries out of the low 16 bits, and only the rest of the counter tells them
  apart: for a 16-byte start counter \<open>c\<close> the two keystreams give the same output on every payload
  of at most \<open>65536 - (the low 16 bits of c)\<close> blocks.\<close>

theorem icm_loop_is_ctr:
  assumes "length c = 16" and "be_nat (drop 14 c) + (length d + 15) div 16 \<le> 65536"
  shows "icm_loop k c d = ctr_crypt k c d"
proof -
  have "map (\<lambda>i. aes_encrypt k (icm_counter c i)) [0..<(length d + 15) div 16] =
      map (\<lambda>i. aes_encrypt k (ctr_block c i)) [0..<(length d + 15) div 16]"
    using assms by (intro map_cong) (auto simp: icm_counter_ctr_block)
  with icm_loop_keystream [OF assms(1), of k 0 d] show ?thesis
    using assms(1)
    by (simp add: icm_counter_0 ctr_crypt_def keystream_def xor_bytes_take)
qed

lemma icm_loop_is_ctr_witness:
  "icm_loop (replicate 16 1) (replicate 16 1) [1, 2, 3] = ctr_crypt (replicate 16 1) (replicate 16 1) [1, 2, 3]"
  by (rule icm_loop_is_ctr) (simp_all add: be_nat_def numeral_2_eq_2)

end
