(* ===== verification/E2e.thy ===== *)
theory E2e
  imports Hbh
begin

text \<open>
  srtp/e2e.go: the end-to-end session keys of a participant, the payload cipher, the protection of
  RTCP packets, and the two trackers of the rollover counter.
\<close>

record E2eSrtpKeys =
  CipherKey :: bytes
  Salt :: bytes
  AuthKey :: bytes

definition wf_keys :: "E2eSrtpKeys \<Rightarrow> bool" where
  "wf_keys k \<longleftrightarrow> length (CipherKey k) = 16 \<and> length (Salt k) = 14 \<and> length (AuthKey k) = 20"

definition SrtcpAuthTagLen :: nat where "SrtcpAuthTagLen = 10"
definition SrtcpTrailerLen :: nat where "SrtcpTrailerLen = 4 + SrtcpAuthTagLen"
definition rtcpHeaderLen :: nat where "rtcpHeaderLen = 8"

section \<open>Key derivation\<close>

definition aesCmKdf :: "bytes \<Rightarrow> bytes \<Rightarrow> u8 \<Rightarrow> nat \<Rightarrow> bytes" where
  "aesCmKdf masterKey masterSalt label n =
     (let iv = take 14 masterSalt @ [0, 0]
      in ctr_crypt masterKey (iv[7 := iv ! 7 XOR label]) (replicate n 0))"

definition deriveSessionKeysFromMasterLabels :: "bytes \<Rightarrow> u8 \<Rightarrow> u8 \<Rightarrow> u8 \<Rightarrow> E2eSrtpKeys" where
  "deriveSessionKeysFromMasterLabels master cipherLabel authLabel saltLabel =
     (let masterKey = slice master 0 16; masterSalt = slice master 16 30
      in \<lparr>CipherKey = aesCmKdf masterKey masterSalt cipherLabel 16,
          Salt = aesCmKdf masterKey masterSalt saltLabel 14,
          AuthKey = aesCmKdf masterKey masterSalt authLabel 20\<rparr>)"

definition deriveSessionKeysFromMaster :: "bytes \<Rightarrow> E2eSrtpKeys" where
  "deriveSessionKeysFromMaster master = deriveSessionKeysFromMasterLabels master 0x00 0x01 0x02"

definition DeriveE2eKeys :: "bytes \<Rightarrow> string \<Rightarrow> srtp_error + E2eSrtpKeys" where
  "DeriveE2eKeys callKey participantLid =
     (if length callKey < 32 then Inl ErrShortKey
      else case HKDFSHA256 (replicate 32 0) (take 32 callKey) (bytes_of participantLid) 46 of
             None \<Rightarrow> Inl ErrHkdf
           | Some master \<Rightarrow> Inr (deriveSessionKeysFromMaster master))"

definition DeriveE2eSrtcpKeys :: "bytes \<Rightarrow> string \<Rightarrow> srtp_error + E2eSrtpKeys" where
  "DeriveE2eSrtcpKeys callKey participantLid =
     (if length callKey < 32 then Inl ErrShortKey
      else case HKDFSHA256 (replicate 32 0) (take 32 callKey) (bytes_of participantLid) 46 of
             None \<Rightarrow> Inl ErrHkdf
           | Some master \<Rightarrow> Inr (deriveSessionKeysFromMasterLabels master 0x03 0x04 0x05))"

definition DeriveE2eKeysFromRaw :: "bytes \<Rightarrow> string \<Rightarrow> srtp_error + E2eSrtpKeys" where
  "DeriveE2eKeysFromRaw rawE2e participantLid =
     (if length rawE2e < 32 then Inl ErrShortKey
      else case HKDFSHA256 (replicate 32 0) (take 32 rawE2e) (bytes_of participantLid) 46 of
             None \<Rightarrow> Inl ErrHkdf
           | Some master \<Rightarrow> Inr (deriveSessionKeysFromMaster master))"

lemma length_aesCmKdf [simp]: "length (aesCmKdf k s l n) = n"
  by (simp add: aesCmKdf_def Let_def)

lemma wf_deriveSessionKeys [simp]:
  "wf_keys (deriveSessionKeysFromMasterLabels m a b c)" "wf_keys (deriveSessionKeysFromMaster m)"
  by (simp_all add: deriveSessionKeysFromMaster_def deriveSessionKeysFromMasterLabels_def
      wf_keys_def Let_def)

lemma DeriveE2eKeys_total:
  "32 \<le> length callKey \<Longrightarrow> \<exists>k. DeriveE2eKeys callKey lid = Inr k \<and> wf_keys k"
  using HKDFSHA256_total [of 46 "replicate 32 0" "take 32 callKey" "bytes_of lid"]
  by (auto simp: DeriveE2eKeys_def)

lemma DeriveE2eSrtcpKeys_total:
  "32 \<le> length callKey \<Longrightarrow> \<exists>k. DeriveE2eSrtcpKeys callKey lid = Inr k \<and> wf_keys k"
  using HKDFSHA256_total [of 46 "replicate 32 0" "take 32 callKey" "bytes_of lid"]
  by (auto simp: DeriveE2eSrtcpKeys_def)

section \<open>The payload cipher\<close>

definition xor_at :: "nat \<Rightarrow> u8 \<Rightarrow> bytes \<Rightarrow> bytes" where
  "xor_at i v b = b[i := b ! i XOR v]"

text \<open>The salt has 14 bytes (the array type), so the offset \<open>14 - len(salt)\<close> is not negative.\<close>

definition BuildE2eRtpIV :: "bytes \<Rightarrow> u32 \<Rightarrow> u32 \<Rightarrow> u16 \<Rightarrow> bytes" where
  "BuildE2eRtpIV salt ssrc roc seq =
     (let iv0 = replicate (14 - length salt) 0 @ salt @ [0, 0];
          packetIndex = (ucast roc :: u64) * 0x10000 + ucast seq;
          hi16 = (ucast (drop_bit 32 packetIndex AND 0xffff) :: u16);
          lo32 = (ucast (packetIndex AND 0xffffffff) :: u32);
          iv1 = xor_at 7 (ucast ssrc) (xor_at 6 (ucast (drop_bit 8 ssrc))
                  (xor_at 5 (ucast (drop_bit 16 ssrc)) (xor_at 4 (ucast (drop_bit 24 ssrc)) iv0)));
          iv2 = xor_at 9 (ucast hi16) (xor_at 8 (ucast (drop_bit 8 hi16)) iv1)
      in xor_at 13 (ucast lo32) (xor_at 12 (ucast (drop_bit 8 lo32))
           (xor_at 11 (ucast (drop_bit 16 lo32)) (xor_at 10 (ucast (drop_bit 24 lo32)) iv2))))"

definition CryptPayload :: "E2eSrtpKeys \<Rightarrow> u32 \<Rightarrow> u16 \<Rightarrow> u32 \<Rightarrow> bytes \<Rightarrow> bytes" where
  "CryptPayload keys ssrc seq roc payload =
     ctr_crypt (CipherKey keys) (BuildE2eRtpIV (Salt keys) ssrc roc seq) payload"

lemma length_CryptPayload [simp]: "length (CryptPayload keys ssrc seq roc p) = length p"
  by (simp add: CryptPayload_def)

lemma CryptPayload_involution [simp]:
  "CryptPayload keys ssrc seq roc (CryptPayload keys ssrc seq roc p) = p"
  by (simp add: CryptPayload_def)

interpretation e2e_cipher: packet_cipher "\<lambda>keys (ssrc, seq, roc). CryptPayload keys ssrc seq roc"
  by unfold_locales (simp_all split: prod.splits)

section \<open>SRTCP\<close>

definition ProtectSrtcp :: "E2eSrtpKeys \<Rightarrow> u32 \<Rightarrow> u32 \<Rightarrow> bytes \<Rightarrow> bytes" where
  "ProtectSrtcp keys senderSsrc index rtcp =
     (let split = (if rtcpHeaderLen < length rtcp then rtcpHeaderLen else length rtcp);
          body = CryptPayload keys senderSsrc (ucast index) (drop_bit 16 index) (drop split rtcp);
          out = take split rtcp @ body @ be32 (0x80000000 OR index)
      in out @ take SrtcpAuthTagLen (hmac_sha1 (AuthKey keys) out))"

definition UnprotectSrtcp :: "E2eSrtpKeys \<Rightarrow> u32 \<Rightarrow> bytes \<Rightarrow> (bytes \<times> u32) option" where
  "UnprotectSrtcp keys senderSsrc packet =
     (if length packet < rtcpHeaderLen + SrtcpTrailerLen then None
      else
        let tagStart = length packet - SrtcpAuthTagLen
        in if drop tagStart packet \<noteq>
             take SrtcpAuthTagLen (hmac_sha1 (AuthKey keys) (take tagStart packet)) then None
           else
             let indexStart = tagStart - 4;
                 index = get32 (drop indexStart packet) AND 0x7fffffff;
                 body = CryptPayload keys senderSsrc (ucast index) (drop_bit 16 index)
                   (slice packet rtcpHeaderLen indexStart)
             in Some (take rtcpHeaderLen packet @ body, index))"

section \<open>Rollover counters\<close>

record RocTracker =
  sendRoc :: u32
  lastSeq :: u16
  sendInit :: bool

definition RocTracker_Advance :: "RocTracker \<Rightarrow> u16 \<Rightarrow> u32 \<times> RocTracker" where
  "RocTracker_Advance t seq =
     (if \<not> sendInit t then (sendRoc t, t\<lparr>lastSeq := seq, sendInit := True\<rparr>)
      else
        let r = (if uint seq - uint (lastSeq t) < -32768 then sendRoc t + 1 else sendRoc t)
        in (r, t\<lparr>sendRoc := r, lastSeq := seq\<rparr>))"

record RecvRocTracker =
  recvRoc :: u32
  sL :: u16
  recvInit :: bool

definition GuessRoc :: "RecvRocTracker \<Rightarrow> u16 \<Rightarrow> u32 \<times> RecvRocTracker" where
  "GuessRoc t seq =
     (if \<not> recvInit t then (recvRoc t, t\<lparr>sL := seq, recvInit := True\<rparr>)
      else
        let v = (if sL t < 0x8000
                 then (if uint seq - uint (sL t) > 0x8000 then recvRoc t - 1 else recvRoc t)
                 else if uint (sL t) - uint seq > 0x8000 then recvRoc t + 1 else recvRoc t)
        in (v, if v = recvRoc t then (if seq > sL t then t\<lparr>sL := seq\<rparr> else t)
               else if v = recvRoc t + 1 then t\<lparr>recvRoc := v, sL := seq\<rparr> else t))"


subsection \<open>The send side\<close>

text \<open>
  A tracker that follows a packet index \<open>h\<close>, counted from 0 at the first wrap-free epoch: its
  counter is the high part and its sequence number the low 16 bits of \<open>h\<close>.
\<close>

definition sends_at :: "RocTracker \<Rightarrow> nat \<Rightarrow> bool" where
  "sends_at t h \<longleftrightarrow> sendInit t \<and> sendRoc t = of_nat (h div 65536) \<and> lastSeq t = of_nat h"

definition receives_at :: "RecvRocTracker \<Rightarrow> nat \<Rightarrow> bool" where
  "receives_at t h \<longleftrightarrow> recvInit t \<and> recvRoc t = of_nat (h div 65536) \<and> sL t = of_nat h"

lemma uint_of_nat_u16: "uint (of_nat n :: u16) = int (n mod 65536)"
  by (simp add: uint_nat unat_of_nat)

text \<open>The arithmetic of a 16-bit window, on an index split into its epoch and its sequence number.\<close>

lemma epoch_send:
  fixes a b c d :: nat
  assumes "b < 65536" "d < 65536" "65536 * a + b \<le> 65536 * c + d" "65536 * c + d \<le> 65536 * a + b + 32767"
  shows "int d - int b < -32768 \<Longrightarrow> c = Suc a" and "\<not> int d - int b < -32768 \<Longrightarrow> c = a"
  using assms by linarith+

lemma epoch_recv:
  fixes a b c d :: nat
  assumes "b < 65536" "d < 65536" "65536 * c + d < 65536 * a + b + 32768" "65536 * a + b < 65536 * c + d + 32768"
  shows "b < 32768 \<Longrightarrow> 32768 < int d - int b \<Longrightarrow> a = Suc c"
    and "b < 32768 \<Longrightarrow> \<not> 32768 < int d - int b \<Longrightarrow> a = c"
    and "\<not> b < 32768 \<Longrightarrow> 32768 < int b - int d \<Longrightarrow> c = Suc a"
    and "\<not> b < 32768 \<Longrightarrow> \<not> 32768 < int b - int d \<Longrightarrow> a = c"
  using assms by linarith+

lemma index_split: "65536 * (n div 65536) + n mod 65536 = (n :: nat)" "n mod 65536 < (65536 :: nat)"
  by simp_all

lemma send_step:
  assumes "sends_at t h" and "h \<le> n" and "n \<le> h + 32767"
  shows "fst (RocTracker_Advance t (of_nat n)) = of_nat (n div 65536) \<and>
    sends_at (snd (RocTracker_Advance t (of_nat n))) n"
proof -
  have "n div 65536 = (if int (n mod 65536) - int (h mod 65536) < -32768
      then Suc (h div 65536) else h div 65536)"
    using epoch_send [OF index_split(2) index_split(2), of "h div 65536" h "n div 65536" n] assms(2,3)
    by (simp add: index_split(1))
  with assms(1) show ?thesis
    by (auto simp: sends_at_def RocTracker_Advance_def Let_def uint_of_nat_u16)
qed

fun send_rocs :: "RocTracker \<Rightarrow> u16 list \<Rightarrow> u32 list" where
  "send_rocs t [] = []"
| "send_rocs t (s # ss) = (case RocTracker_Advance t s of (r, t') \<Rightarrow> r # send_rocs t' ss)"

fun recv_rocs :: "RecvRocTracker \<Rightarrow> u16 list \<Rightarrow> u32 list" where
  "recv_rocs t [] = []"
| "recv_rocs t (s # ss) = (case GuessRoc t s of (r, t') \<Rightarrow> r # recv_rocs t' ss)"

fun ascending_within :: "nat \<Rightarrow> nat \<Rightarrow> nat list \<Rightarrow> bool" where
  "ascending_within g h [] \<longleftrightarrow> True"
| "ascending_within g h (n # ns) \<longleftrightarrow> h \<le> n \<and> n \<le> h + g \<and> ascending_within g n ns"

lemma send_rocs_follow:
  "sends_at t h \<Longrightarrow> ascending_within 32767 h ns \<Longrightarrow>
   send_rocs t (map of_nat ns) = map (\<lambda>n. of_nat (n div 65536)) ns"
proof (induction ns arbitrary: t h)
  case Nil
  then show ?case by simp
next
  case (Cons n ns)
  then show ?case
    using send_step [of t h n] by (auto split: prod.splits)
qed

subsection \<open>The receive side\<close>

lemma unat_of_nat_u16: "unat (of_nat n :: u16) = n mod 65536"
  by (simp add: unat_of_nat)

lemma max_same_epoch:
  assumes "h div 65536 = n div 65536"
  shows "max h n = (if h mod 65536 < n mod 65536 then n else h :: nat)"
proof -
  have "h < n \<longleftrightarrow> h mod 65536 < n mod 65536"
    using assms index_split(1) [of h] index_split(1) [of n] by linarith
  then show ?thesis by (auto simp: max_def)
qed

lemma max_other_epoch: "h div 65536 = Suc (n div 65536) \<Longrightarrow> max h n = (h :: nat) \<and> max n h = h"
  using index_split [of h] index_split [of n] by (simp add: max_def)

lemma recv_step:
  assumes "receives_at t h" and "n < h + 32768" and "h < n + 32768"
  shows "fst (GuessRoc t (of_nat n)) = of_nat (n div 65536) \<and>
    receives_at (snd (GuessRoc t (of_nat n))) (max h n)"
proof -
  let ?hr = "of_nat (h div 65536) :: u32" and ?nr = "of_nat (n div 65536) :: u32"
  have t: "recvInit t" "recvRoc t = ?hr" "sL t = of_nat h"
    using assms(1) by (simp_all add: receives_at_def)
  have lt: "sL t < 0x8000 \<longleftrightarrow> h mod 65536 < 32768"
    "of_nat n > sL t \<longleftrightarrow> h mod 65536 < n mod 65536"
    by (simp_all add: t word_less_nat_alt unat_of_nat_u16)
  note ar = epoch_recv [OF index_split(2) index_split(2), of "n div 65536" n "h div 65536" h,
      unfolded index_split(1), OF assms(2,3)]
  show ?thesis
  proof (cases "h mod 65536 < 32768")
    case True
    show ?thesis
    proof (cases "32768 < int (n mod 65536) - int (h mod 65536)")
      case gt: True
      then have "?hr = ?nr + 1" "max h n = h" using max_other_epoch True ar(1) by simp_all
      then show ?thesis
        using True gt t lt by (auto simp: GuessRoc_def Let_def uint_of_nat_u16 receives_at_def)
    next
      case le: False
      then have "h div 65536 = n div 65536" using True ar(2) by simp
      then have "?hr = ?nr" "max h n = (if h mod 65536 < n mod 65536 then n else h)"
        by (simp_all only: max_same_epoch)
      then show ?thesis
        using True le t lt by (auto simp: GuessRoc_def Let_def uint_of_nat_u16 receives_at_def)
    qed
  next
    case False
    show ?thesis
    proof (cases "32768 < int (h mod 65536) - int (n mod 65536)")
      case gt: True
      then have "?nr = ?hr + 1" "max h n = n" using max_other_epoch False ar(3) by simp_all
      then show ?thesis
        using False gt t lt by (auto simp: GuessRoc_def Let_def uint_of_nat_u16 receives_at_def)
    next
      case le: False
      then have "h div 65536 = n div 65536" using False ar(4) by simp
      then have "?hr = ?nr" "max h n = (if h mod 65536 < n mod 65536 then n else h)"
        by (simp_all only: max_same_epoch)
      then show ?thesis
        using False le t lt by (auto simp: GuessRoc_def Let_def uint_of_nat_u16 receives_at_def)
    qed
  qed
qed

text \<open>Packets that arrive in any order, each less than 32768 away from the newest one seen.\<close>

fun near_newest :: "nat \<Rightarrow> nat list \<Rightarrow> bool" where
  "near_newest h [] \<longleftrightarrow> True"
| "near_newest h (n # ns) \<longleftrightarrow> n < h + 32768 \<and> h < n + 32768 \<and> near_newest (max h n) ns"

lemma recv_rocs_follow:
  "receives_at t h \<Longrightarrow> near_newest h ns \<Longrightarrow>
   recv_rocs t (map of_nat ns) = map (\<lambda>n. of_nat (n div 65536)) ns"
proof (induction ns arbitrary: t h)
  case Nil
  then show ?case by simp
next
  case (Cons n ns)
  then show ?case
    using recv_step [of t h n] by (auto split: prod.splits)
qed

section \<open>The initialisation vector\<close>

lemma packet_index_or:
  "(ucast (r :: u32) :: u64) * 0x10000 + ucast (q :: u16) = push_bit 16 (ucast r) OR ucast q"
proof -
  have "(ucast r :: u64) * 0x10000 = push_bit 16 (ucast r)" by (simp add: push_bit_eq_mult)
  moreover have "push_bit 16 (ucast r) AND ucast q = (0 :: u64)"
    by (rule bit_word_eqI) (auto simp: bit_simps)
  ultimately show ?thesis by (simp add: disjunctive_add_eq_or)
qed

lemma packet_index_bytes:
  fixes r :: u32 and q :: u16
  defines "p \<equiv> push_bit 16 (ucast r) OR ucast q :: u64"
  defines "hi \<equiv> (ucast (drop_bit 32 p AND 0xffff) :: u16)" and "lo \<equiv> (ucast (p AND 0xffffffff) :: u32)"
  shows "(ucast (drop_bit 8 hi) :: u8) = ucast (drop_bit 24 r)" "(ucast hi :: u8) = ucast (drop_bit 16 r)"
    "(ucast (drop_bit 24 lo) :: u8) = ucast (drop_bit 8 r)" "(ucast (drop_bit 16 lo) :: u8) = ucast r"
    "(ucast (drop_bit 8 lo) :: u8) = ucast (drop_bit 8 q)" "(ucast lo :: u8) = ucast q"
proof -
  have hi: "hi = ucast (drop_bit 16 r)"
    by (rule bit_word_eqI) (auto simp: hi_def p_def bit_simps mask_ffff)
  have lo: "lo = push_bit 16 (ucast r) OR ucast q"
    by (rule bit_word_eqI) (auto simp: lo_def p_def bit_simps mask_ffffffff)
  show "(ucast (drop_bit 8 hi) :: u8) = ucast (drop_bit 24 r)" "(ucast hi :: u8) = ucast (drop_bit 16 r)"
    unfolding hi by (rule bit_word_eqI, force simp: bit_simps)+
  show "(ucast (drop_bit 24 lo) :: u8) = ucast (drop_bit 8 r)" "(ucast (drop_bit 16 lo) :: u8) = ucast r"
    "(ucast (drop_bit 8 lo) :: u8) = ucast (drop_bit 8 q)" "(ucast lo :: u8) = ucast q"
    unfolding lo by (rule bit_word_eqI, force simp: bit_simps)+
qed

lemma BuildE2eRtpIV_layout:
  assumes "length salt = 14"
  shows "BuildE2eRtpIV salt ssrc roc seq =
    xor_bytes (salt @ [0, 0]) (replicate 4 0 @ be32 ssrc @ be32 roc @ be16 seq @ [0, 0])"
proof -
  obtain s0 s1 s2 s3 s4 s5 s6 s7 s8 s9 s10 s11 s12 s13 where
    "salt = [s0, s1, s2, s3, s4, s5, s6, s7, s8, s9, s10, s11, s12, s13]"
    using assms by (auto simp: length_Suc_conv numeral_eq_Suc)
  then show ?thesis
    by (simp only: BuildE2eRtpIV_def packet_index_or packet_index_bytes Let_def)
      (simp add: xor_at_def xor_bytes_def be32_def be16_def numeral_eq_Suc)
qed

definition iv_index :: "u32 \<Rightarrow> u32 \<Rightarrow> u16 \<Rightarrow> bytes" where
  "iv_index ssrc r seq = replicate 4 0 @ be32 ssrc @ be32 r @ be16 seq"

lemma length_iv_index [simp]: "length (iv_index ssrc r seq) = 14"
  by (simp add: iv_index_def)

lemma iv_index_inject [simp]:
  "iv_index ssrc r seq = iv_index ssrc' r' seq' \<longleftrightarrow> ssrc = ssrc' \<and> r = r' \<and> seq = seq'"
  by (auto simp: iv_index_def append_eq_append_conv)

lemma xor_bytes_append:
  "length a = length c \<Longrightarrow> xor_bytes (a @ b) (c @ d) = xor_bytes a c @ xor_bytes b d"
  by (simp add: xor_bytes_def)

lemma xor_bytes_cancel:
  assumes "length a = length s" "length b = length s" "xor_bytes s a = xor_bytes s b"
  shows "a = b"
proof (rule nth_equalityI)
  fix i
  assume "i < length a"
  then have "s ! i XOR a ! i = s ! i XOR b ! i"
    using assms(1,2) arg_cong [OF assms(3), of "\<lambda>z. z ! i"] by simp
  then have "s ! i XOR (s ! i XOR a ! i) = s ! i XOR (s ! i XOR b ! i)" by simp
  then show "a ! i = b ! i" by (simp flip: xor.assoc)
qed (use assms in simp)

lemma BuildE2eRtpIV_split:
  "length salt = 14 \<Longrightarrow> BuildE2eRtpIV salt ssrc r seq = xor_bytes salt (iv_index ssrc r seq) @ [0, 0]"
  using xor_bytes_append [of salt "iv_index ssrc r seq" "[0, 0]" "[0, 0]"]
  by (simp add: BuildE2eRtpIV_layout iv_index_def) (simp add: xor_bytes_def)

lemma ctr_block_room:
  assumes "length a = 14" "i < 65536"
  shows "be_nat (ctr_block (a @ [0, 0]) i) = be_nat a * 65536 + i"
proof -
  have "be_nat [0, 0 :: u8] = 0" by (simp add: be_nat_def)
  moreover have "be_nat a < 256 ^ 14" using be_nat_bound [of a] assms(1) by simp
  ultimately show ?thesis
    using assms by (simp add: ctr_block_def be_nat_nat_be be_nat_append)
qed

text \<open>C32: no two payload blocks of a call are encrypted with the same key stream: under one salt,
  the counter blocks of two packets differ unless they are the same block of the packet with the
  same SSRC, rollover counter and sequence number.  A packet has room for 65536 blocks (1 MiB),
  since the last two bytes of the vector are zero.\<close>

theorem e2e_counter_blocks_distinct:
  assumes "length salt = 14" "i < 65536" "j < 65536"
    and "ctr_block (BuildE2eRtpIV salt ssrc r seq) i = ctr_block (BuildE2eRtpIV salt ssrc' r' seq') j"
  shows "ssrc = ssrc' \<and> r = r' \<and> seq = seq' \<and> i = j"
proof -
  let ?a = "xor_bytes salt (iv_index ssrc r seq)" and ?b = "xor_bytes salt (iv_index ssrc' r' seq')"
  have eq: "be_nat ?a * 65536 + i = be_nat ?b * 65536 + j"
    using assms ctr_block_room [of ?a i] ctr_block_room [of ?b j]
    by (simp add: BuildE2eRtpIV_split)
  have "i = (be_nat ?a * 65536 + i) mod 65536" using assms(2) by simp
  also have "\<dots> = (be_nat ?b * 65536 + j) mod 65536" by (simp only: eq)
  also have "\<dots> = j" using assms(3) by simp
  finally have "i = j" .
  with eq have "be_nat ?a = be_nat ?b" by simp
  then have "?a = ?b" using assms(1) by (intro be_nat_inject) simp_all
  then have "iv_index ssrc r seq = iv_index ssrc' r' seq'"
    by (rule xor_bytes_cancel [of _ salt, rotated 2]) (simp_all add: assms(1))
  with \<open>i = j\<close> show ?thesis by simp
qed

lemma e2e_counter_blocks_distinct_witness:
  "length (replicate 14 (7 :: u8)) = 14 \<and> (3 :: nat) < 65536 \<and>
   ctr_block (BuildE2eRtpIV (replicate 14 7) 5 0 9) 3 \<noteq> ctr_block (BuildE2eRtpIV (replicate 14 7) 5 1 9) 3"
  using e2e_counter_blocks_distinct [of "replicate 14 7" 3 3 5 0 9 5 1 9] by auto

section \<open>SRTCP round trip\<close>

lemma index_word_mask:
  fixes i :: u32
  shows "(0x80000000 OR i) AND 0x7fffffff = i AND 0x7fffffff"
proof -
  have "(0x80000000 :: u32) = 2 ^ 31" by simp
  then show ?thesis
    unfolding mask_7fffffff by (intro bit_word_eqI) (simp only: bit_simps, auto)
qed

lemma index_mask_small:
  fixes i :: u32
  assumes "i < 0x80000000"
  shows "i AND 0x7fffffff = i"
proof -
  have "take_bit 31 i = i"
    using assms by (simp add: word_unat_eq_iff unsigned_take_bit_eq take_bit_nat_eq_self word_less_nat_alt)
  then show ?thesis
    unfolding mask_7fffffff by (simp add: take_bit_eq_mask)
qed

lemma index_mask_bound: "(w :: u32) AND 0x7fffffff < 0x80000000"
proof -
  have "unat (take_bit 31 w) < 2 ^ 31"
    using take_bit_nat_less_exp [of 31 "unat w"] by (simp add: unsigned_take_bit_eq)
  then show ?thesis
    unfolding mask_7fffffff by (simp add: word_less_nat_alt flip: take_bit_eq_mask)
qed

lemma bit_flag_iff: "bit (0x80000000 :: u32) n \<longleftrightarrow> n = 31"
proof -
  have "(0x80000000 :: u32) = 2 ^ 31" by simp
  then show ?thesis by (simp only: bit_exp_iff) auto
qed

lemma index_word_flag:
  fixes w :: u32
  assumes "bit w 31"
  shows "0x80000000 OR (w AND 0x7fffffff) = w"
proof (rule bit_word_eqI)
  fix n
  assume "n < LENGTH(32)"
  with assms show "bit (0x80000000 OR (w AND 0x7fffffff)) n \<longleftrightarrow> bit w n"
    by (simp only: mask_7fffffff bit_or_iff bit_and_iff bit_mask_iff bit_flag_iff) auto
qed

lemma ProtectSrtcp_long:
  "8 \<le> length rtcp \<Longrightarrow> ProtectSrtcp keys ssrc i rtcp =
    (let out = take 8 rtcp @ CryptPayload keys ssrc (ucast i) (drop_bit 16 i) (drop 8 rtcp) @
       be32 (0x80000000 OR i)
     in out @ take 10 (hmac_sha1 (AuthKey keys) out))"
  by (cases "length rtcp = 8") (simp_all add: ProtectSrtcp_def rtcpHeaderLen_def SrtcpAuthTagLen_def Let_def)

lemma UnprotectSrtcp_parts:
  assumes "length p = n + 14" "8 \<le> n"
  shows "UnprotectSrtcp keys ssrc p =
    (if drop (n + 4) p \<noteq> take 10 (hmac_sha1 (AuthKey keys) (take (n + 4) p)) then None
     else let i = get32 (drop n p) AND 0x7fffffff
       in Some (take 8 p @ CryptPayload keys ssrc (ucast i) (drop_bit 16 i) (slice p 8 n), i))"
  using assms
  by (simp add: UnprotectSrtcp_def SrtcpAuthTagLen_def SrtcpTrailerLen_def rtcpHeaderLen_def Let_def)
    (simp add: add.commute)

lemma packet_split: "length out = n \<Longrightarrow> take n (out @ t) = out \<and> drop n (out @ t) = t"
  by simp

lemma srtcp_round_trip:
  assumes "8 \<le> length rtcp" and "i < 0x80000000"
  shows "UnprotectSrtcp keys ssrc (ProtectSrtcp keys ssrc i rtcp) = Some (rtcp, i)"
proof -
  let ?n = "length rtcp"
  let ?body = "CryptPayload keys ssrc (ucast i) (drop_bit 16 i) (drop 8 rtcp)"
  let ?out = "take 8 rtcp @ ?body @ be32 (0x80000000 OR i)"
  let ?p = "?out @ take 10 (hmac_sha1 (AuthKey keys) ?out)"
  have "length ?out = ?n + 4" using assms(1) by simp
  then have p: "length ?p = ?n + 14" "take (?n + 4) ?p = ?out"
      "drop (?n + 4) ?p = take 10 (hmac_sha1 (AuthKey keys) ?out)"
    using packet_split [of ?out "?n + 4"] by simp_all
  have parts: "take 8 ?p = take 8 rtcp"
    using assms(1) by (simp add: min_def)
  have parts': "slice ?p 8 ?n = ?body"
      "get32 (drop ?n ?p) = 0x80000000 OR i"
    using assms(1) by (simp_all add: slice_def)
  have "ProtectSrtcp keys ssrc i rtcp = ?p"
    using assms(1) by (simp only: ProtectSrtcp_long Let_def)
  moreover have "UnprotectSrtcp keys ssrc ?p = Some (rtcp, i)"
    by (simp only: UnprotectSrtcp_parts [OF p(1) assms(1)] p parts parts' index_word_mask
        index_mask_small [OF assms(2)] Let_def CryptPayload_involution append_take_drop_id) simp
  ultimately show ?thesis by simp
qed

lemma ProtectSrtcp_flag:
  assumes "8 \<le> length rtcp"
  shows "bit (ProtectSrtcp keys ssrc i rtcp ! (length (ProtectSrtcp keys ssrc i rtcp) - 14)) 7"
proof -
  have "length (take 8 rtcp @ CryptPayload keys ssrc (ucast i) (drop_bit 16 i) (drop 8 rtcp)) = length rtcp"
    using assms by simp
  moreover have "bit (be32 (0x80000000 OR i) ! 0) 7"
    by (simp add: be32_def bit_simps bit_flag_iff)
  ultimately show ?thesis
    using assms by (simp add: ProtectSrtcp_long Let_def nth_append)
qed

text \<open>SRTCP protection is undone by its inverse: for an RTCP packet with its 8-byte header and an
  index below \<open>2^31\<close>, the protected packet authenticates and decrypts to the packet and the index.\<close>

theorem UnprotectSrtcp_ProtectSrtcp:
  assumes "8 \<le> length rtcp" and "i < 0x80000000"
  shows "UnprotectSrtcp keys ssrc (ProtectSrtcp keys ssrc i rtcp) = Some (rtcp, i)"
  using assms by (rule srtcp_round_trip)

lemma UnprotectSrtcp_ProtectSrtcp_witness:
  "8 \<le> length (replicate 9 (1 :: u8)) \<and> (7 :: u32) < 0x80000000 \<and>
   UnprotectSrtcp \<lparr>CipherKey = replicate 16 2, Salt = replicate 14 3, AuthKey = replicate 20 4\<rparr> 77
     (ProtectSrtcp \<lparr>CipherKey = replicate 16 2, Salt = replicate 14 3, AuthKey = replicate 20 4\<rparr> 77 7
       (replicate 9 1)) = Some (replicate 9 1, 7)"
  using UnprotectSrtcp_ProtectSrtcp [of "replicate 9 1" 7] by simp

text \<open>C21: SRTCP accepts only what protection produces: whatever packet with the encryption flag set
  passes \<open>UnprotectSrtcp\<close> is, byte for byte, the protection of the packet and index it returns, and
  that index is below \<open>2^31\<close>.\<close>

theorem UnprotectSrtcp_authentic:
  assumes "UnprotectSrtcp keys ssrc p = Some (rtcp, i)"
    and "bit (p ! (length p - 14)) 7"
  shows "i < 0x80000000 \<and> ProtectSrtcp keys ssrc i rtcp = p"
proof -
  have l: "22 \<le> length p"
    using assms(1)
    by (auto simp: UnprotectSrtcp_def SrtcpAuthTagLen_def SrtcpTrailerLen_def rtcpHeaderLen_def
        split: if_splits)
  define n where "n = length p - 14"
  have n: "length p = n + 14" "8 \<le> n" using l by (simp_all add: n_def)
  let ?w = "get32 (drop n p)"
  have u: "drop (n + 4) p = take 10 (hmac_sha1 (AuthKey keys) (take (n + 4) p))"
    "i = ?w AND 0x7fffffff"
    "rtcp = take 8 p @ CryptPayload keys ssrc (ucast i) (drop_bit 16 i) (slice p 8 n)"
    using assms(1) UnprotectSrtcp_parts [OF n]
    by (auto simp: Let_def split: if_splits)
  have b4: "length (take 4 (drop n p)) = 4" using n by simp
  have "bit ?w 31"
    using assms(2) n b4 by (simp add: get32_def bit_simps)
  then have "0x80000000 OR i = ?w"
    unfolding u(2) by (rule index_word_flag)
  moreover have "be32 ?w = take 4 (drop n p)"
    using be32_get32 [OF b4] n by simp
  ultimately have w: "be32 (0x80000000 OR i) = take 4 (drop n p)" by simp
  have out: "take 8 rtcp @ CryptPayload keys ssrc (ucast i) (drop_bit 16 i) (drop 8 rtcp) @
      be32 (0x80000000 OR i) = take (n + 4) p"
    unfolding w using n u(3)
    by (simp add: slice_def take_add flip: append_assoc) 
      (metis (no_types, lifting) append_take_drop_id le_add_diff_inverse take_add)
  have "8 \<le> length rtcp" using n u(3) by simp
  then have "ProtectSrtcp keys ssrc i rtcp = take (n + 4) p @ drop (n + 4) p"
    by (simp only: ProtectSrtcp_long Let_def out u(1))
  moreover have "i < 0x80000000"
    unfolding u(2) by (rule index_mask_bound)
  ultimately show ?thesis by simp
qed

lemma UnprotectSrtcp_authentic_witness:
  "\<exists>p. UnprotectSrtcp \<lparr>CipherKey = replicate 16 2, Salt = replicate 14 3, AuthKey = replicate 20 4\<rparr> 77 p
      = Some (replicate 9 1, 7) \<and> bit (p ! (length p - 14)) 7 \<and>
    ProtectSrtcp \<lparr>CipherKey = replicate 16 2, Salt = replicate 14 3, AuthKey = replicate 20 4\<rparr> 77 7
      (replicate 9 1) = p"
proof -
  let ?k = "\<lparr>CipherKey = replicate 16 2, Salt = replicate 14 3, AuthKey = replicate 20 4\<rparr>"
  let ?p = "ProtectSrtcp ?k 77 7 (replicate 9 1)"
  have "UnprotectSrtcp ?k 77 ?p = Some (replicate 9 1, 7)" by (rule srtcp_round_trip) simp_all
  moreover have "bit (?p ! (length ?p - 14)) 7" by (rule ProtectSrtcp_flag) simp
  ultimately show ?thesis using UnprotectSrtcp_authentic [of ?k 77 ?p "replicate 9 1" 7] by blast
qed

section \<open>The trackers from their first packet\<close>

definition new_RocTracker :: RocTracker where
  "new_RocTracker = \<lparr>sendRoc = 0, lastSeq = 0, sendInit = False\<rparr>"

definition new_RecvRocTracker :: RecvRocTracker where
  "new_RecvRocTracker = \<lparr>recvRoc = 0, sL = 0, recvInit = False\<rparr>"

lemma div_65536_small: "n < 65536 \<Longrightarrow> n div 65536 = (0 :: nat)"
  by simp

lemma first_send: "n < 65536 \<Longrightarrow> fst (RocTracker_Advance new_RocTracker (of_nat n)) = of_nat (n div 65536) \<and>
    sends_at (snd (RocTracker_Advance new_RocTracker (of_nat n))) n"
  by (simp add: RocTracker_Advance_def new_RocTracker_def sends_at_def div_65536_small)

lemma first_recv: "n < 65536 \<Longrightarrow> fst (GuessRoc new_RecvRocTracker (of_nat n)) = of_nat (n div 65536) \<and>
    receives_at (snd (GuessRoc new_RecvRocTracker (of_nat n))) n"
  by (simp add: GuessRoc_def new_RecvRocTracker_def receives_at_def div_65536_small)

text \<open>The sender's tracker counts the wraps of the sequence number: over any run of packet indices
  that starts in the first epoch and goes up by at most 32767 a packet, the rollover counter
  returned for each packet is the number of times the 16-bit sequence number has wrapped.\<close>

theorem RocTracker_counts_wraps:
  assumes "n < 65536" and "ascending_within 32767 n ns"
  shows "send_rocs new_RocTracker (map of_nat (n # ns)) = map (\<lambda>k. of_nat (k div 65536)) (n # ns)"
  using first_send [OF assms(1)] send_rocs_follow [OF _ assms(2)] by (auto split: prod.splits)

lemma RocTracker_counts_wraps_witness:
  "send_rocs new_RocTracker (map of_nat [65000, 66000, 90000, 120000, 140000]) = [0, 1, 1, 1, 2]"
  using RocTracker_counts_wraps [of 65000 "[66000, 90000, 120000, 140000]"] by simp

text \<open>C18: the receiver's estimate is the sender's counter in spite of loss and reordering: for packets
  that arrive in any order, each less than 32768 away from the newest one so far, the guess for
  every packet is the number of wraps of its own index, also for the late packets of the epoch
  before.\<close>

theorem GuessRoc_exact:
  assumes "n < 65536" and "near_newest n ns"
  shows "recv_rocs new_RecvRocTracker (map of_nat (n # ns)) = map (\<lambda>k. of_nat (k div 65536)) (n # ns)"
  using first_recv [OF assms(1)] recv_rocs_follow [OF _ assms(2)] by (auto split: prod.splits)

lemma GuessRoc_exact_witness:
  "recv_rocs new_RecvRocTracker (map of_nat [65530, 65540, 65533, 98000, 65539]) = [0, 1, 0, 1, 1]"
  using GuessRoc_exact [of 65530 "[65540, 65533, 98000, 65539]"] by simp

end
