(* ===== verification/Sframe.thy ===== *)
theory Sframe
  imports Hbh
begin

text \<open>
  srtp/sframe.go: the per-direction frame encryption.  A frame is the GCM ciphertext with its tag,
  followed by a header (counter, key id, header length) that the receiver reads from the end.
\<close>

definition KDFLabelE2ESframe :: string where "KDFLabelE2ESframe = ''e2e sframe key''"
definition KDFLabelWarpAuth :: string where "KDFLabelWarpAuth = ''warp auth key''"
definition gcmTagLen :: nat where "gcmTagLen = 16"
definition aesKeyLen :: nat where "aesKeyLen = 16"

definition FormatSframeParticipantID :: "string \<Rightarrow> string" where
  "FormatSframeParticipantID jid = FormatParticipantID jid"

definition SframeInfoLabel :: "string \<Rightarrow> string" where
  "SframeInfoLabel participantID = KDFLabelE2ESframe @ participantID"

definition splitCallKey :: "bytes \<Rightarrow> srtp_error + (bytes \<times> bytes)" where
  "splitCallKey callKey =
     (if length callKey \<noteq> 32 then Inl ErrBadCallKeyLen
      else Inr (slice callKey 0 16, slice callKey 16 32))"

definition DeriveE2eSframeKeyForParticipant :: "bytes \<Rightarrow> string \<Rightarrow> srtp_error + bytes" where
  "DeriveE2eSframeKeyForParticipant callKey participantID =
     (case splitCallKey callKey of
        Inl e \<Rightarrow> Inl e
      | Inr (salt, ikm) \<Rightarrow>
          hkdf_result (HKDFSHA256 salt ikm (bytes_of (SframeInfoLabel participantID)) 32))"

definition DeriveWarpAuthKey :: "bytes \<Rightarrow> srtp_error + bytes" where
  "DeriveWarpAuthKey callKey =
     (if length callKey \<noteq> 32 then Inl ErrBadCallKeyLen
      else hkdf_result (HKDFSHA256 [] callKey (bytes_of KDFLabelWarpAuth) 32))"

definition counterToIV :: "u64 \<Rightarrow> bytes" where
  "counterToIV counter = replicate 8 0 @ le64 counter"

definition buildSframeHeader :: "u64 \<Rightarrow> u64 \<Rightarrow> bytes" where
  "buildSframeHeader counter keyID =
     (let h = append_uvarint counter @ append_uvarint keyID in h @ [of_nat (length h + 1)])"

definition parseSframeHeader :: "bytes \<Rightarrow> (u64 \<times> u64) option" where
  "parseSframeHeader header =
     (if length header < 2 then None
      else if unat (header ! (length header - 1)) \<noteq> length header then None
      else
        let body = take (length header - 1) header; (counter, n) = uvarint body
        in if n \<le> 0 then None
           else let (keyID, n2) = uvarint (drop (nat n) body)
             in if n2 \<le> 0 then None else Some (counter, keyID))"

text \<open>The keys passed to \<open>newSframeGCM\<close> have at least 16 bytes, so the cipher always exists.\<close>

definition gcmEncrypt :: "bytes \<Rightarrow> bytes \<Rightarrow> bytes \<Rightarrow> bytes" where
  "gcmEncrypt key nonce16 plaintext = gcm_seal (take aesKeyLen key) nonce16 plaintext"

definition gcmDecrypt :: "bytes \<Rightarrow> bytes \<Rightarrow> bytes \<Rightarrow> bytes option" where
  "gcmDecrypt key nonce16 ciphertextWithTag = gcm_open (take aesKeyLen key) nonce16 ciphertextWithTag"

record SframeSession =
  SelfParticipantID :: string
  PeerParticipantID :: string
  encryptKey :: bytes
  decryptKey :: bytes
  txCounter :: u64

definition NewSframeSession :: "bytes \<Rightarrow> string \<Rightarrow> string \<Rightarrow> srtp_error + SframeSession" where
  "NewSframeSession callKey selfJID peerJID =
     (let selfID = FormatSframeParticipantID selfJID; peerID = FormatSframeParticipantID peerJID
      in case DeriveE2eSframeKeyForParticipant callKey peerID of
           Inl e \<Rightarrow> Inl e
         | Inr sendKey \<Rightarrow>
             (case DeriveE2eSframeKeyForParticipant callKey selfID of
                Inl e \<Rightarrow> Inl e
              | Inr recvKey \<Rightarrow>
                  Inr \<lparr>SelfParticipantID = selfID, PeerParticipantID = peerID,
                       encryptKey = take aesKeyLen sendKey, decryptKey = take aesKeyLen recvKey,
                       txCounter = 0\<rparr>))"

text \<open>
  \<open>Encrypt\<close> over the function it seals with, which the code fixes to \<open>gcmEncrypt\<close>: with a function that
  returns its nonce the frame shows the nonce the code passes.
\<close>

definition Encrypt_with ::
    "(bytes \<Rightarrow> bytes \<Rightarrow> bytes \<Rightarrow> bytes) \<Rightarrow> SframeSession \<Rightarrow> bytes \<Rightarrow> bytes \<times> SframeSession" where
  "Encrypt_with seal s plaintext =
     (let counter = txCounter s; header = buildSframeHeader counter 0; iv = counterToIV counter
      in (seal (encryptKey s) iv plaintext @ header, s\<lparr>txCounter := counter + 1\<rparr>))"

definition Sframe_Encrypt :: "SframeSession \<Rightarrow> bytes \<Rightarrow> bytes \<times> SframeSession" where
  "Sframe_Encrypt = Encrypt_with gcmEncrypt"

definition Sframe_Decrypt :: "SframeSession \<Rightarrow> bytes \<Rightarrow> bytes option" where
  "Sframe_Decrypt s frame =
     (if length frame < gcmTagLen + 3 then None
      else
        let headerLen = unat (frame ! (length frame - 1))
        in if headerLen < 3 \<or> length frame < headerLen then None
           else
             let headerStart = length frame - headerLen;
                 header = drop headerStart frame; ciphertext = take headerStart frame
             in if length ciphertext < gcmTagLen + 1 then None
                else case parseSframeHeader header of
                  None \<Rightarrow> None
                | Some (counter, keyID) \<Rightarrow> gcmDecrypt (decryptKey s) (counterToIV counter) ciphertext)"

section \<open>The header\<close>

lemma length_buildSframeHeader:
  "length (buildSframeHeader c k) = length (append_uvarint c) + length (append_uvarint k) + 1"
  by (simp add: buildSframeHeader_def)

lemma header_length_bounds:
  "3 \<le> length (buildSframeHeader c k) \<and> length (buildSframeHeader c k) \<le> 21"
proof -
  have "1 \<le> length (append_uvarint c)" "1 \<le> length (append_uvarint k)"
    using length_append_uvarint_pos [of c] length_append_uvarint_pos [of k] by linarith+
  then show ?thesis
    using length_append_uvarint_le_10 [of c] length_append_uvarint_le_10 [of k]
    by (simp add: length_buildSframeHeader)
qed

lemma header_last_byte:
  "unat (buildSframeHeader c k ! (length (buildSframeHeader c k) - 1)) = length (buildSframeHeader c k)"
proof -
  have "length (append_uvarint c) + length (append_uvarint k) + 1 < 256"
    using header_length_bounds [of c k] by (simp add: length_buildSframeHeader)
  then show ?thesis
    by (simp add: buildSframeHeader_def nth_append unat_of_nat del: of_nat_Suc of_nat_add)
qed

lemma parse_build_header: "parseSframeHeader (buildSframeHeader c k) = Some (c, k)"
proof -
  let ?h = "buildSframeHeader c k" and ?b = "append_uvarint c @ append_uvarint k"
  have "take (length ?h - 1) ?h = ?b" by (simp add: buildSframeHeader_def)
  then show ?thesis
    using header_last_byte [of c k] header_length_bounds [of c k]
    by (simp add: parseSframeHeader_def Let_def)
qed

lemma Sframe_Decrypt_frame:
  assumes "17 \<le> length ct"
  shows "Sframe_Decrypt s (ct @ buildSframeHeader c k) = gcmDecrypt (decryptKey s) (counterToIV c) ct"
proof -
  let ?h = "buildSframeHeader c k"
  have h: "3 \<le> length ?h" "length ?h - Suc 0 < length ?h"
    using header_length_bounds [of c k] by linarith+
  have "\<not> length ct + length ?h - Suc 0 < length ct" using h by linarith
  then have last: "(ct @ ?h) ! (length ct + length ?h - Suc 0) = ?h ! (length ?h - Suc 0)"
    by (simp add: nth_append)
  show ?thesis
    using assms h header_last_byte [of c k]
    by (simp add: Sframe_Decrypt_def gcmTagLen_def last Let_def parse_build_header)
qed

lemma Sframe_Encrypt_simps:
  "fst (Sframe_Encrypt s p) =
    gcm_seal (take 16 (encryptKey s)) (counterToIV (txCounter s)) p @ buildSframeHeader (txCounter s) 0"
  "snd (Sframe_Encrypt s p) = s\<lparr>txCounter := txCounter s + 1\<rparr>"
  by (simp_all add: Sframe_Encrypt_def Encrypt_with_def gcmEncrypt_def aesKeyLen_def Let_def)

lemma Sframe_Decrypt_Encrypt:
  assumes "p \<noteq> []" and "decryptKey r = encryptKey s"
  shows "Sframe_Decrypt r (fst (Sframe_Encrypt s p)) = Some p"
proof -
  have "1 \<le> length p" using assms(1) by (cases p) simp_all
  then show ?thesis
    using assms(2) unfolding Sframe_Encrypt_simps
    by (simp add: Sframe_Decrypt_frame gcmDecrypt_def aesKeyLen_def)
qed

section \<open>Sessions\<close>

lemma DeriveE2eSframeKey_total:
  assumes "length callKey = 32"
  shows "\<exists>k. DeriveE2eSframeKeyForParticipant callKey p = Inr k \<and> length k = 32"
  using assms HKDFSHA256_total [of 32 "slice callKey 0 16" "slice callKey 16 32"
      "bytes_of (SframeInfoLabel p)"]
  by (auto simp: DeriveE2eSframeKeyForParticipant_def splitCallKey_def hkdf_result_def)

lemma NewSframeSession_total:
  assumes "length callKey = 32"
  shows "\<exists>s. NewSframeSession callKey a b = Inr s"
proof -
  obtain k l where
    "DeriveE2eSframeKeyForParticipant callKey (FormatSframeParticipantID b) = Inr k"
    "DeriveE2eSframeKeyForParticipant callKey (FormatSframeParticipantID a) = Inr l"
    using DeriveE2eSframeKey_total [OF assms] by metis
  then show ?thesis by (simp add: NewSframeSession_def Let_def)
qed

lemma NewSframeSession_pair:
  assumes "NewSframeSession callKey a b = Inr s" and "NewSframeSession callKey b a = Inr r"
  shows "decryptKey r = encryptKey s \<and> encryptKey r = decryptKey s \<and>
    txCounter s = 0 \<and> txCounter r = 0"
  using assms by (auto simp: NewSframeSession_def Let_def split: sum.splits)

text \<open>All frames a session sends, in order.\<close>

fun encrypt_all :: "SframeSession \<Rightarrow> bytes list \<Rightarrow> bytes list" where
  "encrypt_all s [] = []"
| "encrypt_all s (p # ps) = (case Sframe_Encrypt s p of (f, s') \<Rightarrow> f # encrypt_all s' ps)"

lemma encrypt_all_decrypts:
  "list_all (\<lambda>p. p \<noteq> []) ps \<Longrightarrow> decryptKey r = encryptKey s \<Longrightarrow>
   map (Sframe_Decrypt r) (encrypt_all s ps) = map Some ps"
proof (induction ps arbitrary: s)
  case Nil
  then show ?case by simp
next
  case (Cons p ps)
  have "decryptKey r = encryptKey (snd (Sframe_Encrypt s p))"
    using Cons.prems by (simp add: Sframe_Encrypt_simps)
  then have "map (Sframe_Decrypt r) (encrypt_all (snd (Sframe_Encrypt s p)) ps) = map Some ps"
    using Cons by simp
  then show ?case
    using Cons.prems Sframe_Decrypt_Encrypt [of p r s] by (simp add: case_prod_unfold)
qed

text \<open>C30: what one end of a call encrypts the other end decrypts: for sessions made from the same
  32-byte call key with the two JIDs swapped, every frame of any run of non-empty payloads is
  decrypted by the peer to the payload, and in the other direction too.\<close>

theorem Sframe_sessions_agree:
  assumes "length callKey = 32" and "list_all (\<lambda>p. p \<noteq> []) ps"
  shows "\<exists>s r. NewSframeSession callKey selfJID peerJID = Inr s \<and>
    NewSframeSession callKey peerJID selfJID = Inr r \<and>
    map (Sframe_Decrypt r) (encrypt_all s ps) = map Some ps \<and>
    map (Sframe_Decrypt s) (encrypt_all r ps) = map Some ps"
proof -
  obtain s r where sr: "NewSframeSession callKey selfJID peerJID = Inr s"
      "NewSframeSession callKey peerJID selfJID = Inr r"
    using NewSframeSession_total [OF assms(1)] by metis
  then show ?thesis
    using NewSframeSession_pair [OF sr] encrypt_all_decrypts [OF assms(2)] by metis
qed

lemma Sframe_sessions_agree_witness:
  "\<exists>s r. NewSframeSession (replicate 32 7) ''1@lid'' ''2@lid'' = Inr s \<and>
    NewSframeSession (replicate 32 7) ''2@lid'' ''1@lid'' = Inr r \<and>
    map (Sframe_Decrypt r) (encrypt_all s [[1, 2], [3]]) = map Some [[1, 2], [3]] \<and>
    map (Sframe_Decrypt s) (encrypt_all r [[1, 2], [3]]) = map Some [[1, 2], [3]]"
  by (rule Sframe_sessions_agree) simp_all

text \<open>
  The nonces a session hands to the cipher, in order: what \<open>Encrypt\<close> seals with when the cipher is replaced
  by one that returns its nonce, without the header behind it.
\<close>

definition seal_nonce :: "bytes \<Rightarrow> bytes \<Rightarrow> bytes \<Rightarrow> bytes" where
  "seal_nonce key nonce plaintext = take 16 nonce"

fun encrypt_all_with :: "(bytes \<Rightarrow> bytes \<Rightarrow> bytes \<Rightarrow> bytes) \<Rightarrow> SframeSession \<Rightarrow> bytes list \<Rightarrow> bytes list" where
  "encrypt_all_with seal s [] = []"
| "encrypt_all_with seal s (p # ps) = (case Encrypt_with seal s p of (f, s') \<Rightarrow> f # encrypt_all_with seal s' ps)"

definition nonces_of :: "SframeSession \<Rightarrow> bytes list \<Rightarrow> bytes list" where
  "nonces_of s ps = map (take 16) (encrypt_all_with seal_nonce s ps)"

lemma counterToIV_inject [simp]: "counterToIV a = counterToIV b \<longleftrightarrow> a = b"
  by (simp add: counterToIV_def)

lemma length_counterToIV [simp]: "length (counterToIV c) = 16"
  by (simp add: counterToIV_def)

lemma upt_Suc_map: "[0..<Suc n] = 0 # map Suc [0..<n]"
  by (simp only: map_Suc_upt) (simp add: upt_conv_Cons del: upt_Suc)

text \<open>The k-th frame under any cipher: one key, the k-th counter as nonce and in the header.\<close>

lemma encrypt_all_with_eq:
  "encrypt_all_with seal s ps = map (\<lambda>k. seal (encryptKey s) (counterToIV (txCounter s + of_nat k)) (ps ! k) @
     buildSframeHeader (txCounter s + of_nat k) 0) [0..<length ps]"
proof (induction ps arbitrary: s)
  case (Cons p ps)
  show ?case
    using Cons.IH [of "snd (Encrypt_with seal s p)"]
    unfolding length_Cons upt_Suc_map by (simp add: Encrypt_with_def Let_def add.assoc del: upt_Suc)
qed simp

lemma encrypt_all_gcm: "encrypt_all s ps = encrypt_all_with gcmEncrypt s ps"
  by (induction ps arbitrary: s) (simp_all add: Sframe_Encrypt_def split_beta)

lemma nonces_of_eq: "nonces_of s ps = map (\<lambda>k. counterToIV (txCounter s + of_nat k)) [0..<length ps]"
  by (simp add: nonces_of_def encrypt_all_with_eq seal_nonce_def comp_def)

lemma counters_distinct:
  assumes "n \<le> 2 ^ 64"
  shows "inj_on (\<lambda>k. of_nat k :: u64) {0..<n}"
proof (rule inj_onI)
  fix x y
  assume *: "x \<in> {0..<n}" "y \<in> {0..<n}" "(of_nat x :: u64) = of_nat y"
  have "unat (of_nat x :: u64) = unat (of_nat y :: u64)" using *(3) by simp
  then have "x mod 2 ^ 64 = y mod 2 ^ 64" by (simp only: unat_of_nat) simp
  with * assms show "x = y" by simp
qed

text \<open>C31: a session never reuses a GCM nonce: the nonces it passes to the cipher for up to \<open>2^64\<close> frames,
  whatever the payloads, are pairwise different, all under the session's one key, and the frames it
  sends are the payloads sealed with exactly these nonces, each followed by its header.\<close>

theorem Sframe_nonces_distinct:
  assumes "length ps \<le> 2 ^ 64"
  shows "distinct (nonces_of s ps) \<and>
    encrypt_all s ps = map (\<lambda>k. gcmEncrypt (encryptKey s) (nonces_of s ps ! k) (ps ! k) @
      buildSframeHeader (txCounter s + of_nat k) 0) [0..<length ps]"
  using counters_distinct [OF assms]
  by (auto simp: encrypt_all_gcm encrypt_all_with_eq nonces_of_eq distinct_map inj_on_def)

definition example_session :: SframeSession where
  "example_session =
     \<lparr>SelfParticipantID = ''a'', PeerParticipantID = ''b'', encryptKey = replicate 16 1, decryptKey = replicate 16 2,
      txCounter = - 2\<rparr>"

lemma Sframe_nonces_distinct_witness:
  "distinct (nonces_of example_session [[1], [2], [3]]) \<and>
   encrypt_all example_session [[1], [2], [3]] = map (\<lambda>k. gcmEncrypt (encryptKey example_session)
     (nonces_of example_session [[1], [2], [3]] ! k) ([[1], [2], [3]] ! k) @
     buildSframeHeader (txCounter example_session + of_nat k) 0) [0..<length [[1], [2], [3 :: u8]]]"
  by (rule Sframe_nonces_distinct) simp

end
