(* ===== verification/Rtp.thy ===== *)
theory Rtp
  imports Warp
begin

text \<open>
  rtp/rtp.go: the RTP header with WhatsApp's extension, its parser, the classifiers of Opus payloads,
  and the two send-side sequencers.  A pointer field is an option; \<open>ShortOffset\<close>, an \<open>int16\<close>, is kept
  as its 16 bits.
\<close>

definition RtpPayloadTypeOpus :: u8 where "RtpPayloadTypeOpus = 120"
definition RtpPayloadTypeAppData :: u8 where "RtpPayloadTypeAppData = 119"
definition RtpPayloadTypeH264 :: u8 where "RtpPayloadTypeH264 = 97"
definition WhatsappRtpExtensionProfile :: u16 where "WhatsappRtpExtensionProfile = 0xdebe"
definition WhatsappRtpHeaderSize :: nat where "WhatsappRtpHeaderSize = 16"
definition WhatsappRtpHeaderDtxSize :: nat where "WhatsappRtpHeaderDtxSize = 20"
definition WhatsappRtpExtensionDtxWord :: u32 where "WhatsappRtpExtensionDtxWord = 0x30010000"
definition VideoMediaFrameInfoIDR :: u8 where "VideoMediaFrameInfoIDR = 0x08"
definition VideoMediaFrameInfoDelta :: u8 where "VideoMediaFrameInfoDelta = 0x20"
definition srtpAuthTagLen :: nat where "srtpAuthTagLen = 10"
definition srtpAuthTagLenShort :: nat where "srtpAuthTagLenShort = 4"

section \<open>Payload classifiers\<close>

definition OpusPrimingFrame1 :: bytes where
  "OpusPrimingFrame1 = [0x12, 0x36, 0x26, 0x2b, 0x4a, 0xc8, 0x2b, 0x09, 0xc9, 0x1f, 0x34, 0xc2,
     0xd6, 0x7a, 0x01, 0x73, 0x1b, 0x2e]"

definition OpusPrimingFrame2 :: bytes where
  "OpusPrimingFrame2 = [0x90, 0xb8, 0x14, 0x14, 0xc4]"

definition IsWhatsappOpusRtpPayload :: "u8 \<Rightarrow> bool" where
  "IsWhatsappOpusRtpPayload payloadType \<longleftrightarrow> payloadType = RtpPayloadTypeOpus \<or> payloadType = 121"

definition IsOpusDtxPayload :: "bytes \<Rightarrow> bool" where
  "IsOpusDtxPayload payload =
     (case payload of
        [] \<Rightarrow> False
      | [b] \<Rightarrow> b = 0x10 \<or> b = 0x88 \<or> b = 0x90
      | b0 # _ \<Rightarrow>
          if 15 < length payload then False
          else if b0 AND 0xf8 = 0x08 \<or> b0 = 0x0a then True
          else b0 AND 0xf0 = 0x30 \<and> length payload \<le> 6)"

definition IsOpusMlowSpeechPayload :: "bytes \<Rightarrow> bool" where
  "IsOpusMlowSpeechPayload payload =
     (if length payload < 18 then False
      else let b0 = payload ! 0 in b0 AND 0xf8 = 0x48 \<or> b0 AND 0xf8 = 0x50)"

definition IsOpusPrimingPayload :: "bytes \<Rightarrow> bool" where
  "IsOpusPrimingPayload payload \<longleftrightarrow> payload = OpusPrimingFrame1 \<or> payload = OpusPrimingFrame2"

definition EstimateSrtpRtpWireBytes :: "bytes \<Rightarrow> nat" where
  "EstimateSrtpRtpWireBytes opusPayload =
     (let dtx = IsOpusDtxPayload opusPayload;
          headerSize = (if dtx then WhatsappRtpHeaderDtxSize else WhatsappRtpHeaderSize);
          shortTag = ((dtx \<and> headerSize = WhatsappRtpHeaderDtxSize) \<or>
            (\<not> dtx \<and> headerSize = WhatsappRtpHeaderSize \<and>
              (IsOpusPrimingPayload opusPayload \<or> length opusPayload \<le> 18)));
          tagLen = (if shortTag then srtpAuthTagLenShort else srtpAuthTagLen)
      in headerSize + length opusPayload + tagLen)"

section \<open>The header\<close>

record VideoRtpExtension =
  MediaFrameInfo :: u8
  FrameNumber :: "u16 option"
  InitialBandwidth :: u16
  ShortOffset :: u16
  TransportSequence :: u16

record RtpHeader =
  Marker :: bool
  PayloadType :: u8
  SequenceNumber :: u16
  Timestamp :: u32
  Ssrc :: u32
  ExtensionWord :: "u32 option"
  VideoExtension :: "VideoRtpExtension option"

definition DisplayOrientation :: "VideoRtpExtension \<Rightarrow> int" where
  "DisplayOrientation e = (4 - uint (MediaFrameInfo e AND 0x03)) AND 0x03"

text \<open>The loop that pads the extension to a multiple of four bytes.\<close>

function pad4 :: "bytes \<Rightarrow> bytes" where
  "pad4 ext = (if length ext mod 4 \<noteq> 0 then pad4 (ext @ [0]) else ext)"
  by pat_completeness auto
termination
proof (relation "measure (\<lambda>ext. (4 - length ext mod 4) mod 4)", simp)
  fix ext :: bytes
  assume "length ext mod 4 \<noteq> 0"
  moreover have "length ext mod 4 < 4" by simp
  ultimately consider "length ext mod 4 = 1" | "length ext mod 4 = 2" | "length ext mod 4 = 3"
    by linarith
  then show "(ext @ [0], ext) \<in> measure (\<lambda>ext. (4 - length ext mod 4) mod 4)"
    by cases (simp_all add: mod_Suc)
qed

declare pad4.simps [simp del]

definition encode :: "VideoRtpExtension \<Rightarrow> bytes" where
  "encode e =
     (let frameInfoLength = (case FrameNumber e of None \<Rightarrow> 1 | Some _ \<Rightarrow> (3 :: u8))
      in pad4 ([0x30 OR (frameInfoLength - 1), MediaFrameInfo e] @
           (case FrameNumber e of None \<Rightarrow> [] | Some n \<Rightarrow> be16 n) @
           [0x51] @ be16 (InitialBandwidth e) @
           [0x61] @ be16 (ShortOffset e) @
           [0x91] @ be16 (TransportSequence e)))"

definition ByteSize :: "RtpHeader \<Rightarrow> nat" where
  "ByteSize h =
     (case VideoExtension h of
        Some e \<Rightarrow> WhatsappRtpHeaderSize + length (encode e)
      | None \<Rightarrow>
          (case ExtensionWord h of
             Some _ \<Rightarrow> WhatsappRtpHeaderDtxSize
           | None \<Rightarrow> WhatsappRtpHeaderSize))"

definition RtpHeaderByteLength :: "bytes \<Rightarrow> nat option" where
  "RtpHeaderByteLength data =
     (if length data < 12 then None
      else if drop_bit 6 (data ! 0) AND 0x03 \<noteq> 2 then None
      else
        let cc = unat (data ! 0 AND 0x0f); headerLen = 12 + cc * 4
        in if length data < headerLen then None
           else if drop_bit 4 (data ! 0) AND 1 = 1 then
             (if length data < headerLen + 4 then None
              else
                let extWords = unat (get16 (drop (headerLen + 2) data));
                    headerLen' = headerLen + (4 + extWords * 4)
                in if length data < headerLen' then None else Some headerLen')
           else Some headerLen)"

definition RtpExtensionProfileAndData :: "bytes \<Rightarrow> (u16 \<times> bytes) option" where
  "RtpExtensionProfileAndData data =
     (if length data < 12 \<or> drop_bit 6 (data ! 0) AND 0x03 \<noteq> 2 then None
      else
        let extensionOffset = 12 + unat (data ! 0 AND 0x0f) * 4
        in if length data < extensionOffset \<or> data ! 0 AND 0x10 = 0 then None
           else if length data < extensionOffset + 4 then None
           else
             let words = unat (get16 (drop (extensionOffset + 2) data));
                 dataStart = extensionOffset + 4; dataEnd = dataStart + words * 4
             in if length data < dataEnd then None
                else Some (get16 (drop extensionOffset data), slice data dataStart dataEnd))"

text \<open>The state of the scan over the extension elements: what was parsed, and which of the mandatory
  elements were seen.\<close>

record ext_scan =
  parsed :: VideoRtpExtension
  hasFrameInfo :: bool
  hasShortOffset :: bool
  hasTransportSequence :: bool

definition scan_element :: "u8 \<Rightarrow> bytes \<Rightarrow> ext_scan \<Rightarrow> ext_scan option" where
  "scan_element id' v st =
     (if id' = 3 then
        (if length v \<noteq> 1 \<and> length v \<noteq> 3 then None
         else Some (st\<lparr>parsed := (parsed st)\<lparr>MediaFrameInfo := v ! 0,
             FrameNumber := (if length v = 3 then Some (get16 (slice v 1 3)) else FrameNumber (parsed st))\<rparr>,
           hasFrameInfo := True\<rparr>))
      else if id' = 5 then
        (if length v \<noteq> 2 then None
         else Some (st\<lparr>parsed := (parsed st)\<lparr>InitialBandwidth := get16 v\<rparr>\<rparr>))
      else if id' = 6 then
        (if length v \<noteq> 2 then None
         else Some (st\<lparr>parsed := (parsed st)\<lparr>ShortOffset := get16 v\<rparr>, hasShortOffset := True\<rparr>))
      else if id' = 9 then
        (if length v \<noteq> 2 then None
         else Some (st\<lparr>parsed := (parsed st)\<lparr>TransportSequence := get16 v\<rparr>, hasTransportSequence := True\<rparr>))
      else Some st)"

function scan_extension :: "bytes \<Rightarrow> ext_scan \<Rightarrow> ext_scan option" where
  "scan_extension [] st = Some st"
| "scan_extension (header # ext) st =
     (if header = 0 then scan_extension ext st
      else
        let id' = drop_bit 4 header; n = unat (header AND 0x0f) + 1
        in if id' = 15 \<or> length ext < n then None
           else case scan_element id' (take n ext) st of
             None \<Rightarrow> None
           | Some st' \<Rightarrow> scan_extension (drop n ext) st')"
  by pat_completeness auto
termination
  by (relation "measure (\<lambda>(ext, st). length ext)") auto

declare scan_extension.simps(2) [simp del]

definition no_extension :: VideoRtpExtension where
  "no_extension = \<lparr>MediaFrameInfo = 0, FrameNumber = None, InitialBandwidth = 0, ShortOffset = 0,
     TransportSequence = 0\<rparr>"

definition ParseWhatsappVideoExtension :: "bytes \<Rightarrow> VideoRtpExtension option" where
  "ParseWhatsappVideoExtension data =
     (case RtpExtensionProfileAndData data of
        None \<Rightarrow> None
      | Some (profile, ext) \<Rightarrow>
          if profile \<noteq> WhatsappRtpExtensionProfile then None
          else
            case scan_extension ext \<lparr>parsed = no_extension, hasFrameInfo = False,
                hasShortOffset = False, hasTransportSequence = False\<rparr> of
              None \<Rightarrow> None
            | Some st \<Rightarrow>
                if \<not> hasFrameInfo st \<or> \<not> hasShortOffset st \<or> \<not> hasTransportSequence st then None
                else Some (parsed st))"

definition IsRtpVersion2 :: "bytes \<Rightarrow> bool" where
  "IsRtpVersion2 data \<longleftrightarrow> 12 \<le> length data \<and> drop_bit 6 (data ! 0) AND 0x03 = 2"

definition ParseRtpHeader :: "bytes \<Rightarrow> RtpHeader option" where
  "ParseRtpHeader data =
     (case RtpHeaderByteLength data of
        None \<Rightarrow> None
      | Some _ \<Rightarrow>
          Some \<lparr>Marker = (drop_bit 7 (data ! 1) AND 1 = 1), PayloadType = data ! 1 AND 0x7f,
            SequenceNumber = get16 (drop 2 data), Timestamp = get32 (drop 4 data),
            Ssrc = get32 (drop 8 data), ExtensionWord = None,
            VideoExtension = ParseWhatsappVideoExtension data\<rparr>)"

text \<open>
  The code writes into a buffer of \<open>ByteSize\<close> zero bytes; the fields are adjacent, so the buffer
  is their concatenation (\<open>length_EncodeRtpHeader\<close> shows that they fill it).
\<close>

definition EncodeRtpHeader :: "RtpHeader \<Rightarrow> bytes" where
  "EncodeRtpHeader header =
     (let size = ByteSize header;
          b0 = push_bit 6 2 OR (if 12 < size then 0x10 else 0);
          b1 = (PayloadType header AND 0x7f) OR (if Marker header then 0x80 else 0);
          videoExtension = (case VideoExtension header of None \<Rightarrow> [] | Some e \<Rightarrow> encode e);
          extWords = (case VideoExtension header of
              Some _ \<Rightarrow> of_nat (length videoExtension div 4)
            | None \<Rightarrow> (case ExtensionWord header of Some _ \<Rightarrow> 1 | None \<Rightarrow> 0))
      in [b0, b1] @ be16 (SequenceNumber header) @ be32 (Timestamp header) @ be32 (Ssrc header) @
         (if 16 \<le> size then be16 WhatsappRtpExtensionProfile @ be16 extWords else []) @
         (case VideoExtension header of
            Some _ \<Rightarrow> videoExtension
          | None \<Rightarrow>
              (case ExtensionWord header of
                 Some w \<Rightarrow> if 20 \<le> size then be32 w else []
               | None \<Rightarrow> [])))"

section \<open>The header round trip\<close>

lemma pad4_once [simp]:
  "length b mod 4 = 0 \<Longrightarrow> pad4 b = b"
  "length b mod 4 = 3 \<Longrightarrow> pad4 b = b @ [0]"
  "length b mod 4 = 1 \<Longrightarrow> pad4 b = b @ [0, 0, 0]"
  by (simp_all add: pad4.simps [of b] pad4.simps [of "b @ [0]"] pad4.simps [of "b @ [0, 0]"]
      pad4.simps [of "b @ [0, 0, 0]"] mod_Suc)

lemma encode_None:
  "FrameNumber e = None \<Longrightarrow> encode e =
    [0x30, MediaFrameInfo e] @ [0x51] @ be16 (InitialBandwidth e) @ [0x61] @ be16 (ShortOffset e) @
    [0x91] @ be16 (TransportSequence e) @ [0]"
  by (simp add: encode_def)

lemma encode_Some:
  "FrameNumber e = Some n \<Longrightarrow> encode e =
    [0x32, MediaFrameInfo e] @ be16 n @ [0x51] @ be16 (InitialBandwidth e) @ [0x61] @
    be16 (ShortOffset e) @ [0x91] @ be16 (TransportSequence e) @ [0, 0, 0]"
  by (simp add: encode_def)

lemma length_encode: "length (encode e) = (if FrameNumber e = None then 12 else 16)"
  by (cases "FrameNumber e") (simp_all add: encode_None encode_Some)

lemma scan_zero [simp]: "scan_extension (0 # ext) st = scan_extension ext st"
  by (subst scan_extension.simps) simp

text \<open>One element of the scan, read from a buffer that starts with its header and value.\<close>

lemma scan_step:
  assumes "h \<noteq> 0" "drop_bit 4 h \<noteq> 15" "length v = unat (h AND 0x0f) + 1"
  shows "scan_extension (h # v @ ext) st =
    (case scan_element (drop_bit 4 h) v st of None \<Rightarrow> None | Some st' \<Rightarrow> scan_extension ext st')"
  using assms by (subst scan_extension.simps) (auto simp: Let_def split: option.splits)

lemma scan_frame_info1: "scan_extension (0x30 # x # ext) st =
    scan_extension ext (st\<lparr>parsed := (parsed st)\<lparr>MediaFrameInfo := x\<rparr>, hasFrameInfo := True\<rparr>)"
  using scan_step [of "0x30" "[x]" ext st] by (simp add: scan_element_def)

lemma scan_frame_info3: "scan_extension (0x32 # x # be16 n @ ext) st =
    scan_extension ext (st\<lparr>parsed := (parsed st)\<lparr>MediaFrameInfo := x, FrameNumber := Some n\<rparr>,
      hasFrameInfo := True\<rparr>)"
  using scan_step [of "0x32" "x # be16 n" ext st] by (simp add: scan_element_def slice_def)

lemma scan_two_bytes:
  "scan_extension (0x51 # be16 w @ ext) st =
    scan_extension ext (st\<lparr>parsed := (parsed st)\<lparr>InitialBandwidth := w\<rparr>\<rparr>)"
  "scan_extension (0x61 # be16 w @ ext) st =
    scan_extension ext (st\<lparr>parsed := (parsed st)\<lparr>ShortOffset := w\<rparr>, hasShortOffset := True\<rparr>)"
  "scan_extension (0x91 # be16 w @ ext) st =
    scan_extension ext (st\<lparr>parsed := (parsed st)\<lparr>TransportSequence := w\<rparr>, hasTransportSequence := True\<rparr>)"
  using scan_step [of "0x51" "be16 w" ext st] scan_step [of "0x61" "be16 w" ext st]
    scan_step [of "0x91" "be16 w" ext st]
  by (simp_all add: scan_element_def)

lemmas scan_simps = scan_frame_info1 scan_frame_info3 scan_two_bytes

lemma scan_encode:
  "scan_extension (encode e) \<lparr>parsed = no_extension, hasFrameInfo = False,
      hasShortOffset = False, hasTransportSequence = False\<rparr> =
    Some \<lparr>parsed = e, hasFrameInfo = True, hasShortOffset = True, hasTransportSequence = True\<rparr>"
  by (cases "FrameNumber e"; cases e)
    (simp_all add: encode_None encode_Some scan_simps no_extension_def)

text \<open>The extension block a header carries: its bytes after the profile and the word count.\<close>

definition extension_block :: "RtpHeader \<Rightarrow> bytes" where
  "extension_block h = (case VideoExtension h of
      Some e \<Rightarrow> encode e
    | None \<Rightarrow> (case ExtensionWord h of Some w \<Rightarrow> be32 w | None \<Rightarrow> []))"

definition type_byte :: "RtpHeader \<Rightarrow> u8" where
  "type_byte h = (PayloadType h AND 0x7f) OR (if Marker h then 0x80 else 0)"

lemma length_extension_block:
  "length (extension_block h) = ByteSize h - 16 \<and> 16 \<le> ByteSize h \<and> ByteSize h \<le> 32 \<and>
   length (extension_block h) mod 4 = 0"
  by (auto simp: extension_block_def ByteSize_def WhatsappRtpHeaderSize_def
      WhatsappRtpHeaderDtxSize_def length_encode split: option.splits)

lemma EncodeRtpHeader_layout:
  "EncodeRtpHeader h = [0x90, type_byte h] @ be16 (SequenceNumber h) @ be32 (Timestamp h) @
     be32 (Ssrc h) @ be16 0xdebe @ be16 (of_nat (length (extension_block h) div 4)) @ extension_block h"
  by (auto simp: EncodeRtpHeader_def extension_block_def type_byte_def ByteSize_def Let_def
      WhatsappRtpHeaderSize_def WhatsappRtpHeaderDtxSize_def WhatsappRtpExtensionProfile_def
      length_encode split: option.splits)

lemma length_EncodeRtpHeader: "length (EncodeRtpHeader h) = ByteSize h"
  using length_extension_block [of h] by (simp add: EncodeRtpHeader_layout) linarith

lemma type_byte_marker: "drop_bit 7 (type_byte h) AND 1 = 1 \<longleftrightarrow> Marker h"
proof -
  have "drop_bit 7 (type_byte h) AND 1 = (if Marker h then 1 else 0)"
    unfolding type_byte_def mask_7f
    by (rule bit_word_eqI) (auto simp: bit_simps)
  then show ?thesis by simp
qed

lemma type_byte_type: "type_byte h AND 0x7f = PayloadType h AND 0x7f"
  unfolding type_byte_def mask_7f
  by (rule bit_word_eqI) (auto simp: bit_simps)

text \<open>What the readers find in an encoded header followed by any payload.\<close>

lemma word_count:
  "unat (of_nat (length (extension_block h) div 4) :: u16) * 4 = length (extension_block h)"
proof -
  have "length (extension_block h) \<le> 16" "length (extension_block h) mod 4 = 0"
    using length_extension_block [of h] by linarith+
  then show ?thesis by (simp add: unat_of_nat) presburger
qed

lemma encoded_fields:
  fixes h :: RtpHeader and rest :: bytes
  defines "d \<equiv> EncodeRtpHeader h @ rest"
  shows "d ! 0 = 0x90" "d ! 1 = type_byte h" "get16 (drop 2 d) = SequenceNumber h"
    "get32 (drop 4 d) = Timestamp h" "get32 (drop 8 d) = Ssrc h"
    "get16 (drop 12 d) = 0xdebe"
    "get16 (drop 14 d) = of_nat (length (extension_block h) div 4)"
    "drop 16 d = extension_block h @ rest" "16 + length (extension_block h) \<le> length d"
  by (simp_all add: d_def EncodeRtpHeader_layout)

lemma RtpHeaderByteLength_encoded:
  "RtpHeaderByteLength (EncodeRtpHeader h @ rest) = Some (ByteSize h)"
  using encoded_fields [of h rest] word_count [of h] length_extension_block [of h]
  by (simp add: RtpHeaderByteLength_def Let_def)

lemma RtpExtensionProfileAndData_encoded:
  "RtpExtensionProfileAndData (EncodeRtpHeader h @ rest) = Some (0xdebe, extension_block h)"
  using encoded_fields [of h rest] word_count [of h] length_extension_block [of h]
  by (simp add: RtpExtensionProfileAndData_def slice_def Let_def)

text \<open>A block shorter than 8 bytes cannot hold the three mandatory elements.\<close>

definition scan_need :: "ext_scan \<Rightarrow> nat" where
  "scan_need st = (if hasFrameInfo st then 0 else 2) + (if hasShortOffset st then 0 else 3) +
     (if hasTransportSequence st then 0 else 3)"

lemma scan_element_need:
  "scan_element i v st = Some st' \<Longrightarrow> v \<noteq> [] \<Longrightarrow> scan_need st \<le> length v + 1 + scan_need st'"
  by (auto simp: scan_element_def scan_need_def split: if_splits)

lemma scan_extension_need:
  "scan_extension ext st = Some st' \<Longrightarrow> scan_need st \<le> length ext + scan_need st'"
proof (induction ext st rule: scan_extension.induct)
  case (1 st)
  then show ?case by simp
next
  case (2 header ext st)
  show ?case
  proof (cases "header = 0")
    case True
    with 2 show ?thesis by auto
  next
    case False
    let ?n = "unat (header AND 0x0f) + 1"
    obtain st1 where st1: "scan_element (drop_bit 4 header) (take ?n ext) st = Some st1"
        "\<not> length ext < ?n" "drop_bit 4 header \<noteq> 15" "scan_extension (drop ?n ext) st1 = Some st'"
      using "2.prems" False
      by (subst (asm) scan_extension.simps) (auto simp: Let_def split: if_splits option.splits)
    then have "scan_need st1 \<le> length (drop ?n ext) + scan_need st'"
      using "2.IH"(2) [OF False refl refl _ st1(1)] by simp
    moreover have "scan_need st \<le> length (take ?n ext) + 1 + scan_need st1"
      using st1(1,2) by (intro scan_element_need [OF st1(1)]) auto
    ultimately show ?thesis using st1(2) by simp
  qed
qed

lemma short_block_fails:
  assumes "length ext < 8" and
    "scan_extension ext \<lparr>parsed = no_extension, hasFrameInfo = False, hasShortOffset = False,
      hasTransportSequence = False\<rparr> = Some st"
  shows "\<not> hasFrameInfo st \<or> \<not> hasShortOffset st \<or> \<not> hasTransportSequence st"
  using scan_extension_need [OF assms(2)] assms(1) by (auto simp: scan_need_def split: if_splits)

lemma ParseWhatsappVideoExtension_encoded:
  "ParseWhatsappVideoExtension (EncodeRtpHeader h @ rest) = VideoExtension h"
proof (cases "VideoExtension h")
  case (Some e)
  then show ?thesis
    by (simp add: ParseWhatsappVideoExtension_def RtpExtensionProfileAndData_encoded
        WhatsappRtpExtensionProfile_def extension_block_def scan_encode)
next
  case None
  then have "length (extension_block h) < 8"
    by (auto simp: extension_block_def split: option.splits)
  with None show ?thesis
    using short_block_fails [of "extension_block h"]
    by (auto simp: ParseWhatsappVideoExtension_def RtpExtensionProfileAndData_encoded
        WhatsappRtpExtensionProfile_def split: option.splits)
qed

text \<open>C20: an encoded RTP header parses back from the front of any packet: every field is restored,
  the video extension with all its elements included, except that the payload type keeps its low
  seven bits and the audio extension word, which the parser does not decode, is dropped.\<close>

theorem ParseRtpHeader_EncodeRtpHeader:
  "ParseRtpHeader (EncodeRtpHeader h @ rest) =
    Some (h\<lparr>PayloadType := PayloadType h AND 0x7f, ExtensionWord := None\<rparr>)"
  using encoded_fields [of h rest]
  by (simp add: ParseRtpHeader_def RtpHeaderByteLength_encoded ParseWhatsappVideoExtension_encoded
      type_byte_marker type_byte_type)

text \<open>The encoder fills its buffer and the receiver finds the payload: the encoding has exactly
  \<open>ByteSize\<close> bytes, between 16 and 32, and the header length computed from the front of a packet is
  that size, so that the rest of the packet is the payload.\<close>

theorem RtpHeader_length_exact:
  "length (EncodeRtpHeader h) = ByteSize h \<and> 16 \<le> ByteSize h \<and> ByteSize h \<le> 32 \<and>
   RtpHeaderByteLength (EncodeRtpHeader h @ rest) = Some (ByteSize h) \<and>
   drop (ByteSize h) (EncodeRtpHeader h @ rest) = rest"
  using length_extension_block [of h]
  by (simp add: length_EncodeRtpHeader RtpHeaderByteLength_encoded)

end
