(* ===== verification/RtpStreams.thy ===== *)
theory RtpStreams
  imports Rtp
begin

text \<open>
  rtp/rtp.go: the two send-side sequencers.  \<open>RtpStream\<close> numbers the audio packets and latches the
  marker on the first speech frame; \<open>VideoRtpStream\<close> numbers the packets of access units, which share
  a timestamp.  Sequence numbers, timestamps and frame numbers wrap at their width.
\<close>

record VideoRtpStream =
  vsSsrc :: u32
  vsSeq :: u16
  vsTimestamp :: u32
  lastSentTimestamp :: u32
  vsSent :: bool
  tsStride :: u32
  transportSequence :: u16
  frameNumber :: u16
  firstPacket :: bool

definition NewVideoRtpStream :: "u32 \<Rightarrow> u32 \<Rightarrow> VideoRtpStream" where
  "NewVideoRtpStream ssrc stride = \<lparr>vsSsrc = ssrc, vsSeq = 1, vsTimestamp = 0, lastSentTimestamp = 0,
     vsSent = False, tsStride = stride, transportSequence = 0, frameNumber = 1, firstPacket = True\<rparr>"

definition VideoRtpTimestamp :: "VideoRtpStream \<Rightarrow> u32" where
  "VideoRtpTimestamp s = (if vsSent s then lastSentTimestamp s else vsTimestamp s)"

definition SetTimestampStride :: "VideoRtpStream \<Rightarrow> u32 \<Rightarrow> bool \<times> VideoRtpStream" where
  "SetTimestampStride s stride =
     (if stride = 0 then (False, s) else (True, s\<lparr>tsStride := stride\<rparr>))"

definition VideoNextPacket :: "VideoRtpStream \<Rightarrow> bool \<Rightarrow> u8 \<Rightarrow> RtpHeader \<times> VideoRtpStream" where
  "VideoNextPacket s lastInAccessUnit mediaFrameInfo =
     (let fn = (if firstPacket s then Some (frameNumber s) else None);
          ext = \<lparr>MediaFrameInfo = mediaFrameInfo, FrameNumber = fn, InitialBandwidth = 0,
            ShortOffset = 0, TransportSequence = transportSequence s\<rparr>;
          header = \<lparr>Marker = lastInAccessUnit, PayloadType = RtpPayloadTypeH264,
            SequenceNumber = vsSeq s, Timestamp = vsTimestamp s, Ssrc = vsSsrc s,
            ExtensionWord = None, VideoExtension = Some ext\<rparr>;
          s1 = s\<lparr>lastSentTimestamp := Timestamp header, vsSent := True, vsSeq := vsSeq s + 1,
            transportSequence := transportSequence s + 1\<rparr>
      in (header,
          if lastInAccessUnit
          then s1\<lparr>vsTimestamp := vsTimestamp s1 + tsStride s1, frameNumber := frameNumber s1 + 1,
            firstPacket := True\<rparr>
          else s1\<lparr>firstPacket := False\<rparr>))"

record RtpStream =
  rsSsrc :: u32
  rsSeq :: u16
  rsTimestamp :: u32
  samplesPerPacket :: u32
  speechStarted :: bool
  audioPacketIndex :: int
  warpPiggyback :: bool

definition NewRtpStream :: "u32 \<Rightarrow> u32 \<Rightarrow> bool \<Rightarrow> RtpStream" where
  "NewRtpStream ssrc spp piggyback = \<lparr>rsSsrc = ssrc, rsSeq = 1, rsTimestamp = 0,
     samplesPerPacket = spp, speechStarted = False, audioPacketIndex = 0, warpPiggyback = piggyback\<rparr>"

definition resolveWarpExtension :: "RtpStream \<Rightarrow> bool \<Rightarrow> u32 option \<times> RtpStream" where
  "resolveWarpExtension s dtx =
     (if dtx then (Some WhatsappRtpExtensionDtxWord, s)
      else if \<not> warpPiggyback s then (None, s)
      else
        let idx = audioPacketIndex s
        in (AudioPiggybackExtensionFor idx True WarpPiggybackStartPacket, s\<lparr>audioPacketIndex := idx + 1\<rparr>))"

definition NextPacket :: "RtpStream \<Rightarrow> bytes \<Rightarrow> bool \<Rightarrow> RtpHeader \<times> RtpStream" where
  "NextPacket s payload marker =
     (let dtx = IsOpusDtxPayload payload; priming = IsOpusPrimingPayload payload;
          speech = (\<not> dtx \<and> \<not> priming);
          useMarker = (marker \<or> (speech \<and> \<not> speechStarted s));
          s1 = (if speech then s\<lparr>speechStarted := True\<rparr> else s);
          (word, s2) = resolveWarpExtension s1 dtx
      in (\<lparr>Marker = useMarker, PayloadType = RtpPayloadTypeOpus, SequenceNumber = rsSeq s,
           Timestamp = rsTimestamp s, Ssrc = rsSsrc s, ExtensionWord = word, VideoExtension = None\<rparr>,
          s2\<lparr>rsSeq := rsSeq s + 1, rsTimestamp := rsTimestamp s + samplesPerPacket s\<rparr>))"

definition NextPreSpeechPacket :: "RtpStream \<Rightarrow> RtpHeader \<times> RtpStream" where
  "NextPreSpeechPacket s =
     (let (word, s2) = resolveWarpExtension s False
      in (\<lparr>Marker = False, PayloadType = RtpPayloadTypeOpus, SequenceNumber = rsSeq s,
           Timestamp = rsTimestamp s, Ssrc = rsSsrc s, ExtensionWord = word, VideoExtension = None\<rparr>,
          s2\<lparr>rsSeq := rsSeq s + 1, rsTimestamp := rsTimestamp s + samplesPerPacket s\<rparr>))"

section \<open>Runs of a sequencer\<close>

text \<open>
  A sequencer is a step that turns an input and a state into an output and the next state.  What a
  whole run emits is stated once: the k-th output is the step's output in the state after the first
  k inputs, so an invariant of the step describes every output.
\<close>

fun run :: "('s \<Rightarrow> 'i \<Rightarrow> 'o \<times> 's) \<Rightarrow> 's \<Rightarrow> 'i list \<Rightarrow> 'o list" where
  "run step s [] = []"
| "run step s (x # xs) = (case step s x of (y, s') \<Rightarrow> y # run step s' xs)"

fun after :: "('s \<Rightarrow> 'i \<Rightarrow> 'o \<times> 's) \<Rightarrow> 's \<Rightarrow> 'i list \<Rightarrow> 's" where
  "after step s [] = s"
| "after step s (x # xs) = after step (snd (step s x)) xs"

lemma length_run [simp]: "length (run step s xs) = length xs"
  by (induction xs arbitrary: s) (auto split: prod.splits)

lemma after_append: "after step s (xs @ ys) = after step (after step s xs) ys"
  by (induction xs arbitrary: s) auto

lemma run_append: "run step s (xs @ ys) = run step s xs @ run step (after step s xs) ys"
  by (induction xs arbitrary: s) (auto simp: split_beta)

lemma nth_run: "k < length xs \<Longrightarrow> run step s xs ! k = fst (step (after step s (take k xs)) (xs ! k))"
proof (induction xs arbitrary: s k)
  case Nil
  then show ?case by simp
next
  case (Cons x xs)
  then show ?case by (cases k) (auto simp: split_beta)
qed

locale sequencer =
  fixes step :: "'s \<Rightarrow> 'i \<Rightarrow> 'o \<times> 's"
    and start :: "'s"
    and rep :: "'i list \<Rightarrow> 's \<Rightarrow> bool"
  assumes rep_start: "rep [] start"
    and rep_step: "rep xs s \<Longrightarrow> rep (xs @ [x]) (snd (step s x))"
begin

lemma rep_after: "rep xs (after step start xs)"
  by (induction xs rule: rev_induct) (simp_all add: rep_start rep_step after_append)

lemma nth_output: "k < length xs \<Longrightarrow>
    \<exists>s. rep (take k xs) s \<and> run step start xs ! k = fst (step s (xs ! k))"
  using rep_after nth_run by metis

end

section \<open>Video\<close>

definition access_units :: "(bool \<times> u8) list \<Rightarrow> nat" where
  "access_units xs = length (filter fst xs)"

definition at_unit_start :: "(bool \<times> u8) list \<Rightarrow> bool" where
  "at_unit_start xs \<longleftrightarrow> xs = [] \<or> fst (last xs)"

definition video_rep :: "u32 \<Rightarrow> u32 \<Rightarrow> (bool \<times> u8) list \<Rightarrow> VideoRtpStream \<Rightarrow> bool" where
  "video_rep ssrc stride xs s \<longleftrightarrow>
     vsSsrc s = ssrc \<and> tsStride s = stride \<and> vsSeq s = 1 + of_nat (length xs) \<and>
     transportSequence s = of_nat (length xs) \<and>
     vsTimestamp s = of_nat (access_units xs) * stride \<and>
     frameNumber s = 1 + of_nat (access_units xs) \<and> firstPacket s = at_unit_start xs"

interpretation video: sequencer "\<lambda>s (l, i). VideoNextPacket s l i" "NewVideoRtpStream ssrc stride"
    "video_rep ssrc stride" for ssrc stride
  by unfold_locales
    (auto simp: video_rep_def NewVideoRtpStream_def VideoNextPacket_def access_units_def
      at_unit_start_def Let_def algebra_simps)

text \<open>The k-th packet of a video stream: sequence number \<open>k + 1\<close> and transport sequence \<open>k\<close>, the
  timestamp advanced by the stride for every access unit completed before it, so the packets of one
  unit share theirs, and a frame number, counting completed units from 1, exactly on the first
  packet of a unit; the marker is on the last.\<close>

theorem VideoNextPacket_run:
  assumes "k < length xs"
  shows "run (\<lambda>s (l, i). VideoNextPacket s l i) (NewVideoRtpStream ssrc stride) xs ! k =
    \<lparr>Marker = fst (xs ! k), PayloadType = 97, SequenceNumber = 1 + of_nat k,
     Timestamp = of_nat (access_units (take k xs)) * stride, Ssrc = ssrc, ExtensionWord = None,
     VideoExtension = Some \<lparr>MediaFrameInfo = snd (xs ! k),
       FrameNumber = (if at_unit_start (take k xs) then Some (1 + of_nat (access_units (take k xs))) else None),
       InitialBandwidth = 0, ShortOffset = 0, TransportSequence = of_nat k\<rparr>\<rparr>"
  using video.nth_output [OF assms, of ssrc stride] assms
  by (auto simp: video_rep_def VideoNextPacket_def RtpPayloadTypeH264_def Let_def split_beta)

lemma VideoNextPacket_run_witness:
  "Timestamp (run (\<lambda>s (l, i). VideoNextPacket s l i) (NewVideoRtpStream 9 1500)
     [(False, 8), (True, 8), (False, 32)] ! 2) = 1500"
  using VideoNextPacket_run [of 2 "[(False, 8), (True, 8), (False, 32)]" 9 1500]
  by (simp add: access_units_def numeral_2_eq_2)

section \<open>Audio\<close>

definition speech_payload :: "bytes \<Rightarrow> bool" where
  "speech_payload p \<longleftrightarrow> \<not> IsOpusDtxPayload p \<and> \<not> IsOpusPrimingPayload p"

definition non_dtx :: "bytes list \<Rightarrow> nat" where
  "non_dtx ps = length (filter (\<lambda>p. \<not> IsOpusDtxPayload p) ps)"

definition audio_rep :: "u32 \<Rightarrow> u32 \<Rightarrow> bool \<Rightarrow> bytes list \<Rightarrow> RtpStream \<Rightarrow> bool" where
  "audio_rep ssrc spp piggyback ps s \<longleftrightarrow>
     rsSsrc s = ssrc \<and> samplesPerPacket s = spp \<and> warpPiggyback s = piggyback \<and>
     rsSeq s = 1 + of_nat (length ps) \<and> rsTimestamp s = of_nat (length ps) * spp \<and>
     speechStarted s = (\<exists>p \<in> set ps. speech_payload p) \<and>
     audioPacketIndex s = (if piggyback then int (non_dtx ps) else 0)"

interpretation audio: sequencer "\<lambda>s p. NextPacket s p False" "NewRtpStream ssrc spp piggyback"
    "audio_rep ssrc spp piggyback" for ssrc spp piggyback
  by unfold_locales
    (auto simp: audio_rep_def NewRtpStream_def NextPacket_def resolveWarpExtension_def
      speech_payload_def non_dtx_def Let_def algebra_simps)

text \<open>The k-th packet of an audio stream: sequence number \<open>k + 1\<close>, timestamp \<open>k\<close> packets of
  samples, the marker exactly on the first speech payload (neither DTX nor priming), the DTX word
  on DTX payloads, and on the others the piggyback word from the third non-DTX packet on, when
  piggybacking is enabled.\<close>

theorem NextPacket_run:
  assumes "k < length ps"
  shows "run (\<lambda>s p. NextPacket s p False) (NewRtpStream ssrc spp piggyback) ps ! k =
    \<lparr>Marker = (speech_payload (ps ! k) \<and> (\<forall>p \<in> set (take k ps). \<not> speech_payload p)),
     PayloadType = 120, SequenceNumber = 1 + of_nat k, Timestamp = of_nat k * spp, Ssrc = ssrc,
     ExtensionWord = (if IsOpusDtxPayload (ps ! k) then Some 0x30010000
       else if piggyback \<and> 2 \<le> non_dtx (take k ps) then Some 0x30010000 else None),
     VideoExtension = None\<rparr>"
  using audio.nth_output [OF assms, of ssrc spp piggyback] assms
  by (auto simp: audio_rep_def NextPacket_def resolveWarpExtension_def RtpPayloadTypeOpus_def
      WhatsappRtpExtensionDtxWord_def AudioPiggybackExtensionFor_def WarpPiggybackStartPacket_def
      piggyback_word speech_payload_def Let_def)

lemma NextPacket_run_witness:
  "Marker (run (\<lambda>s p. NextPacket s p False) (NewRtpStream 9 960 True)
     [[0x90], [0x55, 1], [0x55, 2]] ! 1)"
  using NextPacket_run [of 1 "[[0x90], [0x55, 1], [0x55, 2]]" 9 960 True]
  by (simp add: speech_payload_def IsOpusDtxPayload_def IsOpusPrimingPayload_def
      OpusPrimingFrame1_def OpusPrimingFrame2_def)

section \<open>The wire size estimate\<close>

text \<open>The size estimate of an SRTP audio packet: DTX frames cost 20 header and 4 tag bytes, other
  frames 16 header bytes and a 4-byte tag up to 18 payload bytes and a 10-byte tag beyond; the
  special case for priming frames never changes the result.\<close>

theorem EstimateSrtpRtpWireBytes_cases:
  "EstimateSrtpRtpWireBytes p =
    length p + (if IsOpusDtxPayload p then 24 else if length p \<le> 18 then 20 else 26)"
proof -
  have "IsOpusPrimingPayload p \<Longrightarrow> length p \<le> 18"
    by (auto simp: IsOpusPrimingPayload_def OpusPrimingFrame1_def OpusPrimingFrame2_def)
  then show ?thesis
    by (auto simp: EstimateSrtpRtpWireBytes_def WhatsappRtpHeaderDtxSize_def
        WhatsappRtpHeaderSize_def srtpAuthTagLen_def srtpAuthTagLenShort_def Let_def)
qed

end
