(* ===== verification/H264.thy ===== *)
theory H264
  imports Prelude
begin

text \<open>
  rtp/h264.go: packaging NAL units into RTP payloads (single, FU-A fragments, STAP-A aggregates),
  splitting an Annex-B stream, and the stateful depacketizer.
\<close>

definition h264StapAType :: u8 where "h264StapAType = 24"
definition h264FuaType :: u8 where "h264FuaType = 28"
definition mtuPayloadMax :: nat where "mtuPayloadMax = 800"
definition maxFuReassemblyBytes :: nat where "maxFuReassemblyBytes = 4194304"

section \<open>Annex B\<close>

definition annexBStartCodeLen :: "bytes \<Rightarrow> nat \<Rightarrow> nat" where
  "annexBStartCodeLen data offset =
     (if offset + 3 < length data \<and> data ! offset = 0 \<and> data ! (offset + 1) = 0 \<and>
         data ! (offset + 2) = 0 \<and> data ! (offset + 3) = 1 then 4
      else if offset + 2 < length data \<and> data ! offset = 0 \<and> data ! (offset + 1) = 0 \<and>
         data ! (offset + 2) = 1 then 3
      else 0)"

text \<open>The loop that drops the zero bytes in front of a start code.\<close>

fun trim_zeros :: "bytes \<Rightarrow> nat \<Rightarrow> nat \<Rightarrow> nat" where
  "trim_zeros data start 0 = 0"
| "trim_zeros data start (Suc n) =
     (if start < Suc n \<and> data ! n = 0 then trim_zeros data start n else Suc n)"

text \<open>The scan, at index \<open>i\<close>; \<open>start\<close> is the open unit, the \<open>-1\<close> of the code is \<open>None\<close>.\<close>

function annexb_loop :: "bytes \<Rightarrow> nat \<Rightarrow> nat option \<Rightarrow> bytes list" where
  "annexb_loop data i start =
     (if i < length data then
        let sc = annexBStartCodeLen data i
        in if 0 < sc then
             (case start of
                None \<Rightarrow> []
              | Some s \<Rightarrow> let e = trim_zeros data s i in if s < e then [slice data s e] else []) @
             annexb_loop data (i + sc) (Some (i + sc))
           else annexb_loop data (i + 1) start
      else
        case start of
          None \<Rightarrow> []
        | Some s \<Rightarrow> if s < length data then [drop s data] else [])"
  by pat_completeness auto
termination
  by (relation "measure (\<lambda>(data, i, start). length data - i)") auto

declare annexb_loop.simps [simp del]

definition SplitAnnexB :: "bytes \<Rightarrow> bytes list" where
  "SplitAnnexB data = annexb_loop data 0 None"

definition AUHasIDR :: "bytes \<Rightarrow> bool" where
  "AUHasIDR au \<longleftrightarrow> list_ex (\<lambda>nalu. 0 < length nalu \<and> nalu ! 0 AND 0x1f = 5) (SplitAnnexB au)"

section \<open>Packaging\<close>

text \<open>The fragment loop over the rest of the body; \<open>first\<close> is \<open>offset == 0\<close>.\<close>

function fu_fragments :: "u8 \<Rightarrow> u8 \<Rightarrow> bool \<Rightarrow> bytes \<Rightarrow> bytes list" where
  "fu_fragments fuIndicator originalType first body =
     (if body = [] then []
      else
        let fragSize = mtuPayloadMax - 2; chunk = take fragSize body;
            h1 = (if first then originalType OR 0x80 else originalType);
            fuHeader = (if length body \<le> fragSize then h1 OR 0x40 else h1)
        in (fuIndicator # fuHeader # chunk) #
             fu_fragments fuIndicator originalType False (drop fragSize body))"
  by pat_completeness auto
termination
  by (relation "measure (\<lambda>(a, b, c, body). length body)") (auto simp: mtuPayloadMax_def)

declare fu_fragments.simps [simp del]

definition PackageH264NALU :: "bytes \<Rightarrow> bytes list" where
  "PackageH264NALU nalu =
     (if length nalu = 0 then []
      else if length nalu \<le> mtuPayloadMax then [nalu]
      else
        let naluHeader = nalu ! 0; fbitAndNri = naluHeader AND 0xe0;
            originalType = naluHeader AND 0x1f; fuIndicator = fbitAndNri OR h264FuaType
        in fu_fragments fuIndicator originalType True (drop 1 nalu))"

fun stapa_scan :: "nat \<Rightarrow> u8 \<Rightarrow> bytes list \<Rightarrow> (nat \<times> u8) option" where
  "stapa_scan tot maxNri [] = Some (tot, maxNri)"
| "stapa_scan tot maxNri (n # ns) =
     (if length n = 0 \<or> 0xffff < length n then None
      else
        let total' = tot + (2 + length n)
        in if mtuPayloadMax < total' then None
           else let nri = n ! 0 AND 0x60 in stapa_scan total' (if maxNri < nri then nri else maxNri) ns)"

definition PackageH264STAPA :: "bytes list \<Rightarrow> bytes option" where
  "PackageH264STAPA nalus =
     (if length nalus < 2 then None
      else case stapa_scan 1 0 nalus of
        None \<Rightarrow> None
      | Some (tot, maxNri) \<Rightarrow>
          Some ((maxNri OR h264StapAType) # concat (map (\<lambda>n. be16 (of_nat (length n)) @ n) nalus)))"

section \<open>Depacketizing\<close>

record H264Depacketizer =
  fuBuf :: bytes
  fuType :: u8
  fuNriF :: u8
  fuActive :: bool

function stapa_units :: "bytes \<Rightarrow> bytes list" where
  "stapa_units body =
     (if 2 \<le> length body then
        let size = unat (get16 body); body' = drop 2 body
        in if size \<le> 0 \<or> length body' < size then []
           else take size body' # stapa_units (drop size body')
      else [])"
  by pat_completeness auto
termination
  by (relation "measure length") auto

declare stapa_units.simps [simp del]

definition Depacketize :: "H264Depacketizer \<Rightarrow> bytes \<Rightarrow> bytes list \<times> H264Depacketizer" where
  "Depacketize d payload =
     (if length payload < 1 then ([], d)
      else
        let naluType = payload ! 0 AND 0x1f; fbitAndNri = payload ! 0 AND 0xe0
        in if 1 \<le> naluType \<and> naluType \<le> 23 then ([payload], d\<lparr>fuActive := False\<rparr>)
           else if naluType = h264StapAType then
             (stapa_units (drop 1 payload), d\<lparr>fuActive := False\<rparr>)
           else if naluType = h264FuaType then
             (if length payload < 2 then ([], d\<lparr>fuActive := False\<rparr>)
              else
                let fuHeader = payload ! 1; startBit = fuHeader AND 0x80; endBit = fuHeader AND 0x40;
                    origType = fuHeader AND 0x1f; body = drop 2 payload;
                    finish = (\<lambda>d1. if endBit \<noteq> 0 \<and> fuActive d1
                      then ([fuBuf d1], d1\<lparr>fuActive := False, fuBuf := []\<rparr>) else ([], d1))
                in if startBit \<noteq> 0 then
                     finish (d\<lparr>fuActive := True, fuType := origType, fuNriF := fbitAndNri,
                       fuBuf := (fbitAndNri OR origType) # body\<rparr>)
                   else if fuActive d then
                     (if maxFuReassemblyBytes < length (fuBuf d) + length body
                      then ([], d\<lparr>fuActive := False, fuBuf := []\<rparr>)
                      else finish (d\<lparr>fuBuf := fuBuf d @ body\<rparr>))
                   else ([], d))
           else ([], d\<lparr>fuActive := False\<rparr>))"

fun depacketize_all :: "H264Depacketizer \<Rightarrow> bytes list \<Rightarrow> bytes list \<times> H264Depacketizer" where
  "depacketize_all d [] = ([], d)"
| "depacketize_all d (p # ps) =
     (let (out, d1) = Depacketize d p; (outs, d2) = depacketize_all d1 ps in (out @ outs, d2))"

lemma depacketize_all_append:
  "depacketize_all d (ps @ qs) =
    (let (a, d1) = depacketize_all d ps; (b, d2) = depacketize_all d1 qs in (a @ b, d2))"
  by (induction ps arbitrary: d) (auto simp: Let_def split: prod.splits)

section \<open>Fragmentation round trip\<close>

text \<open>The header bytes of a fragment carry the two halves of the unit's header.\<close>

lemma header_halves: "(h AND 0xe0) OR (h AND 0x1f) = (h :: u8)"
proof -
  have "(0xe0 :: u8) OR 0x1f = - 1" by simp
  then have "h AND (0xe0 OR 0x1f) = h" by (simp only: and.right_neutral)
  then show ?thesis by (simp only: bit.conj_disj_distrib)
qed

lemma fu_indicator:
  "((h AND 0xe0) OR 28) AND 0x1f = (28 :: u8)"
  "((h AND 0xe0) OR 28) AND 0xe0 = h AND (0xe0 :: u8)"
  by (simp_all add: bit.conj_disj_distrib2 and.assoc)

lemma fu_header:
  fixes h :: u8
  defines "t \<equiv> h AND 0x1f"
  shows "t AND 0x80 = 0" "t AND 0x40 = 0" "t AND 0x1f = t"
    "(t OR 0x80) AND 0x80 = 0x80" "(t OR 0x80) AND 0x40 = 0" "(t OR 0x80) AND 0x1f = t"
    "(t OR 0x40) AND 0x80 = 0" "(t OR 0x40) AND 0x40 = 0x40" "(t OR 0x40) AND 0x1f = t"
  by (simp_all add: t_def bit.conj_disj_distrib2 and.assoc)

text \<open>One fragment at the depacketizer, by its position.\<close>

definition fu_packet :: "u8 \<Rightarrow> bool \<Rightarrow> bool \<Rightarrow> bytes \<Rightarrow> bytes" where
  "fu_packet h first end' chunk =
     (let h1 = (if first then (h AND 0x1f) OR 0x80 else h AND 0x1f)
      in ((h AND 0xe0) OR h264FuaType) # (if end' then h1 OR 0x40 else h1) # chunk)"

lemma fu_fragments_Cons:
  "body \<noteq> [] \<Longrightarrow> fu_fragments ((h AND 0xe0) OR h264FuaType) (h AND 0x1f) first body =
    fu_packet h first (length body \<le> 798) (take 798 body) #
      fu_fragments ((h AND 0xe0) OR h264FuaType) (h AND 0x1f) False (drop 798 body)"
  by (subst fu_fragments.simps) (simp add: fu_packet_def mtuPayloadMax_def Let_def)

lemma fu_fragments_Nil [simp]: "fu_fragments i t f [] = []"
  by (subst fu_fragments.simps) simp

lemma fu_header_both:
  fixes h :: u8
  defines "t \<equiv> (h AND 0x1f) OR 0x80 OR 0x40"
  shows "t AND 0x80 = 0x80" "t AND 0x40 = 0x40" "t AND 0x1f = h AND 0x1f"
  by (simp_all add: t_def bit.conj_disj_distrib2 and.assoc)

lemmas fu_bits = fu_indicator fu_header fu_header_both or.assoc

lemma fu_first:
  "Depacketize d (fu_packet h True False chunk) =
    ([], d\<lparr>fuActive := True, fuType := h AND 0x1f, fuNriF := h AND 0xe0, fuBuf := h # chunk\<rparr>)"
  by (simp add: Depacketize_def fu_packet_def fu_bits header_halves h264StapAType_def h264FuaType_def Let_def)

lemma fu_middle:
  "fuActive d \<Longrightarrow> Depacketize d (fu_packet h False e chunk) =
    (if 4194304 < length (fuBuf d) + length chunk then ([], d\<lparr>fuActive := False, fuBuf := []\<rparr>)
     else if e then ([fuBuf d @ chunk], d\<lparr>fuActive := False, fuBuf := []\<rparr>)
     else ([], d\<lparr>fuBuf := fuBuf d @ chunk\<rparr>))"
  by (simp add: Depacketize_def fu_packet_def fu_bits h264StapAType_def maxFuReassemblyBytes_def h264FuaType_def Let_def)

lemma fu_dropped: "\<not> fuActive d \<Longrightarrow> Depacketize d (fu_packet h False e chunk) = ([], d)"
  by (simp add: Depacketize_def fu_packet_def fu_bits h264StapAType_def h264FuaType_def Let_def)

lemma fu_inactive:
  "\<not> fuActive d \<Longrightarrow> depacketize_all d
    (fu_fragments ((h AND 0xe0) OR h264FuaType) (h AND 0x1f) False body) = ([], d)"
proof (induction "length body" arbitrary: body rule: less_induct)
  case less
  show ?case
  proof (cases "body = []")
    case False
    then show ?thesis
      using less by (simp add: fu_fragments_Cons fu_dropped)
  qed simp
qed

lemma fu_rest:
  "fuActive d \<Longrightarrow> body \<noteq> [] \<Longrightarrow> length (fuBuf d) \<le> 4194304 \<Longrightarrow>
   depacketize_all d (fu_fragments ((h AND 0xe0) OR h264FuaType) (h AND 0x1f) False body) =
     (if length (fuBuf d) + length body \<le> 4194304 then [fuBuf d @ body] else [],
      d\<lparr>fuActive := False, fuBuf := []\<rparr>)"
proof (induction "length body" arbitrary: body d rule: less_induct)
  case less
  show ?case
  proof (cases "length body \<le> 798")
    case True
    with less.prems show ?thesis
      by (simp add: fu_fragments_Cons fu_middle)
  next
    case False
    show ?thesis
    proof (cases "4194304 < length (fuBuf d) + 798")
      case over: True
      with False less.prems show ?thesis
        by (subst fu_fragments_Cons) (simp_all add: fu_middle fu_inactive)
    next
      case fits: False
      let ?d = "d\<lparr>fuBuf := fuBuf d @ take 798 body\<rparr>"
      have "depacketize_all ?d
          (fu_fragments ((h AND 0xe0) OR h264FuaType) (h AND 0x1f) False (drop 798 body)) =
        (if length (fuBuf ?d) + length (drop 798 body) \<le> 4194304 then [fuBuf ?d @ drop 798 body] else [],
         ?d\<lparr>fuActive := False, fuBuf := []\<rparr>)"
        using False fits less.prems by (intro less.hyps) auto
      with False fits less.prems show ?thesis
        by (subst fu_fragments_Cons) (simp_all add: fu_middle)
    qed
  qed
qed

text \<open>Units whose type a single-NAL packet can carry.\<close>

definition nal_unit :: "bytes \<Rightarrow> bool" where
  "nal_unit n \<longleftrightarrow> n \<noteq> [] \<and> 1 \<le> n ! 0 AND 0x1f \<and> n ! 0 AND 0x1f \<le> 23"

lemma PackageH264NALU_round_trip:
  assumes "nal_unit n"
  shows "fst (depacketize_all d (PackageH264NALU n)) = (if length n \<le> 4194304 then [n] else []) \<and>
    \<not> fuActive (snd (depacketize_all d (PackageH264NALU n)))"
proof (cases "length n \<le> 800")
  case True
  with assms show ?thesis
    by (cases n) (auto simp: nal_unit_def PackageH264NALU_def mtuPayloadMax_def Depacketize_def Let_def)
next
  case False
  then obtain h body where n: "n = h # body" by (cases n) auto
  with False have body: "body \<noteq> []" "\<not> length body \<le> 798" by auto
  let ?d = "d\<lparr>fuActive := True, fuType := h AND 0x1f, fuNriF := h AND 0xe0, fuBuf := h # take 798 body\<rparr>"
  have "depacketize_all ?d
      (fu_fragments ((h AND 0xe0) OR h264FuaType) (h AND 0x1f) False (drop 798 body)) =
    (if length n \<le> 4194304 then [n] else [], ?d\<lparr>fuActive := False, fuBuf := []\<rparr>)"
    using fu_rest [of ?d "drop 798 body" h] body by (simp add: n)
  then show ?thesis
    using False body
    by (simp add: n PackageH264NALU_def mtuPayloadMax_def Let_def fu_fragments_Cons fu_first)
qed

lemma fu_fragments_size:
  "p \<in> set (fu_fragments i t f body) \<Longrightarrow> length p \<le> 800"
proof (induction "length body" arbitrary: body f rule: less_induct)
  case less
  show ?case
  proof (cases "body = []")
    case False
    with less.prems have "length p \<le> 800 \<or> p \<in> set (fu_fragments i t False (drop 798 body))"
      by (subst (asm) fu_fragments.simps) (auto simp: mtuPayloadMax_def Let_def)
    with less.hyps [of "drop 798 body" False] False show ?thesis by auto
  qed (use less.prems in simp)
qed

text \<open>C19: the packets of an access unit reassemble to it: for any list of NAL units that a
  single-NAL packet can carry and that fit the reassembly buffer, packaging each (whole, or as FU-A
  fragments) and depacketizing all payloads in order yields exactly the units, from any state of
  the depacketizer, and leaves no fragment open; a unit beyond the buffer is dropped whole.\<close>

theorem h264_round_trip:
  assumes "list_all nal_unit ns"
  shows "fst (depacketize_all d (concat (map PackageH264NALU ns))) =
    filter (\<lambda>n. length n \<le> 4194304) ns"
  using assms
proof (induction ns arbitrary: d)
  case Nil
  then show ?case by simp
next
  case (Cons n ns)
  then show ?case
    using PackageH264NALU_round_trip [of n d]
    by (auto simp: depacketize_all_append Let_def split: prod.splits if_splits) (metis fst_conv)+
qed

lemma h264_round_trip_witness:
  "fst (depacketize_all \<lparr>fuBuf = [9], fuType = 5, fuNriF = 0, fuActive = True\<rparr>
     (concat (map PackageH264NALU [[0x67, 1], 0x65 # replicate 1000 7]))) = [[0x67, 1], 0x65 # replicate 1000 7]"
  using h264_round_trip [of "[[0x67, 1], 0x65 # replicate 1000 7]"] by (simp add: nal_unit_def)

lemma PackageH264NALU_sizes:
  "list_all (\<lambda>p. 1 \<le> length p \<and> length p \<le> 800) (PackageH264NALU n)"
proof -
  have "1 \<le> length p" if "p \<in> set (fu_fragments i t f b)" for p i t f b
    using that
  proof (induction "length b" arbitrary: b f rule: less_induct)
    case less
    show ?case
    proof (cases "b = []")
      case False
      with less.prems have "1 \<le> length p \<or> p \<in> set (fu_fragments i t False (drop 798 b))"
        by (subst (asm) fu_fragments.simps) (auto simp: mtuPayloadMax_def Let_def)
      with less.hyps [of "drop 798 b" False] False show ?thesis by auto
    qed (use less.prems in simp)
  qed
  then show ?thesis
    by (auto simp: PackageH264NALU_def mtuPayloadMax_def Let_def fu_fragments_size Suc_le_eq list_all_iff)
qed

text \<open>No payload exceeds the packet budget: every payload made from a NAL unit has between 1 and
  800 bytes.\<close>

theorem PackageH264NALU_budget:
  "list_all (\<lambda>p. 1 \<le> length p \<and> length p \<le> 800) (PackageH264NALU n)"
  by (rule PackageH264NALU_sizes)

section \<open>Aggregation round trip\<close>

lemma stapa_scan_total:
  "stapa_scan t m ns = Some (t', m') \<Longrightarrow>
    t' = t + length (concat (map (\<lambda>n. be16 (of_nat (length n)) @ n) ns)) \<and>
    list_all (\<lambda>n. 0 < length n \<and> length n \<le> 0xffff) ns \<and> (t \<le> 800 \<longrightarrow> t' \<le> 800)"
proof (induction ns arbitrary: t m)
  case Nil
  then show ?case by simp
next
  case (Cons n ns)
  then have n: "0 < length n" "length n \<le> 0xffff" "t + (2 + length n) \<le> 800"
    and rest: "stapa_scan (t + (2 + length n)) (if m < n ! 0 AND 0x60 then n ! 0 AND 0x60 else m) ns
      = Some (t', m')"
    by (auto simp: mtuPayloadMax_def Let_def split: if_splits)
  with Cons.IH [OF rest] show ?case by simp
qed

lemma stapa_units_concat:
  "list_all (\<lambda>n. 0 < length n \<and> length n \<le> 0xffff) ns \<Longrightarrow>
   stapa_units (concat (map (\<lambda>n. be16 (of_nat (length n)) @ n) ns)) = ns"
proof (induction ns)
  case Nil
  then show ?case by (subst stapa_units.simps) simp
next
  case (Cons n ns)
  then have "unat (of_nat (length n) :: u16) = length n" by (simp add: unat_of_nat)
  with Cons show ?case by (subst stapa_units.simps) (simp add: Let_def)
qed

lemma stapa_scan_None:
  "stapa_scan t m ns = None \<Longrightarrow> [] \<in> set ns \<or> 800 < t + sum_list (map (\<lambda>n. 2 + length n) ns)"
proof (induction ns arbitrary: t m)
  case Nil
  then show ?case by simp
next
  case (Cons n ns)
  show ?case
  proof (cases "n = [] \<or> 800 < t + (2 + length n) \<or> 0xffff < length n")
    case True
    then show ?thesis by auto
  next
    case False
    with Cons.prems have "stapa_scan (t + (2 + length n)) (if m < n ! 0 AND 0x60 then n ! 0 AND 0x60 else m) ns = None"
      by (simp add: mtuPayloadMax_def Let_def split: if_splits)
    from Cons.IH [OF this] show ?thesis by auto
  qed
qed

definition nri_bits :: "u8 \<Rightarrow> bool" where
  "nri_bits m \<longleftrightarrow> m AND 0x9f = 0"

lemma stapa_scan_nri: "stapa_scan t m ns = Some (t', m') \<Longrightarrow> nri_bits m \<Longrightarrow> nri_bits m'"
  by (induction ns arbitrary: t m)
    (auto simp: nri_bits_def and.assoc mtuPayloadMax_def Let_def split: if_splits)

lemma stapa_header: "nri_bits m \<Longrightarrow> (m OR 24) AND 0x1f = (24 :: u8)"
proof -
  assume "nri_bits m"
  then have "(m AND 0x9f) AND 0x1f = 0" by (simp add: nri_bits_def)
  then have "m AND 0x1f = 0" by (simp add: and.assoc)
  then show ?thesis by (simp add: bit.conj_disj_distrib2)
qed

text \<open>A STAP-A payload is within the budget and depacketizes to the units it aggregates, in
  order, from any state; aggregation gives up exactly on fewer than two units, an empty unit, or a
  payload beyond 800 bytes.\<close>

theorem PackageH264STAPA_round_trip:
  "case PackageH264STAPA ns of
     Some p \<Rightarrow> length p \<le> 800 \<and> fst (Depacketize d p) = ns
   | None \<Rightarrow> length ns < 2 \<or> [] \<in> set ns \<or> 800 < 1 + sum_list (map (\<lambda>n. 2 + length n) ns)"
proof (cases "length ns < 2")
  case True
  then show ?thesis by (simp add: PackageH264STAPA_def)
next
  case False
  show ?thesis
  proof (cases "stapa_scan 1 0 ns")
    case None
    then show ?thesis
      using stapa_scan_None [OF None] by (simp add: PackageH264STAPA_def)
  next
    case (Some r)
    obtain t m where r: "r = (t, m)" by (cases r)
    have m: "(m OR 24) AND 0x1f = (24 :: u8)"
      using stapa_scan_nri Some r by (intro stapa_header) (auto simp: nri_bits_def)
    show ?thesis
      using False stapa_scan_total [of 1 0 ns t m] Some r
      by (simp add: PackageH264STAPA_def Depacketize_def h264StapAType_def m stapa_units_concat Let_def)
  qed
qed

section \<open>Splitting a stream\<close>

lemma annexb_step:
  "i < length data \<Longrightarrow> annexBStartCodeLen data i = 0 \<Longrightarrow> annexb_loop data i st = annexb_loop data (Suc i) st"
  by (subst annexb_loop.simps) simp

lemma annexb_skip:
  assumes "\<And>k. i \<le> k \<Longrightarrow> k < j \<Longrightarrow> annexBStartCodeLen data k = 0" and "i \<le> j" and "j \<le> length data"
  shows "annexb_loop data i st = annexb_loop data j st"
  using assms(2,3,1)
proof (induction rule: dec_induct)
  case base
  then show ?case by simp
next
  case (step n)
  then have "annexb_loop data i st = annexb_loop data n st" by simp
  also have "\<dots> = annexb_loop data (Suc n) st"
    using step by (intro annexb_step) auto
  finally show ?case .
qed

text \<open>
  A well-formed unit: it is not empty, does not end in a zero byte, and holds no start code, as the
  emulation prevention of H.264 guarantees.
\<close>

definition annexb_unit :: "bytes \<Rightarrow> bool" where
  "annexb_unit n \<longleftrightarrow> n \<noteq> [] \<and> last n \<noteq> 0 \<and> list_all (\<lambda>k. annexBStartCodeLen n k = 0) [0..<length n]"

lemma annexb_unit_no_code:
  assumes "annexb_unit n" and "k < length n"
  shows "annexBStartCodeLen (pre @ n @ post) (length pre + k) = 0"
proof -
  have last: "n ! (length n - 1) \<noteq> 0" and n0: "annexBStartCodeLen n k = 0"
    using assms by (auto simp: annexb_unit_def last_conv_nth list_all_iff)
  have last_at: "n ! j \<noteq> 0" if "Suc j = length n" for j
    using last by (simp flip: that)
  have nth: "(pre @ n @ post) ! (length pre + j) = (if j < length n then n ! j else post ! (j - length n))" for j
    by (simp add: nth_append)
  consider "k + 3 < length n" | "k + 3 = length n" | "k + 2 = length n" | "k + 1 = length n"
    using assms(2) by linarith
  then show ?thesis
  proof cases
    case 1
    then show ?thesis
      using n0 nth [of k] nth [of "k + 1"] nth [of "k + 2"] nth [of "k + 3"]
      by (auto simp: annexBStartCodeLen_def add.assoc split: if_splits)
  next
    case 2
    then have "length n - 1 = k + 2" by simp
    with last have "n ! (k + 2) \<noteq> 0" by simp
    with 2 show ?thesis
      using n0 nth [of k] nth [of "k + 1"] nth [of "k + 2"]
      by (auto simp: annexBStartCodeLen_def add.assoc split: if_splits)
  next
    case 3
    then show ?thesis
      using last_at [of "k + 1"] nth [of "k + 1"] by (auto simp: annexBStartCodeLen_def add.assoc)
  next
    case 4
    then show ?thesis
      using last_at [of k] nth [of k] by (auto simp: annexBStartCodeLen_def)
  qed
qed

lemma trim_zeros_id: "0 < n \<Longrightarrow> data ! (n - 1) \<noteq> 0 \<Longrightarrow> trim_zeros data s n = n"
  by (cases n) auto

lemma annexb_code:
  "annexBStartCodeLen (pre @ [0, 0, 0, 1] @ post) (length pre) = 4"
  by (simp add: annexBStartCodeLen_def nth_append)

text \<open>The stream of some units, each behind a four-byte start code.\<close>

fun annexb_stream :: "bytes list \<Rightarrow> bytes" where
  "annexb_stream [] = []"
| "annexb_stream (n # ns) = [0, 0, 0, 1] @ n @ annexb_stream ns"

lemma annexb_loop_units:
  "list_all annexb_unit (n # ns) \<Longrightarrow>
   annexb_loop (pre @ n @ annexb_stream ns) (length pre) (Some (length pre)) = n # ns"
proof (induction ns arbitrary: n pre)
  case Nil
  then have n: "annexb_unit n" "n \<noteq> []" by (auto simp: annexb_unit_def)
  have "annexb_loop (pre @ n) (length pre) (Some (length pre)) =
      annexb_loop (pre @ n) (length (pre @ n)) (Some (length pre))"
  proof (rule annexb_skip)
    fix k
    assume "length pre \<le> k" "k < length (pre @ n)"
    then show "annexBStartCodeLen (pre @ n) k = 0"
      using annexb_unit_no_code [OF n(1), of "k - length pre" pre "[]"] by simp
  qed simp_all
  also have "\<dots> = [n]"
    using n(2) by (subst annexb_loop.simps) simp
  finally show ?case by simp
next
  case (Cons m ns)
  let ?rest = "annexb_stream ns"
  let ?d = "pre @ n @ [0, 0, 0, 1] @ m @ ?rest"
  have n: "annexb_unit n" "n \<noteq> []" "last n \<noteq> 0" using Cons.prems by (auto simp: annexb_unit_def)
  have "annexb_loop ?d (length pre) (Some (length pre)) =
      annexb_loop ?d (length (pre @ n)) (Some (length pre))"
  proof (rule annexb_skip)
    fix k
    assume "length pre \<le> k" "k < length (pre @ n)"
    then show "annexBStartCodeLen ?d k = 0"
      using annexb_unit_no_code [OF n(1), of "k - length pre" pre "[0, 0, 0, 1] @ m @ ?rest"] by simp
  qed simp_all
  also have "\<dots> = n # annexb_loop ?d (length (pre @ n @ [0, 0, 0, 1])) (Some (length (pre @ n @ [0, 0, 0, 1])))"
  proof -
    have "annexBStartCodeLen ?d (length (pre @ n)) = 4"
      using annexb_code [of "pre @ n" "m @ ?rest"] by simp
    moreover have "trim_zeros ?d (length pre) (length (pre @ n)) = length (pre @ n)"
    proof (rule trim_zeros_id)
      have "length (pre @ n) - 1 = length pre + (length n - 1)" using n(2) by (cases n) auto
      then show "?d ! (length (pre @ n) - 1) \<noteq> 0"
        using n(2,3) by (simp add: nth_append last_conv_nth)
    qed (use n(2) in simp)
    moreover have "slice ?d (length pre) (length (pre @ n)) = n" "length pre < length (pre @ n)"
      using n(2) by (simp_all add: slice_def)
    ultimately show ?thesis
      by (subst annexb_loop.simps) (simp add: Let_def numeral_eq_Suc)
  qed
  also have "\<dots> = n # m # ns"
    using Cons.IH [of m "pre @ n @ [0, 0, 0, 1]"] Cons.prems by simp
  finally show ?case by simp
qed

lemma SplitAnnexB_stream:
  assumes "list_all annexb_unit ns"
  shows "SplitAnnexB (annexb_stream ns) = ns"
proof (cases ns)
  case Nil
  then show ?thesis by (simp add: SplitAnnexB_def annexb_loop.simps)
next
  case (Cons n ms)
  let ?rest = "annexb_stream ms"
  have "annexb_loop ([0, 0, 0, 1] @ n @ ?rest) 0 None =
      annexb_loop ([0, 0, 0, 1] @ n @ ?rest) (length [0, 0, 0, 1 :: u8]) (Some (length [0, 0, 0, 1 :: u8]))"
    using annexb_code [of "[]" "n @ ?rest"] by (subst annexb_loop.simps) (simp add: Let_def numeral_eq_Suc)
  with annexb_loop_units [of n ms "[0, 0, 0, 1]"] assms Cons show ?thesis
    by (simp add: SplitAnnexB_def)
qed

text \<open>Splitting an Annex-B stream recovers its units: for any list of well-formed units, each
  written with a four-byte start code in front, \<open>SplitAnnexB\<close> returns exactly these units.\<close>

theorem SplitAnnexB_units:
  assumes "list_all annexb_unit ns"
  shows "SplitAnnexB (annexb_stream ns) = ns"
  using assms by (rule SplitAnnexB_stream)

lemma SplitAnnexB_units_witness:
  "SplitAnnexB (annexb_stream [[0x67, 0, 3], [0x65, 0, 0, 3, 1]]) =
    [[0x67, 0, 3], [0x65, 0, 0, 3, 1]]"
  by (rule SplitAnnexB_units) (simp add: annexb_unit_def annexBStartCodeLen_def upt_rec)

end
