(* ===== verification/Rtcp.thy ===== *)
theory Rtcp
  imports E2e
begin

text \<open>
  rtp/rtcp.go: the RTCP packets the client builds (compact reports, sender reports with source
  description and reception block), the readers of compound packets, and the reception statistics
  of one inbound stream.  All counters keep their width; the mutex of the statistics serialises the
  operations, which are therefore modelled as functions on the state.
\<close>

definition RtcpPtSr :: u8 where "RtcpPtSr = 200"
definition RtcpPtSdes :: u8 where "RtcpPtSdes = 202"
definition RtcpPtPsfb :: u8 where "RtcpPtPsfb = 206"
definition RtcpPtWaCompact :: u8 where "RtcpPtWaCompact = 208"
definition RtcpPtWaCompact2 :: u8 where "RtcpPtWaCompact2 = 209"
definition RtcpHeaderLen :: nat where "RtcpHeaderLen = 8"
definition ntpUnixOffsetSecs :: u64 where "ntpUnixOffsetSecs = 2208988800"
definition WhatsappRtcpCnameLen :: nat where "WhatsappRtcpCnameLen = 18"

definition IsRtcpPacket :: "bytes \<Rightarrow> bool" where
  "IsRtcpPacket data =
     (if length data < RtcpHeaderLen then False
      else if drop_bit 6 (data ! 0) AND 0x03 \<noteq> 2 then False
      else 192 \<le> data ! 1 \<and> data ! 1 \<le> 223)"

definition RtcpPayloadType :: "bytes \<Rightarrow> u8 option" where
  "RtcpPayloadType data = (if \<not> IsRtcpPacket data then None else Some (data ! 1))"

definition ParseRtcpSenderSsrc :: "bytes \<Rightarrow> u32 option" where
  "ParseRtcpSenderSsrc data =
     (if length data < 8 \<or> drop_bit 6 (data ! 0) AND 0x03 \<noteq> 2 then None
      else Some (get32 (drop 4 data)))"

record RtcpSenderStats =
  PacketsSent :: u32
  OctetsSent :: u32
  SrRtpTimestamp :: u32

text \<open>\<open>CumulativeLost\<close> is an \<open>int32\<close> clamped to 24 bits when it is computed.\<close>

record RtcpReceptionReport =
  RrSsrc :: u32
  FractionLost :: u8
  CumulativeLost :: int
  ExtendedHighestSequence :: u32
  Jitter :: u32
  LastSenderReport :: u32
  DelaySinceLastSenderReport :: u32

section \<open>Reception statistics\<close>

record RtcpReceptionStats =
  rcSsrc :: u32
  hasSsrc :: bool
  baseSequence :: u16
  maxSequence :: u16
  sequenceCycles :: u32
  received :: u32
  expectedPrior :: u32
  receivedPrior :: u32
  rcTransit :: u32
  hasTransit :: bool
  jitterQ4 :: u64
  lastSenderReport :: u32
  lastSenderReportAtMs :: u64
  hasSenderReport :: bool

definition new_stats :: RtcpReceptionStats where
  "new_stats = \<lparr>rcSsrc = 0, hasSsrc = False, baseSequence = 0, maxSequence = 0, sequenceCycles = 0,
     received = 0, expectedPrior = 0, receivedPrior = 0, rcTransit = 0, hasTransit = False,
     jitterQ4 = 0, lastSenderReport = 0, lastSenderReportAtMs = 0, hasSenderReport = False\<rparr>"

text \<open>The two halves of \<open>Observe\<close>: the sequence accounting and the jitter filter.\<close>

definition observe_sequence :: "RtcpReceptionStats \<Rightarrow> u32 \<Rightarrow> u16 \<Rightarrow> RtcpReceptionStats" where
  "observe_sequence s ssrc sequence =
     (if \<not> hasSsrc s \<or> rcSsrc s \<noteq> ssrc then
        s\<lparr>sequenceCycles := 0, expectedPrior := 0, receivedPrior := 0, hasTransit := False,
          jitterQ4 := 0, lastSenderReport := 0, hasSenderReport := False, rcSsrc := ssrc,
          hasSsrc := True, baseSequence := sequence, maxSequence := sequence, received := 1\<rparr>
      else
        let delta = sequence - maxSequence s;
            s1 = (if delta \<noteq> 0 \<and> delta < 0x8000 then
                (let s0 = (if sequence < maxSequence s
                   then s\<lparr>sequenceCycles := sequenceCycles s + 0x10000\<rparr> else s)
                 in s0\<lparr>maxSequence := sequence\<rparr>)
              else s)
        in s1\<lparr>received := received s1 + 1\<rparr>)"

definition observe_jitter :: "RtcpReceptionStats \<Rightarrow> u32 \<Rightarrow> u64 \<Rightarrow> u32 \<Rightarrow> RtcpReceptionStats" where
  "observe_jitter s rtpTimestamp arrivalMs clockRate =
     (let arrivalRtp = (ucast ((arrivalMs * ucast clockRate) div 1000) :: u32);
          transit = arrivalRtp - rtpTimestamp;
          s1 = (if hasTransit s then
              let delta = sint (transit - rcTransit s);
                  distance = (of_int (if delta < 0 then - delta else delta) :: u64);
                  decay = drop_bit 4 (jitterQ4 s + 8);
                  j = jitterQ4 s + distance
              in s\<lparr>jitterQ4 := (if decay \<le> j then j - decay else 0)\<rparr>
            else s)
      in s1\<lparr>rcTransit := transit, hasTransit := True\<rparr>)"

definition Observe :: "RtcpReceptionStats \<Rightarrow> u32 \<Rightarrow> u16 \<Rightarrow> u32 \<Rightarrow> u64 \<Rightarrow> u32 \<Rightarrow> RtcpReceptionStats" where
  "Observe s ssrc sequence rtpTimestamp arrivalMs clockRate =
     observe_jitter (observe_sequence s ssrc sequence) rtpTimestamp arrivalMs clockRate"

definition ObserveSenderReport :: "RtcpReceptionStats \<Rightarrow> u32 \<Rightarrow> u32 \<Rightarrow> u32 \<Rightarrow> u64 \<Rightarrow> RtcpReceptionStats" where
  "ObserveSenderReport s senderSsrc ntpSeconds ntpFraction arrivalMs =
     (if \<not> hasSsrc s \<or> rcSsrc s \<noteq> senderSsrc then s
      else s\<lparr>lastSenderReport := push_bit 16 ntpSeconds OR drop_bit 16 ntpFraction,
        lastSenderReportAtMs := arrivalMs, hasSenderReport := True\<rparr>)"

definition Report :: "RtcpReceptionStats \<Rightarrow> u64 \<Rightarrow> RtcpReceptionReport option \<times> RtcpReceptionStats" where
  "Report s nowMs =
     (if \<not> hasSsrc s then (None, s)
      else
        let expected = sequenceCycles s + ucast (maxSequence s) - ucast (baseSequence s) + 1;
            expectedInterval = expected - expectedPrior s;
            receivedInterval = received s - receivedPrior s;
            lostInterval = uint expectedInterval - uint receivedInterval;
            fractionLost = (if expectedInterval \<noteq> 0 \<and> 0 < lostInterval then
                (let fraction = (lostInterval * 256) div uint expectedInterval
                 in (of_int (if 255 < fraction then 255 else fraction) :: u8))
              else 0);
            s1 = s\<lparr>expectedPrior := expected, receivedPrior := received s\<rparr>;
            cumulativeLost = uint expected - uint (received s);
            clamped = (if cumulativeLost < -0x800000 then -0x800000
              else if 0x7fffff < cumulativeLost then 0x7fffff else cumulativeLost);
            dlsr = (if hasSenderReport s then
                (let elapsed = (if nowMs < lastSenderReportAtMs s then 0 else nowMs - lastSenderReportAtMs s);
                     value = elapsed * 65536 div 1000
                 in (ucast (if 0xffffffff < value then 0xffffffff else value) :: u32))
              else 0);
            jitter = drop_bit 4 (jitterQ4 s)
        in (Some \<lparr>RrSsrc = rcSsrc s, FractionLost = fractionLost, CumulativeLost = clamped,
              ExtendedHighestSequence = sequenceCycles s OR ucast (maxSequence s),
              Jitter = ucast (if 0xffffffff < jitter then 0xffffffff else jitter),
              LastSenderReport = lastSenderReport s, DelaySinceLastSenderReport = dlsr\<rparr>, s1))"

section \<open>Building packets\<close>

definition BuildCompactRtcp208 :: "u32 \<Rightarrow> u32 \<Rightarrow> bytes" where
  "BuildCompactRtcp208 localSsrc remoteSsrc =
     [0x81, RtcpPtWaCompact, 0, 2] @ be32 localSsrc @ be32 remoteSsrc"

definition BuildCompactRtcp209 :: "u32 \<Rightarrow> bytes" where
  "BuildCompactRtcp209 localSsrc = [0x81, RtcpPtWaCompact2, 0, 1] @ be32 localSsrc"

text \<open>
  The NTP fraction: the code computes \<open>uint32(float64(ms)/1000.0*4294967296.0)\<close> for \<open>ms < 1000\<close>.
  Only the division rounds, by a relative error of at most \<open>2^-53\<close>, and \<open>ms * 2^32 / 1000\<close> is an
  integer or at least \<open>1/125\<close> away from one (an exact eighth is representable), so the truncation
  is the integer quotient.
\<close>

definition ntp_seconds :: "u64 \<Rightarrow> u32" where
  "ntp_seconds nowMs = ucast (nowMs div 1000 + ntpUnixOffsetSecs)"

definition ntp_fraction :: "u64 \<Rightarrow> u32" where
  "ntp_fraction nowMs = ucast (((nowMs mod 1000) * 4294967296) div 1000)"

definition BuildSenderReport :: "u32 \<Rightarrow> RtcpSenderStats \<Rightarrow> u64 \<Rightarrow> bytes" where
  "BuildSenderReport localSsrc stats nowMs =
     [0x80, RtcpPtSr, 0, 6] @ be32 localSsrc @ be32 (ntp_seconds nowMs) @ be32 (ntp_fraction nowMs) @
     be32 (SrRtpTimestamp stats) @ be32 (PacketsSent stats) @ be32 (OctetsSent stats)"

definition hexChars :: bytes where
  "hexChars = [0x30, 0x31, 0x32, 0x33, 0x34, 0x35, 0x36, 0x37, 0x38, 0x39, 0x61, 0x62, 0x63, 0x64,
     0x65, 0x66]"

definition BuildWhatsappRtcpCname :: "bytes \<Rightarrow> bytes" where
  "BuildWhatsappRtcpCname entropy =
     (let randomHex = map (\<lambda>nibble. let b = entropy ! (6 + nibble div 2)
            in if nibble mod 2 = 0 then hexChars ! unat (drop_bit 4 b) else hexChars ! unat (b AND 0x0f))
          [0..<11]
      in take 5 randomHex @ [0x40, 0x70, 0x6a] @ drop 5 randomHex @ [0x2e, 0x6f, 0x72, 0x67])"

definition BuildSourceDescription :: "u32 \<Rightarrow> bytes \<Rightarrow> bool \<Rightarrow> bytes" where
  "BuildSourceDescription localSsrc cname profileExtension =
     [if profileExtension then 0x81 OR 0x10 else 0x81, RtcpPtSdes] @ be16 7 @ be32 localSsrc @
     [1, of_nat WhatsappRtcpCnameLen] @ cname @ replicate 4 0"

definition appendReceptionReport :: "bytes \<Rightarrow> RtcpReceptionReport \<Rightarrow> bytes" where
  "appendReceptionReport out report =
     (let lost = (of_int (CumulativeLost report) :: u32)
      in out @ be32 (RrSsrc report) @ [FractionLost report] @
         [ucast (drop_bit 16 lost), ucast (drop_bit 8 lost), ucast lost] @
         be32 (ExtendedHighestSequence report) @ be32 (Jitter report) @
         be32 (LastSenderReport report) @ be32 (DelaySinceLastSenderReport report))"

definition BuildSenderReportWithSdesAndReception ::
    "u32 \<Rightarrow> RtcpSenderStats \<Rightarrow> u64 \<Rightarrow> bytes \<Rightarrow> RtcpReceptionReport option \<Rightarrow> bool \<Rightarrow> bytes" where
  "BuildSenderReportWithSdesAndReception localSsrc stats nowMs cname report profileExtension =
     (let sr0 = BuildSenderReport localSsrc stats nowMs;
          sr = (if profileExtension then sr0[0 := sr0 ! 0 OR 0x10] else sr0);
          sdes = BuildSourceDescription localSsrc cname profileExtension;
          out = (case report of
              None \<Rightarrow> sr
            | Some r \<Rightarrow>
                let o1 = appendReceptionReport (sr[0 := sr ! 0 OR 1]) r;
                    o2 = o1 @ replicate 24 0;
                    n = (of_nat (length o2 div 4 - 1) :: u16)
                in o2[2 := ucast (drop_bit 8 n), 3 := ucast n])
      in out @ sdes)"

definition BuildSenderReportWithSdes :: "u32 \<Rightarrow> RtcpSenderStats \<Rightarrow> u64 \<Rightarrow> bytes \<Rightarrow> bool \<Rightarrow> bytes" where
  "BuildSenderReportWithSdes localSsrc stats nowMs cname profileExtension =
     BuildSenderReportWithSdesAndReception localSsrc stats nowMs cname None profileExtension"

section \<open>Reading compound packets\<close>

text \<open>Both loops run over the rest of the packet from the current offset.\<close>

function ParseSenderReportTiming :: "bytes \<Rightarrow> (u32 \<times> u32 \<times> u32) option" where
  "ParseSenderReportTiming data =
     (if data = [] then None
      else if length data < 4 then None
      else
        let packetLen = (unat (get16 (drop 2 data)) + 1) * 4
        in if packetLen < 4 \<or> length data < packetLen then None
           else
             let packet = take packetLen data
             in if packet ! 1 = RtcpPtSr \<and> 28 \<le> length packet
                then Some (get32 (drop 4 packet), get32 (drop 8 packet), get32 (drop 12 packet))
                else ParseSenderReportTiming (drop packetLen data))"
  by pat_completeness auto
termination
  by (relation "measure length") auto

declare ParseSenderReportTiming.simps [simp del]

text \<open>The loop over the FCI entries of a full intra request.\<close>

function fci_requests :: "bytes \<Rightarrow> u32 \<Rightarrow> bool" where
  "fci_requests fci localVideoSsrc =
     (if length fci < 8 then False
      else if get32 fci = localVideoSsrc then True
      else fci_requests (drop 8 fci) localVideoSsrc)"
  by pat_completeness auto
termination
  by (relation "measure (\<lambda>(fci, s). length fci)") auto

declare fci_requests.simps [simp del]

definition packet_requests_keyframe :: "bytes \<Rightarrow> u32 \<Rightarrow> bool" where
  "packet_requests_keyframe packet localVideoSsrc =
     (if packet ! 1 = RtcpPtPsfb \<and> 12 \<le> length packet then
        let rawFmt = packet ! 0 AND 0x1f;
            fmt = (if rawFmt AND 0x10 \<noteq> 0 then rawFmt AND 0x0f else rawFmt);
            mediaSsrc = get32 (drop 8 packet)
        in if fmt = 1 \<and> mediaSsrc = localVideoSsrc then True
           else if fmt = 4 then
             (if mediaSsrc = localVideoSsrc then True else fci_requests (drop 12 packet) localVideoSsrc)
           else False
      else False)"

function RtcpRequestsKeyframe :: "bytes \<Rightarrow> u32 \<Rightarrow> bool" where
  "RtcpRequestsKeyframe data localVideoSsrc =
     (if length data < 4 then False
      else if drop_bit 6 (data ! 0) AND 0x03 \<noteq> 2 then False
      else
        let packetLen = (unat (get16 (drop 2 data)) + 1) * 4
        in if packetLen < 8 \<or> length data < packetLen then False
           else if packet_requests_keyframe (take packetLen data) localVideoSsrc then True
           else RtcpRequestsKeyframe (drop packetLen data) localVideoSsrc)"
  by pat_completeness auto
termination
  by (relation "measure (\<lambda>(data, s). length data)") auto

declare RtcpRequestsKeyframe.simps [simp del]

section \<open>What the statistics count\<close>

text \<open>
  The statistics of a stream with first index \<open>base\<close>, newest index \<open>h\<close> and \<open>c\<close> packets, whose
  previous report was made at \<open>p\<close> expected and \<open>q\<close> received packets.
\<close>

definition counts :: "u32 \<Rightarrow> nat \<Rightarrow> nat \<Rightarrow> nat \<Rightarrow> nat \<Rightarrow> nat \<Rightarrow> RtcpReceptionStats \<Rightarrow> bool" where
  "counts x base h c p q s \<longleftrightarrow>
     hasSsrc s \<and> rcSsrc s = x \<and> baseSequence s = of_nat base \<and> maxSequence s = of_nat h \<and>
     sequenceCycles s = of_nat (h div 65536 * 65536) \<and> received s = of_nat c \<and>
     expectedPrior s = of_nat p \<and> receivedPrior s = of_nat q"

lemma counts_jitter [simp]: "counts x base h c p q (observe_jitter s ts ms rate) = counts x base h c p q s"
  by (simp add: observe_jitter_def counts_def Let_def)

lemma forward_delta:
  assumes "n < h + 32768" "h < n + 32768"
  shows "(of_nat n - of_nat h :: u16) \<noteq> 0 \<and> (of_nat n - of_nat h :: u16) < 0x8000 \<longleftrightarrow> h < n"
proof (cases "h < n")
  case True
  then obtain d where n: "n = h + d" "0 < d" "d < 32768"
    using assms by (metis add.commute add_less_cancel_left less_imp_add_positive)
  then have "unat (of_nat n - of_nat h :: u16) = d" by (simp add: unat_of_nat)
  then have "(of_nat n - of_nat h :: u16) \<noteq> 0" "(of_nat n - of_nat h :: u16) < 0x8000"
    using n by (auto simp: word_less_nat_alt)
  with True show ?thesis by simp
next
  case False
  then obtain d where h: "h = n + d" "d < 32768"
    using assms by (metis add.commute add_less_cancel_left le_Suc_ex not_less)
  show ?thesis
  proof (cases "d = 0")
    case True
    with h show ?thesis by simp
  next
    case d: False
    have "(of_nat n - of_nat h :: u16) = of_nat (65536 - d)"
      using h d by (simp add: of_nat_diff)
    moreover have "unat (of_nat (65536 - d) :: u16) = 65536 - d"
      using d by (simp only: unat_of_nat) simp
    ultimately have "unat (of_nat n - of_nat h :: u16) = 65536 - d" by simp
    moreover have "\<not> 65536 - d < 32768" using h by linarith
    ultimately show ?thesis using False by (simp add: word_less_nat_alt)
  qed
qed

lemma forward_epoch:
  assumes "h < n" "n < h + 32768"
  shows "n mod 65536 < h mod 65536 \<Longrightarrow> n div 65536 = Suc (h div 65536)"
    and "\<not> n mod 65536 < h mod 65536 \<Longrightarrow> n div 65536 = h div 65536"
  using index_split [of h] index_split [of n] assms by linarith+

lemma observe_counts:
  assumes s: "counts x base h c p q s" and near: "n < h + 32768" "h < n + 32768"
  shows "counts x base (max h n) (Suc c) p q (observe_sequence s x (of_nat n))"
proof -
  note st = s [unfolded counts_def]
  have wrap: "(of_nat n :: u16) < of_nat h \<longleftrightarrow> n mod 65536 < h mod 65536"
    by (simp add: word_less_nat_alt unat_of_nat)
  show ?thesis
  proof (cases "h < n")
    case False
    then have "\<not> ((of_nat n - of_nat h :: u16) \<noteq> 0 \<and> (of_nat n - of_nat h :: u16) < 0x8000)"
      using forward_delta [OF near] by simp
    then have "observe_sequence s x (of_nat n) = s\<lparr>received := received s + 1\<rparr>"
      using st by (simp only: observe_sequence_def Let_def) simp
    with False st show ?thesis by (simp add: counts_def max_def)
  next
    case True
    then have d: "(of_nat n - of_nat h :: u16) \<noteq> 0 \<and> (of_nat n - of_nat h :: u16) < 0x8000"
      using forward_delta [OF near] by simp
    have "observe_sequence s x (of_nat n) = s\<lparr>sequenceCycles := of_nat (n div 65536 * 65536),
        maxSequence := of_nat n, received := received s + 1\<rparr>"
      using st d forward_epoch [OF True near(1)] wrap
      by (simp only: observe_sequence_def Let_def) (simp add: algebra_simps)
    with True st show ?thesis by (simp add: counts_def max_def)
  qed
qed

text \<open>A run of packets of one stream, each with its RTP timestamp and arrival time.\<close>

fun observe_all :: "RtcpReceptionStats \<Rightarrow> u32 \<Rightarrow> u32 \<Rightarrow> (nat \<times> u32 \<times> u64) list \<Rightarrow> RtcpReceptionStats" where
  "observe_all s x rate [] = s"
| "observe_all s x rate ((n, ts, ms) # ps) = observe_all (Observe s x (of_nat n) ts ms rate) x rate ps"

definition newest :: "nat \<Rightarrow> (nat \<times> u32 \<times> u64) list \<Rightarrow> nat" where
  "newest h ps = fold max (map fst ps) h"

lemma observe_all_counts:
  "counts x base h c p q s \<Longrightarrow> near_newest h (map fst ps) \<Longrightarrow>
   counts x base (newest h ps) (c + length ps) p q (observe_all s x rate ps)"
proof (induction ps arbitrary: s h c)
  case Nil
  then show ?case by (simp add: newest_def)
next
  case (Cons a ps)
  obtain n ts ms where a: "a = (n, ts, ms)" by (cases a)
  from Cons.prems a have "counts x base (max h n) (Suc c) p q (Observe s x (of_nat n) ts ms rate)"
    by (simp add: Observe_def observe_counts)
  from Cons.IH [OF this] Cons.prems a show ?case
    by (simp add: newest_def max.commute)
qed

lemma newest_ge: "h \<le> newest h ps"
proof (induction ps arbitrary: h)
  case Nil
  then show ?case by (simp add: newest_def)
next
  case (Cons a ps)
  have "h \<le> max (fst a) h" by simp
  also have "\<dots> \<le> newest (max (fst a) h) ps" by (rule Cons.IH)
  finally show ?case by (simp add: newest_def)
qed

lemma split_u32: "of_nat (h div 65536 * 65536) + of_nat (h mod 65536) = (of_nat h :: u32)"
  by (simp only: of_nat_add [symmetric] div_mult_mod_eq)

lemma first_observe:
  "base < 65536 \<Longrightarrow> counts x base base 1 0 0 (Observe new_stats x (of_nat base) ts ms rate)"
  by (simp add: Observe_def) (simp add: observe_sequence_def new_stats_def counts_def)

lemma extended_sequence:
  "(of_nat (h div 65536 * 65536) :: u32) OR ucast (of_nat h :: u16) = of_nat h"
proof -
  have "(of_nat (h div 65536 * 65536) :: u32) = push_bit 16 (of_nat (h div 65536))"
    by (simp add: push_bit_eq_mult)
  moreover have "ucast (of_nat h :: u16) = (of_nat (h mod 65536) :: u32)"
    by (simp add: word_unat_eq_iff unat_ucast_mod unat_of_nat)
  moreover have "push_bit 16 (of_nat (h div 65536)) AND ucast (of_nat h :: u16) = (0 :: u32)"
    by (rule bit_word_eqI) (auto simp: bit_simps)
  ultimately have "(of_nat (h div 65536 * 65536) :: u32) OR ucast (of_nat h :: u16) =
      of_nat (h div 65536 * 65536) + of_nat (h mod 65536)"
    by (metis disjunctive_add_eq_or)
  also have "\<dots> = of_nat h" by (rule split_u32)
  finally show ?thesis .
qed

lemma expected_count:
  assumes "counts x base h c p q s" "base < 65536" "base \<le> h"
  shows "sequenceCycles s + ucast (maxSequence s) - ucast (baseSequence s) + 1 = of_nat (h - base + 1)"
proof -
  have u: "ucast (of_nat k :: u16) = (of_nat (k mod 65536) :: u32)" for k
    by (simp add: word_unat_eq_iff unat_ucast_mod unat_of_nat)
  from assms show ?thesis
    unfolding counts_def by (simp add: u of_nat_diff split_u32 del: of_nat_mult)
qed

lemma uint_of_nat_u32: "n < 4294967296 \<Longrightarrow> uint (of_nat n :: u32) = int n"
  by (simp add: uint_nat unat_of_nat)

definition fraction_lost :: "nat \<Rightarrow> nat \<Rightarrow> u8" where
  "fraction_lost expected got = of_nat (min 255 ((expected - got) * 256 div expected))"

definition clamp24 :: "int \<Rightarrow> int" where
  "clamp24 v = (if v < -0x800000 then -0x800000 else if 0x7fffff < v then 0x7fffff else v)"

lemma fraction_lost_int:
  assumes "e < 4294967296" "g < 4294967296"
  shows "(if (of_nat e :: u32) \<noteq> 0 \<and> 0 < int e - int g
     then (of_int (if 255 < (int e - int g) * 256 div int e then 255 else (int e - int g) * 256 div int e) :: u8)
     else 0) = fraction_lost e g"
proof (cases "g < e")
  case True
  then have "unat (of_nat e :: u32) \<noteq> 0" using assms by (simp add: unat_of_nat)
  then have "(of_nat e :: u32) \<noteq> 0" by auto
  moreover have "(int e - int g) * 256 div int e = int ((e - g) * 256 div e)"
    using True by (simp add: zdiv_int of_nat_diff)
  ultimately show ?thesis
    using True by (simp add: fraction_lost_def min_def)
qed (simp add: fraction_lost_def)

lemma Report_counts:
  assumes s: "counts x base h c p q s" and b: "base < 65536" "base \<le> h" "h < 4294967295" "c < 4294967296"
    and pq: "p \<le> h - base + 1" "q \<le> c"
  shows "\<exists>r s'. Report s t = (Some r, s') \<and> counts x base h c (h - base + 1) c s' \<and> RrSsrc r = x \<and>
    ExtendedHighestSequence r = of_nat h \<and>
    CumulativeLost r = clamp24 (int (h - base + 1) - int c) \<and>
    FractionLost r = fraction_lost (h - base + 1 - p) (c - q)"
proof -
  let ?e = "h - base + 1"
  note st = s [unfolded counts_def]
  have e: "?e < 4294967296" using b by linarith
  have exp: "sequenceCycles s + ucast (maxSequence s) - ucast (baseSequence s) + 1 = of_nat ?e"
    by (rule expected_count [OF s b(1,2)])
  have ei: "(of_nat ?e - expectedPrior s :: u32) = of_nat (?e - p)"
    and ri: "received s - receivedPrior s = of_nat (c - q)"
    using st pq by (simp_all add: of_nat_diff)
  have ui: "uint (of_nat (?e - p) :: u32) = int (?e - p)" "uint (of_nat (c - q) :: u32) = int (c - q)"
      "uint (of_nat ?e :: u32) = int ?e" "uint (received s) = int c"
    using e b st by (simp_all only: uint_of_nat_u32)
  have "Report s t = (Some (the (fst (Report s t))), s\<lparr>expectedPrior := of_nat ?e, receivedPrior := received s\<rparr>)"
  proof -
    have "snd (Report s t) = s\<lparr>expectedPrior := of_nat ?e, receivedPrior := received s\<rparr>"
      by (simp only: Report_def exp Let_def) (simp add: st)
    moreover have "fst (Report s t) \<noteq> None"
      by (simp add: Report_def st Let_def)
    ultimately show ?thesis by (metis option.collapse prod.collapse)
  qed
  moreover have "counts x base h c ?e c (s\<lparr>expectedPrior := of_nat ?e, receivedPrior := received s\<rparr>)"
    using st by (simp add: counts_def)
  moreover have "RrSsrc (the (fst (Report s t))) = x"
    using st by (simp add: Report_def Let_def)
  moreover have "ExtendedHighestSequence (the (fst (Report s t))) = of_nat h"
    using st extended_sequence [of h] by (simp add: Report_def Let_def)
  moreover have "CumulativeLost (the (fst (Report s t))) = clamp24 (int ?e - int c)"
    by (simp only: Report_def exp ui Let_def) (simp only: st clamp24_def, simp)
  moreover have "FractionLost (the (fst (Report s t))) = fraction_lost (?e - p) (c - q)"
  proof -
    have "?e - p < 4294967296" "c - q < 4294967296" using e b by linarith+
    from fraction_lost_int [OF this] show ?thesis
      by (simp only: Report_def exp ei ri ui Let_def) (simp add: st del: of_nat_diff)
  qed
  ultimately show ?thesis by blast
qed

text \<open>C28: periodic reception reports: for a stream whose packets arrive in any order, each less than
  32768 away from the newest, the first report counts from the first packet and the second only the
  interval since the first: the extended sequence number is the newest index, wraps included, the
  cumulative loss is expected minus received (clamped to 24 bits), and the loss fraction is the
  interval's loss in 256ths of the interval's expected packets, at most 255.\<close>

theorem reception_reports:
  assumes base: "base < 65536"
    and near: "near_newest base (map fst ps1)" "near_newest (newest base ps1) (map fst ps2)"
    and small: "newest base (ps1 @ ps2) < 4294967295" "length ps1 + length ps2 < 4294967295"
  shows "\<exists>r1 s2 r2 s3.
    Report (observe_all (Observe new_stats x (of_nat base) ts ms rate) x rate ps1) t1 = (Some r1, s2) \<and>
    Report (observe_all s2 x rate ps2) t2 = (Some r2, s3) \<and>
    ExtendedHighestSequence r1 = of_nat (newest base ps1) \<and>
    ExtendedHighestSequence r2 = of_nat (newest base (ps1 @ ps2)) \<and>
    CumulativeLost r1 = clamp24 (int (newest base ps1 - base) - int (length ps1)) \<and>
    CumulativeLost r2 = clamp24 (int (newest base (ps1 @ ps2) - base) - int (length ps1 + length ps2)) \<and>
    FractionLost r1 = fraction_lost (newest base ps1 - base + 1) (length ps1 + 1) \<and>
    FractionLost r2 = fraction_lost (newest base (ps1 @ ps2) - newest base ps1) (length ps2)"
proof -
  define s1 where "s1 = observe_all (Observe new_stats x (of_nat base) ts ms rate) x rate ps1"
  define h1 where "h1 = newest base ps1"
  define h2 where "h2 = newest (newest base ps1) ps2"
  have h2': "newest base (ps1 @ ps2) = h2" by (simp add: h2_def newest_def)
  note near = near [folded h1_def] and small = small [unfolded h2']
  have ge: "base \<le> h1" "h1 \<le> h2" by (simp_all add: h1_def h2_def newest_ge)
  have c1: "counts x base h1 (1 + length ps1) 0 0 s1"
    unfolding s1_def h1_def by (intro observe_all_counts first_observe base near(1))
  obtain r1 s2 where r1: "Report s1 t1 = (Some r1, s2)"
      "counts x base h1 (1 + length ps1) (h1 - base + 1) (1 + length ps1) s2"
      "ExtendedHighestSequence r1 = of_nat h1"
      "CumulativeLost r1 = clamp24 (int (h1 - base + 1) - int (1 + length ps1))"
      "FractionLost r1 = fraction_lost (h1 - base + 1 - 0) (1 + length ps1 - 0)"
    using Report_counts [OF c1 base ge(1), of t1] ge small by auto
  have c2: "counts x base h2 (1 + length ps1 + length ps2) (h1 - base + 1) (1 + length ps1)
      (observe_all s2 x rate ps2)"
    unfolding h2_def using observe_all_counts [OF r1(2)] near(2) by (simp add: h1_def)
  obtain r2 s3 where r2: "Report (observe_all s2 x rate ps2) t2 = (Some r2, s3)"
      "ExtendedHighestSequence r2 = of_nat h2"
      "CumulativeLost r2 = clamp24 (int (h2 - base + 1) - int (1 + length ps1 + length ps2))"
      "FractionLost r2 = fraction_lost (h2 - base + 1 - (h1 - base + 1)) (1 + length ps1 + length ps2 - (1 + length ps1))"
    using Report_counts [OF c2 base _ small(1), of t2] ge small(2) diff_le_mono [OF ge(2), of base]
    by auto
  have "int (h1 - base + 1) - int (1 + length ps1) = int (h1 - base) - int (length ps1)"
    "int (h2 - base + 1) - int (1 + length ps1 + length ps2) = int (h2 - base) - int (length ps1 + length ps2)"
    "h2 - base + 1 - (h1 - base + 1) = h2 - h1"
    using ge by linarith+
  with r1 r2 show ?thesis unfolding h2' s1_def [symmetric] h1_def [symmetric] by auto
qed

lemma reception_reports_witness:
  "\<exists>r1 s2 r2 s3.
    Report (observe_all (Observe new_stats 7 (of_nat 65534) 0 0 16000) 7 16000 [(65537, 1, 1), (65536, 2, 2)]) 9
      = (Some r1, s2) \<and>
    Report (observe_all s2 7 16000 [(65541, 3, 3)]) 10 = (Some r2, s3) \<and>
    ExtendedHighestSequence r1 = 65537 \<and> ExtendedHighestSequence r2 = 65541 \<and>
    FractionLost r1 = 64 \<and> FractionLost r2 = 192"
  using reception_reports [of 65534 "[(65537, 1, 1), (65536, 2, 2)]" "[(65541, 3, 3)]" 7 0 0 16000 9 10]
  by (simp add: newest_def fraction_lost_def) blast

section \<open>Compound packets\<close>

definition wf_rtcp :: "bytes \<Rightarrow> bool" where
  "wf_rtcp p \<longleftrightarrow> 8 \<le> length p \<and> drop_bit 6 (p ! 0) AND 0x03 = 2 \<and>
     length p = (unat (get16 (drop 2 p)) + 1) * 4"

lemma wf_rtcp_prefix:
  assumes "wf_rtcp p"
  shows "(p @ r) ! 0 = p ! 0" "(p @ r) ! 1 = p ! 1" "get16 (drop 2 (p @ r)) = get16 (drop 2 p)"
    "4 \<le> length p" "8 \<le> length p" "drop_bit 6 (p ! 0) AND 0x03 = 2"
    "(unat (get16 (drop 2 p)) + 1) * 4 = length p"
proof -
  show *: "8 \<le> length p" "drop_bit 6 (p ! 0) AND 0x03 = 2"
      "(unat (get16 (drop 2 p)) + 1) * 4 = length p"
    using assms unfolding wf_rtcp_def by (blast intro: sym)+
  from *(1) show "4 \<le> length p" by linarith
  from *(1) have "0 < length p" "1 < length p" by linarith+
  then show "(p @ r) ! 0 = p ! 0" "(p @ r) ! 1 = p ! 1" by (simp_all add: nth_append)
  from *(1) show "get16 (drop 2 (p @ r)) = get16 (drop 2 p)" by simp
qed

lemma RtcpRequestsKeyframe_step:
  assumes "wf_rtcp p"
  shows "RtcpRequestsKeyframe (p @ r) x \<longleftrightarrow> packet_requests_keyframe p x \<or> RtcpRequestsKeyframe r x"
proof -
  have "\<not> length (p @ r) < 4" "\<not> (length p < 8 \<or> length (p @ r) < length p)"
    using wf_rtcp_prefix(4,5) [OF assms] by simp_all
  then show ?thesis
    by (subst RtcpRequestsKeyframe.simps) (simp only: wf_rtcp_prefix [OF assms] Let_def, simp)
qed

lemma fci_requests_iff:
  "fci_requests fci x \<longleftrightarrow> (\<exists>k. 8 * k + 8 \<le> length fci \<and> get32 (drop (8 * k) fci) = x)"
proof (induction fci x rule: fci_requests.induct)
  case (1 fci x)
  show ?case
  proof (cases "length fci < 8 \<or> get32 fci = x")
    case True
    then show ?thesis by (subst fci_requests.simps) (auto intro: exI [of _ 0])
  next
    case False
    then have "fci_requests fci x \<longleftrightarrow> fci_requests (drop 8 fci) x"
      by (subst fci_requests.simps) simp
    also have "\<dots> \<longleftrightarrow> (\<exists>k. 8 * Suc k + 8 \<le> length fci \<and> get32 (drop (8 * Suc k) fci) = x)"
      using 1 False by (simp add: le_diff_conv2 add.commute)
    also have "\<dots> \<longleftrightarrow> (\<exists>k. 8 * k + 8 \<le> length fci \<and> get32 (drop (8 * k) fci) = x)"
      using False by (metis (no_types, lifting) drop0 mult_0_right not0_implies_Suc)
    finally show ?thesis .
  qed
qed

text \<open>The keyframe scan reads every packet of a compound: for any sequence of well-formed RTCP
  packets it reports a request exactly when one of the packets carries one for the local SSRC.\<close>

theorem RtcpRequestsKeyframe_compound:
  assumes "list_all wf_rtcp ps"
  shows "RtcpRequestsKeyframe (concat ps) x \<longleftrightarrow> list_ex (\<lambda>p. packet_requests_keyframe p x) ps"
  using assms
proof (induction ps)
  case Nil
  then show ?case by (simp add: RtcpRequestsKeyframe.simps)
next
  case (Cons p ps)
  then show ?case by (simp add: RtcpRequestsKeyframe_step)
qed

lemma RtcpRequestsKeyframe_compound_witness:
  "RtcpRequestsKeyframe ([0x80, 201, 0, 1, 0, 0, 0, 1] @ [0x81, 206, 0, 2, 0, 0, 0, 1, 0, 0, 0, 7]) 7"
proof -
  have "list_all wf_rtcp [[0x80, 201, 0, 1, 0, 0, 0, 1], [0x81, 206, 0, 2, 0, 0, 0, 1, 0, 0, 0, 7]]"
    by (simp add: wf_rtcp_def get16_def)
  from RtcpRequestsKeyframe_compound [OF this, of 7] show ?thesis
    by (simp add: packet_requests_keyframe_def RtcpPtPsfb_def get32_def)
qed

section \<open>The packets the client sends\<close>

definition sr_first_byte :: "bool \<Rightarrow> bool \<Rightarrow> u8" where
  "sr_first_byte profileExtension has_report =
     (if profileExtension then 0x90 else 0x80) OR (if has_report then 1 else 0)"

definition reception_block :: "RtcpReceptionReport \<Rightarrow> bytes" where
  "reception_block r = appendReceptionReport [] r @ replicate 24 0"

lemma length_reception_block [simp]: "length (reception_block r) = 48"
  by (simp add: reception_block_def appendReceptionReport_def Let_def)

lemma appendReceptionReport_append: "appendReceptionReport out r = out @ appendReceptionReport [] r"
  by (simp add: appendReceptionReport_def Let_def)

definition sr_packet :: "u32 \<Rightarrow> RtcpSenderStats \<Rightarrow> u64 \<Rightarrow> RtcpReceptionReport option \<Rightarrow> bool \<Rightarrow> bytes" where
  "sr_packet x st nowMs report ext =
     [sr_first_byte ext (report \<noteq> None), 200] @ be16 (if report = None then 6 else 18) @ be32 x @
     be32 (ntp_seconds nowMs) @ be32 (ntp_fraction nowMs) @ be32 (SrRtpTimestamp st) @
     be32 (PacketsSent st) @ be32 (OctetsSent st) @
     (case report of None \<Rightarrow> [] | Some r \<Rightarrow> reception_block r)"

lemma be16_small: "be16 6 = [0, 6]" "be16 7 = [0, 7]" "be16 18 = [0, 18]"
  by (simp_all add: be16_def)

lemma compound_layout:
  "BuildSenderReportWithSdesAndReception x st nowMs cname report ext =
    sr_packet x st nowMs report ext @ BuildSourceDescription x cname ext"
proof (cases report)
  case None
  then show ?thesis
    by (simp add: BuildSenderReportWithSdesAndReception_def BuildSenderReport_def sr_packet_def
        sr_first_byte_def RtcpPtSr_def be16_small Let_def)
next
  case (Some r)
  let ?tail = "be32 x @ be32 (ntp_seconds nowMs) @ be32 (ntp_fraction nowMs) @
      be32 (SrRtpTimestamp st) @ be32 (PacketsSent st) @ be32 (OctetsSent st)"
  let ?sr0 = "BuildSenderReport x st nowMs"
  let ?sr = "if ext then ?sr0[0 := ?sr0 ! 0 OR 0x10] else ?sr0"
  have sr: "?sr[0 := ?sr ! 0 OR 1] = [sr_first_byte ext True, 200, 0, 6] @ ?tail"
    by (simp add: BuildSenderReport_def sr_first_byte_def RtcpPtSr_def)
  have o2: "appendReceptionReport ([sr_first_byte ext True, 200, 0, 6] @ ?tail) r @ replicate 24 0 =
      [sr_first_byte ext True, 200, 0, 6] @ ?tail @ reception_block r"
    by (subst appendReceptionReport_append) (simp only: reception_block_def append_assoc)
  have len: "length ([sr_first_byte ext True, 200, 0, 6] @ ?tail @ reception_block r) div 4 - 1 = 18"
    by simp
  have "([b, 200, 0, 6] @ y)[2 := u, 3 := v] = [b, 200, u, v] @ y" for b u v :: u8 and y
    by (simp add: numeral_2_eq_2 numeral_3_eq_3)
  then show ?thesis
    unfolding BuildSenderReportWithSdesAndReception_def Let_def
    by (simp only: Some option.case sr o2 len) (simp add: sr_packet_def be16_small)
qed

lemma length_sr_packet: "length (sr_packet x st nowMs report ext) = (if report = None then 28 else 76)"
  by (simp add: sr_packet_def split: option.splits)

lemma wf_sr_packet: "wf_rtcp (sr_packet x st nowMs report ext)"
proof -
  let ?p = "sr_packet x st nowMs report ext"
  have "get16 (drop 2 ?p) = (if report = None then 6 else 18)" "?p ! 0 = sr_first_byte ext (report \<noteq> None)"
    by (simp_all add: sr_packet_def)
  then show ?thesis
    unfolding wf_rtcp_def length_sr_packet
    by (cases ext; cases report) (simp_all add: sr_first_byte_def)
qed

lemma wf_source_description:
  assumes "length cname = 18"
  shows "wf_rtcp (BuildSourceDescription x cname ext)" "length (BuildSourceDescription x cname ext) = 32"
  using assms by (simp_all add: wf_rtcp_def BuildSourceDescription_def)

lemma wf_compact: "wf_rtcp (BuildCompactRtcp208 x y)" "wf_rtcp (BuildCompactRtcp209 x)"
  by (simp_all add: wf_rtcp_def BuildCompactRtcp208_def BuildCompactRtcp209_def get16_def)

lemma length_BuildWhatsappRtcpCname: "length (BuildWhatsappRtcpCname entropy) = 18"
  by (simp add: BuildWhatsappRtcpCname_def Let_def)

lemma sr_timing:
  "ParseSenderReportTiming (sr_packet x st nowMs report ext @ rest) =
    Some (x, ntp_seconds nowMs, ntp_fraction nowMs)"
proof -
  let ?p = "sr_packet x st nowMs report ext"
  have f: "?p ! 1 = 200" "get32 (drop 4 ?p) = x" "get32 (drop 8 ?p) = ntp_seconds nowMs"
      "get32 (drop 12 ?p) = ntp_fraction nowMs"
    by (simp_all add: sr_packet_def)
  have l: "28 \<le> length ?p" by (simp add: length_sr_packet)
  then have ne: "?p @ rest \<noteq> []" "\<not> length (?p @ rest) < 4" "\<not> (length ?p < 4 \<or> length (?p @ rest) < length ?p)"
    by auto
  have "take (length ?p) (?p @ rest) = ?p" by simp
  with ne l f show ?thesis
    by (subst ParseSenderReportTiming.simps)
      (simp only: wf_rtcp_prefix [OF wf_sr_packet] Let_def RtcpPtSr_def, simp)
qed

text \<open>The periodic report is a well-formed compound: a sender report, of 28 bytes or of 76 with a
  reception block, and a 32-byte source description, each with the length word and version of RTCP;
  it is classified as RTCP, names its sender, carries no keyframe request, and the peer's timing
  reader finds the sender and the NTP timestamp in it.\<close>

theorem periodic_report_well_formed:
  assumes "length cname = 18"
  shows "\<exists>sr sdes. BuildSenderReportWithSdesAndReception x st nowMs cname report ext = sr @ sdes \<and>
    wf_rtcp sr \<and> wf_rtcp sdes \<and> length sr = (if report = None then 28 else 76) \<and> length sdes = 32 \<and>
    IsRtcpPacket (sr @ sdes) \<and> ParseRtcpSenderSsrc (sr @ sdes) = Some x \<and>
    \<not> RtcpRequestsKeyframe (sr @ sdes) y \<and>
    ParseSenderReportTiming (sr @ sdes) = Some (x, ntp_seconds nowMs, ntp_fraction nowMs)"
proof -
  let ?sr = "sr_packet x st nowMs report ext" and ?sdes = "BuildSourceDescription x cname ext"
  note wf = wf_sr_packet [of x st nowMs report ext] wf_source_description [OF assms, of x ext]
  have p: "?sr ! 0 = sr_first_byte ext (report \<noteq> None)" "?sr ! 1 = 200" "get32 (drop 4 ?sr) = x"
      "?sdes ! 1 = 202"
    by (simp_all add: sr_packet_def BuildSourceDescription_def RtcpPtSdes_def)
  have l: "8 \<le> length (?sr @ ?sdes)" by (simp add: length_sr_packet)
  have v: "drop_bit 6 (sr_first_byte ext (report \<noteq> None)) AND 0x03 = 2"
    by (simp add: sr_first_byte_def)
  have "get32 (drop 4 (?sr @ ?sdes)) = x"
    using wf_rtcp_prefix(5) [OF wf(1)] p(3) by simp
  then have id: "ParseRtcpSenderSsrc (?sr @ ?sdes) = Some x" and isr: "IsRtcpPacket (?sr @ ?sdes)"
    using l v p wf_rtcp_prefix(1,2) [OF wf(1), of ?sdes]
    by (simp_all add: ParseRtcpSenderSsrc_def IsRtcpPacket_def RtcpHeaderLen_def)
  have "\<not> packet_requests_keyframe ?sr y" "\<not> packet_requests_keyframe ?sdes y"
    by (simp_all only: packet_requests_keyframe_def p RtcpPtPsfb_def) simp_all
  then have "\<not> RtcpRequestsKeyframe (concat [?sr, ?sdes]) y"
    by (simp only: concat.simps RtcpRequestsKeyframe_step [OF wf(1)] RtcpRequestsKeyframe_step [OF wf(2)])
      (simp add: RtcpRequestsKeyframe.simps)
  then show ?thesis
    using id isr wf
    by (intro exI [of _ ?sr] exI [of _ ?sdes] conjI)
      (simp_all add: compound_layout length_sr_packet sr_timing)
qed

lemma periodic_report_well_formed_witness:
  "\<exists>sr sdes. BuildSenderReportWithSdesAndReception 5 \<lparr>PacketsSent = 1, OctetsSent = 2, SrRtpTimestamp = 3\<rparr>
      1718000000000 (BuildWhatsappRtcpCname (replicate 12 0xab)) None True = sr @ sdes \<and>
    wf_rtcp sr \<and> wf_rtcp sdes \<and> length sr = 28"
  using periodic_report_well_formed [OF length_BuildWhatsappRtcpCname, of 5
      "\<lparr>PacketsSent = 1, OctetsSent = 2, SrRtpTimestamp = 3\<rparr>" 1718000000000 "replicate 12 0xab" None True 9]
  by (simp only: if_True refl) blast

end
