(* ===== verification/Ssrc.thy ===== *)
theory Ssrc
  imports Participant
begin

text \<open>
  rtp/ssrc.go: stream SSRCs derived from the call id and a participant, and the participant id
  variants under which a receiver tries the peer's keys.
\<close>

definition WasmRelayStreamSlotWords :: "u32 list" where
  "WasmRelayStreamSlotWords = [0, 1, 4, 2, 3, 5, 7, 8, 6]"

definition VideoSlotWord :: u32 where "VideoSlotWord = 2"
definition AppDataSlotWord :: u32 where "AppDataSlotWord = 6"

definition DeriveWasmParticipantSsrc :: "string \<Rightarrow> string \<Rightarrow> u32 \<Rightarrow> u32 option" where
  "DeriveWasmParticipantSsrc callID lid slotWord =
     (case HKDFSHA256 (le32 slotWord) (bytes_of callID) (bytes_of lid) 4 of
        None \<Rightarrow> None
      | Some okm \<Rightarrow> Some (get32_le okm))"

text \<open>The loop over the slots stops at the first error.\<close>

fun derive_slots :: "string \<Rightarrow> string \<Rightarrow> u32 list \<Rightarrow> u32 list option" where
  "derive_slots callID lid [] = Some []"
| "derive_slots callID lid (slot # slots) =
     (case DeriveWasmParticipantSsrc callID lid slot of
        None \<Rightarrow> None
      | Some ssrc \<Rightarrow>
          (case derive_slots callID lid slots of None \<Rightarrow> None | Some r \<Rightarrow> Some (ssrc # r)))"

definition DeriveWasmRelayStreamSsrcs :: "string \<Rightarrow> string \<Rightarrow> u32 list option" where
  "DeriveWasmRelayStreamSsrcs callID lid = derive_slots callID lid WasmRelayStreamSlotWords"

definition FormatE2ESrtpParticipantID :: "string \<Rightarrow> string" where
  "FormatE2ESrtpParticipantID jid = FormatParticipantID jid"

text \<open>The closure \<open>push\<close>: the map \<open>seen\<close> holds exactly the strings of \<open>out\<close>.\<close>

definition push_variant :: "string \<Rightarrow> string list \<Rightarrow> string list" where
  "push_variant s out = (let t = trim_space s in if t \<noteq> [] \<and> t \<notin> set out then out @ [t] else out)"

definition E2EParticipantIDVariants :: "string \<Rightarrow> string list" where
  "E2EParticipantIDVariants jid =
     (let bare = trim_space (cut_before CHR ''/'' jid);
          out = push_variant (FormatE2ESrtpParticipantID jid) (push_variant bare [])
      in case last_index CHR ''@'' bare of
           None \<Rightarrow> out
         | Some at \<Rightarrow>
             if 0 < at then
               let user = take at bare; domain = drop (Suc at) bare
               in if domain = ''lid'' \<and> CHR '':'' \<in> set user then
                    let base = cut_before CHR '':'' user
                    in push_variant (base @ ''@'' @ domain) (push_variant (base @ '':0@'' @ domain) out)
                  else out
             else out)"

lemma DeriveWasmParticipantSsrc_total: "\<exists>x. DeriveWasmParticipantSsrc callID lid slot = Some x"
  using HKDFSHA256_total [of 4 "le32 slot" "bytes_of callID" "bytes_of lid"]
  by (auto simp: DeriveWasmParticipantSsrc_def)

lemma derive_slots_total: "\<exists>r. derive_slots callID lid slots = Some r \<and> length r = length slots \<and>
    (\<forall>k < length slots. DeriveWasmParticipantSsrc callID lid (slots ! k) = Some (r ! k))"
proof (induction slots)
  case Nil
  then show ?case by simp
next
  case (Cons slot slots)
  obtain x where x: "DeriveWasmParticipantSsrc callID lid slot = Some x"
    using DeriveWasmParticipantSsrc_total by blast
  from Cons.IH x show ?case
    by (auto simp: nth_Cons split: nat.splits)
qed

text \<open>The relay allocation derives all nine stream SSRCs, never failing, and its audio, video and
  app-data entries are the SSRCs that the media path derives on its own from the slot words, so both
  sides of the client agree on the streams.\<close>

theorem DeriveWasmRelayStreamSsrcs_slots:
  "\<exists>r. DeriveWasmRelayStreamSsrcs callID lid = Some r \<and> length r = 9 \<and>
    DeriveWasmParticipantSsrc callID lid 0 = Some (r ! 0) \<and>
    DeriveWasmParticipantSsrc callID lid VideoSlotWord = Some (r ! 3) \<and>
    DeriveWasmParticipantSsrc callID lid AppDataSlotWord = Some (r ! 8)"
proof -
  obtain r where r: "DeriveWasmRelayStreamSsrcs callID lid = Some r" "length r = 9"
      "\<forall>k < 9. DeriveWasmParticipantSsrc callID lid (WasmRelayStreamSlotWords ! k) = Some (r ! k)"
    using derive_slots_total [of callID lid WasmRelayStreamSlotWords]
    by (auto simp: DeriveWasmRelayStreamSsrcs_def WasmRelayStreamSlotWords_def)
  from r(3) [rule_format, of 0] r(3) [rule_format, of 3] r(3) [rule_format, of 8] r(1,2)
  show ?thesis
    by (simp add: WasmRelayStreamSlotWords_def VideoSlotWord_def AppDataSlotWord_def)
qed

section \<open>Variants\<close>

definition variants_ok :: "string list \<Rightarrow> bool" where
  "variants_ok out \<longleftrightarrow> distinct out \<and> list_all (\<lambda>t. t \<noteq> [] \<and> trimmed t) out"

lemma variants_ok_push: "variants_ok out \<Longrightarrow> variants_ok (push_variant s out)"
  by (auto simp: variants_ok_def push_variant_def Let_def trimmed_trim_space)

lemma push_variant_mem: "trim_space s \<noteq> [] \<Longrightarrow> trim_space s \<in> set (push_variant s out)"
  by (auto simp: push_variant_def Let_def)

lemma push_variant_mono: "set out \<subseteq> set (push_variant s out)"
  by (auto simp: push_variant_def Let_def)

lemma E2EParticipantIDVariants_mono:
  "set (push_variant (FormatE2ESrtpParticipantID jid) (push_variant (trim_space (cut_before CHR ''/'' jid)) []))
     \<subseteq> set (E2EParticipantIDVariants jid)"
  by (auto simp: E2EParticipantIDVariants_def Let_def intro: subsetD [OF push_variant_mono]
      split: option.splits)

text \<open>The receive path tries a proper set of ids: the variants of a JID are pairwise different,
  trimmed and not empty, and the canonical device-qualified id that the sender derives its keys
  from is among them unless it is empty.\<close>

theorem E2EParticipantIDVariants_ok:
  "variants_ok (E2EParticipantIDVariants jid) \<and>
   (FormatE2ESrtpParticipantID jid = [] \<or> FormatE2ESrtpParticipantID jid \<in> set (E2EParticipantIDVariants jid))"
proof -
  have "variants_ok []" by (simp add: variants_ok_def)
  then have "variants_ok (E2EParticipantIDVariants jid)"
    by (auto simp: E2EParticipantIDVariants_def Let_def variants_ok_push split: option.splits)
  moreover have "trim_space (FormatE2ESrtpParticipantID jid) = FormatE2ESrtpParticipantID jid"
    using FormatParticipantID_trimmed [of jid] by (simp add: FormatE2ESrtpParticipantID_def trim_space_id)
  ultimately show ?thesis
    using E2EParticipantIDVariants_mono [of jid]
      push_variant_mem [of "FormatE2ESrtpParticipantID jid" "push_variant (trim_space (cut_before CHR ''/'' jid)) []"]
    by (metis subsetD)
qed

end
