(* ===== verification/Stun.thy ===== *)
theory Stun
  imports Participant
begin

text \<open>
  stun/stun.go: the STUN request encoder with message integrity and fingerprint, the allocate
  requests, the consent ping and the parsers of responses.  The IEEE CRC-32 of \<open>hash/crc32\<close> is
  written out.  \<open>integrityKey\<close> may be nil, so it is an option.
\<close>

definition stunMagic :: u32 where "stunMagic = 0x2112a442"
definition stunFingerprintXor :: u32 where "stunFingerprintXor = 0x5354554e"
definition stunXorPort :: u16 where "stunXorPort = 0x2112"
definition attrMessageIntegrity :: u16 where "attrMessageIntegrity = 0x0008"
definition attrFingerprint :: u16 where "attrFingerprint = 0x8028"
definition attrErrorCode :: u16 where "attrErrorCode = 0x0009"
definition attrRelayToken :: u16 where "attrRelayToken = 0x4000"
definition attrStreamDescriptors :: u16 where "attrStreamDescriptors = 0x4024"
definition attrWasmRelayEndpoint :: u16 where "attrWasmRelayEndpoint = 0x0016"
definition attrSenderSubscriptionsV2 :: u16 where "attrSenderSubscriptionsV2 = 0x4025"
definition MsgBindingRequest :: u16 where "MsgBindingRequest = 0x0001"
definition MsgAllocateRequest :: u16 where "MsgAllocateRequest = 0x0003"
definition MsgBindingSuccess :: u16 where "MsgBindingSuccess = 0x0101"
definition MsgAllocateSuccess :: u16 where "MsgAllocateSuccess = 0x0103"
definition MsgAllocateError :: u16 where "MsgAllocateError = 0x0113"
definition MsgWhatsappPing :: u16 where "MsgWhatsappPing = 0x0801"
definition MsgWhatsappPong :: u16 where "MsgWhatsappPong = 0x0802"

definition stunXorAddr :: bytes where
  "stunXorAddr = [0x21, 0x12, 0xa4, 0x42]"

definition wasmStreamDescriptorsTemplate :: bytes where
  "wasmStreamDescriptorsTemplate = [
    0x0a, 0x06, 0x18, 0xca, 0xbc, 0x85, 0xae, 0x04, 0x0a, 0x08, 0x10, 0x01, 0x18, 0xa5, 0xac, 0xaf,
    0xae, 0x0a, 0x0a, 0x08, 0x10, 0x02, 0x18, 0xd6, 0xa4, 0xe6, 0xf9, 0x0f, 0x0a, 0x08, 0x08, 0x01,
    0x18, 0xf7, 0xdd, 0x9e, 0xb6, 0x0a, 0x0a, 0x0a, 0x08, 0x01, 0x10, 0x01, 0x18, 0xab, 0xcc, 0xb1,
    0xf3, 0x0d, 0x0a, 0x0a, 0x08, 0x01, 0x10, 0x02, 0x18, 0xda, 0xda, 0xef, 0x8a, 0x05, 0x0a, 0x08,
    0x08, 0x02, 0x18, 0xc5, 0xe9, 0xec, 0x8e, 0x0b, 0x0a, 0x0a, 0x08, 0x02, 0x10, 0x01, 0x18, 0xfd,
    0xc2, 0xb1, 0xb6, 0x0f, 0x0a, 0x0a, 0x08, 0x02, 0x10, 0x02, 0x18, 0xb0, 0x97, 0xf7, 0xb2, 0x09]"

text \<open>\<open>pad4\<close> of stun.go is a length; the loop of the same name in rtp.go pads a buffer.\<close>

definition stun_pad4 :: "nat \<Rightarrow> nat" where
  "stun_pad4 n = (4 - n mod 4) mod 4"

definition stunAttr :: "u16 \<Rightarrow> bytes \<Rightarrow> bytes" where
  "stunAttr attrType v = be16 attrType @ be16 (of_nat (length v)) @ v @ replicate (stun_pad4 (length v)) 0"

section \<open>CRC-32\<close>

fun crc_bits :: "nat \<Rightarrow> u32 \<Rightarrow> u32" where
  "crc_bits 0 c = c"
| "crc_bits (Suc n) c =
     crc_bits n (if bit c 0 then drop_bit 1 c XOR 0xedb88320 else drop_bit 1 c)"

definition crc32_ieee :: "bytes \<Rightarrow> u32" where
  "crc32_ieee b = NOT (foldl (\<lambda>c x. crc_bits 8 (c XOR ucast x)) (NOT 0) b)"

definition stunFingerprint :: "bytes \<Rightarrow> u32" where
  "stunFingerprint buf = crc32_ieee buf"

section \<open>Requests\<close>

definition stunPseudoHeader :: "u16 \<Rightarrow> u16 \<Rightarrow> bytes \<Rightarrow> bytes" where
  "stunPseudoHeader msgType msgLen transactionID =
     be16 msgType @ be16 msgLen @ be32 stunMagic @ transactionID"

definition EncodeStunRequest :: "u16 \<Rightarrow> bytes \<Rightarrow> bytes \<Rightarrow> bytes option \<Rightarrow> bool \<Rightarrow> bytes" where
  "EncodeStunRequest msgType transactionID attrs integrityKey includeFingerprint =
     (let body1 = (case integrityKey of
            None \<Rightarrow> attrs
          | Some key \<Rightarrow>
              let header = stunPseudoHeader msgType (of_nat (length attrs + 24)) transactionID
              in attrs @ stunAttr attrMessageIntegrity (hmac_sha1 key (header @ attrs)));
          body2 = (if includeFingerprint then
              let header = stunPseudoHeader msgType (of_nat (length body1 + 8)) transactionID;
                  fp = stunFingerprint (header @ body1) XOR stunFingerprintXor
              in body1 @ stunAttr attrFingerprint (be32 fp)
            else body1)
      in be16 msgType @ be16 (of_nat (length body2)) @ be32 stunMagic @ transactionID @ body2)"

definition CreateNativeSenderSubscription :: "u32 \<Rightarrow> bytes" where
  "CreateNativeSenderSubscription ssrc = 1 # be32 ssrc"

text \<open>\<open>strings.SplitSeq\<close> at a character, and \<open>strconv.ParseUint(part, 10, 8)\<close>.\<close>

fun split_on :: "char \<Rightarrow> string \<Rightarrow> string list" where
  "split_on c [] = [[]]"
| "split_on c (x # xs) =
     (if x = c then [] # split_on c xs
      else case split_on c xs of [] \<Rightarrow> [[x]] | p # ps \<Rightarrow> (x # p) # ps)"

definition digit :: "char \<Rightarrow> nat option" where
  "digit c = (let v = (of_char c :: nat) in if 48 \<le> v \<and> v \<le> 57 then Some (v - 48) else None)"

fun parse_decimal :: "nat \<Rightarrow> string \<Rightarrow> nat option" where
  "parse_decimal acc [] = Some acc"
| "parse_decimal acc (c # cs) =
     (case digit c of None \<Rightarrow> None | Some d \<Rightarrow> parse_decimal (10 * acc + d) cs)"

definition ParseUint8 :: "string \<Rightarrow> u8 option" where
  "ParseUint8 part =
     (if part = [] then None
      else case parse_decimal 0 part of
        None \<Rightarrow> None
      | Some n \<Rightarrow> if n < 256 then Some (of_nat n) else None)"

fun octets_of :: "string list \<Rightarrow> bytes" where
  "octets_of [] = []"
| "octets_of (part # parts) =
     (case ParseUint8 part of None \<Rightarrow> octets_of parts | Some n \<Rightarrow> n # octets_of parts)"

definition EncodeXorRelayEndpoint :: "string \<Rightarrow> u16 \<Rightarrow> bytes option" where
  "EncodeXorRelayEndpoint ipv4 port =
     (let octets = octets_of (split_on CHR ''.'' ipv4)
      in if length octets \<noteq> 4 then None
         else Some (be16 (port XOR stunXorPort) @
           map (\<lambda>i. octets ! i XOR stunXorAddr ! i) [0..<4]))"

definition createWasmRelayEndpointAttr :: "bytes \<Rightarrow> bytes" where
  "createWasmRelayEndpointAttr endpointXor = be16 1 @ endpointXor"

section \<open>Protobuf fields\<close>

definition pbTag :: "bytes \<Rightarrow> u32 \<Rightarrow> u32 \<Rightarrow> bytes" where
  "pbTag out field wire = out @ append_uvarint (ucast (push_bit 3 field OR wire))"

definition pbZigzag :: "u64 \<Rightarrow> u64" where
  "pbZigzag n = push_bit 1 n XOR signed_drop_bit 63 n"

definition pbLenDelim :: "bytes \<Rightarrow> u32 \<Rightarrow> bytes \<Rightarrow> bytes" where
  "pbLenDelim out field b = pbTag out field 2 @ append_uvarint (of_nat (length b)) @ b"

definition pbVarint :: "bytes \<Rightarrow> u64 \<Rightarrow> bytes" where
  "pbVarint out v = out @ append_uvarint v"

definition wasmStreamDescriptorPlan :: "(u32 \<times> u32) list" where
  "wasmStreamDescriptorPlan =
     [(0, 0), (0, 1), (0, 2), (1, 0), (1, 1), (1, 2), (2, 0), (2, 1), (2, 2)]"

definition wasm_descriptor :: "u32 \<Rightarrow> u32 \<times> u32 \<Rightarrow> bytes" where
  "wasm_descriptor ssrc plan =
     (case plan of (participant, layer) \<Rightarrow>
       let i1 = (if participant \<noteq> 0 then pbVarint (pbTag [] 1 0) (ucast participant) else []);
           i2 = (if layer \<noteq> 0 then pbVarint (pbTag i1 2 0) (ucast layer) else i1)
       in pbVarint (pbTag i2 3 0) (ucast ssrc))"

fun wasm_descriptors :: "bytes \<Rightarrow> (u32 \<times> (u32 \<times> u32)) list \<Rightarrow> bytes" where
  "wasm_descriptors out [] = out"
| "wasm_descriptors out ((ssrc, plan) # rest) =
     (if ssrc = 0 then wasm_descriptors out rest
      else wasm_descriptors (pbLenDelim out 1 (wasm_descriptor ssrc plan)) rest)"

definition CreateWasmStreamDescriptors :: "u32 list \<Rightarrow> bytes" where
  "CreateWasmStreamDescriptors ssrcs = wasm_descriptors [] (zip ssrcs wasmStreamDescriptorPlan)"

definition CreateVoipSenderSubscriptions :: "u32 \<Rightarrow> bytes" where
  "CreateVoipSenderSubscriptions ssrc =
     (let s1 = pbVarint (pbTag [] 3 0) (ucast ssrc);
          s2 = pbVarint (pbTag s1 5 0) 0;
          s3 = pbVarint (pbTag s2 6 0) 0
      in pbLenDelim [] 1 s3)"

definition CreateApkSenderSubscriptions :: "u32 \<Rightarrow> u32 option \<Rightarrow> bytes" where
  "CreateApkSenderSubscriptions ssrc pid =
     (let l1 = pbVarint (pbTag [] 1 0) (pbZigzag (ucast ssrc));
          ssrcLayers = (case pid of
              None \<Rightarrow> l1
            | Some q \<Rightarrow>
                let p1 = pbVarint (pbTag [] 1 0) (pbZigzag (ucast q));
                    p2 = pbLenDelim p1 2 (bytes_of ''audio'')
                in pbLenDelim l1 2 p2);
          ext = pbLenDelim [] 1 ssrcLayers
      in pbLenDelim [] 1 ext)"

definition CreateApkStreamDescriptors :: "u32 \<Rightarrow> bytes" where
  "CreateApkStreamDescriptors ssrc =
     (let d1 = pbLenDelim [] 1 (bytes_of ''audio'');
          d2 = pbLenDelim d1 2 (bytes_of ''OPUS'');
          d3 = pbVarint (pbTag d2 3 0) (pbZigzag (ucast ssrc));
          d4 = pbVarint (pbTag d3 4 0) 0
      in pbLenDelim [] 1 d4)"

definition buildWasmStunAllocateRequest :: "bytes \<Rightarrow> bytes \<Rightarrow> bytes \<Rightarrow> bytes \<Rightarrow> bytes option \<Rightarrow> bytes" where
  "buildWasmStunAllocateRequest transactionID relayToken endpointXor streamDescriptors integrityKey =
     (let attrs = stunAttr attrRelayToken relayToken @ stunAttr attrStreamDescriptors streamDescriptors @
            stunAttr attrWasmRelayEndpoint (createWasmRelayEndpointAttr endpointXor)
      in EncodeStunRequest MsgAllocateRequest transactionID attrs integrityKey False)"

definition BuildWasmStunAllocateRequest :: "bytes \<Rightarrow> bytes \<Rightarrow> bytes \<Rightarrow> bytes option \<Rightarrow> bytes" where
  "BuildWasmStunAllocateRequest transactionID relayToken endpointXor integrityKey =
     buildWasmStunAllocateRequest transactionID relayToken endpointXor wasmStreamDescriptorsTemplate integrityKey"

definition BuildWasmStunAllocateRequestWithStreamSsrcs ::
    "bytes \<Rightarrow> bytes \<Rightarrow> bytes \<Rightarrow> u32 list \<Rightarrow> bytes option \<Rightarrow> bytes" where
  "BuildWasmStunAllocateRequestWithStreamSsrcs transactionID relayToken endpointXor streamSsrcs integrityKey =
     buildWasmStunAllocateRequest transactionID relayToken endpointXor
       (CreateWasmStreamDescriptors streamSsrcs) integrityKey"

definition BuildAndroidStunAllocateRequest ::
    "bytes \<Rightarrow> bytes \<Rightarrow> u32 \<Rightarrow> u32 option \<Rightarrow> bytes option \<Rightarrow> bool \<Rightarrow> bytes" where
  "BuildAndroidStunAllocateRequest transactionID relayToken ssrc pid integrityKey includeFingerprint =
     (let attrs = stunAttr attrRelayToken relayToken @
            stunAttr attrSenderSubscriptionsV2 (CreateApkSenderSubscriptions ssrc pid) @
            stunAttr attrStreamDescriptors (CreateApkStreamDescriptors ssrc)
      in EncodeStunRequest MsgAllocateRequest transactionID attrs integrityKey includeFingerprint)"

definition BuildWhatsappPing :: "bytes \<Rightarrow> bytes" where
  "BuildWhatsappPing transactionID = be16 MsgWhatsappPing @ [0, 0] @ be32 stunMagic @ transactionID"

section \<open>Responses\<close>

definition IsStunPacket :: "bytes \<Rightarrow> bool" where
  "IsStunPacket data \<longleftrightarrow> 2 \<le> length data \<and> data ! 0 AND 0xc0 = 0x00"

definition StunMessageType :: "bytes \<Rightarrow> u16 option" where
  "StunMessageType data =
     (if length data < 2 then None
      else Some (push_bit 8 (ucast (data ! 0 AND 0x3f)) OR ucast (data ! 1)))"

definition StunTransactionID :: "bytes \<Rightarrow> bytes option" where
  "StunTransactionID data = (if length data < 20 then None else Some (slice data 8 20))"

definition IsAllocateOrBindingSuccess :: "bytes \<Rightarrow> bool" where
  "IsAllocateOrBindingSuccess data =
     (if \<not> IsStunPacket data \<or> length data < 20 then False
      else case StunMessageType data of
        None \<Rightarrow> False
      | Some mt \<Rightarrow> mt = MsgAllocateSuccess \<or> mt = MsgBindingSuccess)"

definition IsAllocateError :: "bytes \<Rightarrow> bool" where
  "IsAllocateError data =
     (if \<not> IsStunPacket data then False
      else case StunMessageType data of None \<Rightarrow> False | Some mt \<Rightarrow> mt = MsgAllocateError)"

definition IsWhatsappPong :: "bytes \<Rightarrow> bytes \<Rightarrow> bool" where
  "IsWhatsappPong data transactionID =
     (if \<not> IsStunPacket data then False
      else case StunMessageType data of
        None \<Rightarrow> False
      | Some mt \<Rightarrow>
          if mt \<noteq> MsgWhatsappPong then False
          else if length transactionID = 0 then True
          else case StunTransactionID data of None \<Rightarrow> False | Some tx \<Rightarrow> tx = transactionID)"

record StunAttribute =
  AttrType :: u16
  AttrValue :: bytes

text \<open>The loop of \<open>ParseStunAttributes\<close> over the rest of the packet from the current offset.\<close>

function stun_attributes :: "bytes \<Rightarrow> StunAttribute list" where
  "stun_attributes rest =
     (if 4 \<le> length rest then
        let n = unat (get16 (drop 2 rest)); rest1 = drop 4 rest
        in if length rest1 < n then []
           else \<lparr>AttrType = get16 rest, AttrValue = take n rest1\<rparr> #
             stun_attributes (drop (n + stun_pad4 n) rest1)
      else [])"
  by pat_completeness auto
termination
  by (relation "measure length") auto

declare stun_attributes.simps [simp del]

definition ParseStunAttributes :: "bytes \<Rightarrow> StunAttribute list" where
  "ParseStunAttributes data =
     (if \<not> IsStunPacket data \<or> length data < 20 then [] else stun_attributes (drop 20 data))"

function error_code_loop :: "bytes \<Rightarrow> nat \<Rightarrow> nat \<Rightarrow> u16 option" where
  "error_code_loop data end' off =
     (if off + 4 \<le> end' then
        let attrType = get16 (drop off data); n = unat (get16 (drop (off + 2) data))
        in if attrType = attrErrorCode \<and> 4 \<le> n \<and> off + 8 \<le> length data
           then Some (ucast (data ! (off + 6)) * 100 + ucast (data ! (off + 7)))
           else error_code_loop data end' (off + (4 + n + stun_pad4 n))
      else None)"
  by pat_completeness auto
termination
  by (relation "measure (\<lambda>(data, end', off). end' - off)") auto

declare error_code_loop.simps [simp del]

definition ParseStunErrorCode :: "bytes \<Rightarrow> u16 option" where
  "ParseStunErrorCode data =
     (if length data < 20 then None
      else case StunMessageType data of
        None \<Rightarrow> None
      | Some t \<Rightarrow>
          if t \<noteq> MsgAllocateError \<and> t \<noteq> 0x0111 then None
          else
            let bodyLen = unat (get16 (drop 2 data)); end' = min (20 + bodyLen) (length data)
            in error_code_loop data end' 20)"

section \<open>Attributes\<close>

definition attr_of :: "StunAttribute \<Rightarrow> bytes" where
  "attr_of a = stunAttr (AttrType a) (AttrValue a)"

definition attr_ok :: "StunAttribute \<Rightarrow> bool" where
  "attr_ok a \<longleftrightarrow> length (AttrValue a) < 65536"

lemma length_stunAttr [simp]: "length (stunAttr ty v) = 4 + length v + stun_pad4 (length v)"
  by (simp add: stunAttr_def)

lemma stun_attributes_Cons:
  assumes "attr_ok a"
  shows "stun_attributes (attr_of a @ r) = a # stun_attributes r"
proof -
  let ?n = "length (AttrValue a)" and ?d = "attr_of a @ r"
  have n: "unat (get16 (drop 2 ?d)) = ?n" "get16 ?d = AttrType a"
    using assms by (simp_all add: attr_of_def stunAttr_def attr_ok_def unat_of_nat)
  have rest: "drop 4 ?d = AttrValue a @ replicate (stun_pad4 ?n) 0 @ r"
    by (simp add: attr_of_def stunAttr_def)
  have "4 \<le> length ?d" by (simp add: attr_of_def)
  then have "stun_attributes ?d = \<lparr>AttrType = AttrType a, AttrValue = AttrValue a\<rparr> # stun_attributes r"
    by (subst stun_attributes.simps) (simp only: n rest Let_def, simp)
  then show ?thesis by simp
qed

lemma stun_attributes_concat:
  "list_all attr_ok as \<Longrightarrow> stun_attributes (concat (map attr_of as)) = as"
proof (induction as)
  case Nil
  then show ?case by (subst stun_attributes.simps) simp
next
  case (Cons a as)
  then show ?case by (simp add: stun_attributes_Cons)
qed

text \<open>What the encoder appends: the integrity attribute over the header, whose length already counts
  it, and the attributes; then the fingerprint over all that.\<close>

definition integrity_attr :: "u16 \<Rightarrow> bytes \<Rightarrow> bytes \<Rightarrow> bytes \<Rightarrow> StunAttribute" where
  "integrity_attr mt tx attrs key = \<lparr>AttrType = attrMessageIntegrity,
     AttrValue = hmac_sha1 key (stunPseudoHeader mt (of_nat (length attrs + 24)) tx @ attrs)\<rparr>"

definition fingerprint_attr :: "u16 \<Rightarrow> bytes \<Rightarrow> bytes \<Rightarrow> StunAttribute" where
  "fingerprint_attr mt tx body = \<lparr>AttrType = attrFingerprint,
     AttrValue = be32 (stunFingerprint (stunPseudoHeader mt (of_nat (length body + 8)) tx @ body) XOR
       stunFingerprintXor)\<rparr>"

definition request_attrs :: "u16 \<Rightarrow> bytes \<Rightarrow> StunAttribute list \<Rightarrow> bytes option \<Rightarrow> bool \<Rightarrow> StunAttribute list" where
  "request_attrs mt tx as key fp =
     (let bs = (case key of None \<Rightarrow> as
            | Some k \<Rightarrow> as @ [integrity_attr mt tx (concat (map attr_of as)) k])
      in if fp then bs @ [fingerprint_attr mt tx (concat (map attr_of bs))] else bs)"

lemma EncodeStunRequest_attrs:
  "EncodeStunRequest mt tx (concat (map attr_of as)) key fp =
    (let body = concat (map attr_of (request_attrs mt tx as key fp))
     in stunPseudoHeader mt (of_nat (length body)) tx @ body)"
  by (cases key; cases fp)
    (simp_all add: EncodeStunRequest_def request_attrs_def integrity_attr_def fingerprint_attr_def
      attr_of_def stunPseudoHeader_def Let_def)

lemma header_fields:
  assumes "length tx = 12"
  shows "length (stunPseudoHeader mt n tx) = 20"
    "drop 20 (stunPseudoHeader mt n tx @ body) = body"
    "slice (stunPseudoHeader mt n tx @ body) 8 20 = tx"
  using assms by (simp_all add: stunPseudoHeader_def slice_def)

lemma header_bytes:
  "stunPseudoHeader mt n tx @ body = ucast (drop_bit 8 mt) # ucast mt # be16 n @ be32 stunMagic @ tx @ body"
  by (simp add: stunPseudoHeader_def be16_def)

lemma header_length_field: "get16 (drop 2 (stunPseudoHeader mt n tx @ body)) = n"
  by (simp add: stunPseudoHeader_def)

lemma message_type_bits:
  fixes mt :: u16
  assumes "mt < 0x4000"
  shows "(ucast (drop_bit 8 mt) :: u8) AND 0xc0 = 0"
    and "push_bit 8 (ucast ((ucast (drop_bit 8 mt) :: u8) AND 0x3f)) OR ucast (ucast mt :: u8) = mt"
proof -
  have "take_bit 14 mt = mt"
    using assms by (simp add: word_unat_eq_iff unsigned_take_bit_eq take_bit_nat_eq_self word_less_nat_alt)
  then have hi: "\<not> bit mt n" if "14 \<le> n" for n
    using that by (metis bit_take_bit_iff not_less)
  have c0: "(0xc0 :: u8) = push_bit 6 (mask 2)" and m3f: "(0x3f :: u8) = mask 6"
    by (simp_all add: mask_eq_exp_minus_1 push_bit_eq_mult)
  show "(ucast (drop_bit 8 mt) :: u8) AND 0xc0 = 0"
    unfolding c0 by (rule bit_word_eqI) (auto simp: bit_simps hi)
  show "push_bit 8 (ucast ((ucast (drop_bit 8 mt) :: u8) AND 0x3f)) OR ucast (ucast mt :: u8) = mt"
    unfolding m3f
  proof (rule bit_word_eqI)
    fix n
    assume "n < LENGTH(16)"
    then show "bit ((push_bit 8 (ucast ((ucast (drop_bit 8 mt) :: u8) AND mask 6)) OR ucast (ucast mt :: u8)) :: u16) n
        \<longleftrightarrow> bit mt n"
      by (cases "n < 8"; cases "n < 14") (auto simp: bit_simps hi)
  qed
qed

lemma header_readable:
  assumes "length tx = 12" and "mt < 0x4000"
  shows "IsStunPacket (stunPseudoHeader mt n tx @ body)"
    "StunMessageType (stunPseudoHeader mt n tx @ body) = Some mt"
    "StunTransactionID (stunPseudoHeader mt n tx @ body) = Some tx"
proof -
  show "IsStunPacket (stunPseudoHeader mt n tx @ body)"
    using assms message_type_bits(1) [OF assms(2)] by (simp add: IsStunPacket_def header_bytes)
  show "StunMessageType (stunPseudoHeader mt n tx @ body) = Some mt"
    using assms message_type_bits(2) [OF assms(2)] by (simp add: StunMessageType_def header_bytes)
  show "StunTransactionID (stunPseudoHeader mt n tx @ body) = Some tx"
    using assms by (simp add: StunTransactionID_def header_fields)
qed

lemma attr_ok_request:
  "list_all attr_ok as \<Longrightarrow> list_all attr_ok (request_attrs mt tx as key fp)"
  by (auto simp: request_attrs_def integrity_attr_def fingerprint_attr_def attr_ok_def Let_def
      split: option.splits)

lemma stun_pad4_aligned: "(4 + n + stun_pad4 n) mod 4 = 0"
proof -
  have "n mod 4 < 4" by simp
  then consider "n mod 4 = 0" | "n mod 4 = 1" | "n mod 4 = 2" | "n mod 4 = 3" by linarith
  then have "(n mod 4 + stun_pad4 n) mod 4 = 0" by cases (simp_all add: stun_pad4_def)
  then show ?thesis by (simp add: add.assoc mod_add_left_eq)
qed

lemma attrs_aligned: "length (concat (map attr_of as)) mod 4 = 0"
proof (induction as)
  case Nil
  then show ?case by simp
next
  case (Cons a as)
  have "length (attr_of a) mod 4 = 0"
    unfolding attr_of_def length_stunAttr by (rule stun_pad4_aligned)
  with Cons have "(length (attr_of a) mod 4 + length (concat (map attr_of as)) mod 4) mod 4 = 0" by simp
  then show ?case by (simp only: mod_add_eq) simp
qed

text \<open>C29: an encoded STUN request parses back: its type, transaction id and attributes are read from
  the packet, followed by the message-integrity attribute (HMAC-SHA1 over header and attributes,
  with the length that counts it) when a key is given and the fingerprint when it is asked for;
  the length field is the length of the body, a multiple of four.\<close>

theorem ParseStunAttributes_EncodeStunRequest:
  assumes "length tx = 12" and "mt < 0x4000" and "list_all attr_ok as"
  shows "ParseStunAttributes (EncodeStunRequest mt tx (concat (map attr_of as)) key fp) =
      request_attrs mt tx as key fp \<and>
    StunMessageType (EncodeStunRequest mt tx (concat (map attr_of as)) key fp) = Some mt \<and>
    StunTransactionID (EncodeStunRequest mt tx (concat (map attr_of as)) key fp) = Some tx \<and>
    (length (EncodeStunRequest mt tx (concat (map attr_of as)) key fp) - 20) mod 4 = 0"
proof -
  let ?as = "request_attrs mt tx as key fp"
  let ?body = "concat (map attr_of ?as)"
  have "length ?body mod 4 = 0" by (rule attrs_aligned)
  moreover have "stun_attributes ?body = ?as"
    using attr_ok_request [OF assms(3)] by (rule stun_attributes_concat)
  ultimately show ?thesis
    using header_readable [OF assms(1,2), of "of_nat (length ?body)" ?body] assms(1)
    by (simp add: EncodeStunRequest_attrs ParseStunAttributes_def Let_def header_fields)
qed

lemma ParseStunAttributes_EncodeStunRequest_witness:
  "StunMessageType (EncodeStunRequest 3 (replicate 12 9)
     (concat (map attr_of [\<lparr>AttrType = 0x4000, AttrValue = [1, 2, 3]\<rparr>])) (Some [7]) True) = Some 3"
  using ParseStunAttributes_EncodeStunRequest [of "replicate 12 9" 3
      "[\<lparr>AttrType = 0x4000, AttrValue = [1, 2, 3]\<rparr>]" "Some [7]" True]
  by (simp add: attr_ok_def)

section \<open>Error responses\<close>

definition is_error_attr :: "StunAttribute \<Rightarrow> bool" where
  "is_error_attr a \<longleftrightarrow> AttrType a = attrErrorCode \<and> 4 \<le> length (AttrValue a)"

definition error_value :: "bytes \<Rightarrow> u16" where
  "error_value v = ucast (v ! 2) * 100 + ucast (v ! 3)"

lemma attr_fields:
  assumes "attr_ok a"
  shows "get16 (drop (length d) (d @ attr_of a @ r)) = AttrType a"
    "unat (get16 (drop (length d + 2) (d @ attr_of a @ r))) = length (AttrValue a)"
    "length (attr_of a) = 4 + length (AttrValue a) + stun_pad4 (length (AttrValue a))"
  using assms by (simp_all add: attr_of_def stunAttr_def attr_ok_def unat_of_nat)

lemma error_code_loop_attr:
  assumes "attr_ok a"
  shows "error_code_loop (d @ attr_of a @ r) (length (d @ attr_of a @ r)) (length d) =
    (if is_error_attr a then Some (error_value (AttrValue a))
     else error_code_loop (d @ attr_of a @ r) (length (d @ attr_of a @ r)) (length (d @ attr_of a)))"
proof -
  let ?data = "d @ attr_of a @ r"
  have l: "length d + 4 \<le> length ?data" using attr_fields(3) [OF assms] by simp
  show ?thesis
  proof (cases "is_error_attr a")
    case True
    then have v: "4 \<le> length (AttrValue a)" "AttrType a = attrErrorCode" by (simp_all add: is_error_attr_def)
    then have l8: "length d + 8 \<le> length ?data" using attr_fields(3) [OF assms] by simp
    have "?data ! (length d + 6) = AttrValue a ! 2" "?data ! (length d + 7) = AttrValue a ! 3"
      using v(1) by (simp_all add: attr_of_def stunAttr_def be16_def nth_append)
    with True v l l8 show ?thesis
      by (subst error_code_loop.simps) (simp only: attr_fields(1,2) [OF assms] Let_def error_value_def, simp)
  next
    case False
    then have "\<not> (AttrType a = attrErrorCode \<and> 4 \<le> length (AttrValue a) \<and> length d + 8 \<le> length ?data)"
      by (auto simp: is_error_attr_def)
    moreover have "length d + (4 + length (AttrValue a) + stun_pad4 (length (AttrValue a))) = length (d @ attr_of a)"
      using attr_fields(3) [OF assms] by simp
    ultimately show ?thesis
      using False l
      by (subst error_code_loop.simps) (simp only: attr_fields(1,2) [OF assms] Let_def, simp)
  qed
qed

lemma error_code_loop_attrs:
  "list_all attr_ok as \<Longrightarrow>
   error_code_loop (d @ concat (map attr_of as)) (length (d @ concat (map attr_of as))) (length d) =
     map_option (\<lambda>a. error_value (AttrValue a)) (find is_error_attr as)"
proof (induction as arbitrary: d)
  case Nil
  then show ?case by (subst error_code_loop.simps) simp
next
  case (Cons a as)
  then have a: "attr_ok a" and IH: "error_code_loop ((d @ attr_of a) @ concat (map attr_of as))
      (length ((d @ attr_of a) @ concat (map attr_of as))) (length (d @ attr_of a)) =
      map_option (\<lambda>a. error_value (AttrValue a)) (find is_error_attr as)"
    using Cons.IH [of "d @ attr_of a"] by simp_all
  from IH error_code_loop_attr [OF a, of d "concat (map attr_of as)"] show ?case by simp
qed

text \<open>The error code of a response is found: in an error response whose body is any sequence of
  attributes, the parser returns class times 100 plus number of the first error-code attribute of at
  least four bytes, wherever it stands, and nothing when there is none; on other message types it
  returns nothing.\<close>

theorem ParseStunErrorCode_attrs:
  assumes "length tx = 12" and "mt < 0x4000" and "list_all attr_ok as"
    and "length (concat (map attr_of as)) < 65536"
  shows "ParseStunErrorCode (stunPseudoHeader mt (of_nat (length (concat (map attr_of as)))) tx @
      concat (map attr_of as)) =
    (if mt = 0x0113 \<or> mt = 0x0111
     then map_option (\<lambda>a. error_value (AttrValue a)) (find is_error_attr as) else None)"
proof -
  let ?body = "concat (map attr_of as)"
  let ?h = "stunPseudoHeader mt (of_nat (length ?body)) tx"
  have h: "length ?h = 20" using assms(1) by (rule header_fields)
  have n: "unat (of_nat (length ?body) :: u16) = length ?body"
    using assms(4) by (simp only: unat_of_nat) simp
  have "error_code_loop (?h @ ?body) (length (?h @ ?body)) (length ?h) =
      map_option (\<lambda>a. error_value (AttrValue a)) (find is_error_attr as)"
    using assms(3) by (rule error_code_loop_attrs)
  moreover have "unat (get16 (drop 2 (?h @ ?body))) = length ?body"
    by (simp only: header_length_field n)
  moreover have "StunMessageType (?h @ ?body) = Some mt" by (rule header_readable [OF assms(1,2)])
  moreover have "\<not> length (?h @ ?body) < 20" "min (20 + length ?body) (length (?h @ ?body)) = length (?h @ ?body)"
    using h by simp_all
  ultimately show ?thesis
    unfolding ParseStunErrorCode_def Let_def MsgAllocateError_def h by (simp only: option.case) simp
qed

lemma ParseStunErrorCode_attrs_witness:
  "ParseStunErrorCode (stunPseudoHeader 0x0113 (of_nat (length (concat (map attr_of
      [\<lparr>AttrType = 6, AttrValue = [1]\<rparr>, \<lparr>AttrType = 9, AttrValue = [0, 0, 4, 86]\<rparr>])))) (replicate 12 0) @
    concat (map attr_of [\<lparr>AttrType = 6, AttrValue = [1]\<rparr>, \<lparr>AttrType = 9, AttrValue = [0, 0, 4, 86]\<rparr>])) = Some 486"
  by (subst ParseStunErrorCode_attrs)
    (simp_all add: attr_ok_def attr_of_def stun_pad4_def is_error_attr_def attrErrorCode_def error_value_def)

section \<open>The relay endpoint\<close>

lemma EncodeXorRelayEndpoint_octets:
  "octets_of (split_on CHR ''.'' ip) = [a, b, c, d] \<Longrightarrow>
   EncodeXorRelayEndpoint ip port =
     Some (be16 (port XOR 0x2112) @ [a XOR 0x21, b XOR 0x12, c XOR 0xa4, d XOR 0x42])"
  by (simp add: EncodeXorRelayEndpoint_def stunXorPort_def stunXorAddr_def upt_rec)

text \<open>The endpoint encoder skips the parts that are not octets instead of refusing them, so it
  accepts strings that are not four dotted octets: a malformed part between four octets does not
  change the result.\<close>

theorem EncodeXorRelayEndpoint_skips_malformed:
  "EncodeXorRelayEndpoint ''1.2.x.3.4'' port = EncodeXorRelayEndpoint ''1.2.3.4'' port \<and>
   EncodeXorRelayEndpoint ''1.2.3.4'' port =
     Some (be16 (port XOR 0x2112) @ [0x20, 0x10, 0xa7, 0x46])"
proof -
  have "octets_of (split_on CHR ''.'' ''1.2.x.3.4'') = [1, 2, 3, 4]"
    "octets_of (split_on CHR ''.'' ''1.2.3.4'') = [1, 2, 3, 4]"
    by (simp_all add: ParseUint8_def digit_def of_char_def)
  then show ?thesis by (simp add: EncodeXorRelayEndpoint_octets)
qed

end
