(* ===== verification/Relay.thy ===== *)
theory Relay
  imports Stun Rtcp Rtp
begin

text \<open>
  relay/relay.go: the classification of packets on the relay channel, and the construction and
  tear-down of the transport stack.  The stack itself (UDP, DTLS, SCTP, DataChannel) is third-party
  code: each constructor is a parameter that succeeds or fails with an error, each resource a
  \<open>Close\<close> that may fail, and what the code does with them is the trace of opened and closed resources.
\<close>

datatype RelayPacketKind = RelayPacketStun | RelayPacketRtcp | RelayPacketRtp | RelayPacketOther

definition ClassifyRelayPacket :: "bytes \<Rightarrow> RelayPacketKind" where
  "ClassifyRelayPacket data =
     (if length data < 2 then RelayPacketOther
      else
        let first = data ! 0
        in if first AND 0xc0 \<noteq> 0 then
             (if 192 \<le> data ! 1 \<and> data ! 1 \<le> 223 then RelayPacketRtcp
              else if drop_bit 6 first = 2 then RelayPacketRtp
              else RelayPacketOther)
           else RelayPacketStun)"

section \<open>The transport stack\<close>

datatype resource = Udp | DtlsConn | Assoc | Dc

datatype relay_event = Opened resource | Closed resource

record CallTransportError =
  Op :: string
  Err :: string

text \<open>The library the code calls: the error of each constructor and of each \<open>Close\<close>, if any.\<close>

record relay_lib =
  listenUDP :: "string option"
  selfSigned :: "string option"
  dtlsClient :: "string option"
  sctpClient :: "string option"
  dialChannel :: "string option"
  closeError :: "resource \<Rightarrow> string option"

text \<open>The closure \<open>fail\<close>: the resources on the cleanup stack, the last one first.\<close>

definition fail :: "resource list \<Rightarrow> string \<Rightarrow> (CallTransportError + unit) \<times> relay_event list" where
  "fail cleanup err = (Inl \<lparr>Op = ''connect'', Err = err\<rparr>, map Closed (rev cleanup))"

definition ConnectRelayMedia :: "relay_lib \<Rightarrow> (CallTransportError + unit) \<times> relay_event list" where
  "ConnectRelayMedia lib =
     (case listenUDP lib of
        Some e \<Rightarrow> (Inl \<lparr>Op = ''connect'', Err = ''bind udp: '' @ e\<rparr>, [])
      | None \<Rightarrow>
        (let cleanup = [Udp]; t1 = [Opened Udp] in
         case selfSigned lib of
           Some e \<Rightarrow> (case fail cleanup (''dtls self-signed cert: '' @ e) of (r, t) \<Rightarrow> (r, t1 @ t))
         | None \<Rightarrow>
           case dtlsClient lib of
             Some e \<Rightarrow> (case fail cleanup (''dtls handshake: '' @ e) of (r, t) \<Rightarrow> (r, t1 @ t))
           | None \<Rightarrow>
             (let cleanup = cleanup @ [DtlsConn]; t2 = t1 @ [Opened DtlsConn] in
              case sctpClient lib of
                Some e \<Rightarrow> (case fail cleanup (''sctp client: '' @ e) of (r, t) \<Rightarrow> (r, t2 @ t))
              | None \<Rightarrow>
                (let cleanup = cleanup @ [Assoc]; t3 = t2 @ [Opened Assoc] in
                 case dialChannel lib of
                   Some e \<Rightarrow> (case fail cleanup (''datachannel dial: '' @ e) of (r, t) \<Rightarrow> (r, t3 @ t))
                 | None \<Rightarrow> (Inr (), t3 @ [Opened Dc])))))"

fun close_all :: "relay_lib \<Rightarrow> string option \<Rightarrow> resource list \<Rightarrow> string option \<times> relay_event list" where
  "close_all lib firstErr [] = (firstErr, [])"
| "close_all lib firstErr (c # cs) =
     (let firstErr' = (case closeError lib c of
          Some e \<Rightarrow> if firstErr = None then Some e else firstErr
        | None \<Rightarrow> firstErr);
        (r, t) = close_all lib firstErr' cs
      in (r, Closed c # t))"

definition RelayMediaChannel_Close :: "relay_lib \<Rightarrow> string option \<times> relay_event list" where
  "RelayMediaChannel_Close lib = close_all lib None [Dc, Assoc, DtlsConn, Udp]"

text \<open>\<open>Send\<close> and \<open>Recv\<close> wrap the result of the DataChannel, the byte count and the error if any.\<close>

definition RelaySend :: "nat \<times> string option \<Rightarrow> nat \<times> CallTransportError option" where
  "RelaySend written = (case written of
     (n, None) \<Rightarrow> (n, None) | (n, Some e) \<Rightarrow> (n, Some \<lparr>Op = ''send'', Err = e\<rparr>))"

definition RelayRecv :: "nat \<times> string option \<Rightarrow> nat \<times> CallTransportError option" where
  "RelayRecv got = (case got of
     (n, None) \<Rightarrow> (n, None) | (n, Some e) \<Rightarrow> (n, Some \<lparr>Op = ''recv'', Err = e\<rparr>))"

section \<open>No resource leaks\<close>

definition opened :: "relay_event list \<Rightarrow> resource list" where
  "opened t = List.map_filter (\<lambda>e. case e of Opened r \<Rightarrow> Some r | Closed r \<Rightarrow> None) t"

definition closed :: "relay_event list \<Rightarrow> resource list" where
  "closed t = List.map_filter (\<lambda>e. case e of Closed r \<Rightarrow> Some r | Opened r \<Rightarrow> None) t"

lemma opened_closed_simps [simp]:
  "opened [] = []" "opened (Opened r # t) = r # opened t" "opened (Closed r # t) = opened t"
  "closed [] = []" "closed (Closed r # t) = r # closed t" "closed (Opened r # t) = closed t"
  by (simp_all add: opened_def closed_def map_filter_simps)

fun first_error :: "string option list \<Rightarrow> string option" where
  "first_error [] = None"
| "first_error (e # es) = (case e of None \<Rightarrow> first_error es | Some x \<Rightarrow> Some x)"

lemma close_all_error:
  "close_all lib e cs = (case e of Some x \<Rightarrow> Some x | None \<Rightarrow> first_error (map (closeError lib) cs),
    map Closed cs)"
  by (induction cs arbitrary: e) (simp_all split: option.splits)

lemma Close_result: "RelayMediaChannel_Close lib =
    (first_error (map (closeError lib) [Dc, Assoc, DtlsConn, Udp]), map Closed [Dc, Assoc, DtlsConn, Udp])"
  by (simp only: RelayMediaChannel_Close_def close_all_error option.case)

definition constructors :: "relay_lib \<Rightarrow> string option list" where
  "constructors lib = [listenUDP lib, selfSigned lib, dtlsClient lib, sctpClient lib, dialChannel lib]"

text \<open>C33: the relay stack never leaks: when some constructor fails, the connection fails with operation
  \<open>connect\<close> and every resource opened before has been closed, in reverse order; when none fails,
  nothing is closed, and a later \<open>Close\<close> closes every opened resource once, in reverse order of
  construction, to the end even when some fail to close, and returns the first such error.\<close>

theorem ConnectRelayMedia_no_leak:
  "case ConnectRelayMedia lib of
     (Inl e, t) \<Rightarrow> Op e = ''connect'' \<and> closed t = rev (opened t) \<and> list_ex (\<lambda>s. s \<noteq> None) (constructors lib)
   | (Inr _, t) \<Rightarrow> closed t = [] \<and> opened t = [Udp, DtlsConn, Assoc, Dc] \<and>
       list_all (\<lambda>s. s = None) (constructors lib) \<and>
       closed (snd (RelayMediaChannel_Close lib)) = rev (opened t) \<and>
       fst (RelayMediaChannel_Close lib) = first_error (map (closeError lib) (rev (opened t)))"
  by (cases "listenUDP lib"; cases "selfSigned lib"; cases "dtlsClient lib"; cases "sctpClient lib";
      cases "dialChannel lib")
    (simp_all add: ConnectRelayMedia_def fail_def Close_result constructors_def Let_def)

section \<open>Classification\<close>

text \<open>What the client sends is classified as what it is: consent pings and allocate requests as
  STUN, the periodic RTCP compounds (with or without the profile bit) as RTCP, and RTP packets with
  the payload types in use as RTP, also with the marker set.\<close>

theorem ClassifyRelayPacket_own:
  "ClassifyRelayPacket (BuildWhatsappPing tx) = RelayPacketStun \<and>
   ClassifyRelayPacket (BuildAndroidStunAllocateRequest tx token ssrc pid key fp) = RelayPacketStun \<and>
   ClassifyRelayPacket (BuildWasmStunAllocateRequest tx token ep key) = RelayPacketStun \<and>
   ClassifyRelayPacket (BuildSenderReportWithSdesAndReception x st nowMs cname report ext) = RelayPacketRtcp \<and>
   list_all (\<lambda>pt. ClassifyRelayPacket (EncodeRtpHeader (h\<lparr>PayloadType := pt\<rparr>) @ payload) = RelayPacketRtp)
     [RtpPayloadTypeOpus, RtpPayloadTypeAppData, RtpPayloadTypeH264]"
proof -
  have rtp: "ClassifyRelayPacket (EncodeRtpHeader (h\<lparr>PayloadType := pt\<rparr>) @ payload) = RelayPacketRtp"
    if "pt \<in> {120, 119, 97}" for pt
    using that by (auto simp: EncodeRtpHeader_layout ClassifyRelayPacket_def type_byte_def)
  have ping: "BuildWhatsappPing tx = 8 # 1 # ([0, 0] @ be32 stunMagic @ tx)"
    by (simp add: BuildWhatsappPing_def MsgWhatsappPing_def be16_def)
  have alloc: "\<exists>r. EncodeStunRequest MsgAllocateRequest tx attrs key fp = 0 # 3 # r" for attrs key fp
    by (simp add: EncodeStunRequest_def MsgAllocateRequest_def be16_def Let_def)
  obtain r1 r2 where
    "BuildAndroidStunAllocateRequest tx token ssrc pid key fp = 0 # 3 # r1"
    "BuildWasmStunAllocateRequest tx token ep key = 0 # 3 # r2"
    using alloc unfolding BuildAndroidStunAllocateRequest_def BuildWasmStunAllocateRequest_def
      buildWasmStunAllocateRequest_def Let_def by metis
  moreover have "\<exists>r. BuildSenderReportWithSdesAndReception x st nowMs cname report ext =
      sr_first_byte ext (report \<noteq> None) # 200 # r"
    by (simp add: compound_layout sr_packet_def)
  then obtain r3 where "BuildSenderReportWithSdesAndReception x st nowMs cname report ext =
      sr_first_byte ext (report \<noteq> None) # 200 # r3" by blast
  moreover have "sr_first_byte ext b AND 0xc0 \<noteq> 0" for b by (simp add: sr_first_byte_def)
  ultimately show ?thesis
    unfolding ping using rtp
    by (simp add: ClassifyRelayPacket_def RtpPayloadTypeOpus_def RtpPayloadTypeAppData_def RtpPayloadTypeH264_def)
qed

end
