(* ===== verification/Signaling.thy ===== *)
theory Signaling
  imports Stun "HOL-Library.Sublist"
begin

text \<open>
  signaling/stanza.go and signaling/video.go: the builders of the outbound call stanzas.  A stanza is
  whatsmeow's \<open>Node\<close> struct: a tag, attributes and content; a JID is any value.  A nil slice or pointer
  parameter is \<open>None\<close>.  A stanza that arrives is represented by what whatsmeow's accessors answer for
  it: its tag, its attributes as strings and as JIDs, its children, and its content if that is a byte slice
  or a string; \<open>vbytes\<close> is the assertion \<open>Content.([]byte)\<close>.
\<close>

datatype 'j attr = AStr string | AJid 'j

datatype 'j Node = Node (Tag: string) (Attrs: "(string \<times> 'j attr) list") (Content: "'j content")
  and 'j content = NoContent | Octets bytes | Nodes "'j Node list"

datatype received = NoValue | OctetValue bytes | TextValue string

datatype 'j view = View (vtag: string) (vstr: "string \<Rightarrow> string") (vjid: "string \<Rightarrow> 'j")
  (vkids: "'j view list") (vcontent: received)

definition vbytes :: "'j view \<Rightarrow> bytes option" where
  "vbytes n = (case vcontent n of OctetValue b \<Rightarrow> Some b | _ \<Rightarrow> None)"

section \<open>Numbers\<close>

text \<open>\<open>strconv.FormatUint(n, 10)\<close> and \<open>strconv.ParseUint(s, 10, 32)\<close>.\<close>

definition digit_char :: "nat \<Rightarrow> char" where
  "digit_char d = char_of (48 + d)"

function FormatUint :: "nat \<Rightarrow> string" where
  "FormatUint n = (if n < 10 then [digit_char n] else FormatUint (n div 10) @ [digit_char (n mod 10)])"
  by pat_completeness auto
termination by (relation "measure id") auto

declare FormatUint.simps [simp del]

definition Itoa :: "int \<Rightarrow> string" where
  "Itoa n = (if n < 0 then CHR ''-'' # FormatUint (nat (- n)) else FormatUint (nat n))"

text \<open>
  \<open>ParseUint\<close> returns a value and whether it succeeded: a character that is no digit gives 0, a number
  out of range gives the largest one, as soon as the digits read so far exceed it.
\<close>

fun uint_loop :: "nat \<Rightarrow> string \<Rightarrow> u32 \<times> bool" where
  "uint_loop n [] = (of_nat n, True)"
| "uint_loop n (c # cs) =
     (case digit c of
        None \<Rightarrow> (0, False)
      | Some d \<Rightarrow> if 10 * n + d < 2 ^ 32 then uint_loop (10 * n + d) cs else (- 1, False))"

definition ParseUint32 :: "string \<Rightarrow> u32 \<times> bool" where
  "ParseUint32 s = (if s = [] then (0, False) else uint_loop 0 s)"

text \<open>\<open>strconv.Atoi\<close> with a 64-bit \<open>int\<close>: an optional sign and decimal digits within the range.\<close>

definition Atoi :: "string \<Rightarrow> int option" where
  "Atoi s =
     (let neg = s \<noteq> [] \<and> hd s = CHR ''-'';
          digits = (if s \<noteq> [] \<and> (hd s = CHR ''-'' \<or> hd s = CHR ''+'') then tl s else s)
      in if digits = [] then None
         else case parse_decimal 0 digits of
           None \<Rightarrow> None
         | Some n \<Rightarrow> if neg then (if n \<le> 2 ^ 63 then Some (- int n) else None)
             else if n < 2 ^ 63 then Some (int n) else None)"

definition EncodeLatency :: "u32 \<Rightarrow> string" where
  "EncodeLatency rttMs = FormatUint (unat (0x02000000 + rttMs))"

definition decodeLatency :: "string \<Rightarrow> u32" where
  "decodeLatency enc =
     (case ParseUint32 enc of
        (v, ok) \<Rightarrow> if \<not> ok \<or> v < 0x02000000 then 0 else v - 0x02000000)"

section \<open>Shared shapes\<close>

definition CapabilityOffer :: bytes where
  "CapabilityOffer = [0x01, 0x05, 0xf7, 0x09, 0xe0, 0xbb, 0x13]"

definition CapabilityVideoOffer :: bytes where
  "CapabilityVideoOffer = [0x01, 0x05, 0xf7, 0x09, 0xe0, 0xfa, 0x13]"

definition CapabilityPreaccept :: bytes where
  "CapabilityPreaccept = [0x01, 0x05, 0xf7, 0x09, 0xe0, 0xbb, 0x07]"

definition callWrap :: "'j \<Rightarrow> string option \<Rightarrow> 'j Node \<Rightarrow> 'j Node" where
  "callWrap to id' action =
     Node ''call'' ((''to'', AJid to) # (case id' of None \<Rightarrow> [] | Some i \<Rightarrow> [(''id'', AStr i)]))
       (Nodes [action])"

definition offerAction :: "string \<Rightarrow> string \<Rightarrow> 'j \<Rightarrow> 'j Node list \<Rightarrow> 'j Node" where
  "offerAction tag callID callCreator children =
     Node tag [(''call-id'', AStr callID), (''call-creator'', AJid callCreator)] (Nodes children)"

definition destinationTo :: "'j list \<Rightarrow> 'j Node" where
  "destinationTo devices =
     Node ''destination'' [] (Nodes (map (\<lambda>jid. Node ''to'' [(''jid'', AJid jid)] NoContent) devices))"

definition audioOpus :: "string \<Rightarrow> 'j Node" where
  "audioOpus rate = Node ''audio'' [(''enc'', AStr ''opus''), (''rate'', AStr rate)] NoContent"

definition capabilityNode :: "bytes \<Rightarrow> 'j Node" where
  "capabilityNode c = Node ''capability'' [(''ver'', AStr ''1'')] (Octets c)"

definition optional :: "('a \<Rightarrow> 'b) \<Rightarrow> 'a option \<Rightarrow> 'b list" where
  "optional f x = (case x of None \<Rightarrow> [] | Some a \<Rightarrow> [f a])"

section \<open>Video nodes\<close>

definition VideoStateDecH264 :: string where "VideoStateDecH264 = ''H264''"
definition VideoDecRequest :: string where "VideoDecRequest = ''H264''"
definition VideoDecAccept :: string where "VideoDecAccept = ''H264,AV1''"
definition videoOfferEncH264 :: string where "videoOfferEncH264 = ''h.264''"
definition videoOfferDecH264 :: string where "videoOfferDecH264 = VideoStateDecH264"

definition VideoStateDisabled :: int where "VideoStateDisabled = 0"
definition VideoStateEnabled :: int where "VideoStateEnabled = 1"
definition VideoStateUpgradeRequest :: int where "VideoStateUpgradeRequest = 3"
definition VideoStateUpgradeAccept :: int where "VideoStateUpgradeAccept = 4"
definition VideoStateUpgradeReject :: int where "VideoStateUpgradeReject = 5"
definition VideoStateStopped :: int where "VideoStateStopped = 6"
definition VideoStateUpgradeCancel :: int where "VideoStateUpgradeCancel = 8"
definition VideoStateUpgradeRequestV2 :: int where "VideoStateUpgradeRequestV2 = 11"

lemmas video_states = VideoStateDisabled_def VideoStateEnabled_def VideoStateUpgradeRequest_def
  VideoStateUpgradeAccept_def VideoStateUpgradeReject_def VideoStateStopped_def
  VideoStateUpgradeCancel_def VideoStateUpgradeRequestV2_def

record 'j VideoStateParams =
  vpCallID :: string
  vpTo :: 'j
  vpCallCreator :: 'j
  vpWrapperID :: string
  vpState :: int
  vpDec :: string
  vpDeviceOrientation :: "int option"

definition BuildVideoStateWithParams :: "'j VideoStateParams \<Rightarrow> 'j Node" where
  "BuildVideoStateWithParams p =
     (let attrs = [(''call-id'', AStr (vpCallID p)), (''call-creator'', AJid (vpCallCreator p)),
            (''state'', AStr (Itoa (vpState p)))] @
            (if vpDec p \<noteq> [] then [(''dec'', AStr (vpDec p))] else []) @
            (if vpState p = VideoStateUpgradeRequestV2 then [(''voip_settings'', AStr ''video'')] else []) @
            optional (\<lambda>o'. (''device_orientation'', AStr (Itoa o'))) (vpDeviceOrientation p)
      in Node ''call'' [(''to'', AJid (vpTo p)), (''id'', AStr (vpWrapperID p))]
           (Nodes [Node ''video'' attrs NoContent]))"

definition BuildVideoState :: "string \<Rightarrow> 'j \<Rightarrow> 'j \<Rightarrow> string \<Rightarrow> int \<Rightarrow> int \<Rightarrow> string \<Rightarrow> 'j Node" where
  "BuildVideoState callID to callCreator wrapperID st deviceOrientation dec =
     BuildVideoStateWithParams \<lparr>vpCallID = callID, vpTo = to, vpCallCreator = callCreator,
       vpWrapperID = wrapperID, vpState = st, vpDec = dec, vpDeviceOrientation = Some deviceOrientation\<rparr>"

text \<open>\<open>isEmpty\<close> is \<open>types.JID.IsEmpty\<close>.\<close>

definition BuildVideoAck :: "('j \<Rightarrow> bool) \<Rightarrow> 'j view option \<Rightarrow> 'j Node option" where
  "BuildVideoAck isEmpty original =
     (case original of
        None \<Rightarrow> None
      | Some v \<Rightarrow>
          let id' = vstr v ''id''; from' = vjid v ''from'';
              participant = vjid v ''participant''; recipient = vjid v ''recipient''
          in if id' = [] \<or> isEmpty from' then None
             else Some (Node ''ack''
               ([(''class'', AStr ''call''), (''id'', AStr id'), (''to'', AJid from'), (''type'', AStr ''video'')] @
                (if \<not> isEmpty participant \<and> participant \<noteq> from' then [(''participant'', AJid participant)] else []) @
                (if \<not> isEmpty recipient then [(''recipient'', AJid recipient)] else []))
               NoContent))"

definition videoOfferNode :: "'j Node" where
  "videoOfferNode = Node ''video''
     [(''enc'', AStr videoOfferEncH264), (''dec'', AStr videoOfferDecH264),
      (''screen_width'', AStr ''1920''), (''screen_height'', AStr ''1080''),
      (''device_orientation'', AStr ''0'')] NoContent"

definition videoAcceptNode :: "'j Node" where
  "videoAcceptNode = Node ''video''
     [(''dec'', AStr VideoStateDecH264), (''device_orientation'', AStr ''0'')] NoContent"

definition videoPreacceptNode :: "'j Node" where
  "videoPreacceptNode = Node ''video''
     [(''dec'', AStr VideoStateDecH264), (''device_orientation'', AStr ''0''),
      (''screen_width'', AStr ''0''), (''screen_height'', AStr ''0'')] NoContent"

definition OfferHasVideo :: "'j view option \<Rightarrow> bool" where
  "OfferHasVideo offer = (case offer of None \<Rightarrow> False | Some v \<Rightarrow> list_ex (\<lambda>c. vtag c = ''video'') (vkids v))"

section \<open>The stanza builders\<close>

record 'j OfferDeviceKey =
  DeviceJid :: 'j
  Ciphertext :: bytes
  EncType :: string

record 'j OfferParams =
  opCallID :: string
  opTo :: 'j
  opCallCreator :: 'j
  opDeviceKeys :: "'j OfferDeviceKey list"
  opPrivacyToken :: "bytes option"
  opCapability :: "bytes option"
  opDeviceIdentity :: "bytes option"
  opVideo :: bool

definition offerCapability :: "bool \<Rightarrow> bytes option \<Rightarrow> bytes option" where
  "offerCapability video capability =
     (if video \<and> capability = Some CapabilityOffer then Some CapabilityVideoOffer else capability)"

definition encNode :: "'j OfferDeviceKey \<Rightarrow> 'j Node" where
  "encNode dk = Node ''enc'' [(''v'', AStr ''2''), (''type'', AStr (EncType dk)), (''count'', AStr ''0'')]
     (Octets (Ciphertext dk))"

definition offer_children :: "'j OfferParams \<Rightarrow> 'j Node list" where
  "offer_children p =
     optional (\<lambda>t. Node ''privacy'' [] (Octets t)) (opPrivacyToken p) @
     [audioOpus ''8000'', audioOpus ''16000''] @
     (if opVideo p then [videoOfferNode] else []) @
     [Node ''net'' [(''medium'', AStr ''3'')] NoContent] @
     optional capabilityNode (offerCapability (opVideo p) (opCapability p)) @
     (case opDeviceKeys p of
        [] \<Rightarrow> []
      | [dk] \<Rightarrow> [encNode dk]
      | dks \<Rightarrow> [Node ''destination'' []
          (Nodes (map (\<lambda>dk. Node ''to'' [(''jid'', AJid (DeviceJid dk))] (Nodes [encNode dk])) dks))]) @
     [Node ''encopt'' [(''keygen'', AStr ''2'')] NoContent] @
     optional (\<lambda>i. Node ''device-identity'' [] (Octets i)) (opDeviceIdentity p)"

definition BuildOffer :: "'j OfferParams \<Rightarrow> 'j Node" where
  "BuildOffer p = callWrap (opTo p) None (offerAction ''offer'' (opCallID p) (opCallCreator p) (offer_children p))"

record 'j AcceptParams =
  apCallID :: string
  apTo :: 'j
  apCallCreator :: 'j
  apAudioRates :: "string list"
  apRelayTe :: "bytes option"
  apRte :: "bytes option"
  apVoipSettings :: "bytes option"
  apCapability :: "bytes option"
  apMetadata :: "(string \<times> 'j attr) list option"
  apVideo :: bool

definition BuildAccept :: "'j AcceptParams \<Rightarrow> 'j Node" where
  "BuildAccept p =
     callWrap (apTo p) None (offerAction ''accept'' (apCallID p) (apCallCreator p)
       (map audioOpus (apAudioRates p) @
        (if apVideo p then [videoAcceptNode] else []) @
        optional (\<lambda>t. Node ''te'' [(''priority'', AStr ''2'')] (Octets t)) (apRelayTe p) @
        [Node ''net'' [(''medium'', AStr ''2'')] NoContent,
         Node ''encopt'' [(''keygen'', AStr ''2'')] NoContent] @
        optional capabilityNode (apCapability p) @
        optional (\<lambda>m. Node ''metadata'' m NoContent) (apMetadata p) @
        optional (\<lambda>r. Node ''rte'' [] (Octets r)) (apRte p) @
        optional (\<lambda>v. Node ''voip_settings'' [(''uncompressed'', AStr ''1'')] (Octets v)) (apVoipSettings p)))"

definition BuildPreaccept :: "string \<Rightarrow> 'j \<Rightarrow> 'j \<Rightarrow> string \<Rightarrow> string list \<Rightarrow> bool \<Rightarrow> 'j Node" where
  "BuildPreaccept callID to callCreator wrapperID audioRates video =
     callWrap to (Some wrapperID) (offerAction ''preaccept'' callID callCreator
       (map audioOpus audioRates @
        (if video then [videoPreacceptNode] else []) @
        [Node ''encopt'' [(''keygen'', AStr ''2'')] NoContent,
         capabilityNode (if video then CapabilityOffer else CapabilityPreaccept)]))"

record 'j TransportParams =
  tpCallID :: string
  tpTo :: 'j
  tpCallCreator :: 'j
  tpP2PCandRound :: "string option"
  tpTransportMessageType :: "string option"
  tpRelayTe :: "bytes option"

definition BuildTransport :: "'j TransportParams \<Rightarrow> 'j Node" where
  "BuildTransport p =
     callWrap (tpTo p) None (Node ''transport''
       ([(''call-id'', AStr (tpCallID p)), (''call-creator'', AJid (tpCallCreator p))] @
        optional (\<lambda>r. (''p2p-cand-round'', AStr r)) (tpP2PCandRound p) @
        optional (\<lambda>t. (''transport-message-type'', AStr t)) (tpTransportMessageType p))
       (Nodes (optional (\<lambda>t. Node ''te'' [(''priority'', AStr ''1'')] (Octets t)) (tpRelayTe p) @
         [Node ''net'' ((''medium'', AStr ''2'') #
            (if tpTransportMessageType p \<noteq> Some ''9'' then [(''protocol'', AStr ''0'')] else [])) NoContent])))"

record 'j RelayLatencyParams =
  rpCallID :: string
  rpTo :: 'j
  rpCallCreator :: 'j
  rpLatencyMs :: u32
  rpRelayName :: string
  rpAddressBytes :: bytes
  rpDevices :: "'j list"

definition BuildRelayLatency :: "'j RelayLatencyParams \<Rightarrow> 'j Node" where
  "BuildRelayLatency p =
     callWrap (rpTo p) None (offerAction ''relaylatency'' (rpCallID p) (rpCallCreator p)
       (Node ''te'' [(''latency'', AStr (EncodeLatency (rpLatencyMs p))), (''relay_name'', AStr (rpRelayName p))]
          (Octets (rpAddressBytes p)) #
        (if rpDevices p \<noteq> [] then [destinationTo (rpDevices p)] else [])))"

definition BuildHeartbeat :: "string \<Rightarrow> 'j \<Rightarrow> string \<Rightarrow> 'j Node" where
  "BuildHeartbeat callID callCreator wrapperID =
     Node ''call'' [(''to'', AStr (callID @ ''@call'')), (''id'', AStr wrapperID)]
       (Nodes [Node ''heartbeat'' [(''call-id'', AStr callID), (''call-creator'', AJid callCreator)] NoContent])"

record 'j TerminateParams =
  mpCallID :: string
  mpTo :: 'j
  mpCallCreator :: 'j
  mpReason :: "string option"
  mpTargetDevices :: "'j list"

definition BuildTerminate :: "'j TerminateParams \<Rightarrow> 'j Node" where
  "BuildTerminate p =
     callWrap (mpTo p) None (Node ''terminate''
       ([(''call-id'', AStr (mpCallID p)), (''call-creator'', AJid (mpCallCreator p))] @
        optional (\<lambda>r. (''reason'', AStr r)) (mpReason p))
       (Nodes (if mpTargetDevices p \<noteq> [] then [destinationTo (mpTargetDevices p)] else [])))"

definition BuildMuteV2 :: "string \<Rightarrow> 'j \<Rightarrow> 'j \<Rightarrow> string \<Rightarrow> 'j Node" where
  "BuildMuteV2 callID to callCreator muteState =
     callWrap to None (Node ''mute_v2''
       [(''call-id'', AStr callID), (''call-creator'', AJid callCreator), (''mute-state'', AStr muteState)] NoContent)"

definition BuildReject :: "string \<Rightarrow> 'j \<Rightarrow> 'j \<Rightarrow> 'j Node" where
  "BuildReject callID to callCreator =
     callWrap to None (Node ''reject'' [(''call-id'', AStr callID), (''call-creator'', AJid callCreator)] NoContent)"

section \<open>The latency coding\<close>

lemma digit_digit_char [simp]: "d < 10 \<Longrightarrow> digit (digit_char d) = Some d"
  by (simp add: digit_def digit_char_def)

lemma uint_loop_FormatUint: "m < 2 ^ 32 \<Longrightarrow> uint_loop 0 (FormatUint m @ t) = uint_loop m t"
proof (induction m arbitrary: t rule: FormatUint.induct)
  case (1 m)
  show ?case
  proof (cases "m < 10")
    case True
    then show ?thesis by (subst FormatUint.simps) simp
  next
    case False
    have "FormatUint m @ t = FormatUint (m div 10) @ digit_char (m mod 10) # t"
      using False by (subst FormatUint.simps) simp
    moreover have "10 * (m div 10) + m mod 10 = m" by simp
    ultimately show ?thesis
      using "1.IH" [OF False, of "digit_char (m mod 10) # t"] "1.prems" by simp
  qed
qed

lemma FormatUint_not_Nil [simp]: "FormatUint m \<noteq> []"
  by (subst FormatUint.simps) simp

lemma ParseUint32_FormatUint: "m < 2 ^ 32 \<Longrightarrow> ParseUint32 (FormatUint m) = (of_nat m, True)"
  using uint_loop_FormatUint [of m "[]"] by (simp add: ParseUint32_def)

text \<open>
  The latency a probe carries reads back for every round-trip time below the point where the offset
  wraps the 32-bit sum, and as 0 from there on.
\<close>

theorem decodeLatency_EncodeLatency:
  "decodeLatency (EncodeLatency rtt) = (if rtt \<le> 0xfdffffff then rtt else 0)"
proof -
  have "ParseUint32 (EncodeLatency rtt) = (0x02000000 + rtt, True)"
    using ParseUint32_FormatUint [of "unat (0x02000000 + rtt)"] unsigned_less [of "0x02000000 + rtt"]
    by (simp add: EncodeLatency_def)
  moreover have "0x02000000 + rtt < 0x02000000 \<longleftrightarrow> \<not> rtt \<le> (0xfdffffff :: u32)"
    by (uint_arith) auto
  ultimately show ?thesis by (simp add: decodeLatency_def)
qed

section \<open>The shape of an offer\<close>

definition child_tags :: "'j Node list \<Rightarrow> string list" where
  "child_tags ns = map Tag ns"

text \<open>The encrypted call keys an offer carries: the inline \<open>enc\<close> or those of the \<open>destination\<close>.\<close>

fun node_children :: "'j Node \<Rightarrow> 'j Node list" where
  "node_children (Node _ _ (Nodes ns)) = ns"
| "node_children _ = []"

fun node_octets :: "'j Node \<Rightarrow> bytes list" where
  "node_octets (Node _ _ (Octets b)) = [b]"
| "node_octets _ = []"

definition tagged :: "string \<Rightarrow> 'j Node list \<Rightarrow> 'j Node list" where
  "tagged t ns = filter (\<lambda>n. Tag n = t) ns"

definition offered_keys :: "'j Node \<Rightarrow> bytes list" where
  "offered_keys n =
     (let kids = concat (map node_children (node_children n));
          encs = tagged ''enc'' kids @
            tagged ''enc'' (concat (map node_children (concat (map node_children (tagged ''destination'' kids)))))
      in concat (map node_octets encs))"

definition mandated_order :: "string list" where
  "mandated_order = [''privacy'', ''audio'', ''audio'', ''video'', ''net'', ''capability'', ''destination'',
     ''enc'', ''encopt'', ''device-identity'']"


definition offer_rank :: "'j OfferParams \<Rightarrow> string list" where
  "offer_rank p =
     filter (\<lambda>t. (t = ''privacy'' \<longrightarrow> opPrivacyToken p \<noteq> None) \<and> (t = ''video'' \<longrightarrow> opVideo p) \<and>
         (t = ''capability'' \<longrightarrow> opCapability p \<noteq> None) \<and>
         (t = ''destination'' \<longrightarrow> 1 < length (opDeviceKeys p)) \<and>
         (t = ''enc'' \<longrightarrow> length (opDeviceKeys p) = 1) \<and>
         (t = ''device-identity'' \<longrightarrow> opDeviceIdentity p \<noteq> None))
       mandated_order"

lemma Tag_shapes [simp]:
  "Tag (audioOpus r) = ''audio''" "Tag videoOfferNode = ''video''" "Tag (capabilityNode c) = ''capability''"
  "Tag (encNode dk) = ''enc''"
  by (simp_all add: audioOpus_def videoOfferNode_def capabilityNode_def encNode_def)

text \<open>
  An offer has exactly the children its parameters ask for, in the order the server demands, and carries
  every device's encrypted call key, in the order of the devices.
\<close>

theorem BuildOffer_children:
  "child_tags (concat (map node_children (node_children (BuildOffer p)))) = offer_rank p \<and>
   offered_keys (BuildOffer p) = map Ciphertext (opDeviceKeys p)"
proof -
  have kids: "concat (map node_children (node_children (BuildOffer p))) = offer_children p"
    by (simp add: BuildOffer_def callWrap_def offerAction_def)
  have "child_tags (offer_children p) = offer_rank p"
    by (auto simp: child_tags_def offer_children_def offer_rank_def mandated_order_def optional_def
        offerCapability_def split: option.splits list.splits)
  moreover have "offered_keys (BuildOffer p) = map Ciphertext (opDeviceKeys p)"
    unfolding offered_keys_def kids Let_def
    by (auto simp: tagged_def offer_children_def optional_def encNode_def audioOpus_def videoOfferNode_def
        capabilityNode_def comp_def filter_concat map_concat split: option.splits list.splits)
  ultimately show ?thesis unfolding kids ..
qed

end
