(* ===== verification/Session.thy ===== *)
theory Session
  imports Main
begin

text \<open>
  session.go: the phases of a call and the validated transitions of a \<open>CallSession\<close>.  A JID
  (whatsmeow's \<open>types.JID\<close>) is only stored, so its type is a parameter.
\<close>

datatype CallDirection = CallDirectionOutgoing | CallDirectionIncoming

datatype CallPhase = CallPhaseIdle | CallPhaseCalling | CallPhaseRinging | CallPhaseConnecting
  | CallPhaseActive | CallPhaseEnded

text \<open>The constants are numbered by \<open>iota\<close>; the order of the phases is that of their numbers.\<close>

fun phase_number :: "CallPhase \<Rightarrow> nat" where
  "phase_number CallPhaseIdle = 0"
| "phase_number CallPhaseCalling = 1"
| "phase_number CallPhaseRinging = 2"
| "phase_number CallPhaseConnecting = 3"
| "phase_number CallPhaseActive = 4"
| "phase_number CallPhaseEnded = 5"

lemma phase_number_inject [simp]: "phase_number p = phase_number q \<longleftrightarrow> p = q"
  by (cases p; cases q) simp_all

instantiation CallPhase :: linorder
begin

definition less_eq_CallPhase :: "CallPhase \<Rightarrow> CallPhase \<Rightarrow> bool" where
  "less_eq_CallPhase p q \<longleftrightarrow> phase_number p \<le> phase_number q"

definition less_CallPhase :: "CallPhase \<Rightarrow> CallPhase \<Rightarrow> bool" where
  "less_CallPhase p q \<longleftrightarrow> phase_number p < phase_number q"

instance
  by standard (auto simp: less_eq_CallPhase_def less_CallPhase_def dest: antisym)

end

record 'j CallSession =
  CallID :: string
  PeerJID :: 'j
  CallCreator :: 'j
  Direction :: CallDirection
  IsVideo :: bool
  phase :: CallPhase

definition NewOutgoingSession :: "string \<Rightarrow> 'j \<Rightarrow> 'j \<Rightarrow> 'j CallSession" where
  "NewOutgoingSession callID peerJID callCreator =
     \<lparr>CallID = callID, PeerJID = peerJID, CallCreator = callCreator,
      Direction = CallDirectionOutgoing, IsVideo = False, phase = CallPhaseIdle\<rparr>"

definition NewIncomingSession :: "string \<Rightarrow> 'j \<Rightarrow> 'j \<Rightarrow> 'j CallSession" where
  "NewIncomingSession callID peerJID callCreator =
     \<lparr>CallID = callID, PeerJID = peerJID, CallCreator = callCreator,
      Direction = CallDirectionIncoming, IsVideo = False, phase = CallPhaseRinging\<rparr>"

definition IsActive :: "'j CallSession \<Rightarrow> bool" where
  "IsActive s \<longleftrightarrow> phase s = CallPhaseActive"

definition IsEnded :: "'j CallSession \<Rightarrow> bool" where
  "IsEnded s \<longleftrightarrow> phase s = CallPhaseEnded"

definition TransitionTo :: "'j CallSession \<Rightarrow> CallPhase \<Rightarrow> bool \<times> 'j CallSession" where
  "TransitionTo s next' =
     (let ok = (if phase s = CallPhaseEnded then False
          else if next' = CallPhaseEnded then True
          else if phase s = CallPhaseIdle \<and> next' = CallPhaseCalling then Direction s = CallDirectionOutgoing
          else if phase s = CallPhaseCalling \<and> next' = CallPhaseRinging then True
          else if phase s = CallPhaseRinging \<and> next' = CallPhaseConnecting then True
          else if phase s = CallPhaseConnecting \<and> next' = CallPhaseActive then True
          else if phase s = next' then True
          else False)
      in (ok, if ok then s\<lparr>phase := next'\<rparr> else s))"

fun phaseName :: "CallPhase \<Rightarrow> string" where
  "phaseName CallPhaseIdle = ''idle''"
| "phaseName CallPhaseCalling = ''calling''"
| "phaseName CallPhaseRinging = ''ringing''"
| "phaseName CallPhaseConnecting = ''connecting''"
| "phaseName CallPhaseActive = ''active''"
| "phaseName CallPhaseEnded = ''ended''"

section \<open>The life cycle as a step relation\<close>

text \<open>What a call may do, independently of the code: advance by one phase, an outgoing call from Idle;
  end from any phase but the last.\<close>

inductive phase_step :: "CallDirection \<Rightarrow> CallPhase \<Rightarrow> CallPhase \<Rightarrow> bool" for d where
  dial: "d = CallDirectionOutgoing \<Longrightarrow> phase_step d CallPhaseIdle CallPhaseCalling"
| ring: "phase_step d CallPhaseCalling CallPhaseRinging"
| connect: "phase_step d CallPhaseRinging CallPhaseConnecting"
| active: "phase_step d CallPhaseConnecting CallPhaseActive"
| hangup: "p \<noteq> CallPhaseEnded \<Longrightarrow> phase_step d p CallPhaseEnded"

inductive_cases ended_stepE: "phase_step d CallPhaseEnded q"
inductive_simps phase_step_simps: "phase_step d p q"

lemma phase_step_less: "phase_step d p q \<Longrightarrow> p < q"
proof (induction rule: phase_step.induct)
  case (hangup p)
  then show ?case by (cases p) (simp_all add: less_CallPhase_def)
qed (simp_all add: less_CallPhase_def)

lemma TransitionTo_iff:
  "fst (TransitionTo s q) \<longleftrightarrow> phase_step (Direction s) (phase s) q \<or> (phase s = q \<and> q \<noteq> CallPhaseEnded)"
  by (cases "phase s"; cases q) (auto simp: TransitionTo_def phase_step_simps Let_def)

lemma TransitionTo_state:
  "snd (TransitionTo s q) = (if fst (TransitionTo s q) then s\<lparr>phase := q\<rparr> else s)"
  by (simp add: TransitionTo_def Let_def)

text \<open>The phases a session goes through on a run of requests, the first one included.\<close>

fun phases :: "'j CallSession \<Rightarrow> CallPhase list \<Rightarrow> CallPhase list" where
  "phases s [] = [phase s]"
| "phases s (q # qs) = phase s # phases (snd (TransitionTo s q)) qs"

inductive life :: "CallDirection \<Rightarrow> CallPhase list \<Rightarrow> bool" for d where
  one: "life d [p]"
| stay: "life d (p # ps) \<Longrightarrow> life d (p # p # ps)"
| advance: "phase_step d p q \<Longrightarrow> life d (q # ps) \<Longrightarrow> life d (p # q # ps)"

lemma phases_Cons: "\<exists>qs. phases s rs = phase s # qs"
  by (cases rs) auto

lemma phases_life: "life (Direction s) (phases s qs)"
proof (induction qs arbitrary: s)
  case Nil
  then show ?case by (simp add: life.one)
next
  case (Cons q qs)
  let ?s = "snd (TransitionTo s q)"
  have d: "Direction ?s = Direction s" by (simp add: TransitionTo_state)
  obtain ps where ps: "phases ?s qs = phase ?s # ps" using phases_Cons by blast
  have IH: "life (Direction s) (phase ?s # ps)" using Cons.IH [of ?s] d ps by simp
  show ?case
  proof (cases "phase ?s = phase s")
    case True
    with IH ps show ?thesis by (simp add: life.stay)
  next
    case False
    then have "phase_step (Direction s) (phase s) (phase ?s)"
      using TransitionTo_iff [of s q] by (auto simp: TransitionTo_state split: if_splits)
    with IH ps show ?thesis by (simp add: life.advance)
  qed
qed

lemma life_sorted: "life d ps \<Longrightarrow> sorted ps"
proof (induction rule: life.induct)
  case (one p)
  then show ?case by simp
next
  case (stay p ps)
  then show ?case by simp
next
  case (advance p q ps)
  then have "p \<le> q" using phase_step_less by (simp add: less_imp_le)
  with advance show ?case by auto
qed

lemma life_ended: "life d ps \<Longrightarrow> hd ps = CallPhaseEnded \<Longrightarrow> set ps = {CallPhaseEnded}"
  by (induction rule: life.induct) (auto elim: ended_stepE)

text \<open>Every phase up to Active is entered from the one before.\<close>

fun previous :: "CallPhase \<Rightarrow> CallPhase" where
  "previous CallPhaseCalling = CallPhaseIdle"
| "previous CallPhaseRinging = CallPhaseCalling"
| "previous CallPhaseConnecting = CallPhaseRinging"
| "previous CallPhaseActive = CallPhaseConnecting"
| "previous p = p"

lemma step_previous: "phase_step d p q \<Longrightarrow> q \<noteq> CallPhaseEnded \<Longrightarrow> p = previous q"
  by (induction rule: phase_step.induct) auto

lemma life_previous:
  "life d ps \<Longrightarrow> q \<in> set ps \<Longrightarrow> q \<noteq> hd ps \<Longrightarrow> q \<noteq> CallPhaseEnded \<Longrightarrow> previous q \<in> set ps"
  by (induction rule: life.induct) (auto dest: step_previous)

text \<open>C26: a transition is accepted exactly when it is a step of the life cycle or a repetition of a
  phase other than Ended; an accepted request sets the phase, a refused one changes nothing, and
  nothing else of the session ever changes.\<close>

theorem TransitionTo_life_cycle:
  "(fst (TransitionTo s q) \<longleftrightarrow>
     phase_step (Direction s) (phase s) q \<or> (phase s = q \<and> q \<noteq> CallPhaseEnded)) \<and>
   snd (TransitionTo s q) = (if fst (TransitionTo s q) then s\<lparr>phase := q\<rparr> else s)"
  using TransitionTo_iff TransitionTo_state by blast

text \<open>C25: over any run of requests on an incoming or outgoing session the phase never goes back; once
  ended it stays ended; and a call that is ever Active was Ringing and Connecting before, an
  outgoing one Calling as well.\<close>

theorem session_runs:
  "sorted (phases s qs) \<and>
   (IsEnded s \<longrightarrow> set (phases s qs) = {CallPhaseEnded}) \<and>
   (CallPhaseActive \<in> set (phases (NewIncomingSession i a b) qs) \<longrightarrow>
      CallPhaseConnecting \<in> set (phases (NewIncomingSession i a b) qs)) \<and>
   (CallPhaseActive \<in> set (phases (NewOutgoingSession i a b) qs) \<longrightarrow>
      {CallPhaseCalling, CallPhaseRinging, CallPhaseConnecting} \<subseteq> set (phases (NewOutgoingSession i a b) qs))"
proof -
  have out: "{CallPhaseCalling, CallPhaseRinging, CallPhaseConnecting} \<subseteq> set (phases s qs)"
    if "CallPhaseActive \<in> set (phases s qs)" "phase s = CallPhaseIdle" for s :: "'b CallSession"
  proof -
    note prev = life_previous [OF phases_life [of s qs]]
    have "phase s = CallPhaseIdle" by fact
    then show ?thesis
      using prev [of CallPhaseActive] prev [of CallPhaseConnecting] prev [of CallPhaseRinging] that(1)
        phases_Cons [of s qs] by auto
  qed
  have inc: "CallPhaseConnecting \<in> set (phases s qs)"
    if "CallPhaseActive \<in> set (phases s qs)" "phase s = CallPhaseRinging" for s :: "'b CallSession"
    using life_previous [OF phases_life [of s qs], of CallPhaseActive] that phases_Cons [of s qs] by auto
  have "IsEnded s \<Longrightarrow> set (phases s qs) = {CallPhaseEnded}"
    using life_ended [OF phases_life [of s qs]] phases_Cons [of s qs] by (auto simp: IsEnded_def)
  then show ?thesis
    using life_sorted [OF phases_life [of s qs]] out [of "NewOutgoingSession i a b"]
      inc [of "NewIncomingSession i a b"]
    by (simp add: NewOutgoingSession_def NewIncomingSession_def)
qed

lemma session_runs_witness:
  "IsEnded (NewIncomingSession ''c'' () ()\<lparr>phase := CallPhaseEnded\<rparr>) \<and>
   set (phases (NewIncomingSession ''c'' () ()\<lparr>phase := CallPhaseEnded\<rparr>) [CallPhaseConnecting, CallPhaseActive])
     = {CallPhaseEnded} \<and>
   CallPhaseActive \<in> set (phases (NewIncomingSession ''c'' () ()) [CallPhaseConnecting, CallPhaseActive]) \<and>
   CallPhaseConnecting \<in> set (phases (NewIncomingSession ''c'' () ()) [CallPhaseConnecting, CallPhaseActive])"
proof -
  have "IsEnded (NewIncomingSession ''c'' () ()\<lparr>phase := CallPhaseEnded\<rparr>)" by (simp add: IsEnded_def)
  moreover have "CallPhaseActive \<in> set (phases (NewIncomingSession ''c'' () ()) [CallPhaseConnecting, CallPhaseActive])"
    by (simp add: NewIncomingSession_def TransitionTo_def)
  ultimately show ?thesis
    using session_runs [of "NewIncomingSession ''c'' () ()\<lparr>phase := CallPhaseEnded\<rparr>"
        "[CallPhaseConnecting, CallPhaseActive]" "''c''" "()" "()"]
    by blast
qed

end
