(* ===== verification/Registry.thy ===== *)
theory Registry
  imports Session "HOL-Library.AList" "HOL-Library.Multiset"
begin

text \<open>
  call.go: the registry of active calls with the cancel handles of their media tasks.  A handle is
  an abstract value; calling it is recorded in the list of cancelled handles that an operation
  returns.  The map is an association list with distinct keys, in the order of \<open>AbortAll\<close>'s iteration,
  which Go leaves open: nothing below depends on that order.  The mutex serialises the operations.
\<close>

record ('j, 't) callEntry =
  session :: "'j CallSession"
  mediaTask :: "'t option"

type_synonym ('j, 't) CallRegistry = "(string \<times> ('j, 't) callEntry) list"

definition NewCallRegistry :: "('j, 't) CallRegistry" where
  "NewCallRegistry = []"

definition Registry_Insert :: "('j, 't) CallRegistry \<Rightarrow> 'j CallSession \<Rightarrow> bool \<times> ('j, 't) CallRegistry" where
  "Registry_Insert r s =
     (case map_of r (CallID s) of
        Some _ \<Rightarrow> (False, r)
      | None \<Rightarrow> (True, AList.update (CallID s) \<lparr>session = s, mediaTask = None\<rparr> r))"

text \<open>Without a call the handle is called at once, which panics, \<open>None\<close>, when it is nil.\<close>

definition SetMediaTask ::
    "('j, 't) CallRegistry \<Rightarrow> string \<Rightarrow> 't option \<Rightarrow> ('t list \<times> ('j, 't) CallRegistry) option" where
  "SetMediaTask r callID cancel =
     (case map_of r callID of
        None \<Rightarrow> (case cancel of None \<Rightarrow> None | Some c \<Rightarrow> Some ([c], r))
      | Some entry \<Rightarrow>
          Some ((case mediaTask entry of None \<Rightarrow> [] | Some old \<Rightarrow> [old]),
            AList.update callID (entry\<lparr>mediaTask := cancel\<rparr>) r))"

definition Registry_Phase :: "('j, 't) CallRegistry \<Rightarrow> string \<Rightarrow> CallPhase \<times> bool" where
  "Registry_Phase r callID =
     (case map_of r callID of
        Some entry \<Rightarrow> (phase (session entry), True)
      | None \<Rightarrow> (CallPhaseIdle, False))"

definition Registry_Transition :: "('j, 't) CallRegistry \<Rightarrow> string \<Rightarrow> CallPhase \<Rightarrow> bool \<times> ('j, 't) CallRegistry" where
  "Registry_Transition r callID next' =
     (case map_of r callID of
        None \<Rightarrow> (False, r)
      | Some entry \<Rightarrow>
          (case TransitionTo (session entry) next' of
             (ok, s) \<Rightarrow> (ok, AList.update callID (entry\<lparr>session := s\<rparr>) r)))"

definition Snapshot :: "('j, 't) CallRegistry \<Rightarrow> string \<Rightarrow> 'j CallSession option" where
  "Snapshot r callID = map_option session (map_of r callID)"

definition ActiveCount :: "('j, 't) CallRegistry \<Rightarrow> nat" where
  "ActiveCount r = length r"

definition Registry_Remove :: "('j, 't) CallRegistry \<Rightarrow> string \<Rightarrow> bool \<times> 't list \<times> ('j, 't) CallRegistry" where
  "Registry_Remove r callID =
     (case map_of r callID of
        None \<Rightarrow> (False, [], r)
      | Some entry \<Rightarrow>
          (True, (case mediaTask entry of None \<Rightarrow> [] | Some t \<Rightarrow> [t]), AList.delete callID r))"

definition AbortAll :: "('j, 't) CallRegistry \<Rightarrow> nat \<times> 't list \<times> ('j, 't) CallRegistry" where
  "AbortAll r = (length r, List.map_filter (\<lambda>(k, entry). mediaTask entry) r, [])"

section \<open>A map as an association list\<close>

text \<open>What the client of a map relies on; the association list keeps its keys distinct.\<close>

locale entry_map =
  fixes put :: "'k \<Rightarrow> 'v \<Rightarrow> 'm \<Rightarrow> 'm" and del :: "'k \<Rightarrow> 'm \<Rightarrow> 'm" and get :: "'m \<Rightarrow> 'k \<Rightarrow> 'v option"
    and inv :: "'m \<Rightarrow> bool" and vals :: "'m \<Rightarrow> 'v multiset"
  assumes get_put: "get (put k v m) = (get m)(k \<mapsto> v)"
    and get_del: "get (del k m) = (get m)(k := None)"
    and inv_put: "inv m \<Longrightarrow> inv (put k v m)"
    and inv_del: "inv m \<Longrightarrow> inv (del k m)"
    and vals_put_new: "get m k = None \<Longrightarrow> vals (put k v m) = add_mset v (vals m)"
    and vals_put_old: "inv m \<Longrightarrow> get m k = Some w \<Longrightarrow> vals (put k v m) = add_mset v (vals m - {#w#})"
    and vals_del: "inv m \<Longrightarrow> get m k = Some w \<Longrightarrow> vals (del k m) = vals m - {#w#}"
    and vals_member: "inv m \<Longrightarrow> get m k = Some w \<Longrightarrow> w \<in># vals m"
begin

text \<open>Swapping or dropping one value moves exactly that value out of the map.\<close>

lemma exchange: "inv m \<Longrightarrow> get m k = Some w \<Longrightarrow> add_mset w (vals (put k v m)) = add_mset v (vals m)"
  by (simp add: vals_put_old vals_member)

lemma release: "inv m \<Longrightarrow> get m k = Some w \<Longrightarrow> add_mset w (vals (del k m)) = vals m"
  by (simp add: vals_del vals_member)

end

lemma update_new: "map_of m k = None \<Longrightarrow> AList.update k v m = m @ [(k, v)]"
  by (induction m) auto

interpretation calls_map: entry_map AList.update AList.delete map_of "\<lambda>m. distinct (map fst m)"
    "\<lambda>m. mset (map snd m)"
proof unfold_locales
  fix m :: "('a \<times> 'b) list" and k v w
  show "map_of (AList.update k v m) = (map_of m)(k \<mapsto> v)" by (simp add: update_conv')
  show "map_of (AList.delete k m) = (map_of m)(k := None)" by (simp add: delete_conv')
  show "distinct (map fst m) \<Longrightarrow> distinct (map fst (AList.update k v m))" by (rule distinct_update)
  show "distinct (map fst m) \<Longrightarrow> distinct (map fst (AList.delete k m))" by (rule distinct_delete)
  show "map_of m k = None \<Longrightarrow> mset (map snd (AList.update k v m)) = add_mset v (mset (map snd m))"
    by (simp add: update_new)
  show mem: "map_of m k = Some w \<Longrightarrow> w \<in># mset (map snd m)" for w :: 'b
    by (force dest: map_of_SomeD)
  show "distinct (map fst m) \<Longrightarrow> map_of m k = Some w \<Longrightarrow>
      mset (map snd (AList.update k v m)) = add_mset v (mset (map snd m) - {#w#})"
  proof (induction m)
    case Nil
    then show ?case by simp
  next
    case (Cons a m)
    obtain k' v' where a: "a = (k', v')" by (cases a)
    show ?case
    proof (cases "k' = k")
      case True
      with Cons.prems a show ?thesis by simp
    next
      case False
      then have m: "map_of m k = Some w" "distinct (map fst m)" using Cons.prems a by auto
      then have "w \<in># mset (map snd m)" by (force dest: map_of_SomeD)
      with Cons.IH m a False show ?thesis by simp
    qed
  qed
  show "distinct (map fst m) \<Longrightarrow> map_of m k = Some w \<Longrightarrow>
      mset (map snd (AList.delete k m)) = mset (map snd m) - {#w#}"
  proof (induction m)
    case Nil
    then show ?case by simp
  next
    case (Cons a m)
    obtain k' v' where a: "a = (k', v')" by (cases a)
    show ?case
    proof (cases "k' = k")
      case True
      then have "AList.delete k m = m" using Cons.prems(1) a by (simp add: delete_id)
      with Cons.prems a True show ?thesis by simp
    next
      case False
      then have m: "map_of m k = Some w" "distinct (map fst m)" using Cons.prems a by auto
      then have "w \<in># mset (map snd m)" by (force dest: map_of_SomeD)
      with Cons.IH m a False show ?thesis by simp
    qed
  qed
qed

section \<open>Every handle is cancelled once\<close>

datatype ('j, 't) registry_op =
  OpInsert "'j CallSession" | OpSetTask string "'t option" | OpTransition string CallPhase
  | OpRemove string | OpAbort

text \<open>One operation: the handles it cancels and the registry after it, which a panic leaves as it was.\<close>

fun registry_step :: "('j, 't) CallRegistry \<Rightarrow> ('j, 't) registry_op \<Rightarrow> 't list \<times> ('j, 't) CallRegistry" where
  "registry_step r (OpInsert s) = ([], snd (Registry_Insert r s))"
| "registry_step r (OpSetTask i t) = (case SetMediaTask r i t of None \<Rightarrow> ([], r) | Some x \<Rightarrow> x)"
| "registry_step r (OpTransition i p) = ([], snd (Registry_Transition r i p))"
| "registry_step r (OpRemove i) = snd (Registry_Remove r i)"
| "registry_step r OpAbort = snd (AbortAll r)"

fun registry_run :: "('j, 't) CallRegistry \<Rightarrow> ('j, 't) registry_op list \<Rightarrow> 't list \<times> ('j, 't) CallRegistry" where
  "registry_run r [] = ([], r)"
| "registry_run r (x # xs) =
     (let (c, r1) = registry_step r x; (cs, r2) = registry_run r1 xs in (c @ cs, r2))"

definition handed_in :: "('j, 't) registry_op list \<Rightarrow> 't list" where
  "handed_in xs = List.map_filter (\<lambda>x. case x of OpSetTask i t \<Rightarrow> t | _ \<Rightarrow> None) xs"

definition task_bag :: "('j, 't) callEntry \<Rightarrow> 't multiset" where
  "task_bag e = (case mediaTask e of None \<Rightarrow> {#} | Some t \<Rightarrow> {#t#})"

definition held :: "('j, 't) CallRegistry \<Rightarrow> 't multiset" where
  "held r = \<Sum>\<^sub># (image_mset task_bag (mset (map snd r)))"

definition registry_ok :: "('j, 't) CallRegistry \<Rightarrow> bool" where
  "registry_ok r \<longleftrightarrow> distinct (map fst r) \<and> list_all (\<lambda>(k, e). CallID (session e) = k) r"

lemma held_put_new: "map_of r k = None \<Longrightarrow> held (AList.update k e r) = task_bag e + held r"
  by (simp only: held_def calls_map.vals_put_new image_mset_add_mset) simp

lemma held_put_old:
  "distinct (map fst r) \<Longrightarrow> map_of r k = Some w \<Longrightarrow>
   task_bag w + held (AList.update k e r) = task_bag e + held r"
  using arg_cong [OF calls_map.exchange [of r k w e], of "\<lambda>M. \<Sum>\<^sub># (image_mset task_bag M)"]
  by (simp add: held_def)

lemma held_del:
  "distinct (map fst r) \<Longrightarrow> map_of r k = Some w \<Longrightarrow> task_bag w + held (AList.delete k r) = held r"
  using arg_cong [OF calls_map.release [of r k w], of "\<lambda>M. \<Sum>\<^sub># (image_mset task_bag M)"]
  by (simp add: held_def)

lemma held_filter: "mset (List.map_filter (\<lambda>(k, entry). mediaTask entry) r) = held r"
  by (induction r) (auto simp: held_def task_bag_def map_filter_simps split: option.splits)

lemma registry_step_balance:
  assumes "distinct (map fst r)"
  shows "mset (fst (registry_step r x)) + held (snd (registry_step r x)) = mset (handed_in [x]) + held r \<and>
    distinct (map fst (snd (registry_step r x)))"
proof (cases x)
  case (OpInsert s)
  with assms show ?thesis
    by (auto simp: Registry_Insert_def handed_in_def map_filter_simps held_put_new task_bag_def
        distinct_update split: option.splits)
next
  case (OpSetTask i t)
  show ?thesis
  proof (cases "map_of r i")
    case None
    with assms OpSetTask show ?thesis by (simp add: SetMediaTask_def handed_in_def map_filter_simps split: option.splits)
  next
    case (Some e)
    have "task_bag e + held (AList.update i (e\<lparr>mediaTask := t\<rparr>) r) = (case t of None \<Rightarrow> {#} | Some c \<Rightarrow> {#c#}) + held r"
      using held_put_old [OF assms Some, of "e\<lparr>mediaTask := t\<rparr>"] by (simp add: task_bag_def)
    with assms OpSetTask Some show ?thesis
      by (simp add: SetMediaTask_def handed_in_def map_filter_simps task_bag_def distinct_update
          split: option.splits)
  qed
next
  case (OpTransition i p)
  show ?thesis
  proof (cases "map_of r i")
    case None
    with assms OpTransition show ?thesis by (simp add: Registry_Transition_def handed_in_def map_filter_simps)
  next
    case (Some e)
    have "task_bag (e\<lparr>session := s\<rparr>) = task_bag e" for s by (simp add: task_bag_def)
    with held_put_old [OF assms Some] have "held (AList.update i (e\<lparr>session := s\<rparr>) r) = held r" for s
      by (metis add_left_cancel)
    with assms OpTransition Some show ?thesis
      by (auto simp: Registry_Transition_def handed_in_def map_filter_simps distinct_update
          split: prod.splits)
  qed
next
  case (OpRemove i)
  show ?thesis
  proof (cases "map_of r i")
    case None
    with assms OpRemove show ?thesis by (simp add: Registry_Remove_def handed_in_def map_filter_simps)
  next
    case (Some e)
    with assms OpRemove held_del [OF assms Some] show ?thesis
      by (simp add: Registry_Remove_def handed_in_def map_filter_simps task_bag_def distinct_delete
          split: option.splits)
  qed
next
  case OpAbort
  then show ?thesis
    by (simp add: AbortAll_def handed_in_def map_filter_simps held_filter) (simp add: held_def)
qed

lemma handed_in_Cons: "mset (handed_in (x # xs)) = mset (handed_in [x]) + mset (handed_in xs)"
  by (simp add: handed_in_def map_filter_simps split: option.splits)

lemma registry_run_balance:
  "distinct (map fst r) \<Longrightarrow>
   mset (fst (registry_run r xs)) + held (snd (registry_run r xs)) = mset (handed_in xs) + held r"
proof (induction xs arbitrary: r)
  case Nil
  then show ?case by (simp add: handed_in_def map_filter_simps)
next
  case (Cons x xs)
  obtain c r1 where s: "registry_step r x = (c, r1)" by (cases "registry_step r x")
  have b: "mset c + held r1 = mset (handed_in [x]) + held r" "distinct (map fst r1)"
    using registry_step_balance [OF Cons.prems, of x] s by simp_all
  have IH: "mset (fst (registry_run r1 xs)) + held (snd (registry_run r1 xs)) = mset (handed_in xs) + held r1"
    using b(2) by (rule Cons.IH)
  have "mset c + (mset (fst (registry_run r1 xs)) + held (snd (registry_run r1 xs))) =
      mset (handed_in xs) + (mset c + held r1)"
    unfolding IH by (rule add.left_commute)
  also have "\<dots> = mset (handed_in (x # xs)) + held r"
    unfolding b(1) handed_in_Cons [of x xs] by (simp only: ac_simps)
  finally show ?case by (simp add: s split_beta add.assoc)
qed

lemma registry_run_balance_new:
  "mset (fst (registry_run NewCallRegistry xs)) + held (snd (registry_run NewCallRegistry xs)) =
   mset (handed_in xs)"
  using registry_run_balance [of NewCallRegistry xs] by (simp add: NewCallRegistry_def held_def)

lemma registry_run_abort: "snd (registry_run r (xs @ [OpAbort])) = []"
  by (induction xs arbitrary: r) (simp_all add: AbortAll_def split_beta Let_def)

text \<open>C24: no media task outlives its call and none is cancelled twice: over any sequence of registry
  operations, the handles cancelled and the handles still held are together exactly the handles
  handed in, each counted once; in particular a final \<open>AbortAll\<close> leaves the registry empty with
  every handle ever handed in cancelled exactly as often as it was handed in.\<close>

theorem registry_cancels_once:
  "mset (fst (registry_run NewCallRegistry xs)) + held (snd (registry_run NewCallRegistry xs)) =
     mset (handed_in xs) \<and>
   mset (fst (registry_run NewCallRegistry (xs @ [OpAbort]))) = mset (handed_in xs) \<and>
   ActiveCount (snd (registry_run NewCallRegistry (xs @ [OpAbort]))) = 0"
proof -
  have "mset (handed_in (xs @ [OpAbort])) = mset (handed_in xs)"
    by (simp add: handed_in_def map_filter_def)
  then show ?thesis
    using registry_run_balance_new [of xs] registry_run_balance_new [of "xs @ [OpAbort]"]
    by (simp add: registry_run_abort held_def ActiveCount_def)
qed

section \<open>The registry as a map of sessions\<close>

text \<open>
  What the registry promises, abstractly: a map from call ids to sessions.  One operation answers and
  changes the map; an entry is added under a free id only, changed by its session's own \<open>TransitionTo\<close>,
  and removed alone; media tasks do not show.
\<close>

fun sessions_step :: "(string \<Rightarrow> 'j CallSession option) \<Rightarrow> ('j, 't) registry_op \<Rightarrow>
    bool \<times> (string \<Rightarrow> 'j CallSession option)" where
  "sessions_step M (OpInsert s) =
     (case M (CallID s) of None \<Rightarrow> (True, M(CallID s \<mapsto> s)) | Some _ \<Rightarrow> (False, M))"
| "sessions_step M (OpSetTask i t) = (t \<noteq> None \<or> M i \<noteq> None, M)"
| "sessions_step M (OpTransition i q) =
     (case M i of None \<Rightarrow> (False, M) | Some s \<Rightarrow> (fst (TransitionTo s q), M(i \<mapsto> snd (TransitionTo s q))))"
| "sessions_step M (OpRemove i) = (M i \<noteq> None, M(i := None))"
| "sessions_step M OpAbort = (True, Map.empty)"

text \<open>What the code answers: the boolean an operation returns, for \<open>SetMediaTask\<close> whether it returns.\<close>

fun registry_answer :: "('j, 't) CallRegistry \<Rightarrow> ('j, 't) registry_op \<Rightarrow> bool" where
  "registry_answer r (OpInsert s) = fst (Registry_Insert r s)"
| "registry_answer r (OpSetTask i t) = (SetMediaTask r i t \<noteq> None)"
| "registry_answer r (OpTransition i q) = fst (Registry_Transition r i q)"
| "registry_answer r (OpRemove i) = fst (Registry_Remove r i)"
| "registry_answer r OpAbort = True"

lemma Snapshot_put: "Snapshot (AList.update i e r) = (Snapshot r)(i \<mapsto> session e)"
  by (simp add: Snapshot_def calls_map.get_put fun_eq_iff)

lemma Snapshot_del: "Snapshot (AList.delete i r) = (Snapshot r)(i := None)"
  by (simp add: Snapshot_def calls_map.get_del fun_eq_iff)

lemma Snapshot_Nil: "Snapshot [] = Map.empty"
  by (simp add: Snapshot_def fun_eq_iff)

lemma Snapshot_step:
  "registry_answer r x = fst (sessions_step (Snapshot r) x) \<and>
   Snapshot (snd (registry_step r x)) = snd (sessions_step (Snapshot r) x)"
proof (cases x)
  case (OpSetTask i t)
  show ?thesis
    by (auto simp: OpSetTask SetMediaTask_def Snapshot_put fun_upd_idem Snapshot_def split: option.splits)
next
  case OpAbort
  then show ?thesis by (simp add: AbortAll_def Snapshot_def fun_eq_iff)
qed (auto simp: Registry_Insert_def Registry_Transition_def Registry_Remove_def Snapshot_put Snapshot_del
    fun_upd_idem Snapshot_def [of r] split: option.splits prod.splits)

lemma registry_run_distinct: "distinct (map fst r) \<Longrightarrow> distinct (map fst (snd (registry_run r xs)))"
  by (induction xs arbitrary: r) (simp_all add: registry_step_balance split_beta Let_def)

lemma Snapshot_run:
  "Snapshot (snd (registry_run r xs)) = foldl (\<lambda>M x. snd (sessions_step M x)) (Snapshot r) xs"
  by (induction xs arbitrary: r) (simp_all add: Snapshot_step split_beta Let_def)

lemma registered: "distinct (map fst r) \<Longrightarrow> ActiveCount r = card (dom (Snapshot r))"
proof -
  assume d: "distinct (map fst r)"
  have "dom (Snapshot r) = fst ` set r" by (auto simp: Snapshot_def dom_def map_of_eq_None_iff image_iff)
  then show ?thesis using distinct_card [OF d] by (simp add: ActiveCount_def)
qed

text \<open>C40: the registry refines the map of sessions: after any run of operations, those on media tasks
  included, it holds exactly the sessions of the map, so an operation touches no call but its own; the
  phase it tells of an id is that of the session held, or unknown; it counts the calls held, and the next
  operation, whichever it is, answers as the map does.\<close>

theorem registry_tracks_sessions:
  "let r = snd (registry_run NewCallRegistry xs);
       M = foldl (\<lambda>M x. snd (sessions_step M x)) Map.empty xs
   in Snapshot r = M \<and>
     (\<forall>i. Registry_Phase r i = (case M i of None \<Rightarrow> (CallPhaseIdle, False) | Some s \<Rightarrow> (phase s, True))) \<and>
     ActiveCount r = card (dom M) \<and> fst (AbortAll r) = card (dom M) \<and>
     (\<forall>x. registry_answer r x = fst (sessions_step M x))"
proof -
  let ?r = "snd (registry_run NewCallRegistry xs)" and ?M = "foldl (\<lambda>M x. snd (sessions_step M x)) Map.empty xs"
  have M: "Snapshot ?r = ?M" using Snapshot_run [of NewCallRegistry xs] by (simp add: NewCallRegistry_def Snapshot_Nil)
  have "distinct (map fst ?r)" by (rule registry_run_distinct) (simp add: NewCallRegistry_def)
  from registered [OF this] have c: "ActiveCount ?r = card (dom ?M)" "fst (AbortAll ?r) = card (dom ?M)"
    by (simp_all add: M AbortAll_def ActiveCount_def)
  have "Registry_Phase ?r i = (case ?M i of None \<Rightarrow> (CallPhaseIdle, False) | Some s \<Rightarrow> (phase s, True))" for i
    by (simp add: Registry_Phase_def Snapshot_def flip: M split: option.splits)
  moreover have "registry_answer ?r x = fst (sessions_step ?M x)" for x using Snapshot_step [of ?r x] M by simp
  ultimately show ?thesis using M c by (simp only: Let_def) blast
qed

end
