(* ===== verification/Pipeline.thy ===== *)
theory Pipeline
  imports Session E2e RtpStreams Rtcp Ssrc
begin

text \<open>
  session.go: the media pipeline.  \<open>ProtectAudio\<close> and \<open>ProtectRTP\<close> number, encrypt and tag a payload;
  \<open>UnprotectAudio\<close> takes a packet apart with the receive keys and the guessed rollover counter.  The
  counters are atomics and the trackers are used under the pipeline's lock, so an operation is one
  step of the state.  The cipher key is an array of 16 bytes, for which \<open>CryptPayload\<close> does not fail.
\<close>

record MediaPipeline =
  mpSendKeys :: E2eSrtpKeys
  mpRecvKeys :: E2eSrtpKeys
  warpMITagLen :: nat
  mpStream :: RtpStream
  mpSendRoc :: RocTracker
  mpRecvRoc :: RecvRocTracker
  packetsSent :: u32
  octetsSent :: u32
  mpRtpTimestamp :: u32

definition RekeyRecv :: "MediaPipeline \<Rightarrow> bytes \<Rightarrow> string \<Rightarrow> srtp_error + MediaPipeline" where
  "RekeyRecv p callKey peerJID =
     (case DeriveE2eKeys callKey (FormatE2ESrtpParticipantID peerJID) of
        Inl e \<Rightarrow> Inl e
      | Inr k \<Rightarrow> Inr (p\<lparr>mpRecvKeys := k, mpRecvRoc := new_RecvRocTracker\<rparr>))"

definition fresh_pipeline :: "E2eSrtpKeys \<Rightarrow> E2eSrtpKeys \<Rightarrow> u32 \<Rightarrow> u32 \<Rightarrow> MediaPipeline" where
  "fresh_pipeline sk rk ssrc samples =
     \<lparr>mpSendKeys = sk, mpRecvKeys = rk, warpMITagLen = WarpMITagLen,
      mpStream = NewRtpStream ssrc samples False, mpSendRoc = new_RocTracker,
      mpRecvRoc = new_RecvRocTracker, packetsSent = 0, octetsSent = 0, mpRtpTimestamp = 0\<rparr>"

definition NewMediaPipeline ::
    "bytes \<Rightarrow> string \<Rightarrow> string \<Rightarrow> u32 \<Rightarrow> u32 \<Rightarrow> srtp_error + MediaPipeline" where
  "NewMediaPipeline callKey selfJID peerJID ssrc samples =
     (case DeriveE2eKeys callKey (FormatE2ESrtpParticipantID selfJID) of
        Inl e \<Rightarrow> Inl e
      | Inr sk \<Rightarrow>
          (case DeriveE2eKeys callKey (FormatE2ESrtpParticipantID peerJID) of
             Inl e \<Rightarrow> Inl e
           | Inr rk \<Rightarrow> Inr (fresh_pipeline sk rk ssrc samples)))"

definition ProtectRTP :: "MediaPipeline \<Rightarrow> RtpHeader \<Rightarrow> bytes \<Rightarrow> bytes \<times> MediaPipeline" where
  "ProtectRTP p header payload =
     (let (roc, tracker) = RocTracker_Advance (mpSendRoc p) (SequenceNumber header);
          packet = EncodeRtpHeader header;
          encrypted = CryptPayload (mpSendKeys p) (Ssrc header) (SequenceNumber header) roc payload
      in (AppendWarpMITag (AuthKey (mpSendKeys p)) (packet @ encrypted) roc (warpMITagLen p),
          p\<lparr>mpSendRoc := tracker, packetsSent := packetsSent p + 1,
            octetsSent := octetsSent p + of_nat (length payload),
            mpRtpTimestamp := Timestamp header\<rparr>))"

definition ProtectAudio :: "MediaPipeline \<Rightarrow> bytes \<Rightarrow> bytes \<times> MediaPipeline" where
  "ProtectAudio p opusPayload =
     (let (header, stream) = NextPacket (mpStream p) opusPayload False;
          (roc, tracker) = RocTracker_Advance (mpSendRoc p) (SequenceNumber header);
          packet = EncodeRtpHeader header;
          encrypted = CryptPayload (mpSendKeys p) (Ssrc header) (SequenceNumber header) roc opusPayload
      in (AppendWarpMITag (AuthKey (mpSendKeys p)) (packet @ encrypted) roc (warpMITagLen p),
          p\<lparr>mpStream := stream, mpSendRoc := tracker, packetsSent := packetsSent p + 1,
            octetsSent := octetsSent p + of_nat (length opusPayload),
            mpRtpTimestamp := Timestamp header\<rparr>))"

definition SenderStats :: "MediaPipeline \<Rightarrow> RtcpSenderStats" where
  "SenderStats p = \<lparr>PacketsSent = packetsSent p, OctetsSent = octetsSent p,
     SrRtpTimestamp = mpRtpTimestamp p\<rparr>"

definition UnprotectAudio :: "MediaPipeline \<Rightarrow> bytes \<Rightarrow> (RtpHeader \<times> bytes) option \<times> MediaPipeline" where
  "UnprotectAudio p packet =
     (if length packet < 12 + warpMITagLen p then (None, p)
      else
        let withoutTag = take (length packet - warpMITagLen p) packet
        in case ParseRtpHeader withoutTag of
             None \<Rightarrow> (None, p)
           | Some header \<Rightarrow>
               (case RtpHeaderByteLength withoutTag of
                  None \<Rightarrow> (None, p)
                | Some headerLen \<Rightarrow>
                    if length withoutTag \<le> headerLen then (None, p)
                    else
                      let (roc, tracker) = GuessRoc (mpRecvRoc p) (SequenceNumber header);
                          plain = CryptPayload (mpRecvKeys p) (Ssrc header) (SequenceNumber header) roc
                            (drop headerLen withoutTag)
                      in (Some (header, plain), p\<lparr>mpRecvRoc := tracker\<rparr>)))"

section \<open>One packet\<close>

definition sealed :: "E2eSrtpKeys \<Rightarrow> RtpHeader \<Rightarrow> u32 \<Rightarrow> bytes \<Rightarrow> bytes" where
  "sealed k header roc payload =
     AppendWarpMITag (AuthKey k)
       (EncodeRtpHeader header @ CryptPayload k (Ssrc header) (SequenceNumber header) roc payload) roc 4"

text \<open>What a header is after its trip: the payload type in 7 bits and no audio extension word.\<close>

definition received_header :: "RtpHeader \<Rightarrow> RtpHeader" where
  "received_header h = h\<lparr>PayloadType := PayloadType h AND 0x7f, ExtensionWord := None\<rparr>"

lemma ParseRtpHeader_encoded: "ParseRtpHeader (EncodeRtpHeader h @ rest) = Some (received_header h)"
  using encoded_fields [of h rest]
  by (simp add: ParseRtpHeader_def RtpHeaderByteLength_encoded ParseWhatsappVideoExtension_encoded
    type_byte_marker type_byte_type received_header_def)

lemma ParseRtpHeader_sealed: "ParseRtpHeader (sealed k h roc payload) = Some (received_header h)"
  by (simp add: sealed_def AppendWarpMITag_def ParseRtpHeader_encoded)

lemma UnprotectAudio_sealed:
  assumes "payload \<noteq> []" and "warpMITagLen p = 4"
    and "GuessRoc (mpRecvRoc p) (SequenceNumber header) = (roc, tracker)"
  shows "UnprotectAudio p (sealed (mpRecvKeys p) header roc payload) =
    (Some (received_header header, payload), p\<lparr>mpRecvRoc := tracker\<rparr>)"
proof -
  let ?c = "CryptPayload (mpRecvKeys p) (Ssrc header) (SequenceNumber header) roc payload"
  let ?w = "EncodeRtpHeader header @ ?c"
  let ?s = "sealed (mpRecvKeys p) header roc payload"
  have "16 \<le> ByteSize header" using length_extension_block [of header] by simp
  then have len: "length ?s = length ?w + 4" "12 + 4 \<le> length ?s"
    by (simp_all add: sealed_def length_EncodeRtpHeader)
  have w: "take (length ?s - 4) ?s = ?w"
    unfolding len(1) by (simp add: sealed_def AppendWarpMITag_def)
  have parse: "ParseRtpHeader ?w = Some (received_header header)" by (rule ParseRtpHeader_encoded)
  have rest: "drop (ByteSize header) ?w = ?c" "\<not> length ?w \<le> ByteSize header"
    using assms(1) by (simp_all add: length_EncodeRtpHeader)
  show ?thesis
    unfolding UnprotectAudio_def assms(2) w Let_def parse RtpHeaderByteLength_encoded option.case rest
    using len(2) rest(2) assms(3) by (simp add: received_header_def)
qed

section \<open>A stream of packets, lost and reordered\<close>

text \<open>
  The contract of a protected media stream, shared by the audio and the video path: the sender maps
  the inputs so far and the next input to a packet; the receiver, having accepted packets up to index
  \<open>h\<close>, opens the packet of any index near \<open>h\<close>.  Indices count from 1, as sequence numbers do.
\<close>

locale media_channel =
  fixes protect :: "'s \<Rightarrow> 'i \<Rightarrow> 'p \<times> 's" and unprotect :: "'r \<Rightarrow> 'p \<Rightarrow> 'o option \<times> 'r"
    and sender :: "'s" and receiver :: "'r" and input_ok :: "'i \<Rightarrow> bool"
    and sent :: "'i list \<Rightarrow> 's \<Rightarrow> bool" and newest :: "nat \<Rightarrow> 'r \<Rightarrow> bool"
    and packet :: "'i list \<Rightarrow> 'i \<Rightarrow> 'p" and opened :: "'i list \<Rightarrow> 'i \<Rightarrow> 'o"
  assumes sent_start: "sent [] sender"
    and sent_step: "sent xs s \<Longrightarrow> fst (protect s x) = packet xs x \<and> sent (xs @ [x]) (snd (protect s x))"
    and open_first: "input_ok x \<Longrightarrow> length xs < 65535 \<Longrightarrow>
      fst (unprotect receiver (packet xs x)) = Some (opened xs x) \<and>
      newest (Suc (length xs)) (snd (unprotect receiver (packet xs x)))"
    and open_near: "newest h r \<Longrightarrow> input_ok x \<Longrightarrow> Suc (length xs) < h + 32768 \<Longrightarrow>
      h < Suc (length xs) + 32768 \<Longrightarrow>
      fst (unprotect r (packet xs x)) = Some (opened xs x) \<and>
      newest (max h (Suc (length xs))) (snd (unprotect r (packet xs x)))"
begin

sublocale seq: sequencer protect sender sent
  by unfold_locales (use sent_start sent_step in auto)

lemma packet_at: "k < length xs \<Longrightarrow> run protect sender xs ! k = packet (take k xs) (xs ! k)"
  using seq.nth_output [of k xs] sent_step by fastforce

lemma opens:
  assumes "list_all input_ok xs"
  shows "newest h r \<Longrightarrow> list_all (\<lambda>j. j < length xs) js \<Longrightarrow> near_newest h (map Suc js) \<Longrightarrow>
    run unprotect r (map (\<lambda>j. run protect sender xs ! j) js) =
      map (\<lambda>j. Some (opened (take j xs) (xs ! j))) js"
proof (induction js arbitrary: h r)
  case Nil
  then show ?case by simp
next
  case (Cons j js)
  let ?p = "packet (take j xs) (xs ! j)"
  have j: "j < length xs" "length (take j xs) = j" "input_ok (xs ! j)"
    using Cons.prems assms by (auto simp: list_all_length)
  have "fst (unprotect r ?p) = Some (opened (take j xs) (xs ! j))"
      "newest (max h (Suc j)) (snd (unprotect r ?p))"
    using open_near [OF Cons.prems(1) j(3), of "take j xs"] Cons.prems(3) j(2) by simp_all
  with Cons.IH [OF this(2)] Cons.prems j show ?case
    by (simp add: packet_at split_beta)
qed

theorem delivery:
  assumes "list_all input_ok xs" and "list_all (\<lambda>j. j < length xs) (j # js)"
    and "j < 65535" and "near_newest (Suc j) (map Suc js)"
  shows "run unprotect receiver (map (\<lambda>j. run protect sender xs ! j) (j # js)) =
    map (\<lambda>j. Some (opened (take j xs) (xs ! j))) (j # js)"
proof -
  let ?p = "packet (take j xs) (xs ! j)"
  have j: "j < length xs" "length (take j xs) = j" "input_ok (xs ! j)"
    using assms(1,2) by (auto simp: list_all_length)
  have "fst (unprotect receiver ?p) = Some (opened (take j xs) (xs ! j))"
      "newest (Suc j) (snd (unprotect receiver ?p))"
    using open_first [OF j(3), of "take j xs"] assms(3) j(2) by simp_all
  with opens [OF assms(1) this(2)] assms(2,4) j(1) show ?thesis
    by (simp add: packet_at split_beta)
qed

end

section \<open>Audio\<close>

definition audio_header :: "u32 \<Rightarrow> u32 \<Rightarrow> bytes list \<Rightarrow> bytes \<Rightarrow> RtpHeader" where
  "audio_header ssrc samples xs x =
     \<lparr>Marker = (speech_payload x \<and> \<not> list_ex speech_payload xs), PayloadType = 120,
      SequenceNumber = of_nat (Suc (length xs)), Timestamp = of_nat (length xs) * samples, Ssrc = ssrc,
      ExtensionWord = (if IsOpusDtxPayload x then Some 0x30010000 else None), VideoExtension = None\<rparr>"

lemma NextPacket_header:
  "audio_rep ssrc samples False xs s \<Longrightarrow> fst (NextPacket s x False) = audio_header ssrc samples xs x"
  by (auto simp: audio_rep_def NextPacket_def resolveWarpExtension_def audio_header_def
      RtpPayloadTypeOpus_def WhatsappRtpExtensionDtxWord_def speech_payload_def list_ex_iff Let_def)

definition roc_of :: "nat \<Rightarrow> u32" where
  "roc_of n = of_nat (n div 65536)"

definition audio_packet :: "E2eSrtpKeys \<Rightarrow> u32 \<Rightarrow> u32 \<Rightarrow> bytes list \<Rightarrow> bytes \<Rightarrow> bytes" where
  "audio_packet k ssrc samples xs x =
     sealed k (audio_header ssrc samples xs x) (roc_of (Suc (length xs))) x"

text \<open>A tracker after the indices 1 to n, one after the other.\<close>

definition numbered :: "nat \<Rightarrow> RocTracker \<Rightarrow> bool" where
  "numbered n t \<longleftrightarrow> (if n = 0 then t = new_RocTracker else sends_at t n)"

lemma numbered_step:
  assumes "numbered n t"
  shows "fst (RocTracker_Advance t (of_nat (Suc n))) = roc_of (Suc n) \<and>
    numbered (Suc n) (snd (RocTracker_Advance t (of_nat (Suc n))))"
  using assms first_send [of "Suc 0"] send_step [of t n "Suc n"]
  by (cases n) (simp_all add: numbered_def roc_of_def)

definition audio_sent :: "E2eSrtpKeys \<Rightarrow> u32 \<Rightarrow> u32 \<Rightarrow> bytes list \<Rightarrow> MediaPipeline \<Rightarrow> bool" where
  "audio_sent k ssrc samples xs p \<longleftrightarrow>
     mpSendKeys p = k \<and> warpMITagLen p = 4 \<and> audio_rep ssrc samples False xs (mpStream p) \<and>
     numbered (length xs) (mpSendRoc p) \<and> packetsSent p = of_nat (length xs) \<and>
     octetsSent p = of_nat (length (concat xs)) \<and>
     mpRtpTimestamp p = of_nat (length xs - 1) * samples"

definition pipeline_newest :: "E2eSrtpKeys \<Rightarrow> nat \<Rightarrow> MediaPipeline \<Rightarrow> bool" where
  "pipeline_newest k h p \<longleftrightarrow> mpRecvKeys p = k \<and> warpMITagLen p = 4 \<and> receives_at (mpRecvRoc p) h"

lemma open_sealed_near:
  assumes "pipeline_newest k h p" and "payload \<noteq> []" and "n < h + 32768" and "h < n + 32768"
    and "SequenceNumber header = of_nat n"
  shows "fst (UnprotectAudio p (sealed k header (roc_of n) payload)) = Some (received_header header, payload) \<and>
    pipeline_newest k (max h n) (snd (UnprotectAudio p (sealed k header (roc_of n) payload)))"
proof -
  obtain r t where g: "GuessRoc (mpRecvRoc p) (of_nat n) = (r, t)" by (cases "GuessRoc (mpRecvRoc p) (of_nat n)")
  have "r = roc_of n \<and> receives_at t (max h n)"
    using recv_step [of "mpRecvRoc p" h n] assms(1,3,4) g by (simp add: pipeline_newest_def roc_of_def)
  with UnprotectAudio_sealed [OF assms(2), of p header r t] g assms(1,5) show ?thesis
    by (simp add: pipeline_newest_def)
qed

text \<open>A receiver that expects its first packet under the keys \<open>k\<close>: a new pipeline, or a rekeyed one.\<close>

definition expecting :: "E2eSrtpKeys \<Rightarrow> MediaPipeline \<Rightarrow> MediaPipeline" where
  "expecting k p = p\<lparr>mpRecvKeys := k, mpRecvRoc := new_RecvRocTracker, warpMITagLen := 4\<rparr>"

lemma expecting_simps [simp]:
  "mpRecvKeys (expecting k p) = k" "mpRecvRoc (expecting k p) = new_RecvRocTracker"
  "warpMITagLen (expecting k p) = 4"
  by (simp_all add: expecting_def)

lemma expecting_fresh: "expecting k (fresh_pipeline sk k ssrc samples) = fresh_pipeline sk k ssrc samples"
  by (simp add: expecting_def fresh_pipeline_def WarpMITagLen_def)

lemma open_sealed_first:
  assumes "payload \<noteq> []" and "n < 65536" and "SequenceNumber header = of_nat n"
  shows "fst (UnprotectAudio (expecting k p) (sealed k header (roc_of n) payload)) =
      Some (received_header header, payload) \<and>
    pipeline_newest k n (snd (UnprotectAudio (expecting k p) (sealed k header (roc_of n) payload)))"
proof -
  let ?p = "expecting k p"
  obtain r t where g: "GuessRoc new_RecvRocTracker (of_nat n) = (r, t)" by (cases "GuessRoc new_RecvRocTracker (of_nat n)")
  have "r = roc_of n \<and> receives_at t n" using first_recv [OF assms(2)] g by (simp add: roc_of_def)
  with UnprotectAudio_sealed [OF assms(1), of ?p header r t] g assms(3) show ?thesis
    by (simp add: pipeline_newest_def)
qed

lemma ProtectRTP_sealed:
  assumes "mpSendKeys p = k" and "warpMITagLen p = 4" and "numbered n (mpSendRoc p)"
    and "SequenceNumber h = of_nat (Suc n)"
  shows "fst (ProtectRTP p h payload) = sealed k h (roc_of (Suc n)) payload \<and>
    mpSendKeys (snd (ProtectRTP p h payload)) = k \<and> warpMITagLen (snd (ProtectRTP p h payload)) = 4 \<and>
    numbered (Suc n) (mpSendRoc (snd (ProtectRTP p h payload)))"
proof -
  obtain r t where a: "RocTracker_Advance (mpSendRoc p) (of_nat (Suc n)) = (r, t)"
    by (cases "RocTracker_Advance (mpSendRoc p) (of_nat (Suc n))")
  have "r = roc_of (Suc n) \<and> numbered (Suc n) t" using numbered_step [OF assms(3)] a by simp
  with assms a show ?thesis by (simp add: ProtectRTP_def sealed_def del: of_nat_Suc)
qed

lemma ProtectAudio_step:
  assumes "audio_sent k ssrc samples xs p"
  shows "fst (ProtectAudio p x) = audio_packet k ssrc samples xs x \<and>
    audio_sent k ssrc samples (xs @ [x]) (snd (ProtectAudio p x))"
proof -
  obtain h s where n: "NextPacket (mpStream p) x False = (h, s)" by (cases "NextPacket (mpStream p) x False")
  have rep: "audio_rep ssrc samples False xs (mpStream p)" using assms by (simp add: audio_sent_def)
  have h: "h = audio_header ssrc samples xs x" using NextPacket_header [OF rep, of x] n by simp
  have s: "audio_rep ssrc samples False (xs @ [x]) s"
    using audio.rep_step [OF rep, of x] n by simp
  have sq: "SequenceNumber (audio_header ssrc samples xs x) = of_nat (Suc (length xs))"
      "Timestamp (audio_header ssrc samples xs x) = of_nat (length xs) * samples"
    by (simp_all add: audio_header_def)
  obtain r t where a: "RocTracker_Advance (mpSendRoc p) (of_nat (Suc (length xs))) = (r, t)"
    by (cases "RocTracker_Advance (mpSendRoc p) (of_nat (Suc (length xs)))")
  have rt: "r = roc_of (Suc (length xs)) \<and> numbered (Suc (length xs)) t"
    using numbered_step [of "length xs" "mpSendRoc p"] assms a by (simp add: audio_sent_def del: of_nat_Suc)
  show ?thesis
    using assms rt s
    by (simp add: ProtectAudio_def n sq a audio_sent_def audio_packet_def sealed_def h
        del: of_nat_Suc) (simp add: add.commute)
qed

interpretation audio_channel: media_channel ProtectAudio UnprotectAudio
    "fresh_pipeline k rk ssrc samples" "expecting k q" "\<lambda>x. x \<noteq> []"
    "audio_sent k ssrc samples" "pipeline_newest k" "audio_packet k ssrc samples"
    "\<lambda>xs x. (received_header (audio_header ssrc samples xs x), x)"
  for k rk q ssrc samples
proof unfold_locales
  show "audio_sent k ssrc samples [] (fresh_pipeline k rk ssrc samples)"
    using audio.rep_start [of ssrc samples False]
    by (simp add: audio_sent_def fresh_pipeline_def WarpMITagLen_def numbered_def)
qed (use ProtectAudio_step open_sealed_first open_sealed_near in
    \<open>auto simp: audio_packet_def audio_header_def simp del: of_nat_Suc\<close>)

lemma NewMediaPipeline_fresh:
  "NewMediaPipeline callKey a b ssrc samples = Inr p \<Longrightarrow>
   \<exists>sk rk. DeriveE2eKeys callKey (FormatE2ESrtpParticipantID a) = Inr sk \<and>
     DeriveE2eKeys callKey (FormatE2ESrtpParticipantID b) = Inr rk \<and>
     p = fresh_pipeline sk rk ssrc samples"
  by (auto simp: NewMediaPipeline_def split: sum.splits)

lemma RekeyRecv_expecting:
  assumes "RekeyRecv p callKey a = Inr q" and "warpMITagLen p = 4"
    and "DeriveE2eKeys callKey (FormatE2ESrtpParticipantID a) = Inr k"
  shows "q = expecting k p"
  using assms by (cases p) (auto simp: RekeyRecv_def expecting_def)

lemma NewMediaPipeline_total:
  "32 \<le> length callKey \<Longrightarrow> \<exists>p. NewMediaPipeline callKey a b ssrc samples = Inr p"
  using DeriveE2eKeys_total [of callKey "FormatE2ESrtpParticipantID a"]
    DeriveE2eKeys_total [of callKey "FormatE2ESrtpParticipantID b"]
  by (auto simp: NewMediaPipeline_def)

lemma call_pipeline: "\<exists>p. NewMediaPipeline (replicate 32 1) a b ssrc samples = Inr p"
  by (rule NewMediaPipeline_total) simp

text \<open>C16: the audio path delivers: when two parties set up their pipelines from one call key with swapped
  ids, every packet that reaches the receiver, whatever was lost or reordered on the way and
  however often the sequence number wraps, as long as each is less than 32768 packets away from
  the newest one received, yields the payload that was sent, under the header it was sent with.\<close>

theorem media_path_delivers:
  assumes "NewMediaPipeline callKey a b ssrc samples = Inr p"
    and "NewMediaPipeline callKey b a ssrc' samples' = Inr q"
    and "list_all (\<lambda>x. x \<noteq> []) xs" and "list_all (\<lambda>j. j < length xs) (j # js)"
    and "j < 65535" and "near_newest (Suc j) (map Suc js)"
  shows "run UnprotectAudio q (map (\<lambda>j. run ProtectAudio p xs ! j) (j # js)) =
    map (\<lambda>j. Some (received_header (audio_header ssrc samples (take j xs) (xs ! j)), xs ! j)) (j # js)"
proof -
  obtain sk rk where p: "DeriveE2eKeys callKey (FormatE2ESrtpParticipantID a) = Inr sk"
      "p = fresh_pipeline sk rk ssrc samples"
    using NewMediaPipeline_fresh [OF assms(1)] by auto
  obtain sk' where q: "q = expecting sk (fresh_pipeline sk' sk ssrc' samples')"
    using NewMediaPipeline_fresh [OF assms(2)] p(1) by (auto simp: expecting_fresh)
  show ?thesis
    unfolding p(2) q using assms(3-6) by (rule audio_channel.delivery)
qed

lemma media_path_delivers_witness:
  "\<exists>p q. NewMediaPipeline (replicate 32 1) ''1:2@lid'' ''3:4@lid'' 7 960 = Inr p \<and>
    run UnprotectAudio q (map (\<lambda>j. run ProtectAudio p [[1], [2, 2], [3]] ! j) [2, 0]) =
    map (\<lambda>j. Some (received_header (audio_header 7 960 (take j [[1], [2, 2], [3]]) ([[1], [2, 2], [3]] ! j)),
      [[1], [2, 2], [3]] ! j)) [2, 0]"
proof -
  obtain p where p: "NewMediaPipeline (replicate 32 1) ''1:2@lid'' ''3:4@lid'' 7 960 = Inr p"
    using call_pipeline by blast
  obtain q where q: "NewMediaPipeline (replicate 32 1) ''3:4@lid'' ''1:2@lid'' 8 960 = Inr q"
    using call_pipeline by blast
  show ?thesis using media_path_delivers [OF p q, of "[[1], [2, 2], [3]]" 2 "[0]"] p by auto
qed

text \<open>C27: rekeying to the device that answered: whatever the pipeline received before, after
  \<open>RekeyRecv\<close> to that device the packets of its pipeline are opened as by a fresh receiver, while
  the send side, its counters included, goes on unchanged.\<close>

theorem RekeyRecv_switches:
  assumes "RekeyRecv p callKey c = Inr q" and "warpMITagLen p = WarpMITagLen"
    and "NewMediaPipeline callKey c d ssrc samples = Inr s"
    and "list_all (\<lambda>x. x \<noteq> []) xs" and "list_all (\<lambda>j. j < length xs) (j # js)"
    and "j < 65535" and "near_newest (Suc j) (map Suc js)"
  shows "run UnprotectAudio q (map (\<lambda>j. run ProtectAudio s xs ! j) (j # js)) =
      map (\<lambda>j. Some (received_header (audio_header ssrc samples (take j xs) (xs ! j)), xs ! j)) (j # js) \<and>
    fst (ProtectAudio q x) = fst (ProtectAudio p x) \<and> SenderStats q = SenderStats p"
proof -
  obtain k rk where s: "DeriveE2eKeys callKey (FormatE2ESrtpParticipantID c) = Inr k"
      "s = fresh_pipeline k rk ssrc samples"
    using NewMediaPipeline_fresh [OF assms(3)] by auto
  have q: "q = expecting k p"
    using RekeyRecv_expecting [OF assms(1) _ s(1)] assms(2) by (simp add: WarpMITagLen_def)
  have "run UnprotectAudio q (map (\<lambda>j. run ProtectAudio s xs ! j) (j # js)) =
      map (\<lambda>j. Some (received_header (audio_header ssrc samples (take j xs) (xs ! j)), xs ! j)) (j # js)"
    unfolding q s(2) using assms(4-7) by (rule audio_channel.delivery)
  moreover have "fst (ProtectAudio q x) = fst (ProtectAudio p x) \<and> SenderStats q = SenderStats p"
    using assms(2) by (simp add: q expecting_def ProtectAudio_def SenderStats_def WarpMITagLen_def split_beta Let_def)
  ultimately show ?thesis by simp
qed

lemma RekeyRecv_switches_witness:
  "\<exists>p q s. RekeyRecv p (replicate 32 1) ''5:6@lid'' = Inr q \<and>
    NewMediaPipeline (replicate 32 1) ''5:6@lid'' ''1:2@lid'' 7 960 = Inr s \<and>
    run UnprotectAudio q (map (\<lambda>j. run ProtectAudio s [[1]] ! j) [0]) =
      map (\<lambda>j. Some (received_header (audio_header 7 960 (take j [[1]]) ([[1]] ! j)), [[1]] ! j)) [0]"
proof -
  obtain p where p: "NewMediaPipeline (replicate 32 1) ''1:2@lid'' ''3:4@lid'' 7 960 = Inr p"
    using call_pipeline by blast
  obtain s where s: "NewMediaPipeline (replicate 32 1) ''5:6@lid'' ''1:2@lid'' 7 960 = Inr s"
    using call_pipeline by blast
  obtain q where q: "RekeyRecv p (replicate 32 1) ''5:6@lid'' = Inr q"
    using DeriveE2eKeys_total [of "replicate 32 1" "FormatE2ESrtpParticipantID ''5:6@lid''"]
    by (auto simp: RekeyRecv_def)
  have "warpMITagLen p = WarpMITagLen" using NewMediaPipeline_fresh [OF p] by (auto simp: fresh_pipeline_def)
  from RekeyRecv_switches [OF q this s, of "[[1]]" 0 "[]" "[]"] q s show ?thesis by auto
qed

text \<open>The sender report counters: after any run of payloads the pipeline has counted its packets and
  their payload bytes, modulo \<open>2^32\<close>, and holds the timestamp of the last packet.\<close>

theorem SenderStats_counts:
  assumes "NewMediaPipeline callKey a b ssrc samples = Inr p"
  shows "SenderStats (after ProtectAudio p xs) =
    \<lparr>PacketsSent = of_nat (length xs), OctetsSent = of_nat (length (concat xs)),
     SrRtpTimestamp = of_nat (length xs - 1) * samples\<rparr>"
proof -
  obtain sk rk where p: "p = fresh_pipeline sk rk ssrc samples"
    using NewMediaPipeline_fresh [OF assms] by auto
  have "audio_sent sk ssrc samples xs (after ProtectAudio p xs)"
    unfolding p by (rule audio_channel.seq.rep_after)
  then show ?thesis by (simp add: SenderStats_def audio_sent_def)
qed

lemma SenderStats_counts_witness:
  "\<exists>p. SenderStats (after ProtectAudio p [[1], [2, 2]]) =
    \<lparr>PacketsSent = 2, OctetsSent = 3, SrRtpTimestamp = 960\<rparr>"
proof -
  obtain p where p: "NewMediaPipeline (replicate 32 1) ''1:2@lid'' ''3:4@lid'' 7 960 = Inr p"
    using call_pipeline by blast
  show ?thesis using SenderStats_counts [OF p, of "[[1], [2, 2]]"] by auto
qed

end
