(* ===== verification/VideoSender.thy ===== *)
theory VideoSender
  imports Pipeline H264
begin

text \<open>
  engine_media.go: the video send path.  An Annex-B access unit is stripped of its access unit
  delimiters, packed behind start codes into one NAL unit, fragmented, numbered and protected.  The
  relay channel is whether there is one; how many packets it takes before it fails is an argument of
  \<open>send\<close>.  A \<open>time.Duration\<close> is its \<open>int64\<close> nanoseconds; logging and the diagnostics recorder are left out.
\<close>

definition defaultVideoRtpStepSamples :: u32 where
  "defaultVideoRtpStepSamples = 90000 div 30"

text \<open>The arithmetic is that of \<open>int64\<close>, whose division truncates toward zero.\<close>

definition videoRtpDurationSamples :: "int \<Rightarrow> u32" where
  "videoRtpDurationSamples duration =
     (if duration \<le> 0 then defaultVideoRtpStepSamples
      else
        let n = signed_take_bit 63 (duration * 90000 + 1000000000 div 2);
            q = (if 0 \<le> n then n div 1000000000 else - ((- n) div 1000000000));
            samples = (word_of_int q :: u32)
        in if samples = 0 then defaultVideoRtpStepSamples else samples)"

record videoSender =
  vPipe :: MediaPipeline
  vStream :: VideoRtpStream
  vConnected :: bool
  vFrame :: u64
  vLogged :: bool
  vActive :: bool
  vSendGated :: bool
  vKeyframeRequired :: bool

text \<open>The sender that \<open>runMedia\<close> registers, with the call's video flags at that moment.\<close>

definition new_videoSender :: "MediaPipeline \<Rightarrow> u32 \<Rightarrow> bool \<Rightarrow> bool \<Rightarrow> videoSender" where
  "new_videoSender pipe ssrc localVideo gate =
     \<lparr>vPipe = pipe, vStream = NewVideoRtpStream ssrc defaultVideoRtpStepSamples, vConnected = True,
      vFrame = 0, vLogged = False, vActive = localVideo, vSendGated = gate, vKeyframeRequired = True\<rparr>"

fun pack_nalus :: "bytes \<Rightarrow> bytes list \<Rightarrow> bytes" where
  "pack_nalus packed [] = packed"
| "pack_nalus packed (n # ns) =
     (if n = [] \<or> n ! 0 AND 0x1f = 9 then pack_nalus packed ns
      else pack_nalus ((if packed \<noteq> [] then packed @ [0, 0, 0, 1] else packed) @ n) ns)"

text \<open>The loop over the payloads; \<open>ProtectRTP\<close> does not fail, so every payload becomes a packet.\<close>

fun protect_payloads :: "VideoRtpStream \<times> MediaPipeline \<Rightarrow> u8 \<Rightarrow> bytes list \<Rightarrow>
    bytes list \<times> VideoRtpStream \<times> MediaPipeline" where
  "protect_payloads (stream, pipe) mediaFrameInfo [] = ([], stream, pipe)"
| "protect_payloads (stream, pipe) mediaFrameInfo (payload # payloads) =
     (let (header, stream1) = VideoNextPacket stream (payloads = []) mediaFrameInfo;
          (packet, pipe1) = ProtectRTP pipe header payload;
          (packets, st) = protect_payloads (stream1, pipe1) mediaFrameInfo payloads
      in (packet # packets, st))"

definition protectAccessUnitLocked :: "videoSender \<Rightarrow> bytes \<Rightarrow> int \<Rightarrow> bytes list \<times> videoSender" where
  "protectAccessUnitLocked vs au duration =
     (if \<not> vActive vs \<or> vSendGated vs then ([], vs)
      else
        let idr = AUHasIDR au
        in if vKeyframeRequired vs \<and> \<not> idr then ([], vs)
           else
             let packedAccessUnit = pack_nalus [] (SplitAnnexB au)
             in if packedAccessUnit = [] then ([], vs)
                else
                  let payloads = PackageH264NALU packedAccessUnit;
                      stream = snd (SetTimestampStride (vStream vs) (videoRtpDurationSamples duration));
                      mediaFrameInfo = (if idr then VideoMediaFrameInfoIDR else VideoMediaFrameInfoDelta);
                      (packets, stream1, pipe1) = protect_payloads (stream, vPipe vs) mediaFrameInfo payloads
                  in (packets, vs\<lparr>vStream := stream1, vPipe := pipe1,
                        vKeyframeRequired := (if packets \<noteq> [] \<and> idr then False else vKeyframeRequired vs)\<rparr>))"

definition enable :: "videoSender \<Rightarrow> bool \<Rightarrow> videoSender" where
  "enable vs sendGated =
     (let needsRecovery = (\<not> vActive vs \<or> (vSendGated vs \<and> \<not> sendGated))
      in vs\<lparr>vActive := True, vSendGated := sendGated,
           vKeyframeRequired := (vKeyframeRequired vs \<or> needsRecovery)\<rparr>)"

definition disable :: "videoSender \<Rightarrow> videoSender" where
  "disable vs = vs\<lparr>vActive := False, vSendGated := False, vKeyframeRequired := True\<rparr>"

definition requestKeyframe :: "videoSender \<Rightarrow> videoSender" where
  "requestKeyframe vs = vs\<lparr>vKeyframeRequired := True\<rparr>"

text \<open>The packets handed to the channel, of which it takes at most \<open>capacity\<close> before it fails.\<close>

definition video_send :: "nat \<Rightarrow> videoSender \<Rightarrow> bytes \<Rightarrow> int \<Rightarrow> bytes list \<times> videoSender" where
  "video_send capacity vs au duration =
     (if au = [] then ([], vs)
      else if \<not> vConnected vs then ([], vs)
      else
        let (packets, vs1) = protectAccessUnitLocked vs au duration
        in if packets = [] then ([], vs1)
           else if capacity < length packets then (take capacity packets, vs1)
           else (packets, vs1\<lparr>vFrame := vFrame vs1 + 1, vLogged := True\<rparr>))"

section \<open>The timestamp step\<close>

lemma videoRtpDurationSamples_nonzero [simp]: "videoRtpDurationSamples d \<noteq> 0"
  by (simp add: videoRtpDurationSamples_def defaultVideoRtpStepSamples_def Let_def)

text \<open>The RTP timestamp step of a frame is its duration in 90 kHz ticks, rounded to the nearest, for
  every duration up to 13 hours, with the 30 fps step for a missing duration or one that rounds to
  zero: neither the \<open>int64\<close> product nor the \<open>uint32\<close> result wraps.\<close>

theorem videoRtpDurationSamples_rounds:
  assumes "d \<le> 47000000000000"
  shows "unat (videoRtpDurationSamples d) = (if d < 5556 then 3000 else nat ((9 * d + 50000) div 100000))"
proof (cases "d \<le> 0")
  case True
  then show ?thesis by (simp add: videoRtpDurationSamples_def defaultVideoRtpStepSamples_def)
next
  case False
  let ?q = "(9 * d + 50000) div 100000"
  have n: "signed_take_bit 63 (d * 90000 + 500000000) = d * 90000 + 500000000"
    using False assms by (intro signed_take_bit_int_eq_self) simp_all
  have q: "(d * 90000 + 500000000) div 1000000000 = ?q"
    using div_mult_mult1 [of 10000 "9 * d + 50000" 100000] by (simp add: algebra_simps)
  have b: "0 \<le> ?q" "?q < 2 ^ 32" using False assms by simp_all
  then have u: "uint (word_of_int ?q :: u32) = ?q" by (simp add: uint_word_of_int)
  have z: "?q = 0 \<longleftrightarrow> d < 5556" using False by linarith
  have w: "(word_of_int ?q :: u32) = 0 \<longleftrightarrow> ?q = 0" using u by (metis uint_0_iff)
  have v: "unat (word_of_int ?q :: u32) = nat ?q" by (simp only: unat_eq_nat_uint u)
  have step: "unat defaultVideoRtpStepSamples = 3000" by (simp add: defaultVideoRtpStepSamples_def)
  have half: "(1000000000 div 2 :: int) = 500000000" by simp
  have pos: "0 \<le> d * 90000 + 500000000" using False by simp
  have "videoRtpDurationSamples d =
      (if (word_of_int ?q :: u32) = 0 then defaultVideoRtpStepSamples else word_of_int ?q)"
    unfolding videoRtpDurationSamples_def Let_def half n q if_P [OF pos] if_not_P [OF False] ..
  also have "unat \<dots> = (if ?q = 0 then 3000 else nat ?q)"
    by (simp only: w if_distrib [of unat] step v)
  finally show ?thesis unfolding z .
qed

lemma videoRtpDurationSamples_rounds_witness: "unat (videoRtpDurationSamples 33333333) = 3000"
  using videoRtpDurationSamples_rounds [of 33333333] by simp

section \<open>The video stream as a channel\<close>

text \<open>
  One packet of the stream: whether it ends an access unit, its frame info, the duration of its unit
  and its payload.
\<close>

type_synonym video_input = "bool \<times> u8 \<times> int \<times> bytes"

fun video_step :: "VideoRtpStream \<times> MediaPipeline \<Rightarrow> video_input \<Rightarrow>
    bytes \<times> (VideoRtpStream \<times> MediaPipeline)" where
  "video_step (stream, pipe) (l, info, d, payload) =
     (let (header, stream1) = VideoNextPacket (snd (SetTimestampStride stream (videoRtpDurationSamples d))) l info;
          (packet, pipe1) = ProtectRTP pipe header payload
      in (packet, stream1, pipe1))"

definition completed :: "video_input list \<Rightarrow> video_input list" where
  "completed xs = filter fst xs"

definition video_time :: "video_input list \<Rightarrow> u32" where
  "video_time xs = sum_list (map (\<lambda>(l, info, d, payload). videoRtpDurationSamples d) (completed xs))"

definition starts_unit :: "video_input list \<Rightarrow> bool" where
  "starts_unit xs \<longleftrightarrow> xs = [] \<or> fst (last xs)"

fun video_header :: "u32 \<Rightarrow> video_input list \<Rightarrow> video_input \<Rightarrow> RtpHeader" where
  "video_header ssrc xs (l, info, d, payload) =
     \<lparr>Marker = l, PayloadType = 97, SequenceNumber = of_nat (Suc (length xs)),
      Timestamp = video_time xs, Ssrc = ssrc, ExtensionWord = None,
      VideoExtension = Some \<lparr>MediaFrameInfo = info,
        FrameNumber = (if starts_unit xs then Some (1 + of_nat (length (completed xs))) else None),
        InitialBandwidth = 0, ShortOffset = 0, TransportSequence = of_nat (length xs)\<rparr>\<rparr>"

definition video_payload :: "video_input \<Rightarrow> bytes" where
  "video_payload x = snd (snd (snd x))"

definition video_packet :: "E2eSrtpKeys \<Rightarrow> u32 \<Rightarrow> video_input list \<Rightarrow> video_input \<Rightarrow> bytes" where
  "video_packet k ssrc xs x = sealed k (video_header ssrc xs x) (roc_of (Suc (length xs))) (video_payload x)"

definition stream_sent :: "u32 \<Rightarrow> video_input list \<Rightarrow> VideoRtpStream \<Rightarrow> bool" where
  "stream_sent ssrc xs s \<longleftrightarrow>
     vsSsrc s = ssrc \<and> vsSeq s = 1 + of_nat (length xs) \<and> transportSequence s = of_nat (length xs) \<and>
     vsTimestamp s = video_time xs \<and> frameNumber s = 1 + of_nat (length (completed xs)) \<and>
     firstPacket s = starts_unit xs"

definition video_sent :: "E2eSrtpKeys \<Rightarrow> u32 \<Rightarrow> video_input list \<Rightarrow> VideoRtpStream \<times> MediaPipeline \<Rightarrow> bool" where
  "video_sent k ssrc xs st \<longleftrightarrow>
     stream_sent ssrc xs (fst st) \<and> mpSendKeys (snd st) = k \<and> warpMITagLen (snd st) = 4 \<and>
     numbered (length xs) (mpSendRoc (snd st))"

lemma VideoNextPacket_sent:
  assumes "stream_sent ssrc xs s"
  shows "fst (VideoNextPacket (snd (SetTimestampStride s (videoRtpDurationSamples d))) l info) =
      video_header ssrc xs (l, info, d, p) \<and>
    stream_sent ssrc (xs @ [(l, info, d, p)])
      (snd (VideoNextPacket (snd (SetTimestampStride s (videoRtpDurationSamples d))) l info))"
  using assms
  by (simp add: stream_sent_def SetTimestampStride_def VideoNextPacket_def Let_def RtpPayloadTypeH264_def
      video_time_def completed_def starts_unit_def add.commute)

lemma video_step_sent:
  assumes "video_sent k ssrc xs st"
  shows "fst (video_step st x) = video_packet k ssrc xs x \<and> video_sent k ssrc (xs @ [x]) (snd (video_step st x))"
proof -
  obtain s p where st: "st = (s, p)" by (cases st)
  obtain l info d pl where x: "x = (l, info, d, pl)" by (cases x)
  have s: "stream_sent ssrc xs s" using assms by (simp add: st video_sent_def)
  obtain h s1 where n: "VideoNextPacket (snd (SetTimestampStride s (videoRtpDurationSamples d))) l info = (h, s1)"
    by (cases "VideoNextPacket (snd (SetTimestampStride s (videoRtpDurationSamples d))) l info")
  have h: "h = video_header ssrc xs x" "stream_sent ssrc (xs @ [x]) s1"
    using VideoNextPacket_sent [OF s, of d l info pl] n by (simp_all add: x)
  have "SequenceNumber h = of_nat (Suc (length xs))" unfolding h(1) x by simp
  from ProtectRTP_sealed [of p k "length xs" h pl, OF _ _ _ this] assms h
  show ?thesis
    by (simp add: st n x split_beta Let_def video_sent_def video_packet_def video_payload_def)
qed

interpretation video_channel: media_channel video_step UnprotectAudio
    "(NewVideoRtpStream ssrc stride, fresh_pipeline k rk ssrc' samples)" "expecting k q"
    "\<lambda>x. video_payload x \<noteq> []" "video_sent k ssrc" "pipeline_newest k" "video_packet k ssrc"
    "\<lambda>xs x. (received_header (video_header ssrc xs x), video_payload x)"
  for k rk q ssrc ssrc' stride samples
proof unfold_locales
  show "video_sent k ssrc [] (NewVideoRtpStream ssrc stride, fresh_pipeline k rk ssrc' samples)"
    by (simp add: video_sent_def stream_sent_def NewVideoRtpStream_def fresh_pipeline_def
        WarpMITagLen_def numbered_def video_time_def completed_def starts_unit_def)
  have sq: "SequenceNumber (video_header ssrc xs x) = of_nat (Suc (length xs))" for xs x
    by (cases x) simp
  show "fst (UnprotectAudio (expecting k q) (video_packet k ssrc xs x)) =
        Some (received_header (video_header ssrc xs x), video_payload x) \<and>
      pipeline_newest k (Suc (length xs)) (snd (UnprotectAudio (expecting k q) (video_packet k ssrc xs x)))"
    if "video_payload x \<noteq> []" "length xs < 65535" for x xs
    unfolding video_packet_def using that by (intro open_sealed_first sq) simp_all
  show "fst (UnprotectAudio r (video_packet k ssrc xs x)) =
        Some (received_header (video_header ssrc xs x), video_payload x) \<and>
      pipeline_newest k (max h (Suc (length xs))) (snd (UnprotectAudio r (video_packet k ssrc xs x)))"
    if "pipeline_newest k h r" "video_payload x \<noteq> []" "Suc (length xs) < h + 32768" "h < Suc (length xs) + 32768"
    for h r x xs
    unfolding video_packet_def using that by (intro open_sealed_near sq)
qed (use video_step_sent in blast)

section \<open>Access units as runs of the channel\<close>

fun unit_inputs :: "u8 \<Rightarrow> int \<Rightarrow> bytes list \<Rightarrow> video_input list" where
  "unit_inputs info d [] = []"
| "unit_inputs info d (p # ps) = (ps = [], info, d, p) # unit_inputs info d ps"

lemma stride_VideoNextPacket [simp]: "tsStride (snd (VideoNextPacket s l i)) = tsStride s"
  by (simp add: VideoNextPacket_def Let_def)

lemma set_stride: "snd (SetTimestampStride s (videoRtpDurationSamples d)) = s\<lparr>tsStride := videoRtpDurationSamples d\<rparr>"
  by (simp add: SetTimestampStride_def)

lemma protect_payloads_run:
  "tsStride s = videoRtpDurationSamples d \<Longrightarrow>
   protect_payloads (s, p) info ps =
     (run video_step (s, p) (unit_inputs info d ps), after video_step (s, p) (unit_inputs info d ps))"
proof (induction ps arbitrary: s p)
  case Nil
  then show ?case by simp
next
  case (Cons a ps)
  have "snd (SetTimestampStride s (videoRtpDurationSamples d)) = s"
    using Cons.prems by (cases s) (simp add: set_stride)
  with Cons show ?case by (simp add: split_beta Let_def)
qed

lemma protect_unit_run:
  assumes "ps \<noteq> []"
  shows "protect_payloads (snd (SetTimestampStride s (videoRtpDurationSamples d)), p) info ps =
    (run video_step (s, p) (unit_inputs info d ps), after video_step (s, p) (unit_inputs info d ps))"
proof -
  obtain a qs where ps: "ps = a # qs" using assms by (cases ps) auto
  have "video_step (s\<lparr>tsStride := videoRtpDurationSamples d\<rparr>, p) x = video_step (s, p) x" if "x = (l, info, d, a)" for x l
    unfolding that by (simp add: set_stride)
  then show ?thesis
    unfolding set_stride ps by (subst protect_payloads_run [where d = d]) (simp_all del: video_step.simps)
qed

definition delimiter :: "bytes \<Rightarrow> bool" where
  "delimiter n \<longleftrightarrow> n ! 0 AND 0x1f = 9"

definition kept :: "bytes list \<Rightarrow> bytes list" where
  "kept ns = filter (\<lambda>n. \<not> delimiter n) ns"

lemma pack_nalus_append:
  "[] \<notin> set ns \<Longrightarrow> packed \<noteq> [] \<Longrightarrow> pack_nalus packed ns = packed @ annexb_stream (kept ns)"
  by (induction ns arbitrary: packed) (auto simp: kept_def delimiter_def)

lemma pack_nalus_stream:
  "[] \<notin> set ns \<Longrightarrow> pack_nalus [] ns = drop 4 (annexb_stream (kept ns))"
proof (induction ns)
  case Nil
  then show ?case by (simp add: kept_def)
next
  case (Cons n ns)
  then show ?case
    using pack_nalus_append [of ns n] by (auto simp: kept_def delimiter_def)
qed

text \<open>An access unit whose every NAL unit survives the trip, and what its packets carry.\<close>

definition sendable :: "bytes list \<Rightarrow> bool" where
  "sendable ns \<longleftrightarrow> list_all annexb_unit ns \<and> list_all nal_unit ns \<and> kept ns \<noteq> [] \<and>
     length (annexb_stream (kept ns)) \<le> 4194308"

definition has_idr :: "bytes list \<Rightarrow> bool" where
  "has_idr ns \<longleftrightarrow> list_ex (\<lambda>n. n ! 0 AND 0x1f = 5) ns"

definition frame_info :: "bytes list \<Rightarrow> u8" where
  "frame_info ns = (if has_idr ns then VideoMediaFrameInfoIDR else VideoMediaFrameInfoDelta)"

definition payloads_of :: "bytes list \<Rightarrow> bytes list" where
  "payloads_of ns = PackageH264NALU (drop 4 (annexb_stream (kept ns)))"

lemma PackageH264NALU_nonempty:
  assumes "n \<noteq> []"
  shows "PackageH264NALU n \<noteq> []"
proof -
  obtain h body where "n = h # body" using assms by (cases n) auto
  then show ?thesis
    by (cases "body = []") (simp_all add: PackageH264NALU_def Let_def mtuPayloadMax_def fu_fragments_Cons)
qed

lemma sendable_first:
  assumes "sendable ns"
  shows "nal_unit (drop 4 (annexb_stream (kept ns))) \<and> payloads_of ns \<noteq> []"
proof -
  obtain n ms where k: "kept ns = n # ms" using assms by (cases "kept ns") (auto simp: sendable_def)
  then have "n \<in> set ns" by (metis filter_is_subset kept_def list.set_intros(1) subsetD)
  then have n: "nal_unit n" using assms by (auto simp: sendable_def list_all_iff)
  then have "nal_unit (drop 4 (annexb_stream (kept ns)))" unfolding k by (cases n) (auto simp: nal_unit_def)
  moreover from this have "payloads_of ns \<noteq> []"
    unfolding payloads_of_def by (intro PackageH264NALU_nonempty) (simp add: nal_unit_def)
  ultimately show ?thesis ..
qed

lemma AUHasIDR_stream:
  assumes "sendable ns"
  shows "AUHasIDR (annexb_stream ns) = has_idr ns"
proof -
  have ne: "[] \<notin> set ns" and au: "list_all annexb_unit ns"
    using assms by (auto simp: sendable_def annexb_unit_def list_all_iff)
  have "list_ex (\<lambda>n. 0 < length n \<and> n ! 0 AND 0x1f = 5) ns = list_ex (\<lambda>n. n ! 0 AND 0x1f = 5) ns"
    using ne by (induction ns) auto
  then show ?thesis by (simp add: AUHasIDR_def SplitAnnexB_stream [OF au] has_idr_def)
qed

lemma protectAccessUnit_run:
  assumes "sendable ns" and "vActive vs" and "\<not> vSendGated vs" and "has_idr ns \<or> \<not> vKeyframeRequired vs"
  shows "fst (protectAccessUnitLocked vs (annexb_stream ns) d) =
      run video_step (vStream vs, vPipe vs) (unit_inputs (frame_info ns) d (payloads_of ns)) \<and>
    (vStream (snd (protectAccessUnitLocked vs (annexb_stream ns) d)),
     vPipe (snd (protectAccessUnitLocked vs (annexb_stream ns) d))) =
      after video_step (vStream vs, vPipe vs) (unit_inputs (frame_info ns) d (payloads_of ns)) \<and>
    vActive (snd (protectAccessUnitLocked vs (annexb_stream ns) d)) \<and>
    \<not> vSendGated (snd (protectAccessUnitLocked vs (annexb_stream ns) d)) \<and>
    \<not> vKeyframeRequired (snd (protectAccessUnitLocked vs (annexb_stream ns) d))"
proof -
  have ne: "[] \<notin> set ns" and au: "list_all annexb_unit ns"
    using assms by (auto simp: sendable_def annexb_unit_def list_all_iff)
  have p: "pack_nalus [] (SplitAnnexB (annexb_stream ns)) = drop 4 (annexb_stream (kept ns))"
    by (simp add: SplitAnnexB_stream [OF au] pack_nalus_stream [OF ne])
  have packed: "drop 4 (annexb_stream (kept ns)) \<noteq> []" and ps: "payloads_of ns \<noteq> []"
    using sendable_first [OF assms(1)] by (auto simp: nal_unit_def)
  let ?i = "unit_inputs (frame_info ns) d (payloads_of ns)"
  have nonempty: "run video_step (vStream vs, vPipe vs) ?i \<noteq> []"
    using ps by (cases "payloads_of ns") (simp_all add: split_beta)
  have "protectAccessUnitLocked vs (annexb_stream ns) d =
    (run video_step (vStream vs, vPipe vs) ?i,
     vs\<lparr>vStream := fst (after video_step (vStream vs, vPipe vs) ?i),
        vPipe := snd (after video_step (vStream vs, vPipe vs) ?i),
        vKeyframeRequired := (if has_idr ns then False else vKeyframeRequired vs)\<rparr>)"
    using assms(2-4) nonempty packed protect_unit_run [OF ps, of "vStream vs" d "vPipe vs" "frame_info ns"]
    unfolding protectAccessUnitLocked_def AUHasIDR_stream [OF assms(1)] p
    by (cases "has_idr ns") (simp_all add: Let_def split_beta payloads_of_def frame_info_def)
  with assms show ?thesis by auto
qed

section \<open>The keyframe gate\<close>

datatype sender_op = OpEnable bool | OpDisable | OpKeyframe | OpUnit bytes int

fun sender_step :: "videoSender \<Rightarrow> sender_op \<Rightarrow> bytes list \<times> videoSender" where
  "sender_step vs (OpEnable gated) = ([], enable vs gated)"
| "sender_step vs OpDisable = ([], disable vs)"
| "sender_step vs OpKeyframe = ([], requestKeyframe vs)"
| "sender_step vs (OpUnit au d) = protectAccessUnitLocked vs au d"

fun sender_trace :: "videoSender \<Rightarrow> sender_op list \<Rightarrow> (sender_op \<times> bytes list) list" where
  "sender_trace vs [] = []"
| "sender_trace vs (x # xs) = (case sender_step vs x of (packets, vs') \<Rightarrow> (x, packets) # sender_trace vs' xs)"

text \<open>
  What a receiver relies on, read off the trace: nothing is sent while the gate is shut (disabled, or
  enabled but waiting for the peer), and the first unit sent after the gate opens, after a disable or
  after a keyframe request carries an IDR.
\<close>

fun gate_ok :: "bool \<Rightarrow> bool \<Rightarrow> (sender_op \<times> bytes list) list \<Rightarrow> bool" where
  "gate_ok need open' [] \<longleftrightarrow> True"
| "gate_ok need open' ((OpEnable gated, packets) # r) \<longleftrightarrow>
     gate_ok (need \<or> (\<not> open' \<and> \<not> gated)) (\<not> gated) r"
| "gate_ok need open' ((OpDisable, packets) # r) \<longleftrightarrow> gate_ok True False r"
| "gate_ok need open' ((OpKeyframe, packets) # r) \<longleftrightarrow> gate_ok True open' r"
| "gate_ok need open' ((OpUnit au d, packets) # r) \<longleftrightarrow>
     (if packets = [] then gate_ok need open' r
      else open' \<and> (\<not> need \<or> AUHasIDR au) \<and> gate_ok False open' r)"

lemma protectAccessUnit_gate:
  assumes "protectAccessUnitLocked vs au d = (packets, vs')"
  shows "vActive vs' = vActive vs \<and> vSendGated vs' = vSendGated vs \<and>
    (packets = [] \<longrightarrow> vKeyframeRequired vs' = vKeyframeRequired vs) \<and>
    (packets \<noteq> [] \<longrightarrow> vActive vs \<and> \<not> vSendGated vs \<and> (vKeyframeRequired vs \<longrightarrow> AUHasIDR au))"
  using assms by (auto simp: protectAccessUnitLocked_def Let_def split: if_splits prod.splits)

lemma gate_ok_trace:
  "(need \<longrightarrow> vKeyframeRequired vs) \<Longrightarrow>
   gate_ok need (vActive vs \<and> \<not> vSendGated vs) (sender_trace vs xs)"
proof (induction xs arbitrary: vs need)
  case Nil
  then show ?case by simp
next
  case (Cons x xs)
  show ?case
  proof (cases x)
    case (OpEnable gated)
    then show ?thesis
      using Cons.prems
        Cons.IH [of "need \<or> (\<not> (vActive vs \<and> \<not> vSendGated vs) \<and> \<not> gated)" "enable vs gated"]
      by (auto simp: enable_def Let_def)
  next
    case OpDisable
    then show ?thesis using Cons.IH [of True "disable vs"] by (simp add: disable_def)
  next
    case OpKeyframe
    then show ?thesis using Cons.IH [of True "requestKeyframe vs"] by (simp add: requestKeyframe_def)
  next
    case (OpUnit au d)
    obtain ps vs' where p: "protectAccessUnitLocked vs au d = (ps, vs')"
      by (cases "protectAccessUnitLocked vs au d")
    show ?thesis
      using Cons.prems Cons.IH [of need vs'] Cons.IH [of False vs'] protectAccessUnit_gate [OF p]
      by (auto simp: OpUnit p)
  qed
qed

text \<open>C23: the keyframe gate: over any sequence of enabling (gated or not), disabling, keyframe requests
  and access units, the sender emits packets only while it is enabled and not gated, and the first
  unit it emits after the gate opens, after a disable or after a keyframe request has an IDR.\<close>

theorem video_keyframe_first:
  "gate_ok (vKeyframeRequired vs) (vActive vs \<and> \<not> vSendGated vs) (sender_trace vs xs)"
  by (rule gate_ok_trace) simp_all

text \<open>
  A unit the channel refuses still counts as sent: when the channel fails on the first packet of an
  IDR, the keyframe requirement is gone although no packet left.
\<close>

lemma refused_keyframe_counts:
  assumes "sendable ns" and "has_idr ns" and "vActive vs" and "\<not> vSendGated vs" and "vConnected vs"
  shows "fst (video_send 0 vs (annexb_stream ns) d) = [] \<and>
    \<not> vKeyframeRequired (snd (video_send 0 vs (annexb_stream ns) d))"
proof -
  let ?r = "protectAccessUnitLocked vs (annexb_stream ns) d"
  have "annexb_stream ns \<noteq> []" using assms(1) by (cases ns) (auto simp: sendable_def kept_def)
  moreover have "fst ?r \<noteq> []" "\<not> vKeyframeRequired (snd ?r)"
    using protectAccessUnit_run [OF assms(1,3,4), of d] assms(2) sendable_first [OF assms(1)]
    by (cases "payloads_of ns"; auto simp: split_beta)+
  ultimately show ?thesis using assms(5) by (auto simp: video_send_def split_beta Let_def)
qed

section \<open>A run of access units\<close>

fun protect_all :: "videoSender \<Rightarrow> (bytes \<times> int) list \<Rightarrow> bytes list \<times> videoSender" where
  "protect_all vs [] = ([], vs)"
| "protect_all vs ((au, d) # r) =
     (let (ps, vs1) = protectAccessUnitLocked vs au d; (qs, vs2) = protect_all vs1 r in (ps @ qs, vs2))"

definition unit_stream :: "(bytes list \<times> int) list \<Rightarrow> video_input list" where
  "unit_stream us = concat (map (\<lambda>(ns, d). unit_inputs (frame_info ns) d (payloads_of ns)) us)"

definition encoded_units :: "(bytes list \<times> int) list \<Rightarrow> (bytes \<times> int) list" where
  "encoded_units us = map (\<lambda>(ns, d). (annexb_stream ns, d)) us"

lemma protect_all_run:
  "list_all (\<lambda>(ns, d). sendable ns) us \<Longrightarrow> vActive vs \<Longrightarrow> \<not> vSendGated vs \<Longrightarrow>
   us = [] \<or> has_idr (fst (hd us)) \<or> \<not> vKeyframeRequired vs \<Longrightarrow>
   fst (protect_all vs (encoded_units us)) = run video_step (vStream vs, vPipe vs) (unit_stream us)"
proof (induction us arbitrary: vs)
  case Nil
  then show ?case by (simp add: encoded_units_def unit_stream_def)
next
  case (Cons u us)
  obtain ns d where u: "u = (ns, d)" by (cases u)
  let ?r = "protectAccessUnitLocked vs (annexb_stream ns) d"
  note r = protectAccessUnit_run [of ns vs d]
  have "fst (protect_all (snd ?r) (encoded_units us)) =
      run video_step (vStream (snd ?r), vPipe (snd ?r)) (unit_stream us)"
    using Cons.IH [of "snd ?r"] Cons.prems r by (simp add: u)
  with r Cons.prems show ?case
    by (simp add: u encoded_units_def unit_stream_def split_beta Let_def run_append)
qed

lemma unit_inputs_payloads: "map video_payload (unit_inputs info d ps) = ps"
  by (induction ps) (simp_all add: video_payload_def)

lemma unit_stream_ok:
  "list_all (\<lambda>x. video_payload x \<noteq> []) (unit_stream us)"
proof -
  have "p \<noteq> []" if "p \<in> set (payloads_of ns)" for p ns
    using PackageH264NALU_sizes that by (fastforce simp: payloads_of_def list_all_iff)
  then have "x \<in> set (unit_inputs info d (payloads_of ns)) \<Longrightarrow> video_payload x \<noteq> []" for x info d ns
    using unit_inputs_payloads [of info d "payloads_of ns"] by (metis imageI list.set_map)
  then show ?thesis by (auto simp: list_all_iff unit_stream_def)
qed

end
