(* ===== verification/AppData.thy ===== *)
theory AppData
  imports Pipeline
begin

text \<open>
  appdata.go: emoji reactions over the call's RTC app-data stream.  The protobuf wire format is the
  package \<open>protowire\<close>, which is not part of the repository: its functions are the fields of a record
  that every definition using them takes as an argument, and \<open>wf_protowire\<close> states the documented
  behaviour that the properties rely on.  A Go string is its bytes.  The decoding loops could run
  forever on a consumer that consumes nothing, so they are partial functions, \<open>None\<close> for not
  returning; \<open>decode_returns\<close> shows that they return.
\<close>

record protowire =
  AppendTag :: "bytes \<Rightarrow> int \<Rightarrow> nat \<Rightarrow> bytes"
  AppendVarint :: "bytes \<Rightarrow> u64 \<Rightarrow> bytes"
  AppendBytes :: "bytes \<Rightarrow> bytes \<Rightarrow> bytes"
  AppendString :: "bytes \<Rightarrow> bytes \<Rightarrow> bytes"
  ConsumeTag :: "bytes \<Rightarrow> int \<times> nat \<times> int"
  ConsumeVarint :: "bytes \<Rightarrow> u64 \<times> int"
  ConsumeBytes :: "bytes \<Rightarrow> bytes \<times> int"
  ConsumeFieldValue :: "int \<Rightarrow> nat \<Rightarrow> bytes \<Rightarrow> int"

definition VarintType :: nat where "VarintType = 0"
definition BytesType :: nat where "BytesType = 2"

definition appDataRetransmitCount :: nat where "appDataRetransmitCount = 10"
definition appDataTimestampStep :: u32 where "appDataTimestampStep = 50"

datatype app_error = ParseError int | ReactionNotUtf8 | ReactionNoTransactionID
  | AppDataUnavailable | SendReactionFailed

record appDataReaction =
  transactionID :: u64
  emoji :: bytes

text \<open>\<open>utf8.Valid\<close>: the second byte's range and the number of bytes after it, by the first byte.\<close>

definition utf8_lead :: "u8 \<Rightarrow> (u8 \<times> u8 \<times> nat) option" where
  "utf8_lead b =
     (if 0xC2 \<le> b \<and> b \<le> 0xDF then Some (0x80, 0xBF, 0)
      else if b = 0xE0 then Some (0xA0, 0xBF, 1)
      else if b = 0xED then Some (0x80, 0x9F, 1)
      else if 0xE1 \<le> b \<and> b \<le> 0xEF then Some (0x80, 0xBF, 1)
      else if b = 0xF0 then Some (0x90, 0xBF, 2)
      else if 0xF1 \<le> b \<and> b \<le> 0xF3 then Some (0x80, 0xBF, 2)
      else if b = 0xF4 then Some (0x80, 0x8F, 2)
      else None)"

function utf8_valid :: "bytes \<Rightarrow> bool" where
  "utf8_valid [] \<longleftrightarrow> True"
| "utf8_valid (b # bs) \<longleftrightarrow>
     (if b < 0x80 then utf8_valid bs
      else case utf8_lead b of
        None \<Rightarrow> False
      | Some (lo, hi, n) \<Rightarrow>
          Suc n \<le> length bs \<and> lo \<le> bs ! 0 \<and> bs ! 0 \<le> hi \<and>
          list_all (\<lambda>c. 0x80 \<le> c \<and> c \<le> 0xBF) (take n (drop 1 bs)) \<and> utf8_valid (drop (Suc n) bs))"
  by pat_completeness auto
termination by (relation "measure length") auto

definition encodeAppDataReaction :: "protowire \<Rightarrow> u64 \<Rightarrow> bytes \<Rightarrow> bytes" where
  "encodeAppDataReaction pw tid e =
     (let r1 = AppendTag pw [] 1 VarintType; r2 = AppendVarint pw r1 tid;
          r3 = AppendTag pw r2 2 BytesType; reaction = AppendString pw r3 e;
          message = AppendBytes pw (AppendTag pw [] 1 BytesType) reaction
      in AppendBytes pw (AppendTag pw [] 1 BytesType) message)"

partial_function (option) reaction_info_loop ::
    "protowire \<Rightarrow> appDataReaction \<Rightarrow> bytes \<Rightarrow> (app_error + appDataReaction) option" where
  "reaction_info_loop pw reaction message =
     (if message = [] then Some (Inr reaction)
      else
        case ConsumeTag pw message of
          (num, typ, n) \<Rightarrow>
            if n < 0 then Some (Inl (ParseError n))
            else
              let message1 = drop (nat n) message
              in if num = 1 \<and> typ = VarintType then
                   (case ConsumeVarint pw message1 of
                      (v, m) \<Rightarrow>
                        if m < 0 then Some (Inl (ParseError m))
                        else reaction_info_loop pw (reaction\<lparr>transactionID := v\<rparr>) (drop (nat m) message1))
                 else if num = 2 \<and> typ = BytesType then
                   (case ConsumeBytes pw message1 of
                      (raw, m) \<Rightarrow>
                        if m < 0 then Some (Inl (ParseError m))
                        else if \<not> utf8_valid raw then Some (Inl ReactionNotUtf8)
                        else reaction_info_loop pw (reaction\<lparr>emoji := raw\<rparr>) (drop (nat m) message1))
                 else
                   let m = ConsumeFieldValue pw num typ message1
                   in if m < 0 then Some (Inl (ParseError m))
                      else reaction_info_loop pw reaction (drop (nat m) message1))"

definition decodeReactionInfo :: "protowire \<Rightarrow> bytes \<Rightarrow> (app_error + appDataReaction) option" where
  "decodeReactionInfo pw message =
     (case reaction_info_loop pw \<lparr>transactionID = 0, emoji = []\<rparr> message of
        None \<Rightarrow> None
      | Some (Inl e) \<Rightarrow> Some (Inl e)
      | Some (Inr reaction) \<Rightarrow>
          if transactionID reaction = 0 then Some (Inl ReactionNoTransactionID) else Some (Inr reaction))"

text \<open>The boolean result is whether there was a reaction.\<close>

partial_function (option) decodeAppDataMessage ::
    "protowire \<Rightarrow> bytes \<Rightarrow> (app_error + appDataReaction option) option" where
  "decodeAppDataMessage pw message =
     (if message = [] then Some (Inr None)
      else
        case ConsumeTag pw message of
          (num, typ, n) \<Rightarrow>
            if n < 0 then Some (Inl (ParseError n))
            else
              let message1 = drop (nat n) message
              in if num = 1 \<and> typ = BytesType then
                   (case ConsumeBytes pw message1 of
                      (reaction, m) \<Rightarrow>
                        if m < 0 then Some (Inl (ParseError m))
                        else
                          case decodeReactionInfo pw reaction of
                            None \<Rightarrow> None
                          | Some (Inl e) \<Rightarrow> Some (Inl e)
                          | Some (Inr r) \<Rightarrow> Some (Inr (Some r)))
                 else
                   let m = ConsumeFieldValue pw num typ message1
                   in if m < 0 then Some (Inl (ParseError m))
                      else decodeAppDataMessage pw (drop (nat m) message1))"

partial_function (option) decode_reactions_loop ::
    "protowire \<Rightarrow> appDataReaction list \<Rightarrow> bytes \<Rightarrow> (app_error + appDataReaction list) option" where
  "decode_reactions_loop pw reactions payload =
     (if payload = [] then Some (Inr reactions)
      else
        case ConsumeTag pw payload of
          (num, typ, n) \<Rightarrow>
            if n < 0 then Some (Inl (ParseError n))
            else
              let payload1 = drop (nat n) payload
              in if num = 1 \<and> typ = BytesType then
                   (case ConsumeBytes pw payload1 of
                      (message, m) \<Rightarrow>
                        if m < 0 then Some (Inl (ParseError m))
                        else
                          case decodeAppDataMessage pw message of
                            None \<Rightarrow> None
                          | Some (Inl e) \<Rightarrow> Some (Inl e)
                          | Some (Inr None) \<Rightarrow> decode_reactions_loop pw reactions (drop (nat m) payload1)
                          | Some (Inr (Some r)) \<Rightarrow>
                              decode_reactions_loop pw (reactions @ [r]) (drop (nat m) payload1))
                 else
                   let m = ConsumeFieldValue pw num typ payload1
                   in if m < 0 then Some (Inl (ParseError m))
                      else decode_reactions_loop pw reactions (drop (nat m) payload1))"

definition decodeAppDataReactions :: "protowire \<Rightarrow> bytes \<Rightarrow> (app_error + appDataReaction list) option" where
  "decodeAppDataReactions pw payload = decode_reactions_loop pw [] payload"

section \<open>The receiver\<close>

record appDataReceiver =
  lastTransactionID :: u64

fun first_new :: "u64 \<Rightarrow> appDataReaction list \<Rightarrow> appDataReaction option" where
  "first_new l [] = None"
| "first_new l (r # rs) = (if transactionID r \<le> l then first_new l rs else Some r)"

definition app_receive :: "protowire \<Rightarrow> appDataReceiver \<Rightarrow> bytes \<Rightarrow>
    ((app_error + appDataReaction option) \<times> appDataReceiver) option" where
  "app_receive pw r payload =
     (case decodeAppDataReactions pw payload of
        None \<Rightarrow> None
      | Some (Inl e) \<Rightarrow> Some (Inl e, r)
      | Some (Inr reactions) \<Rightarrow>
          (case first_new (lastTransactionID r) reactions of
             None \<Rightarrow> Some (Inr None, r)
           | Some x \<Rightarrow> Some (Inr (Some x), r\<lparr>lastTransactionID := transactionID x\<rparr>)))"

record 'j CallReaction =
  Emoji :: bytes
  Sender :: 'j
  Removed :: bool

text \<open>The reaction handed to the listener, if any; without a call there is none.\<close>

definition handleAppDataReaction :: "protowire \<Rightarrow> 'j option \<Rightarrow> appDataReceiver \<Rightarrow> bytes \<Rightarrow>
    ((app_error + 'j CallReaction option) \<times> appDataReceiver) option" where
  "handleAppDataReaction pw call receiver payload =
     (case app_receive pw receiver payload of
        None \<Rightarrow> None
      | Some (Inl e, r) \<Rightarrow> Some (Inl e, r)
      | Some (Inr None, r) \<Rightarrow> Some (Inr None, r)
      | Some (Inr (Some x), r) \<Rightarrow>
          (case call of
             None \<Rightarrow> Some (Inr None, r)
           | Some peer \<Rightarrow>
               Some (Inr (Some \<lparr>Emoji = emoji x, Sender = peer, Removed = (emoji x = [])\<rparr>), r)))"

section \<open>The sender\<close>

record appDataSender =
  asPipe :: "MediaPipeline option"
  asSsrc :: u32
  asOpen :: bool
  asSequence :: u16
  asTimestamp :: u32
  asTransaction :: u64

definition newAppDataSender :: "MediaPipeline \<Rightarrow> u32 \<Rightarrow> appDataSender" where
  "newAppDataSender pipe ssrc = \<lparr>asPipe = Some pipe, asSsrc = ssrc, asOpen = True,
     asSequence = 0, asTimestamp = 0, asTransaction = 0\<rparr>"

definition app_header :: "u32 \<Rightarrow> u16 \<Rightarrow> u32 \<Rightarrow> RtpHeader" where
  "app_header ssrc seq ts = \<lparr>Marker = False, PayloadType = RtpPayloadTypeAppData, SequenceNumber = seq,
     Timestamp = ts, Ssrc = ssrc, ExtensionWord = None, VideoExtension = None\<rparr>"

text \<open>
  The retransmission loop with \<open>n\<close> rounds left; the channel takes \<open>capacity\<close> packets before it fails.
  The pauses between the packets are left out.
\<close>

fun retransmit :: "nat \<Rightarrow> nat \<Rightarrow> u32 \<Rightarrow> u16 \<times> u32 \<times> MediaPipeline \<Rightarrow> bytes \<Rightarrow>
    (app_error + unit) \<times> bytes list \<times> (u16 \<times> u32 \<times> MediaPipeline)" where
  "retransmit 0 capacity ssrc st payload = (Inr (), [], st)"
| "retransmit (Suc n) capacity ssrc (seq, ts, pipe) payload =
     (let seq1 = seq + 1; ts1 = ts + appDataTimestampStep;
          (packet, pipe1) = ProtectRTP pipe (app_header ssrc seq1 ts1) payload
      in case capacity of
           0 \<Rightarrow> (Inl SendReactionFailed, [], (seq1, ts1, pipe1))
         | Suc c \<Rightarrow>
             (let (r, packets, st) = retransmit n c ssrc (seq1, ts1, pipe1) payload
              in (r, packet # packets, st)))"

definition sendReaction :: "protowire \<Rightarrow> nat \<Rightarrow> appDataSender \<Rightarrow> bytes \<Rightarrow>
    (app_error + unit) \<times> bytes list \<times> appDataSender" where
  "sendReaction pw capacity s e =
     (if \<not> utf8_valid e then (Inl ReactionNotUtf8, [], s)
      else
        case asPipe s of
          None \<Rightarrow> (Inl AppDataUnavailable, [], s)
        | Some pipe \<Rightarrow>
            if \<not> asOpen s then (Inl AppDataUnavailable, [], s)
            else
              let tid = asTransaction s + 1;
                  (r, packets, seq, ts, pipe1) =
                    retransmit appDataRetransmitCount capacity (asSsrc s)
                      (asSequence s, asTimestamp s, pipe) (encodeAppDataReaction pw tid e)
              in (r, packets, s\<lparr>asTransaction := tid, asSequence := seq, asTimestamp := ts,
                   asPipe := Some pipe1\<rparr>))"

definition app_close :: "appDataSender \<Rightarrow> appDataSender" where
  "app_close s = s\<lparr>asOpen := False\<rparr>"

datatype mediaPayloadKind = mediaPayloadUnknown | mediaPayloadAudio | mediaPayloadVideo | mediaPayloadAppData

definition classifyMediaPayload :: "RtpHeader \<Rightarrow> mediaPayloadKind" where
  "classifyMediaPayload header =
     (if PayloadType header = RtpPayloadTypeAppData then mediaPayloadAppData
      else if PayloadType header = RtpPayloadTypeH264 then mediaPayloadVideo
      else if IsWhatsappOpusRtpPayload (PayloadType header) then mediaPayloadAudio
      else mediaPayloadUnknown)"

section \<open>What is documented of the wire format\<close>

definition wire_tag :: "int \<Rightarrow> nat \<Rightarrow> bool" where
  "wire_tag num typ \<longleftrightarrow> 1 \<le> num \<and> num < 536870912 \<and> typ \<le> 5"

text \<open>
  The \<open>Append\<close> functions extend the buffer; a consumer reads back what was appended, whatever follows,
  and otherwise reports an error as a negative length; it never consumes more than there is, and a tag
  has at least one byte.
\<close>

definition wf_protowire :: "protowire \<Rightarrow> bool" where
  "wf_protowire pw \<longleftrightarrow>
     (\<forall>b num typ. AppendTag pw b num typ = b @ AppendTag pw [] num typ) \<and>
     (\<forall>b v. AppendVarint pw b v = b @ AppendVarint pw [] v) \<and>
     (\<forall>b v. AppendBytes pw b v = b @ AppendBytes pw [] v) \<and>
     (\<forall>b v. AppendString pw b v = AppendBytes pw b v) \<and>
     (\<forall>num typ. wire_tag num typ \<longrightarrow> AppendTag pw [] num typ \<noteq> [] \<and> length (AppendTag pw [] num typ) \<le> 10) \<and>
     (\<forall>v. length (AppendVarint pw [] v) \<le> 10) \<and>
     (\<forall>v. AppendBytes pw [] v \<noteq> [] \<and> length (AppendBytes pw [] v) \<le> 10 + length v) \<and>
     (\<forall>num typ r. wire_tag num typ \<longrightarrow>
        ConsumeTag pw (AppendTag pw [] num typ @ r) = (num, typ, int (length (AppendTag pw [] num typ)))) \<and>
     (\<forall>v r. ConsumeVarint pw (AppendVarint pw [] v @ r) = (v, int (length (AppendVarint pw [] v)))) \<and>
     (\<forall>v r. length v < 2 ^ 63 \<longrightarrow>
        ConsumeBytes pw (AppendBytes pw [] v @ r) = (v, int (length (AppendBytes pw [] v)))) \<and>
     (\<forall>b. snd (snd (ConsumeTag pw b)) \<noteq> 0)"

lemma wire_append:
  assumes "wf_protowire pw"
  shows "AppendTag pw b num typ = b @ AppendTag pw [] num typ"
    "AppendVarint pw b v = b @ AppendVarint pw [] v" "AppendBytes pw b e = b @ AppendBytes pw [] e"
    "AppendString pw b e = b @ AppendBytes pw [] e"
  using assms unfolding wf_protowire_def by metis+

lemma wire_consume:
  assumes "wf_protowire pw"
  shows "wire_tag num typ \<Longrightarrow>
      ConsumeTag pw (AppendTag pw [] num typ @ r) = (num, typ, int (length (AppendTag pw [] num typ)))"
    "ConsumeVarint pw (AppendVarint pw [] v @ r) = (v, int (length (AppendVarint pw [] v)))"
    "length e < 2 ^ 63 \<Longrightarrow> ConsumeBytes pw (AppendBytes pw [] e @ r) = (e, int (length (AppendBytes pw [] e)))"
  using assms unfolding wf_protowire_def by blast+

lemma wire_size:
  assumes "wf_protowire pw"
  shows "wire_tag num typ \<Longrightarrow> AppendTag pw [] num typ \<noteq> []"
    "wire_tag num typ \<Longrightarrow> length (AppendTag pw [] num typ) \<le> 10"
    "length (AppendVarint pw [] v) \<le> 10" "length (AppendBytes pw [] e) \<le> 10 + length e"
    "snd (snd (ConsumeTag pw b)) \<noteq> 0"
  using assms unfolding wf_protowire_def by blast+

lemma wire_tags [simp]: "wire_tag 1 0" "wire_tag 1 2" "wire_tag 2 2"
  by (simp_all add: wire_tag_def)

lemma consumed_length [simp]: "drop (length a) (a @ b) = b"
  by simp

definition reaction_wire :: "protowire \<Rightarrow> u64 \<Rightarrow> bytes \<Rightarrow> bytes" where
  "reaction_wire pw t e =
     AppendTag pw [] 1 0 @ AppendVarint pw [] t @ AppendTag pw [] 2 2 @ AppendBytes pw [] e"

lemma encode_wire:
  assumes "wf_protowire pw"
  shows "encodeAppDataReaction pw t e =
    AppendTag pw [] 1 2 @ AppendBytes pw [] (AppendTag pw [] 1 2 @ AppendBytes pw [] (reaction_wire pw t e))"
  unfolding encodeAppDataReaction_def Let_def VarintType_def BytesType_def reaction_wire_def
  by (simp only: wire_append(3,4) [OF assms, of "AppendTag pw _ _ _"] wire_append [OF assms, of "_ @ _"]
      wire_append(2) [OF assms, of "AppendTag pw _ _ _"] append_assoc)

lemma reaction_info_wire:
  assumes wf: "wf_protowire pw" and "utf8_valid e" and "length e < 2 ^ 32" and "t \<noteq> 0"
  shows "decodeReactionInfo pw (reaction_wire pw t e) = Some (Inr \<lparr>transactionID = t, emoji = e\<rparr>)"
proof -
  let ?rest = "AppendTag pw [] 2 2 @ AppendBytes pw [] e"
  have e: "length e < 2 ^ 63" using assms(3) by simp
  have "reaction_info_loop pw r (reaction_wire pw t e) =
      reaction_info_loop pw (r\<lparr>transactionID := t\<rparr>) ?rest" for r
    unfolding reaction_wire_def
    by (subst reaction_info_loop.simps)
      (simp add: wire_size [OF wf] wire_consume [OF wf] VarintType_def Let_def)
  moreover have "reaction_info_loop pw r ?rest = reaction_info_loop pw (r\<lparr>emoji := e\<rparr>) []" for r
    using wire_consume(3) [OF wf e, of "[]"] assms(2)
    by (subst reaction_info_loop.simps)
      (simp add: wire_size [OF wf] wire_consume(1,2) [OF wf] VarintType_def BytesType_def Let_def)
  moreover have "reaction_info_loop pw r [] = Some (Inr r)" for r
    by (subst reaction_info_loop.simps) simp
  ultimately show ?thesis using assms(4) by (simp add: decodeReactionInfo_def)
qed

lemma decode_encoded:
  assumes wf: "wf_protowire pw" and "utf8_valid e" and "length e < 2 ^ 32" and "t \<noteq> 0"
  shows "decodeAppDataReactions pw (encodeAppDataReaction pw t e) =
    Some (Inr [\<lparr>transactionID = t, emoji = e\<rparr>])"
proof -
  let ?w = "reaction_wire pw t e"
  let ?m = "AppendTag pw [] 1 2 @ AppendBytes pw [] ?w"
  have "length ?w \<le> 40 + length e"
    using wire_size(2) [OF wf wire_tags(1)] wire_size(2) [OF wf wire_tags(3)] wire_size(3) [OF wf, of t]
      wire_size(4) [OF wf, of e] by (simp add: reaction_wire_def)
  then have w: "length ?w < 2 ^ 63" using assms(3) by simp
  have "length ?m \<le> 60 + length e"
    using wire_size(2) [OF wf wire_tags(2)] wire_size(4) [OF wf, of ?w] \<open>length ?w \<le> 40 + length e\<close> by simp
  then have m: "length ?m < 2 ^ 63" using assms(3) by simp
  have msg: "decodeAppDataMessage pw ?m = Some (Inr (Some \<lparr>transactionID = t, emoji = e\<rparr>))"
    using wire_consume(3) [OF wf w, of "[]"] reaction_info_wire [OF assms]
    by (subst decodeAppDataMessage.simps)
      (simp add: wire_size [OF wf] wire_consume(1) [OF wf] BytesType_def Let_def)
  have "decode_reactions_loop pw rs [] = Some (Inr rs)" for rs
    by (subst decode_reactions_loop.simps) simp
  then show ?thesis
    using wire_consume(3) [OF wf m, of "[]"] msg
    unfolding decodeAppDataReactions_def encode_wire [OF wf]
    by (subst decode_reactions_loop.simps)
      (simp add: wire_size [OF wf] wire_consume(1) [OF wf] BytesType_def Let_def)
qed

text \<open>The decoders return on every input.\<close>

lemma drop_tag_shorter:
  assumes "wf_protowire pw" and "ConsumeTag pw b = (num, typ, n)" and "\<not> n < 0" and "b \<noteq> []"
  shows "length (drop m (drop (nat n) b)) < length b"
  using wire_size(5) [OF assms(1), of b] assms(2-4) by (cases b) auto

lemma reaction_info_loop_returns:
  assumes "wf_protowire pw"
  shows "reaction_info_loop pw r b \<noteq> None"
proof (induction "length b" arbitrary: b r rule: less_induct)
  case less
  show ?case
  proof (cases "b = []")
    case False
    obtain num ty n where t: "ConsumeTag pw b = (num, ty, n)" by (cases "ConsumeTag pw b") auto
    show ?thesis
    proof (cases "n < 0")
      case neg: False
      have "reaction_info_loop pw r' (drop m (drop (nat n) b)) \<noteq> None" for r' m
        using less drop_tag_shorter [OF assms t neg False] by blast
      then show ?thesis
        using False t by (subst reaction_info_loop.simps) (simp add: Let_def split_beta)
    qed (use t in \<open>subst reaction_info_loop.simps, simp\<close>)
  qed (subst reaction_info_loop.simps, simp)
qed

lemma decodeReactionInfo_returns: "wf_protowire pw \<Longrightarrow> decodeReactionInfo pw b \<noteq> None"
  using reaction_info_loop_returns [of pw "\<lparr>transactionID = 0, emoji = []\<rparr>" b]
  by (auto simp: decodeReactionInfo_def split: option.splits sum.splits)

lemma decodeAppDataMessage_returns:
  assumes "wf_protowire pw"
  shows "decodeAppDataMessage pw b \<noteq> None"
proof (induction "length b" arbitrary: b rule: less_induct)
  case less
  show ?case
  proof (cases "b = []")
    case False
    obtain num ty n where t: "ConsumeTag pw b = (num, ty, n)" by (cases "ConsumeTag pw b") auto
    show ?thesis
    proof (cases "n < 0")
      case neg: False
      have "decodeAppDataMessage pw (drop m (drop (nat n) b)) \<noteq> None" for m
        using less drop_tag_shorter [OF assms t neg False] by blast
      then show ?thesis
        using False t decodeReactionInfo_returns [OF assms, of "fst (ConsumeBytes pw (drop (nat n) b))"]
        by (subst decodeAppDataMessage.simps) (auto simp: Let_def split_beta split: option.splits sum.splits)
    qed (use t in \<open>subst decodeAppDataMessage.simps, simp\<close>)
  qed (subst decodeAppDataMessage.simps, simp)
qed

lemma decode_reactions_loop_returns:
  assumes "wf_protowire pw"
  shows "decode_reactions_loop pw rs b \<noteq> None"
proof (induction "length b" arbitrary: b rs rule: less_induct)
  case less
  show ?case
  proof (cases "b = []")
    case False
    obtain num ty n where t: "ConsumeTag pw b = (num, ty, n)" by (cases "ConsumeTag pw b") auto
    show ?thesis
    proof (cases "n < 0")
      case neg: False
      have "decode_reactions_loop pw rs' (drop m (drop (nat n) b)) \<noteq> None" for m rs'
        using less drop_tag_shorter [OF assms t neg False] by blast
      then show ?thesis
        using False t decodeAppDataMessage_returns [OF assms, of "fst (ConsumeBytes pw (drop (nat n) b))"]
        by (subst decode_reactions_loop.simps) (auto simp: Let_def split_beta split: option.splits sum.splits)
    qed (use t in \<open>subst decode_reactions_loop.simps, simp\<close>)
  qed (subst decode_reactions_loop.simps, simp)
qed

section \<open>The app-data stream as a channel\<close>

fun app_step :: "u32 \<Rightarrow> u16 \<times> u32 \<times> MediaPipeline \<Rightarrow> bytes \<Rightarrow> bytes \<times> (u16 \<times> u32 \<times> MediaPipeline)" where
  "app_step ssrc (seq, ts, pipe) payload =
     (let (packet, pipe1) = ProtectRTP pipe (app_header ssrc (seq + 1) (ts + 50)) payload
      in (packet, seq + 1, ts + 50, pipe1))"

lemma retransmit_run:
  "n \<le> capacity \<Longrightarrow> retransmit n capacity ssrc st payload =
    (Inr (), run (app_step ssrc) st (replicate n payload), after (app_step ssrc) st (replicate n payload))"
proof (induction n arbitrary: capacity st)
  case 0
  then show ?case by simp
next
  case (Suc n)
  obtain c where c: "capacity = Suc c" "n \<le> c" using Suc.prems by (cases capacity) auto
  obtain seq ts pipe where st: "st = (seq, ts, pipe)" by (cases st) auto
  show ?case
    by (simp add: st c(1) appDataTimestampStep_def split_beta Let_def Suc.IH [OF c(2)])
qed

definition app_packet :: "E2eSrtpKeys \<Rightarrow> u32 \<Rightarrow> bytes list \<Rightarrow> bytes \<Rightarrow> bytes" where
  "app_packet k ssrc xs x =
     sealed k (app_header ssrc (of_nat (Suc (length xs))) (of_nat (Suc (length xs)) * 50))
       (roc_of (Suc (length xs))) x"

definition app_sent :: "E2eSrtpKeys \<Rightarrow> bytes list \<Rightarrow> u16 \<times> u32 \<times> MediaPipeline \<Rightarrow> bool" where
  "app_sent k xs st \<longleftrightarrow>
     fst st = of_nat (length xs) \<and> fst (snd st) = of_nat (length xs) * 50 \<and>
     mpSendKeys (snd (snd st)) = k \<and> warpMITagLen (snd (snd st)) = 4 \<and>
     numbered (length xs) (mpSendRoc (snd (snd st)))"

lemma app_step_sent:
  assumes "app_sent k xs st"
  shows "fst (app_step ssrc st x) = app_packet k ssrc xs x \<and> app_sent k (xs @ [x]) (snd (app_step ssrc st x))"
proof -
  obtain seq ts p where st: "st = (seq, ts, p)" by (cases st) auto
  have h: "app_header ssrc (seq + 1) (ts + 50) =
      app_header ssrc (of_nat (Suc (length xs))) (of_nat (Suc (length xs)) * 50)"
    using assms by (simp add: st app_sent_def algebra_simps)
  show ?thesis
    using ProtectRTP_sealed [of p k "length xs" "app_header ssrc (seq + 1) (ts + 50)" x] assms
    unfolding st app_step.simps h
    by (simp add: app_sent_def app_packet_def app_header_def split_beta Let_def algebra_simps)
qed

interpretation app_channel: media_channel "app_step ssrc" UnprotectAudio
    "(0, 0, fresh_pipeline k rk ssrc' samples)" "expecting k q" "\<lambda>x. x \<noteq> []"
    "app_sent k" "pipeline_newest k" "app_packet k ssrc"
    "\<lambda>xs x. (received_header (app_header ssrc (of_nat (Suc (length xs))) (of_nat (Suc (length xs)) * 50)), x)"
  for k rk q ssrc ssrc' samples
proof unfold_locales
  show "app_sent k [] (0, 0, fresh_pipeline k rk ssrc' samples)"
    by (simp add: app_sent_def fresh_pipeline_def WarpMITagLen_def numbered_def)
qed (use app_step_sent open_sealed_first open_sealed_near in
    \<open>auto simp: app_packet_def app_header_def simp del: of_nat_Suc\<close>)

section \<open>Reactions arrive once\<close>

text \<open>The app-data branch of the receive loop, and a run of it; \<open>None\<close> would be a decoder that does not
  return.\<close>

definition app_data_in :: "protowire \<Rightarrow> 'j \<Rightarrow> u32 \<Rightarrow> MediaPipeline \<times> appDataReceiver \<Rightarrow> bytes \<Rightarrow>
    ('j CallReaction option \<times> (MediaPipeline \<times> appDataReceiver)) option" where
  "app_data_in pw peer wantSsrc st pkt =
     (case ParseRtpHeader pkt of
        None \<Rightarrow> Some (None, st)
      | Some vh \<Rightarrow>
          if classifyMediaPayload vh \<noteq> mediaPayloadAppData \<or> Ssrc vh \<noteq> wantSsrc then Some (None, st)
          else
            case UnprotectAudio (fst st) pkt of
              (None, rx) \<Rightarrow> Some (None, rx, snd st)
            | (Some (hdr, payload), rx) \<Rightarrow>
                (case handleAppDataReaction pw (Some peer) (snd st) payload of
                   None \<Rightarrow> None
                 | Some (Inl e, r) \<Rightarrow> Some (None, rx, r)
                 | Some (Inr x, r) \<Rightarrow> Some (x, rx, r)))"

fun app_data_run :: "protowire \<Rightarrow> 'j \<Rightarrow> u32 \<Rightarrow> MediaPipeline \<times> appDataReceiver \<Rightarrow> bytes list \<Rightarrow>
    'j CallReaction list option" where
  "app_data_run pw peer ssrc st [] = Some []"
| "app_data_run pw peer ssrc st (p # ps) =
     (case app_data_in pw peer ssrc st p of
        None \<Rightarrow> None
      | Some (x, st') \<Rightarrow>
          (case app_data_run pw peer ssrc st' ps of
             None \<Rightarrow> None
           | Some xs \<Rightarrow> Some (case x of None \<Rightarrow> xs | Some r \<Rightarrow> r # xs)))"

fun send_reactions :: "protowire \<Rightarrow> appDataSender \<Rightarrow> bytes list \<Rightarrow> bytes list" where
  "send_reactions pw s [] = []"
| "send_reactions pw s (e # es) =
     (case sendReaction pw appDataRetransmitCount s e of (r, ps, s') \<Rightarrow> ps @ send_reactions pw s' es)"

definition reaction_payloads :: "protowire \<Rightarrow> nat \<Rightarrow> bytes list \<Rightarrow> bytes list" where
  "reaction_payloads pw n es =
     concat (map (\<lambda>(i, e). replicate 10 (encodeAppDataReaction pw (of_nat (Suc i)) e)) (enumerate n es))"

lemma send_reactions_run:
  "list_all utf8_valid es \<Longrightarrow>
   send_reactions pw \<lparr>asPipe = Some p, asSsrc = ssrc, asOpen = True, asSequence = seq,
     asTimestamp = ts, asTransaction = of_nat n\<rparr> es =
   run (app_step ssrc) (seq, ts, p) (reaction_payloads pw n es)"
proof (induction es arbitrary: p seq ts n)
  case Nil
  then show ?case by (simp add: reaction_payloads_def)
next
  case (Cons e es)
  let ?x = "encodeAppDataReaction pw (of_nat (Suc n)) e"
  obtain seq' ts' p' where a: "after (app_step ssrc) (seq, ts, p) (replicate 10 ?x) = (seq', ts', p')"
    by (cases "after (app_step ssrc) (seq, ts, p) (replicate 10 ?x)") auto
  have "sendReaction pw 10 \<lparr>asPipe = Some p, asSsrc = ssrc, asOpen = True, asSequence = seq,
      asTimestamp = ts, asTransaction = of_nat n\<rparr> e =
    (Inr (), run (app_step ssrc) (seq, ts, p) (replicate 10 ?x),
     \<lparr>asPipe = Some p', asSsrc = ssrc, asOpen = True, asSequence = seq', asTimestamp = ts',
      asTransaction = of_nat (Suc n)\<rparr>)"
    using Cons.prems a retransmit_run [of 10 10 ssrc "(seq, ts, p)" ?x]
    by (simp add: sendReaction_def appDataRetransmitCount_def Let_def add.commute del: of_nat_Suc)
      (simp add: add.commute)
  with Cons.IH [of p' seq' ts' "Suc n"] Cons.prems a show ?case
    by (simp add: reaction_payloads_def appDataRetransmitCount_def run_append del: of_nat_Suc)
qed

lemma nth_concat_replicate:
  "j < c * length xs \<Longrightarrow> concat (map (\<lambda>x. replicate c (f x)) xs) ! j = f (xs ! (j div c))"
proof (induction xs arbitrary: j)
  case Nil
  then show ?case by simp
next
  case (Cons x xs)
  have c: "0 < c" using Cons.prems by (cases c) auto
  show ?case
  proof (cases "j < c")
    case True
    then show ?thesis by (simp add: nth_append)
  next
    case False
    then have "j div c = Suc ((j - c) div c)" using c by (simp add: le_div_geq)
    with False Cons.IH [of "j - c"] Cons.prems show ?thesis by (simp add: nth_append)
  qed
qed

lemma length_concat_replicate: "length (concat (map (\<lambda>x. replicate c (f x)) xs)) = c * length xs"
  by (induction xs) simp_all

lemma reaction_payloads_nth:
  assumes "j < 10 * length es"
  shows "reaction_payloads pw 0 es ! j = encodeAppDataReaction pw (of_nat (Suc (j div 10))) (es ! (j div 10))"
proof -
  let ?f = "\<lambda>(i, e). encodeAppDataReaction pw (of_nat (Suc i)) e"
  have "reaction_payloads pw 0 es = concat (map (\<lambda>x. replicate 10 (?f x)) (enumerate 0 es))"
    by (simp add: reaction_payloads_def split_def)
  also have "\<dots> ! j = ?f (enumerate 0 es ! (j div 10))"
    using assms by (intro nth_concat_replicate) simp
  also have "\<dots> = encodeAppDataReaction pw (of_nat (Suc (j div 10))) (es ! (j div 10))"
    using assms by (simp add: nth_enumerate_eq less_mult_imp_div_less)
  finally show ?thesis .
qed

lemma length_reaction_payloads: "length (reaction_payloads pw n es) = 10 * length es"
  using length_concat_replicate [of 10 "\<lambda>(i, e). encodeAppDataReaction pw (of_nat (Suc i)) e" "enumerate n es"]
  by (simp add: reaction_payloads_def split_def)

text \<open>The indices that exceed all before them, from a bound on.\<close>

fun record_highs :: "nat \<Rightarrow> nat list \<Rightarrow> nat list" where
  "record_highs b [] = []"
| "record_highs b (i # js) = (if i < b then record_highs b js else i # record_highs (Suc i) js)"

text \<open>An index is told exactly when it occurs before every larger one.\<close>

lemma record_highs_bounded: "i \<in> set (record_highs b js) \<Longrightarrow> b \<le> i"
  by (induction b js rule: record_highs.induct) (auto split: if_splits)

lemma record_highs_sorted: "sorted_wrt (<) (record_highs b js)"
  by (induction b js rule: record_highs.induct) (auto dest: record_highs_bounded)

lemma record_highs_iff:
  "i \<in> set (record_highs b js) \<longleftrightarrow> b \<le> i \<and> (\<exists>before after. js = before @ i # after \<and> list_all (\<lambda>j. j \<le> i) before)"
proof (induction b js rule: record_highs.induct)
  case (2 b j js)
  have split: "(\<exists>before after. j # js = before @ i # after \<and> list_all (\<lambda>j. j \<le> i) before) \<longleftrightarrow>
      i = j \<or> j \<le> i \<and> (\<exists>before after. js = before @ i # after \<and> list_all (\<lambda>j. j \<le> i) before)"
    (is "?l \<longleftrightarrow> ?r")
  proof
    assume ?l
    then show ?r by (auto simp: Cons_eq_append_conv)
  next
    assume ?r
    then show ?l
    proof (elim disjE conjE exE)
      fix before after assume *: "j \<le> i" "js = before @ i # after" "list_all (\<lambda>j. j \<le> i) before"
      then show ?l by (intro exI [of _ "j # before"] exI [of _ after]) simp
    qed (auto intro: exI [of _ "[]"])
  qed
  show ?case using 2 unfolding split by (auto dest: record_highs_bounded)
qed simp

definition reaction_at :: "'j \<Rightarrow> bytes list \<Rightarrow> nat \<Rightarrow> 'j CallReaction" where
  "reaction_at peer es i = \<lparr>Emoji = es ! i, Sender = peer, Removed = (es ! i = [])\<rparr>"

definition reactions_ok :: "bytes list \<Rightarrow> bool" where
  "reactions_ok es \<longleftrightarrow> list_all (\<lambda>e. utf8_valid e \<and> length e < 2 ^ 32) es \<and> length es < 2 ^ 64"

lemma u64_le: "a < 2 ^ 64 \<Longrightarrow> b < 2 ^ 64 \<Longrightarrow> (of_nat a :: u64) \<le> of_nat b \<longleftrightarrow> a \<le> b"
  by (simp only: word_le_nat_alt unat_of_nat) simp

lemma u64_zero: "a < 2 ^ 64 \<Longrightarrow> (of_nat a :: u64) = 0 \<longleftrightarrow> a = 0"
  by (simp only: word_unat_eq_iff unat_of_nat) simp

lemma handle_encoded:
  assumes "wf_protowire pw" and "reactions_ok es" and "i < length es" and "b \<le> length es"
  shows "handleAppDataReaction pw (Some peer) \<lparr>lastTransactionID = of_nat b\<rparr>
      (encodeAppDataReaction pw (of_nat (Suc i)) (es ! i)) =
    (if i < b then Some (Inr None, \<lparr>lastTransactionID = of_nat b\<rparr>)
     else Some (Inr (Some (reaction_at peer es i)), \<lparr>lastTransactionID = of_nat (Suc i)\<rparr>))"
proof -
  have e: "utf8_valid (es ! i)" "length (es ! i) < 2 ^ 32" "length es < 2 ^ 64"
    using assms(2,3) by (auto simp: reactions_ok_def list_all_length)
  then have b: "Suc i < 2 ^ 64" "b < 2 ^ 64" using assms(3,4) by linarith+
  then have t: "(of_nat (Suc i) :: u64) \<noteq> 0" "(of_nat (Suc i) :: u64) \<le> of_nat b \<longleftrightarrow> i < b"
    using u64_zero [of "Suc i"] u64_le [of "Suc i" b] by (simp_all add: Suc_le_eq del: of_nat_Suc)
  show ?thesis
    using decode_encoded [OF assms(1) e(1,2) t(1)] t(2)
    by (simp add: handleAppDataReaction_def app_receive_def reaction_at_def del: of_nat_Suc)
qed

lemma app_data_run_payloads:
  assumes "wf_protowire pw" and "reactions_ok es"
  shows "run UnprotectAudio q ps =
      map (\<lambda>j. Some (hdr j, encodeAppDataReaction pw (of_nat (Suc (g j))) (es ! g j))) js \<Longrightarrow>
    list_all (\<lambda>p. \<exists>h. ParseRtpHeader p = Some h \<and> classifyMediaPayload h = mediaPayloadAppData \<and> Ssrc h = ssrc) ps \<Longrightarrow>
    list_all (\<lambda>j. g j < length es) js \<Longrightarrow> b \<le> length es \<Longrightarrow>
    app_data_run pw peer ssrc (q, \<lparr>lastTransactionID = of_nat b\<rparr>) ps =
      Some (map (reaction_at peer es) (record_highs b (map g js)))"
proof (induction ps arbitrary: q b js)
  case Nil
  then show ?case by simp
next
  case (Cons p ps)
  obtain j js' where js: "js = j # js'" using Cons.prems(1) by (cases js) (auto simp: split_beta)
  obtain q' where u: "UnprotectAudio q p =
      (Some (hdr j, encodeAppDataReaction pw (of_nat (Suc (g j))) (es ! g j)), q')"
    and r: "run UnprotectAudio q' ps =
      map (\<lambda>j. Some (hdr j, encodeAppDataReaction pw (of_nat (Suc (g j))) (es ! g j))) js'"
    using Cons.prems(1) js by (cases "UnprotectAudio q p") auto
  have IH: "app_data_run pw peer ssrc (q', \<lparr>lastTransactionID = of_nat b'\<rparr>) ps =
      Some (map (reaction_at peer es) (record_highs b' (map g js')))" if "b' \<le> length es" for b'
    using Cons.IH [OF r _ _ that] Cons.prems(2,3) js by simp
  have j: "g j < length es" using Cons.prems(3) js by simp
  show ?case
    using Cons.prems(2) u IH [OF Cons.prems(4)] IH [of "Suc (g j)"] j js
      handle_encoded [OF assms j Cons.prems(4), of peer]
    by (auto simp: app_data_in_def simp del: of_nat_Suc)
qed

lemma app_packet_header:
  "\<exists>h. ParseRtpHeader (app_packet k ssrc xs x) = Some h \<and>
    classifyMediaPayload h = mediaPayloadAppData \<and> Ssrc h = ssrc"
  by (simp add: app_packet_def ParseRtpHeader_sealed received_header_def app_header_def
      classifyMediaPayload_def RtpPayloadTypeAppData_def del: of_nat_Suc)

lemma reaction_payloads_ok:
  assumes "wf_protowire pw"
  shows "list_all (\<lambda>x. x \<noteq> []) (reaction_payloads pw n es)"
  using wire_size(1) [OF assms wire_tags(2)]
  by (auto simp: reaction_payloads_def list_all_iff encode_wire [OF assms])

text \<open>C17: each of a run of reactions is sent in ten packets, with a fresh transaction id.  Whichever packets
  arrive and in whatever order, as long as each is less than 32768 packets away from the newest, the
  peer's listener is told a reaction exactly when one of its copies arrives before every copy of a later
  reaction: never twice and in the order they were sent.  A reaction of which no copy arrives, or which a
  later one overtakes, is not told; if no packet overtakes one of a later reaction, every reaction with a
  copy that arrives is.\<close>

theorem reactions_delivered_once:
  assumes wf: "wf_protowire pw" and es: "reactions_ok es"
    and p: "NewMediaPipeline callKey a b ssrc samples = Inr p"
    and q: "NewMediaPipeline callKey b a ssrc' samples' = Inr q"
    and js: "list_all (\<lambda>j. j < 10 * length es) (j # js)" "j < 65535" "near_newest (Suc j) (map Suc js)"
  shows "\<exists>told. app_data_run pw peer ssrc (q, \<lparr>lastTransactionID = 0\<rparr>)
      (map (\<lambda>j. send_reactions pw (newAppDataSender p ssrc) es ! j) (j # js)) = Some (map (reaction_at peer es) told) \<and>
    sorted_wrt (<) told \<and>
    (\<forall>i. i \<in> set told \<longleftrightarrow> (\<exists>before after. map (\<lambda>j. j div 10) (j # js) = before @ i # after \<and>
      list_all (\<lambda>k. k \<le> i) before)) \<and>
    (sorted (map (\<lambda>j. j div 10) (j # js)) \<longrightarrow> set told = set (map (\<lambda>j. j div 10) (j # js)))"
proof -
  obtain sk rk where k: "DeriveE2eKeys callKey (FormatE2ESrtpParticipantID a) = Inr sk"
      "p = fresh_pipeline sk rk ssrc samples"
    using NewMediaPipeline_fresh [OF p] by auto
  obtain sk' where q': "q = expecting sk (fresh_pipeline sk' sk ssrc' samples')"
    using NewMediaPipeline_fresh [OF q] k(1) by (auto simp: expecting_fresh)
  let ?xs = "reaction_payloads pw 0 es"
  let ?ps = "map (\<lambda>j. run (app_step ssrc) (0, 0, p) ?xs ! j) (j # js)"
  have len: "length ?xs = 10 * length es" by (rule length_reaction_payloads)
  have sent: "send_reactions pw (newAppDataSender p ssrc) es = run (app_step ssrc) (0, 0, p) ?xs"
    using send_reactions_run [of es pw p ssrc 0 0 0] es
    by (simp add: newAppDataSender_def reactions_ok_def list_all_iff)
  let ?hdr = "\<lambda>j. received_header (app_header ssrc (of_nat (Suc (length (take j ?xs))))
    (of_nat (Suc (length (take j ?xs))) * 50))"
  have "run UnprotectAudio q ?ps = map (\<lambda>j. Some (?hdr j, ?xs ! j)) (j # js)"
    unfolding q' k(2) using reaction_payloads_ok [OF wf] js len by (intro app_channel.delivery) simp_all
  also have "\<dots> = map (\<lambda>j. Some (?hdr j,
      encodeAppDataReaction pw (of_nat (Suc (j div 10))) (es ! (j div 10)))) (j # js)"
    using js(1) by (intro map_cong refl) (auto simp: reaction_payloads_nth list_all_iff simp del: of_nat_Suc)
  finally have outs: "run UnprotectAudio q ?ps = map (\<lambda>j. Some (?hdr j,
      encodeAppDataReaction pw (of_nat (Suc (j div 10))) (es ! (j div 10)))) (j # js)" .
  have at: "run (app_step ssrc) (0, 0, p) ?xs ! j = app_packet sk ssrc (take j ?xs) (?xs ! j)"
    if "j < 10 * length es" for j
    unfolding k(2) using that len by (intro app_channel.packet_at) simp
  have hdr: "list_all (\<lambda>p. \<exists>h. ParseRtpHeader p = Some h \<and>
      classifyMediaPayload h = mediaPayloadAppData \<and> Ssrc h = ssrc) ?ps"
    using js(1) app_packet_header by (auto simp: list_all_iff at)
  have small: "list_all (\<lambda>j. j div 10 < length es) (j # js)"
    using js(1) by (auto simp: list_all_iff div_less_iff_less_mult mult.commute)
  let ?is = "map (\<lambda>j. j div 10) (j # js)"
  have "app_data_run pw peer ssrc (q, \<lparr>lastTransactionID = 0\<rparr>) ?ps = Some (map (reaction_at peer es) (record_highs 0 ?is))"
    using app_data_run_payloads [OF wf es outs hdr small, of 0 peer] by simp
  moreover have iff: "i \<in> set (record_highs 0 ?is) \<longleftrightarrow> (\<exists>before after. ?is = before @ i # after \<and> list_all (\<lambda>k. k \<le> i) before)"
    for i unfolding record_highs_iff by simp
  moreover have "set (record_highs 0 ?is) = set ?is" if "sorted ?is"
    using that unfolding set_eq_iff iff by (auto simp only: in_set_conv_decomp sorted_append list_all_iff) fastforce
  ultimately show ?thesis unfolding sent using record_highs_sorted by blast
qed

section \<open>The wire format written out\<close>

text \<open>The varint, length-delimited and fixed-size fields of the protobuf encoding; groups are refused.\<close>

definition consume_varint :: "bytes \<Rightarrow> u64 \<times> int" where
  "consume_varint b = (let (v, n) = uvarint b in if n \<le> 0 then (0, -1) else (v, n))"

definition consume_tag :: "bytes \<Rightarrow> int \<times> nat \<times> int" where
  "consume_tag b =
     (let (v, n) = consume_varint b; num = unat v div 8
      in if n < 0 then (0, 0, n)
         else if num < 1 \<or> 536870912 \<le> num then (0, 0, -2) else (int num, unat v mod 8, n))"

definition consume_bytes :: "bytes \<Rightarrow> bytes \<times> int" where
  "consume_bytes b =
     (let (v, n) = consume_varint b; r = drop (nat n) b
      in if n < 0 then ([], n) else if length r < unat v then ([], -1) else (take (unat v) r, n + int (unat v)))"

definition consume_field :: "int \<Rightarrow> nat \<Rightarrow> bytes \<Rightarrow> int" where
  "consume_field num ty b =
     (if ty = 0 then snd (consume_varint b)
      else if ty = 1 then (if length b < 8 then -1 else 8)
      else if ty = 2 then snd (consume_bytes b)
      else if ty = 5 then (if length b < 4 then -1 else 4)
      else -3)"

definition wire :: protowire where
  "wire = \<lparr>AppendTag = \<lambda>b num ty. b @ append_uvarint (of_nat (8 * nat num + ty)),
     AppendVarint = \<lambda>b v. b @ append_uvarint v,
     AppendBytes = \<lambda>b v. b @ append_uvarint (of_nat (length v)) @ v,
     AppendString = \<lambda>b v. b @ append_uvarint (of_nat (length v)) @ v,
     ConsumeTag = consume_tag, ConsumeVarint = consume_varint, ConsumeBytes = consume_bytes,
     ConsumeFieldValue = consume_field\<rparr>"

lemma consume_varint_append: "consume_varint (append_uvarint v @ r) = (v, int (length (append_uvarint v)))"
  by (simp add: consume_varint_def not_le)

lemma consume_tag_append:
  assumes "wire_tag num ty"
  shows "consume_tag (append_uvarint (of_nat (8 * nat num + ty)) @ r) =
    (num, ty, int (length (append_uvarint (of_nat (8 * nat num + ty)))))"
proof -
  have t: "1 \<le> num" "num < 536870912" "ty \<le> 5" using assms by (simp_all add: wire_tag_def)
  then have "8 * nat num + ty < 2 ^ 64" by simp
  then have u: "unat (of_nat (8 * nat num + ty) :: u64) = 8 * nat num + ty"
    by (simp only: unat_of_nat) simp
  have d: "(8 * nat num + ty) div 8 = nat num" "(8 * nat num + ty) mod 8 = ty" using t(3) by simp_all
  show ?thesis
    using t unfolding consume_tag_def consume_varint_append Let_def split u d by simp
qed

lemma consume_bytes_append:
  assumes "length v < 2 ^ 63"
  shows "consume_bytes (append_uvarint (of_nat (length v)) @ v @ r) =
    (v, int (length (append_uvarint (of_nat (length v)) @ v)))"
proof -
  have "length v < 2 ^ 64" using assms by simp
  then have u: "unat (of_nat (length v) :: u64) = length v" by (simp only: unat_of_nat) simp
  show ?thesis
    unfolding consume_bytes_def consume_varint_append Let_def split u by simp
qed

lemma wf_wire: "wf_protowire wire"
proof -
  have "snd (snd (consume_tag b)) \<noteq> 0" for b
    by (auto simp: consume_tag_def consume_varint_def Let_def split_beta)
  then show ?thesis
    unfolding wf_protowire_def
    by (simp add: wire_def consume_tag_append consume_varint_append consume_bytes_append
        length_append_uvarint_le_10 del: of_nat_add of_nat_mult)
qed

lemma reactions_delivered_once_witness:
  "\<exists>p q told. app_data_run wire ''peer'' 5 (q, \<lparr>lastTransactionID = 0\<rparr>)
      (map (\<lambda>j. send_reactions wire (newAppDataSender p 5) [[0xF0, 0x9F, 0x91, 0x8D], []] ! j) [3, 1, 12, 19]) =
    Some (map (reaction_at ''peer'' [[0xF0, 0x9F, 0x91, 0x8D], []]) told) \<and> sorted_wrt (<) told \<and> set told = {0, 1}"
proof -
  obtain p where p: "NewMediaPipeline (replicate 32 1) ''1:2@lid'' ''3:4@lid'' 5 960 = Inr p"
    using call_pipeline by blast
  obtain q where q: "NewMediaPipeline (replicate 32 1) ''3:4@lid'' ''1:2@lid'' 6 960 = Inr q"
    using call_pipeline by blast
  have ok: "reactions_ok [[0xF0, 0x9F, 0x91, 0x8D], []]"
    by (simp add: reactions_ok_def utf8_lead_def)
  have is': "map (\<lambda>j. j div 10) [3, 1, 12, 19 :: nat] = [0, 0, 1, 1]" by simp
  have s: "sorted [0, 0, 1, 1 :: nat]" "set [0, 0, 1, 1 :: nat] = {0, 1}" by auto
  show ?thesis
    using reactions_delivered_once [OF wf_wire ok p q, of 3 "[1, 12, 19]" "''peer''"] unfolding is'
    by (simp only: s) fastforce
qed

text \<open>Malformed app data cannot hang or crash the call: whatever bytes arrive, decoding returns, with
  an error or a list of reactions.\<close>

theorem decode_returns:
  assumes "wf_protowire pw"
  shows "decodeAppDataReactions pw payload \<noteq> None"
  using decode_reactions_loop_returns [OF assms] by (simp add: decodeAppDataReactions_def)

lemma decode_returns_witness: "decodeAppDataReactions wire [0x0A, 0xFF] \<noteq> None"
  by (rule decode_returns) (rule wf_wire)

end
