(* ===== verification/MediaLoop.thy ===== *)
theory MediaLoop
  imports VideoSender AppData Relay
begin

text \<open>
  engine_media.go: the SRTCP ends of a call and the receive loop of \<open>runMedia\<close>, one packet at a time.
  What a packet makes the loop do outside its own state is a list of effects: a packet for the relay,
  a keyframe wanted from the sender or the call's encoder, an RTP payload for the MLow decoder and
  playout, a frame or an orientation for the video sink, a reaction for the listener, the call
  becoming active.  Logging, diagnostics counters, and the failure of a send are left out.
\<close>

section \<open>SRTCP ends\<close>

definition newMediaSrtcpReceiver :: "bytes \<Rightarrow> string \<Rightarrow> srtp_error + E2eSrtpKeys" where
  "newMediaSrtcpReceiver callKey peerLID = DeriveE2eSrtcpKeys callKey (FormatE2ESrtpParticipantID peerLID)"

definition receiver_rekey :: "E2eSrtpKeys \<Rightarrow> bytes \<Rightarrow> string \<Rightarrow> srtp_error option \<times> E2eSrtpKeys" where
  "receiver_rekey keys callKey peerLID =
     (case DeriveE2eSrtcpKeys callKey (FormatE2ESrtpParticipantID peerLID) of
        Inl e \<Rightarrow> (Some e, keys)
      | Inr k \<Rightarrow> (None, k))"

record mediaSrtcpSender =
  msKeys :: E2eSrtpKeys
  msSsrc :: u32
  msCname :: bytes
  msProfile :: bool
  msIndex :: u32

definition newMediaSrtcpSender ::
    "bytes \<Rightarrow> bytes \<Rightarrow> string \<Rightarrow> u32 \<Rightarrow> bool \<Rightarrow> srtp_error + mediaSrtcpSender" where
  "newMediaSrtcpSender entropy callKey selfLID ssrc profile =
     (case DeriveE2eSrtcpKeys callKey (FormatE2ESrtpParticipantID selfLID) of
        Inl e \<Rightarrow> Inl e
      | Inr k \<Rightarrow> Inr \<lparr>msKeys = k, msSsrc = ssrc, msCname = BuildWhatsappRtcpCname entropy,
          msProfile = profile, msIndex = 1\<rparr>)"

definition senderReport ::
    "mediaSrtcpSender \<Rightarrow> RtcpSenderStats \<Rightarrow> u64 \<Rightarrow> RtcpReceptionReport option \<Rightarrow> bytes \<times> mediaSrtcpSender" where
  "senderReport s stats nowMs report =
     (let plain = BuildSenderReportWithSdesAndReception (msSsrc s) stats nowMs (msCname s) report (msProfile s)
      in (ProtectSrtcp (msKeys s) (msSsrc s) (msIndex s) plain, s\<lparr>msIndex := msIndex s + 1\<rparr>))"

type_synonym report_input = "RtcpSenderStats \<times> u64 \<times> RtcpReceptionReport option"

definition report_step :: "mediaSrtcpSender \<Rightarrow> report_input \<Rightarrow> bytes \<times> mediaSrtcpSender" where
  "report_step s x = (case x of (stats, nowMs, report) \<Rightarrow> senderReport s stats nowMs report)"

definition reports_sent :: "E2eSrtpKeys \<Rightarrow> u32 \<Rightarrow> bytes \<Rightarrow> bool \<Rightarrow> report_input list \<Rightarrow> mediaSrtcpSender \<Rightarrow> bool" where
  "reports_sent k ssrc cname profile xs s \<longleftrightarrow>
     s = \<lparr>msKeys = k, msSsrc = ssrc, msCname = cname, msProfile = profile, msIndex = of_nat (Suc (length xs))\<rparr>"

interpretation reports: sequencer report_step
    "\<lparr>msKeys = k, msSsrc = ssrc, msCname = cname, msProfile = profile, msIndex = 1\<rparr>"
    "reports_sent k ssrc cname profile" for k ssrc cname profile
  by unfold_locales (auto simp: reports_sent_def report_step_def senderReport_def Let_def)

lemma length_compound:
  "length cname = 18 \<Longrightarrow> 8 \<le> length (BuildSenderReportWithSdesAndReception x st nowMs cname report ext)"
  by (simp add: compound_layout length_sr_packet)

text \<open>C22: the SRTCP session: the k-th report a sender protects, for the first 2^31 - 2 reports, is opened
  by the peer's receiver to the compound that was built, with index k + 1: the index never repeats in
  that range.\<close>

theorem srtcp_session:
  assumes "newMediaSrtcpSender entropy callKey self ssrc profile = Inr s"
    and "newMediaSrtcpReceiver callKey self = Inr keys"
    and "k < length xs" and "k < 2147483646" and "xs ! k = (stats, nowMs, report)"
  shows "UnprotectSrtcp keys ssrc (run report_step s xs ! k) =
    Some (BuildSenderReportWithSdesAndReception ssrc stats nowMs (BuildWhatsappRtcpCname entropy) report profile,
      of_nat (k + 1))"
proof -
  let ?cname = "BuildWhatsappRtcpCname entropy"
  have s: "s = \<lparr>msKeys = keys, msSsrc = ssrc, msCname = ?cname, msProfile = profile, msIndex = 1\<rparr>"
    using assms(1,2) by (auto simp: newMediaSrtcpSender_def newMediaSrtcpReceiver_def split: sum.splits)
  obtain s' where "reports_sent keys ssrc ?cname profile (take k xs) s'"
      "run report_step s xs ! k = fst (report_step s' (xs ! k))"
    using reports.nth_output [OF assms(3), of keys ssrc ?cname profile] s by auto
  then have p: "run report_step s xs ! k = ProtectSrtcp keys ssrc (of_nat (Suc k))
      (BuildSenderReportWithSdesAndReception ssrc stats nowMs ?cname report profile)"
    using assms(3,5) by (simp add: reports_sent_def report_step_def senderReport_def Let_def)
  have i: "(of_nat (Suc k) :: u32) < 0x80000000"
    using assms(4) by (simp only: word_less_nat_alt unat_of_nat) simp
  show ?thesis
    unfolding p using srtcp_round_trip [OF length_compound [OF length_BuildWhatsappRtcpCname] i] by simp
qed

lemma srtcp_session_witness:
  "\<exists>s keys. newMediaSrtcpReceiver (replicate 32 1) ''1:2@lid'' = Inr keys \<and>
    UnprotectSrtcp keys 5 (run report_step s
      [(\<lparr>PacketsSent = 0, OctetsSent = 0, SrRtpTimestamp = 0\<rparr>, 0, None),
       (\<lparr>PacketsSent = 1, OctetsSent = 2, SrRtpTimestamp = 3\<rparr>, 9, None)] ! 1) =
    Some (BuildSenderReportWithSdesAndReception 5 \<lparr>PacketsSent = 1, OctetsSent = 2, SrRtpTimestamp = 3\<rparr>
      9 (BuildWhatsappRtcpCname []) None True, 2)"
proof -
  obtain k where k: "newMediaSrtcpReceiver (replicate 32 1) ''1:2@lid'' = Inr k"
    using DeriveE2eSrtcpKeys_total [of "replicate 32 1"] by (auto simp: newMediaSrtcpReceiver_def)
  then obtain s where s: "newMediaSrtcpSender [] (replicate 32 1) ''1:2@lid'' 5 True = Inr s"
    by (auto simp: newMediaSrtcpReceiver_def newMediaSrtcpSender_def)
  show ?thesis
    using srtcp_session [OF s k, of 1 "[(\<lparr>PacketsSent = 0, OctetsSent = 0, SrRtpTimestamp = 0\<rparr>, 0, None),
       (\<lparr>PacketsSent = 1, OctetsSent = 2, SrRtpTimestamp = 3\<rparr>, 9, None)]"] k by auto
qed

section \<open>The receive loop\<close>

record mediaRx =
  rxPipe :: MediaPipeline
  rxVideoPipe :: MediaPipeline
  rxAppDataPipe :: MediaPipeline
  peerRtcp :: E2eSrtpKeys
  videoDepack :: H264Depacketizer
  videoAU :: bytes
  appDataRx :: appDataReceiver
  videoOrientation :: int
  audioReception :: RtcpReceptionStats
  videoReception :: RtcpReceptionStats
  peerAppDataSsrc :: u32
  rtpIn :: u64

text \<open>What is fixed for the run: our video SSRC, the relay key, and the peer of the call, if there is a call.\<close>

record 'j mediaCtx =
  videoSelfSsrc :: u32
  relayKeyASCII :: bytes
  callPeer :: "'j option"

datatype 'j media_effect = SendRelay bytes | SenderKeyframe | CallKeyframe
  | AudioFrame u32 bytes | VideoFrame bytes | Orientation int
  | ReactionIn "'j CallReaction" | CallActive

definition rekeyPeer :: "string \<Rightarrow> bytes \<Rightarrow> string \<Rightarrow> mediaRx \<Rightarrow> bool \<times> mediaRx" where
  "rekeyPeer callID callKey answeringPeer rx =
     (case RekeyRecv (rxPipe rx) callKey answeringPeer of
        Inl _ \<Rightarrow> (False, rx)
      | Inr p1 \<Rightarrow>
          let rx1 = rx\<lparr>rxPipe := p1\<rparr>
          in case RekeyRecv (rxVideoPipe rx1) callKey answeringPeer of
               Inl _ \<Rightarrow> (False, rx1)
             | Inr p2 \<Rightarrow>
                 let rx2 = rx1\<lparr>rxVideoPipe := p2\<rparr>
                 in case RekeyRecv (rxAppDataPipe rx2) callKey answeringPeer of
                      Inl _ \<Rightarrow> (False, rx2)
                    | Inr p3 \<Rightarrow>
                        let rx3 = rx2\<lparr>rxAppDataPipe := p3\<rparr>
                        in case DeriveWasmParticipantSsrc callID (FormatE2ESrtpParticipantID answeringPeer)
                                 AppDataSlotWord of
                             None \<Rightarrow> (False, rx3)
                           | Some ssrc \<Rightarrow>
                               let rx4 = rx3\<lparr>peerAppDataSsrc := ssrc\<rparr>;
                                   (e, keys) = receiver_rekey (peerRtcp rx4) callKey answeringPeer
                               in (e = None, rx4\<lparr>peerRtcp := keys\<rparr>))"

definition receive_rtcp :: "'j mediaCtx \<Rightarrow> u64 \<Rightarrow> mediaRx \<Rightarrow> bytes \<Rightarrow> 'j media_effect list \<times> mediaRx" where
  "receive_rtcp ctx nowMs rx pkt =
     (case ParseRtcpSenderSsrc pkt of
        None \<Rightarrow> ([], rx)
      | Some senderSsrc \<Rightarrow>
          (case UnprotectSrtcp (peerRtcp rx) senderSsrc pkt of
             None \<Rightarrow> ([], rx)
           | Some (plain, index) \<Rightarrow>
               (if RtcpRequestsKeyframe plain (videoSelfSsrc ctx)
                then SenderKeyframe # (if callPeer ctx \<noteq> None then [CallKeyframe] else [])
                else [],
                case ParseSenderReportTiming plain of
                  None \<Rightarrow> rx
                | Some (reportSsrc, ntpSeconds, ntpFraction) \<Rightarrow>
                    rx\<lparr>audioReception := ObserveSenderReport (audioReception rx) reportSsrc ntpSeconds ntpFraction nowMs,
                       videoReception := ObserveSenderReport (videoReception rx) reportSsrc ntpSeconds ntpFraction nowMs\<rparr>)))"

definition receive_stun :: "'j mediaCtx \<Rightarrow> bytes \<Rightarrow> 'j media_effect list" where
  "receive_stun ctx pkt =
     (if StunMessageType pkt = Some MsgBindingRequest then
        (case StunTransactionID pkt of
           None \<Rightarrow> []
         | Some txid \<Rightarrow>
             if length txid = 12
             then [SendRelay (EncodeStunRequest MsgBindingSuccess txid [] (Some (relayKeyASCII ctx)) True)]
             else [])
      else [])"

definition receive_app_data :: "protowire \<Rightarrow> 'j mediaCtx \<Rightarrow> mediaRx \<Rightarrow> RtpHeader \<Rightarrow> bytes \<Rightarrow>
    ('j media_effect list \<times> mediaRx) option" where
  "receive_app_data pw ctx rx vh pkt =
     (if Ssrc vh \<noteq> peerAppDataSsrc rx then Some ([], rx)
      else case UnprotectAudio (rxAppDataPipe rx) pkt of
        (None, p) \<Rightarrow> Some ([], rx\<lparr>rxAppDataPipe := p\<rparr>)
      | (Some (hdr, payload), p) \<Rightarrow>
          let rx1 = rx\<lparr>rxAppDataPipe := p\<rparr>
          in case handleAppDataReaction pw (callPeer ctx) (appDataRx rx1) payload of
               None \<Rightarrow> None
             | Some (Inl e, r) \<Rightarrow> Some ([], rx1\<lparr>appDataRx := r\<rparr>)
             | Some (Inr x, r) \<Rightarrow>
                 Some (case x of None \<Rightarrow> [] | Some c \<Rightarrow> [ReactionIn c], rx1\<lparr>appDataRx := r\<rparr>))"

fun annexb_append :: "bytes \<Rightarrow> bytes list \<Rightarrow> bytes" where
  "annexb_append au [] = au"
| "annexb_append au (n # ns) = annexb_append (au @ [0, 0, 0, 1] @ n) ns"

definition receive_video :: "u64 \<Rightarrow> mediaRx \<Rightarrow> RtpHeader \<Rightarrow> bytes \<Rightarrow> 'j media_effect list \<times> mediaRx" where
  "receive_video nowMs rx vh pkt =
     (case UnprotectAudio (rxVideoPipe rx) pkt of
        (None, p) \<Rightarrow> ([], rx\<lparr>rxVideoPipe := p\<rparr>)
      | (Some (hdr, vpayload), p) \<Rightarrow>
          let rx1 = rx\<lparr>rxVideoPipe := p,
                videoReception := Observe (videoReception rx) (Ssrc vh) (SequenceNumber vh) (Timestamp vh) nowMs 90000\<rparr>;
              orientation = (case VideoExtension vh of
                  None \<Rightarrow> videoOrientation rx1
                | Some e \<Rightarrow> DisplayOrientation e);
              turned = (if orientation \<noteq> videoOrientation rx1 then [Orientation orientation] else []);
              (nalus, d) = Depacketize (videoDepack rx1) vpayload;
              au = annexb_append (videoAU rx1) nalus;
              rx2 = rx1\<lparr>videoOrientation := orientation, videoDepack := d\<rparr>
          in if Marker vh \<and> 0 < length au then (turned @ [VideoFrame au], rx2\<lparr>videoAU := []\<rparr>)
             else (turned, rx2\<lparr>videoAU := au\<rparr>))"

definition receive_audio :: "'j mediaCtx \<Rightarrow> u64 \<Rightarrow> mediaRx \<Rightarrow> bytes \<Rightarrow> 'j media_effect list \<times> mediaRx" where
  "receive_audio ctx nowMs rx pkt =
     (case UnprotectAudio (rxPipe rx) pkt of
        (None, p) \<Rightarrow> ([], rx\<lparr>rxPipe := p\<rparr>)
      | (Some (hdr, payload), p) \<Rightarrow>
          let rx1 = rx\<lparr>rxPipe := p, rtpIn := rtpIn rx + 1,
                audioReception := Observe (audioReception rx) (Ssrc hdr) (SequenceNumber hdr) (Timestamp hdr) nowMs 16000\<rparr>
          in (AudioFrame (Timestamp hdr) payload #
                (if rtpIn rx1 = 1 \<and> callPeer ctx \<noteq> None then [CallActive] else []), rx1))"

definition receive_packet :: "protowire \<Rightarrow> 'j mediaCtx \<Rightarrow> u64 \<Rightarrow> mediaRx \<Rightarrow> bytes \<Rightarrow>
    ('j media_effect list \<times> mediaRx) option" where
  "receive_packet pw ctx nowMs rx pkt =
     (case ClassifyRelayPacket pkt of
        RelayPacketRtcp \<Rightarrow> Some (receive_rtcp ctx nowMs rx pkt)
      | RelayPacketStun \<Rightarrow> Some (receive_stun ctx pkt, rx)
      | RelayPacketOther \<Rightarrow> Some ([], rx)
      | RelayPacketRtp \<Rightarrow>
          (case ParseRtpHeader pkt of
             None \<Rightarrow> Some ([], rx)
           | Some vh \<Rightarrow>
               (case classifyMediaPayload vh of
                  mediaPayloadAppData \<Rightarrow> receive_app_data pw ctx rx vh pkt
                | mediaPayloadVideo \<Rightarrow> Some (receive_video nowMs rx vh pkt)
                | mediaPayloadAudio \<Rightarrow> Some (receive_audio ctx nowMs rx pkt)
                | mediaPayloadUnknown \<Rightarrow> Some ([], rx))))"

text \<open>The loop over the packets, each with the time it is received.\<close>

fun receive_all :: "protowire \<Rightarrow> 'j mediaCtx \<Rightarrow> mediaRx \<Rightarrow> (u64 \<times> bytes) list \<Rightarrow> 'j media_effect list option" where
  "receive_all pw ctx rx [] = Some []"
| "receive_all pw ctx rx ((now, p) # ps) =
     (case receive_packet pw ctx now rx p of
        None \<Rightarrow> None
      | Some (es, rx') \<Rightarrow>
          (case receive_all pw ctx rx' ps of None \<Rightarrow> None | Some fs \<Rightarrow> Some (es @ fs)))"

section \<open>Video from end to end\<close>

text \<open>What the loop makes of a run of video payloads and their markers.\<close>

fun video_assemble :: "H264Depacketizer \<Rightarrow> bytes \<Rightarrow> (bool \<times> bytes) list \<Rightarrow> bytes list" where
  "video_assemble d au [] = []"
| "video_assemble d au ((m, payload) # r) =
     (let (ns, d') = Depacketize d payload; au' = annexb_append au ns
      in if m \<and> 0 < length au' then au' # video_assemble d' [] r else video_assemble d' au' r)"

fun marks :: "bytes list \<Rightarrow> (bool \<times> bytes) list" where
  "marks [] = []"
| "marks (p # ps) = (ps = [], p) # marks ps"

lemma annexb_append_append: "annexb_append au (a @ b) = annexb_append (annexb_append au a) b"
  by (induction a arbitrary: au) simp_all

lemma video_assemble_unit:
  "ps \<noteq> [] \<Longrightarrow> depacketize_all d ps = (ns, d') \<Longrightarrow> annexb_append au ns \<noteq> [] \<Longrightarrow>
   video_assemble d au (marks ps @ r) = annexb_append au ns # video_assemble d' [] r"
proof (induction ps arbitrary: d au ns)
  case Nil
  then show ?case by simp
next
  case (Cons p ps)
  obtain ns1 d1 where p: "Depacketize d p = (ns1, d1)" by (cases "Depacketize d p")
  obtain ns2 d2 where q: "depacketize_all d1 ps = (ns2, d2)" by (cases "depacketize_all d1 ps")
  have ns: "ns = ns1 @ ns2" "d2 = d'" using Cons.prems(2) p q by simp_all
  show ?case
  proof (cases "ps = []")
    case True
    then show ?thesis using Cons.prems(3) p q ns by (auto simp: annexb_append_append)
  next
    case False
    with Cons.IH [OF False, of d1 ns2 "annexb_append au ns1"] Cons.prems(3) p q ns show ?thesis
      by (simp add: annexb_append_append)
  qed
qed

lemma kept_stream:
  assumes "sendable ns"
  shows "annexb_append [] [drop 4 (annexb_stream (kept ns))] = annexb_stream (kept ns)"
  using assms by (cases "kept ns") (auto simp: sendable_def)

lemma video_assemble_units:
  "list_all (\<lambda>(ns, d). sendable ns) us \<Longrightarrow>
   video_assemble d [] (concat (map (\<lambda>(ns, t). marks (payloads_of ns)) us)) =
     map (\<lambda>(ns, t). annexb_stream (kept ns)) us"
proof (induction us arbitrary: d)
  case Nil
  then show ?case by simp
next
  case (Cons u us)
  obtain ns t where u: "u = (ns, t)" by (cases u)
  have ns: "sendable ns" using Cons.prems u by simp
  let ?n = "drop 4 (annexb_stream (kept ns))"
  obtain out d' where o: "depacketize_all d (payloads_of ns) = (out, d')"
    by (cases "depacketize_all d (payloads_of ns)")
  have n: "nal_unit ?n" "payloads_of ns \<noteq> []" using sendable_first [OF ns] by simp_all
  have "length ?n \<le> 4194304" using ns by (auto simp: sendable_def le_diff_conv)
  then have "out = [?n]" using PackageH264NALU_round_trip [OF n(1), of d] o by (simp add: payloads_of_def)
  moreover have "annexb_stream (kept ns) \<noteq> []" using ns by (cases "kept ns") (auto simp: sendable_def)
  ultimately show ?case
    using video_assemble_unit [OF n(2) o, of "[]"] kept_stream [OF ns] Cons u by simp
qed

lemma unit_inputs_marks: "map (\<lambda>x. (fst x, video_payload x)) (unit_inputs info d ps) = marks ps"
  by (induction ps) (simp_all add: video_payload_def)

lemma unit_stream_marks:
  "map (\<lambda>x. (fst x, video_payload x)) (unit_stream us) = concat (map (\<lambda>(ns, t). marks (payloads_of ns)) us)"
  by (induction us) (auto simp: unit_stream_def unit_inputs_marks)

text \<open>One video packet in the loop.\<close>

definition video_frames :: "'j media_effect list \<Rightarrow> bytes list" where
  "video_frames es = List.map_filter (\<lambda>e. case e of VideoFrame f \<Rightarrow> Some f | _ \<Rightarrow> None) es"

lemma video_frames_simps [simp]:
  "video_frames [] = []" "video_frames (es @ fs) = video_frames es @ video_frames fs"
  "video_frames [VideoFrame f] = [f]" "video_frames [Orientation i] = []"
  by (simp_all add: video_frames_def map_filter_simps map_filter_def)

lemma sealed_front: "\<exists>rest. sealed k h roc p = 0x90 # type_byte h # rest"
  by (simp add: sealed_def AppendWarpMITag_def EncodeRtpHeader_layout)

lemma video_type_byte:
  assumes "PayloadType h = 97"
  shows "\<not> (192 \<le> type_byte h \<and> type_byte h \<le> 223)"
  using assms by (simp add: type_byte_def)

lemma video_packet_classified:
  "ClassifyRelayPacket (video_packet k ssrc xs x) = RelayPacketRtp \<and>
   ParseRtpHeader (video_packet k ssrc xs x) = Some (received_header (video_header ssrc xs x)) \<and>
   classifyMediaPayload (received_header (video_header ssrc xs x)) = mediaPayloadVideo \<and>
   Marker (received_header (video_header ssrc xs x)) = fst x"
proof -
  obtain l info d p where x: "x = (l, info, d, p)" by (cases x)
  let ?h = "video_header ssrc xs x"
  have pt: "PayloadType ?h = 97" "Marker ?h = l" by (simp_all add: x)
  obtain rest where "video_packet k ssrc xs x = 0x90 # type_byte ?h # rest"
    using sealed_front [of k ?h] by (auto simp: video_packet_def)
  with video_type_byte [OF pt(1)] have "ClassifyRelayPacket (video_packet k ssrc xs x) = RelayPacketRtp"
    by (auto simp: ClassifyRelayPacket_def Let_def)
  moreover have "classifyMediaPayload (received_header ?h) = mediaPayloadVideo"
    by (simp add: received_header_def pt classifyMediaPayload_def RtpPayloadTypeAppData_def RtpPayloadTypeH264_def)
  ultimately show ?thesis
    using pt by (simp add: video_packet_def ParseRtpHeader_sealed received_header_def x)
qed

lemma receive_video_step:
  assumes "UnprotectAudio (rxVideoPipe rx) pkt = (Some (hdr, payload), p)"
    and "Depacketize (videoDepack rx) payload = (ns, d)"
  shows "\<exists>rx'. snd (receive_video now rx vh pkt) = rx' \<and> rxVideoPipe rx' = p \<and> videoDepack rx' = d \<and>
    (let au = annexb_append (videoAU rx) ns
     in if Marker vh \<and> 0 < length au
        then video_frames (fst (receive_video now rx vh pkt)) = [au] \<and> videoAU rx' = []
        else video_frames (fst (receive_video now rx vh pkt)) = [] \<and> videoAU rx' = au)"
  using assms by (auto simp: receive_video_def Let_def)

lemma receive_all_video:
  "run UnprotectAudio (rxVideoPipe rx) (map snd tps) =
      map (\<lambda>j. Some (received_header (video_header ssrc (h j) (x j)), video_payload (x j))) js \<Longrightarrow>
   map snd tps = map (\<lambda>j. video_packet k ssrc (h j) (x j)) js \<Longrightarrow>
   map_option video_frames (receive_all pw (ctx :: 'j mediaCtx) rx tps) =
     Some (video_assemble (videoDepack rx) (videoAU rx) (map (\<lambda>j. (fst (x j), video_payload (x j))) js))"
proof (induction tps arbitrary: rx js)
  case Nil
  then show ?case by simp
next
  case (Cons tp tps)
  obtain t p where tp: "tp = (t, p)" by (cases tp)
  obtain j js' where js: "js = j # js'" using Cons.prems(2) by (cases js) auto
  let ?vh = "received_header (video_header ssrc (h j) (x j))"
  have p: "p = video_packet k ssrc (h j) (x j)" using Cons.prems(2) js tp by simp
  obtain pipe where u: "UnprotectAudio (rxVideoPipe rx) p = (Some (?vh, video_payload (x j)), pipe)"
    and r: "run UnprotectAudio pipe (map snd tps) =
      map (\<lambda>j. Some (received_header (video_header ssrc (h j) (x j)), video_payload (x j))) js'"
    using Cons.prems(1) js tp by (cases "UnprotectAudio (rxVideoPipe rx) p") auto
  obtain ns d where dp: "Depacketize (videoDepack rx) (video_payload (x j)) = (ns, d)"
    by (cases "Depacketize (videoDepack rx) (video_payload (x j))")
  let ?e = "receive_video t rx ?vh p :: 'j media_effect list \<times> mediaRx"
  obtain rx' where rx': "snd ?e = rx'" "rxVideoPipe rx' = pipe" "videoDepack rx' = d"
    and fr: "let au = annexb_append (videoAU rx) ns
      in if Marker ?vh \<and> 0 < length au then video_frames (fst ?e) = [au] \<and> videoAU rx' = []
         else video_frames (fst ?e) = [] \<and> videoAU rx' = au"
    using receive_video_step [OF u dp, of t ?vh] by blast
  have step: "receive_packet pw ctx t rx p = Some ?e"
    using video_packet_classified [of k ssrc "h j" "x j"] unfolding p by (simp add: receive_packet_def)
  have IH: "map_option video_frames (receive_all pw ctx rx' tps) =
      Some (video_assemble d (videoAU rx') (map (\<lambda>j. (fst (x j), video_payload (x j))) js'))"
    using Cons.IH [of rx' js'] r Cons.prems(2) js rx' by simp
  then obtain fs where fs: "receive_all pw ctx rx' tps = Some fs" "video_frames fs =
      video_assemble d (videoAU rx') (map (\<lambda>j. (fst (x j), video_payload (x j))) js')"
    by auto
  obtain es where e: "?e = (es, rx')" using rx'(1) by (cases ?e) simp
  show ?case
    using video_packet_classified [of k ssrc "h j" "x j"] fr fs
    by (auto simp: tp js step e dp Let_def)
qed

lemma near_newest_upt: "near_newest h (map Suc [h..<n])"
  by (induction "n - h" arbitrary: h) (auto simp: upt_rec max_def)

lemma all_packets: "map (\<lambda>j. run step s xs ! j) [0..<length xs] = run step s xs"
  by (rule nth_equalityI) simp_all

text \<open>C15: video arrives: when the two ends set up their pipelines from one call key with swapped ids and
  the sender is enabled, then for every run of access units that starts with an IDR, each written in
  Annex-B with at least one NAL unit besides the delimiters and at most 4 MiB, if all packets arrive
  in order the receive loop hands the video sink exactly one frame per access unit: the Annex-B
  stream of the unit's NAL units without its access unit delimiters, however the units were
  fragmented and whatever audio, feedback or depacketizer state came before.\<close>

theorem video_end_to_end:
  assumes p: "NewMediaPipeline callKey a b ssrc' samples = Inr p"
    and q: "NewMediaPipeline callKey b a ssrc'' samples' = Inr (rxVideoPipe rx)"
    and us: "list_all (\<lambda>(ns, d). sendable ns) us" "us \<noteq> []" "has_idr (fst (hd us))"
    and rx: "videoAU rx = []"
    and tps: "map snd tps = fst (protect_all (new_videoSender p ssrc True False) (encoded_units us))"
  shows "map_option video_frames (receive_all pw ctx rx tps) =
    Some (map (\<lambda>(ns, d). annexb_stream (kept ns)) us)"
proof -
  obtain sk rk where k: "DeriveE2eKeys callKey (FormatE2ESrtpParticipantID a) = Inr sk"
      "p = fresh_pipeline sk rk ssrc' samples"
    using NewMediaPipeline_fresh [OF p] by auto
  obtain sk' where q': "rxVideoPipe rx = expecting sk (fresh_pipeline sk' sk ssrc'' samples')"
    using NewMediaPipeline_fresh [OF q] k(1) by (auto simp: expecting_fresh)
  let ?s = "(NewVideoRtpStream ssrc defaultVideoRtpStepSamples, p)" and ?xs = "unit_stream us"
  let ?h = "\<lambda>j. take j ?xs" and ?x = "\<lambda>j. ?xs ! j" and ?js = "[0..<length (unit_stream us)]"
  have sent: "map snd tps = run video_step ?s ?xs"
    unfolding tps using protect_all_run [OF us(1), of "new_videoSender p ssrc True False"] us(3)
    by (simp add: new_videoSender_def)
  have "payloads_of (fst (hd us)) \<noteq> []"
    using us(1,2) sendable_first by (cases us) auto
  then have ne: "0 < length ?xs"
    using us(2) by (cases us; cases "payloads_of (fst (hd us))") (auto simp: unit_stream_def)
  then have js: "?js = 0 # [1..<length ?xs]" by (simp add: upt_conv_Cons)
  have "run UnprotectAudio (rxVideoPipe rx) (map (\<lambda>j. run video_step ?s ?xs ! j) (0 # [1..<length ?xs])) =
      map (\<lambda>j. Some (received_header (video_header ssrc (?h j) (?x j)), video_payload (?x j)))
        (0 # [1..<length ?xs])"
    unfolding q' k(2) using unit_stream_ok [of us] ne near_newest_upt [of "Suc 0" "length ?xs"]
    by (intro video_channel.delivery) (auto simp: list_all_iff)
  then have run: "run UnprotectAudio (rxVideoPipe rx) (map snd tps) =
      map (\<lambda>j. Some (received_header (video_header ssrc (?h j) (?x j)), video_payload (?x j))) ?js"
    unfolding js [symmetric] sent all_packets .
  have "map (\<lambda>j. run video_step ?s ?xs ! j) ?js = map (\<lambda>j. video_packet sk ssrc (?h j) (?x j)) ?js"
    unfolding k(2) by (intro map_cong refl video_channel.packet_at) simp
  then have packets: "map snd tps = map (\<lambda>j. video_packet sk ssrc (?h j) (?x j)) ?js"
    unfolding sent all_packets .
  have "map (\<lambda>j. (fst (?x j), video_payload (?x j))) ?js = map (\<lambda>x. (fst x, video_payload x)) ?xs"
    by (rule nth_equalityI) simp_all
  with receive_all_video [OF run packets, of pw ctx] video_assemble_units [OF us(1)] rx
  show ?thesis by (simp add: unit_stream_marks)
qed

lemma sendable_example: "sendable [[0x67, 1], [0x65, 0x88, 2], [0x09, 0xF0]]"
  by (simp add: sendable_def annexb_unit_def annexBStartCodeLen_def nal_unit_def kept_def delimiter_def upt_rec)

definition idle_rx :: "MediaPipeline \<Rightarrow> mediaRx" where
  "idle_rx p = \<lparr>rxPipe = p, rxVideoPipe = p, rxAppDataPipe = p, peerRtcp = mpRecvKeys p,
     videoDepack = \<lparr>fuBuf = [], fuType = 0, fuNriF = 0, fuActive = False\<rparr>, videoAU = [],
     appDataRx = \<lparr>lastTransactionID = 0\<rparr>, videoOrientation = -1, audioReception = new_stats,
     videoReception = new_stats, peerAppDataSsrc = 0, rtpIn = 0\<rparr>"

lemma video_end_to_end_witness:
  "\<exists>p q. map_option video_frames (receive_all wire
      (\<lparr>videoSelfSsrc = 3, relayKeyASCII = [1], callPeer = Some ''p''\<rparr>) (idle_rx q)
      (map (\<lambda>p. (0, p)) (fst (protect_all (new_videoSender p 5 True False)
        [(annexb_stream [[0x67, 1], [0x65, 0x88, 2], [0x09, 0xF0]], 33333333)])))) =
    Some [annexb_stream [[0x67, 1], [0x65, 0x88, 2]]]"
proof -
  obtain p where p: "NewMediaPipeline (replicate 32 1) ''1:2@lid'' ''3:4@lid'' 5 960 = Inr p"
    using call_pipeline by blast
  obtain q where "NewMediaPipeline (replicate 32 1) ''3:4@lid'' ''1:2@lid'' 6 960 = Inr q"
    using call_pipeline by blast
  then have q: "NewMediaPipeline (replicate 32 1) ''3:4@lid'' ''1:2@lid'' 6 960 = Inr (rxVideoPipe (idle_rx q))"
    by (simp add: idle_rx_def)
  let ?us = "[([[0x67, 1], [0x65, 0x88, 2], [0x09, 0xF0]], 33333333)] :: (bytes list \<times> int) list"
  have us: "list_all (\<lambda>(ns, d). sendable ns) ?us" "?us \<noteq> []" "has_idr (fst (hd ?us))" "videoAU (idle_rx q) = []"
    using sendable_example by (simp_all add: has_idr_def idle_rx_def)
  have snd_map: "map snd (map (\<lambda>p. (0 :: u64, p)) ps) = ps" for ps :: "bytes list"
    by (induction ps) simp_all
  show ?thesis
    using video_end_to_end [OF p q us snd_map, where ssrc = 5 and pw = wire and ctx = "\<lparr>videoSelfSsrc = 3, relayKeyASCII = [1], callPeer = Some ''p''\<rparr>"]
    by (auto simp: encoded_units_def kept_def delimiter_def)
qed

end
