(* ===== verification/Player.thy ===== *)
theory Player
  imports Main
begin

text \<open>
  player.go: the audio player.  A source is an abstract value; \<open>nextFrame\<close> reads it outside the lock, so
  it is two steps, with the outcome of \<open>ReadFrame\<close> as the argument of the second, and other operations
  may run in between.  An operation returns the sources it closes.
\<close>

datatype PlayerState = PlayerIdle | PlayerPlaying | PlayerPaused

record 's Player =
  src :: "'s option"
  state :: PlayerState
  onFinish :: bool

definition NewPlayer :: "'s Player" where
  "NewPlayer = \<lparr>src = None, state = PlayerIdle, onFinish = False\<rparr>"

definition closes :: "'s option \<Rightarrow> 's list" where
  "closes old = (case old of None \<Rightarrow> [] | Some s \<Rightarrow> [s])"

definition Play :: "'s Player \<Rightarrow> 's option \<Rightarrow> 's list \<times> 's Player" where
  "Play p s = (closes (src p), p\<lparr>src := s, state := PlayerPlaying\<rparr>)"

definition Pause :: "'s Player \<Rightarrow> 's Player" where
  "Pause p = (if state p = PlayerPlaying then p\<lparr>state := PlayerPaused\<rparr> else p)"

definition Resume :: "'s Player \<Rightarrow> 's Player" where
  "Resume p = (if state p = PlayerPaused then p\<lparr>state := PlayerPlaying\<rparr> else p)"

definition Stop :: "'s Player \<Rightarrow> 's list \<times> 's Player" where
  "Stop p = (closes (src p), p\<lparr>src := None, state := PlayerIdle\<rparr>)"

definition OnFinish :: "'s Player \<Rightarrow> bool \<Rightarrow> 's Player" where
  "OnFinish p fn = p\<lparr>onFinish := fn\<rparr>"

text \<open>What \<open>ReadFrame\<close> returned: a frame, the end of the stream with perhaps a last frame, or an error.\<close>

datatype 'f read_result = Frame 'f | EndOfStream "'f option" | ReadError

text \<open>The locked part before the read: the source to read, if any.\<close>

definition next_begin :: "'s Player \<Rightarrow> 's option" where
  "next_begin p = (if state p \<noteq> PlayerPlaying \<or> src p = None then None else src p)"

text \<open>The part after the read of \<open>s\<close>: the frame, the sources closed, whether the listener is called.\<close>

definition next_end :: "'s Player \<Rightarrow> 's \<Rightarrow> 'f read_result \<Rightarrow> 'f option \<times> 's list \<times> bool \<times> 's Player" where
  "next_end p s r =
     (case r of
        Frame f \<Rightarrow> (Some f, [], False, p)
      | _ \<Rightarrow>
          let active = (src p = Some s);
              p1 = (if active then p\<lparr>src := None, state := PlayerIdle\<rparr> else p);
              frame = (case r of EndOfStream f \<Rightarrow> f | _ \<Rightarrow> None)
          in (frame, [s], active \<and> onFinish p, p1))"

section \<open>Interleavings\<close>

text \<open>
  One step of the player under any interleaving: \<open>reading\<close> is the source being read by the send loop,
  which calls \<open>nextFrame\<close> again only after the previous call returned.  The sources played are not nil:
  \<open>Play\<close> of a nil source ends in \<open>PlayerPlaying\<close> with nothing to play.
\<close>

record 's player_run =
  player :: "'s Player"
  reading :: "'s option"
  played :: "'s list"
  closedSources :: "'s list"
  finishes :: nat

datatype ('s, 'f) player_op = DoPlay 's | DoPause | DoResume | DoStop | DoOnFinish bool
  | DoNextBegin | DoNextEnd "'f read_result"

fun player_step :: "'s player_run \<Rightarrow> ('s, 'f) player_op \<Rightarrow> 's player_run" where
  "player_step g (DoPlay s) = (case Play (player g) (Some s) of (c, p) \<Rightarrow>
     g\<lparr>player := p, played := played g @ [s], closedSources := closedSources g @ c\<rparr>)"
| "player_step g DoPause = g\<lparr>player := Pause (player g)\<rparr>"
| "player_step g DoResume = g\<lparr>player := Resume (player g)\<rparr>"
| "player_step g DoStop = (case Stop (player g) of (c, p) \<Rightarrow>
     g\<lparr>player := p, closedSources := closedSources g @ c\<rparr>)"
| "player_step g (DoOnFinish b) = g\<lparr>player := OnFinish (player g) b\<rparr>"
| "player_step g DoNextBegin =
     (case reading g of None \<Rightarrow> g\<lparr>reading := next_begin (player g)\<rparr> | Some _ \<Rightarrow> g)"
| "player_step g (DoNextEnd r) =
     (case reading g of
        None \<Rightarrow> g
      | Some s \<Rightarrow> (case next_end (player g) s r of (f, c, fin, p) \<Rightarrow>
          g\<lparr>player := p, reading := None, closedSources := closedSources g @ c,
            finishes := finishes g + (if fin then 1 else 0)\<rparr>))"

definition player_init :: "'s player_run" where
  "player_init = \<lparr>player = NewPlayer, reading = None, played = [], closedSources = [], finishes = 0\<rparr>"

definition player_ok :: "'s player_run \<Rightarrow> bool" where
  "player_ok g \<longleftrightarrow>
     (src (player g) = None \<longleftrightarrow> state (player g) = PlayerIdle) \<and>
     set (played g) = set (closedSources g) \<union> set_option (src (player g)) \<and>
     set_option (reading g) \<subseteq> set (played g) \<and>
     finishes g + length (closes (src (player g))) \<le> length (played g)"

lemma player_ok_step:
  assumes "player_ok g"
  shows "player_ok (player_step g x)"
proof (cases x)
  case (DoNextEnd r)
  show ?thesis
  proof (cases "reading g")
    case None
    with assms DoNextEnd show ?thesis by simp
  next
    case (Some s)
    show ?thesis
      using assms DoNextEnd Some
      by (cases r; cases "src (player g) = Some s") (auto simp: player_ok_def next_end_def closes_def Let_def)
  qed
next
  case DoNextBegin
  with assms show ?thesis
    by (cases "reading g"; cases "src (player g)") (auto simp: player_ok_def next_begin_def)
qed (use assms in \<open>cases "src (player g)";
    auto simp: player_ok_def Play_def Pause_def Resume_def Stop_def OnFinish_def closes_def\<close>)+

lemma player_ok_run: "player_ok g \<Longrightarrow> player_ok (foldl player_step g xs)"
  by (induction xs arbitrary: g) (auto simp: player_ok_step)

lemma player_ok_init: "player_ok player_init"
  by (simp add: player_ok_def player_init_def NewPlayer_def closes_def)

text \<open>C34: no source leaks: over any interleaving of the player's operations with the send loop's reads,
  the player is idle exactly when it has no source, every source ever played is closed or is the one
  still playing, only played sources are closed, and the listener is called at most once per source.\<close>

theorem player_closes_sources:
  "let g = foldl player_step player_init xs
   in (src (player g) = None \<longleftrightarrow> state (player g) = PlayerIdle) \<and>
     set (played g) = set (closedSources g) \<union> set_option (src (player g)) \<and>
     finishes g + length (closes (src (player g))) \<le> length (played g)"
  using player_ok_run [OF player_ok_init, of xs] by (simp add: player_ok_def Let_def)

end
