(* ===== verification/Playout.thy ===== *)
theory Playout
  imports Prelude
begin

text \<open>
  audio_playout.go: the buffer that turns decoded packets into a timestamped PCM stream.  A sample is
  any value with a zero; a sink is how many writes it takes before it fails, \<open>None\<close> without a sink.
  The operations return the frames handed to the sink and whether a write failed.
\<close>

type_synonym 'a frame = "'a list"

definition FrameSamples :: nat where "FrameSamples = 960"
definition SampleRate :: nat where "SampleRate = 16000"
definition audioPlayoutPrefillSamples :: nat where "audioPlayoutPrefillSamples = 2 * FrameSamples"
definition audioPlayoutMaxGapSamples :: nat where "audioPlayoutMaxGapSamples = 2 * SampleRate"

record 'a audioPlayoutBuffer =
  pending :: "(u32 \<times> 'a frame) option"
  prefill :: "'a frame list"
  prefillSamples :: int
  started :: bool

definition newAudioPlayoutBuffer :: "'a audioPlayoutBuffer" where
  "newAudioPlayoutBuffer = \<lparr>pending = None, prefill = [], prefillSamples = 0, started = False\<rparr>"

definition playout_reset :: "'a audioPlayoutBuffer \<Rightarrow> u32 \<Rightarrow> 'a frame \<Rightarrow> 'a audioPlayoutBuffer" where
  "playout_reset p timestamp frame =
     p\<lparr>pending := Some (timestamp, frame), prefill := [], prefillSamples := 0, started := False\<rparr>"

definition alignAudioFrame :: "('a :: zero) frame \<Rightarrow> nat \<Rightarrow> 'a frame" where
  "alignAudioFrame frame samples =
     (let maxSamples = max (length frame) FrameSamples;
          n = (if maxSamples < samples then maxSamples else samples)
      in if n = length frame then frame else take n frame @ replicate (n - length frame) 0)"

text \<open>The loop that drops the oldest frames of a prefill that has grown too long.\<close>

fun evict :: "'a frame list \<Rightarrow> int \<Rightarrow> 'a frame list \<times> int" where
  "evict [] n = ([], n)"
| "evict (f # fs) n =
     (if int audioPlayoutMaxGapSamples < n \<and> 1 < length (f # fs) then evict fs (n - int (length f))
      else (f # fs, n))"

text \<open>The loop that writes the prefill: the frames written, those left, and whether all were.\<close>

fun drain :: "nat \<Rightarrow> 'a frame list \<Rightarrow> int \<Rightarrow> 'a frame list \<times> 'a frame list \<times> int \<times> bool" where
  "drain capacity [] n = ([], [], n, True)"
| "drain capacity (f # fs) n =
     (case capacity of
        0 \<Rightarrow> ([], f # fs, n, False)
      | Suc c \<Rightarrow> (case drain c fs (n - int (length f)) of (w, r, m, ok) \<Rightarrow> (f # w, r, m, ok)))"

record 'a push_result =
  startedNow :: bool
  failed :: bool
  written :: "'a frame list"

definition Push :: "('a :: zero) audioPlayoutBuffer \<Rightarrow> u32 \<Rightarrow> 'a frame \<Rightarrow> nat option \<Rightarrow>
    'a push_result \<times> 'a audioPlayoutBuffer" where
  "Push p timestamp frame sink =
     (let nothing = \<lparr>startedNow = False, failed = False, written = []\<rparr>
      in case pending p of
        None \<Rightarrow> (nothing, p\<lparr>pending := Some (timestamp, frame)\<rparr>)
      | Some (t0, pcm) \<Rightarrow>
          let delta = timestamp - t0
          in if delta = 0 \<or> of_nat audioPlayoutMaxGapSamples < delta
             then (nothing, playout_reset p timestamp frame)
             else
               let ready = alignAudioFrame pcm (unat delta);
                   p1 = p\<lparr>pending := Some (timestamp, frame)\<rparr>
               in if started p1 \<and> sink \<noteq> None then
                    (if sink = Some 0 then (nothing\<lparr>failed := True\<rparr>, p1)
                     else (nothing\<lparr>written := [ready]\<rparr>, p1))
                  else
                    let p2 = (if started p1 then p1\<lparr>started := False, prefill := [], prefillSamples := 0\<rparr> else p1);
                        (pre, n) = evict (prefill p2 @ [ready]) (prefillSamples p2 + int (length ready));
                        p3 = p2\<lparr>prefill := pre, prefillSamples := n\<rparr>
                    in case sink of
                         None \<Rightarrow> (nothing, p3)
                       | Some capacity \<Rightarrow>
                           if n < int audioPlayoutPrefillSamples then (nothing, p3)
                           else (case drain capacity pre n of
                               (w, rest, m, ok) \<Rightarrow>
                                 if ok then (\<lparr>startedNow = True, failed = False, written = w\<rparr>,
                                   p3\<lparr>started := True, prefill := [], prefillSamples := m\<rparr>)
                                 else (\<lparr>startedNow = False, failed = True, written = w\<rparr>,
                                   p3\<lparr>prefill := rest, prefillSamples := m\<rparr>)))"

definition Flush :: "'a audioPlayoutBuffer \<Rightarrow> nat option \<Rightarrow> bool \<times> 'a frame list \<times> 'a audioPlayoutBuffer" where
  "Flush p sink =
     (case pending p of
        None \<Rightarrow> (False, [], p)
      | Some (t, pcm) \<Rightarrow>
          if \<not> started p then (False, [], p)
          else case sink of
            None \<Rightarrow> (False, [], p)
          | Some capacity \<Rightarrow>
              (capacity = 0, if capacity = 0 then [] else [pcm], p\<lparr>pending := None\<rparr>))"

section \<open>The sample count\<close>

definition playout_ok :: "'a audioPlayoutBuffer \<Rightarrow> bool" where
  "playout_ok p \<longleftrightarrow>
     prefillSamples p = int (length (concat (prefill p))) \<and>
     (started p \<longrightarrow> prefill p = []) \<and>
     (prefillSamples p \<le> 32000 \<or> length (prefill p) \<le> 1)"

lemma evict_count: "n = int (length (concat fs)) \<Longrightarrow> evict fs n = (gs, m) \<Longrightarrow>
    m = int (length (concat gs)) \<and> (m \<le> 32000 \<or> length gs \<le> 1)"
  by (induction fs n arbitrary: gs m rule: evict.induct)
    (auto simp: audioPlayoutMaxGapSamples_def SampleRate_def split: if_splits)

lemma drain_count: "n = int (length (concat fs)) \<Longrightarrow> drain c fs n = (w, r, m, ok) \<Longrightarrow>
    fs = w @ r \<and> m = int (length (concat r)) \<and> ok = (r = [])"
  by (induction c fs n arbitrary: w r m ok rule: drain.induct) (auto split: nat.splits prod.splits)

lemma drain_all: "length fs \<le> c \<Longrightarrow> drain c fs n = (fs, [], n - int (length (concat fs)), True)"
  by (induction c fs n rule: drain.induct) (auto split: nat.splits)

lemma Push_ok: "playout_ok p \<Longrightarrow> playout_ok (snd (Push p t f sink))"
  by (auto simp: Push_def playout_ok_def playout_reset_def Let_def split: option.splits prod.splits
      dest!: evict_count [rotated] drain_count [rotated])

lemma Flush_ok: "playout_ok p \<Longrightarrow> playout_ok (snd (snd (Flush p sink)))"
  by (auto simp: Flush_def playout_ok_def split: option.splits prod.splits)

datatype 'a playout_op = DoPush u32 "'a frame" "nat option" | DoFlush "nat option"

fun playout_step :: "('a :: zero) audioPlayoutBuffer \<Rightarrow> 'a playout_op \<Rightarrow> 'a audioPlayoutBuffer" where
  "playout_step p (DoPush t f sink) = snd (Push p t f sink)"
| "playout_step p (DoFlush sink) = snd (snd (Flush p sink))"

text \<open>C36: the buffered audio is bounded: over any sequence of pushes and flushes, whatever the sink does,
  the sample count is that of the frames held back, they hold at most two seconds unless there is
  only one frame, and nothing is held back once playout has started.\<close>

theorem playout_bounded:
  "let p = foldl playout_step newAudioPlayoutBuffer xs
   in prefillSamples p = int (length (concat (prefill p))) \<and>
     (if started p then prefill p = [] else prefillSamples p \<le> 32000 \<or> length (prefill p) \<le> 1)"
proof -
  have step: "playout_ok p \<Longrightarrow> playout_ok (playout_step p x)" for p :: "'a audioPlayoutBuffer" and x
    by (cases x) (simp_all add: Push_ok Flush_ok)
  have "playout_ok p \<Longrightarrow> playout_ok (foldl playout_step p xs)" for p
    by (induction xs arbitrary: p) (simp_all add: step)
  moreover have "playout_ok newAudioPlayoutBuffer" by (simp add: playout_ok_def newAudioPlayoutBuffer_def)
  ultimately have "playout_ok (foldl playout_step newAudioPlayoutBuffer xs)" by blast
  then show ?thesis by (auto simp: playout_ok_def Let_def)
qed

section \<open>Nothing is lost or reordered\<close>

text \<open>The frames of a run, each aligned to the timestamp of the next; and a run without gaps.\<close>

fun aligned_stream :: "u32 \<times> ('a :: zero) frame \<Rightarrow> (u32 \<times> 'a frame) list \<Rightarrow> 'a frame list" where
  "aligned_stream (t0, f0) [] = []"
| "aligned_stream (t0, f0) ((t1, f1) # r) = alignAudioFrame f0 (unat (t1 - t0)) # aligned_stream (t1, f1) r"

fun in_step :: "u32 \<times> 'a frame \<Rightarrow> (u32 \<times> 'a frame) list \<Rightarrow> bool" where
  "in_step (t0, f0) [] \<longleftrightarrow> True"
| "in_step (t0, f0) ((t1, f1) # r) \<longleftrightarrow>
     length f0 \<le> 16000 \<and> t1 \<noteq> t0 \<and> unat (t1 - t0) \<le> 32000 \<and> in_step (t1, f1) r"

fun push_all :: "nat \<Rightarrow> ('a :: zero) audioPlayoutBuffer \<Rightarrow> (u32 \<times> 'a frame) list \<Rightarrow> 'a frame list \<times> 'a audioPlayoutBuffer" where
  "push_all c p [] = ([], p)"
| "push_all c p ((t, f) # r) =
     (let (res, p1) = Push p t f (Some c); (w, p2) = push_all c p1 r in (written res @ w, p2))"

definition flowing :: "u32 \<times> 'a frame \<Rightarrow> 'a audioPlayoutBuffer \<Rightarrow> bool" where
  "flowing x p \<longleftrightarrow> playout_ok p \<and> pending p = Some x \<and> [] \<notin> set (prefill p) \<and>
     (\<not> started p \<longrightarrow> prefillSamples p < 1920)"

lemma length_concat_ge: "[] \<notin> set fs \<Longrightarrow> length fs \<le> length (concat fs)"
proof (induction fs)
  case Nil
  then show ?case by simp
next
  case (Cons f fs)
  then have "1 \<le> length f" by (cases f) auto
  with Cons show ?case by simp
qed

lemma alignAudioFrame_length:
  "0 < samples \<Longrightarrow> alignAudioFrame f samples \<noteq> [] \<and> length (alignAudioFrame f samples) \<le> max (length f) 960"
  by (auto simp: alignAudioFrame_def FrameSamples_def Let_def max_def)

lemma evict_none: "n \<le> 32000 \<Longrightarrow> evict fs n = (fs, n)"
  by (cases fs) (simp_all add: audioPlayoutMaxGapSamples_def SampleRate_def)

lemma Push_flows:
  assumes fl: "flowing (t0, f0) p" and st: "in_step (t0, f0) [(t, f)]" and c: "1920 \<le> c"
  shows "flowing (t, f) (snd (Push p t f (Some c))) \<and>
    written (fst (Push p t f (Some c))) @ prefill (snd (Push p t f (Some c))) =
      prefill p @ [alignAudioFrame f0 (unat (t - t0))] \<and>
    (started (snd (Push p t f (Some c))) \<longleftrightarrow>
      started p \<or> 1920 \<le> length (concat (prefill p @ [alignAudioFrame f0 (unat (t - t0))]))) \<and>
    (started (snd (Push p t f (Some c))) \<or> written (fst (Push p t f (Some c))) = [])"
proof -
  let ?r = "alignAudioFrame f0 (unat (t - t0))"
  let ?n = "prefillSamples p + int (length ?r)"
  have d: "t - t0 \<noteq> 0" "\<not> (of_nat audioPlayoutMaxGapSamples < t - t0)"
    using st by (simp_all add: audioPlayoutMaxGapSamples_def SampleRate_def word_less_nat_alt)
  have "0 < unat (t - t0)" using d(1) by (simp add: unat_gt_0)
  then have r: "?r \<noteq> []" "length ?r \<le> 16000"
    using alignAudioFrame_length [of "unat (t - t0)" f0] st by auto
  have ok: "playout_ok p" and pend: "pending p = Some (t0, f0)" and ne: "[] \<notin> set (prefill p)"
    using fl by (auto simp: flowing_def)
  show ?thesis
  proof (cases "started p")
    case True
    with ok have "prefill p = []" "prefillSamples p = 0" by (simp_all add: playout_ok_def)
    with True d pend c r(1) show ?thesis
      by (auto simp: Push_def Let_def flowing_def playout_ok_def)
  next
    case False
    have n: "?n = int (length (concat (prefill p @ [?r])))" "?n \<le> 32000" "prefillSamples p < 1920"
      using ok False fl r(2) by (simp_all add: playout_ok_def flowing_def)
    have "length (prefill p) \<le> length (concat (prefill p))" using ne by (rule length_concat_ge)
    also have "\<dots> < 1920" using ok n(3) by (simp add: playout_ok_def)
    finally have "length (prefill p @ [?r]) \<le> c" using c by simp
    note all = drain_all [OF this, of ?n]
    show ?thesis
    proof (cases "?n < 1920")
      case True
      with False d pend n ne r show ?thesis
        by (auto simp: Push_def Let_def evict_none flowing_def playout_ok_def audioPlayoutPrefillSamples_def
            FrameSamples_def)
    next
      case big: False
      with False d pend n all show ?thesis
        by (auto simp: Push_def Let_def evict_none flowing_def playout_ok_def audioPlayoutPrefillSamples_def
            FrameSamples_def)
    qed
  qed
qed

lemma push_all_flows:
  assumes "1920 \<le> c"
  shows "flowing x p \<Longrightarrow> in_step x xs \<Longrightarrow> push_all c p xs = (w, q) \<Longrightarrow>
    w @ prefill q = prefill p @ aligned_stream x xs \<and>
    (started q \<longleftrightarrow> started p \<or> 1920 \<le> length (concat (prefill p @ aligned_stream x xs))) \<and>
    flowing (last (x # xs)) q \<and> (started q \<or> w = [])"
proof (induction xs arbitrary: x p w)
  case Nil
  then show ?case by (cases x) (auto simp: flowing_def playout_ok_def)
next
  case (Cons y xs)
  obtain t0 f0 where x: "x = (t0, f0)" by (cases x)
  obtain t f where y: "y = (t, f)" by (cases y)
  obtain res p1 where push: "Push p t f (Some c) = (res, p1)" by (cases "Push p t f (Some c)")
  obtain w1 where rest: "push_all c p1 xs = (w1, q)" "w = written res @ w1"
    using Cons.prems(3) push by (cases "push_all c p1 xs") (auto simp: y)
  let ?a = "alignAudioFrame f0 (unat (t - t0))"
  have st: "in_step (t0, f0) [(t, f)]" "in_step (t, f) xs" using Cons.prems(2) by (simp_all add: x y)
  have s: "flowing (t, f) p1" "written res @ prefill p1 = prefill p @ [?a]"
      "started p1 \<longleftrightarrow> started p \<or> 1920 \<le> length (concat (prefill p @ [?a]))"
      "started p1 \<or> written res = []"
    using Push_flows [OF Cons.prems(1) [unfolded x] st(1) assms] push by auto
  have IH: "w1 @ prefill q = prefill p1 @ aligned_stream (t, f) xs"
      "started q \<longleftrightarrow> started p1 \<or> 1920 \<le> length (concat (prefill p1 @ aligned_stream (t, f) xs))"
      "flowing (last (y # xs)) q" "started q \<or> w1 = []"
    using Cons.IH [OF s(1) st(2) rest(1)] by (auto simp: y)
  have "w @ prefill q = written res @ prefill p1 @ aligned_stream (t, f) xs"
    using IH(1) rest(2) by simp
  also have "\<dots> = prefill p @ aligned_stream x (y # xs)" using s(2) by (simp add: x y flip: append_assoc)
  finally have eq: "w @ prefill q = prefill p @ aligned_stream x (y # xs)" .
  show ?case
  proof (cases "started p1")
    case True
    with s(3) IH(2,3) show ?thesis using eq by (auto simp: x y)
  next
    case False
    then have "written res = []" "\<not> started p" using s(3,4) by auto
    moreover from this have "prefill p1 = prefill p @ [?a]" using s(2) by simp
    ultimately show ?thesis using False IH(2-4) eq rest(2) by (simp add: x y)
  qed
qed

text \<open>C35: playout is gapless and in order: for packets whose timestamps go up by at most two seconds each
  and a sink that takes what it is given, what has been written and what is still held back are
  together exactly the frames in order, each aligned to the timestamp of the next, none lost or
  repeated; the sink starts to be fed exactly when two packet intervals have been gathered, and from
  then on every frame is written as soon as its successor arrives.\<close>

theorem playout_in_order:
  assumes "1920 \<le> c" and "in_step x xs"
  shows "let (w, q) = push_all c newAudioPlayoutBuffer (x # xs)
   in w @ prefill q = aligned_stream x xs \<and> pending q = Some (last (x # xs)) \<and>
     started q = (1920 \<le> length (concat (aligned_stream x xs))) \<and>
     (if started q then prefill q = [] else w = [])"
proof -
  obtain t f where x: "x = (t, f)" by (cases x)
  let ?p = "snd (Push newAudioPlayoutBuffer t f (Some c))"
  have p: "flowing x ?p" "prefill ?p = []" "\<not> started ?p" "written (fst (Push newAudioPlayoutBuffer t f (Some c))) = []"
    by (simp_all add: x Push_def newAudioPlayoutBuffer_def flowing_def playout_ok_def Let_def)
  obtain w q where r: "push_all c ?p xs = (w, q)" by (cases "push_all c ?p xs")
  have "w @ prefill q = aligned_stream x xs" "started q \<longleftrightarrow> 1920 \<le> length (concat (aligned_stream x xs))"
      "flowing (last (x # xs)) q" "started q \<or> w = []"
    using push_all_flows [OF assms(1) p(1) assms(2) r] p(2,3) by auto
  then show ?thesis
    using r p(4) by (auto simp: x split_beta flowing_def playout_ok_def)
qed

lemma playout_in_order_witness:
  "fst (push_all 2000 newAudioPlayoutBuffer [(0, replicate 960 (1 :: int)), (960, replicate 960 2), (1920, [3])]) =
     [replicate 960 1, replicate 960 2]"
proof -
  have s: "in_step (0, replicate 960 (1 :: int)) [(960, replicate 960 2), (1920, [3])]" by simp
  have "aligned_stream (0, replicate 960 (1 :: int)) [(960, replicate 960 2), (1920, [3])] =
      [replicate 960 1, replicate 960 2]"
    by (simp add: alignAudioFrame_def FrameSamples_def Let_def)
  with playout_in_order [OF _ s, of 2000] show ?thesis
    by (auto simp: Let_def split_beta)
qed

end
