(* ===== verification/RangeCoder.thy ===== *)
theory RangeCoder
  imports Prelude
begin

text \<open>
  mlow/rangecoder.go: the range coder of the MLow codec, encoder and decoder.  The fields keep their
  widths: \<open>uint32\<close> and \<open>int32\<close> fields are 32-bit words, the signed ones compared through \<open>sint\<close>.  The
  normalization loops run while the range is at most \<open>ecCodeBot\<close>, so they never return for a range of
  zero: they are partial functions, and an operation that does not return is \<open>None\<close>.
\<close>

type_synonym i32 = "32 word"

definition ecSymBits :: nat where "ecSymBits = 8"
definition ecCodeBits :: nat where "ecCodeBits = 32"
definition ecSymMax :: u32 where "ecSymMax = 255"
definition ecCodeTop :: u32 where "ecCodeTop = push_bit (ecCodeBits - 1) 1"
definition ecCodeBot :: u32 where "ecCodeBot = drop_bit ecSymBits ecCodeTop"
definition ecCodeExtra :: nat where "ecCodeExtra = (ecCodeBits - 2) mod ecSymBits + 1"
definition ecWindowSize :: nat where "ecWindowSize = 32"
definition ecUintBits :: nat where "ecUintBits = 8"
definition ecCodeShift :: nat where "ecCodeShift = ecCodeBits - ecSymBits - 1"

lemma ec_constants [simp]:
  "ecSymBits = 8" "ecCodeBits = 32" "ecSymMax = 255" "ecCodeTop = 0x80000000" "ecCodeBot = 0x800000"
  "ecCodeExtra = 7" "ecWindowSize = 32" "ecUintBits = 8" "ecCodeShift = 23"
  by (simp_all add: ecSymBits_def ecCodeBits_def ecSymMax_def ecCodeTop_def ecCodeBot_def ecCodeExtra_def
      ecWindowSize_def ecUintBits_def ecCodeShift_def)

text \<open>\<open>bits.Len32\<close>.\<close>

fun bit_len :: "nat \<Rightarrow> nat" where
  "bit_len n = (if n = 0 then 0 else Suc (bit_len (n div 2)))"

declare bit_len.simps [simp del]

definition ilog :: "u32 \<Rightarrow> i32" where
  "ilog x = of_nat (bit_len (unat x))"

definition ecMini :: "u32 \<Rightarrow> u32 \<Rightarrow> u32" where
  "ecMini a b = (if a < b then a else b)"

section \<open>The decoder\<close>

record RangeDecoder =
  dBuf :: bytes
  dStorage :: u32
  dEndOffs :: u32
  dEndWindow :: u32
  dNendBits :: i32
  dNbitsTotal :: i32
  dOffs :: u32
  dRng :: u32
  dVal :: u32
  dExt :: u32
  dRem :: i32
  dErr :: i32

definition readByte :: "RangeDecoder \<Rightarrow> u32 \<times> RangeDecoder" where
  "readByte d =
     (if dOffs d < dStorage d then (ucast (dBuf d ! unat (dOffs d)), d\<lparr>dOffs := dOffs d + 1\<rparr>) else (0, d))"

definition readByteFromEnd :: "RangeDecoder \<Rightarrow> u32 \<times> RangeDecoder" where
  "readByteFromEnd d =
     (if dEndOffs d < dStorage d
      then (ucast (dBuf d ! unat (dStorage d - (dEndOffs d + 1))), d\<lparr>dEndOffs := dEndOffs d + 1\<rparr>)
      else (0, d))"

text \<open>The body of the decoder's normalization loop.\<close>

definition dec_shift :: "RangeDecoder \<Rightarrow> RangeDecoder" where
  "dec_shift d =
     (let d1 = d\<lparr>dNbitsTotal := dNbitsTotal d + of_nat ecSymBits, dRng := push_bit ecSymBits (dRng d)\<rparr>;
          sym0 = dRem d1;
          (b, d2) = readByte d1;
          sym = signed_drop_bit (ecSymBits - ecCodeExtra) (push_bit ecSymBits sym0 OR b)
      in d2\<lparr>dRem := b, dVal := (push_bit ecSymBits (dVal d2) + (ecSymMax AND NOT sym)) AND (ecCodeTop - 1)\<rparr>)"

partial_function (option) dec_normalize :: "RangeDecoder \<Rightarrow> RangeDecoder option" where
  "dec_normalize d = (if dRng d \<le> ecCodeBot then dec_normalize (dec_shift d) else Some d)"

definition NewRangeDecoder :: "bytes \<Rightarrow> RangeDecoder option" where
  "NewRangeDecoder buf =
     (let d = \<lparr>dBuf = buf, dStorage = of_nat (length buf), dEndOffs = 0, dEndWindow = 0, dNendBits = 0,
            dNbitsTotal = of_nat (ecCodeBits + 1 - ((ecCodeBits - ecCodeExtra) div ecSymBits) * ecSymBits),
            dOffs = 0, dRng = push_bit ecCodeExtra 1, dVal = 0, dExt = 0, dRem = 0, dErr = 0\<rparr>;
          (b, d1) = readByte d
      in dec_normalize (d1\<lparr>dRem := b,
           dVal := dRng d1 - 1 - signed_drop_bit (ecSymBits - ecCodeExtra) b\<rparr>))"

definition Decode :: "RangeDecoder \<Rightarrow> u32 \<Rightarrow> u32 \<times> RangeDecoder" where
  "Decode d ft =
     (if ft = 0 then (0, d\<lparr>dErr := 1, dExt := 1\<rparr>)
      else
        let ext = dRng d div ft
        in if ext = 0 then (0, d\<lparr>dErr := 1, dExt := 1\<rparr>)
           else (ft - ecMini (dVal d div ext + 1) ft, d\<lparr>dExt := ext\<rparr>))"

definition decodeBin :: "RangeDecoder \<Rightarrow> u32 \<Rightarrow> u32 \<times> RangeDecoder" where
  "decodeBin d bitsN =
     (let ext = drop_bit (unat bitsN) (dRng d)
      in if ext = 0 then (0, d\<lparr>dErr := 1, dExt := 1\<rparr>)
         else (push_bit (unat bitsN) 1 - ecMini (dVal d div ext + 1) (push_bit (unat bitsN) 1), d\<lparr>dExt := ext\<rparr>))"

definition Update :: "RangeDecoder \<Rightarrow> u32 \<Rightarrow> u32 \<Rightarrow> u32 \<Rightarrow> RangeDecoder option" where
  "Update d fl fh ft =
     (let s = dExt d * (ft - fh)
      in dec_normalize (d\<lparr>dVal := dVal d - s,
           dRng := (if fl > 0 then dExt d * (fh - fl) else dRng d - s)\<rparr>))"

definition DecodeRawSymbol :: "RangeDecoder \<Rightarrow> u32 \<Rightarrow> (u32 \<times> RangeDecoder) option" where
  "DecodeRawSymbol d nbits =
     (let (sym, d1) = decodeBin d nbits
      in map_option (Pair sym) (Update d1 sym (sym + 1) (push_bit (unat nbits) 1)))"

definition BitLogp :: "RangeDecoder \<Rightarrow> u32 \<Rightarrow> (i32 \<times> RangeDecoder) option" where
  "BitLogp d logp =
     (let s = drop_bit (unat logp) (dRng d);
          ret = (if dVal d < s then 1 else 0)
      in map_option (Pair ret)
           (dec_normalize (if ret = 0 then d\<lparr>dVal := dVal d - s, dRng := dRng d - s\<rparr> else d\<lparr>dRng := s\<rparr>)))"

text \<open>The search of \<open>DecodeICDF\<close>: the index, and the bounds \<open>t\<close> and \<open>s\<close> when it stops.\<close>

fun icdf_search :: "u32 \<Rightarrow> u32 \<Rightarrow> u32 \<Rightarrow> nat \<Rightarrow> bytes \<Rightarrow> nat \<times> u32 \<times> u32" where
  "icdf_search r dv t ret [] = (ret, t, t)"
| "icdf_search r dv t ret (x # xs) =
     (let s = r * ucast x in if s \<le> dv \<or> xs = [] then (ret, t, s) else icdf_search r dv s (Suc ret) xs)"

definition DecodeICDF :: "RangeDecoder \<Rightarrow> bytes \<Rightarrow> u32 \<Rightarrow> (i32 \<times> RangeDecoder) option" where
  "DecodeICDF d icdf ftb =
     (if icdf = [] then Some (0, d\<lparr>dErr := 1\<rparr>)
      else
        let r = drop_bit (unat ftb) (dRng d);
            (ret, t, s) = icdf_search r (dVal d) (dRng d) 0 icdf
        in map_option (Pair (of_nat ret)) (dec_normalize (d\<lparr>dVal := dVal d - s, dRng := t - s\<rparr>)))"

text \<open>The search of \<open>DecodeCDF\<close> runs over the entries after the first.\<close>

fun cdf_search :: "u32 \<Rightarrow> u16 list \<Rightarrow> nat" where
  "cdf_search target [] = 0"
| "cdf_search target (c # cs) = (if target < ucast c then 0 else Suc (cdf_search target cs))"

definition DecodeCDF :: "RangeDecoder \<Rightarrow> u16 list \<Rightarrow> (i32 \<times> RangeDecoder) option" where
  "DecodeCDF d cdf =
     (if length cdf < 2 then Some (0, d\<lparr>dErr := 1\<rparr>)
      else
        let base = ucast (cdf ! 0); top = ucast (cdf ! (length cdf - 1))
        in if top \<le> base then Some (0, d\<lparr>dErr := 1\<rparr>)
           else
             let ft = top - base;
                 (fs, d1) = Decode d ft;
                 k = cdf_search (base + fs) (tl cdf)
             in map_option (Pair (of_nat k))
                  (Update d1 (ucast (cdf ! k) - base) (ucast (cdf ! (k + 1)) - base) ft))"

text \<open>The loop that refills the window of raw bits.\<close>

function refill :: "RangeDecoder \<Rightarrow> u32 \<Rightarrow> i32 \<Rightarrow> u32 \<times> i32 \<times> RangeDecoder" where
  "refill d window available =
     (let (b, d1) = readByteFromEnd d;
          window1 = window OR push_bit (unat available) b;
          available1 = available + of_nat ecSymBits
      in if of_nat (ecWindowSize - ecSymBits) < available1 then (window1, available1, d1)
         else refill d1 window1 available1)"
  by pat_completeness auto
termination
proof (relation "measure (\<lambda>(d, w, a). if unat a \<le> 24 then 24 - unat a else 100)", goal_cases)
  case 1
  show ?case by simp
next
  case (2 d w a r b d1 w1 a1)
  then have "unat (a + 8) \<le> 24" by (simp add: word_le_nat_alt not_less)
  then show ?case using 2 by (auto simp: unat_word_ariths)
qed

definition BitsN :: "RangeDecoder \<Rightarrow> u32 \<Rightarrow> u32 \<times> RangeDecoder" where
  "BitsN d n =
     (let (window, available, d1) =
            (if dNendBits d < n then refill d (dEndWindow d) (dNendBits d)
             else (dEndWindow d, dNendBits d, d))
      in (window AND (push_bit (unat n) 1 - 1),
          d1\<lparr>dEndWindow := drop_bit (unat n) window, dNendBits := available - n,
             dNbitsTotal := dNbitsTotal d1 + n\<rparr>))"

definition DecodeUint :: "RangeDecoder \<Rightarrow> u32 \<Rightarrow> (u32 \<times> RangeDecoder) option" where
  "DecodeUint d ft0 =
     (let ft = ft0 - 1; ftb = ilog ft
      in if int ecUintBits < sint ftb then
           let b = unat (ftb - of_nat ecUintBits);
               t = drop_bit b ft + 1;
               (s, d1) = Decode d t
           in (case Update d1 s (s + 1) t of
                 None \<Rightarrow> None
               | Some d2 \<Rightarrow>
                   let (low, d3) = BitsN d2 (of_nat b); v = push_bit b s OR low
                   in if v \<le> ft then Some (v, d3) else Some (ft, d3\<lparr>dErr := 1\<rparr>))
         else
           let (s, d1) = Decode d (ft + 1)
           in map_option (Pair s) (Update d1 s (s + 1) (ft + 1)))"

definition Decode64FineSym :: "RangeDecoder \<Rightarrow> (i32 \<times> RangeDecoder) option" where
  "Decode64FineSym d =
     (let ext = drop_bit 6 (dRng d)
      in if ext = 0 then Some (0, d\<lparr>dErr := 1, dExt := 1\<rparr>)
         else
           let s = 63 - int (unat (dVal d div ext));
               sym = (if s < 0 then 0 else if s > 64 then 64 else s)
           in map_option (Pair (of_int sym))
                (Update (d\<lparr>dExt := ext\<rparr>) (of_int sym) (of_int sym + 1) 64))"

definition Tell :: "RangeDecoder \<Rightarrow> i32" where
  "Tell d = dNbitsTotal d - ilog (dRng d)"

section \<open>The encoder\<close>

record RangeEncoder =
  eBuf :: bytes
  eStorage :: u32
  eEndOffs :: u32
  eEndWindow :: u32
  eNendBits :: i32
  eNbitsTotal :: i32
  eOffs :: u32
  eRng :: u32
  eVal :: u32
  eExt :: u32
  eRem :: i32
  eErr :: i32

definition NewRangeEncoder :: "nat \<Rightarrow> RangeEncoder" where
  "NewRangeEncoder size' =
     \<lparr>eBuf = replicate size' 0, eStorage = of_nat size', eEndOffs = 0, eEndWindow = 0, eNendBits = 0,
      eNbitsTotal = of_nat ecCodeBits + 1, eOffs = 0, eRng = ecCodeTop, eVal = 0, eExt = 0,
      eRem = - 1, eErr = 0\<rparr>"

definition writeByte :: "RangeEncoder \<Rightarrow> u32 \<Rightarrow> RangeEncoder" where
  "writeByte e b =
     (if eOffs e + eEndOffs e < eStorage e
      then e\<lparr>eBuf := (eBuf e)[unat (eOffs e) := ucast b], eOffs := eOffs e + 1\<rparr>
      else e\<lparr>eErr := - 1\<rparr>)"

definition writeByteAtEnd :: "RangeEncoder \<Rightarrow> u32 \<Rightarrow> RangeEncoder" where
  "writeByteAtEnd e b =
     (if eOffs e + eEndOffs e < eStorage e
      then e\<lparr>eEndOffs := eEndOffs e + 1,
             eBuf := (eBuf e)[unat (eStorage e - (eEndOffs e + 1)) := ucast b]\<rparr>
      else e\<lparr>eErr := - 1\<rparr>)"

text \<open>The loop of \<open>carryOut\<close> writes \<open>sym\<close> as often as \<open>ext\<close> says and leaves \<open>ext\<close> at zero.\<close>

fun write_run :: "nat \<Rightarrow> u32 \<Rightarrow> RangeEncoder \<Rightarrow> RangeEncoder" where
  "write_run 0 b e = e"
| "write_run (Suc n) b e = write_run n b (let e1 = writeByte e b in e1\<lparr>eExt := eExt e1 - 1\<rparr>)"

definition carryOut :: "RangeEncoder \<Rightarrow> i32 \<Rightarrow> RangeEncoder" where
  "carryOut e c =
     (if c \<noteq> ecSymMax then
        let carry = signed_drop_bit ecSymBits c;
            e1 = (if 0 \<le> sint (eRem e) then writeByte e (eRem e + carry) else e);
            e2 = (if 0 < eExt e1 then write_run (unat (eExt e1)) ((ecSymMax + carry) AND ecSymMax) e1 else e1)
        in e2\<lparr>eRem := c AND ecSymMax\<rparr>
      else e\<lparr>eExt := eExt e + 1\<rparr>)"

text \<open>The body of the encoder's normalization loop.\<close>

definition enc_shift :: "RangeEncoder \<Rightarrow> RangeEncoder" where
  "enc_shift e =
     (let e1 = carryOut e (drop_bit ecCodeShift (eVal e))
      in e1\<lparr>eVal := push_bit ecSymBits (eVal e1) AND (ecCodeTop - 1), eRng := push_bit ecSymBits (eRng e1),
            eNbitsTotal := eNbitsTotal e1 + of_nat ecSymBits\<rparr>)"

partial_function (option) enc_normalize :: "RangeEncoder \<Rightarrow> RangeEncoder option" where
  "enc_normalize e = (if eRng e \<le> ecCodeBot then enc_normalize (enc_shift e) else Some e)"

definition Encode :: "RangeEncoder \<Rightarrow> u32 \<Rightarrow> u32 \<Rightarrow> u32 \<Rightarrow> RangeEncoder option" where
  "Encode e fl fh ft =
     (if ft = 0 then Some (e\<lparr>eErr := - 1\<rparr>)
      else
        let r = eRng e div ft
        in enc_normalize
             (if fl > 0 then e\<lparr>eVal := eVal e + (eRng e - r * (ft - fl)), eRng := r * (fh - fl)\<rparr>
              else e\<lparr>eRng := eRng e - r * (ft - fh)\<rparr>))"

definition EncodeBitLogp :: "RangeEncoder \<Rightarrow> i32 \<Rightarrow> u32 \<Rightarrow> RangeEncoder option" where
  "EncodeBitLogp e val logp =
     (let r = eRng e; l = eVal e; s = drop_bit (unat logp) r; r2 = r - s
      in enc_normalize (if val \<noteq> 0 then e\<lparr>eVal := l + r2, eRng := s\<rparr> else e\<lparr>eRng := r2\<rparr>))"

text \<open>The difference of two table entries is taken on bytes, as in the code.\<close>

definition EncodeICDF :: "RangeEncoder \<Rightarrow> i32 \<Rightarrow> bytes \<Rightarrow> u32 \<Rightarrow> RangeEncoder option" where
  "EncodeICDF e s icdf ftb =
     (let r = drop_bit (unat ftb) (eRng e); i = unat s
      in enc_normalize
           (if 0 < sint s
            then e\<lparr>eVal := eVal e + (eRng e - r * ucast (icdf ! (i - 1))),
                   eRng := r * ucast (icdf ! (i - 1) - icdf ! i)\<rparr>
            else e\<lparr>eRng := eRng e - r * ucast (icdf ! i)\<rparr>))"

definition EncodeCDF :: "RangeEncoder \<Rightarrow> i32 \<Rightarrow> u16 list \<Rightarrow> RangeEncoder option" where
  "EncodeCDF e s cdf =
     (let n = length cdf
      in if n < 2 \<or> sint s < 0 \<or> int n \<le> sint (s + 1) then Some (e\<lparr>eErr := - 1\<rparr>)
         else
           let base = ucast (cdf ! 0); top = ucast (cdf ! (n - 1))
           in if top \<le> base then Some (e\<lparr>eErr := - 1\<rparr>)
              else Encode e (ucast (cdf ! unat s) - base) (ucast (cdf ! unat (s + 1)) - base) (top - base))"

lemma unat_less_iff: "unat (w :: 'a::len word) < n \<longleftrightarrow> uint w < int n"
  by (metis of_nat_less_iff of_nat_unat ucast_id)

lemma sint_unat: "unat (w :: i32) < 2147483648 \<Longrightarrow> sint w = int (unat w)"
  by (simp add: sint_uint unat_less_iff) (rule signed_take_bit_int_eq_self, simp_all add: order.trans [OF _ uint_ge_0 [of w]])

lemma sint_nonneg: "0 \<le> sint (w :: i32) \<longleftrightarrow> unat w < 2147483648"
proof
  assume "0 \<le> sint w"
  moreover have "sint w < 2147483648" using sint_lt [of w] by simp
  ultimately have "uint w = sint w" by (simp add: uint_sint take_bit_int_eq_self)
  with \<open>sint w < 2147483648\<close> show "unat w < 2147483648" by (simp add: unat_less_iff)
qed (simp add: sint_unat)

lemma sint_ge_8: "8 \<le> sint (w :: i32) \<Longrightarrow> unat w < 2147483648 \<and> 8 \<le> unat w"
  using sint_nonneg [of w] sint_unat [of w] by (metis dual_order.trans nat_int of_nat_le_iff of_nat_numeral zero_le_numeral)

text \<open>The loop that drains the window of raw bits.\<close>

function drain_window :: "RangeEncoder \<Rightarrow> u32 \<Rightarrow> i32 \<Rightarrow> RangeEncoder \<times> u32 \<times> i32" where
  "drain_window e window used =
     (let e1 = writeByteAtEnd e (window AND ecSymMax);
          window1 = drop_bit ecSymBits window;
          used1 = used - of_nat ecSymBits
      in if sint used1 < int ecSymBits then (e1, window1, used1) else drain_window e1 window1 used1)"
  by pat_completeness auto

termination
proof (relation "measure (\<lambda>(e, w, u). unat u)", goal_cases)
  case 1
  show ?case by simp
next
  case (2 e w u e1 w1 u1)
  then have "unat (u - 8) < 2147483648 \<and> 8 \<le> unat (u - 8)" by (intro sint_ge_8) simp
  then show ?case using 2 by (auto simp: unat_sub_if' split: if_splits)
qed

text \<open>\<open>BitsN\<close> of the encoder.\<close>

definition EncodeBitsN :: "RangeEncoder \<Rightarrow> u32 \<Rightarrow> u32 \<Rightarrow> RangeEncoder" where
  "EncodeBitsN e fl n =
     (let (e1, window, used) =
            (if int ecWindowSize < sint (eNendBits e + n) then drain_window e (eEndWindow e) (eNendBits e)
             else (e, eEndWindow e, eNendBits e))
      in e1\<lparr>eEndWindow := window OR push_bit (unat used) fl, eNendBits := used + n,
            eNbitsTotal := eNbitsTotal e1 + n\<rparr>)"

definition EncodeUint :: "RangeEncoder \<Rightarrow> u32 \<Rightarrow> u32 \<Rightarrow> RangeEncoder option" where
  "EncodeUint e fl ft0 =
     (let ft = ft0 - 1; ftb = ilog ft
      in if int ecUintBits < sint ftb then
           let shift = unat (ftb - of_nat ecUintBits); t = drop_bit shift ft + 1
           in map_option (\<lambda>e1. EncodeBitsN e1 (fl AND (push_bit shift 1 - 1)) (of_nat shift))
                (Encode e (drop_bit shift fl) (drop_bit shift fl + 1) t)
         else Encode e fl (fl + 1) (ft + 1))"

definition EncodeRawSymbol :: "RangeEncoder \<Rightarrow> u32 \<Rightarrow> u32 \<Rightarrow> RangeEncoder option" where
  "EncodeRawSymbol e s nbits = Encode e s (s + 1) (push_bit (unat nbits) 1)"

definition Encode64FineSym :: "RangeEncoder \<Rightarrow> i32 \<Rightarrow> RangeEncoder option" where
  "Encode64FineSym e s = Encode e s (s + 1) 64"

text \<open>The two loops of \<open>Done\<close>: the remaining bits of the range coder, at most five rounds for an \<open>l\<close>
  up to 33, and the whole bytes of the raw-bit window.\<close>

fun flush_front :: "nat \<Rightarrow> RangeEncoder \<Rightarrow> i32 \<Rightarrow> u32 \<Rightarrow> RangeEncoder" where
  "flush_front 0 e l end' = e"
| "flush_front (Suc n) e l end' =
     (if 0 < sint l
      then flush_front n (carryOut e (drop_bit ecCodeShift end')) (l - of_nat ecSymBits)
             (push_bit ecSymBits end' AND (ecCodeTop - 1))
      else e)"

function flush_back :: "RangeEncoder \<Rightarrow> u32 \<Rightarrow> i32 \<Rightarrow> RangeEncoder \<times> u32 \<times> i32" where
  "flush_back e window used =
     (if int ecSymBits \<le> sint used
      then flush_back (writeByteAtEnd e (window AND ecSymMax)) (drop_bit ecSymBits window) (used - of_nat ecSymBits)
      else (e, window, used))"
  by pat_completeness auto
termination
proof (relation "measure (\<lambda>(e, w, u). unat u)", goal_cases)
  case 1
  show ?case by simp
next
  case (2 e w u)
  then have "8 \<le> unat u" using sint_ge_8 [of u] by simp
  then show ?case by (simp add: unat_sub_if')
qed

definition zero_fill :: "RangeEncoder \<Rightarrow> bytes" where
  "zero_fill e =
     (let a = unat (eOffs e); b = unat (eStorage e - eEndOffs e)
      in if a < b then take a (eBuf e) @ replicate (b - a) 0 @ drop b (eBuf e) else eBuf e)"

text \<open>The number of bits to flush and the value they are taken from.\<close>

definition flush_plan :: "RangeEncoder \<Rightarrow> i32 \<times> u32" where
  "flush_plan e =
     (let l = of_nat ecCodeBits - ilog (eRng e);
          msk = drop_bit (unat l) (ecCodeTop - 1);
          end' = (eVal e + msk) AND NOT msk
      in if eVal e + eRng e \<le> (end' OR msk)
         then (l + 1, (eVal e + drop_bit 1 msk) AND NOT (drop_bit 1 msk)) else (l, end'))"

definition Done :: "RangeEncoder \<Rightarrow> RangeEncoder" where
  "Done e =
     (let (l, end') = flush_plan e;
          e1 = flush_front 5 e l end';
          e2 = (if 0 \<le> sint (eRem e1) \<or> 0 < eExt e1 then carryOut e1 0 else e1);
          (e3, window, used) = flush_back e2 (eEndWindow e2) (eNendBits e2)
      in if eErr e3 \<noteq> 0 then e3
         else
           let e4 = e3\<lparr>eBuf := zero_fill e3\<rparr>
           in if 0 < sint used then
                (if eStorage e4 - eOffs e4 \<le> eEndOffs e4 then e4\<lparr>eErr := - 1\<rparr>
                 else
                   let i = unat (eStorage e4 - eEndOffs e4 - 1)
                   in e4\<lparr>eBuf := (eBuf e4)[i := (eBuf e4 ! i) OR ucast window]\<rparr>)
              else e4)"

definition ConsumedLen :: "RangeEncoder \<Rightarrow> nat" where
  "ConsumedLen e = unat (eOffs e + eEndOffs e)"

declare dec_normalize.simps [code] enc_normalize.simps [code]

end
