(* ===== verification/RangeTrip.thy ===== *)
theory RangeTrip
  imports RangeCoder
begin

text \<open>
  The range coder is exact.  The encoder's state stands for an interval of numbers: the bytes written,
  the byte held back and the run of 255s behind it are the digits of a number to the base 256, \<open>val\<close>
  are the 31 bits after them (and a carry), \<open>rng\<close> is the width.  Coding a symbol narrows the interval,
  normalizing scales it; the decoder keeps the distance of the code from the upper end.
\<close>

section \<open>Bytes and digits\<close>

lemma unat_plus: "unat (a :: 'a::len word) + unat b < 2 ^ LENGTH('a) \<Longrightarrow> unat (a + b) = unat a + unat b"
  by (simp add: unat_word_ariths)

lemma unat_minus: "unat b \<le> unat (a :: 'a::len word) \<Longrightarrow> unat (a - b) = unat a - unat b"
  by (simp add: unat_sub_if')

lemma unat_times: "unat (a :: 'a::len word) * unat b < 2 ^ LENGTH('a) \<Longrightarrow> unat (a * b) = unat a * unat b"
  by (simp add: unat_word_ariths)

lemma unat_lt_u32: "unat (w :: u32) < 4294967296"
  using unsigned_less [of w, where ?'a = nat] by simp

lemma unat_lt_u8: "unat (w :: u8) < 256"
  using unsigned_less [of w, where ?'a = nat] by simp

lemma unat_neq: "w \<noteq> v \<Longrightarrow> unat w \<noteq> unat v"
  by (simp add: word_unat_eq_iff)

lemma be_nat_carry: "r \<noteq> 255 \<Longrightarrow>
    be_nat (f @ [r + 1] @ replicate n 0) = be_nat (f @ [r] @ replicate n 255) + 1"
proof (induction n)
  case 0
  have "unat (r + 1) = unat r + 1"
    using unat_neq [OF 0] unat_lt_u8 [of r] by (subst unat_plus) simp_all
  then show ?case by (simp add: be_nat_append be_nat_def)
next
  case (Suc n)
  then show ?case
    using be_nat_snoc [of "f @ [r + 1] @ replicate n 0" 0] be_nat_snoc [of "f @ [r] @ replicate n 255" 255]
    by (simp add: replicate_append_same)
qed

definition front :: "RangeEncoder \<Rightarrow> bytes" where
  "front e = take (unat (eOffs e)) (eBuf e)"

definition chain :: "RangeEncoder \<Rightarrow> bytes" where
  "chain e = (if 0 \<le> sint (eRem e) then [ucast (eRem e)] else []) @ replicate (unat (eExt e)) 255"

definition digits :: "RangeEncoder \<Rightarrow> bytes" where
  "digits e = front e @ chain e"

text \<open>The buffer: the two ends do not meet, and the byte held back is a byte or absent.\<close>

definition enc_geo :: "RangeEncoder \<Rightarrow> bool" where
  "enc_geo e \<longleftrightarrow> unat (eOffs e) + unat (eEndOffs e) \<le> unat (eStorage e) \<and>
     unat (eStorage e) \<le> length (eBuf e) \<and> (eRem e = - 1 \<or> unat (eRem e) \<le> 255)"

lemma writeByte_ok:
  assumes "enc_geo e" and "eErr (writeByte e b) = 0"
  shows "eErr e = 0 \<and> enc_geo (writeByte e b) \<and> front (writeByte e b) = front e @ [ucast b] \<and>
    unat (eOffs (writeByte e b)) = unat (eOffs e) + 1"
proof -
  have s: "unat (eOffs e + eEndOffs e) = unat (eOffs e) + unat (eEndOffs e)"
    using assms(1) unat_lt_u32 [of "eStorage e"] by (intro unat_plus) (simp add: enc_geo_def)
  have fits: "eOffs e + eEndOffs e < eStorage e" using assms(2) by (auto simp: writeByte_def split: if_splits)
  then have lt: "unat (eOffs e) + unat (eEndOffs e) < unat (eStorage e)" using s by (simp add: word_less_nat_alt)
  then have o': "unat (eOffs e + 1) = unat (eOffs e) + 1"
    using unat_lt_u32 [of "eStorage e"] by (subst unat_plus) simp_all
  show ?thesis
    using assms fits lt o' by (auto simp: writeByte_def enc_geo_def front_def take_Suc_conv_app_nth)
qed


lemma writeByte_fields [simp]:
  "eStorage (writeByte e b) = eStorage e" "eEndOffs (writeByte e b) = eEndOffs e"
  "eEndWindow (writeByte e b) = eEndWindow e" "eNendBits (writeByte e b) = eNendBits e"
  "eRng (writeByte e b) = eRng e" "eVal (writeByte e b) = eVal e" "eExt (writeByte e b) = eExt e"
  "eRem (writeByte e b) = eRem e"
  by (simp_all add: writeByte_def)

lemma write_run_fields [simp]:
  "eStorage (write_run n b e) = eStorage e" "eEndOffs (write_run n b e) = eEndOffs e"
  "eEndWindow (write_run n b e) = eEndWindow e" "eNendBits (write_run n b e) = eNendBits e"
  "eRng (write_run n b e) = eRng e" "eVal (write_run n b e) = eVal e" "eRem (write_run n b e) = eRem e"
  by (induction n arbitrary: e) (simp_all add: Let_def)

lemma front_ext [simp]: "front (e\<lparr>eExt := x\<rparr>) = front e" "front (e\<lparr>eRem := r\<rparr>) = front e"
  "enc_geo (e\<lparr>eExt := x\<rparr>) = enc_geo e"
  by (simp_all add: front_def enc_geo_def)

lemma write_run_ok:
  "enc_geo e \<Longrightarrow> eErr (write_run n b e) = 0 \<Longrightarrow> n \<le> unat (eExt e) \<Longrightarrow>
   eErr e = 0 \<and> enc_geo (write_run n b e) \<and> front (write_run n b e) = front e @ replicate n (ucast b) \<and>
   unat (eExt (write_run n b e)) = unat (eExt e) - n"
proof (induction n arbitrary: e)
  case 0
  then show ?case by simp
next
  case (Suc n)
  define e1 where "e1 = (writeByte e b)\<lparr>eExt := eExt e - 1\<rparr>"
  have run: "write_run (Suc n) b e = write_run n b e1" by (simp add: e1_def Let_def)
  have x: "unat (eExt e1) = unat (eExt e) - 1"
    using Suc.prems(3) by (simp add: e1_def unat_minus)
  have geo: "enc_geo (writeByte e b)"
    using Suc.prems(1) unat_lt_u32 [of "eStorage e"]
    by (auto simp: writeByte_def enc_geo_def word_less_nat_alt unat_word_ariths)
  have IH: "eErr e1 = 0 \<and> enc_geo (write_run n b e1) \<and>
      front (write_run n b e1) = front e1 @ replicate n (ucast b) \<and>
      unat (eExt (write_run n b e1)) = unat (eExt e1) - n"
    using Suc.prems(2,3) geo x run by (intro Suc.IH) (simp_all add: e1_def)
  then have w: "eErr (writeByte e b) = 0" by (simp add: e1_def)
  note W = writeByte_ok [OF Suc.prems(1) w]
  show ?case using IH W x by (simp add: run e1_def)
qed

lemma unat_drop_bit: "unat (drop_bit n (w :: 'a::len word)) = unat w div 2 ^ n"
  unfolding unsigned_drop_bit_eq
  by (simp add: take_bit_nat_eq_self unsigned_less drop_bit_eq_div)

lemma signed_drop_nonneg:
  assumes "unat (c :: i32) < 2147483648"
  shows "signed_drop_bit n c = drop_bit n c"
proof (rule bit_word_eqI)
  fix m
  assume "m < LENGTH(32)"
  have "\<not> bit c 31" using assms sint_nonneg [of c] bit_last_iff [of c] by simp
  then show "bit (signed_drop_bit n c) m \<longleftrightarrow> bit (drop_bit n c) m"
    by (auto simp: bit_signed_drop_bit_iff bit_drop_bit_eq)
qed

lemma carry_bit: "unat c < 512 \<Longrightarrow> signed_drop_bit 8 (c :: i32) = (if 256 \<le> unat c then 1 else 0)"
  by (auto simp: signed_drop_nonneg word_unat_eq_iff unat_drop_bit)

lemma low_byte: "unat (c AND 255 :: 32 word) = unat c mod 256"
proof -
  have "c AND 255 = take_bit 8 c" using take_bit_eq_mask [of 8 c] by (simp add: mask_eq_exp_minus_1)
  then show ?thesis by (simp add: take_bit_eq_mod unat_mod)
qed


lemma carryOut_fields [simp]:
  "eStorage (carryOut e c) = eStorage e" "eEndOffs (carryOut e c) = eEndOffs e"
  "eEndWindow (carryOut e c) = eEndWindow e" "eNendBits (carryOut e c) = eNendBits e"
  "eRng (carryOut e c) = eRng e" "eVal (carryOut e c) = eVal e"
  by (simp_all add: carryOut_def Let_def)

lemma enc_geo_writeByte: "enc_geo e \<Longrightarrow> enc_geo (writeByte e b)"
  using unat_lt_u32 [of "eStorage e"]
  by (auto simp: writeByte_def enc_geo_def word_less_nat_alt unat_word_ariths)

lemma enc_geo_write_run: "enc_geo e \<Longrightarrow> enc_geo (write_run n b e)"
  by (induction n arbitrary: e) (simp_all add: Let_def enc_geo_writeByte)

lemma eErr_writeByte: "eErr (writeByte e b) = 0 \<Longrightarrow> eErr e = 0"
  by (auto simp: writeByte_def split: if_splits)

lemma eErr_write_run: "eErr (write_run n b e) = 0 \<Longrightarrow> eErr e = 0"
proof (induction n arbitrary: e)
  case (Suc n)
  have "eErr ((writeByte e b)\<lparr>eExt := eExt e - 1\<rparr>) = 0"
    by (rule Suc.IH) (use Suc.prems in \<open>simp add: Let_def\<close>)
  then have "eErr (writeByte e b) = 0" by simp
  then show ?case by (rule eErr_writeByte)
qed simp

lemma enc_geo_carryOut: "enc_geo e \<Longrightarrow> enc_geo (carryOut e c)"
proof -
  have "enc_geo e \<Longrightarrow> enc_geo (e\<lparr>eRem := c AND 255\<rparr>)" for e
    using low_byte [of c] by (auto simp: enc_geo_def)
  moreover assume "enc_geo e"
  ultimately show ?thesis
    by (auto simp: carryOut_def Let_def enc_geo_writeByte enc_geo_write_run)
qed

lemma eErr_carryOut: "eErr (carryOut e c) = 0 \<Longrightarrow> eErr e = 0"
  by (auto simp: carryOut_def Let_def split: if_splits dest: eErr_writeByte eErr_write_run)

text \<open>A carry is only taken when there is a byte held back that can absorb it.\<close>

definition absorbs :: "RangeEncoder \<Rightarrow> bool" where
  "absorbs e \<longleftrightarrow> eRem e \<noteq> - 1 \<and> unat (eRem e) < 255"

lemma rem_cases: "enc_geo e \<Longrightarrow> eRem e = - 1 \<or> (0 \<le> sint (eRem e) \<and> unat (eRem e) \<le> 255)"
  by (auto simp: enc_geo_def sint_nonneg)

lemma carryOut_digits:
  assumes geo: "enc_geo e" and err: "eErr (carryOut e c) = 0" and c: "unat c < 512"
    and safe: "256 \<le> unat c \<Longrightarrow> absorbs e" and ext: "unat (eExt e) < 4294967295"
  shows "eErr e = 0 \<and> enc_geo (carryOut e c) \<and>
    be_nat (digits (carryOut e c)) = 256 * be_nat (digits e) + unat c \<and>
    length (digits (carryOut e c)) = Suc (length (digits e)) \<and>
    (if c = 255 then eRem (carryOut e c) = eRem e
     else eExt (carryOut e c) = 0 \<and> unat (eRem (carryOut e c)) = unat c mod 256) \<and>
    (c \<noteq> 255 \<longrightarrow> unat (eOffs (carryOut e c)) = length (digits e))"
proof (cases "c = 255")
  case True
  have "unat (eExt e + 1) = unat (eExt e) + 1" using ext by (subst unat_plus) simp_all
  then have "chain (carryOut e c) = chain e @ [255]"
    using True by (simp add: carryOut_def chain_def replicate_append_same)
  then have "digits (carryOut e c) = digits e @ [255]"
    using True by (simp add: digits_def carryOut_def front_def)
  then show ?thesis using True geo err by (simp add: be_nat_snoc) (simp add: carryOut_def enc_geo_def)
next
  case False
  define carry :: i32 where "carry = (if 256 \<le> unat c then 1 else 0)"
  define b :: u32 where "b = (255 + carry) AND 255"
  define e1 where "e1 = (if 0 \<le> sint (eRem e) then writeByte e (eRem e + carry) else e)"
  define e2 where "e2 = (if 0 < eExt e1 then write_run (unat (eExt e1)) b e1 else e1)"
  have out: "carryOut e c = e2\<lparr>eRem := c AND 255\<rparr>"
    using False by (simp add: carryOut_def carry_bit [OF c] carry_def e1_def e2_def b_def Let_def)
  have x1: "eExt e1 = eExt e" by (simp add: e1_def)
  have geo1: "enc_geo e1"
    using geo unat_lt_u32 [of "eStorage e"]
    by (auto simp: e1_def writeByte_def enc_geo_def word_less_nat_alt unat_word_ariths)
  have R2: "eErr e1 = 0 \<and> enc_geo e2 \<and> front e2 = front e1 @ replicate (unat (eExt e)) (ucast b) \<and> eExt e2 = 0"
  proof (cases "0 < eExt e1")
    case True
    then show ?thesis
      using write_run_ok [OF geo1, of "unat (eExt e1)" b] err
      by (simp add: e2_def out x1 word_unat_eq_iff)
  next
    case False
    then have "eExt e = 0" by (metis x1 word_neq_0_conv)
    then show ?thesis using geo1 err False by (simp add: e2_def out x1)
  qed
  have R1: "eErr e = 0 \<and> front e1 = front e @ (if 0 \<le> sint (eRem e) then [ucast (eRem e + carry)] else [])"
    using R2 writeByte_ok [OF geo, of "eRem e + carry"] by (auto simp: e1_def split: if_splits)
  have rem': "unat (c AND 255) = unat c mod 256" by (rule low_byte)
  then have pos: "0 \<le> sint (c AND 255 :: i32)" by (simp add: sint_nonneg)
  have out_digits: "digits (carryOut e c) = front e @ (if 0 \<le> sint (eRem e) then [ucast (eRem e + carry)] else []) @
      replicate (unat (eExt e)) (ucast b) @ [ucast (c AND 255)]"
    using R1 R2 pos by (simp add: out digits_def chain_def)
  have last: "unat (ucast (c AND 255) :: u8) = unat c mod 256"
    using rem' by (simp add: unsigned_ucast_eq take_bit_eq_mod)
  have num: "be_nat (digits (carryOut e c)) = 256 * be_nat (digits e) + unat c"
  proof (cases "256 \<le> unat c")
    case False
    then have "carry = 0" "b = 255" by (simp_all add: carry_def b_def)
    then have "digits (carryOut e c) = digits e @ [ucast (c AND 255)]"
      unfolding out_digits by (simp add: digits_def chain_def)
    then show ?thesis using last False by (simp add: be_nat_snoc)
  next
    case True
    have a: "eRem e \<noteq> - 1" "unat (eRem e) < 255" using safe [OF True] by (simp_all add: absorbs_def)
    then have p: "0 \<le> sint (eRem e)" by (simp add: sint_nonneg)
    let ?r = "ucast (eRem e) :: u8"
    have r: "unat ?r = unat (eRem e)" using a by (simp add: unsigned_ucast_eq take_bit_eq_mod)
    have "unat (eRem e + 1) = unat (eRem e) + 1" using a by (subst unat_plus) simp_all
    then have "unat (ucast (eRem e + 1) :: u8) = unat (eRem e) + 1"
      using a by (simp add: unsigned_ucast_eq take_bit_eq_mod)
    moreover have "unat (?r + 1) = unat (eRem e) + 1" using a r by (subst unat_plus) simp_all
    ultimately have u: "ucast (eRem e + 1) = ?r + 1" by (simp add: word_unat_eq_iff)
    have "?r \<noteq> 255" using a r by auto
    have "carry = 1" "b = 0" using True by (simp_all add: carry_def b_def)
    then have "digits (carryOut e c) = (front e @ [?r + 1] @ replicate (unat (eExt e)) 0) @ [ucast (c AND 255)]"
      using p unfolding out_digits by (simp add: u)
    then have "be_nat (digits (carryOut e c)) =
        256 * be_nat (front e @ [?r + 1] @ replicate (unat (eExt e)) 0) + unat c mod 256"
      using last by (simp only: be_nat_snoc)
    also have "\<dots> = 256 * (be_nat (digits e) + 1) + unat c mod 256"
      using be_nat_carry [OF \<open>?r \<noteq> 255\<close>, of "front e" "unat (eExt e)"] p by (simp add: digits_def chain_def)
    also have "\<dots> = 256 * be_nat (digits e) + unat c"
      using True c by (simp add: le_mod_geq [OF True])
    finally show ?thesis .
  qed
  have len: "length (digits (carryOut e c)) = Suc (length (digits e))"
    unfolding out_digits by (simp add: digits_def chain_def)
  have "enc_geo e2" using R2 by blast
  then have "length (front e2) = unat (eOffs e2)" by (auto simp: front_def enc_geo_def)
  then have "unat (eOffs (carryOut e c)) = length (front e2)" by (simp add: out)
  then have "unat (eOffs (carryOut e c)) = length (digits e)"
    using R1 R2 by (simp add: digits_def chain_def)
  moreover have "enc_geo (carryOut e c)"
    using \<open>enc_geo e2\<close> rem' by (auto simp: out enc_geo_def)
  ultimately show ?thesis
    using False R1 R2 num len rem' by (simp add: out)
qed


section \<open>The interval\<close>

definition lo :: "RangeEncoder \<Rightarrow> nat" where
  "lo e = be_nat (digits e) * 2147483648 + unat (eVal e)"

text \<open>
  The interval stays within what the pending carry can reach: it never passes \<open>2 ^ 32\<close>, and not even
  \<open>2 ^ 31\<close> when the byte held back could not take a carry.
\<close>

definition enc_room :: "RangeEncoder \<Rightarrow> bool" where
  "enc_room e \<longleftrightarrow> unat (eVal e) + unat (eRng e) < 4294967296 \<and> 0 < unat (eRng e) \<and>
     unat (eRng e) \<le> 2147483648 \<and> (\<not> absorbs e \<longrightarrow> unat (eVal e) + unat (eRng e) \<le> 2147483648)"

lemma unat_push_bit: "unat (push_bit n (w :: 'a::len word)) = unat w * 2 ^ n mod 2 ^ LENGTH('a)"
  unfolding unsigned_push_bit_eq by (simp add: take_bit_eq_mod push_bit_eq_mult)

lemma unat_shift_val: "unat (push_bit 8 (v :: u32) AND 2147483647) = 256 * (unat v mod 8388608)"
proof -
  have "push_bit 8 v AND 2147483647 = take_bit 31 (push_bit 8 v)"
    using take_bit_eq_mask [of 31 "push_bit 8 v"] by (simp add: mask_eq_exp_minus_1)
  then have "unat (push_bit 8 v AND 2147483647) = unat v * 256 mod 4294967296 mod 2147483648"
    by (simp add: take_bit_eq_mod unat_mod unat_push_bit)
  also have "\<dots> = unat v * 256 mod 2147483648" by (simp add: mod_mod_cancel)
  also have "\<dots> = 256 * (unat v mod 8388608)"
    using mult_mod_right [of 256 "unat v" 8388608] by (simp add: mult.commute)
  finally show ?thesis .
qed

lemma unat_shift_rng: "unat (r :: u32) \<le> 8388608 \<Longrightarrow> unat (push_bit 8 r) = 256 * unat r"
  by (simp add: unat_push_bit)

lemma enc_shift_fields [simp]:
  "eRng (enc_shift e) = push_bit 8 (eRng e)" "eVal (enc_shift e) = push_bit 8 (eVal e) AND 2147483647"
  "eErr (enc_shift e) = eErr (carryOut e (drop_bit 23 (eVal e)))"
  "eRem (enc_shift e) = eRem (carryOut e (drop_bit 23 (eVal e)))"
  "eStorage (enc_shift e) = eStorage e" "eEndOffs (enc_shift e) = eEndOffs e"
  "eEndWindow (enc_shift e) = eEndWindow e" "eNendBits (enc_shift e) = eNendBits e"
  "digits (enc_shift e) = digits (carryOut e (drop_bit 23 (eVal e)))"
  "enc_geo (enc_shift e) = enc_geo (carryOut e (drop_bit 23 (eVal e)))"
  by (simp_all add: enc_shift_def Let_def digits_def front_def chain_def enc_geo_def)

lemma eRem_carryOut: "eRem (carryOut e c) = (if c = 255 then eRem e else c AND 255)"
  by (simp add: carryOut_def Let_def)

lemma top_digit: "unat (drop_bit 23 (v :: u32)) = unat v div 8388608" "unat (drop_bit 23 v) < 512"
  using unat_lt_u32 [of v] by (simp_all add: unat_drop_bit less_mult_imp_div_less)

lemma carry_safe: "enc_room e \<Longrightarrow> 256 \<le> unat (drop_bit 23 (eVal e)) \<Longrightarrow> absorbs e"
  by (auto simp: enc_room_def top_digit)

lemma digit_511: "n mod 256 = 255 \<Longrightarrow> n \<noteq> 255 \<Longrightarrow> n < 512 \<Longrightarrow> n = (511 :: nat)"
  by (cases "n < 256") (auto simp: le_mod_geq not_less)

lemma enc_shift_room:
  assumes "enc_room e" and "unat (eRng e) \<le> 8388608"
  shows "enc_room (enc_shift e)"
proof -
  let ?v = "unat (eVal e)" and ?r = "unat (eRng e)" and ?c = "drop_bit 23 (eVal e)"
  have r: "unat (eRng (enc_shift e)) = 256 * ?r" and v: "unat (eVal (enc_shift e)) = 256 * (?v mod 8388608)"
    using assms(2) by (simp_all add: unat_shift_rng unat_shift_val)
  have c: "unat ?c = ?v div 8388608" by (rule top_digit)
  have split: "?v = 8388608 * (?v div 8388608) + ?v mod 8388608" by simp
  have m: "?v mod 8388608 < 8388608" by simp
  have room: "?v + ?r < 4294967296" "0 < ?r" "\<not> absorbs e \<Longrightarrow> ?v + ?r \<le> 2147483648"
    using assms(1) by (simp_all add: enc_room_def)
  have tight: "?v mod 8388608 + ?r \<le> 8388608" if "\<not> absorbs (enc_shift e)"
  proof (cases "?c = 255")
    case True
    then have "\<not> absorbs e" using that by (simp add: absorbs_def eRem_carryOut)
    moreover have "?v div 8388608 = 255" using c True by simp
    ultimately show ?thesis using room(3) split by linarith
  next
    case False
    then have "\<not> unat (?c AND 255) < 255"
      using that low_byte [of ?c] by (auto simp: absorbs_def eRem_carryOut unsigned_minus_1_eq_mask mask_eq_exp_minus_1)
    then have "unat ?c mod 256 = 255" using low_byte [of ?c] by simp
    moreover have "unat ?c \<noteq> 255" using unat_neq [OF False] by simp
    ultimately have "unat ?c = 511" using top_digit(2) [of "eVal e"] by (intro digit_511)
    then show ?thesis using room(1) split c by linarith
  qed
  have "256 * (?v mod 8388608) + 256 * ?r < 4294967296" using m assms(2) by linarith
  then show ?thesis unfolding enc_room_def r v using room(2) tight assms(2) by auto
qed

lemma enc_shift_digits:
  assumes "enc_room e" "unat (eRng e) \<le> 8388608" "enc_geo e" "eErr (enc_shift e) = 0"
    and "length (digits e) < 4294967295"
  shows "eErr e = 0 \<and> enc_geo (enc_shift e) \<and> lo (enc_shift e) = 256 * lo e \<and>
    length (digits (enc_shift e)) = Suc (length (digits e))"
proof -
  have x: "unat (eExt e) < 4294967295" using assms(5) by (simp add: digits_def chain_def split: if_splits)
  have err: "eErr (carryOut e (drop_bit 23 (eVal e))) = 0" using assms(4) by simp
  note C = carryOut_digits [OF assms(3) err top_digit(2) carry_safe [OF assms(1)] x]
  have "256 * lo e = 256 * be_nat (digits e) * 2147483648 + 256 * unat (eVal e)" by (simp add: lo_def)
  also have "256 * unat (eVal e) = 2147483648 * (unat (eVal e) div 8388608) + 256 * (unat (eVal e) mod 8388608)"
    using div_mult_mod_eq [of "unat (eVal e)" 8388608] by linarith
  finally show ?thesis using C by (simp add: lo_def unat_shift_val top_digit algebra_simps)
qed


section \<open>The decoder's view\<close>

text \<open>The stream the decoder sees is the buffer followed by zeros.\<close>

definition byte_at :: "bytes \<Rightarrow> nat \<Rightarrow> u8" where
  "byte_at buf i = (if i < length buf then buf ! i else 0)"

definition prefix_bytes :: "bytes \<Rightarrow> nat \<Rightarrow> bytes" where
  "prefix_bytes buf n = map (byte_at buf) [0..<n]"

text \<open>
  The number the decoder compares with when byte \<open>k\<close> is the last one read: all bits read but the lowest.
\<close>

definition code :: "bytes \<Rightarrow> nat \<Rightarrow> nat" where
  "code buf k = be_nat (prefix_bytes buf (Suc k)) div 2"

definition code_byte :: "bytes \<Rightarrow> nat \<Rightarrow> nat" where
  "code_byte buf k = unat (byte_at buf k) mod 2 * 128 + unat (byte_at buf (Suc k)) div 2"

lemma prefix_bytes_Suc: "prefix_bytes buf (Suc n) = prefix_bytes buf n @ [byte_at buf n]"
  by (simp add: prefix_bytes_def)

lemma code_byte_bound: "code_byte buf k < 256"
proof -
  have "unat (byte_at buf k) mod 2 \<le> 1" "unat (byte_at buf (Suc k)) div 2 < 128"
    using unat_lt_u8 [of "byte_at buf (Suc k)"] by simp_all
  then show ?thesis unfolding code_byte_def by linarith
qed

lemma half_digits: "((n * 256 + a) * 256 + b) div 2 = 256 * ((n * 256 + a) div 2) + (a mod 2 * 128 + b div 2 :: nat)"
proof -
  define m where "m = n * 256 + a"
  have "(m * 256 + b) div 2 = 128 * m + b div 2"
    using div_mult_self1 [of 2 b "128 * m"] by (simp add: algebra_simps)
  moreover have "128 * m = 256 * (m div 2) + m mod 2 * 128" using div_mult_mod_eq [of m 2] by linarith
  moreover have "m mod 2 = a mod 2"
    using mod_mult_self2 [of a 2 "128 * n"] by (simp add: m_def algebra_simps)
  ultimately show ?thesis by (simp add: m_def)
qed

lemma code_Suc: "code buf (Suc k) = 256 * code buf k + code_byte buf k"
proof -
  have "prefix_bytes buf (Suc k) = prefix_bytes buf k @ [byte_at buf k]"
    "prefix_bytes buf (Suc (Suc k)) = prefix_bytes buf (Suc k) @ [byte_at buf (Suc k)]"
    by (simp_all only: prefix_bytes_Suc)
  then show ?thesis by (simp only: code_def code_byte_def be_nat_snoc half_digits)
qed

definition dec_at :: "bytes \<Rightarrow> nat \<Rightarrow> RangeDecoder \<Rightarrow> bool" where
  "dec_at buf k d \<longleftrightarrow> dBuf d = buf \<and> length buf < 4294967296 \<and> unat (dStorage d) = length buf \<and>
     unat (dOffs d) = min (Suc k) (length buf) \<and> dRem d = ucast (byte_at buf k)"

lemma or_byte: "unat (a :: u32) < 16777216 \<Longrightarrow> unat b < 256 \<Longrightarrow> unat (push_bit 8 a OR b) = 256 * unat a + unat b"
proof -
  assume a: "unat a < 16777216" and b: "unat b < 256"
  have "take_bit 8 b = b" using b by (simp add: take_bit_eq_mod word_unat_eq_iff unat_mod)
  then have "\<not> bit b n" if "8 \<le> n" for n using that by (metis bit_take_bit_iff not_less)
  then have "push_bit 8 a AND b = 0" by (auto intro!: bit_word_eqI simp: bit_simps)
  then have "push_bit 8 a OR b = push_bit 8 a + b" by (simp add: disjunctive_add_eq_or)
  moreover have "unat (push_bit 8 a) = 256 * unat a" using a by (simp add: unat_push_bit)
  ultimately show ?thesis using a b by (simp add: unat_plus)
qed

lemma inverted_byte: "unat (255 AND NOT w :: u32) = 255 - unat w mod 256"
proof -
  have "(255 AND NOT w) AND (w AND 255) = 0" by (rule bit_word_eqI) (auto simp: bit_simps)
  then have "(255 AND NOT w) + (w AND 255) = (255 AND NOT w) OR (w AND 255)" by (rule disjunctive_add_eq_or)
  also have "\<dots> = 255" by (rule bit_word_eqI) (auto simp: bit_simps)
  finally have "255 AND NOT w = 255 - (w AND 255)" by (simp add: eq_diff_eq)
  then show ?thesis using low_byte [of w] by (simp add: unat_minus)
qed


lemma unat_small_mask: "unat (w :: u32) < 2147483648 \<Longrightarrow> unat (w AND 2147483647) = unat w"
proof -
  assume "unat w < 2147483648"
  moreover have "w AND 2147483647 = take_bit 31 w"
    using take_bit_eq_mask [of 31 w] by (simp add: mask_eq_exp_minus_1)
  ultimately show ?thesis by (simp add: take_bit_eq_mod unat_mod)
qed

lemma readByte_at:
  assumes "dec_at buf k d"
  shows "fst (readByte d) = ucast (byte_at buf (Suc k)) \<and>
    dec_at buf (Suc k) ((snd (readByte d))\<lparr>dRem := ucast (byte_at buf (Suc k))\<rparr>) \<and>
    dVal (snd (readByte d)) = dVal d \<and> dRng (snd (readByte d)) = dRng d \<and> dExt (snd (readByte d)) = dExt d"
proof (cases "Suc k < length buf")
  case True
  have o': "unat (dOffs d) = Suc k" and lt: "dOffs d < dStorage d" and l: "length buf < 4294967296"
    using assms True by (auto simp: dec_at_def word_less_nat_alt)
  have "unat (dOffs d + 1) = Suc (Suc k)" using o' True l by (subst unat_plus) simp_all
  with assms True o' lt show ?thesis unfolding dec_at_def by (simp add: readByte_def byte_at_def)
next
  case False
  with assms have "\<not> dOffs d < dStorage d" by (auto simp: dec_at_def word_less_nat_alt)
  with assms False show ?thesis unfolding dec_at_def by (simp add: readByte_def byte_at_def min_def)
qed

lemma unat_ucast_byte [simp]: "unat (ucast (b :: u8) :: 32 word) = unat b"
  using unat_lt_u8 [of b] by (simp add: unsigned_ucast_eq take_bit_eq_mod)

lemma dec_shift_at:
  assumes at: "dec_at buf k d" and r: "unat (dRng d) \<le> 8388608" and v: "unat (dVal d) < unat (dRng d)"
  shows "dec_at buf (Suc k) (dec_shift d) \<and> unat (dRng (dec_shift d)) = 256 * unat (dRng d) \<and>
    unat (dVal (dec_shift d)) + code_byte buf k = 256 * unat (dVal d) + 255 \<and> dExt (dec_shift d) = dExt d"
proof -
  define d1 where "d1 = d\<lparr>dNbitsTotal := dNbitsTotal d + 8, dRng := push_bit 8 (dRng d)\<rparr>"
  have at1: "dec_at buf k d1" using at by (simp add: d1_def dec_at_def)
  note R = readByte_at [OF at1]
  define b :: u32 where "b = ucast (byte_at buf (Suc k))"
  define d2 where "d2 = snd (readByte d1)"
  define x where "x = push_bit 8 (dRem d) OR b"
  define w :: u32 where "w = signed_drop_bit 1 x"
  have rem: "unat (dRem d) = unat (byte_at buf k)" using at by (simp add: dec_at_def)
  have rem256: "unat (dRem d) < 256" "unat b < 256"
    using unat_lt_u8 rem by (simp_all add: b_def)
  have x: "unat x = 256 * unat (dRem d) + unat b"
    using rem256 unfolding x_def by (intro or_byte) simp_all
  then have "w = drop_bit 1 x" using rem256 unfolding w_def by (intro signed_drop_nonneg) simp
  then have "unat w = (256 * unat (dRem d) + unat b) div 2" using x by (simp add: unat_drop_bit)
  also have "\<dots> = 256 * (unat (dRem d) div 2) + code_byte buf k"
    using half_digits [of 0 "unat (dRem d)" "unat b"] rem by (simp add: code_byte_def b_def algebra_simps)
  finally have low: "unat w mod 256 = code_byte buf k" using code_byte_bound [of buf k] by simp
  have rem1: "dRem d1 = dRem d" by (simp add: d1_def)
  have shift: "dec_shift d = d2\<lparr>dRem := b, dVal := (push_bit 8 (dVal d2) + (255 AND NOT w)) AND 2147483647\<rparr>"
    using R by (simp add: dec_shift_def Let_def d1_def [symmetric] d2_def split_beta w_def x_def b_def rem1)
  have R2: "dVal d2 = dVal d" "dRng d2 = push_bit 8 (dRng d)" "dExt d2 = dExt d" using R by (simp_all add: d2_def d1_def)
  have rr: "unat (push_bit 8 (dRng d)) = 256 * unat (dRng d)" using r by (rule unat_shift_rng)
  have rr1: "unat (dRng d1) = 256 * unat (dRng d)" using rr by (simp add: d1_def)
  have vv: "unat (push_bit 8 (dVal d)) = 256 * unat (dVal d)" using r v by (intro unat_shift_rng) simp
  have i: "unat (255 AND NOT w) = 255 - code_byte buf k" using inverted_byte [of w] low by simp
  have sum: "unat (push_bit 8 (dVal d) + (255 AND NOT w)) = 256 * unat (dVal d) + (255 - code_byte buf k)"
    using r v by (subst unat_plus) (simp_all add: vv i)
  have "unat ((push_bit 8 (dVal d) + (255 AND NOT w)) AND 2147483647) = 256 * unat (dVal d) + (255 - code_byte buf k)"
    using r v sum by (intro trans [OF unat_small_mask]) simp_all
  then show ?thesis
    using R code_byte_bound [of buf k] unfolding shift
    by (simp add: R2 rr d2_def [symmetric] b_def [symmetric]) (simp add: dec_at_def rr1)
qed


section \<open>Encoder and decoder in step\<close>

definition contains :: "bytes \<Rightarrow> RangeEncoder \<Rightarrow> bool" where
  "contains buf e \<longleftrightarrow> lo e \<le> code buf (length (digits e) + 3) \<and>
     code buf (length (digits e) + 3) < lo e + unat (eRng e)"

definition in_sync :: "bytes \<Rightarrow> RangeEncoder \<Rightarrow> RangeDecoder \<Rightarrow> bool" where
  "in_sync buf e d \<longleftrightarrow> dec_at buf (length (digits e) + 3) d \<and> dRng d = eRng e \<and> unat (dVal d) < unat (eRng e) \<and>
     code buf (length (digits e) + 3) + unat (dVal d) + 1 = lo e + unat (eRng e)"

text \<open>What coding keeps: the room for a carry, the buffer geometry, a normalized range.\<close>

definition enc_ready :: "RangeEncoder \<Rightarrow> bool" where
  "enc_ready e \<longleftrightarrow> enc_room e \<and> enc_geo e \<and> 8388608 < unat (eRng e)"

lemma enc_normalize_returns:
  "enc_room e \<Longrightarrow> enc_geo e \<Longrightarrow> 8388608 < unat (eRng e) * 256 ^ n \<Longrightarrow>
   \<exists>e'. enc_normalize e = Some e' \<and> enc_ready e' \<and> (eErr e' = 0 \<longrightarrow> eErr e = 0) \<and>
     eEndOffs e' = eEndOffs e \<and> eStorage e' = eStorage e \<and> eEndWindow e' = eEndWindow e \<and> eNendBits e' = eNendBits e"
proof (induction n arbitrary: e)
  case 0
  then show ?case by (subst enc_normalize.simps) (simp add: enc_ready_def word_le_nat_alt)
next
  case (Suc n)
  show ?case
  proof (cases "unat (eRng e) \<le> 8388608")
    case True
    have "8388608 < unat (eRng (enc_shift e)) * 256 ^ n"
      using Suc.prems(3) by (simp add: unat_shift_rng [OF True] algebra_simps)
    from Suc.IH [OF enc_shift_room [OF Suc.prems(1) True] _ this] Suc.prems(2) True show ?thesis
      by (subst enc_normalize.simps) (auto simp: enc_geo_carryOut word_le_nat_alt intro: eErr_carryOut)
  next
    case False
    with Suc.prems show ?thesis by (subst enc_normalize.simps) (simp add: enc_ready_def word_le_nat_alt)
  qed
qed

lemma contains_shift:
  assumes "enc_room e" "unat (eRng e) \<le> 8388608" "enc_geo e" "eErr (enc_shift e) = 0"
    and "length (digits e) < 4294967295" and "contains buf (enc_shift e)"
  shows "contains buf e"
proof -
  note S = enc_shift_digits [OF assms(1-5)]
  have "256 * lo e \<le> 256 * code buf (length (digits e) + 3) + code_byte buf (length (digits e) + 3)"
    "256 * code buf (length (digits e) + 3) + code_byte buf (length (digits e) + 3) < 256 * (lo e + unat (eRng e))"
    using assms(6) S unat_shift_rng [OF assms(2)] code_Suc [of buf "length (digits e) + 3"]
    by (simp_all add: contains_def del: enc_shift_fields(9))
  then show ?thesis using code_byte_bound [of buf "length (digits e) + 3"] by (simp add: contains_def)
qed


lemma in_sync_shift:
  assumes "enc_room e" "unat (eRng e) \<le> 8388608" "enc_geo e" "eErr (enc_shift e) = 0"
    and "length (digits e) < 4294967295" and sync: "in_sync buf e d"
  shows "in_sync buf (enc_shift e) (dec_shift d)"
proof -
  note S = enc_shift_digits [OF assms(1-5)]
  let ?k = "length (digits e) + 3"
  have d: "dec_at buf ?k d" "dRng d = eRng e" "unat (dVal d) < unat (eRng e)"
      "code buf ?k + unat (dVal d) + 1 = lo e + unat (eRng e)"
    using sync by (simp_all add: in_sync_def)
  have D: "dec_at buf (Suc ?k) (dec_shift d) \<and> unat (dRng (dec_shift d)) = 256 * unat (dRng d) \<and>
      unat (dVal (dec_shift d)) + code_byte buf ?k = 256 * unat (dVal d) + 255 \<and> dExt (dec_shift d) = dExt d"
    using d assms(2) by (intro dec_shift_at) simp_all
  have r: "unat (eRng (enc_shift e)) = 256 * unat (eRng e)" using assms(2) by (simp add: unat_shift_rng)
  have "dRng (dec_shift d) = eRng (enc_shift e)" using D d(2) r by (simp add: word_unat_eq_iff)
  moreover have "unat (dVal (dec_shift d)) < unat (eRng (enc_shift e))" using D d(3) r by linarith
  moreover have "code buf (Suc ?k) + unat (dVal (dec_shift d)) + 1 = lo (enc_shift e) + unat (eRng (enc_shift e))"
    using D d(4) r S by (simp only: code_Suc) linarith
  ultimately show ?thesis using D S by (simp add: in_sync_def del: enc_shift_fields)
qed

lemma enc_normalize_err:
  "enc_normalize e = Some e' \<Longrightarrow> eErr e' = 0 \<Longrightarrow> enc_room e \<Longrightarrow> enc_geo e \<Longrightarrow>
   8388608 < unat (eRng e) * 256 ^ n \<Longrightarrow> eErr e = 0"
  using enc_normalize_returns [of e n] by auto

lemma normalize_exact:
  "enc_normalize e = Some e' \<Longrightarrow> eErr e' = 0 \<Longrightarrow> enc_room e \<Longrightarrow> enc_geo e \<Longrightarrow>
   8388608 < unat (eRng e) * 256 ^ n \<Longrightarrow> length (digits e) + n < 4294967296 \<Longrightarrow>
   length (digits e') \<le> length (digits e) + n \<and>
   (contains buf e' \<longrightarrow> contains buf e) \<and>
   (in_sync buf e d \<longrightarrow> (\<exists>d'. dec_normalize d = Some d' \<and> in_sync buf e' d'))"
proof (induction n arbitrary: e d)
  case 0
  then show ?case
    by (subst (asm) enc_normalize.simps, subst dec_normalize.simps) (auto simp: word_le_nat_alt in_sync_def)
next
  case (Suc n)
  show ?case
  proof (cases "unat (eRng e) \<le> 8388608")
    case True
    have e': "enc_normalize (enc_shift e) = Some e'"
      using Suc.prems(1) True by (subst (asm) enc_normalize.simps) (simp add: word_le_nat_alt)
    have room: "enc_room (enc_shift e)" by (rule enc_shift_room [OF Suc.prems(3) True])
    have geo: "enc_geo (enc_shift e)" using Suc.prems(4) by (simp add: enc_geo_carryOut)
    have n: "8388608 < unat (eRng (enc_shift e)) * 256 ^ n"
      using Suc.prems(5) by (simp add: unat_shift_rng [OF True] algebra_simps)
    have err: "eErr (enc_shift e) = 0" by (rule enc_normalize_err [OF e' Suc.prems(2) room geo n])
    have l: "length (digits e) < 4294967295" using Suc.prems(6) by simp
    note S = enc_shift_digits [OF Suc.prems(3) True Suc.prems(4) err l]
    have IH: "length (digits e') \<le> length (digits (enc_shift e)) + n \<and>
        (contains buf e' \<longrightarrow> contains buf (enc_shift e)) \<and>
        (in_sync buf (enc_shift e) (dec_shift d) \<longrightarrow>
          (\<exists>d'. dec_normalize (dec_shift d) = Some d' \<and> in_sync buf e' d'))"
      using S Suc.prems(6) by (intro Suc.IH [OF e' Suc.prems(2) room geo n]) (simp del: enc_shift_fields)
    have "dec_normalize d = dec_normalize (dec_shift d)" if "in_sync buf e d"
      using that True by (subst dec_normalize.simps) (simp add: in_sync_def word_le_nat_alt)
    then show ?thesis
      using IH S in_sync_shift [OF Suc.prems(3) True Suc.prems(4) err l]
        contains_shift [OF Suc.prems(3) True Suc.prems(4) err l, of buf]
      by (simp del: enc_shift_fields)
  next
    case False
    with Suc.prems show ?thesis
      by (subst (asm) enc_normalize.simps, subst dec_normalize.simps) (auto simp: word_le_nat_alt in_sync_def)
  qed
qed


section \<open>Coding one symbol\<close>

text \<open>
  A symbol cuts the range: \<open>a\<close> above it, \<open>b\<close> for it, the rest below.
\<close>

definition narrow :: "RangeEncoder \<Rightarrow> u32 \<times> u32 \<Rightarrow> RangeEncoder" where
  "narrow e c = e\<lparr>eVal := eVal e + (eRng e - fst c - snd c), eRng := snd c\<rparr>"

definition dec_narrow :: "RangeDecoder \<Rightarrow> u32 \<times> u32 \<Rightarrow> RangeDecoder" where
  "dec_narrow d c = d\<lparr>dVal := dVal d - fst c, dRng := snd c\<rparr>"

definition cut_of :: "u32 \<times> u32 \<Rightarrow> u32 \<Rightarrow> bool" where
  "cut_of c r \<longleftrightarrow> unat (fst c) + unat (snd c) \<le> unat r \<and> 0 < unat (snd c)"

lemma narrow_fields [simp]:
  "digits (narrow e c) = digits e" "enc_geo (narrow e c) = enc_geo e" "eErr (narrow e c) = eErr e"
  "absorbs (narrow e c) = absorbs e" "eRng (narrow e c) = snd c" "eEndOffs (narrow e c) = eEndOffs e"
  "eStorage (narrow e c) = eStorage e" "eEndWindow (narrow e c) = eEndWindow e" "eNendBits (narrow e c) = eNendBits e"
  by (simp_all add: narrow_def digits_def front_def chain_def enc_geo_def absorbs_def)

lemma eVal_narrow:
  assumes "enc_room e" "cut_of c (eRng e)"
  shows "unat (eVal (narrow e c)) = unat (eVal e) + unat (eRng e) - unat (fst c) - unat (snd c)"
proof -
  have w: "unat (eRng e - fst c - snd c) = unat (eRng e) - unat (fst c) - unat (snd c)"
    using assms(2) by (subst unat_minus) (auto simp: cut_of_def unat_minus)
  have "unat (eVal e) + unat (eRng e - fst c - snd c) < 2 ^ LENGTH(32)"
    using assms unfolding w by (auto simp: cut_of_def enc_room_def)
  then show ?thesis using assms w by (simp add: narrow_def unat_plus cut_of_def)
qed

lemma narrow_room:
  assumes "enc_room e" "cut_of c (eRng e)"
  shows "enc_room (narrow e c)"
  using assms eVal_narrow [OF assms] by (auto simp: enc_room_def cut_of_def)

lemma narrow_contains:
  assumes "enc_room e" "cut_of c (eRng e)" "contains buf (narrow e c)"
  shows "contains buf e"
  using assms eVal_narrow [OF assms(1,2)] by (auto simp: contains_def lo_def cut_of_def)

lemma narrow_sync:
  assumes "enc_room e" "cut_of c (eRng e)" "contains buf (narrow e c)" "in_sync buf e d"
  shows "unat (fst c) \<le> unat (dVal d) \<and> unat (dVal d) < unat (fst c) + unat (snd c) \<and>
    in_sync buf (narrow e c) (dec_narrow d c)"
proof -
  have r: "unat (fst c) \<le> unat (dVal d)" "unat (dVal d) < unat (fst c) + unat (snd c)"
    using assms eVal_narrow [OF assms(1,2)] by (auto simp: contains_def lo_def cut_of_def in_sync_def)
  then have "unat (dVal d - fst c) = unat (dVal d) - unat (fst c)" by (simp add: unat_minus)
  then show ?thesis
    using assms r eVal_narrow [OF assms(1,2)]
    by (auto simp: in_sync_def dec_narrow_def lo_def cut_of_def dec_at_def)
qed

locale range_symbol =
  fixes enc :: "'s \<Rightarrow> RangeEncoder \<Rightarrow> RangeEncoder option"
    and dec :: "'s \<Rightarrow> RangeDecoder \<Rightarrow> ('r \<times> RangeDecoder) option"
    and res :: "'s \<Rightarrow> 'r" and ok :: "'s \<Rightarrow> bool" and cut :: "'s \<Rightarrow> u32 \<Rightarrow> u32 \<times> u32"
  assumes cut_fits: "ok s \<Longrightarrow> 8388608 < unat r \<Longrightarrow> cut_of (cut s r) r"
    and enc_cut: "ok s \<Longrightarrow> 8388608 < unat (eRng e) \<Longrightarrow> enc s e = enc_normalize (narrow e (cut s (eRng e)))"
    and dec_cut: "ok s \<Longrightarrow> 8388608 < unat (dRng d) \<Longrightarrow> unat (fst (cut s (dRng d))) \<le> unat (dVal d) \<Longrightarrow>
      unat (dVal d) < unat (fst (cut s (dRng d))) + unat (snd (cut s (dRng d))) \<Longrightarrow>
      \<exists>x. dec s d = map_option (Pair (res s)) (dec_normalize (dec_narrow (d\<lparr>dExt := x\<rparr>) (cut s (dRng d))))"
begin

lemma narrowed:
  assumes "ok s" "enc_ready e"
  shows "enc_room (narrow e (cut s (eRng e)))" "enc_geo (narrow e (cut s (eRng e)))"
    "8388608 < unat (eRng (narrow e (cut s (eRng e)))) * 256 ^ 3"
    "enc s e = enc_normalize (narrow e (cut s (eRng e)))"
  using assms cut_fits [of s "eRng e"] enc_cut [of s e]
  by (auto simp: enc_ready_def narrow_room) (simp add: cut_of_def)

lemma enc_returns:
  assumes "ok s" "enc_ready e"
  shows "\<exists>e'. enc s e = Some e' \<and> enc_ready e' \<and> (eErr e' = 0 \<longrightarrow> eErr e = 0) \<and> eEndOffs e' = eEndOffs e \<and>
    eStorage e' = eStorage e \<and> eEndWindow e' = eEndWindow e \<and> eNendBits e' = eNendBits e"
  using enc_normalize_returns [OF narrowed(1-3) [OF assms]] narrowed(4) [OF assms] by simp

lemma step_exact:
  assumes "ok s" "enc_ready e" "enc s e = Some e'" "eErr e' = 0" "length (digits e) + 3 < 4294967296"
  shows "length (digits e') \<le> length (digits e) + 3" "contains buf e' \<Longrightarrow> contains buf e"
    "contains buf e' \<Longrightarrow> in_sync buf e d \<Longrightarrow> \<exists>d'. dec s d = Some (res s, d') \<and> in_sync buf e' d'"
proof -
  let ?c = "cut s (eRng e)"
  have cut: "enc_room e" "cut_of ?c (eRng e)"
    using assms(1,2) by (simp_all add: enc_ready_def cut_fits)
  have n: "enc_normalize (narrow e ?c) = Some e'" using assms(3) narrowed(4) [OF assms(1,2)] by simp
  note N = normalize_exact [OF n assms(4) narrowed(1-3) [OF assms(1,2)]]
  show "length (digits e') \<le> length (digits e) + 3"
    using N [of buf undefined] assms(5) by simp
  have c: "contains buf (narrow e ?c)" if "contains buf e'"
    using N [of buf undefined] assms(5) that by simp
  then show "contains buf e' \<Longrightarrow> contains buf e" using narrow_contains [OF cut] by blast
  assume "contains buf e'" and sync: "in_sync buf e d"
  note S = narrow_sync [OF cut c [OF \<open>contains buf e'\<close>]]
  have r: "dRng d = eRng e" using sync by (simp add: in_sync_def)
  have v: "unat (fst (cut s (dRng d))) \<le> unat (dVal d)"
      "unat (dVal d) < unat (fst (cut s (dRng d))) + unat (snd (cut s (dRng d)))"
    using S [OF sync] r by simp_all
  obtain x where x: "dec s d = map_option (Pair (res s)) (dec_normalize (dec_narrow (d\<lparr>dExt := x\<rparr>) ?c))"
    using dec_cut [OF assms(1) _ v] assms(2) r by (auto simp: enc_ready_def)
  have "in_sync buf e (d\<lparr>dExt := x\<rparr>)" using sync by (simp add: in_sync_def dec_at_def)
  from S [OF this] obtain d' where "dec_normalize (dec_narrow (d\<lparr>dExt := x\<rparr>) ?c) = Some d'" "in_sync buf e' d'"
    using N [of buf "dec_narrow (d\<lparr>dExt := x\<rparr>) ?c"] assms(5) by auto
  with x show "\<exists>d'. dec s d = Some (res s, d') \<and> in_sync buf e' d'" by simp
qed

end

end
