(* ===== verification/RangeSymbols.thy ===== *)
theory RangeSymbols
  imports RangeTrip
begin

text \<open>
  The symbols of the range coder as cuts of the range: table symbols, uniform symbols, the fine-lag
  symbol, single bits and inverse-table symbols each satisfy the contract of \<open>range_symbol\<close>.
\<close>

declare One_nat_def [simp del]

section \<open>Cumulative ranges\<close>

definition triple_cut :: "u32 \<Rightarrow> u32 \<Rightarrow> u32 \<Rightarrow> u32 \<Rightarrow> u32 \<times> u32" where
  "triple_cut fl fh ft r =
     (let x = r div ft in (x * (ft - fh), if 0 < fl then x * (fh - fl) else r - x * (ft - fh)))"

definition triple_ok :: "u32 \<Rightarrow> u32 \<Rightarrow> u32 \<Rightarrow> bool" where
  "triple_ok fl fh ft \<longleftrightarrow> unat fl < unat fh \<and> unat fh \<le> unat ft \<and> unat ft \<le> 8388608"

lemma triple_total: "triple_ok fl fh ft \<Longrightarrow> ft \<noteq> 0"
  by (auto simp: triple_ok_def)

text \<open>The numbers behind the words of a cut.\<close>

lemma triple_cut_nat:
  assumes "triple_ok fl fh ft" and "8388608 < unat r"
  defines "x \<equiv> unat r div unat ft"
  shows "0 < x" "x * unat ft \<le> unat r" "unat (r div ft) = x"
    "unat (fst (triple_cut fl fh ft r)) = x * (unat ft - unat fh)"
    "unat (snd (triple_cut fl fh ft r)) = (if 0 < unat fl then x * (unat fh - unat fl) else unat r - x * (unat ft - unat fh))"
proof -
  have o': "unat fl < unat fh" "unat fh \<le> unat ft" "unat ft \<le> 8388608" "0 < unat ft"
    using assms(1) by (auto simp: triple_ok_def)
  show x0: "0 < x" using o' assms(2) unfolding x_def by (simp add: div_greater_zero_iff)
  show xf: "x * unat ft \<le> unat r" unfolding x_def by simp
  show xw: "unat (r div ft) = x" by (simp add: x_def unat_div)
  have le: "x * n \<le> unat r" if "n \<le> unat ft" for n
    using xf that by (meson le_trans mult_le_mono2)
  have prod: "unat (r div ft * w) = x * unat w" if "unat w \<le> unat ft" for w
    using le [OF that] unat_lt_u32 [of r] by (subst unat_times) (simp_all add: xw)
  have "unat (ft - fh) = unat ft - unat fh" "unat (fh - fl) = unat fh - unat fl"
    using o' by (simp_all add: unat_minus)
  then show a: "unat (fst (triple_cut fl fh ft r)) = x * (unat ft - unat fh)"
    by (simp add: triple_cut_def Let_def prod)
  show "unat (snd (triple_cut fl fh ft r)) = (if 0 < unat fl then x * (unat fh - unat fl) else unat r - x * (unat ft - unat fh))"
    using o' a le [of "unat ft - unat fh"] \<open>unat (fh - fl) = unat fh - unat fl\<close>
    by (auto simp: triple_cut_def Let_def prod unat_minus word_less_nat_alt)
qed

lemma triple_cut_fits: "triple_ok fl fh ft \<Longrightarrow> 8388608 < unat r \<Longrightarrow> cut_of (triple_cut fl fh ft r) r"
proof -
  assume t: "triple_ok fl fh ft" and r: "8388608 < unat r"
  define x where "x = unat r div unat ft"
  note T = triple_cut_nat [OF t r, folded x_def]
  have o': "unat fl < unat fh" "unat fh \<le> unat ft" using t by (auto simp: triple_ok_def)
  show ?thesis
  proof (cases "0 < unat fl")
    case True
    have "x * (unat ft - unat fh) + x * (unat fh - unat fl) = x * (unat ft - unat fl)"
      using o' by (simp flip: add_mult_distrib2)
    also have "\<dots> \<le> x * unat ft" by simp
    finally show ?thesis using T True o' by (simp add: cut_of_def)
  next
    case False
    have "x * (unat ft - unat fh) < x * unat ft" using o' T(1) by simp
    then have "x * (unat ft - unat fh) < unat r" using T(2) by (rule less_le_trans)
    then show ?thesis using T False by (simp add: cut_of_def)
  qed
qed

lemma Encode_cut:
  "ft \<noteq> 0 \<Longrightarrow> Encode e fl fh ft = enc_normalize (narrow e (triple_cut fl fh ft (eRng e)))"
  by (simp add: Encode_def narrow_def triple_cut_def Let_def algebra_simps)

lemma Update_cut:
  "Update (d\<lparr>dExt := dRng d div ft\<rparr>) fl fh ft =
   dec_normalize (dec_narrow (d\<lparr>dExt := dRng d div ft\<rparr>) (triple_cut fl fh ft (dRng d)))"
  by (simp add: Update_def dec_narrow_def triple_cut_def Let_def)

text \<open>The cumulative frequency the decoder finds lies in the symbol's range.\<close>

lemma found_frequency:
  assumes t: "triple_ok fl fh ft" and r: "8388608 < unat r"
    and v: "unat (fst (triple_cut fl fh ft r)) \<le> unat v"
      "unat v < unat (fst (triple_cut fl fh ft r)) + unat (snd (triple_cut fl fh ft r))"
  shows "unat fl \<le> unat (ft - ecMini (v div (r div ft) + 1) ft) \<and> unat (ft - ecMini (v div (r div ft) + 1) ft) < unat fh"
proof -
  define x where "x = unat r div unat ft"
  note T = triple_cut_nat [OF t r, folded x_def]
  have o': "unat fl < unat fh" "unat fh \<le> unat ft" using t by (auto simp: triple_ok_def)
  have vr: "unat v < unat r" using v triple_cut_fits [OF t r] by (simp add: cut_of_def)
  define s where "s = unat v div x"
  have "unat (v div (r div ft)) = s" by (simp add: s_def unat_div x_def)
  moreover have "s \<le> unat v" by (simp add: s_def)
  moreover from this have "s + 1 < 4294967296" using vr unat_lt_u32 [of r] by linarith
  ultimately have s1: "unat (v div (r div ft) + 1) = s + 1" by (subst unat_plus) simp_all
  have low: "unat ft - unat fh \<le> s"
    using v(1) T(1,4) by (simp add: s_def less_eq_div_iff_mult_less_eq mult.commute)
  have m: "unat (ft - ecMini (v div (r div ft) + 1) ft) = unat ft - min (s + 1) (unat ft)"
    using s1 by (auto simp: ecMini_def unat_minus word_less_nat_alt min_def)
  have high: "s < unat ft - unat fl" if "0 < unat fl"
  proof -
    have "x * (unat ft - unat fh) + x * (unat fh - unat fl) = x * (unat ft - unat fl)"
      using o' by (simp flip: add_mult_distrib2)
    then have "unat v < x * (unat ft - unat fl)" using v(2) T(4,5) that by simp
    then show ?thesis using T(1) by (simp add: s_def div_less_iff_less_mult mult.commute)
  qed
  show ?thesis
  proof (cases "0 < unat fl")
    case True
    then have "min (s + 1) (unat ft) = s + 1" using high by simp
    then show ?thesis unfolding m using high [OF True] low o' by linarith
  next
    case False
    then show ?thesis unfolding m using low o' by (auto simp: min_def)
  qed
qed

lemma Decode_cut:
  assumes t: "triple_ok fl fh ft" and r: "8388608 < unat (dRng d)"
  shows "Decode d ft = (ft - ecMini (dVal d div (dRng d div ft) + 1) ft, d\<lparr>dExt := dRng d div ft\<rparr>)"
proof -
  have "unat (dRng d div ft) \<noteq> 0" using triple_cut_nat(1,3) [OF t r] by simp
  then have "dRng d div ft \<noteq> 0" by auto
  moreover have "ft \<noteq> 0" using t by (auto simp: triple_ok_def)
  ultimately show ?thesis by (simp add: Decode_def Let_def)
qed


section \<open>Table symbols\<close>

definition cdf_ok :: "u16 list \<times> nat \<Rightarrow> bool" where
  "cdf_ok s = (case s of (cdf, k) \<Rightarrow> Suc k < length cdf \<and> length cdf < 2147483648 \<and> sorted cdf \<and> cdf ! k < cdf ! Suc k)"

definition cdf_cut :: "u16 list \<times> nat \<Rightarrow> u32 \<Rightarrow> u32 \<times> u32" where
  "cdf_cut s = (case s of (cdf, k) \<Rightarrow>
     triple_cut (ucast (cdf ! k) - ucast (cdf ! 0)) (ucast (cdf ! Suc k) - ucast (cdf ! 0))
       (ucast (cdf ! (length cdf - 1)) - ucast (cdf ! 0)))"

lemma unat_ucast_u16 [simp]: "unat (ucast (c :: u16) :: u32) = unat c"
  using unsigned_less [of c, where ?'a = nat] by (simp add: unsigned_ucast_eq take_bit_eq_mod)

lemma unat_of_nat_small: "n < 4294967296 \<Longrightarrow> unat (of_nat n :: 32 word) = n"
  by (simp only: unat_of_nat) simp

lemma sint_of_nat_small: "n < 2147483648 \<Longrightarrow> sint (of_nat n :: i32) = int n"
  using sint_unat [of "of_nat n"] by (simp add: unat_of_nat_small)

lemma cdf_search_at: "k < length xs \<Longrightarrow> (\<And>j. j < k \<Longrightarrow> unat (xs ! j) \<le> unat target) \<Longrightarrow> unat target < unat (xs ! k) \<Longrightarrow>
    cdf_search target xs = k"
proof (induction xs arbitrary: k)
  case (Cons c cs)
  show ?case
  proof (cases k)
    case 0
    with Cons.prems show ?thesis by (simp add: word_less_nat_alt)
  next
    case (Suc j)
    have "cdf_search target cs = j"
      using Cons.prems Suc by (intro Cons.IH) (force dest: Cons.prems(2) [of "Suc _"])+
    moreover have "unat c \<le> unat target" using Cons.prems(2) [of 0] Suc by simp
    ultimately show ?thesis using Suc by (simp add: word_less_nat_alt)
  qed
qed simp

lemma cdf_values:
  assumes "cdf_ok (cdf, k)"
  shows "unat (cdf ! 0) \<le> unat (cdf ! k)" "unat (cdf ! k) < unat (cdf ! Suc k)"
    "unat (cdf ! Suc k) \<le> unat (cdf ! (length cdf - 1))"
    "unat (ucast (cdf ! k) - ucast (cdf ! 0) :: u32) = unat (cdf ! k) - unat (cdf ! 0)"
    "unat (ucast (cdf ! Suc k) - ucast (cdf ! 0) :: u32) = unat (cdf ! Suc k) - unat (cdf ! 0)"
    "unat (ucast (cdf ! (length cdf - 1)) - ucast (cdf ! 0) :: u32) = unat (cdf ! (length cdf - 1)) - unat (cdf ! 0)"
proof -
  have s: "sorted cdf" "Suc k < length cdf" using assms by (simp_all add: cdf_ok_def)
  show a: "unat (cdf ! 0) \<le> unat (cdf ! k)" "unat (cdf ! Suc k) \<le> unat (cdf ! (length cdf - 1))"
    using s sorted_nth_mono [of cdf 0 k] sorted_nth_mono [of cdf "Suc k" "length cdf - 1"]
    by (simp_all add: word_le_nat_alt)
  show b: "unat (cdf ! k) < unat (cdf ! Suc k)" using assms by (simp add: cdf_ok_def word_less_nat_alt)
  show "unat (ucast (cdf ! k) - ucast (cdf ! 0) :: u32) = unat (cdf ! k) - unat (cdf ! 0)"
    "unat (ucast (cdf ! Suc k) - ucast (cdf ! 0) :: u32) = unat (cdf ! Suc k) - unat (cdf ! 0)"
    "unat (ucast (cdf ! (length cdf - 1)) - ucast (cdf ! 0) :: u32) = unat (cdf ! (length cdf - 1)) - unat (cdf ! 0)"
    using a b by (simp_all add: unat_minus)
qed

lemma cdf_triple:
  assumes "cdf_ok (cdf, k)"
  shows "triple_ok (ucast (cdf ! k) - ucast (cdf ! 0)) (ucast (cdf ! Suc k) - ucast (cdf ! 0))
    (ucast (cdf ! (length cdf - 1)) - ucast (cdf ! 0))"
  using cdf_values [OF assms] unsigned_less [of "cdf ! (length cdf - 1)", where ?'a = nat]
  by (auto simp: triple_ok_def intro: diff_le_mono)

lemma DecodeCDF_at:
  assumes ok: "cdf_ok (cdf, k)" and r: "8388608 < unat (dRng d)"
    and v: "unat (fst (cdf_cut (cdf, k) (dRng d))) \<le> unat (dVal d)"
      "unat (dVal d) < unat (fst (cdf_cut (cdf, k) (dRng d))) + unat (snd (cdf_cut (cdf, k) (dRng d)))"
  shows "\<exists>x. DecodeCDF d cdf = map_option (Pair (of_nat k)) (dec_normalize (dec_narrow (d\<lparr>dExt := x\<rparr>) (cdf_cut (cdf, k) (dRng d))))"
proof -
  note V = cdf_values [OF ok] and T = cdf_triple [OF ok]
  let ?ft = "ucast (cdf ! (length cdf - 1)) - ucast (cdf ! 0) :: u32"
  define fs where "fs = ?ft - ecMini (dVal d div (dRng d div ?ft) + 1) ?ft"
  have D: "Decode d ?ft = (fs, d\<lparr>dExt := dRng d div ?ft\<rparr>)"
    unfolding fs_def by (rule Decode_cut [OF T r])
  have F: "unat (cdf ! k) - unat (cdf ! 0) \<le> unat fs" "unat fs < unat (cdf ! Suc k) - unat (cdf ! 0)"
    using found_frequency [OF T r] v V(4,5) by (simp_all add: cdf_cut_def fs_def)
  have target: "unat (ucast (cdf ! 0) + fs :: u32) = unat (cdf ! 0) + unat fs"
    using F V unsigned_less [of "cdf ! Suc k", where ?'a = nat] by (subst unat_plus) simp_all
  have len: "Suc k < length cdf" "sorted cdf" using ok by (simp_all add: cdf_ok_def)
  have "cdf_search (ucast (cdf ! 0) + fs) (tl cdf) = k"
  proof (rule cdf_search_at)
    show "k < length (tl cdf)" using len by simp
    show "unat (tl cdf ! j) \<le> unat (ucast (cdf ! 0) + fs :: u32)" if "j < k" for j
    proof -
      have "cdf ! Suc j \<le> cdf ! k" using that len by (intro sorted_nth_mono) simp_all
      then show ?thesis using F V that len target by (simp add: nth_tl word_le_nat_alt)
    qed
    show "unat (ucast (cdf ! 0) + fs :: u32) < unat (tl cdf ! k)" using F V len target by (simp add: nth_tl)
  qed
  moreover have "\<not> ucast (cdf ! (length cdf - 1)) \<le> (ucast (cdf ! 0) :: u32)"
    using V by (simp add: word_le_nat_alt)
  ultimately have "DecodeCDF d cdf = map_option (Pair (of_nat k))
      (Update (d\<lparr>dExt := dRng d div ?ft\<rparr>) (ucast (cdf ! k) - ucast (cdf ! 0)) (ucast (cdf ! Suc k) - ucast (cdf ! 0)) ?ft)"
    using len by (simp add: DecodeCDF_def Let_def D Suc_eq_plus1 [symmetric] del: Suc_eq_plus1)
  then show ?thesis unfolding Update_cut cdf_cut_def by auto
qed

interpretation cdf_code: range_symbol "\<lambda>(cdf, k) e. EncodeCDF e (of_nat k) cdf" "\<lambda>(cdf, k) d. DecodeCDF d cdf"
  "\<lambda>(cdf, k). of_nat k" cdf_ok cdf_cut
proof (unfold_locales, goal_cases)
  case (1 s r)
  then show ?case by (cases s) (simp add: cdf_cut_def triple_cut_fits cdf_triple)
next
  case (2 s e)
  obtain cdf k where s: "s = (cdf, k)" by (cases s)
  have ok: "cdf_ok (cdf, k)" using 2 s by simp
  then have len: "Suc k < length cdf" "length cdf < 2147483648" by (simp_all add: cdf_ok_def)
  note V = cdf_values [OF ok]
  have "\<not> ucast (cdf ! (length cdf - 1)) \<le> (ucast (cdf ! 0) :: u32)" using V by (simp add: word_le_nat_alt)
  moreover have "ucast (cdf ! (length cdf - 1)) - ucast (cdf ! 0) \<noteq> (0 :: u32)"
    using V(6) V(1-3) by auto
  moreover have "(of_nat k :: i32) + 1 = of_nat (Suc k)" by simp
  ultimately show ?case
    using len by (simp add: s EncodeCDF_def Let_def Encode_cut cdf_cut_def sint_of_nat_small unat_of_nat_small del: of_nat_Suc)
next
  case (3 s d)
  then show ?case using DecodeCDF_at [of "fst s" "snd s" d] by (simp add: split_beta)
qed


section \<open>Uniform symbols\<close>

definition raw_ok :: "u32 \<times> u32 \<Rightarrow> bool" where
  "raw_ok s = (case s of (v, n) \<Rightarrow> unat n \<le> 23 \<and> unat v < 2 ^ unat n)"

definition raw_cut :: "u32 \<times> u32 \<Rightarrow> u32 \<Rightarrow> u32 \<times> u32" where
  "raw_cut s = (case s of (v, n) \<Rightarrow> triple_cut v (v + 1) (2 ^ unat n))"

lemma two_power_le: "n \<le> 23 \<Longrightarrow> (2 :: nat) ^ n \<le> 8388608"
  using power_increasing [of n 23 "2 :: nat"] by simp

lemma unat_power_two: "n \<le> 23 \<Longrightarrow> unat (2 ^ n :: u32) = 2 ^ n"
  using two_power_le [of n] unat_push_bit [of n "1 :: u32"] by simp

lemma raw_triple: "raw_ok (v, n) \<Longrightarrow> triple_ok v (v + 1) (2 ^ unat n)"
  using two_power_le [of "unat n"] by (simp add: raw_ok_def triple_ok_def unat_power_two unat_plus)

lemma drop_bit_is_div: "n \<le> 23 \<Longrightarrow> drop_bit n (r :: u32) = r div 2 ^ n"
  by (simp add: word_unat_eq_iff unat_drop_bit unat_div unat_power_two)

lemma unique_frequency: "unat fl \<le> unat x \<Longrightarrow> unat x < unat (fl + 1 :: u32) \<Longrightarrow> x = fl"
  by (auto simp: word_unat_eq_iff unat_word_ariths mod_if split: if_splits)

lemma uniform_found:
  assumes "triple_ok v (v + 1) ft" "8388608 < unat r"
    "unat (fst (triple_cut v (v + 1) ft r)) \<le> unat x"
    "unat x < unat (fst (triple_cut v (v + 1) ft r)) + unat (snd (triple_cut v (v + 1) ft r))"
  shows "ft - ecMini (x div (r div ft) + 1) ft = v"
  using found_frequency [OF assms] by (intro unique_frequency) simp_all

lemma ext_positive: "triple_ok fl fh ft \<Longrightarrow> 8388608 < unat r \<Longrightarrow> r div ft \<noteq> 0"
  using triple_cut_nat(1,3) [of fl fh ft r] by auto

interpretation raw_code: range_symbol "\<lambda>(v, n) e. EncodeRawSymbol e v n" "\<lambda>(v, n) d. DecodeRawSymbol d n"
  fst raw_ok raw_cut
proof (unfold_locales, goal_cases)
  case (1 s r)
  then show ?case by (cases s) (simp add: raw_cut_def triple_cut_fits raw_triple)
next
  case (2 s e)
  then show ?case
    using Encode_cut [OF triple_total [OF raw_triple [of "fst s" "snd s"]], of e "fst s" "fst s + 1"]
    by (simp add: raw_cut_def EncodeRawSymbol_def split_beta)
next
  case (3 s d)
  obtain v n where s: "s = (v, n)" by (cases s)
  let ?ft = "2 ^ unat n :: u32"
  have ok: "raw_ok (v, n)" using 3 s by simp
  have t: "triple_ok v (v + 1) ?ft" by (rule raw_triple [OF ok])
  have e: "drop_bit (unat n) (dRng d) = dRng d div ?ft" using ok by (simp add: raw_ok_def drop_bit_is_div)
  have "?ft - ecMini (dVal d div (dRng d div ?ft) + 1) ?ft = v"
    using 3 by (intro uniform_found [OF t]) (simp_all add: s raw_cut_def)
  then have "DecodeRawSymbol d n = map_option (Pair v) (Update (d\<lparr>dExt := dRng d div ?ft\<rparr>) v (v + 1) ?ft)"
    using ext_positive [OF t 3(2)] by (simp add: DecodeRawSymbol_def decodeBin_def Let_def e)
  then show ?case unfolding Update_cut by (auto simp: s raw_cut_def)
qed

definition fine_ok :: "u32 \<Rightarrow> bool" where
  "fine_ok v \<longleftrightarrow> unat v < 64"

definition fine_cut :: "u32 \<Rightarrow> u32 \<Rightarrow> u32 \<times> u32" where
  "fine_cut v = triple_cut v (v + 1) 64"

lemma fine_triple: "fine_ok v \<Longrightarrow> triple_ok v (v + 1) 64"
  by (simp add: fine_ok_def triple_ok_def unat_plus)

lemma fine_value: "unat s < 4294967295 \<Longrightarrow>
    of_int (let z = 63 - int (unat s) in if z < 0 then 0 else if z > 64 then 64 else z) = 64 - ecMini (s + 1) (64 :: u32)"
proof -
  assume s: "unat s < 4294967295"
  then have s1: "unat (s + 1) = unat s + 1" by (simp add: unat_plus)
  have w: "(of_int (int (unat s)) :: u32) = s" by simp
  show ?thesis
  proof (cases "unat s < 63")
    case True
    then have "(of_int (63 - int (unat s)) :: u32) = 63 - s" unfolding of_int_diff w by simp
    moreover have "uint s < 63" using True by (simp add: unat_less_iff)
    moreover have "\<not> uint s < - 1" using uint_ge_0 [of s] by linarith
    ultimately show ?thesis using True s1 by (simp add: ecMini_def word_less_nat_alt Let_def)
  next
    case False
    then have "63 - int (unat s) \<le> 0" by linarith
    then have "(let z = 63 - int (unat s) in if z < 0 then 0 else if z > 64 then 64 else z) = 0"
      by (simp add: Let_def del: of_nat_unat)
    then show ?thesis using False s1 by (simp add: ecMini_def word_less_nat_alt)
  qed
qed

interpretation fine_code: range_symbol "\<lambda>v e. Encode64FineSym e v" "\<lambda>v. Decode64FineSym" "\<lambda>v. v" fine_ok fine_cut
proof (unfold_locales, goal_cases)
  case (1 s r)
  then show ?case by (simp add: fine_cut_def triple_cut_fits fine_triple)
next
  case (2 s e)
  then show ?case by (simp add: fine_cut_def Encode64FineSym_def Encode_cut)
next
  case (3 v d)
  have t: "triple_ok v (v + 1) 64" by (rule fine_triple [OF 3(1)])
  have e: "drop_bit 6 (dRng d) = dRng d div 64" using drop_bit_is_div [of 6 "dRng d"] by simp
  have lt: "unat (dVal d) < 4294967295"
    using 3 triple_cut_fits [OF t 3(2)] unat_lt_u32 [of "dRng d"] by (simp add: fine_cut_def cut_of_def)
  define s where "s = dVal d div (dRng d div 64)"
  have "unat s \<le> unat (dVal d)" by (simp add: s_def unat_div)
  with lt have s: "unat s < 4294967295" by simp
  have "64 - ecMini (s + 1) 64 = v"
    unfolding s_def using 3 by (intro uniform_found [OF t]) (simp_all add: fine_cut_def)
  then have "of_int (let z = 63 - int (unat s) in if z < 0 then 0 else if z > 64 then 64 else z) = v"
    using fine_value [OF s] by simp
  then have "Decode64FineSym d = map_option (Pair v) (Update (d\<lparr>dExt := dRng d div 64\<rparr>) v (v + 1) 64)"
    using ext_positive [OF t 3(2)] by (simp add: Decode64FineSym_def Let_def e s_def)
  then show ?case unfolding Update_cut by (auto simp: fine_cut_def)
qed


section \<open>Bits and inverse tables\<close>

definition bit_ok :: "bool \<times> u32 \<Rightarrow> bool" where
  "bit_ok s = (case s of (b, logp) \<Rightarrow> 0 < unat logp \<and> unat logp \<le> 23)"

definition bit_cut :: "bool \<times> u32 \<Rightarrow> u32 \<Rightarrow> u32 \<times> u32" where
  "bit_cut s r = (case s of (b, logp) \<Rightarrow>
     let x = drop_bit (unat logp) r in if b then (0, x) else (x, r - x))"

lemma shifted_range:
  assumes "n \<le> 23" "8388608 < unat (r :: u32)"
  shows "0 < unat r div 2 ^ n" "0 < n \<Longrightarrow> unat r div 2 ^ n < unat r"
proof -
  show "0 < unat r div 2 ^ n" using two_power_le [OF assms(1)] assms(2) by (simp add: div_greater_zero_iff)
  show "0 < n \<Longrightarrow> unat r div 2 ^ n < unat r" using assms(2) by (intro div_less_dividend) simp_all
qed

interpretation bit_code: range_symbol "\<lambda>(b, logp) e. EncodeBitLogp e (if b then 1 else 0) logp" "\<lambda>(b, logp) d. BitLogp d logp"
  "\<lambda>(b, logp). if b then 1 else 0" bit_ok bit_cut
proof (unfold_locales, goal_cases)
  case (1 s r)
  then show ?case
    using shifted_range [of "unat (snd s)" r]
    by (auto simp: bit_ok_def bit_cut_def cut_of_def Let_def unat_drop_bit unat_minus split_beta)
next
  case (2 s e)
  then show ?case by (auto simp: EncodeBitLogp_def bit_cut_def narrow_def Let_def split_beta)
next
  case (3 s d)
  show ?case
    using 3 by (intro exI [of _ "dExt d"])
      (auto simp: BitLogp_def bit_cut_def dec_narrow_def Let_def word_less_nat_alt split_beta)
qed

definition icdf_ok :: "bytes \<times> nat \<times> u32 \<Rightarrow> bool" where
  "icdf_ok s = (case s of (icdf, k, ftb) \<Rightarrow> k < length icdf \<and> length icdf < 2147483648 \<and>
     sorted_wrt (>) icdf \<and> unat ftb \<le> 23 \<and> unat (icdf ! 0) < 2 ^ unat ftb)"

definition icdf_cut :: "bytes \<times> nat \<times> u32 \<Rightarrow> u32 \<Rightarrow> u32 \<times> u32" where
  "icdf_cut s r = (case s of (icdf, k, ftb) \<Rightarrow>
     let x = drop_bit (unat ftb) r
     in (x * ucast (icdf ! k), if 0 < k then x * ucast (icdf ! (k - 1) - icdf ! k) else r - x * ucast (icdf ! k)))"

lemma ucast_diff_byte: "unat y \<le> unat (x :: u8) \<Longrightarrow> (ucast (x - y) :: u32) = ucast x - ucast y"
  by (simp add: word_unat_eq_iff unat_minus)

lemma cut_below: "r - x * b - x * (a - b) = r - x * (a :: u32)"
  by (simp add: algebra_simps)

lemma icdf_numbers:
  assumes ok: "icdf_ok (icdf, k, ftb)" and r: "8388608 < unat (r :: u32)"
  defines "x \<equiv> unat r div 2 ^ unat ftb"
  shows "0 < x" "\<And>j. j < length icdf \<Longrightarrow> unat (drop_bit (unat ftb) r * ucast (icdf ! j)) = x * unat (icdf ! j)"
    "\<And>j. j < length icdf \<Longrightarrow> x * unat (icdf ! j) < unat r"
    "\<And>i j. i < j \<Longrightarrow> j < length icdf \<Longrightarrow> unat (icdf ! j) < unat (icdf ! i)"
    "0 < k \<Longrightarrow> unat (drop_bit (unat ftb) r * ucast (icdf ! (k - 1) - icdf ! k)) = x * (unat (icdf ! (k - 1)) - unat (icdf ! k))"
proof -
  have o': "k < length icdf" "sorted_wrt (>) icdf" "unat ftb \<le> 23" "unat (icdf ! 0) < 2 ^ unat ftb"
    using ok by (simp_all add: icdf_ok_def)
  show pos: "0 < x" unfolding x_def using shifted_range(1) [OF o'(3) r] .
  show dec: "unat (icdf ! j) < unat (icdf ! i)" if "i < j" "j < length icdf" for i j
    using sorted_wrt_nth_less [OF o'(2) that] by (simp add: word_less_nat_alt)
  have "unat (icdf ! j) < 2 ^ unat ftb" if "j < length icdf" for j
    using dec [of 0 j] o'(4) that by (cases "j = 0") auto
  moreover have le: "x * 2 ^ unat ftb \<le> unat r" by (simp add: x_def)
  ultimately show lt: "x * unat (icdf ! j) < unat r" if "j < length icdf" for j
    using that pos by (meson le_trans less_le_trans mult_less_mono2)
  have w: "unat (drop_bit (unat ftb) r) = x" by (simp add: unat_drop_bit x_def)
  show "unat (drop_bit (unat ftb) r * ucast (icdf ! j)) = x * unat (icdf ! j)" if "j < length icdf" for j
    using lt [OF that] unat_lt_u32 [of r] by (subst unat_times) (simp_all add: w)
  show "unat (drop_bit (unat ftb) r * ucast (icdf ! (k - 1) - icdf ! k)) = x * (unat (icdf ! (k - 1)) - unat (icdf ! k))"
    if "0 < k"
  proof -
    have "unat (icdf ! (k - 1) - icdf ! k) = unat (icdf ! (k - 1)) - unat (icdf ! k)"
      using dec [of "k - 1" k] o'(1) that by (simp add: unat_minus)
    moreover have "x * (unat (icdf ! (k - 1)) - unat (icdf ! k)) < 4294967296"
      by (rule le_less_trans [of _ "x * unat (icdf ! (k - 1))"])
        (use less_trans [OF lt [OF less_imp_diff_less [OF o'(1), of 1]] unat_lt_u32 [of r]] in simp_all)
    ultimately show ?thesis by (subst unat_times) (simp_all add: w)
  qed
qed

lemma icdf_search_at:
  "k < length xs \<Longrightarrow> (\<And>j. j < k \<Longrightarrow> dv < r * ucast (xs ! j)) \<Longrightarrow> r * ucast (xs ! k) \<le> dv \<Longrightarrow>
   icdf_search r dv t ret xs = (ret + k, if k = 0 then t else r * ucast (xs ! (k - 1)), r * ucast (xs ! k))"
proof (induction xs arbitrary: k t ret)
  case (Cons y ys)
  show ?case
  proof (cases k)
    case 0
    with Cons.prems show ?thesis by (simp add: Let_def)
  next
    case (Suc j)
    have "icdf_search r dv (r * ucast y) (Suc ret) ys =
        (Suc ret + j, if j = 0 then r * ucast y else r * ucast (ys ! (j - 1)), r * ucast (ys ! j))"
      using Cons.prems Suc by (intro Cons.IH) (force dest: Cons.prems(2) [of "Suc _"])+
    moreover have "\<not> r * ucast y \<le> dv" "ys \<noteq> []" using Cons.prems(1) Cons.prems(2) [of 0] Suc by auto
    ultimately show ?thesis using Suc by (cases j) (simp_all add: Let_def)
  qed
qed simp


interpretation icdf_code: range_symbol "\<lambda>(icdf, k, ftb) e. EncodeICDF e (of_nat k) icdf ftb"
  "\<lambda>(icdf, k, ftb) d. DecodeICDF d icdf ftb" "\<lambda>(icdf, k, ftb). of_nat k" icdf_ok icdf_cut
proof (unfold_locales, goal_cases)
  case (1 s r)
  obtain icdf k ftb where s: "s = (icdf, k, ftb)" by (cases s)
  have ok: "icdf_ok (icdf, k, ftb)" using 1 s by simp
  then have k: "k < length icdf" by (simp add: icdf_ok_def)
  note I = icdf_numbers [OF ok 1(2)]
  define x where "x = unat r div 2 ^ unat ftb"
  show ?case
  proof (cases "0 < k")
    case True
    have "unat (icdf ! k) < unat (icdf ! (k - 1))" using I(4) [of "k - 1" k] True k by simp
    then have "x * unat (icdf ! k) + x * (unat (icdf ! (k - 1)) - unat (icdf ! k)) = x * unat (icdf ! (k - 1))"
      by (simp flip: add_mult_distrib2)
    then show ?thesis
      using I(1,2,5) less_imp_le [OF I(3) [OF less_imp_diff_less [OF k, of 1]]] I(4) [of "k - 1" k] True k
      by (simp add: s icdf_cut_def cut_of_def Let_def x_def)
  next
    case False
    then have k0: "k = 0" by simp
    have a: "unat (drop_bit (unat ftb) r * ucast (icdf ! 0)) < unat r"
      using I(2) [of 0] I(3) [of 0] k k0 by simp
    then show ?thesis using k0 by (simp add: s icdf_cut_def cut_of_def Let_def unat_minus)
  qed
next
  case (2 s e)
  obtain icdf k ftb where s: "s = (icdf, k, ftb)" by (cases s)
  have ok: "icdf_ok (icdf, k, ftb)" using 2 s by simp
  then have k: "k < length icdf" "length icdf < 2147483648" by (simp_all add: icdf_ok_def)
  note I = icdf_numbers [OF ok 2(2)]
  have u: "(ucast (icdf ! (k - 1) - icdf ! k) :: u32) = ucast (icdf ! (k - 1)) - ucast (icdf ! k)" if "0 < k"
    using I(4) [of "k - 1" k] k that by (intro ucast_diff_byte) simp
  show ?case
  proof (cases "0 < k")
    case True
    then show ?thesis
      using k u [OF True]
      by (simp add: s EncodeICDF_def icdf_cut_def narrow_def Let_def sint_of_nat_small unat_of_nat_small cut_below)
  next
    case False
    then show ?thesis
      using k by (simp add: s EncodeICDF_def icdf_cut_def narrow_def Let_def)
  qed
next
  case (3 s d)
  obtain icdf k ftb where s: "s = (icdf, k, ftb)" by (cases s)
  have ok: "icdf_ok (icdf, k, ftb)" using 3 s by simp
  then have k: "k < length icdf" by (simp add: icdf_ok_def)
  let ?r = "drop_bit (unat ftb) (dRng d)"
  note I = icdf_numbers [OF ok 3(2)]
  define x where "x = unat (dRng d) div 2 ^ unat ftb"
  have low: "?r * ucast (icdf ! k) \<le> dVal d"
    using 3(3) by (simp add: s icdf_cut_def Let_def word_le_nat_alt)
  have high: "dVal d < ?r * ucast (icdf ! j)" if "j < k" for j
  proof -
    have lt: "unat (icdf ! k) < unat (icdf ! (k - 1))" using I(4) [of "k - 1" k] that k by simp
    then have "x * unat (icdf ! k) + x * (unat (icdf ! (k - 1)) - unat (icdf ! k)) = x * unat (icdf ! (k - 1))"
      by (simp flip: add_mult_distrib2)
    then have v: "unat (dVal d) < x * unat (icdf ! (k - 1))"
      using 3(4) I(2) [of k] I(5) that k by (simp add: s icdf_cut_def Let_def x_def)
    have "unat (icdf ! (k - 1)) \<le> unat (icdf ! j)"
    proof (cases "j = k - 1")
      case False
      with that k have "j < k - 1" "k - 1 < length icdf" by linarith+
      then show ?thesis using I(4) [of j "k - 1"] by simp
    qed simp
    then have "x * unat (icdf ! (k - 1)) \<le> x * unat (icdf ! j)" by simp
    with v have "unat (dVal d) < x * unat (icdf ! j)" by (rule less_le_trans)
    then show ?thesis using I(2) [of j] that k by (simp add: word_less_nat_alt x_def)
  qed
  have "icdf_search ?r (dVal d) (dRng d) 0 icdf =
      (k, if k = 0 then dRng d else ?r * ucast (icdf ! (k - 1)), ?r * ucast (icdf ! k))"
    using icdf_search_at [OF k high low, of "dRng d" 0] by simp
  moreover have "(if k = 0 then dRng d else ?r * ucast (icdf ! (k - 1))) - ?r * ucast (icdf ! k) =
      snd (icdf_cut (icdf, k, ftb) (dRng d))"
    using I(4) [of "k - 1" k] k by (auto simp: icdf_cut_def Let_def word_unat_eq_iff unat_minus algebra_simps ucast_diff_byte)
  ultimately show ?case
    using k by (intro exI [of _ "dExt d"]) (auto simp: s DecodeICDF_def dec_narrow_def icdf_cut_def Let_def)
qed

declare One_nat_def [simp]

end
