(* ===== verification/RangeRound.thy ===== *)
theory RangeRound
  imports RangeSymbols
begin

text \<open>
  Whole runs of the range coder: what \<open>Done\<close> flushes lies in the final interval, so the decoder reads
  back every symbol that was coded; and on any bytes whatever the decoder returns.
\<close>

section \<open>Runs of symbols\<close>

datatype symbol = CdfSym "u16 list" nat | RawSym u32 u32 | FineSym u32 | BitSym bool u32 | IcdfSym bytes nat u32

text \<open>What the decoder must know of a symbol, and what it returns for it.\<close>

datatype shape = CdfShape "u16 list" | RawShape u32 | FineShape | BitShape u32 | IcdfShape bytes u32

fun shape_of :: "symbol \<Rightarrow> shape" where
  "shape_of (CdfSym cdf k) = CdfShape cdf"
| "shape_of (RawSym v n) = RawShape n"
| "shape_of (FineSym v) = FineShape"
| "shape_of (BitSym b n) = BitShape n"
| "shape_of (IcdfSym icdf k n) = IcdfShape icdf n"

fun value_of :: "symbol \<Rightarrow> u32" where
  "value_of (CdfSym cdf k) = of_nat k"
| "value_of (RawSym v n) = v"
| "value_of (FineSym v) = v"
| "value_of (BitSym b n) = (if b then 1 else 0)"
| "value_of (IcdfSym icdf k n) = of_nat k"

fun symbol_ok :: "symbol \<Rightarrow> bool" where
  "symbol_ok (CdfSym cdf k) = cdf_ok (cdf, k)"
| "symbol_ok (RawSym v n) = raw_ok (v, n)"
| "symbol_ok (FineSym v) = fine_ok v"
| "symbol_ok (BitSym b n) = bit_ok (b, n)"
| "symbol_ok (IcdfSym icdf k n) = icdf_ok (icdf, k, n)"

fun encode_symbol :: "symbol \<Rightarrow> RangeEncoder \<Rightarrow> RangeEncoder option" where
  "encode_symbol (CdfSym cdf k) e = EncodeCDF e (of_nat k) cdf"
| "encode_symbol (RawSym v n) e = EncodeRawSymbol e v n"
| "encode_symbol (FineSym v) e = Encode64FineSym e v"
| "encode_symbol (BitSym b n) e = EncodeBitLogp e (if b then 1 else 0) n"
| "encode_symbol (IcdfSym icdf k n) e = EncodeICDF e (of_nat k) icdf n"

fun decode_shape :: "shape \<Rightarrow> RangeDecoder \<Rightarrow> (u32 \<times> RangeDecoder) option" where
  "decode_shape (CdfShape cdf) d = DecodeCDF d cdf"
| "decode_shape (RawShape n) d = DecodeRawSymbol d n"
| "decode_shape FineShape d = Decode64FineSym d"
| "decode_shape (BitShape n) d = BitLogp d n"
| "decode_shape (IcdfShape icdf n) d = DecodeICDF d icdf n"

fun encode_all :: "symbol list \<Rightarrow> RangeEncoder \<Rightarrow> RangeEncoder option" where
  "encode_all [] e = Some e"
| "encode_all (s # ss) e = (case encode_symbol s e of None \<Rightarrow> None | Some e1 \<Rightarrow> encode_all ss e1)"

fun decode_all :: "shape list \<Rightarrow> RangeDecoder \<Rightarrow> (u32 list \<times> RangeDecoder) option" where
  "decode_all [] d = Some ([], d)"
| "decode_all (s # ss) d =
     (case decode_shape s d of
        None \<Rightarrow> None
      | Some (v, d1) \<Rightarrow> (case decode_all ss d1 of None \<Rightarrow> None | Some (vs, d2) \<Rightarrow> Some (v # vs, d2)))"

interpretation symbol_code: range_symbol encode_symbol "\<lambda>s. decode_shape (shape_of s)" value_of symbol_ok
  "case_symbol (\<lambda>cdf k. cdf_cut (cdf, k)) (\<lambda>v n. raw_cut (v, n)) fine_cut (\<lambda>b n. bit_cut (b, n))
     (\<lambda>icdf k n. icdf_cut (icdf, k, n))"
proof (unfold_locales, goal_cases)
  case (1 s r)
  then show ?case
    using cdf_code.cut_fits raw_code.cut_fits fine_code.cut_fits bit_code.cut_fits icdf_code.cut_fits
    by (cases s) simp_all
next
  case (2 s e)
  then show ?case
    using cdf_code.enc_cut raw_code.enc_cut fine_code.enc_cut bit_code.enc_cut icdf_code.enc_cut
    by (cases s) force+
next
  case (3 s d)
  then show ?case
    using cdf_code.dec_cut [of "(_, _)"] raw_code.dec_cut [of "(_, _)"] fine_code.dec_cut
      bit_code.dec_cut [of "(_, _)"] icdf_code.dec_cut [of "(_, _, _)"]
    by (cases s) simp_all
qed

lemma encode_all_returns:
  "list_all symbol_ok ss \<Longrightarrow> enc_ready e \<Longrightarrow>
   \<exists>e'. encode_all ss e = Some e' \<and> enc_ready e' \<and> (eErr e' = 0 \<longrightarrow> eErr e = 0) \<and> eEndOffs e' = eEndOffs e \<and>
     eStorage e' = eStorage e \<and> eEndWindow e' = eEndWindow e \<and> eNendBits e' = eNendBits e"
proof (induction ss arbitrary: e)
  case (Cons s ss)
  then obtain e1 where e1: "encode_symbol s e = Some e1" "enc_ready e1" "eErr e1 = 0 \<longrightarrow> eErr e = 0"
      "eEndOffs e1 = eEndOffs e" "eStorage e1 = eStorage e" "eEndWindow e1 = eEndWindow e" "eNendBits e1 = eNendBits e"
    using symbol_code.enc_returns [of s e] by auto
  then show ?case using Cons.IH [of e1] Cons.prems(1) by auto
qed simp

lemma encode_all_exact:
  "list_all symbol_ok ss \<Longrightarrow> enc_ready e \<Longrightarrow> encode_all ss e = Some e' \<Longrightarrow> eErr e' = 0 \<Longrightarrow>
   length (digits e) + 3 * length ss < 4294967296 \<Longrightarrow>
   length (digits e') \<le> length (digits e) + 3 * length ss \<and>
   (contains buf e' \<longrightarrow> contains buf e \<and>
     (in_sync buf e d \<longrightarrow> (\<exists>d'. decode_all (map shape_of ss) d = Some (map value_of ss, d') \<and> in_sync buf e' d')))"
proof (induction ss arbitrary: e d)
  case (Cons s ss)
  have ok: "symbol_ok s" "list_all symbol_ok ss" using Cons.prems(1) by simp_all
  obtain e1 where e1: "encode_symbol s e = Some e1" "enc_ready e1"
    using symbol_code.enc_returns [OF ok(1) Cons.prems(2)] by blast
  have rest: "encode_all ss e1 = Some e'" using Cons.prems(3) e1 by simp
  have err: "eErr e1 = 0" using encode_all_returns [OF ok(2) e1(2)] rest Cons.prems(4) by simp
  have l: "length (digits e) + 3 < 4294967296" using Cons.prems(5) by simp
  note X = symbol_code.step_exact [OF ok(1) Cons.prems(2) e1(1) err l]
  have l1: "length (digits e1) + 3 * length ss < 4294967296" using X(1) Cons.prems(5) by simp
  note IH = Cons.IH [OF ok(2) e1(2) rest Cons.prems(4) l1]
  have "\<exists>d'. decode_all (map shape_of (s # ss)) d = Some (map value_of (s # ss), d') \<and> in_sync buf e' d'"
    if sync: "in_sync buf e d" and c: "contains buf e'"
  proof -
    obtain d1 where "decode_shape (shape_of s) d = Some (value_of s, d1)" "in_sync buf e1 d1"
      using X(3) [OF _ sync] IH c by blast
    then show ?thesis using IH [of d1] c by auto
  qed
  then show ?case using IH [of d] X(1) X(2) by auto
qed simp


section \<open>The start\<close>

lemma start_ready:
  "enc_ready (NewRangeEncoder n)" "digits (NewRangeEncoder n) = []" "lo (NewRangeEncoder n) = 0"
  "eRng (NewRangeEncoder n) = 2147483648" "eErr (NewRangeEncoder n) = 0"
  by (simp_all add: NewRangeEncoder_def enc_ready_def enc_room_def enc_geo_def digits_def front_def chain_def
      lo_def absorbs_def be_nat_def unat_of_nat)

lemma dec_shift_start:
  assumes "dec_at buf k d" "unat (dRng d) \<le> 8388608" "code buf k + unat (dVal d) + 1 = unat (dRng d)"
  shows "dec_at buf (Suc k) (dec_shift d) \<and> unat (dRng (dec_shift d)) = 256 * unat (dRng d) \<and>
    code buf (Suc k) + unat (dVal (dec_shift d)) + 1 = unat (dRng (dec_shift d))"
  using dec_shift_at [OF assms(1,2)] assms(3) by (simp add: code_Suc)

lemma start_sync:
  assumes "length buf < 4294967296"
  shows "\<exists>d. NewRangeDecoder buf = Some d \<and> in_sync buf (NewRangeEncoder n) d"
proof -
  define d :: RangeDecoder where "d = \<lparr>dBuf = buf, dStorage = of_nat (length buf), dEndOffs = 0, dEndWindow = 0,
    dNendBits = 0, dNbitsTotal = 9, dOffs = 0, dRng = 128, dVal = 0, dExt = 0, dRem = 0, dErr = 0\<rparr>"
  define b :: u32 where "b = fst (readByte d)"
  define d0 where "d0 = (snd (readByte d))\<lparr>dRem := b, dVal := dRng (snd (readByte d)) - 1 - signed_drop_bit 1 b\<rparr>"
  have len: "unat (of_nat (length buf) :: u32) = length buf" using assms by (simp add: unat_of_nat_small)
  have b: "b = ucast (byte_at buf 0)"
    using len by (cases buf) (simp_all add: b_def readByte_def d_def byte_at_def word_less_nat_alt)
  have new: "NewRangeDecoder buf = dec_normalize d0"
    by (simp add: NewRangeDecoder_def Let_def split_beta d0_def b_def d_def)
  have rng: "dRng (snd (readByte d)) = 128" by (simp add: readByte_def d_def)
  have at: "dec_at buf 0 d0"
    using assms len b by (cases buf) (simp_all add: dec_at_def d0_def readByte_def d_def word_less_nat_alt)
  have half: "unat (signed_drop_bit (Suc 0) b) = unat (byte_at buf 0) div 2"
    using unat_lt_u8 [of "byte_at buf 0"] by (simp add: signed_drop_nonneg unat_drop_bit b)
  have "unat (byte_at buf 0) div 2 \<le> 127" using unat_lt_u8 [of "byte_at buf 0"] by simp
  then have v: "unat (dVal d0) = 127 - unat (byte_at buf 0) div 2"
    by (simp add: d0_def rng unat_minus half)
  have "code buf 0 = unat (byte_at buf 0) div 2"
    by (simp add: code_def prefix_bytes_def be_nat_def)
  then have c: "code buf 0 + unat (dVal d0) + 1 = unat (dRng d0)" "unat (dRng d0) = 128"
    using v \<open>unat (byte_at buf 0) div 2 \<le> 127\<close> by (simp_all add: d0_def rng)
  define d1 where "d1 = dec_shift d0"
  define d2 where "d2 = dec_shift d1"
  define d3 where "d3 = dec_shift d2"
  have s1: "dec_at buf 1 d1 \<and> unat (dRng d1) = 32768 \<and> code buf 1 + unat (dVal d1) + 1 = unat (dRng d1)"
    using dec_shift_start [OF at] c by (simp add: d1_def flip: One_nat_def)
  have s2: "dec_at buf 2 d2 \<and> unat (dRng d2) = 8388608 \<and> code buf 2 + unat (dVal d2) + 1 = unat (dRng d2)"
    using dec_shift_start [of buf 1 d1] s1 by (simp add: d2_def numeral_2_eq_2)
  have s3: "dec_at buf 3 d3 \<and> unat (dRng d3) = 2147483648 \<and> code buf 3 + unat (dVal d3) + 1 = unat (dRng d3)"
    using dec_shift_start [of buf 2 d2] s2 by (simp add: d3_def numeral_3_eq_3 numeral_2_eq_2)
  have "dec_normalize d0 = Some d3"
    using c(2) s1 s2 s3
    by (simp add: dec_normalize.simps [of d0] dec_normalize.simps [of d1] dec_normalize.simps [of d2]
        dec_normalize.simps [of d3] word_le_nat_alt flip: d1_def d2_def d3_def)
  moreover have "dRng d3 = 2147483648" using s3 by (simp add: word_unat_eq_iff)
  ultimately show ?thesis using s3 new by (simp add: in_sync_def start_ready)
qed

section \<open>The flush\<close>

lemma bit_len_bounds: "0 < n \<Longrightarrow> 2 ^ (bit_len n - 1) \<le> n \<and> n < 2 ^ bit_len n \<and> 0 < bit_len n"
proof (induction n rule: bit_len.induct)
  case (1 n)
  show ?case
  proof (cases "n = 1")
    case True
    then show ?thesis by (simp add: bit_len.simps)
  next
    case False
    then have h: "0 < n div 2" using 1(2) by simp
    have IH: "2 ^ (bit_len (n div 2) - 1) \<le> n div 2 \<and> n div 2 < 2 ^ bit_len (n div 2) \<and> 0 < bit_len (n div 2)"
      using 1 h by simp
    then obtain m where m: "bit_len (n div 2) = Suc m" by (cases "bit_len (n div 2)") auto
    have "bit_len n = Suc (Suc m)" using 1(2) m by (subst bit_len.simps) simp
    moreover have "n = 2 * (n div 2) + n mod 2" "n mod 2 < 2" by simp_all
    then have "2 * 2 ^ m \<le> n \<and> n < 2 * (2 * 2 ^ m)" using IH m by (simp del: mult_div_mod_eq) linarith
    ultimately show ?thesis by simp
  qed
qed

lemma bit_len_range:
  assumes "8388608 < n" "n \<le> 2147483648"
  shows "24 \<le> bit_len n" "bit_len n \<le> 32"
proof -
  note B = bit_len_bounds [of n]
  show "24 \<le> bit_len n"
  proof (rule ccontr)
    assume "\<not> 24 \<le> bit_len n"
    then have "(2 :: nat) ^ bit_len n \<le> 2 ^ 23" by (intro power_increasing) simp_all
    then show False using B assms by simp
  qed
  show "bit_len n \<le> 32"
  proof (rule ccontr)
    assume "\<not> bit_len n \<le> 32"
    then have "(2 :: nat) ^ 32 \<le> 2 ^ (bit_len n - 1)" by (intro power_increasing) simp_all
    then show False using B assms by simp
  qed
qed


lemma sint_minus_8: "0 < sint (l :: i32) \<Longrightarrow> sint (l - 8) = sint l - 8"
proof -
  assume l: "0 < sint l"
  then have u: "unat l < 2147483648" "sint l = int (unat l)" using sint_nonneg [of l] sint_unat [of l] by auto
  show ?thesis
  proof (cases "8 \<le> unat l")
    case True
    then have "unat (l - 8) = unat l - 8" by (simp add: unat_minus)
    then show ?thesis using u True sint_unat [of "l - 8"] by simp
  next
    case False
    have "sint (l - 8) = signed_take_bit 31 (sint l - 8)" by (simp add: sint_word_ariths(2))
    also have "\<dots> = sint l - 8"
    proof (rule signed_take_bit_int_eq_self)
      have "sint l < 8" using False u(2) by linarith
      with l show "- (2 ^ 31) \<le> sint l - 8" "sint l - 8 < 2 ^ 31" by simp_all
    qed
    finally show ?thesis .
  qed
qed

text \<open>
  What is left to flush is a multiple of \<open>2 ^ (31 - z)\<close> when \<open>z\<close> bits are; afterwards the digits hold it
  exactly.
\<close>

definition left_bits :: "nat \<Rightarrow> nat \<Rightarrow> bool" where
  "left_bits z x \<longleftrightarrow> (if z = 0 then x = 0 else z \<le> 31 \<and> 2 ^ (31 - z) dvd x)"

lemma left_bits_shift:
  assumes "left_bits z x" "0 < z"
  shows "left_bits (z - 8) (256 * (x mod 8388608))"
proof (cases "z \<le> 8")
  case True
  have "(2 :: nat) ^ 23 dvd 2 ^ (31 - z)" using True by (intro le_imp_power_dvd) simp
  then have "8388608 dvd x" using assms by (auto simp: left_bits_def intro: dvd_trans)
  then show ?thesis using True by (simp add: left_bits_def)
next
  case False
  have z: "z \<le> 31" "2 ^ (31 - z) dvd x" using assms by (auto simp: left_bits_def)
  have "(2 :: nat) ^ (31 - z) dvd 2 ^ 23" using False by (intro le_imp_power_dvd) simp
  then have "2 ^ (31 - z) dvd x mod 8388608" using z(2) by (intro dvd_mod) simp_all
  then have "256 * 2 ^ (31 - z) dvd 256 * (x mod 8388608)" by simp
  moreover have "(2 :: nat) ^ (31 - (z - 8)) = 256 * 2 ^ (31 - z)"
  proof -
    have "31 - (z - 8) = 8 + (31 - z)" using z(1) False by simp
    then show ?thesis by (simp only: power_add) simp
  qed
  ultimately show ?thesis using False z(1) by (simp add: left_bits_def)
qed

lemma shift_sum: "b' = 256 * b + q \<Longrightarrow> x = 8388608 * q + r \<Longrightarrow> y = 256 * r \<Longrightarrow>
    b' * 2147483648 + y = 256 * (b * 2147483648 + x)" for b :: nat
  by simp

lemma eErr_flush_front: "eErr (flush_front n e l x) = 0 \<Longrightarrow> eErr e = 0"
proof (induction n arbitrary: e l x)
  case (Suc n)
  show ?case
  proof (cases "0 < sint l")
    case True
    then have "eErr (flush_front n (carryOut e (drop_bit 23 x)) (l - 8) (push_bit 8 x AND 2147483647)) = 0"
      using Suc.prems by simp
    then have "eErr (carryOut e (drop_bit 23 x)) = 0" by (rule Suc.IH)
    then show ?thesis by (rule eErr_carryOut)
  qed (use Suc.prems in simp)
qed simp

lemma round_count: "1 \<le> m \<Longrightarrow> 8 * m < a - 8 + 8 \<Longrightarrow> 8 * Suc m < a + (8 :: nat)"
  by arith

lemma flush_front_exact:
  "enc_geo e \<Longrightarrow> eErr (flush_front n e l x) = 0 \<Longrightarrow> nat (sint l) \<le> 8 * n \<Longrightarrow> left_bits (nat (sint l)) (unat x) \<Longrightarrow>
   (2147483648 \<le> unat x \<longrightarrow> absorbs e) \<Longrightarrow> length (digits e) + n < 4294967295 \<Longrightarrow>
   \<exists>m. m \<le> n \<and> nat (sint l) \<le> 8 * m \<and> (m = 0 \<or> 8 * m < nat (sint l) + 8) \<and>
     eErr e = 0 \<and> enc_geo (flush_front n e l x) \<and>
     length (digits (flush_front n e l x)) = length (digits e) + m \<and>
     be_nat (digits (flush_front n e l x)) * 2147483648 = 256 ^ m * (be_nat (digits e) * 2147483648 + unat x)"
proof (induction n arbitrary: e l x)
  case 0
  then show ?case by (auto simp: left_bits_def)
next
  case (Suc n)
  show ?case
  proof (cases "0 < sint l")
    case False
    then have "left_bits 0 (unat x)" using Suc.prems(4) by simp
    then show ?thesis using False Suc.prems(1,2) by (intro exI [of _ 0]) (simp add: left_bits_def)
  next
    case True
    let ?c = "drop_bit 23 x" and ?x = "push_bit 8 x AND 2147483647"
    let ?e = "carryOut e ?c"
    have ff: "flush_front (Suc n) e l x = flush_front n ?e (l - 8) ?x" using True by simp
    have x': "unat ?x = 256 * (unat x mod 8388608)" by (rule unat_shift_val)
    have l': "nat (sint (l - 8)) = nat (sint l) - 8" using sint_minus_8 [OF True] by simp
    have err: "eErr (flush_front n ?e (l - 8) ?x) = 0" using Suc.prems(2) ff by simp
    have e1: "eErr ?e = 0" using eErr_flush_front [OF err] .
    have ext: "unat (eExt e) < 4294967295" using Suc.prems(6) by (simp add: digits_def chain_def split: if_splits)
    have "256 \<le> unat ?c \<Longrightarrow> absorbs e" using Suc.prems(5) by (auto simp: top_digit)
    then have C: "eErr e = 0 \<and> enc_geo ?e \<and> be_nat (digits ?e) = 256 * be_nat (digits e) + unat x div 8388608 \<and>
        length (digits ?e) = Suc (length (digits e))"
      using carryOut_digits [OF Suc.prems(1) e1 top_digit(2) _ ext] by (simp add: top_digit)
    have small: "unat ?x < 2147483648" using x' by simp
    have IH: "\<exists>m. m \<le> n \<and> nat (sint (l - 8)) \<le> 8 * m \<and> (m = 0 \<or> 8 * m < nat (sint (l - 8)) + 8) \<and> eErr ?e = 0 \<and> enc_geo (flush_front n ?e (l - 8) ?x) \<and>
        length (digits (flush_front n ?e (l - 8) ?x)) = length (digits ?e) + m \<and>
        be_nat (digits (flush_front n ?e (l - 8) ?x)) * 2147483648 = 256 ^ m * (be_nat (digits ?e) * 2147483648 + unat ?x)"
    proof (rule Suc.IH [OF _ err])
      show "enc_geo ?e" using C by blast
      show "nat (sint (l - 8)) \<le> 8 * n" using Suc.prems(3) l' by simp
      show "left_bits (nat (sint (l - 8))) (unat ?x)"
        using left_bits_shift [OF Suc.prems(4)] True by (simp add: l' x')
      show "2147483648 \<le> unat ?x \<longrightarrow> absorbs ?e" using small by simp
      show "length (digits ?e) + n < 4294967295" using C Suc.prems(6) by simp
    qed
    then obtain m where m: "m \<le> n" "nat (sint (l - 8)) \<le> 8 * m" "enc_geo (flush_front n ?e (l - 8) ?x)"
        "m = 0 \<or> 8 * m < nat (sint (l - 8)) + 8"
        "length (digits (flush_front n ?e (l - 8) ?x)) = length (digits ?e) + m"
        "be_nat (digits (flush_front n ?e (l - 8) ?x)) * 2147483648 = 256 ^ m * (be_nat (digits ?e) * 2147483648 + unat ?x)"
      by blast
    have "be_nat (digits ?e) = 256 * be_nat (digits e) + unat x div 8388608" using C by simp
    moreover have "unat x = 8388608 * (unat x div 8388608) + unat x mod 8388608" by simp
    ultimately have "be_nat (digits ?e) * 2147483648 + unat ?x = 256 * (be_nat (digits e) * 2147483648 + unat x)"
      using x' by (rule shift_sum)
    then have "be_nat (digits (flush_front (Suc n) e l x)) * 2147483648 = 256 ^ Suc m * (be_nat (digits e) * 2147483648 + unat x)"
      using m(6) unfolding ff by (simp only: power_Suc mult.assoc mult.left_commute)
    moreover have "8 * Suc m < nat (sint l) + 8"
    proof (cases "m = 0")
      case False
      then have "1 \<le> m" "8 * m < nat (sint l) - 8 + 8" using m(4) l' by simp_all
      then show ?thesis by (rule round_count)
    qed (use True in simp)
    ultimately show ?thesis
      using C m(1-3,5) l' True unfolding ff by (intro exI [of _ "Suc m"]) (simp del: flush_front.simps)
  qed
qed


lemma unat_pow2: "k \<le> 31 \<Longrightarrow> unat (2 ^ k :: u32) = 2 ^ k"
proof -
  assume "k \<le> 31"
  then have "(2 :: nat) ^ k \<le> 2 ^ 31" by (intro power_increasing) simp_all
  then show ?thesis using unat_push_bit [of k "1 :: u32"] by simp
qed

lemma low_bits:
  assumes "k \<le> 31"
  shows "unat (w AND NOT (mask k) :: u32) = unat w - unat w mod 2 ^ k"
    "(w AND NOT (mask k)) OR mask k = (w AND NOT (mask k)) + (mask k :: u32)"
proof -
  have m: "unat (w AND mask k) = unat w mod 2 ^ k"
    using assms by (simp add: take_bit_eq_mod unat_mod unat_pow2 flip: take_bit_eq_mask)
  have "(w AND NOT (mask k)) AND (w AND mask k) = 0" by (rule bit_word_eqI) (auto simp: bit_simps)
  then have "(w AND NOT (mask k)) + (w AND mask k) = (w AND NOT (mask k)) OR (w AND mask k)"
    by (rule disjunctive_add_eq_or)
  also have "\<dots> = w" by (rule bit_word_eqI) (auto simp: bit_simps)
  finally have "w AND NOT (mask k) = w - (w AND mask k)" by (simp add: eq_diff_eq)
  then show "unat (w AND NOT (mask k)) = unat w - unat w mod 2 ^ k" by (simp add: unat_minus m)
  have "(w AND NOT (mask k)) AND mask k = 0" by (rule bit_word_eqI) (auto simp: bit_simps)
  then show "(w AND NOT (mask k)) OR mask k = (w AND NOT (mask k)) + mask k" by (simp add: disjunctive_add_eq_or)
qed

text \<open>Rounding up to a multiple of \<open>2 ^ k\<close>.\<close>

lemma round_up:
  assumes "k \<le> 31" "unat v + 2 ^ k \<le> (4294967296 :: nat)"
  defines "x \<equiv> (v + mask k) AND NOT (mask k) :: u32"
  shows "unat v \<le> unat x" "unat x < unat v + 2 ^ k" "2 ^ k dvd unat x" "unat (x OR mask k) = unat x + 2 ^ k - 1"
proof -
  have mk: "unat (mask k :: u32) = 2 ^ k - 1"
    using assms(1) by (simp add: mask_eq_exp_minus_1 unat_minus unat_pow2)
  have p: "0 < (2 :: nat) ^ k" by simp
  define n where "n = unat v + 2 ^ k - 1"
  have "unat (v + mask k) = n" using assms(2) mk p by (subst unat_plus) (simp_all add: n_def)
  then have x: "unat x = n - n mod 2 ^ k" unfolding x_def low_bits(1) [OF assms(1)] by simp
  have r: "n mod 2 ^ k < 2 ^ k" "n mod 2 ^ k \<le> n" by simp_all
  show dvd: "2 ^ k dvd unat x" unfolding x by (rule dvd_minus_mod)
  show "unat v \<le> unat x" "unat x < unat v + 2 ^ k" using r p unfolding x n_def by linarith+
  have "x OR mask k = x + mask k" unfolding x_def by (rule low_bits(2) [OF assms(1)])
  moreover have "unat x + (2 ^ k - 1) < 4294967296"
  proof -
    have "unat x + 2 ^ k \<le> 4294967296"
    proof (rule ccontr)
      assume a: "\<not> unat x + 2 ^ k \<le> 4294967296"
      obtain q where q: "unat x = 2 ^ k * q" using dvd by blast
      have e: "(4294967296 :: nat) = 2 ^ k * 2 ^ (32 - k)" using assms(1) by (simp flip: power_add)
      have "2 ^ k * 2 ^ (32 - k) < 2 ^ k * (q + 1)" using a q e by simp
      then have "2 ^ (32 - k) \<le> q" by (simp only: mult_less_cancel1) simp
      then have "2 ^ k * 2 ^ (32 - k) \<le> unat x" unfolding q by (rule mult_le_mono2)
      then show False using e unat_lt_u32 [of x] by simp
    qed
    then show ?thesis using p by linarith
  qed
  ultimately show "unat (x OR mask k) = unat x + 2 ^ k - 1"
    using mk p by (simp add: unat_plus)
qed


lemma drop_bit_of_mask: "n \<le> 32 \<Longrightarrow> drop_bit m (mask n :: u32) = mask (n - m)"
  by (rule bit_word_eqI) (auto simp: bit_simps)

lemma flush_plan_choice:
  assumes ready: "enc_ready e"
  shows "\<exists>z x. z \<le> 9 \<and> flush_plan e = (of_nat z, x) \<and> left_bits z (unat x) \<and> unat (eVal e) \<le> unat x \<and>
    unat x + 2 ^ (31 - z) \<le> unat (eVal e) + unat (eRng e)"
proof -
  let ?v = "eVal e" and ?r = "eRng e"
  have room: "unat ?v + unat ?r < 4294967296" "8388608 < unat ?r" "unat ?r \<le> 2147483648"
    using ready by (auto simp: enc_ready_def enc_room_def)
  define n where "n = bit_len (unat ?r)"
  note L = bit_len_range [OF room(2,3), folded n_def]
  have pow: "2 ^ (n - 1) \<le> unat ?r" "unat ?r < 2 ^ n" using bit_len_bounds [of "unat ?r"] room(2) by (simp_all add: n_def)
  define z where "z = 32 - n"
  define k where "k = 31 - z"
  have zk: "z \<le> 8" "k \<le> 31" "k = n - 1" "23 \<le> k" using L by (simp_all add: z_def k_def)
  have "of_nat 32 - ilog ?r = (of_nat z :: 32 word)" using L by (simp add: ilog_def n_def [symmetric] z_def of_nat_diff)
  moreover have "unat (of_nat z :: 32 word) = z" using zk(1) by (simp add: unat_of_nat_small)
  moreover have "drop_bit z (2147483647 :: u32) = mask k"
  proof -
    have "(2147483647 :: u32) = mask 31" by (simp add: mask_eq_exp_minus_1)
    then show ?thesis using drop_bit_of_mask [of 31 z] by (simp add: k_def)
  qed
  moreover have "drop_bit 1 (mask k :: u32) = mask (k - 1)" using zk(2) by (intro drop_bit_of_mask) simp
  ultimately have plan: "flush_plan e =
      (let x = (?v + mask k) AND NOT (mask k)
       in if ?v + ?r \<le> (x OR mask k) then (of_nat z + 1, (?v + mask (k - 1)) AND NOT (mask (k - 1))) else (of_nat z, x))"
    by (simp add: flush_plan_def Let_def)
  have le: "unat ?v + 2 ^ k \<le> 4294967296" using pow(1) room(1) zk(3) by simp
  note X = round_up [OF zk(2) le]
  define x where "x = (?v + mask k) AND NOT (mask k)"
  have top: "unat (?v + ?r) = unat ?v + unat ?r" using room(1) by (simp add: unat_plus)
  show ?thesis
  proof (cases "?v + ?r \<le> (x OR mask k)")
    case True
    have half: "(2 :: nat) ^ k = 2 * 2 ^ (k - 1)" using zk(4) by (cases k) simp_all
    have k1: "k - 1 \<le> 31" "unat ?v + 2 ^ (k - 1) \<le> 4294967296" using zk(2) le half by simp_all
    note Y = round_up [OF k1]
    let ?y = "(?v + mask (k - 1)) AND NOT (mask (k - 1))"
    have "flush_plan e = (of_nat (Suc z), ?y)" using True unfolding plan Let_def x_def [symmetric] by (simp add: add.commute)
    moreover have "31 - Suc z = k - 1" using zk by (simp add: k_def)
    moreover have "unat ?y + 2 ^ (k - 1) \<le> unat ?v + unat ?r"
    proof -
      have "(2 :: nat) ^ k \<le> unat ?r" using pow(1) zk(3) by simp
      then show ?thesis using Y(2) half by linarith
    qed
    moreover have "left_bits (Suc z) (unat ?y)"
      using Y(3) zk(1) \<open>31 - Suc z = k - 1\<close> by (simp add: left_bits_def)
    ultimately show ?thesis using Y(1) zk(1) by (intro exI [of _ "Suc z"] exI [of _ ?y]) simp
  next
    case False
    have lt: "unat x + 2 ^ k \<le> unat ?v + unat ?r"
    proof -
      have "unat (x OR mask k) = unat x + 2 ^ k - 1" using X(4) by (simp only: x_def)
      moreover have "\<not> unat ?v + unat ?r \<le> unat (x OR mask k)" using False unfolding word_le_nat_alt top .
      ultimately show ?thesis by linarith
    qed
    have "left_bits z (unat x)"
    proof (cases "z = 0")
      case True
      then have k31: "k = 31" by (simp add: k_def)
      have "n = 32" using True L by (simp add: z_def)
      then have "unat ?r = 2147483648" using pow(1) room(3) by simp
      then have "unat x \<le> unat ?v" "unat ?v < 2147483648" using lt k31 room(1) by simp_all
      then have "unat x < 2 ^ 31" by simp
      moreover have "2 ^ 31 dvd unat x" using X(3) k31 by (simp add: x_def)
      ultimately have "unat x = 0" by (meson dvd_imp_le not_less not_gr_zero)
      then show ?thesis using True by (simp add: left_bits_def)
    next
      case False
      then show ?thesis using X(3) zk(1) by (simp add: left_bits_def x_def k_def)
    qed
    moreover have "flush_plan e = (of_nat z, x)" using False unfolding plan Let_def x_def [symmetric] by simp
    ultimately show ?thesis
      using lt X(1) zk(1) by (intro exI [of _ z] exI [of _ x]) (simp add: x_def k_def)
  qed
qed


lemma flush_front_fields [simp]:
  "eStorage (flush_front n e l x) = eStorage e" "eEndOffs (flush_front n e l x) = eEndOffs e"
  "eEndWindow (flush_front n e l x) = eEndWindow e" "eNendBits (flush_front n e l x) = eNendBits e"
  by (induction n arbitrary: e l x) simp_all

text \<open>The bytes held back are written out by coding one more zero.\<close>

lemma carry_flush:
  assumes "enc_geo e" "length (digits e) < 4294967295"
    and e2: "e2 = (if 0 \<le> sint (eRem e) \<or> 0 < eExt e then carryOut e 0 else e)" "eErr e2 = 0"
  shows "be_nat (front e2) = be_nat (digits e) \<and> length (front e2) = length (digits e) \<and> enc_geo e2 \<and> eErr e = 0"
proof (cases "0 \<le> sint (eRem e) \<or> 0 < eExt e")
  case True
  have ext: "unat (eExt e) < 4294967295" using assms(2) by (simp add: digits_def chain_def split: if_splits)
  have "eErr (carryOut e 0) = 0" using e2 True by simp
  then have C: "eErr e = 0 \<and> enc_geo e2 \<and> be_nat (digits e2) = 256 * be_nat (digits e) \<and>
      eExt e2 = 0 \<and> unat (eRem e2) = 0 \<and> unat (eOffs e2) = length (digits e)"
    using carryOut_digits [OF assms(1) _ _ _ ext, of 0] e2 True by simp
  have "eRem e2 = 0" using C by (simp add: word_unat_eq_iff)
  then have "digits e2 = front e2 @ [0]" using C by (simp add: digits_def chain_def)
  then have "be_nat (front e2) * 256 = 256 * be_nat (digits e)" using C by (simp add: be_nat_snoc)
  moreover have "length (front e2) = unat (eOffs e2)" using C by (simp add: front_def enc_geo_def)
  ultimately show ?thesis using C by simp
next
  case False
  then have "digits e = front e" by (simp add: digits_def chain_def word_gt_0)
  then show ?thesis using False assms by simp
qed

lemma flush_back_none: "flush_back e w 0 = (e, w, 0)"
  by (subst flush_back.simps) simp

lemma Done_plain:
  assumes "eNendBits e = 0" "eErr (Done e) = 0" and plan: "flush_plan e = (l, x)"
  defines "e1 \<equiv> flush_front 5 e l x"
  defines "e2 \<equiv> if 0 \<le> sint (eRem e1) \<or> 0 < eExt e1 then carryOut e1 0 else e1"
  shows "Done e = e2\<lparr>eBuf := zero_fill e2\<rparr>" "eErr e2 = 0"
proof -
  have "eNendBits e2 = 0" using assms(1) by (simp add: e2_def e1_def)
  then have "Done e = (if eErr e2 \<noteq> 0 then e2 else e2\<lparr>eBuf := zero_fill e2\<rparr>)"
    unfolding Done_def plan Let_def prod.case by (fold e1_def, fold e2_def, simp add: flush_back_none)
  then show "Done e = e2\<lparr>eBuf := zero_fill e2\<rparr>" "eErr e2 = 0" using assms(2) by (auto split: if_splits)
qed

lemma Done_err:
  assumes "eNendBits e = 0" "eErr (Done e) = 0"
  shows "eErr e = 0"
proof -
  obtain l x where "flush_plan e = (l, x)" by (cases "flush_plan e")
  note D = Done_plain [OF assms this]
  have "eErr (flush_front 5 e l x) = 0" using D(2) by (auto split: if_splits intro: eErr_carryOut)
  then show ?thesis by (rule eErr_flush_front)
qed

lemma take_zero_fill: "unat (eOffs e) \<le> length (eBuf e) \<Longrightarrow> take (unat (eOffs e)) (zero_fill e) = front e"
  by (simp add: zero_fill_def Let_def front_def)

lemma code_after:
  assumes "be_nat f * 2147483648 = 256 ^ m * L" "length f = N + m" "m \<le> 4" "z \<le> 8 * m" "z \<le> 31"
  shows "L \<le> code (f @ rest) (N + 3) \<and> code (f @ rest) (N + 3) < L + 2 ^ (31 - z)"
proof -
  let ?b = "f @ rest"
  define t where "t = be_nat (map (byte_at ?b) [N + m..<N + 4])"
  have "prefix_bytes ?b (N + 4) = map (byte_at ?b) [0..<N + m] @ map (byte_at ?b) [N + m..<N + 4]"
    using upt_add_eq_append [of 0 "N + m" "4 - m"] assms(3) by (simp add: prefix_bytes_def del: upt_Suc)
  also have "map (byte_at ?b) [0..<N + m] = f"
    using assms(2) by (intro nth_equalityI) (simp_all add: byte_at_def nth_append)
  finally have "be_nat (prefix_bytes ?b (N + 4)) = be_nat f * 256 ^ (4 - m) + t"
    using assms(3) by (simp add: be_nat_append t_def)
  moreover have "be_nat f * 256 ^ (4 - m) * 2147483648 = 2147483648 * (2 * L)"
  proof -
    have "be_nat f * 256 ^ (4 - m) * 2147483648 = 256 ^ m * 256 ^ (4 - m) * L"
      using assms(1) by (simp add: mult_ac)
    also have "(256 :: nat) ^ m * 256 ^ (4 - m) = 256 ^ 4" using assms(3) by (simp flip: power_add)
    finally show ?thesis by simp
  qed
  ultimately have "be_nat (prefix_bytes ?b (N + 4)) = 2 * L + t" by linarith
  moreover have "Suc (N + 3) = N + 4" by simp
  ultimately have "code ?b (N + 3) = (2 * L + t) div 2" by (simp only: code_def)
  then have c: "code ?b (N + 3) = L + t div 2" by simp
  have "t < 256 ^ (4 - m)" using be_nat_bound [of "map (byte_at ?b) [N + m..<N + 4]"] assms(3) by (simp add: t_def)
  also have "(256 :: nat) ^ (4 - m) = 2 ^ (32 - 8 * m)" 
    using power_mult [of "2 :: nat" 8 "4 - m"] by (simp add: diff_mult_distrib2)
  also have "\<dots> \<le> 2 ^ Suc (31 - z)" using assms(4,5) by (intro power_increasing) simp_all
  finally have "t div 2 < 2 ^ (31 - z)" by simp
  then show ?thesis using c by simp
qed

lemma Done_exact:
  assumes ready: "enc_ready e" and raw: "eNendBits e = 0" "eEndOffs e = 0" and err: "eErr (Done e) = 0"
    and len: "length (digits e) + 5 < 4294967295"
  shows "eErr e = 0 \<and> ConsumedLen (Done e) \<le> unat (eStorage e) \<and>
    contains (take (ConsumedLen (Done e)) (eBuf (Done e)) @ rest) e"
proof -
  obtain z x where zx: "z \<le> 9" "flush_plan e = (of_nat z, x)" "left_bits z (unat x)" "unat (eVal e) \<le> unat x"
      "unat x + 2 ^ (31 - z) \<le> unat (eVal e) + unat (eRng e)"
    using flush_plan_choice [OF ready] by blast
  define e1 where "e1 = flush_front 5 e (of_nat z) x"
  define e2 where "e2 = (if 0 \<le> sint (eRem e1) \<or> 0 < eExt e1 then carryOut e1 0 else e1)"
  note D = Done_plain [OF raw(1) err zx(2), folded e1_def, folded e2_def]
  have z: "nat (sint (of_nat z :: i32)) = z"
    using zx(1) by (simp add: sint_unat unat_of_nat_small)
  have "eErr e1 = 0" using D(2) by (auto simp: e2_def split: if_splits intro: eErr_carryOut)
  moreover have "2147483648 \<le> unat x \<longrightarrow> absorbs e"
  proof (intro impI, rule ccontr)
    assume x: "2147483648 \<le> unat x" and "\<not> absorbs e"
    then have "unat (eVal e) + unat (eRng e) \<le> 2147483648" using ready by (simp add: enc_ready_def enc_room_def)
    moreover have "0 < (2 :: nat) ^ (31 - z)" by simp
    ultimately show False using zx(5) x by linarith
  qed
  ultimately obtain m where m: "z \<le> 8 * m" "m = 0 \<or> 8 * m < z + 8" "eErr e = 0" "enc_geo e1"
      "length (digits e1) = length (digits e) + m"
      "be_nat (digits e1) * 2147483648 = 256 ^ m * (be_nat (digits e) * 2147483648 + unat x)" "m \<le> 5"
    using flush_front_exact [of e 5 "of_nat z" x] ready len zx(1,3) by (auto simp: e1_def enc_ready_def z)
  have C: "be_nat (front e2) = be_nat (digits e1) \<and> length (front e2) = length (digits e1) \<and> enc_geo e2 \<and> eErr e1 = 0"
    using m(4,5,7) len by (intro carry_flush [OF m(4) _ e2_def D(2)]) simp
  have s: "eStorage e2 = eStorage e" by (simp add: e2_def e1_def)
  have "eEndOffs e2 = 0" using raw(2) by (simp add: e2_def e1_def)
  then have "ConsumedLen (Done e) \<le> unat (eStorage e)" "take (ConsumedLen (Done e)) (eBuf (Done e)) = front e2"
    using C s by (simp_all add: D(1) ConsumedLen_def take_zero_fill enc_geo_def)
  moreover have "be_nat (front e2) * 2147483648 = 256 ^ m * (be_nat (digits e) * 2147483648 + unat x)"
    "length (front e2) = length (digits e) + m" "m \<le> 4" using C m zx(1) by auto
  note code_after [OF this m(1), of rest]
  ultimately show ?thesis using zx m(3) by (auto simp: contains_def lo_def)
qed


section \<open>The round trip\<close>

lemma coded_read_back:
  assumes ss: "list_all symbol_ok ss" "length ss < 268435456" "encode_all ss (NewRangeEncoder n) = Some e"
    and err: "eErr (Done e) = 0" and n: "n + length rest < 4294967296"
  defines "buf \<equiv> take (ConsumedLen (Done e)) (eBuf (Done e)) @ rest"
  shows "\<exists>d d'. NewRangeDecoder buf = Some d \<and> decode_all (map shape_of ss) d = Some (map value_of ss, d')"
proof -
  let ?e0 = "NewRangeEncoder n"
  have e: "enc_ready e" "eEndOffs e = 0" "eNendBits e = 0" "eStorage e = of_nat n"
    using encode_all_returns [OF ss(1) start_ready(1), of n] ss(3) by (auto simp: NewRangeEncoder_def)
  have l: "length (digits ?e0) + 3 * length ss < 4294967296" using ss(2) by (simp add: start_ready)
  note X = encode_all_exact [OF ss(1) start_ready(1) ss(3) Done_err [OF e(3) err] l]
  have "length (digits e) + 5 < 4294967295" using X [of buf undefined] ss(2) by (simp add: start_ready)
  note D = Done_exact [OF e(1,3,2) err this, of rest, folded buf_def]
  have "unat (eStorage e) = n" using n e(4) by (simp add: unat_of_nat_small)
  then have "ConsumedLen (Done e) + length rest < 4294967296" using D n by simp
  then have "length buf < 4294967296" by (simp add: buf_def min_def)
  then obtain d where "NewRangeDecoder buf = Some d" "in_sync buf ?e0 d" using start_sync [of buf n] by blast
  then show ?thesis using X [of buf d] D by auto
qed

text \<open>C7: Coding any list of valid symbols (table, uniform, fine, single-bit and inverse-table symbols) with a
  fresh encoder always returns, and when \<open>Done\<close> reports no error, a decoder on the bytes it kept, with
  anything behind them, reads back exactly the coded values, carries and runs of 255s included.\<close>

lemma range_coder_round_trip:
  assumes "list_all symbol_ok ss" "length ss < 268435456" "n + length rest < 4294967296"
  shows "case encode_all ss (NewRangeEncoder n) of None \<Rightarrow> False
    | Some e \<Rightarrow> (if eErr (Done e) = 0 then
        map_option fst (Option.bind (NewRangeDecoder (take (ConsumedLen (Done e)) (eBuf (Done e)) @ rest))
          (decode_all (map shape_of ss))) = Some (map value_of ss)
      else True)"
proof -
  obtain e where "encode_all ss (NewRangeEncoder n) = Some e"
    using encode_all_returns [OF assms(1) start_ready(1)] by blast
  then show ?thesis using coded_read_back [OF assms(1,2) _ _ assms(3), of e] by (auto split: if_splits)
qed


lemma range_coder_round_trip_witness:
  "case encode_all [CdfSym [0, 3, 7] 1, RawSym 5 3, BitSym True 2] (NewRangeEncoder 8) of None \<Rightarrow> False
    | Some e \<Rightarrow> eErr (Done e) = 0 \<and>
        map_option fst (Option.bind (NewRangeDecoder (take (ConsumedLen (Done e)) (eBuf (Done e)) @ [255]))
          (decode_all [CdfShape [0, 3, 7], RawShape 3, BitShape 2])) = Some [1, 5, 1]"
proof -
  let ?ss = "[CdfSym [0, 3, 7] 1, RawSym 5 3, BitSym True 2]"
  define e where "e = \<lparr>eBuf = replicate 8 0, eStorage = 8, eEndOffs = 0, eEndWindow = 0, eNendBits = 0,
    eNbitsTotal = 33, eOffs = 0, eRng = 38347922, eVal = 1802352348, eExt = 0, eRem = - 1, eErr = 0\<rparr>"
  have enc: "encode_all ?ss (NewRangeEncoder 8) = Some e" unfolding e_def by code_simp
  have plan: "flush_plan e = (7, 1811939328)"
    by (simp add: flush_plan_def ilog_def bit_len.simps Let_def e_def)
  have front: "flush_front 5 e 7 1811939328 = carryOut e 216"
    using flush_front.simps(2) [of 4 e 7 1811939328] flush_front.simps(2) [of 3 "carryOut e 216" "- 1" 0]
    by (simp del: flush_front.simps)
  have carry: "carryOut e 216 = e\<lparr>eRem := 216\<rparr>" by (simp add: carryOut_def e_def)
  have "eErr (carryOut (e\<lparr>eRem := 216\<rparr>) 0) = 0"
    by (simp add: carryOut_def writeByte_def e_def)
  then have "eErr (Done e) = 0"
    unfolding Done_def plan Let_def prod.case front carry by (simp add: e_def flush_back_none)
  moreover have "list_all symbol_ok ?ss" by (simp add: cdf_ok_def raw_ok_def bit_ok_def less_Suc_eq)
  ultimately show ?thesis
    using range_coder_round_trip [of ?ss 8 "[255]"] unfolding enc by simp
qed

end
