(* ===== verification/RangeTotal.thy ===== *)
theory RangeTotal
  imports RangeRound
begin

text \<open>
  The decoder on any bytes: its normalization loop ends, the value stays below the range, and every
  table, raw, fine, bit or inverse-table symbol it is asked for is one of the table's symbols.
\<close>

section \<open>The decoder's invariant\<close>

definition dec_ready :: "RangeDecoder \<Rightarrow> bool" where
  "dec_ready d \<longleftrightarrow> unat (dVal d) < unat (dRng d) \<and> 8388608 < unat (dRng d) \<and> unat (dRng d) \<le> 2147483648"

lemma readByte_fields [simp]:
  "dRng (snd (readByte d)) = dRng d" "dVal (snd (readByte d)) = dVal d"
  by (simp_all add: readByte_def)

lemma dec_shift_ready:
  assumes "unat (dVal d) < unat (dRng d)" "unat (dRng d) \<le> 8388608"
  shows "unat (dVal (dec_shift d)) < unat (dRng (dec_shift d))" "unat (dRng (dec_shift d)) = 256 * unat (dRng d)"
proof -
  define d1 where "d1 = d\<lparr>dNbitsTotal := dNbitsTotal d + 8, dRng := push_bit 8 (dRng d)\<rparr>"
  define w where "w = (255 AND NOT (signed_drop_bit 1 (push_bit 8 (dRem d) OR fst (readByte d1))) :: u32)"
  have v: "dVal (dec_shift d) = (push_bit 8 (dVal d) + w) AND 2147483647" and
    r: "dRng (dec_shift d) = push_bit 8 (dRng d)"
    by (simp_all add: dec_shift_def Let_def split_beta d1_def w_def)
  show r': "unat (dRng (dec_shift d)) = 256 * unat (dRng d)" unfolding r by (rule unat_shift_rng [OF assms(2)])
  have w: "unat w \<le> 255" by (simp add: w_def inverted_byte)
  have p: "unat (push_bit 8 (dVal d)) = 256 * unat (dVal d)"
    using assms by (intro unat_shift_rng) simp
  have "256 * unat (dVal d) + unat w < 256 * unat (dRng d)" using assms(1) w by simp
  then have "unat (push_bit 8 (dVal d) + w) = 256 * unat (dVal d) + unat w"
    using assms(2) p by (subst unat_plus) simp_all
  moreover have "256 * unat (dVal d) + unat w < 256 * unat (dRng d)" by fact
  ultimately show "unat (dVal (dec_shift d)) < unat (dRng (dec_shift d))"
    using assms(2) unfolding v r' by (simp add: unat_small_mask)
qed

lemma dec_normalize_ready:
  "unat (dVal d) < unat (dRng d) \<Longrightarrow> unat (dRng d) \<le> 2147483648 \<Longrightarrow> 8388608 < unat (dRng d) * 256 ^ n \<Longrightarrow>
   \<exists>d'. dec_normalize d = Some d' \<and> dec_ready d'"
proof (induction n arbitrary: d)
  case 0
  then show ?case by (subst dec_normalize.simps) (simp add: dec_ready_def word_le_nat_alt)
next
  case (Suc n)
  show ?case
  proof (cases "unat (dRng d) \<le> 8388608")
    case True
    note S = dec_shift_ready [OF Suc.prems(1) True]
    have "\<exists>d'. dec_normalize (dec_shift d) = Some d' \<and> dec_ready d'"
      using Suc.prems(3) S True by (intro Suc.IH) (simp_all add: mult.assoc)
    then show ?thesis using True by (subst dec_normalize.simps) (simp add: word_le_nat_alt)
  next
    case False
    then show ?thesis
      using Suc.prems by (subst dec_normalize.simps) (simp add: dec_ready_def word_le_nat_alt)
  qed
qed

lemma NewRangeDecoder_ready: "\<exists>d. NewRangeDecoder buf = Some d \<and> dec_ready d"
proof -
  define d :: RangeDecoder where "d = \<lparr>dBuf = buf, dStorage = of_nat (length buf), dEndOffs = 0, dEndWindow = 0,
    dNendBits = 0, dNbitsTotal = 9, dOffs = 0, dRng = 128, dVal = 0, dExt = 0, dRem = 0, dErr = 0\<rparr>"
  define b :: u32 where "b = fst (readByte d)"
  define d0 where "d0 = (snd (readByte d))\<lparr>dRem := b, dVal := dRng (snd (readByte d)) - 1 - signed_drop_bit 1 b\<rparr>"
  have new: "NewRangeDecoder buf = dec_normalize d0"
    by (simp add: NewRangeDecoder_def Let_def split_beta d0_def b_def d_def)
  have r: "dRng d0 = 128" by (simp add: d0_def) (simp add: d_def)
  have b: "unat b < 256"
    using unat_lt_u8 by (auto simp: b_def readByte_def)
  then have "unat (signed_drop_bit 1 b) = unat b div 2" by (simp add: signed_drop_nonneg unat_drop_bit)
  moreover from b have "unat b div 2 \<le> 127" by simp
  ultimately have "unat (dVal d0) = 127 - unat b div 2"
    using r by (simp add: d0_def unat_minus)
  then show ?thesis unfolding new using r dec_normalize_ready [of d0 3] by simp
qed


section \<open>Every value belongs to a symbol\<close>

locale covering_symbol = range_symbol enc dec res ok cut
  for enc :: "'s \<Rightarrow> RangeEncoder \<Rightarrow> RangeEncoder option"
    and dec :: "'s \<Rightarrow> RangeDecoder \<Rightarrow> ('r \<times> RangeDecoder) option"
    and res :: "'s \<Rightarrow> 'r" and ok :: "'s \<Rightarrow> bool" and cut :: "'s \<Rightarrow> u32 \<Rightarrow> u32 \<times> u32" +
  fixes good :: "'h \<Rightarrow> bool" and shape :: "'s \<Rightarrow> 'h"
  assumes covers: "good h \<Longrightarrow> 8388608 < unat r \<Longrightarrow> unat (v :: u32) < unat r \<Longrightarrow>
    \<exists>s. ok s \<and> shape s = h \<and> unat (fst (cut s r)) \<le> unat v \<and> unat v < unat (fst (cut s r)) + unat (snd (cut s r))"
begin

lemma dec_total:
  assumes "good h" "dec_ready d"
  shows "\<exists>s d'. ok s \<and> shape s = h \<and> dec s d = Some (res s, d') \<and> dec_ready d'"
proof -
  have r: "unat (dVal d) < unat (dRng d)" "8388608 < unat (dRng d)" "unat (dRng d) \<le> 2147483648"
    using assms(2) by (simp_all add: dec_ready_def)
  obtain s where s: "ok s" "shape s = h" "unat (fst (cut s (dRng d))) \<le> unat (dVal d)"
      "unat (dVal d) < unat (fst (cut s (dRng d))) + unat (snd (cut s (dRng d)))"
    using covers [OF assms(1) r(2,1)] by blast
  obtain x where x: "dec s d = map_option (Pair (res s)) (dec_normalize (dec_narrow (d\<lparr>dExt := x\<rparr>) (cut s (dRng d))))"
    using dec_cut [OF s(1) r(2) s(3,4)] by blast
  have c: "unat (fst (cut s (dRng d))) + unat (snd (cut s (dRng d))) \<le> unat (dRng d)" "0 < unat (snd (cut s (dRng d)))"
    using cut_fits [OF s(1) r(2)] by (auto simp: cut_of_def)
  have "\<exists>d'. dec_normalize (dec_narrow (d\<lparr>dExt := x\<rparr>) (cut s (dRng d))) = Some d' \<and> dec_ready d'"
    using s(3,4) c r(3) by (intro dec_normalize_ready [of _ 3]) (simp_all add: dec_narrow_def unat_minus)
  then show ?thesis using s(1,2) x by auto
qed

end

fun shape_ok :: "shape \<Rightarrow> bool" where
  "shape_ok (CdfShape cdf) \<longleftrightarrow> 2 \<le> length cdf \<and> length cdf < 2147483648 \<and> sorted cdf \<and> hd cdf < last cdf"
| "shape_ok (RawShape n) \<longleftrightarrow> unat n \<le> 23"
| "shape_ok FineShape \<longleftrightarrow> True"
| "shape_ok (BitShape n) \<longleftrightarrow> 0 < unat n \<and> unat n \<le> 23"
| "shape_ok (IcdfShape icdf n) \<longleftrightarrow> icdf \<noteq> [] \<and> length icdf < 2147483648 \<and> sorted_wrt (>) icdf \<and> last icdf = 0 \<and>
     unat n \<le> 23 \<and> unat (hd icdf) < 2 ^ unat n"

text \<open>The frequency a value stands for, and the cut that contains the value.\<close>

definition frequency :: "nat \<Rightarrow> nat \<Rightarrow> nat \<Rightarrow> nat" where
  "frequency r ft v = ft - min (v div (r div ft) + 1) ft"

lemma frequency_less: "0 < ft \<Longrightarrow> frequency r ft v < ft"
  by (simp add: frequency_def)

lemma frequency_cut:
  assumes t: "triple_ok fl fh ft" and r: "8388608 < unat r" and v: "unat v < unat r"
    and f: "unat fl \<le> frequency (unat r) (unat ft) (unat v)" "frequency (unat r) (unat ft) (unat v) < unat fh"
  shows "unat (fst (triple_cut fl fh ft r)) \<le> unat v \<and>
    unat v < unat (fst (triple_cut fl fh ft r)) + unat (snd (triple_cut fl fh ft r))"
proof -
  define x where "x = unat r div unat ft"
  define s where "s = unat v div x"
  note T = triple_cut_nat [OF t r, folded x_def]
  have o': "unat fl < unat fh" "unat fh \<le> unat ft" using t by (auto simp: triple_ok_def)
  have f': "unat fl \<le> unat ft - min (s + 1) (unat ft)" "unat ft - min (s + 1) (unat ft) < unat fh"
    using f by (simp_all add: frequency_def x_def s_def)
  have "unat ft - unat fh \<le> s" using f'(2) o' by (simp add: min_def split: if_splits)
  then have "x * (unat ft - unat fh) \<le> x * s" by simp
  also have "\<dots> \<le> unat v" by (simp add: s_def)
  finally have low: "x * (unat ft - unat fh) \<le> unat v" .
  show ?thesis
  proof (cases "0 < unat fl")
    case True
    then have "s + 1 \<le> unat ft - unat fl" using f'(1) o' by (simp add: min_def split: if_splits)
    then have "x * (s + 1) \<le> x * (unat ft - unat fl)" by (rule mult_le_mono2)
    moreover have "unat v < x * (s + 1)" using dividend_less_times_div [OF T(1), of "unat v"] by (simp add: s_def)
    moreover have "x * (unat ft - unat fh) + x * (unat fh - unat fl) = x * (unat ft - unat fl)"
      using o' by (simp flip: add_mult_distrib2)
    ultimately show ?thesis using True low T(4,5) by simp
  next
    case False
    then show ?thesis using low v T(4,5) by simp
  qed
qed

lemma uniform_covers:
  assumes "0 < unat ft" "unat ft \<le> 8388608" "8388608 < unat r" "unat v < unat r"
  shows "\<exists>f. unat f < unat ft \<and> triple_ok f (f + 1) ft \<and>
    unat (fst (triple_cut f (f + 1) ft r)) \<le> unat v \<and>
    unat v < unat (fst (triple_cut f (f + 1) ft r)) + unat (snd (triple_cut f (f + 1) ft r))"
proof -
  define f :: u32 where "f = of_nat (frequency (unat r) (unat ft) (unat v))"
  have lt: "frequency (unat r) (unat ft) (unat v) < unat ft" by (rule frequency_less [OF assms(1)])
  have f: "unat f = frequency (unat r) (unat ft) (unat v)"
    unfolding f_def using lt assms(2) by (intro unat_of_nat_small) simp
  have f1: "unat (f + 1) = unat f + 1" using f lt assms(2) by (subst unat_plus) simp_all
  have t: "triple_ok f (f + 1) ft" using f f1 lt assms(2) by (simp add: triple_ok_def)
  show ?thesis
    using frequency_cut [OF t assms(3,4)] t f f1 lt by (intro exI [of _ f]) simp
qed


lemma step_found:
  "f 0 \<le> (x :: nat) \<Longrightarrow> x < f n \<Longrightarrow> \<exists>k<n. f k \<le> x \<and> x < f (Suc k)"
proof (induction n)
  case (Suc n)
  then show ?case by (cases "x < f n") (auto simp: less_Suc_eq not_less)
qed simp

lemma cdf_covers:
  assumes "shape_ok (CdfShape cdf)" "8388608 < unat r" "unat (v :: u32) < unat r"
  shows "\<exists>k. cdf_ok (cdf, k) \<and> unat (fst (cdf_cut (cdf, k) r)) \<le> unat v \<and>
    unat v < unat (fst (cdf_cut (cdf, k) r)) + unat (snd (cdf_cut (cdf, k) r))"
proof -
  have len: "2 \<le> length cdf" "length cdf < 2147483648" "sorted cdf" "cdf \<noteq> []" and ends: "hd cdf < last cdf"
    using assms(1) by auto
  let ?n = "length cdf - 1"
  define ft :: u32 where "ft = ucast (cdf ! ?n) - ucast (cdf ! 0)"
  have lt: "unat (cdf ! 0) < unat (cdf ! ?n)"
    using ends len(4) by (simp add: hd_conv_nth last_conv_nth word_less_nat_alt)
  then have ft: "unat ft = unat (cdf ! ?n) - unat (cdf ! 0)" by (simp add: ft_def unat_minus)
  define f where "f = frequency (unat r) (unat ft) (unat v)"
  have "f < unat ft" unfolding f_def using lt ft by (intro frequency_less) simp
  then have "unat (cdf ! 0) \<le> unat (cdf ! 0) + f" "unat (cdf ! 0) + f < unat (cdf ! ?n)" using ft by simp_all
  from step_found [of "\<lambda>i. unat (cdf ! i)", OF this]
  obtain k where k: "k < ?n" "unat (cdf ! k) \<le> unat (cdf ! 0) + f" "unat (cdf ! 0) + f < unat (cdf ! Suc k)" by blast
  have ok: "cdf_ok (cdf, k)" using k len by (simp add: cdf_ok_def word_less_nat_alt)
  note V = cdf_values [OF ok]
  have "unat (ucast (cdf ! k) - ucast (cdf ! 0) :: u32) \<le> frequency (unat r) (unat ft) (unat v)"
    "frequency (unat r) (unat ft) (unat v) < unat (ucast (cdf ! Suc k) - ucast (cdf ! 0) :: u32)"
    using k V(1,2) unfolding V(4,5) f_def [symmetric] by simp_all
  from frequency_cut [OF cdf_triple [OF ok, folded ft_def] assms(2,3) this]
  show ?thesis using ok by (intro exI [of _ k]) (simp add: cdf_cut_def ft_def)
qed

lemma raw_covers:
  assumes "unat n \<le> 23" "8388608 < unat r" "unat (v :: u32) < unat r"
  shows "\<exists>s. raw_ok (s, n) \<and> unat (fst (raw_cut (s, n) r)) \<le> unat v \<and>
    unat v < unat (fst (raw_cut (s, n) r)) + unat (snd (raw_cut (s, n) r))"
  using uniform_covers [of "2 ^ unat n" r v] two_power_le [OF assms(1)] assms
  by (auto simp: raw_ok_def raw_cut_def unat_power_two)

lemma fine_covers:
  assumes "8388608 < unat r" "unat (v :: u32) < unat r"
  shows "\<exists>s. fine_ok s \<and> unat (fst (fine_cut s r)) \<le> unat v \<and> unat v < unat (fst (fine_cut s r)) + unat (snd (fine_cut s r))"
  using uniform_covers [of 64 r v] assms by (auto simp: fine_ok_def fine_cut_def)

lemma bit_covers:
  assumes "0 < unat n" "unat n \<le> 23" "8388608 < unat r" "unat (v :: u32) < unat r"
  shows "\<exists>b. bit_ok (b, n) \<and> unat (fst (bit_cut (b, n) r)) \<le> unat v \<and>
    unat v < unat (fst (bit_cut (b, n) r)) + unat (snd (bit_cut (b, n) r))"
proof -
  let ?x = "drop_bit (unat n) r"
  have x: "unat ?x < unat r" using shifted_range(2) [OF assms(2,3,1)] by (simp add: unat_drop_bit)
  show ?thesis
    using assms x by (intro exI [of _ "unat v < unat ?x"]) (auto simp: bit_ok_def bit_cut_def Let_def unat_minus)
qed

lemma icdf_covers:
  assumes "shape_ok (IcdfShape icdf n)" "8388608 < unat r" "unat (v :: u32) < unat r"
  shows "\<exists>k. icdf_ok (icdf, k, n) \<and> unat (fst (icdf_cut (icdf, k, n) r)) \<le> unat v \<and>
    unat v < unat (fst (icdf_cut (icdf, k, n) r)) + unat (snd (icdf_cut (icdf, k, n) r))"
proof -
  define x where "x = unat r div 2 ^ unat n"
  define P where "P = (\<lambda>k. x * unat (icdf ! k) \<le> unat v)"
  define k where "k = (LEAST k. P k)"
  have icdf: "icdf \<noteq> []" "last icdf = 0" using assms(1) by auto
  have ok: "icdf_ok (icdf, j, n)" if "j < length icdf" for j
    using assms(1) that by (auto simp: icdf_ok_def hd_conv_nth)
  have "P (length icdf - 1)" using icdf by (simp add: P_def last_conv_nth)
  then have Pk: "P k" and kl: "k \<le> length icdf - 1" unfolding k_def by (rule LeastI, rule Least_le)
  have len: "k < length icdf" using kl icdf by (cases icdf) auto
  note I = icdf_numbers [OF ok [OF len] assms(2), folded x_def]
  have low: "x * unat (icdf ! k) \<le> unat v" using Pk by (simp add: P_def)
  show ?thesis
  proof (cases "0 < k")
    case True
    then have "\<not> P (k - 1)" unfolding k_def by (intro not_less_Least) simp
    then have "unat v < x * unat (icdf ! (k - 1))" by (simp add: P_def)
    moreover have "x * unat (icdf ! k) + x * (unat (icdf ! (k - 1)) - unat (icdf ! k)) = x * unat (icdf ! (k - 1))"
      using I(4) [of "k - 1" k] True len by (simp flip: add_mult_distrib2)
    ultimately show ?thesis
      using ok [OF len] low I(2) [OF len] I(5) [OF True] True
      by (intro exI [of _ k]) (simp add: icdf_cut_def Let_def)
  next
    case False
    then show ?thesis
      using ok [OF len] low I(2) [OF len] I(3) [OF len] assms(3)
      by (intro exI [of _ k]) (simp add: icdf_cut_def Let_def unat_minus)
  qed
qed

interpretation all_symbols: covering_symbol encode_symbol "\<lambda>s. decode_shape (shape_of s)" value_of symbol_ok
  "case_symbol (\<lambda>cdf k. cdf_cut (cdf, k)) (\<lambda>v n. raw_cut (v, n)) fine_cut (\<lambda>b n. bit_cut (b, n))
     (\<lambda>icdf k n. icdf_cut (icdf, k, n))"
  shape_ok shape_of
proof (unfold_locales, goal_cases)
  case (1 h r v)
  show ?case
  proof (cases h)
    case (CdfShape cdf)
    with 1 obtain k where "symbol_ok (CdfSym cdf k)" "unat (fst (cdf_cut (cdf, k) r)) \<le> unat v"
        "unat v < unat (fst (cdf_cut (cdf, k) r)) + unat (snd (cdf_cut (cdf, k) r))"
      using cdf_covers [of cdf r v] by auto
    with CdfShape show ?thesis by (intro exI [of _ "CdfSym cdf k"]) simp
  next
    case (RawShape n)
    with 1 obtain s where "symbol_ok (RawSym s n)" "unat (fst (raw_cut (s, n) r)) \<le> unat v"
        "unat v < unat (fst (raw_cut (s, n) r)) + unat (snd (raw_cut (s, n) r))"
      using raw_covers [of n r v] by auto
    with RawShape show ?thesis by (intro exI [of _ "RawSym s n"]) simp
  next
    case FineShape
    with 1 obtain s where "symbol_ok (FineSym s)" "unat (fst (fine_cut s r)) \<le> unat v"
        "unat v < unat (fst (fine_cut s r)) + unat (snd (fine_cut s r))"
      using fine_covers [of r v] by auto
    with FineShape show ?thesis by (intro exI [of _ "FineSym s"]) simp
  next
    case (BitShape n)
    with 1 obtain b where "symbol_ok (BitSym b n)" "unat (fst (bit_cut (b, n) r)) \<le> unat v"
        "unat v < unat (fst (bit_cut (b, n) r)) + unat (snd (bit_cut (b, n) r))"
      using bit_covers [of n r v] by auto
    with BitShape show ?thesis by (intro exI [of _ "BitSym b n"]) simp
  next
    case (IcdfShape icdf n)
    with 1 obtain k where "symbol_ok (IcdfSym icdf k n)" "unat (fst (icdf_cut (icdf, k, n) r)) \<le> unat v"
        "unat v < unat (fst (icdf_cut (icdf, k, n) r)) + unat (snd (icdf_cut (icdf, k, n) r))"
      using icdf_covers [of icdf n r v] by auto
    with IcdfShape show ?thesis by (intro exI [of _ "IcdfSym icdf k n"]) simp
  qed
qed

section \<open>Decoding any bytes\<close>

lemma decode_all_total:
  "list_all shape_ok hs \<Longrightarrow> dec_ready d \<Longrightarrow>
   \<exists>ss d'. list_all symbol_ok ss \<and> map shape_of ss = hs \<and> decode_all hs d = Some (map value_of ss, d') \<and> dec_ready d'"
proof (induction hs arbitrary: d)
  case (Cons h hs)
  obtain s d1 where s: "symbol_ok s" "shape_of s = h" "decode_shape (shape_of s) d = Some (value_of s, d1)" "dec_ready d1"
    using all_symbols.dec_total [of h d] Cons.prems by auto
  obtain ss d' where "list_all symbol_ok ss" "map shape_of ss = hs" "decode_all hs d1 = Some (map value_of ss, d')" "dec_ready d'"
    using Cons.IH [OF _ s(4)] Cons.prems(1) by auto
  with s show ?case by (intro exI [of _ "s # ss"] exI [of _ d']) auto
qed simp

text \<open>C8: On any bytes whatever, empty and truncated payloads included, a fresh decoder exists and decoding any
  list of well-formed tables returns: no normalization loop runs on, every value is one the table has a
  symbol for, and the state keeps a normalized range with the value below it.\<close>

lemma range_decoder_total:
  assumes "list_all shape_ok hs"
  shows "\<exists>d ss d'. NewRangeDecoder payload = Some d \<and> decode_all hs d = Some (map value_of ss, d') \<and>
    list_all symbol_ok ss \<and> map shape_of ss = hs \<and> dec_ready d'"
  using NewRangeDecoder_ready [of payload] decode_all_total [OF assms] by blast

lemma range_decoder_total_witness:
  "\<exists>d ss d'. NewRangeDecoder [] = Some d \<and>
    decode_all [CdfShape [0, 3, 7], FineShape, IcdfShape [9, 4, 0] 4, BitShape 1] d = Some (map value_of ss, d') \<and>
    list_all symbol_ok ss \<and> map shape_of ss = [CdfShape [0, 3, 7], FineShape, IcdfShape [9, 4, 0] 4, BitShape 1] \<and>
    dec_ready d'"
  by (rule range_decoder_total) simp

end
