(* ===== verification/LiveCall.thy ===== *)
theory LiveCall
  imports Signaling Session
begin

text \<open>
  livecall.go, codec.go and signaling/voipsettings.go: the public handle of a call with its listeners,
  and the choice of the audio codec.  A listener, a player and a sink are opaque values; a listener
  that fires is recorded with what it was told.  Every method runs under the handle's mutex, the
  listener after it is released.
\<close>

section \<open>The handle\<close>

type_synonym listener = nat

record VideoState =
  Active :: bool
  Upgrade :: bool
  Orientation :: int
  Raw :: int

datatype call_event = PhaseChanged CallPhase | CallReady | CallEnded string | PeerAccepted | Muted bool
  | VideoChanged VideoState | KeyframeWanted

type_synonym notice = "listener \<times> call_event"

record 'j Call =
  call_id :: string
  call_peer :: 'j
  call_phase :: CallPhase
  call_player :: "nat option"
  call_sink :: "nat option"
  onReady :: "listener option"
  onEnd :: "listener option"
  onState :: "listener option"
  onPeerAccept :: "listener option"
  peerAccepted :: bool
  acceptNotified :: bool
  onMuteState :: "listener option"
  videoSink :: "nat option"
  onVideoState :: "listener option"
  onVideoKeyframeRequest :: "listener option"
  onReaction :: "listener option"

text \<open>\<open>&Call{eng: e, id: id, peer: peer, phase: phase}\<close>.\<close>

definition new_Call :: "string \<Rightarrow> 'j \<Rightarrow> CallPhase \<Rightarrow> 'j Call" where
  "new_Call i p ph =
     \<lparr>call_id = i, call_peer = p, call_phase = ph, call_player = None, call_sink = None, onReady = None,
      onEnd = None, onState = None, onPeerAccept = None, peerAccepted = False, acceptNotified = False,
      onMuteState = None, videoSink = None, onVideoState = None, onVideoKeyframeRequest = None,
      onReaction = None\<rparr>"

definition State :: "'j Call \<Rightarrow> CallPhase" where
  "State c = call_phase c"

definition notify :: "listener option \<Rightarrow> call_event \<Rightarrow> notice list" where
  "notify fn ev = (case fn of None \<Rightarrow> [] | Some f \<Rightarrow> [(f, ev)])"

definition Subscribe :: "'j Call \<Rightarrow> nat option \<Rightarrow> 'j Call" where
  "Subscribe c p = c\<lparr>call_player := p\<rparr>"

definition Receive :: "'j Call \<Rightarrow> nat option \<Rightarrow> 'j Call" where
  "Receive c sink = c\<lparr>call_sink := sink\<rparr>"

definition ReceiveVideo :: "'j Call \<Rightarrow> nat option \<Rightarrow> 'j Call" where
  "ReceiveVideo c sink = c\<lparr>videoSink := sink\<rparr>"

definition OnVideoState :: "'j Call \<Rightarrow> listener option \<Rightarrow> 'j Call" where
  "OnVideoState c fn = c\<lparr>onVideoState := fn\<rparr>"

definition OnVideoKeyframeRequest :: "'j Call \<Rightarrow> listener option \<Rightarrow> 'j Call" where
  "OnVideoKeyframeRequest c fn = c\<lparr>onVideoKeyframeRequest := fn\<rparr>"

definition OnReaction :: "'j Call \<Rightarrow> listener option \<Rightarrow> 'j Call" where
  "OnReaction c fn = c\<lparr>onReaction := fn\<rparr>"

definition OnReady :: "'j Call \<Rightarrow> listener option \<Rightarrow> 'j Call" where
  "OnReady c fn = c\<lparr>onReady := fn\<rparr>"

definition OnEnd :: "'j Call \<Rightarrow> listener option \<Rightarrow> 'j Call" where
  "OnEnd c fn = c\<lparr>onEnd := fn\<rparr>"

definition OnStateChange :: "'j Call \<Rightarrow> listener option \<Rightarrow> 'j Call" where
  "OnStateChange c fn = c\<lparr>onState := fn\<rparr>"

definition OnMuteState :: "'j Call \<Rightarrow> listener option \<Rightarrow> 'j Call" where
  "OnMuteState c fn = c\<lparr>onMuteState := fn\<rparr>"

definition requestVideoKeyframe :: "'j Call \<Rightarrow> notice list" where
  "requestVideoKeyframe c = notify (onVideoKeyframeRequest c) KeyframeWanted"

text \<open>The one-shot notice that the peer accepted.\<close>

definition OnPeerAccept :: "'j Call \<Rightarrow> listener option \<Rightarrow> notice list \<times> 'j Call" where
  "OnPeerAccept c fn =
     (let c1 = c\<lparr>onPeerAccept := fn\<rparr>;
          shouldNotify = (peerAccepted c1 \<and> \<not> acceptNotified c1 \<and> fn \<noteq> None);
          c2 = (if shouldNotify then c1\<lparr>acceptNotified := True\<rparr> else c1)
      in (if shouldNotify then notify fn PeerAccepted else [], c2))"

definition markPeerAccepted :: "'j Call \<Rightarrow> notice list \<times> 'j Call" where
  "markPeerAccepted c =
     (let c1 = c\<lparr>peerAccepted := True\<rparr>;
          fn = onPeerAccept c1;
          shouldNotify = (\<not> acceptNotified c1 \<and> fn \<noteq> None);
          c2 = (if shouldNotify then c1\<lparr>acceptNotified := True\<rparr> else c1)
      in (if shouldNotify then notify fn PeerAccepted else [], c2))"

definition setPhase :: "'j Call \<Rightarrow> CallPhase \<Rightarrow> notice list \<times> 'j Call" where
  "setPhase c next' =
     (if call_phase c = next' then ([], c)
      else (notify (onState c) (PhaseChanged next'), c\<lparr>call_phase := next'\<rparr>))"

section \<open>The audio codec\<close>

datatype AudioCodec = AudioCodecMlow | AudioCodecOpus

record VoipSettings =
  UseMlowCodecV1 :: bool
  FrameMs :: int
  TargetBitrate :: int
  Present :: bool

definition atoiOrZero :: "string \<Rightarrow> int" where
  "atoiOrZero s = (case Atoi s of None \<Rightarrow> 0 | Some n \<Rightarrow> n)"

text \<open>
  \<open>json_fields\<close> is \<open>json.Unmarshal\<close> into the struct of the three strings \<open>use_mlow_codec_v1\<close>,
  \<open>frame_ms\<close> and \<open>target_bitrate\<close>, each empty when its key is absent, or an error.
\<close>

definition ParseVoipSettings :: "(bytes \<Rightarrow> (string \<times> string \<times> string) option) \<Rightarrow> bytes \<Rightarrow> VoipSettings option" where
  "ParseVoipSettings json_fields raw =
     (if trim_space (map (char_of \<circ> unat) raw) = []
      then Some \<lparr>UseMlowCodecV1 = True, FrameMs = 0, TargetBitrate = 0, Present = False\<rparr>
      else
        case json_fields raw of
          None \<Rightarrow> None
        | Some (mlow, frame, bitrate) \<Rightarrow>
            Some \<lparr>UseMlowCodecV1 = (mlow \<noteq> ''false''), FrameMs = atoiOrZero frame,
                  TargetBitrate = atoiOrZero bitrate, Present = True\<rparr>)"

definition selectAudioCodec :: "VoipSettings option \<Rightarrow> AudioCodec" where
  "selectAudioCodec vs =
     (case vs of
        None \<Rightarrow> AudioCodecMlow
      | Some v \<Rightarrow> if \<not> Present v \<or> UseMlowCodecV1 v then AudioCodecMlow else AudioCodecOpus)"

section \<open>The peer's acceptance is told once\<close>

datatype accept_op = Register listener | PeerAccepts

fun accept_step :: "'j Call \<Rightarrow> accept_op \<Rightarrow> notice list \<times> 'j Call" where
  "accept_step c (Register fn) = OnPeerAccept c (Some fn)"
| "accept_step c PeerAccepts = markPeerAccepted c"

fun accept_run :: "'j Call \<Rightarrow> accept_op list \<Rightarrow> notice list" where
  "accept_run c [] = []"
| "accept_run c (op # ops) = (case accept_step c op of (ns, c1) \<Rightarrow> ns @ accept_run c1 ops)"

definition registrations :: "accept_op list \<Rightarrow> listener list" where
  "registrations ops = List.map_filter (\<lambda>op. case op of Register fn \<Rightarrow> Some fn | PeerAccepts \<Rightarrow> None) ops"

lemmas accept_defs = OnPeerAccept_def markPeerAccepted_def notify_def Let_def registrations_def map_filter_simps

lemma accept_run_notified: "acceptNotified c \<Longrightarrow> accept_run c ops = []"
proof (induction ops arbitrary: c)
  case (Cons op ops)
  then show ?case by (cases op) (simp_all add: accept_defs)
qed simp

lemma accept_run_waiting:
  "peerAccepted c \<Longrightarrow> \<not> acceptNotified c \<Longrightarrow> onPeerAccept c = None \<Longrightarrow>
   accept_run c ops = map (\<lambda>fn. (fn, PeerAccepted)) (take 1 (registrations ops))"
proof (induction ops arbitrary: c)
  case (Cons op ops)
  then show ?case by (cases op) (simp_all add: accept_defs accept_run_notified)
qed (simp add: accept_defs)

lemma accept_run_registered:
  "\<not> peerAccepted c \<Longrightarrow> \<not> acceptNotified c \<Longrightarrow> onPeerAccept c = Some f \<Longrightarrow>
   accept_run c ops = (if PeerAccepts \<in> set ops
     then [(last (f # registrations (takeWhile (\<lambda>op. op \<noteq> PeerAccepts) ops)), PeerAccepted)] else [])"
proof (induction ops arbitrary: c f)
  case (Cons op ops)
  then show ?case by (cases op) (simp_all add: accept_defs accept_run_notified)
qed simp

text \<open>C38: the acceptance notice is one-shot and never lost: in any order of registrations and acceptances
  on a fresh call it is delivered exactly when both occur, once, to the listener registered when the peer
  first accepts, or to the first one registered afterwards.\<close>

theorem peer_accept_told_once:
  "accept_run (new_Call i p ph) ops =
    (if PeerAccepts \<in> set ops \<and> registrations ops \<noteq> []
     then [(let before = registrations (takeWhile (\<lambda>op. op \<noteq> PeerAccepts) ops)
            in if before = [] then hd (registrations ops) else last before, PeerAccepted)]
     else [])"
proof (cases ops)
  case (Cons op rest)
  show ?thesis
  proof (cases op)
    case (Register f)
    let ?c = "(new_Call i p ph)\<lparr>onPeerAccept := Some f\<rparr>"
    have "accept_run (new_Call i p ph) ops = accept_run ?c rest"
      using Cons Register by (simp add: accept_defs new_Call_def)
    also have "\<dots> = (if PeerAccepts \<in> set rest
        then [(last (f # registrations (takeWhile (\<lambda>op. op \<noteq> PeerAccepts) rest)), PeerAccepted)] else [])"
      by (rule accept_run_registered) (simp_all add: new_Call_def)
    finally show ?thesis using Cons Register by (simp add: accept_defs)
  next
    case PeerAccepts
    let ?c = "(new_Call i p ph)\<lparr>peerAccepted := True\<rparr>"
    have "accept_run (new_Call i p ph) ops = accept_run ?c rest"
      using Cons PeerAccepts by (simp add: accept_defs new_Call_def)
    also have "\<dots> = map (\<lambda>fn. (fn, PeerAccepted)) (take 1 (registrations rest))"
      by (rule accept_run_waiting) (simp_all add: new_Call_def)
    finally show ?thesis using Cons PeerAccepts by (cases "registrations rest") (simp_all add: accept_defs)
  qed
qed (simp add: accept_defs)

end
