(* ===== verification/RelayData.thy ===== *)
theory RelayData
  imports Relay Signaling
begin

text \<open>
  engine.go and engine_media.go: what a \<open><relay>\<close> node says of the relay allocation, the election of the
  endpoint, and the connection to it with the first STUN allocate request.
\<close>

section \<open>Nodes\<close>

definition nodeBytes :: "'j view \<Rightarrow> bytes option" where
  "nodeBytes n = (case vcontent n of NoValue \<Rightarrow> None | OctetValue b \<Rightarrow> Some b | TextValue s \<Rightarrow> Some (bytes_of s))"

definition childByTag :: "'j view \<Rightarrow> string \<Rightarrow> 'j view option" where
  "childByTag n tag = find (\<lambda>k. vtag k = tag) (vkids n)"

fun find_tag :: "string \<Rightarrow> 'j view \<Rightarrow> 'j view option" and find_tag_in :: "string \<Rightarrow> 'j view list \<Rightarrow> 'j view option" where
  "find_tag tag (View t s j kids b) = (if t = tag then Some (View t s j kids b) else find_tag_in tag kids)"
| "find_tag_in tag [] = None"
| "find_tag_in tag (k # ks) = (case find_tag tag k of Some r \<Rightarrow> Some r | None \<Rightarrow> find_tag_in tag ks)"

definition findChild :: "'j view option \<Rightarrow> string \<Rightarrow> 'j view option" where
  "findChild n tag = (case n of None \<Rightarrow> None | Some v \<Rightarrow> find_tag tag v)"

definition findRelay :: "'j view option \<Rightarrow> 'j view option" where
  "findRelay n = (case n of None \<Rightarrow> None | Some v \<Rightarrow> find_tag ''relay'' v)"

text \<open>The error of \<open>ParseUint\<close> is dropped, not its value: out of range reads as the largest number.\<close>

definition attrUint :: "'j view \<Rightarrow> string \<Rightarrow> u32" where
  "attrUint n key = fst (ParseUint32 (vstr n key))"

section \<open>The relay allocation\<close>

record relayAddress =
  ipv4 :: string
  port :: u16

record relayEndpoint =
  relayID :: u32
  relayName :: string
  tokenID :: u32
  authTokenID :: u32
  isFNA :: bool
  addresses :: "relayAddress list"

record relayData =
  relayKeyASCII :: "bytes option"
  relayTokens :: "bytes option list"
  endpoints :: "relayEndpoint list"

definition maxRelayTokens :: nat where
  "maxRelayTokens = 64"

definition token_id :: "bytes option list \<Rightarrow> string \<Rightarrow> int" where
  "token_id tokens s =
     (if s = [] then int (length tokens)
      else case Atoi s of Some n \<Rightarrow> n | None \<Rightarrow> int (length tokens))"

text \<open>The loop over the children; \<open>None\<close> is the panic of an assignment to a negative index.\<close>

fun token_loop :: "string \<Rightarrow> bytes option list \<Rightarrow> 'j view list \<Rightarrow> bytes option list option" where
  "token_loop tag tokens [] = Some tokens"
| "token_loop tag tokens (c # cs) =
     (if vtag c \<noteq> tag then token_loop tag tokens cs
      else case nodeBytes c of
        None \<Rightarrow> token_loop tag tokens cs
      | Some b \<Rightarrow>
          let i = token_id tokens (vstr c ''id'')
          in if int maxRelayTokens \<le> i then token_loop tag tokens cs
             else if i < 0 then None
             else
               let padded = tokens @ replicate (nat i + 1 - length tokens) None
               in token_loop tag (padded[nat i := Some b]) cs)"

definition parseIndexedTokens :: "'j view \<Rightarrow> string \<Rightarrow> bytes option list option" where
  "parseIndexedTokens node tag = token_loop tag [] (vkids node)"

text \<open>\<open>fmt.Sprintf("%d.%d.%d.%d", ...)\<close>.\<close>

definition dotted :: "u8 \<Rightarrow> u8 \<Rightarrow> u8 \<Rightarrow> u8 \<Rightarrow> string" where
  "dotted a b c d = FormatUint (unat a) @ CHR ''.'' # FormatUint (unat b) @ CHR ''.'' #
     FormatUint (unat c) @ CHR ''.'' # FormatUint (unat d)"

definition te2_endpoint :: "'j view \<Rightarrow> relayEndpoint option" where
  "te2_endpoint te2 =
     (if vtag te2 \<noteq> ''te2'' then None
      else
        let ab = (case nodeBytes te2 of None \<Rightarrow> [] | Some b \<Rightarrow> b)
        in if length ab \<noteq> 6 then None
           else Some \<lparr>relayID = attrUint te2 ''relay_id'', relayName = vstr te2 ''relay_name'',
             tokenID = attrUint te2 ''token_id'', authTokenID = attrUint te2 ''auth_token_id'',
             isFNA = (vstr te2 ''is_fna'' = ''1''),
             addresses = [\<lparr>ipv4 = dotted (ab ! 0) (ab ! 1) (ab ! 2) (ab ! 3), port = get16 (drop 4 ab)\<rparr>]\<rparr>)"

definition parseRelayData :: "'j view \<Rightarrow> relayData option" where
  "parseRelayData node =
     (case parseIndexedTokens node ''token'' of
        None \<Rightarrow> None
      | Some tokens \<Rightarrow>
          Some \<lparr>relayKeyASCII = (case childByTag node ''key'' of None \<Rightarrow> None | Some k \<Rightarrow> nodeBytes k),
                relayTokens = tokens, endpoints = List.map_filter te2_endpoint (vkids node)\<rparr>)"

definition getMediaRelayEndpoint :: "relayData \<Rightarrow> relayEndpoint option" where
  "getMediaRelayEndpoint rd =
     (case find (\<lambda>e. \<not> isFNA e \<and> authTokenID e \<noteq> 0) (endpoints rd) of
        Some e \<Rightarrow> Some e
      | None \<Rightarrow>
          (case find (\<lambda>e. \<not> isFNA e) (endpoints rd) of
             Some e \<Rightarrow> Some e
           | None \<Rightarrow> (case endpoints rd of [] \<Rightarrow> None | e # _ \<Rightarrow> Some e)))"

section \<open>Connecting\<close>

text \<open>
  Which case of the \<open>select\<close> is taken: the connection attempt ended, 12 seconds passed, or the context was
  cancelled.  The goroutine with the attempt runs on in each case, so its trace is always there.
\<close>

datatype wait = Connected | TimedOut | Cancelled

datatype connect_error = NoEndpoint | ConnectError CallTransportError | ConnectTimeout | ContextDone
  | NoToken u32 | NoKey | BadEndpoint | AllocateSend

definition connectAndAllocate :: "relay_lib \<Rightarrow> wait \<Rightarrow> bool \<Rightarrow> bytes \<Rightarrow> relayData \<Rightarrow> u32 list \<Rightarrow>
    (connect_error + bytes) \<times> relay_event list" where
  "connectAndAllocate lib w sendOk tx rd streamSsrcs =
     (case getMediaRelayEndpoint rd of
        None \<Rightarrow> (Inl NoEndpoint, [])
      | Some ep \<Rightarrow>
          (case addresses ep of
             [] \<Rightarrow> (Inl NoEndpoint, [])
           | a # _ \<Rightarrow>
               let (r, t) = ConnectRelayMedia lib;
                   close = snd (RelayMediaChannel_Close lib)
               in case w of
                    TimedOut \<Rightarrow> (Inl ConnectTimeout, t)
                  | Cancelled \<Rightarrow> (Inl ContextDone, t)
                  | Connected \<Rightarrow>
                      (case r of
                         Inl e \<Rightarrow> (Inl (ConnectError e), t)
                       | Inr _ \<Rightarrow>
                           if length (relayTokens rd) \<le> unat (tokenID ep) \<or> relayTokens rd ! unat (tokenID ep) = None
                           then (Inl (NoToken (tokenID ep)), t @ close)
                           else
                             case relayKeyASCII rd of
                               None \<Rightarrow> (Inl NoKey, t @ close)
                             | Some key \<Rightarrow>
                                 if key = [] then (Inl NoKey, t @ close)
                                 else
                                   case EncodeXorRelayEndpoint (ipv4 a) (port a) of
                                     None \<Rightarrow> (Inl BadEndpoint, t @ close)
                                   | Some endpointXor \<Rightarrow>
                                       let allocate = BuildWasmStunAllocateRequestWithStreamSsrcs tx
                                             (the (relayTokens rd ! unat (tokenID ep))) endpointXor streamSsrcs (Some key)
                                       in if \<not> sendOk then (Inl AllocateSend, t @ close) else (Inr allocate, t))))"

section \<open>Tokens\<close>

definition negative_id :: "string \<Rightarrow> 'j view \<Rightarrow> bool" where
  "negative_id tag c \<longleftrightarrow> vtag c = tag \<and> nodeBytes c \<noteq> None \<and>
     (case Atoi (vstr c ''id'') of Some n \<Rightarrow> n < 0 | None \<Rightarrow> False)"

lemma Atoi_Nil [simp]: "Atoi [] = None"
  by (simp add: Atoi_def)

lemma token_id_cases: "token_id tokens s = (case Atoi s of Some n \<Rightarrow> n | None \<Rightarrow> int (length tokens))"
  by (simp add: token_id_def)

lemma token_loop_bound:
  "length tokens \<le> maxRelayTokens \<Longrightarrow>
   (case token_loop tag tokens cs of None \<Rightarrow> list_ex (negative_id tag) cs
    | Some ts \<Rightarrow> length ts \<le> maxRelayTokens \<and> \<not> list_ex (negative_id tag) cs)"
proof (induction cs arbitrary: tokens)
  case (Cons c cs)
  define i where "i = token_id tokens (vstr c ''id'')"
  show ?case
  proof (cases "vtag c \<noteq> tag \<or> nodeBytes c = None")
    case True
    then have "token_loop tag tokens (c # cs) = token_loop tag tokens cs" "\<not> negative_id tag c"
      by (auto simp: negative_id_def split: option.splits)
    then show ?thesis using Cons.IH [OF Cons.prems] by (simp split: option.splits)
  next
    case False
    then obtain b where b: "vtag c = tag" "nodeBytes c = Some b" by auto
    have neg: "negative_id tag c \<longleftrightarrow> i < 0"
      using b by (simp add: negative_id_def i_def token_id_cases split: option.splits)
    consider (large) "int maxRelayTokens \<le> i" | (neg) "i < 0" | (ok) "0 \<le> i" "i < int maxRelayTokens" by linarith
    then show ?thesis
    proof cases
      case large
      then have "token_loop tag tokens (c # cs) = token_loop tag tokens cs" "\<not> negative_id tag c"
        using b neg by (simp_all add: i_def [symmetric] Let_def)
      then show ?thesis using Cons.IH [OF Cons.prems] by (simp split: option.splits)
    next
      case neg
      then show ?thesis using b \<open>negative_id tag c \<longleftrightarrow> i < 0\<close> by (simp add: i_def [symmetric] Let_def)
    next
      case ok
      let ?ts = "(tokens @ replicate (nat i + 1 - length tokens) None)[nat i := Some b]"
      have "token_loop tag tokens (c # cs) = token_loop tag ?ts cs" "\<not> negative_id tag c"
        using b neg ok by (simp_all add: i_def [symmetric] Let_def)
      moreover have "length ?ts \<le> maxRelayTokens" using ok Cons.prems by simp
      ultimately show ?thesis using Cons.IH [of ?ts] by (simp split: option.splits)
    qed
  qed
qed (simp add: maxRelayTokens_def)

text \<open>C39: whatever the server sends, the token table has at most 64 entries, and parsing it panics exactly
  when some token carries a negative id.\<close>

theorem parseIndexedTokens_bounded:
  "case parseIndexedTokens node tag of
     None \<Rightarrow> list_ex (negative_id tag) (vkids node)
   | Some ts \<Rightarrow> length ts \<le> maxRelayTokens \<and> \<not> list_ex (negative_id tag) (vkids node)"
  unfolding parseIndexedTokens_def by (rule token_loop_bound) simp

section \<open>The endpoint\<close>

lemma digit_char_not_dot: "d < 10 \<Longrightarrow> digit_char d \<noteq> CHR ''.''"
proof
  assume d: "d < 10" "digit_char d = CHR ''.''"
  then have "digit (CHR ''.'') = Some d" using digit_digit_char by metis
  then show False by (simp add: digit_def of_char_def)
qed

lemma dot_notin_FormatUint: "CHR ''.'' \<notin> set (FormatUint n)"
proof (induction n rule: FormatUint.induct)
  case (1 n)
  then show ?case using digit_char_not_dot [of "n mod 10"] digit_char_not_dot [of n]
    by (subst FormatUint.simps) (auto split: if_splits)
qed

lemma parse_decimal_append: "parse_decimal acc (s @ t) =
    (case parse_decimal acc s of None \<Rightarrow> None | Some n \<Rightarrow> parse_decimal n t)"
  by (induction s arbitrary: acc) (simp_all split: option.splits)

lemma parse_decimal_FormatUint: "parse_decimal 0 (FormatUint m) = Some m"
proof (induction m rule: FormatUint.induct)
  case (1 m)
  show ?case
  proof (cases "m < 10")
    case True
    then show ?thesis by (subst FormatUint.simps) simp
  next
    case False
    then show ?thesis using 1 by (subst FormatUint.simps) (simp add: parse_decimal_append)
  qed
qed

lemma ParseUint8_FormatUint [simp]: "ParseUint8 (FormatUint (unat (b :: u8))) = Some b"
  using unsigned_less [of b, where ?'a = nat] by (simp add: ParseUint8_def parse_decimal_FormatUint)

lemma split_on_word: "c \<notin> set s \<Longrightarrow> split_on c s = [s]"
  by (induction s) auto

lemma split_on_append: "c \<notin> set s \<Longrightarrow> split_on c (s @ c # t) = s # split_on c t"
  by (induction s) auto

lemma dotted_octets: "octets_of (split_on CHR ''.'' (dotted a b c d)) = [a, b, c, d]"
  by (simp add: dotted_def split_on_append split_on_word dot_notin_FormatUint)

lemma find_SomeD: "find P xs = Some x \<Longrightarrow> P x \<and> x \<in> set xs"
  by (induction xs) (auto split: if_splits)

lemma getMediaRelayEndpoint_in: "getMediaRelayEndpoint rd = Some e \<Longrightarrow> e \<in> set (endpoints rd)"
  by (auto simp: getMediaRelayEndpoint_def dest: find_SomeD split: option.splits list.splits)

definition endpoint_rank :: "relayEndpoint \<Rightarrow> nat" where
  "endpoint_rank e = (if \<not> isFNA e \<and> authTokenID e \<noteq> 0 then 0 else if \<not> isFNA e then 1 else 2)"

lemma find_rank:
  "find P xs = None \<Longrightarrow> x \<in> set xs \<Longrightarrow> \<not> P x"
  by (auto simp: find_None_iff)

text \<open>The elected endpoint is one with the best rank (an authenticated one that is no FNA, then any that
  is no FNA, then any), and there is one unless the list is empty.\<close>

theorem getMediaRelayEndpoint_best:
  "case getMediaRelayEndpoint rd of
     None \<Rightarrow> endpoints rd = []
   | Some e \<Rightarrow> e \<in> set (endpoints rd) \<and> list_all (\<lambda>x. endpoint_rank e \<le> endpoint_rank x) (endpoints rd)"
proof (cases "find (\<lambda>e. \<not> isFNA e \<and> authTokenID e \<noteq> 0) (endpoints rd)")
  case (Some e)
  then show ?thesis
    using find_SomeD [OF Some] by (auto simp: getMediaRelayEndpoint_def endpoint_rank_def list_all_iff)
next
  case None
  note N = find_rank [OF None]
  show ?thesis
  proof (cases "find (\<lambda>e. \<not> isFNA e) (endpoints rd)")
    case (Some e)
    then show ?thesis
      using find_SomeD [OF Some] None N by (auto simp: getMediaRelayEndpoint_def endpoint_rank_def list_all_iff)
  next
    case F: None
    show ?thesis
      using None F find_rank [OF F]
      by (cases "endpoints rd") (auto simp: getMediaRelayEndpoint_def endpoint_rank_def list_all_iff)
  qed
qed


section \<open>The connection\<close>

lemma endpoint_of_node:
  assumes "parseRelayData node = Some rd" "getMediaRelayEndpoint rd = Some ep"
  obtains te2 ab where "te2 \<in> set (vkids node)" "te2_endpoint te2 = Some ep" "nodeBytes te2 = Some ab" "length ab = 6"
    "addresses ep = [\<lparr>ipv4 = dotted (ab ! 0) (ab ! 1) (ab ! 2) (ab ! 3), port = get16 (drop 4 ab)\<rparr>]"
proof -
  have "ep \<in> set (List.map_filter te2_endpoint (vkids node))"
    using getMediaRelayEndpoint_in [OF assms(2)] assms(1) by (auto simp: parseRelayData_def split: option.splits)
  then obtain te2 where te2: "te2 \<in> set (vkids node)" "te2_endpoint te2 = Some ep"
    by (auto simp: List.map_filter_def)
  then obtain ab where ab: "nodeBytes te2 = Some ab" "length ab = 6"
    by (auto simp: te2_endpoint_def Let_def split: if_splits option.splits)
  show thesis
    by (rule that [OF te2 ab]) (use te2(2) ab in \<open>auto simp: te2_endpoint_def Let_def split: if_splits\<close>)
qed

definition xor_address :: "bytes \<Rightarrow> bytes" where
  "xor_address ab = map2 (XOR) (drop 4 ab @ take 4 ab) [0x21, 0x12, 0x21, 0x12, 0xa4, 0x42]"

lemma length_six: "length ab = 6 \<Longrightarrow> ab = [ab ! 0, ab ! 1, ab ! 2, ab ! 3, ab ! 4, ab ! 5]"
  by (intro nth_equalityI) (auto simp: less_Suc_eq numeral_eq_Suc)

lemma be16_xor: "be16 (v XOR w) = map2 (XOR) (be16 v) (be16 w)"
  by (simp add: be16_def) (intro conjI bit_word_eqI; auto simp: bit_simps)

lemma be16_xor_get16: "be16 (get16 [a, b] XOR 0x2112) = [a XOR 0x21, b XOR 0x12 :: u8]"
proof -
  have "be16 (0x2112 :: u16) = [0x21, 0x12]" by (simp add: be16_def)
  then show ?thesis by (simp add: be16_xor be16_get16)
qed

lemma endpoint_xor:
  assumes "length ab = 6"
  shows "EncodeXorRelayEndpoint (dotted (ab ! 0) (ab ! 1) (ab ! 2) (ab ! 3)) (get16 (drop 4 ab)) = Some (xor_address ab)"
proof -
  have "drop 4 ab = [ab ! 4, ab ! 5]" "take 4 ab = [ab ! 0, ab ! 1, ab ! 2, ab ! 3]"
    by (subst length_six [OF assms], simp)+
  then show ?thesis
    unfolding EncodeXorRelayEndpoint_octets [OF dotted_octets] by (simp add: xor_address_def be16_xor_get16)
qed


lemma ConnectRelayMedia_trace:
  "case ConnectRelayMedia lib of
     (Inl e, t) \<Rightarrow> closed t = rev (opened t)
   | (Inr u, t) \<Rightarrow> closed t = [] \<and> opened t = [Udp, DtlsConn, Assoc, Dc]"
  by (cases "listenUDP lib"; cases "selfSigned lib"; cases "dtlsClient lib"; cases "sctpClient lib";
      cases "dialChannel lib") (simp_all add: ConnectRelayMedia_def fail_def Let_def)

lemma opened_closed_append [simp]: "opened (t @ u) = opened t @ opened u" "closed (t @ u) = closed t @ closed u"
  by (induction t) (auto simp: opened_def closed_def map_filter_def)

lemma closes_all: "closed (snd (RelayMediaChannel_Close lib)) = [Dc, Assoc, DtlsConn, Udp]"
    "opened (snd (RelayMediaChannel_Close lib)) = []"
  by (simp_all add: Close_result)

text \<open>C37: connecting with an allocation as the server sent it, whichever way the wait for the connection ends.
  On success the stack is open, nothing is closed and the allocate request carries the elected endpoint's
  token and, XORed with the magic, the six bytes of its \<open>te2\<close> node, under the allocation's key.  On an
  error the address of the endpoint is never to blame, and all that was opened is closed, in reverse
  order, except exactly when the code stopped waiting, at its timeout or for the context, for an attempt
  that then succeeds: its stack stays open.\<close>

theorem relay_connects:
  assumes "parseRelayData node = Some rd"
  shows "case connectAndAllocate lib w sendOk tx rd streamSsrcs of
     (Inl e, t) \<Rightarrow> e \<noteq> BadEndpoint \<and> (e \<in> {ConnectTimeout, ContextDone} \<longrightarrow> w \<noteq> Connected) \<and>
       (closed t = rev (opened t) \<longleftrightarrow> \<not> (e \<in> {ConnectTimeout, ContextDone} \<and> \<not> isl (fst (ConnectRelayMedia lib))))
   | (Inr allocate, t) \<Rightarrow> w = Connected \<and> closed t = [] \<and> opened t = [Udp, DtlsConn, Assoc, Dc] \<and>
       list_ex (\<lambda>te2. getMediaRelayEndpoint rd = te2_endpoint te2 \<and>
         allocate = BuildWasmStunAllocateRequestWithStreamSsrcs tx
           (the (relayTokens rd ! unat (attrUint te2 ''token_id''))) (xor_address (the (nodeBytes te2)))
           streamSsrcs (relayKeyASCII rd)) (vkids node)"
proof (cases "getMediaRelayEndpoint rd")
  case None
  then show ?thesis by (simp add: connectAndAllocate_def)
next
  case (Some ep)
  obtain te2 ab where te2: "te2 \<in> set (vkids node)" "te2_endpoint te2 = Some ep" "nodeBytes te2 = Some ab"
      "length ab = 6" "addresses ep = [\<lparr>ipv4 = dotted (ab ! 0) (ab ! 1) (ab ! 2) (ab ! 3), port = get16 (drop 4 ab)\<rparr>]"
    using endpoint_of_node [OF assms Some] .
  have tok: "tokenID ep = attrUint te2 ''token_id''"
    using te2(2-4) by (auto simp: te2_endpoint_def Let_def split: if_splits)
  have xor: "EncodeXorRelayEndpoint (ipv4 (hd (addresses ep))) (port (hd (addresses ep))) = Some (xor_address ab)"
    using endpoint_xor [OF te2(4)] te2(5) by simp
  obtain r t where rt: "ConnectRelayMedia lib = (r, t)" by (cases "ConnectRelayMedia lib")
  have trace: "case r of Inl e \<Rightarrow> closed t = rev (opened t) | Inr u \<Rightarrow> closed t = [] \<and> opened t = [Udp, DtlsConn, Assoc, Dc]"
    using ConnectRelayMedia_trace [of lib] by (simp add: rt split: sum.splits)
  show ?thesis
  proof (cases w)
    case Connected
    then show ?thesis
      using trace te2 xor tok Some
      by (cases r) (auto simp: connectAndAllocate_def rt closes_all Let_def list_ex_iff split: option.splits intro!: bexI [of _ te2])
  qed (use trace te2(5) Some in \<open>cases r; simp add: connectAndAllocate_def rt\<close>)+
qed


definition te2_example :: "nat view" where
  "te2_example = View ''te2'' (\<lambda>k. if k = ''token_id'' then ''0'' else []) (\<lambda>k. 0) [] (OctetValue [10, 0, 0, 1, 13, 150])"

definition relay_example :: "nat view" where
  "relay_example = View ''relay'' (\<lambda>k. []) (\<lambda>k. 0)
     [View ''key'' (\<lambda>k. []) (\<lambda>k. 0) [] (OctetValue [7]), View ''token'' (\<lambda>k. []) (\<lambda>k. 0) [] (OctetValue [9]), te2_example] NoValue"

definition good_lib :: relay_lib where
  "good_lib = \<lparr>listenUDP = None, selfSigned = None, dtlsClient = None, sctpClient = None, dialChannel = None,
     closeError = (\<lambda>r. None)\<rparr>"

definition example_data :: relayData where
  "example_data = \<lparr>relayKeyASCII = Some [7], relayTokens = [Some [9]],
     endpoints = [\<lparr>relayID = 0, relayName = [], tokenID = 0, authTokenID = 0, isFNA = False,
       addresses = [\<lparr>ipv4 = dotted 10 0 0 1, port = get16 [13, 150]\<rparr>]\<rparr>]\<rparr>"

lemma example_data_parsed: "parseRelayData relay_example = Some example_data"
  by (simp add: parseRelayData_def parseIndexedTokens_def relay_example_def te2_example_def nodeBytes_def example_data_def
      token_id_def maxRelayTokens_def te2_endpoint_def map_filter_simps attrUint_def ParseUint32_def digit_def childByTag_def Let_def)

lemma example_waits:
  "isl (fst (connectAndAllocate good_lib TimedOut True [] example_data []))"
  "\<not> isl (fst (connectAndAllocate good_lib Connected True [] example_data []))"
proof -
  have "EncodeXorRelayEndpoint (dotted 10 0 0 1) (get16 (drop 4 [10, 0, 0, 1, 13, 150])) = Some (xor_address [10, 0, 0, 1, 13, 150])"
    using endpoint_xor [of "[10, 0, 0, 1, 13, 150]"] by simp
  then show "isl (fst (connectAndAllocate good_lib TimedOut True [] example_data []))"
    "\<not> isl (fst (connectAndAllocate good_lib Connected True [] example_data []))"
    by (simp_all add: connectAndAllocate_def getMediaRelayEndpoint_def example_data_def good_lib_def ConnectRelayMedia_def Let_def)
qed

lemma relay_connects_witness:
  "(case connectAndAllocate good_lib TimedOut True [] example_data [] of
     (Inl e, t) \<Rightarrow> e \<noteq> BadEndpoint \<and>
       (closed t = rev (opened t) \<longleftrightarrow> \<not> (e \<in> {ConnectTimeout, ContextDone} \<and> \<not> isl (fst (ConnectRelayMedia good_lib))))
   | _ \<Rightarrow> False) \<and>
   (case connectAndAllocate good_lib Connected True [] example_data [] of
     (Inr allocate, t) \<Rightarrow> closed t = [] \<and> opened t = [Udp, DtlsConn, Assoc, Dc] \<and>
       list_ex (\<lambda>te2. getMediaRelayEndpoint example_data = te2_endpoint te2 \<and>
         allocate = BuildWasmStunAllocateRequestWithStreamSsrcs []
           (the (relayTokens example_data ! unat (attrUint te2 ''token_id''))) (xor_address (the (nodeBytes te2)))
           [] (relayKeyASCII example_data)) (vkids relay_example)
   | _ \<Rightarrow> False)"
  using relay_connects [OF example_data_parsed, where lib = good_lib and w = TimedOut and sendOk = True and tx = "[]" and streamSsrcs = "[]"]
    relay_connects [OF example_data_parsed, where lib = good_lib and w = Connected and sendOk = True and tx = "[]" and streamSsrcs = "[]"]
    example_waits
  by (auto simp del: list_ex_iff split: sum.splits prod.splits)

text \<open>
  An attempt that the code stopped waiting for is not closed when it succeeds later: the stack it opened
  is lost.
\<close>

lemma late_connection_leaks:
  assumes "getMediaRelayEndpoint rd = Some ep" "addresses ep \<noteq> []" "ConnectRelayMedia lib = (Inr u, t)" "w \<noteq> Connected"
  shows "opened (snd (connectAndAllocate lib w sendOk tx rd streamSsrcs)) = [Udp, DtlsConn, Assoc, Dc] \<and>
    closed (snd (connectAndAllocate lib w sendOk tx rd streamSsrcs)) = []"
  using assms ConnectRelayMedia_trace [of lib]
  by (cases w; cases "addresses ep") (simp_all add: connectAndAllocate_def)

end
