(* ===== verification/Engine.thy ===== *)
theory Engine
  imports LiveCall RelayData VideoSender AppData
begin

text \<open>
  engine.go: the engine behind \<open>Client\<close> and \<open>Call\<close>.  Its state is the map of its calls and the heap of
  the \<open>Call\<close> handles, which the application shares; what it does outside is the trace: a stanza sent or
  refused, a listener fired, a media task started or cancelled, packets handed to the relay.  The
  handlers run one at a time.  whatsmeow (sending, Signal encryption, JIDs, device lists) and JSON are
  parameters; logging and diagnostics are left out.
\<close>

section \<open>State and environment\<close>

record 'j engineCall =
  ec_call :: "nat option"
  callKey :: "bytes option"
  relay :: "relayData option"
  selfLID :: string
  peerLID :: string
  creator :: 'j
  fromJID :: 'j
  direction :: CallDirection
  codec :: AudioCodec
  localVideo :: bool
  remoteVideo :: bool
  videoGate :: bool
  videoTx :: "videoSender option"
  appDataTx :: "appDataSender option"
  rekeySet :: bool
  started :: bool
  cancel :: "nat option"
  acceptPending :: bool

datatype 'j effect = Sent bool "'j Node" | Notice nat listener call_event | IncomingCall listener nat
  | StartMedia nat string "nat option" bytes string string relayData | CancelMedia nat
  | Rekey string string | VideoPackets string "bytes list" | ReactionPackets string "bytes list"

record 'j engine =
  calls :: "string \<Rightarrow> 'j engineCall option"
  heap :: "'j Call list"
  onIncomingCall :: "listener option"
  trace :: "'j effect list"

text \<open>
  The environment: whether the send that is the \<open>n\<close>-th entry of the trace succeeds, the random id made
  there, whatsmeow's JIDs and keys, and JSON.
\<close>

record 'j env =
  netOk :: "nat \<Rightarrow> bool"
  freshID :: "nat \<Rightarrow> string"
  zeroJID :: 'j
  jidEmpty :: "'j \<Rightarrow> bool"
  jidString :: "'j \<Rightarrow> string"
  ownLID :: 'j
  decryptDM :: "'j view \<Rightarrow> 'j \<Rightarrow> bool \<Rightarrow> bytes option"
  callKeyOf :: "bytes \<Rightarrow> bytes option"
  jsonFields :: "bytes \<Rightarrow> (string \<times> string \<times> string) option"

datatype engine_error = NotActive | UnsupportedTransition int | SendFailed | NoVideoMedia
  | OrientationRange int | UnknownCall string | AppDataNone | AppDataError app_error

definition newEngine :: "'j engine" where
  "newEngine = \<lparr>calls = (\<lambda>i. None), heap = [], onIncomingCall = None, trace = []\<rparr>"

definition OnIncomingCall :: "listener option \<Rightarrow> 'j engine \<Rightarrow> 'j engine" where
  "OnIncomingCall fn w = w\<lparr>onIncomingCall := fn\<rparr>"

text \<open>\<open>&engineCall{}\<close>.\<close>

definition empty_call :: "'j env \<Rightarrow> 'j engineCall" where
  "empty_call env =
     \<lparr>ec_call = None, callKey = None, relay = None, selfLID = [], peerLID = [], creator = zeroJID env,
      fromJID = zeroJID env, direction = CallDirectionOutgoing, codec = AudioCodecMlow, localVideo = False,
      remoteVideo = False, videoGate = False, videoTx = None, appDataTx = None, rekeySet = False,
      started = False, cancel = None, acceptPending = False\<rparr>"

definition emit :: "'j effect list \<Rightarrow> 'j engine \<Rightarrow> 'j engine" where
  "emit es w = w\<lparr>trace := trace w @ es\<rparr>"

definition put :: "string \<Rightarrow> 'j engineCall \<Rightarrow> 'j engine \<Rightarrow> 'j engine" where
  "put i m w = w\<lparr>calls := (calls w)(i \<mapsto> m)\<rparr>"

text \<open>A method of the handle at address \<open>a\<close>.\<close>

definition on_call :: "nat \<Rightarrow> ('j Call \<Rightarrow> notice list \<times> 'j Call) \<Rightarrow> 'j engine \<Rightarrow> 'j engine" where
  "on_call a f w =
     (case f (heap w ! a) of
        (ns, c) \<Rightarrow> emit (map (\<lambda>n. Notice a (fst n) (snd n)) ns) (w\<lparr>heap := (heap w)[a := c]\<rparr>))"

definition state_at :: "'j engine \<Rightarrow> nat \<Rightarrow> CallPhase" where
  "state_at w a = State (heap w ! a)"

definition transmitCallNode :: "'j env \<Rightarrow> 'j Node \<Rightarrow> 'j engine \<Rightarrow> bool \<times> 'j engine" where
  "transmitCallNode env node w = (let ok = netOk env (length (trace w)) in (ok, emit [Sent ok node] w))"

definition nextCallNodeID :: "'j env \<Rightarrow> 'j engine \<Rightarrow> string" where
  "nextCallNodeID env w = freshID env (length (trace w))"

text \<open>The assignment \<open>node.Attrs["id"] = id\<close> to a stanza built without one.\<close>

definition set_id :: "string \<Rightarrow> 'j Node \<Rightarrow> 'j Node" where
  "set_id i n = (case n of Node t as c \<Rightarrow> Node t (as @ [(''id'', AStr i)]) c)"

definition entry :: "'j env \<Rightarrow> 'j engine \<Rightarrow> string \<Rightarrow> 'j engineCall" where
  "entry env w i = (case calls w i of None \<Rightarrow> empty_call env | Some m \<Rightarrow> m)"

definition lookup_call :: "'j engine \<Rightarrow> string \<Rightarrow> 'j engineCall option" where
  "lookup_call w i = calls w i"

definition callIsVideo :: "'j engine \<Rightarrow> string \<Rightarrow> bool" where
  "callIsVideo w i = (case calls w i of None \<Rightarrow> False | Some m \<Rightarrow> localVideo m \<or> remoteVideo m)"

definition callIsSendingVideo :: "'j engine \<Rightarrow> string \<Rightarrow> bool" where
  "callIsSendingVideo w i = (case calls w i of None \<Rightarrow> False | Some m \<Rightarrow> localVideo m)"

definition callIsReceivingVideo :: "'j engine \<Rightarrow> string \<Rightarrow> bool" where
  "callIsReceivingVideo w i = (case calls w i of None \<Rightarrow> False | Some m \<Rightarrow> remoteVideo m)"

text \<open>The guard of the local operations: a call with a handle that has not ended.\<close>

definition active_call :: "'j engine \<Rightarrow> string \<Rightarrow> 'j engineCall option" where
  "active_call w i =
     (case calls w i of
        None \<Rightarrow> None
      | Some m \<Rightarrow>
          (case ec_call m of
             None \<Rightarrow> None
           | Some a \<Rightarrow> if state_at w a = CallPhaseEnded then None else Some m))"

section \<open>Media\<close>

definition maybeStartMedia :: "string \<Rightarrow> 'j engine \<Rightarrow> 'j engine" where
  "maybeStartMedia i w =
     (case calls w i of
        None \<Rightarrow> w
      | Some m \<Rightarrow>
          (case (callKey m, relay m) of
             (Some key, Some rd) \<Rightarrow>
               if started m then w
               else
                 let h = length (trace w);
                     w1 = put i (m\<lparr>started := True, cancel := Some h\<rparr>) w;
                     w2 = (case ec_call m of None \<Rightarrow> w1 | Some a \<Rightarrow> on_call a (\<lambda>c. setPhase c CallPhaseConnecting) w1)
                 in emit [StartMedia h i (ec_call m) key (selfLID m) (peerLID m) rd] w2
           | _ \<Rightarrow> w))"

text \<open>
  What the media goroutine does to the engine: it registers the rekeying closure, answering a peer that
  changed meanwhile, then the senders with the video flags of that moment; it marks the call active with
  the first audio it decodes; when it ends it takes the closures back.
\<close>

definition media_rekey :: "string \<Rightarrow> string \<Rightarrow> 'j engine \<Rightarrow> 'j engine" where
  "media_rekey i peer w =
     (case calls w i of
        None \<Rightarrow> w
      | Some m \<Rightarrow>
          let w1 = put i (m\<lparr>rekeySet := True\<rparr>) w
          in if peerLID m \<noteq> [] \<and> peerLID m \<noteq> peer then emit [Rekey i (peerLID m)] w1 else w1)"

definition media_senders :: "string \<Rightarrow> MediaPipeline \<Rightarrow> u32 \<Rightarrow> MediaPipeline \<Rightarrow> u32 \<Rightarrow> 'j engine \<Rightarrow> 'j engine" where
  "media_senders i videoPipe videoSsrc appPipe appSsrc w =
     (case calls w i of
        None \<Rightarrow> w
      | Some m \<Rightarrow>
          put i (m\<lparr>videoTx := Some (new_videoSender videoPipe videoSsrc (localVideo m) (videoGate m)),
                  appDataTx := Some (newAppDataSender appPipe appSsrc)\<rparr>) w)"

definition media_active :: "nat \<Rightarrow> 'j engine \<Rightarrow> 'j engine" where
  "media_active a w =
     on_call a (\<lambda>c. (notify (onReady c) CallReady, c)) (on_call a (\<lambda>c. setPhase c CallPhaseActive) w)"

definition media_end :: "string \<Rightarrow> 'j engine \<Rightarrow> 'j engine" where
  "media_end i w =
     (case calls w i of
        None \<Rightarrow> w
      | Some m \<Rightarrow> put i (m\<lparr>videoTx := None, appDataTx := None, rekeySet := False\<rparr>) w)"

section \<open>Frames and reactions\<close>

definition sendVideoFrame :: "nat \<Rightarrow> string \<Rightarrow> bytes \<Rightarrow> int \<Rightarrow> 'j engine \<Rightarrow> engine_error option \<times> 'j engine" where
  "sendVideoFrame capacity i au duration w =
     (case calls w i of
        None \<Rightarrow> (Some NoVideoMedia, w)
      | Some m \<Rightarrow>
          (case videoTx m of
             None \<Rightarrow> (Some NoVideoMedia, w)
           | Some vs \<Rightarrow>
               let (packets, vs1) = video_send capacity vs au duration
               in (None, emit [VideoPackets i packets] (put i (m\<lparr>videoTx := Some vs1\<rparr>) w))))"

definition engine_sendReaction :: "protowire \<Rightarrow> nat \<Rightarrow> string \<Rightarrow> bytes \<Rightarrow> 'j engine \<Rightarrow> engine_error option \<times> 'j engine" where
  "engine_sendReaction pw capacity i e w =
     (case active_call w i of
        None \<Rightarrow> (Some NotActive, w)
      | Some m \<Rightarrow>
          (case appDataTx m of
             None \<Rightarrow> (Some AppDataNone, w)
           | Some s \<Rightarrow>
               let (r, packets, s1) = sendReaction pw capacity s e
               in (case r of Inl er \<Rightarrow> Some (AppDataError er) | Inr _ \<Rightarrow> None,
                   emit [ReactionPackets i packets] (put i (m\<lparr>appDataTx := Some s1\<rparr>) w))))"

section \<open>Local video\<close>

definition video_node :: "'j env \<Rightarrow> 'j engine \<Rightarrow> string \<Rightarrow> 'j engineCall \<Rightarrow> int \<Rightarrow> string \<Rightarrow> int option \<Rightarrow> 'j Node" where
  "video_node env w i m st dec orientation =
     BuildVideoStateWithParams \<lparr>vpCallID = i, vpTo = fromJID m, vpCallCreator = creator m,
       vpWrapperID = nextCallNodeID env w, vpState = st, vpDec = dec, vpDeviceOrientation = orientation\<rparr>"

definition send_video_state ::
    "'j env \<Rightarrow> string \<Rightarrow> 'j engineCall \<Rightarrow> int \<Rightarrow> string \<Rightarrow> int option \<Rightarrow> 'j engine \<Rightarrow> bool \<times> 'j engine" where
  "send_video_state env i m st dec orientation w =
     transmitCallNode env (video_node env w i m st dec orientation) w"

definition transition_flags :: "int \<Rightarrow> 'j engineCall \<Rightarrow> 'j engineCall option" where
  "transition_flags t m =
     (if t = VideoStateUpgradeRequestV2 then Some (m\<lparr>localVideo := True, videoGate := True\<rparr>)
      else if t = VideoStateUpgradeAccept then Some (m\<lparr>localVideo := True, videoGate := False\<rparr>)
      else if t = VideoStateStopped then Some (m\<lparr>localVideo := False, videoGate := False\<rparr>)
      else None)"

definition transition_stanzas :: "'j env \<Rightarrow> string \<Rightarrow> int \<Rightarrow> 'j engineCall \<Rightarrow> 'j engine \<Rightarrow> bool \<times> 'j engine" where
  "transition_stanzas env i t m w =
     (if t = VideoStateUpgradeRequestV2 then send_video_state env i m t VideoDecRequest (Some 0) w
      else if t = VideoStateUpgradeAccept then
        (case send_video_state env i m t VideoDecAccept None w of
           (False, w1) \<Rightarrow> (False, w1)
         | (True, w1) \<Rightarrow> send_video_state env i m VideoStateEnabled [] None w1)
      else send_video_state env i m t [] (Some 0) w)"

definition video_off :: "'j engineCall \<Rightarrow> 'j engineCall" where
  "video_off m = m\<lparr>localVideo := False, videoGate := False, videoTx := map_option disable (videoTx m)\<rparr>"

definition transitionVideo :: "'j env \<Rightarrow> string \<Rightarrow> int \<Rightarrow> 'j engine \<Rightarrow> engine_error option \<times> 'j engine" where
  "transitionVideo env i t w =
     (case active_call w i of
        None \<Rightarrow> (Some NotActive, w)
      | Some m \<Rightarrow>
          (case transition_flags t m of
             None \<Rightarrow> (Some (UnsupportedTransition t), w)
           | Some m1 \<Rightarrow>
               let m2 = m1\<lparr>videoTx := map_option
                     (\<lambda>vs. if t = VideoStateStopped then disable vs
                           else enable vs (t = VideoStateUpgradeRequestV2)) (videoTx m1)\<rparr>;
                   (ok, w1) = transition_stanzas env i t m2 (put i m2 w)
               in if ok then (None, w1)
                  else if t = VideoStateStopped then (Some SendFailed, w1)
                  else (Some SendFailed, put i (video_off m2) w1)))"

definition setVideoEnabled :: "'j env \<Rightarrow> string \<Rightarrow> bool \<Rightarrow> 'j engine \<Rightarrow> engine_error option \<times> 'j engine" where
  "setVideoEnabled env i enabled w =
     (case active_call w i of
        None \<Rightarrow> (Some NotActive, w)
      | Some m \<Rightarrow>
          let m1 = m\<lparr>localVideo := enabled, videoGate := False,
                videoTx := map_option (\<lambda>vs. if enabled then enable vs False else disable vs) (videoTx m)\<rparr>;
              (st, dec) = (if enabled then (VideoStateEnabled, VideoStateDecH264) else (VideoStateDisabled, []));
              (ok, w1) = send_video_state env i m1 st dec None (put i m1 w)
          in if ok then (None, w1)
             else if \<not> enabled then (Some SendFailed, w1)
             else (Some SendFailed,
                   put i (m1\<lparr>localVideo := False, videoTx := map_option disable (videoTx m1)\<rparr>) w1))"

definition setVideoOrientation :: "'j env \<Rightarrow> string \<Rightarrow> int \<Rightarrow> 'j engine \<Rightarrow> engine_error option \<times> 'j engine" where
  "setVideoOrientation env i orientation w =
     (if orientation < 0 \<or> 3 < orientation then (Some (OrientationRange orientation), w)
      else
        case active_call w i of
          None \<Rightarrow> (Some NoVideoMedia, w)
        | Some m \<Rightarrow>
            if \<not> localVideo m then (Some NoVideoMedia, w)
            else (case send_video_state env i m VideoStateEnabled [] (Some orientation) w of
                    (ok, w1) \<Rightarrow> (if ok then None else Some SendFailed, w1)))"

section \<open>Ending a call\<close>

definition finishCall :: "string \<Rightarrow> string \<Rightarrow> 'j engine \<Rightarrow> 'j engine" where
  "finishCall i reason w =
     (if i = [] then w
      else
        case calls w i of
          None \<Rightarrow> w
        | Some m \<Rightarrow>
            let w1 = emit (case cancel m of None \<Rightarrow> [] | Some h \<Rightarrow> [CancelMedia h]) (w\<lparr>calls := (calls w)(i := None)\<rparr>)
            in case ec_call m of
                 None \<Rightarrow> w1
               | Some a \<Rightarrow>
                   if state_at w1 a = CallPhaseEnded then w1
                   else on_call a (\<lambda>c. (notify (onEnd c) (CallEnded reason), c))
                          (on_call a (\<lambda>c. setPhase c CallPhaseEnded) w1))"

definition call_address :: "'j engine \<Rightarrow> nat \<Rightarrow> 'j \<times> 'j" where
  "call_address w a =
     (case calls w (call_id (heap w ! a)) of
        None \<Rightarrow> (call_peer (heap w ! a), call_peer (heap w ! a))
      | Some m \<Rightarrow> (fromJID m, creator m))"

definition reject :: "'j env \<Rightarrow> nat \<Rightarrow> 'j engine \<Rightarrow> engine_error option \<times> 'j engine" where
  "reject env a w =
     (let i = call_id (heap w ! a);
          (to, cr) = call_address w a;
          rej = set_id (nextCallNodeID env w) (BuildReject i to cr);
          (ok, w1) = transmitCallNode env rej (finishCall i ''rejected'' w)
      in (if ok then None else Some SendFailed, w1))"

definition hangup :: "'j env \<Rightarrow> nat \<Rightarrow> 'j engine \<Rightarrow> engine_error option \<times> 'j engine" where
  "hangup env a w =
     (let i = call_id (heap w ! a);
          (to, cr) = call_address w a;
          node = set_id (nextCallNodeID env w)
            (BuildTerminate \<lparr>mpCallID = i, mpTo = to, mpCallCreator = cr, mpReason = None, mpTargetDevices = []\<rparr>);
          (ok, w1) = transmitCallNode env node (finishCall i ''hangup'' w)
      in (if ok then None else Some SendFailed, w1))"

definition onReject :: "string \<Rightarrow> 'j engine \<Rightarrow> 'j engine" where
  "onReject i w = (case calls w i of None \<Rightarrow> w | Some m \<Rightarrow> finishCall i ''rejected'' w)"

definition onTerminate :: "string \<Rightarrow> string \<Rightarrow> 'j engine \<Rightarrow> 'j engine" where
  "onTerminate i reason w = finishCall i reason w"

section \<open>Answering\<close>

definition answer :: "nat \<Rightarrow> 'j engine \<Rightarrow> engine_error option \<times> 'j engine" where
  "answer a w =
     (let i = call_id (heap w ! a)
      in case calls w i of
           None \<Rightarrow> (Some (UnknownCall i), w)
         | Some m \<Rightarrow>
             (None, maybeStartMedia i
               (on_call a (\<lambda>c. setPhase c CallPhaseConnecting) (put i (m\<lparr>acceptPending := True\<rparr>) w))))"

definition sendAccept :: "'j env \<Rightarrow> string \<Rightarrow> 'j \<Rightarrow> 'j \<Rightarrow> 'j engine \<Rightarrow> 'j engine" where
  "sendAccept env i to cr w =
     (case calls w i of
        None \<Rightarrow> w
      | Some m \<Rightarrow>
          if \<not> acceptPending m then w
          else
            let isVideo = (localVideo m \<or> remoteVideo m);
                w1 = put i (m\<lparr>acceptPending := False\<rparr>) w;
                accept = set_id (freshID env (length (trace w1)))
                  (BuildAccept \<lparr>apCallID = i, apTo = to, apCallCreator = cr, apAudioRates = [''16000''],
                     apRelayTe = None, apRte = None, apVoipSettings = None, apCapability = None,
                     apMetadata = Some [(''peer_abtest_bucket_id_list'', AStr ''125208,94276'')],
                     apVideo = isVideo\<rparr>)
            in snd (transmitCallNode env accept w1))"

definition sendPreaccept :: "'j env \<Rightarrow> string \<Rightarrow> 'j \<Rightarrow> 'j \<Rightarrow> bool \<Rightarrow> 'j engine \<Rightarrow> 'j engine" where
  "sendPreaccept env i to cr video w =
     snd (transmitCallNode env
       (BuildPreaccept i to cr (freshID env (length (trace w))) [''16000''] video) w)"

end
