(* ===== verification/EngineEvents.thy ===== *)
theory EngineEvents
  imports Engine
begin

text \<open>
  engine.go: the handlers of the events whatsmeow delivers, of the raw \<open><ack>\<close> and \<open><call>\<close> nodes, and
  the placing of an outgoing call.
\<close>

section \<open>Relay and codec\<close>

text \<open>\<open>None\<close> is the panic of a token with a negative id, with the engine's mutex held.\<close>

definition onRelay :: "string \<Rightarrow> 'j view \<Rightarrow> 'j engine \<Rightarrow> 'j engine option" where
  "onRelay i data w =
     (case findRelay (Some data) of
        None \<Rightarrow> Some w
      | Some r \<Rightarrow>
          (case calls w i of
             None \<Rightarrow> Some w
           | Some m \<Rightarrow>
               (case parseRelayData r of
                  None \<Rightarrow> None
                | Some rd \<Rightarrow> Some (maybeStartMedia i (put i (m\<lparr>relay := Some rd\<rparr>) w)))))"

definition applyVoipSettingsCodec :: "'j env \<Rightarrow> 'j view \<Rightarrow> 'j engineCall \<Rightarrow> 'j engineCall" where
  "applyVoipSettingsCodec env node m =
     (case findChild (Some node) ''voip_settings'' of
        None \<Rightarrow> m
      | Some vsNode \<Rightarrow>
          let content = (case vbytes vsNode of None \<Rightarrow> [] | Some b \<Rightarrow> b)
          in case ParseVoipSettings (jsonFields env) content of
               None \<Rightarrow> m
             | Some vs \<Rightarrow> m\<lparr>codec := selectAudioCodec (Some vs)\<rparr>)"

definition te_probe :: "'j view \<Rightarrow> (u32 \<times> string \<times> bytes) option" where
  "te_probe te =
     (if vtag te \<noteq> ''te'' then None
      else Some (decodeLatency (vstr te ''latency''), vstr te ''relay_name'',
        case nodeBytes te of None \<Rightarrow> [] | Some b \<Rightarrow> b))"

fun answer_probes :: "'j env \<Rightarrow> string \<Rightarrow> 'j \<Rightarrow> 'j \<Rightarrow> (u32 \<times> string \<times> bytes) list \<Rightarrow> 'j engine \<Rightarrow> 'j engine" where
  "answer_probes env i to cr [] w = w"
| "answer_probes env i to cr ((latency, name, addr) # ps) w =
     (let resp = set_id (freshID env (length (trace w)))
            (BuildRelayLatency \<lparr>rpCallID = i, rpTo = to, rpCallCreator = cr, rpLatencyMs = latency,
               rpRelayName = name, rpAddressBytes = addr, rpDevices = []\<rparr>)
      in case transmitCallNode env resp w of
           (False, w1) \<Rightarrow> w1
         | (True, w1) \<Rightarrow> answer_probes env i to cr ps w1)"

definition onRelayLatency :: "'j env \<Rightarrow> string \<Rightarrow> 'j \<Rightarrow> 'j \<Rightarrow> 'j view \<Rightarrow> 'j engine \<Rightarrow> 'j engine" where
  "onRelayLatency env i from' cr data w =
     (case calls w i of
        None \<Rightarrow> w
      | Some m \<Rightarrow>
          if direction m \<noteq> CallDirectionIncoming then w
          else
            case findChild (Some data) ''relaylatency'' of
              None \<Rightarrow> w
            | Some rl \<Rightarrow> answer_probes env i from' cr (List.map_filter te_probe (vkids rl)) w)"

section \<open>The offer\<close>

definition decryptInboundCallKey :: "'j env \<Rightarrow> 'j view \<Rightarrow> 'j \<Rightarrow> bytes option" where
  "decryptInboundCallKey env data from' =
     (case find (\<lambda>c. vtag c = ''enc'') (vkids data) of
        None \<Rightarrow> None
      | Some enc \<Rightarrow>
          (case decryptDM env enc from' (vstr enc ''type'' = ''pkmsg'') of
             None \<Rightarrow> None
           | Some pt \<Rightarrow>
               (case callKeyOf env pt of
                  None \<Rightarrow> None
                | Some key \<Rightarrow> if key = [] then None else Some key)))"

text \<open>A handle is allocated at the end of the heap.\<close>

definition onOffer :: "'j env \<Rightarrow> string \<Rightarrow> 'j \<Rightarrow> 'j \<Rightarrow> 'j view \<Rightarrow> 'j engine \<Rightarrow> 'j engine option" where
  "onOffer env i from' cr data w =
     (if vstr data ''is_call_ended'' = ''1'' \<or> vstr data ''terminate_reason'' \<noteq> [] then Some w
      else
        case decryptInboundCallKey env data from' of
          None \<Rightarrow> Some w
        | Some key \<Rightarrow>
            let peer = (if jidEmpty env cr then from' else cr);
                a = length (heap w);
                w1 = w\<lparr>heap := heap w @ [new_Call i peer CallPhaseRinging]\<rparr>;
                isVideo = OfferHasVideo (Some data);
                m = (entry env w1 i)\<lparr>ec_call := Some a, callKey := Some key, selfLID := jidString env (ownLID env),
                      peerLID := jidString env peer, creator := cr, fromJID := from',
                      direction := CallDirectionIncoming, localVideo := isVideo, remoteVideo := isVideo\<rparr>
            in case (case findRelay (Some data) of
                       None \<Rightarrow> Some m
                     | Some r \<Rightarrow> map_option (\<lambda>rd. m\<lparr>relay := Some rd\<rparr>) (parseRelayData r)) of
                 None \<Rightarrow> None
               | Some m1 \<Rightarrow>
                   let w2 = put i (applyVoipSettingsCodec env data m1) w1;
                       w3 = sendPreaccept env i from' cr isVideo w2
                   in Some (case onIncomingCall w3 of None \<Rightarrow> w3 | Some fn \<Rightarrow> emit [IncomingCall fn a] w3))"

section \<open>The peer's answer\<close>

definition onPreAccept :: "string \<Rightarrow> 'j engine \<Rightarrow> 'j engine" where
  "onPreAccept i w =
     (case calls w i of
        None \<Rightarrow> w
      | Some m \<Rightarrow>
          if direction m \<noteq> CallDirectionOutgoing then w
          else
            case ec_call m of
              None \<Rightarrow> w
            | Some a \<Rightarrow>
                if state_at w a = CallPhaseCalling then on_call a (\<lambda>c. setPhase c CallPhaseRinging) w else w)"

definition onAccept :: "'j env \<Rightarrow> string \<Rightarrow> 'j \<Rightarrow> 'j view \<Rightarrow> 'j engine \<Rightarrow> 'j engine" where
  "onAccept env i from' data w =
     (case calls w i of
        None \<Rightarrow> w
      | Some m \<Rightarrow>
          if direction m \<noteq> CallDirectionOutgoing then w
          else if (case ec_call m of None \<Rightarrow> False | Some a \<Rightarrow> state_at w a = CallPhaseEnded) then w
          else
            let m1 = applyVoipSettingsCodec env data m;
                m2 = (if \<not> jidEmpty env from' then m1\<lparr>fromJID := from'\<rparr> else m1);
                answeringPeer = jidString env from';
                other = (answeringPeer \<noteq> [] \<and> answeringPeer \<noteq> peerLID m2);
                m3 = (if other then m2\<lparr>peerLID := answeringPeer\<rparr> else m2);
                w1 = put i m3 w;
                w2 = (if other \<and> rekeySet m2 then emit [Rekey i answeringPeer] w1 else w1);
                w3 = (case ec_call m of
                        None \<Rightarrow> w2
                      | Some a \<Rightarrow>
                          on_call a markPeerAccepted
                            (if state_at w2 a < CallPhaseConnecting
                             then on_call a (\<lambda>c. setPhase c CallPhaseConnecting) w2 else w2))
            in maybeStartMedia i w3)"

section \<open>Video stanzas\<close>

text \<open>
  The value of \<open>n, _ := strconv.Atoi(s)\<close>: 0 for a syntax error, the nearest bound for a number out of
  range, which the scan reports as soon as it passes 64 bits.
\<close>

fun uint64_loop :: "nat \<Rightarrow> string \<Rightarrow> nat option" where
  "uint64_loop n [] = Some n"
| "uint64_loop n (c # cs) =
     (case digit c of
        None \<Rightarrow> None
      | Some d \<Rightarrow> if 10 * n + d < 2 ^ 64 then uint64_loop (10 * n + d) cs else Some (2 ^ 64 - 1))"

definition atoi_value :: "string \<Rightarrow> int" where
  "atoi_value s =
     (let neg = s \<noteq> [] \<and> hd s = CHR ''-'';
          digits = (if s \<noteq> [] \<and> (hd s = CHR ''-'' \<or> hd s = CHR ''+'') then tl s else s)
      in if digits = [] then 0
         else case uint64_loop 0 digits of
           None \<Rightarrow> 0
         | Some n \<Rightarrow> if neg then (if n \<le> 2 ^ 63 then - int n else - (2 ^ 63))
             else (if n < 2 ^ 63 then int n else 2 ^ 63 - 1))"

definition ackVideoStanza :: "'j env \<Rightarrow> 'j view \<Rightarrow> 'j engine \<Rightarrow> 'j engine" where
  "ackVideoStanza env callNode w =
     (case BuildVideoAck (jidEmpty env) (Some callNode) of
        None \<Rightarrow> w
      | Some ack \<Rightarrow> snd (transmitCallNode env ack w))"

text \<open>
  The flags the peer's state sets, and what is left to do: nothing, enable the sender (with a keyframe),
  disable it, or announce that video is enabled and enable the sender when that was sent.
\<close>

datatype video_todo = LeaveSender | EnableSender | DisableSender | AnnounceEnabled

definition peer_video :: "int \<Rightarrow> 'j engineCall \<Rightarrow> 'j engineCall \<times> video_todo" where
  "peer_video st m =
     (if st = VideoStateEnabled then
        (let m1 = m\<lparr>remoteVideo := True\<rparr>
         in if localVideo m1 \<and> videoGate m1 then (m1\<lparr>videoGate := False\<rparr>, EnableSender) else (m1, LeaveSender))
      else if st = VideoStateDisabled \<or> st = VideoStateStopped then (m\<lparr>remoteVideo := False\<rparr>, LeaveSender)
      else if st = VideoStateUpgradeAccept then (m\<lparr>localVideo := True, videoGate := False\<rparr>, AnnounceEnabled)
      else if st = VideoStateUpgradeReject \<or> st = VideoStateUpgradeCancel then
        (m\<lparr>localVideo := False, videoGate := False\<rparr>, DisableSender)
      else (m, LeaveSender))"

definition onVideoStanza :: "'j env \<Rightarrow> 'j view \<Rightarrow> 'j engine \<Rightarrow> 'j engine" where
  "onVideoStanza env v w =
     (let i = vstr v ''call-id''; st = atoi_value (vstr v ''state'');
          orientation = atoi_value (vstr v ''device_orientation'')
      in if i = [] then w
         else case calls w i of
           None \<Rightarrow> w
         | Some m \<Rightarrow>
             let (m1, todo) = peer_video st m;
                 w1 = put i m1 w;
                 (m2, todo2, w2) =
                   (if todo = AnnounceEnabled then
                      (case send_video_state env i m VideoStateEnabled [] (Some 0) w1 of
                         (True, w') \<Rightarrow> (m1, EnableSender, w')
                       | (False, w') \<Rightarrow> (m1\<lparr>localVideo := False, videoGate := False\<rparr>, DisableSender, w'))
                    else (m1, todo, w1));
                 m3 = (if todo2 = EnableSender then m2\<lparr>videoTx := map_option (\<lambda>vs. enable vs False) (videoTx m2)\<rparr>
                       else if todo2 = DisableSender then m2\<lparr>videoTx := map_option disable (videoTx m2)\<rparr> else m2);
                 w3 = put i m3 w2
             in case ec_call m of
                  None \<Rightarrow> w3
                | Some a \<Rightarrow>
                    on_call a (\<lambda>c. (notify (onVideoState c) (VideoChanged
                        \<lparr>Active = (st = VideoStateEnabled),
                         Upgrade = (st = VideoStateUpgradeRequest \<or> st = VideoStateUpgradeRequestV2),
                         Orientation = orientation, Raw = st\<rparr>), c))
                      (if todo2 = EnableSender then on_call a (\<lambda>c. (requestVideoKeyframe c, c)) w3 else w3))"

section \<open>Raw nodes\<close>

definition onCallAck :: "'j env \<Rightarrow> 'j view \<Rightarrow> 'j engine \<Rightarrow> 'j engine option" where
  "onCallAck env ack w =
     (let errCode = vstr ack ''error''
      in if errCode \<noteq> [] then
           Some (finishCall
             (case findChild (Some ack) ''error'' of None \<Rightarrow> [] | Some en \<Rightarrow> vstr en ''call-id'')
             (''server:'' @ errCode) w)
         else
           case findRelay (Some ack) of
             None \<Rightarrow> Some w
           | Some r \<Rightarrow>
               let i = vstr r ''call-id''
               in if i = [] then Some w
                  else onRelay i ack
                    (case calls w i of None \<Rightarrow> w | Some m \<Rightarrow> put i (applyVoipSettingsCodec env ack m) w))"

text \<open>Whether the node was handled, so that whatsmeow does not acknowledge it itself.\<close>

definition onCallRaw :: "'j env \<Rightarrow> 'j view \<Rightarrow> 'j engine \<Rightarrow> bool \<times> 'j engine" where
  "onCallRaw env callNode w =
     (case vkids callNode of
        [] \<Rightarrow> (False, w)
      | kid # _ \<Rightarrow>
          if vtag kid = ''mute_v2'' then
            (let i = vstr kid ''call-id''; muted = (vstr kid ''mute-state'' = ''1'')
             in if i = [] then (False, w)
                else
                  case calls w i of
                    None \<Rightarrow> (False, w)
                  | Some m \<Rightarrow>
                      let w1 = (case ec_call m of
                                  None \<Rightarrow> w
                                | Some a \<Rightarrow> on_call a (\<lambda>c. (notify (onMuteState c) (Muted muted), c)) w)
                      in (False, if acceptPending m
                                 then sendAccept env i (vjid callNode ''from'') (vjid kid ''call-creator'') w1
                                 else w1))
          else if vtag kid = ''video'' then
            (True, onVideoStanza env kid (ackVideoStanza env callNode w))
          else (False, w))"

end
