(* ===== verification/EngineRun.thy ===== *)
theory EngineRun
  imports EngineEvents
begin

text \<open>
  engine.go, client.go and livecall.go: placing a call, the dispatch of whatsmeow's events, and runs of the
  engine, in which the application's calls, the events and the media goroutines come in any order.
\<close>

section \<open>Placing a call\<close>

text \<open>
  What whatsmeow answers: parsed JIDs, the LID of a phone number before and after the usync query, the
  devices of a user, and the Signal encryption for a device without and with a fetched bundle (the
  content of the \<open>enc\<close> node if it is bytes, its type, and whether the device identity is needed).
\<close>

record 'j dial_env = "'j env" +
  parseJID :: "string \<Rightarrow> 'j option"
  userJID :: "string \<Rightarrow> 'j"
  isHidden :: "'j \<Rightarrow> bool"
  lidForPN :: "bool \<Rightarrow> 'j \<Rightarrow> 'j option"
  userInfo :: "'j \<Rightarrow> 'j list option"
  userDevices :: "'j \<Rightarrow> 'j list option"
  marshalCallKey :: "bytes \<Rightarrow> bytes option"
  encryptFor :: "bool \<Rightarrow> 'j \<Rightarrow> bytes \<Rightarrow> (bytes option \<times> string \<times> bool) option"
  accountIdentity :: "bytes option"
  privacyToken :: "'j \<Rightarrow> bytes option"
  randomKey :: "bytes option"
  newCallID :: "nat \<Rightarrow> string"

datatype dial_error = NoOwnLID | EmptyTarget | BadTarget | UsyncFailed | NoLID | DevicesFailed | NoDevices
  | NoRandom | EncryptFailed | IdentityFailed | OfferFailed

definition parseCallTarget :: "'j dial_env \<Rightarrow> string \<Rightarrow> dial_error + 'j" where
  "parseCallTarget env target0 =
     (let target = trim_space target0
      in if target = [] then Inl EmptyTarget
         else if CHR ''@'' \<in> set target then
           (case parseJID env target of None \<Rightarrow> Inl BadTarget | Some j \<Rightarrow> Inr j)
         else Inr (userJID env (if hd target = CHR ''+'' then tl target else target)))"

definition resolvePeerLID :: "'j dial_env \<Rightarrow> string \<Rightarrow> dial_error + 'j" where
  "resolvePeerLID env target =
     (case parseCallTarget env target of
        Inl e \<Rightarrow> Inl e
      | Inr jid \<Rightarrow>
          let known = (\<lambda>r. case r of Some lid \<Rightarrow> (if jidEmpty env lid then None else Some lid) | None \<Rightarrow> None)
          in if isHidden env jid then Inr jid
             else case known (lidForPN env False jid) of
               Some lid \<Rightarrow> Inr lid
             | None \<Rightarrow>
                 (case userInfo env jid of
                    None \<Rightarrow> Inl UsyncFailed
                  | Some info \<Rightarrow>
                      (case find (\<lambda>lid. \<not> jidEmpty env lid) info of
                         Some lid \<Rightarrow> Inr lid
                       | None \<Rightarrow>
                           (case known (lidForPN env True jid) of
                              Some lid \<Rightarrow> Inr lid
                            | None \<Rightarrow> Inl NoLID))))"

definition encryptCallKeyForDevice :: "'j dial_env \<Rightarrow> 'j \<Rightarrow> bytes \<Rightarrow> (bytes \<times> string \<times> bool) option" where
  "encryptCallKeyForDevice env dev key =
     (case marshalCallKey env key of
        None \<Rightarrow> None
      | Some pt \<Rightarrow>
          (case (case encryptFor env False dev pt of None \<Rightarrow> encryptFor env True dev pt | Some r \<Rightarrow> Some r) of
             None \<Rightarrow> None
           | Some (content, typ, needIdentity) \<Rightarrow>
               (case content of None \<Rightarrow> None | Some ct \<Rightarrow> Some (ct, typ, needIdentity))))"

text \<open>The loop over the devices.\<close>

fun device_keys :: "'j dial_env \<Rightarrow> bytes \<Rightarrow> 'j list \<Rightarrow> ('j OfferDeviceKey list \<times> bool) option" where
  "device_keys env key [] = Some ([], False)"
| "device_keys env key (dev # devs) =
     (case encryptCallKeyForDevice env dev key of
        None \<Rightarrow> None
      | Some (ct, typ, ni) \<Rightarrow>
          map_option (\<lambda>(ks, need). (\<lparr>DeviceJid = dev, Ciphertext = ct, EncType = typ\<rparr> # ks, ni \<or> need))
            (device_keys env key devs))"

definition placeCall :: "'j dial_env \<Rightarrow> string \<Rightarrow> bool \<Rightarrow> 'j engine \<Rightarrow> (dial_error + nat) \<times> 'j engine" where
  "placeCall env target video w =
     (if jidEmpty env (ownLID env) then (Inl NoOwnLID, w)
      else case resolvePeerLID env target of
        Inl e \<Rightarrow> (Inl e, w)
      | Inr peer \<Rightarrow>
      case userDevices env peer of
        None \<Rightarrow> (Inl DevicesFailed, w)
      | Some devices \<Rightarrow>
      if devices = [] then (Inl NoDevices, w)
      else case randomKey env of
        None \<Rightarrow> (Inl NoRandom, w)
      | Some key \<Rightarrow>
      case device_keys env key devices of
        None \<Rightarrow> (Inl EncryptFailed, w)
      | Some (keys, needIdentity) \<Rightarrow>
      if needIdentity \<and> accountIdentity env = None then (Inl IdentityFailed, w)
      else
        let i = newCallID env (length (trace w));
            offer = set_id (freshID env (length (trace w)))
              (BuildOffer \<lparr>opCallID = i, opTo = peer, opCallCreator = ownLID env, opDeviceKeys = keys,
                 opPrivacyToken = privacyToken env peer, opCapability = Some CapabilityOffer,
                 opDeviceIdentity = (if needIdentity then accountIdentity env else None), opVideo = video\<rparr>);
            a = length (heap w);
            w1 = w\<lparr>heap := heap w @ [new_Call i peer CallPhaseCalling]\<rparr>;
            m = (entry (env.truncate env) w1 i)\<lparr>ec_call := Some a, callKey := Some key,
                  selfLID := jidString env (ownLID env), peerLID := jidString env peer, creator := ownLID env,
                  fromJID := peer, direction := CallDirectionOutgoing, localVideo := video, remoteVideo := video\<rparr>;
            (ok, w2) = transmitCallNode (env.truncate env) offer (put i m w1)
        in (if ok then Inr a else Inl OfferFailed, w2))"

section \<open>Events\<close>

datatype 'j event = CallOffer string 'j 'j "'j view" | CallPreAccept string | CallAccept string 'j "'j view"
  | CallRelayLatency string 'j 'j "'j view" | CallTransport string "'j view" | CallTerminate string string
  | CallReject string | AckNode "'j view" | CallNode "'j view"

fun install :: "'j env \<Rightarrow> 'j event \<Rightarrow> 'j engine \<Rightarrow> 'j engine option" where
  "install env (CallOffer i from' cr data) w = onOffer env i from' cr data w"
| "install env (CallPreAccept i) w = Some (onPreAccept i w)"
| "install env (CallAccept i from' data) w = Some (onAccept env i from' data w)"
| "install env (CallRelayLatency i from' cr data) w =
     map_option (onRelayLatency env i from' cr data) (onRelay i data w)"
| "install env (CallTransport i data) w = onRelay i data w"
| "install env (CallTerminate i reason) w = Some (onTerminate i reason w)"
| "install env (CallReject i) w = Some (onReject i w)"
| "install env (AckNode node) w = (if vstr node ''class'' \<noteq> ''call'' then Some w else onCallAck env node w)"
| "install env (CallNode node) w = Some (snd (onCallRaw env node w))"

section \<open>Runs\<close>

text \<open>What can happen: an event, an operation of the application on a handle it holds, a media goroutine.\<close>

datatype listen_op = ListenReady "listener option" | ListenEnd "listener option" | ListenState "listener option"
  | ListenAccept "listener option" | ListenMute "listener option" | ListenVideo "listener option"
  | ListenKeyframe "listener option"

fun listen :: "listen_op \<Rightarrow> 'j Call \<Rightarrow> notice list \<times> 'j Call" where
  "listen (ListenReady fn) c = ([], OnReady c fn)"
| "listen (ListenEnd fn) c = ([], OnEnd c fn)"
| "listen (ListenState fn) c = ([], OnStateChange c fn)"
| "listen (ListenAccept fn) c = OnPeerAccept c fn"
| "listen (ListenMute fn) c = ([], OnMuteState c fn)"
| "listen (ListenVideo fn) c = ([], OnVideoState c fn)"
| "listen (ListenKeyframe fn) c = ([], OnVideoKeyframeRequest c fn)"

datatype handle_op = Answer | Reject | Hangup | StartVideo | AcceptVideo | StopVideo | SetVideoEnabled bool
  | SetVideoOrientation int | SendVideo nat bytes int | SendReaction protowire nat bytes | Listen listen_op
  | MediaActive

text \<open>The methods of \<open>Call\<close>, on the handle at address \<open>a\<close>.\<close>

fun handle_step :: "'j env \<Rightarrow> nat \<Rightarrow> handle_op \<Rightarrow> 'j engine \<Rightarrow> 'j engine" where
  "handle_step env a Answer w = snd (answer a w)"
| "handle_step env a Reject w = snd (reject env a w)"
| "handle_step env a Hangup w = snd (hangup env a w)"
| "handle_step env a StartVideo w = snd (transitionVideo env (call_id (heap w ! a)) VideoStateUpgradeRequestV2 w)"
| "handle_step env a AcceptVideo w = snd (transitionVideo env (call_id (heap w ! a)) VideoStateUpgradeAccept w)"
| "handle_step env a StopVideo w = snd (transitionVideo env (call_id (heap w ! a)) VideoStateStopped w)"
| "handle_step env a (SetVideoEnabled b) w = snd (setVideoEnabled env (call_id (heap w ! a)) b w)"
| "handle_step env a (SetVideoOrientation n) w = snd (setVideoOrientation env (call_id (heap w ! a)) n w)"
| "handle_step env a (SendVideo capacity au duration) w = snd (sendVideoFrame capacity (call_id (heap w ! a)) au duration w)"
| "handle_step env a (SendReaction pw capacity e) w = snd (engine_sendReaction pw capacity (call_id (heap w ! a)) e w)"
| "handle_step env a (Listen l) w = on_call a (listen l) w"
| "handle_step env a MediaActive w = media_active a w"

datatype 'j op = Event "'j event" | Dial string bool | OnHandle nat handle_op | IncomingListener "listener option"
  | MediaRekey string string | MediaSenders string MediaPipeline u32 MediaPipeline u32 | MediaEnd string

text \<open>An operation on a handle that does not exist is no operation.\<close>

fun engine_step :: "'j dial_env \<Rightarrow> 'j op \<Rightarrow> 'j engine \<Rightarrow> 'j engine option" where
  "engine_step env (Event ev) w = install (env.truncate env) ev w"
| "engine_step env (Dial target video) w = Some (snd (placeCall env target video w))"
| "engine_step env (OnHandle a h) w = Some (if a < length (heap w) then handle_step (env.truncate env) a h w else w)"
| "engine_step env (IncomingListener fn) w = Some (OnIncomingCall fn w)"
| "engine_step env (MediaRekey i peer) w = Some (media_rekey i peer w)"
| "engine_step env (MediaSenders i vp vs ap as) w = Some (media_senders i vp vs ap as w)"
| "engine_step env (MediaEnd i) w = Some (media_end i w)"

fun engine_run :: "'j dial_env \<Rightarrow> 'j op list \<Rightarrow> 'j engine \<Rightarrow> 'j engine option" where
  "engine_run env [] w = Some w"
| "engine_run env (x # xs) w = (case engine_step env x w of None \<Rightarrow> None | Some w1 \<Rightarrow> engine_run env xs w1)"

end
