(* ===== verification/EngineLife.thy ===== *)
theory EngineLife
  imports EngineRun
begin

text \<open>
  The life of calls and media tasks, abstractly: entries come and go, media starts once per entry, ending
  an entry cancels its media and ends its handle, an accept answers one \<open>Answer\<close>.  Every handler of the
  engine is a run of these steps, from which follows what happens at most once.
\<close>

section \<open>The abstract life cycle\<close>

datatype life_event = AEnded nat | AStarted nat | ACancelled nat | AAccepted string

record abs_call =
  a_handle :: "nat option"
  a_media :: "nat option"
  a_pending :: bool

record abs_engine =
  a_calls :: "string \<Rightarrow> abs_call option"
  a_next :: nat
  a_log :: "life_event list"

text \<open>The label is the call that the application answers.\<close>

inductive life :: "string option \<Rightarrow> abs_engine \<Rightarrow> abs_engine \<Rightarrow> bool" where
  l_register: "life None A (A\<lparr>a_calls := (a_calls A)(i \<mapsto>
      (case a_calls A i of
         None \<Rightarrow> \<lparr>a_handle = Some (a_next A), a_media = None, a_pending = False\<rparr>
       | Some c \<Rightarrow> c\<lparr>a_handle := Some (a_next A)\<rparr>)), a_next := Suc (a_next A)\<rparr>)"
| l_answer: "a_calls A i = Some c \<Longrightarrow>
    life (Some i) A (A\<lparr>a_calls := (a_calls A)(i \<mapsto> c\<lparr>a_pending := True\<rparr>)\<rparr>)"
| l_accept: "a_calls A i = Some c \<Longrightarrow> a_pending c \<Longrightarrow>
    life None A (A\<lparr>a_calls := (a_calls A)(i \<mapsto> c\<lparr>a_pending := False\<rparr>), a_log := a_log A @ [AAccepted i]\<rparr>)"
| l_start: "a_calls A i = Some c \<Longrightarrow> a_media c = None \<Longrightarrow> AStarted h \<notin> set (a_log A) \<Longrightarrow>
    life None A (A\<lparr>a_calls := (a_calls A)(i \<mapsto> c\<lparr>a_media := Some h\<rparr>), a_log := a_log A @ [AStarted h]\<rparr>)"
| l_finish: "a_calls A i = Some c \<Longrightarrow> es = [] \<or> (\<exists>a. a_handle c = Some a \<and> es = [AEnded a]) \<Longrightarrow>
    life None A (A\<lparr>a_calls := (a_calls A)(i := None),
      a_log := a_log A @ (case a_media c of None \<Rightarrow> [] | Some h \<Rightarrow> [ACancelled h]) @ es\<rparr>)"

definition abs_life :: "abs_engine \<Rightarrow> abs_engine \<Rightarrow> bool" where
  "abs_life = (\<lambda>A B. \<exists>l. life l A B)"

definition abs_start :: abs_engine where
  "abs_start = \<lparr>a_calls = (\<lambda>i. None), a_next = 0, a_log = []\<rparr>"

text \<open>Media tasks and handles are owned by one entry, and history agrees with what is held.\<close>

definition owned :: "abs_engine \<Rightarrow> bool" where
  "owned A \<longleftrightarrow>
     (\<forall>i j c d h. a_calls A i = Some c \<and> a_calls A j = Some d \<and> a_media c = Some h \<and> a_media d = Some h \<longrightarrow> i = j) \<and>
     (\<forall>i j c d a. a_calls A i = Some c \<and> a_calls A j = Some d \<and> a_handle c = Some a \<and> a_handle d = Some a \<longrightarrow> i = j)"

definition holds_media :: "abs_engine \<Rightarrow> nat \<Rightarrow> bool" where
  "holds_media A h \<longleftrightarrow> (\<exists>i c. a_calls A i = Some c \<and> a_media c = Some h)"

definition media_history :: "abs_engine \<Rightarrow> bool" where
  "media_history A \<longleftrightarrow>
     (\<forall>h. count_list (a_log A) (AStarted h) \<le> 1 \<and>
       count_list (a_log A) (ACancelled h) + (if holds_media A h then 1 else 0) = count_list (a_log A) (AStarted h))"

definition handle_history :: "abs_engine \<Rightarrow> bool" where
  "handle_history A \<longleftrightarrow>
     (\<forall>a. count_list (a_log A) (AEnded a) \<le> 1) \<and> (\<forall>a. AEnded a \<in> set (a_log A) \<longrightarrow> a < a_next A) \<and>
     (\<forall>i c a. a_calls A i = Some c \<and> a_handle c = Some a \<longrightarrow> a < a_next A \<and> AEnded a \<notin> set (a_log A))"

lemma count_list_snoc: "count_list (xs @ ys) x = count_list xs x + count_list ys x"
  by (induction xs) simp_all

lemma holds_bind: "holds_media A h \<longleftrightarrow> (\<exists>i. Option.bind (a_calls A i) a_media = Some h)"
  by (auto simp: holds_media_def Option.bind_eq_Some_conv)

lemma holds_same: "(\<And>i. Option.bind (a_calls B i) a_media = Option.bind (a_calls A i) a_media) \<Longrightarrow> holds_media B h = holds_media A h"
  by (simp add: holds_bind)

lemma owned_life:
  assumes "life l A B" "owned A" "handle_history A" "media_history A"
  shows "owned B"
  using assms
proof cases
  case (l_register i)
  then show ?thesis using assms(2,3)
    unfolding owned_def handle_history_def by (auto split: option.splits if_splits) blast+
next
  case (l_answer i c)
  then show ?thesis using assms(2) unfolding owned_def by auto
next
  case (l_accept i c)
  then show ?thesis using assms(2) unfolding owned_def by auto
next
  case (l_start i c h)
  have "\<not> holds_media A h"
  proof
    assume "holds_media A h"
    then have "count_list (a_log A) (ACancelled h) + 1 = count_list (a_log A) (AStarted h)"
      using assms(4) unfolding media_history_def by presburger
    then show False using l_start(5) by (simp add: count_list_0_iff)
  qed
  then show ?thesis using l_start assms(2) unfolding owned_def holds_media_def by auto
next
  case (l_finish i c es)
  then show ?thesis using assms(2) unfolding owned_def by auto
qed


lemma handle_history_life:
  assumes "life l A B" "owned A" "handle_history A"
  shows "handle_history B"
  using assms
proof cases
  case (l_register i)
  then show ?thesis using assms(3) unfolding handle_history_def
    by (auto simp: less_Suc_eq split: option.splits if_splits)
next
  case (l_answer i c)
  then show ?thesis using assms(3) unfolding handle_history_def by auto
next
  case (l_accept i c)
  then show ?thesis using assms(3) unfolding handle_history_def by (auto simp: count_list_snoc)
next
  case (l_start i c h)
  then show ?thesis using assms(3) unfolding handle_history_def by (auto simp: count_list_snoc)
next
  case (l_finish i c es)
  have log: "AEnded a \<in> set (a_log B) \<longleftrightarrow> AEnded a \<in> set (a_log A) \<or> AEnded a \<in> set es"
    "count_list (a_log B) (AEnded a) = count_list (a_log A) (AEnded a) + count_list es (AEnded a)" for a
    using l_finish by (auto simp: count_list_snoc split: option.splits)
  show ?thesis
  proof (cases "es = []")
    case True
    then show ?thesis using l_finish assms(3) log unfolding handle_history_def by auto
  next
    case False
    then obtain a where a: "a_handle c = Some a" "es = [AEnded a]" using l_finish(4) by auto
    have new: "AEnded a \<notin> set (a_log A)" "a < a_next A"
      using assms(3) l_finish(3) a(1) unfolding handle_history_def by blast+
    then have "count_list (a_log A) (AEnded a) = 0" by (simp add: count_list_0_iff)
    moreover have "a_handle d \<noteq> Some a" if "a_calls A j = Some d" "j \<noteq> i" for j d
      using assms(2) l_finish(3) a(1) that unfolding owned_def by blast
    ultimately show ?thesis
      using l_finish(2,3) assms(3) log a new unfolding handle_history_def by auto
  qed
qed

lemma media_history_life:
  assumes "life l A B" "owned A" "media_history A"
  shows "media_history B"
  using assms
proof cases
  case (l_register i)
  have "holds_media B h = holds_media A h" for h
    using l_register by (intro holds_same) (auto split: option.splits)
  then show ?thesis using l_register assms(3) by (simp add: media_history_def)
next
  case (l_answer i c)
  have "holds_media B h = holds_media A h" for h
    using l_answer by (intro holds_same) auto
  then show ?thesis using l_answer assms(3) by (simp add: media_history_def)
next
  case (l_accept i c)
  have "holds_media B h = holds_media A h" for h
    using l_accept by (intro holds_same) auto
  then show ?thesis using l_accept assms(3) by (simp add: media_history_def count_list_snoc)
next
  case (l_start i c h)
  have "count_list (a_log A) (AStarted h) = 0" using l_start by (simp add: count_list_0_iff)
  moreover have "Option.bind (a_calls B j) a_media = (if j = i then Some h else Option.bind (a_calls A j) a_media)" for j
    using l_start by simp
  then have "holds_media B k = (k = h \<or> holds_media A k)" for k
    using l_start(3,4) unfolding holds_bind by (metis bind.bind_lunit option.inject option.distinct(1))
  moreover have "\<not> holds_media A h" "count_list (a_log A) (ACancelled h) = 0"
    using assms(3) calculation(1) unfolding media_history_def by (metis add_is_0 one_neq_zero)+
  ultimately show ?thesis using l_start assms(3) by (auto simp: media_history_def count_list_snoc)
next
  case (l_finish i c es)
  have es: "count_list es (AStarted k) = 0" "count_list es (ACancelled k) = 0" for k
    using l_finish(4) by auto
  have holds: "holds_media B k = (holds_media A k \<and> a_media c \<noteq> Some k)" for k
  proof -
    have B: "a_calls B j = (if j = i then None else a_calls A j)" for j using l_finish(2) by simp
    have one: "j = i" if "a_calls A j = Some d" "a_media d = Some k" "a_media c = Some k" for j d
      using assms(2) l_finish(3) that unfolding owned_def by blast
    show ?thesis
      using one l_finish(3) unfolding holds_media_def B by (metis option.distinct(1) option.inject)
  qed
  have was: "holds_media A h" if "a_media c = Some h" for h
    using l_finish(3) that by (auto simp: holds_media_def)
  have counts: "count_list (a_log B) (AStarted k) = count_list (a_log A) (AStarted k)"
    "count_list (a_log B) (ACancelled k) = count_list (a_log A) (ACancelled k) + (if a_media c = Some k then 1 else 0)" for k
    using l_finish(2) es by (auto simp: count_list_snoc split: option.splits)
  show ?thesis unfolding media_history_def
  proof
    fix k
    have "count_list (a_log A) (AStarted k) \<le> 1 \<and>
        count_list (a_log A) (ACancelled k) + (if holds_media A k then 1 else 0) = count_list (a_log A) (AStarted k)"
      using assms(3) unfolding media_history_def by blast
    then show "count_list (a_log B) (AStarted k) \<le> 1 \<and>
        count_list (a_log B) (ACancelled k) + (if holds_media B k then 1 else 0) = count_list (a_log B) (AStarted k)"
      using was [of k] unfolding counts holds by (cases "a_media c = Some k"; cases "holds_media A k") simp_all
  qed
qed

lemma life_invariant:
  "abs_life\<^sup>*\<^sup>* A B \<Longrightarrow> owned A \<Longrightarrow> handle_history A \<Longrightarrow> media_history A \<Longrightarrow>
   owned B \<and> handle_history B \<and> media_history B"
proof (induction rule: rtranclp_induct)
  case (step B C)
  then obtain l where "life l B C" by (auto simp: abs_life_def)
  then show ?case
    using step owned_life [of l B C] handle_history_life [of l B C] media_history_life [of l B C] by blast
qed simp

text \<open>How many accepts may still be sent for a call.\<close>

definition accepts :: "string \<Rightarrow> abs_engine \<Rightarrow> nat" where
  "accepts i A = count_list (a_log A) (AAccepted i) +
     (case a_calls A i of None \<Rightarrow> 0 | Some c \<Rightarrow> if a_pending c then 1 else 0)"

lemma accepts_life: "life l A B \<Longrightarrow> accepts i B \<le> accepts i A + (if l = Some i then 1 else 0)"
  by (induction rule: life.induct) (auto simp: accepts_def count_list_snoc split: option.splits)

lemma accepts_run: "(life None)\<^sup>*\<^sup>* A B \<Longrightarrow> accepts i B \<le> accepts i A"
proof (induction rule: rtranclp_induct)
  case (step B C)
  then show ?case using accepts_life [of None B C i] by simp
qed simp


section \<open>The engine refines the life cycle\<close>

text \<open>The call an accept stanza is for.\<close>

fun accept_id :: "'j Node \<Rightarrow> string option" where
  "accept_id (Node t as (Nodes [Node u bs c])) =
     (if u = ''accept'' then (case map_of bs ''call-id'' of Some (AStr i) \<Rightarrow> Some i | _ \<Rightarrow> None) else None)"
| "accept_id _ = None"

fun life_effect :: "'j effect \<Rightarrow> life_event option" where
  "life_effect (Sent ok node) = map_option AAccepted (accept_id node)"
| "life_effect (Notice a l (CallEnded reason)) = Some (AEnded a)"
| "life_effect (StartMedia h i a key self peer rd) = Some (AStarted h)"
| "life_effect (CancelMedia h) = Some (ACancelled h)"
| "life_effect _ = None"

definition life_log :: "'j engine \<Rightarrow> life_event list" where
  "life_log w = List.map_filter life_effect (trace w)"

definition abs_call_of :: "'j engineCall \<Rightarrow> abs_call" where
  "abs_call_of m = \<lparr>a_handle = ec_call m, a_media = cancel m, a_pending = acceptPending m\<rparr>"

definition abs_of :: "'j engine \<Rightarrow> abs_engine" where
  "abs_of w = \<lparr>a_calls = map_option abs_call_of \<circ> calls w, a_next = length (heap w), a_log = life_log w\<rparr>"

text \<open>
  Media has started exactly when there is a handle to cancel it by, and the handles are numbered by the
  trace.
\<close>

definition engine_ok :: "'j engine \<Rightarrow> bool" where
  "engine_ok w \<longleftrightarrow> (\<forall>i m. calls w i = Some m \<longrightarrow> (started m \<longleftrightarrow> cancel m \<noteq> None)) \<and>
     (\<forall>h. AStarted h \<in> set (life_log w) \<longrightarrow> h < length (trace w))"

definition refines :: "'j engine \<Rightarrow> 'j engine \<Rightarrow> bool" where
  "refines w w' \<longleftrightarrow> (engine_ok w \<longrightarrow> engine_ok w' \<and> (life None)\<^sup>*\<^sup>* (abs_of w) (abs_of w'))"

named_theorems refine_intros

lemma refines_refl [refine_intros]: "refines w w"
  by (simp add: refines_def)

lemma refines_trans: "refines w v \<Longrightarrow> refines v u \<Longrightarrow> refines w u"
  by (auto simp: refines_def)

lemma refines_case_option: "(x = None \<Longrightarrow> refines w a) \<Longrightarrow> (\<And>y. x = Some y \<Longrightarrow> refines w (b y)) \<Longrightarrow>
    refines w (case x of None \<Rightarrow> a | Some y \<Rightarrow> b y)"
  by (cases x) simp_all

lemma life_log_emit [simp]: "life_log (emit es w) = life_log w @ List.map_filter life_effect es"
  by (simp add: life_log_def emit_def map_filter_def)

lemma life_log_fields [simp]: "life_log (w\<lparr>heap := h\<rparr>) = life_log w" "life_log (w\<lparr>calls := f\<rparr>) = life_log w"
  by (simp_all add: life_log_def)

lemma emit_fields [simp]: "calls (emit es w) = calls w" "heap (emit es w) = heap w" "trace (emit es w) = trace w @ es"
  by (simp_all add: emit_def)

lemma put_fields [simp]: "calls (put i m w) = (calls w)(i \<mapsto> m)" "heap (put i m w) = heap w" "trace (put i m w) = trace w"
    "life_log (put i m w) = life_log w"
  by (simp_all add: put_def life_log_def)

lemma on_call_calls [simp]: "calls (on_call a f w) = calls w" "length (heap (on_call a f w)) = length (heap w)"
  by (simp_all add: on_call_def split_beta)

lemma refines_same:
  assumes "abs_of w' = abs_of w" "length (trace w) \<le> length (trace w')"
    "\<And>i m. calls w' i = Some m \<Longrightarrow> \<exists>m'. calls w i = Some m' \<and> started m = started m' \<and> cancel m = cancel m'"
  shows "refines w w'"
proof -
  have log: "life_log w' = life_log w" using assms(1) by (simp add: abs_of_def)
  have "engine_ok w'" if "engine_ok w"
    unfolding engine_ok_def log
  proof (intro conjI allI impI)
    fix i m assume "calls w' i = Some m"
    then obtain m' where "calls w i = Some m'" "started m = started m'" "cancel m = cancel m'" using assms(3) by blast
    then show "started m \<longleftrightarrow> cancel m \<noteq> None" using that by (simp add: engine_ok_def)
  next
    fix h assume "AStarted h \<in> set (life_log w)"
    then show "h < length (trace w')" using that assms(2) unfolding engine_ok_def by (meson less_le_trans)
  qed
  then show ?thesis using assms(1) by (simp add: refines_def)
qed

lemma refines_emit: "List.map_filter life_effect es = [] \<Longrightarrow> refines w (emit es w)"
  by (rule refines_same) (simp_all add: abs_of_def)

lemma refines_put:
  assumes "calls w i = Some m" "abs_call_of m' = abs_call_of m" "started m' = started m"
  shows "refines w (put i m' w)"
proof (rule refines_same)
  show "abs_of (put i m' w) = abs_of w" using assms(1,2) by (auto simp: abs_of_def fun_eq_iff)
qed (use assms in \<open>auto simp: abs_call_of_def split: if_splits\<close>)

definition quiet_note :: "notice \<Rightarrow> bool" where
  "quiet_note n \<longleftrightarrow> (case snd n of CallEnded r \<Rightarrow> False | _ \<Rightarrow> True)"

lemma quiet_notices: "list_all quiet_note ns \<Longrightarrow> List.map_filter life_effect (map (\<lambda>n. Notice a (fst n) (snd n)) ns) = []"
proof (induction ns)
  case (Cons n ns)
  then show ?case by (cases "snd n") (simp_all add: map_filter_simps quiet_note_def)
qed (simp add: map_filter_simps)

lemma refines_on_call:
  assumes "\<And>c. list_all quiet_note (fst (f c))"
  shows "refines w (on_call a f w)"
proof (rule refines_same)
  have "life_log (on_call a f w) = life_log w"
    using quiet_notices [OF assms, of a "heap w ! a"]
    by (simp add: on_call_def split_beta)
  then show "abs_of (on_call a f w) = abs_of w" by (simp add: abs_of_def)
  show "length (trace w) \<le> length (trace (on_call a f w))" by (simp add: on_call_def split_beta)
qed simp

lemma notify_quiet: "list_all quiet_note (notify fn ev) = (fn = None \<or> quiet_note (undefined, ev))"
  by (simp add: notify_def quiet_note_def split: option.splits)

lemma setPhase_quiet [simp]: "list_all quiet_note (fst (setPhase c p))"
  by (simp add: setPhase_def notify_quiet quiet_note_def)

lemma markPeerAccepted_quiet [simp]: "list_all quiet_note (fst (markPeerAccepted c))"
  by (simp add: markPeerAccepted_def Let_def notify_quiet quiet_note_def)

lemma listen_quiet [simp]: "list_all quiet_note (fst (listen l c))"
  by (cases l) (simp_all add: OnPeerAccept_def Let_def notify_quiet quiet_note_def)

lemma refines_transmit: "accept_id node = None \<Longrightarrow> refines w (snd (transmitCallNode env node w))"
  by (simp add: transmitCallNode_def Let_def refines_emit map_filter_simps)

lemma transmit_fields [simp]: "calls (snd (transmitCallNode env node w)) = calls w"
    "heap (snd (transmitCallNode env node w)) = heap w"
  by (simp_all add: transmitCallNode_def Let_def)

lemma accept_id_video [simp]: "accept_id (video_node env w i m st dec ori) = None"
  by (simp add: video_node_def BuildVideoStateWithParams_def Let_def)


lemma quiet_log: "(\<And>c. list_all quiet_note (fst (f c))) \<Longrightarrow> life_log (on_call a f w) = life_log w"
  using quiet_notices [of "fst (f (heap w ! a))" a]
  by (simp add: on_call_def split_beta)

lemma on_call_trace: "length (trace w) \<le> length (trace (on_call a f w))"
  by (simp add: on_call_def split_beta)

lemma refines_start: "refines w (maybeStartMedia i w)"
  unfolding refines_def
proof (intro impI)
  assume ok: "engine_ok w"
  show "engine_ok (maybeStartMedia i w) \<and> (life None)\<^sup>*\<^sup>* (abs_of w) (abs_of (maybeStartMedia i w))"
  proof (cases "\<exists>m key rd. calls w i = Some m \<and> callKey m = Some key \<and> relay m = Some rd \<and> \<not> started m")
    case False
    then have "maybeStartMedia i w = w" by (auto simp: maybeStartMedia_def split: option.splits)
    then show ?thesis using ok by simp
  next
    case True
    then obtain m key rd where m: "calls w i = Some m" "callKey m = Some key" "relay m = Some rd" "\<not> started m" by blast
    let ?h = "length (trace w)"
    define w1 where "w1 = put i (m\<lparr>started := True, cancel := Some ?h\<rparr>) w"
    define w2 where "w2 = (case ec_call m of None \<Rightarrow> w1 | Some a \<Rightarrow> on_call a (\<lambda>c. setPhase c CallPhaseConnecting) w1)"
    have new: "maybeStartMedia i w = emit [StartMedia ?h i (ec_call m) key (selfLID m) (peerLID m) rd] w2"
      using m unfolding w2_def w1_def by (simp add: maybeStartMedia_def Let_def)
    have w2: "calls w2 = calls w1" "length (heap w2) = length (heap w1)" "life_log w2 = life_log w1"
        "length (trace w1) \<le> length (trace w2)"
      using on_call_trace by (auto simp: w2_def quiet_log split: option.splits)
    have log: "life_log (maybeStartMedia i w) = life_log w @ [AStarted ?h]"
      by (simp add: new w2 map_filter_simps) (simp add: w1_def)
    have fresh: "AStarted ?h \<notin> set (life_log w)" using ok by (auto simp: engine_ok_def)
    have "cancel m = None" using ok m by (auto simp: engine_ok_def)
    then have "life None (abs_of w) ((abs_of w)\<lparr>a_calls := (a_calls (abs_of w))(i \<mapsto> (abs_call_of m)\<lparr>a_media := Some ?h\<rparr>),
        a_log := a_log (abs_of w) @ [AStarted ?h]\<rparr>)"
      using m(1) fresh by (intro l_start) (simp_all add: abs_of_def abs_call_of_def)
    also have "(abs_of w)\<lparr>a_calls := (a_calls (abs_of w))(i \<mapsto> (abs_call_of m)\<lparr>a_media := Some ?h\<rparr>),
        a_log := a_log (abs_of w) @ [AStarted ?h]\<rparr> = abs_of (maybeStartMedia i w)"
      by (auto simp: abs_of_def log new w2 fun_eq_iff abs_call_of_def) (simp_all add: w1_def abs_call_of_def)
    finally have "(life None)\<^sup>*\<^sup>* (abs_of w) (abs_of (maybeStartMedia i w))" by blast
    moreover have "engine_ok (maybeStartMedia i w)"
      unfolding engine_ok_def log using ok w2(4)
      by (auto simp: new w2 w1_def engine_ok_def less_Suc_eq_le split: if_splits intro: less_imp_le less_le_trans)
    ultimately show ?thesis by blast
  qed
qed

lemma on_call_setPhase_log:
  "life_log (on_call a (\<lambda>c. (notify (onEnd c) (CallEnded reason), c)) w) =
    life_log w @ (if onEnd (heap w ! a) = None then [] else [AEnded a])"
  by (simp add: on_call_def split_beta notify_def map_filter_simps split: option.splits)

lemma refines_finish: "refines w (finishCall i reason w)"
  unfolding refines_def
proof (intro impI)
  assume ok: "engine_ok w"
  show "engine_ok (finishCall i reason w) \<and> (life None)\<^sup>*\<^sup>* (abs_of w) (abs_of (finishCall i reason w))"
  proof (cases "i = [] \<or> calls w i = None")
    case True
    then have "finishCall i reason w = w" by (auto simp: finishCall_def)
    then show ?thesis using ok by simp
  next
    case False
    then obtain m where m: "calls w i = Some m" "i \<noteq> []" by auto
    let ?c = "case cancel m of None \<Rightarrow> [] | Some h \<Rightarrow> [CancelMedia h]"
    define w1 where "w1 = emit ?c (w\<lparr>calls := (calls w)(i := None)\<rparr>)"
    have w1: "calls w1 = (calls w)(i := None)" "heap w1 = heap w" "length (trace w) \<le> length (trace w1)"
        "life_log w1 = life_log w @ (case cancel m of None \<Rightarrow> [] | Some h \<Rightarrow> [ACancelled h])"
      by (simp_all add: w1_def map_filter_simps split: option.splits)
    obtain es where es: "es = [] \<or> (\<exists>a. ec_call m = Some a \<and> es = [AEnded a])"
        "calls (finishCall i reason w) = (calls w)(i := None)" "length (heap (finishCall i reason w)) = length (heap w)"
        "length (trace w) \<le> length (trace (finishCall i reason w))"
        "life_log (finishCall i reason w) = life_log w @ (case cancel m of None \<Rightarrow> [] | Some h \<Rightarrow> [ACancelled h]) @ es"
    proof (cases "\<exists>a. ec_call m = Some a \<and> state_at w1 a \<noteq> CallPhaseEnded")
      case True
      then obtain a where a: "ec_call m = Some a" "state_at w1 a \<noteq> CallPhaseEnded" by blast
      let ?w2 = "on_call a (\<lambda>c. setPhase c CallPhaseEnded) w1"
      have f: "finishCall i reason w = on_call a (\<lambda>c. (notify (onEnd c) (CallEnded reason), c)) ?w2"
        using m a by (simp add: finishCall_def w1_def Let_def)
      show thesis
      proof (rule that [of "if onEnd (heap ?w2 ! a) = None then [] else [AEnded a]"])
        show "length (trace w) \<le> length (trace (finishCall i reason w))"
          unfolding f by (rule order.trans [OF w1(3) order.trans [OF on_call_trace on_call_trace]])
        show "life_log (finishCall i reason w) = life_log w @ (case cancel m of None \<Rightarrow> [] | Some h \<Rightarrow> [ACancelled h]) @
            (if onEnd (heap ?w2 ! a) = None then [] else [AEnded a])"
          by (simp only: f on_call_setPhase_log quiet_log setPhase_quiet w1(4) append_assoc)
        show "calls (finishCall i reason w) = (calls w)(i := None)" "length (heap (finishCall i reason w)) = length (heap w)"
          by (simp_all add: f w1)
        show "(if onEnd (heap ?w2 ! a) = None then [] else [AEnded a]) = [] \<or>
            (\<exists>b. ec_call m = Some b \<and> (if onEnd (heap ?w2 ! a) = None then [] else [AEnded a]) = [AEnded b])"
          using a(1) by simp
      qed
    next
      case False
      then have "finishCall i reason w = w1"
        using m by (auto simp: finishCall_def w1_def Let_def split: option.splits)
      then show thesis using w1 by (intro that [of "[]"]) simp_all
    qed
    have "life None (abs_of w) ((abs_of w)\<lparr>a_calls := (a_calls (abs_of w))(i := None),
        a_log := a_log (abs_of w) @ (case a_media (abs_call_of m) of None \<Rightarrow> [] | Some h \<Rightarrow> [ACancelled h]) @ es\<rparr>)"
      using m(1) es(1) by (intro l_finish) (auto simp: abs_of_def abs_call_of_def)
    also have "(abs_of w)\<lparr>a_calls := (a_calls (abs_of w))(i := None),
        a_log := a_log (abs_of w) @ (case a_media (abs_call_of m) of None \<Rightarrow> [] | Some h \<Rightarrow> [ACancelled h]) @ es\<rparr> =
        abs_of (finishCall i reason w)"
      by (simp add: abs_of_def es fun_eq_iff abs_call_of_def)
    finally have "(life None)\<^sup>*\<^sup>* (abs_of w) (abs_of (finishCall i reason w))" by blast
    moreover have "engine_ok (finishCall i reason w)"
    proof -
      have "AStarted h \<in> set (life_log (finishCall i reason w)) \<Longrightarrow> AStarted h \<in> set (life_log w)" for h
        using es(1,5) by (auto split: option.splits)
      then have "h < length (trace (finishCall i reason w))" if "AStarted h \<in> set (life_log (finishCall i reason w))" for h
        using that ok es(4) unfolding engine_ok_def by (meson less_le_trans)
      then show ?thesis using ok es(2) unfolding engine_ok_def by (auto split: if_splits)
    qed
    ultimately show ?thesis by blast
  qed
qed

lemma refines_sendAccept: "refines w (sendAccept env i to cr w)"
  unfolding refines_def
proof (intro impI)
  assume ok: "engine_ok w"
  show "engine_ok (sendAccept env i to cr w) \<and> (life None)\<^sup>*\<^sup>* (abs_of w) (abs_of (sendAccept env i to cr w))"
  proof (cases "\<exists>m. calls w i = Some m \<and> acceptPending m")
    case False
    then have "sendAccept env i to cr w = w" by (auto simp: sendAccept_def split: option.splits)
    then show ?thesis using ok by simp
  next
    case True
    then obtain m where m: "calls w i = Some m" "acceptPending m" by blast
    have f: "calls (sendAccept env i to cr w) = (calls w)(i \<mapsto> m\<lparr>acceptPending := False\<rparr>)"
      "heap (sendAccept env i to cr w) = heap w" "length (trace (sendAccept env i to cr w)) = Suc (length (trace w))"
      "life_log (sendAccept env i to cr w) = life_log w @ [AAccepted i]"
      using m by (simp_all add: sendAccept_def Let_def transmitCallNode_def map_filter_simps BuildAccept_def
          callWrap_def offerAction_def set_id_def)
    have "life None (abs_of w) ((abs_of w)\<lparr>a_calls := (a_calls (abs_of w))(i \<mapsto> (abs_call_of m)\<lparr>a_pending := False\<rparr>),
        a_log := a_log (abs_of w) @ [AAccepted i]\<rparr>)"
      using m by (intro l_accept) (simp_all add: abs_of_def abs_call_of_def)
    also have "(abs_of w)\<lparr>a_calls := (a_calls (abs_of w))(i \<mapsto> (abs_call_of m)\<lparr>a_pending := False\<rparr>),
        a_log := a_log (abs_of w) @ [AAccepted i]\<rparr> = abs_of (sendAccept env i to cr w)"
      by (simp add: abs_of_def f fun_eq_iff abs_call_of_def)
    finally have "(life None)\<^sup>*\<^sup>* (abs_of w) (abs_of (sendAccept env i to cr w))" by blast
    moreover have "engine_ok (sendAccept env i to cr w)"
      using ok m unfolding engine_ok_def f by (auto simp: less_Suc_eq split: if_splits)
    ultimately show ?thesis by blast
  qed
qed

lemma refines_register:
  assumes m: "abs_call_of m = (case calls w i of None \<Rightarrow> \<lparr>a_handle = Some (length (heap w)), a_media = None, a_pending = False\<rparr>
      | Some m0 \<Rightarrow> (abs_call_of m0)\<lparr>a_handle := Some (length (heap w))\<rparr>)"
    and st: "started m = (case calls w i of None \<Rightarrow> False | Some m0 \<Rightarrow> started m0)"
  shows "refines w (put i m (w\<lparr>heap := heap w @ [c]\<rparr>))"
  unfolding refines_def
proof (intro impI)
  assume ok: "engine_ok w"
  let ?w = "put i m (w\<lparr>heap := heap w @ [c]\<rparr>)"
  have log: "life_log ?w = life_log w" by (simp add: life_log_def)
  have "life None (abs_of w) ((abs_of w)\<lparr>a_calls := (a_calls (abs_of w))(i \<mapsto>
      (case a_calls (abs_of w) i of
         None \<Rightarrow> \<lparr>a_handle = Some (a_next (abs_of w)), a_media = None, a_pending = False\<rparr>
       | Some c \<Rightarrow> c\<lparr>a_handle := Some (a_next (abs_of w))\<rparr>)), a_next := Suc (a_next (abs_of w))\<rparr>)"
    by (rule l_register)
  also have "\<dots> = abs_of ?w"
    using m by (auto simp: abs_of_def log fun_eq_iff split: option.splits)
  finally have "(life None)\<^sup>*\<^sup>* (abs_of w) (abs_of ?w)" by blast
  moreover have "cancel m = (case calls w i of None \<Rightarrow> None | Some m0 \<Rightarrow> cancel m0)"
    using m by (auto simp: abs_call_of_def split: option.splits)
  then have "engine_ok ?w"
    using ok st unfolding engine_ok_def log by (auto split: if_splits option.splits)
  ultimately show "engine_ok ?w \<and> (life None)\<^sup>*\<^sup>* (abs_of w) (abs_of ?w)" by blast
qed


section \<open>Every operation\<close>

lemma active_callD: "active_call w i = Some m \<Longrightarrow> calls w i = Some m"
  by (auto simp: active_call_def split: option.splits if_splits)

lemma refines_send: "refines w (snd (send_video_state env i m st dec ori w))"
  unfolding send_video_state_def by (rule refines_transmit) simp

lemma send_fields [simp]: "calls (snd (send_video_state env i m st dec ori w)) = calls w"
  by (simp add: send_video_state_def)

lemma refines_stanzas: "refines w (snd (transition_stanzas env i t m w)) \<and> calls (snd (transition_stanzas env i t m w)) = calls w"
proof -
  let ?s = "send_video_state env i m t VideoDecAccept None w"
  have "snd (transition_stanzas env i t m w) =
      (if t = VideoStateUpgradeRequestV2 then snd (send_video_state env i m t VideoDecRequest (Some 0) w)
       else if t = VideoStateUpgradeAccept then
         (if fst ?s then snd (send_video_state env i m VideoStateEnabled [] None (snd ?s)) else snd ?s)
       else snd (send_video_state env i m t [] (Some 0) w))"
    by (auto simp: transition_stanzas_def split: prod.splits bool.splits)
  then show ?thesis by (simp add: refines_send refines_trans [OF refines_send refines_send])
qed

lemma refines_transitionVideo: "refines w (snd (transitionVideo env i t w))"
proof (cases "active_call w i")
  case None
  then show ?thesis by (simp add: transitionVideo_def refines_refl)
next
  case (Some m)
  note m = active_callD [OF Some]
  show ?thesis
  proof (cases "transition_flags t m")
    case None
    with Some show ?thesis by (simp add: transitionVideo_def refines_refl)
  next
    case F: (Some m1)
    define m2 where "m2 = m1\<lparr>videoTx := map_option (\<lambda>vs. if t = VideoStateStopped then disable vs
        else enable vs (t = VideoStateUpgradeRequestV2)) (videoTx m1)\<rparr>"
    have a: "abs_call_of m2 = abs_call_of m" "started m2 = started m"
      using F by (auto simp: m2_def transition_flags_def abs_call_of_def split: if_splits)
    define w1 where "w1 = snd (transition_stanzas env i t m2 (put i m2 w))"
    have w1: "refines w w1" "calls w1 i = Some m2"
      using refines_trans [OF refines_put [OF m a] conjunct1 [OF refines_stanzas]] refines_stanzas [of "put i m2 w"]
      by (simp_all add: w1_def)
    have off: "refines w1 (put i (video_off m2) w1)"
      by (rule refines_put [OF w1(2)]) (simp_all add: video_off_def abs_call_of_def)
    have "snd (transitionVideo env i t w) \<in> {w1, put i (video_off m2) w1}"
      using Some F by (simp add: transitionVideo_def Let_def split_beta w1_def m2_def)
    then show ?thesis using w1(1) refines_trans [OF w1(1) off] by auto
  qed
qed

lemma refines_setVideoEnabled: "refines w (snd (setVideoEnabled env i b w))"
proof (cases "active_call w i")
  case None
  then show ?thesis by (simp add: setVideoEnabled_def refines_refl)
next
  case (Some m)
  define m1 where "m1 = m\<lparr>localVideo := b, videoGate := False,
      videoTx := map_option (\<lambda>vs. if b then enable vs False else disable vs) (videoTx m)\<rparr>"
  define w1 where "w1 = snd (send_video_state env i m1 (fst (if b then (VideoStateEnabled, VideoStateDecH264) else (VideoStateDisabled, [])))
      (snd (if b then (VideoStateEnabled, VideoStateDecH264) else (VideoStateDisabled, []))) None (put i m1 w))"
  have a: "abs_call_of m1 = abs_call_of m" "started m1 = started m" by (simp_all add: m1_def abs_call_of_def)
  have w1: "refines w w1" "calls w1 i = Some m1"
    using refines_trans [OF refines_put [OF active_callD [OF Some] a] refines_send] by (simp_all add: w1_def)
  let ?off = "put i (m1\<lparr>localVideo := False, videoTx := map_option disable (videoTx m1)\<rparr>) w1"
  have off: "refines w1 ?off" by (rule refines_put [OF w1(2)]) (simp_all add: abs_call_of_def)
  have "snd (setVideoEnabled env i b w) \<in> {w1, ?off}"
    using Some by (simp add: setVideoEnabled_def Let_def split_beta w1_def m1_def)
  then show ?thesis using w1(1) refines_trans [OF w1(1) off] by auto
qed

lemma refines_setVideoOrientation: "refines w (snd (setVideoOrientation env i n w))"
  by (auto simp: setVideoOrientation_def split_beta intro: refines_refl refines_send split: option.splits)

lemma refines_sendVideoFrame: "refines w (snd (sendVideoFrame capacity i au d w))"
proof (cases "Option.bind (calls w i) videoTx")
  case None
  then show ?thesis by (auto simp: sendVideoFrame_def refines_refl split: option.splits)
next
  case (Some vs)
  then obtain m where m: "calls w i = Some m" "videoTx m = Some vs" by (auto simp: Option.bind_eq_Some_conv)
  show ?thesis
    using m by (auto simp: sendVideoFrame_def Let_def split_beta abs_call_of_def map_filter_simps
        intro!: refines_trans [OF refines_put refines_emit])
qed

lemma refines_sendReaction: "refines w (snd (engine_sendReaction pw capacity i e w))"
proof (cases "Option.bind (active_call w i) appDataTx")
  case None
  then show ?thesis by (auto simp: engine_sendReaction_def refines_refl split: option.splits)
next
  case (Some s)
  then obtain m where m: "active_call w i = Some m" "appDataTx m = Some s" by (auto simp: Option.bind_eq_Some_conv)
  show ?thesis
    using m by (auto simp: engine_sendReaction_def Let_def split_beta abs_call_of_def map_filter_simps
        intro!: refines_trans [OF refines_put [OF active_callD] refines_emit])
qed

lemma refines_reject: "refines w (snd (reject env a w))"
  by (auto simp: reject_def Let_def split_beta BuildReject_def callWrap_def set_id_def
      intro!: refines_trans [OF refines_finish refines_transmit])

lemma refines_hangup: "refines w (snd (hangup env a w))"
  by (auto simp: hangup_def Let_def split_beta BuildTerminate_def callWrap_def set_id_def
      intro!: refines_trans [OF refines_finish refines_transmit])

lemma refines_onReject: "refines w (onReject i w)"
  by (simp add: onReject_def refines_refl refines_finish split: option.splits)

lemma refines_onTerminate: "refines w (onTerminate i reason w)"
  by (simp add: onTerminate_def refines_finish)

lemma refines_media: "refines w (media_rekey i peer w)" "refines w (media_senders i vp vs ap as w)"
    "refines w (media_active a w)" "refines w (media_end i w)"
proof -
  show "refines w (media_rekey i peer w)"
    by (auto simp: media_rekey_def Let_def abs_call_of_def map_filter_simps split: option.splits
        intro!: refines_refl refines_put refines_trans [OF refines_put refines_emit])
  show "refines w (media_senders i vp vs ap as w)"
    by (auto simp: media_senders_def abs_call_of_def split: option.splits intro!: refines_refl refines_put)
  show "refines w (media_active a w)"
    unfolding media_active_def
    by (intro refines_trans [OF refines_on_call refines_on_call]) (simp_all add: notify_quiet quiet_note_def)
  show "refines w (media_end i w)"
    by (auto simp: media_end_def abs_call_of_def split: option.splits intro!: refines_refl refines_put)
qed

end
