(* ===== verification/EngineRefine.thy ===== *)
theory EngineRefine
  imports EngineLife
begin

section \<open>The remaining handlers\<close>

lemma refines_case: "(x = None \<Longrightarrow> refines w a) \<Longrightarrow> (\<And>y. x = Some y \<Longrightarrow> refines w (b y)) \<Longrightarrow>
    refines w (case x of None \<Rightarrow> a | Some y \<Rightarrow> b y)"
  by (cases x) simp_all

lemma accept_id_latency [simp]: "accept_id (set_id j (BuildRelayLatency p)) = None"
  by (simp add: BuildRelayLatency_def Let_def set_id_def callWrap_def offerAction_def)

lemma accept_id_preaccept [simp]: "accept_id (BuildPreaccept i to cr j rates video) = None"
  by (simp add: BuildPreaccept_def Let_def callWrap_def offerAction_def)

lemma accept_id_offer [simp]: "accept_id (set_id j (BuildOffer p)) = None"
  by (simp add: BuildOffer_def Let_def set_id_def callWrap_def offerAction_def)

lemma accept_id_ack: "BuildVideoAck je v = Some ack \<Longrightarrow> accept_id ack = None"
  by (auto simp: BuildVideoAck_def Let_def split: option.splits if_splits list.splits)

lemma codec_same [simp]: "abs_call_of (applyVoipSettingsCodec env node m) = abs_call_of m"
    "started (applyVoipSettingsCodec env node m) = started m"
  by (simp_all add: applyVoipSettingsCodec_def abs_call_of_def Let_def split: option.splits)

lemma onRelay_refines: "onRelay i data w = Some w' \<Longrightarrow> refines w w'"
  by (auto simp: onRelay_def abs_call_of_def refines_refl split: option.splits
      intro!: refines_trans [OF refines_put refines_start])

lemma refines_answer_probes: "refines w (answer_probes env i to cr ps w)"
proof (induction env i to cr ps w rule: answer_probes.induct)
  case (2 env i to cr latency name addr ps w)
  obtain ok w1 where t: "transmitCallNode env (set_id (freshID env (length (trace w)))
      (BuildRelayLatency \<lparr>rpCallID = i, rpTo = to, rpCallCreator = cr, rpLatencyMs = latency,
         rpRelayName = name, rpAddressBytes = addr, rpDevices = []\<rparr>)) w = (ok, w1)" by force
  then have "refines w w1" using refines_transmit [OF accept_id_latency] by (metis snd_conv)
  then show ?case using 2 t by (cases ok) (auto intro: refines_trans)
qed (simp add: refines_refl)

lemma refines_onRelayLatency: "refines w (onRelayLatency env i from' cr data w)"
  by (simp add: onRelayLatency_def refines_refl refines_answer_probes split: option.splits)

lemma onOffer_refines: "onOffer env i from' cr data w = Some w' \<Longrightarrow> refines w w'"
proof -
  assume run: "onOffer env i from' cr data w = Some w'"
  show ?thesis
  proof (cases "vstr data ''is_call_ended'' = ''1'' \<or> vstr data ''terminate_reason'' \<noteq> [] \<or>
      decryptInboundCallKey env data from' = None")
    case True
    with run have "w' = w" by (auto simp: onOffer_def split: if_splits)
    then show ?thesis by (simp add: refines_refl)
  next
    case False
    then obtain key where key: "decryptInboundCallKey env data from' = Some key" by auto
    define c where "c = new_Call i (if jidEmpty env cr then from' else cr) CallPhaseRinging"
    define m where "m = (entry env (w\<lparr>heap := heap w @ [c]\<rparr>) i)\<lparr>ec_call := Some (length (heap w)), callKey := Some key,
      selfLID := jidString env (ownLID env), peerLID := jidString env (if jidEmpty env cr then from' else cr), creator := cr,
      fromJID := from', direction := CallDirectionIncoming, localVideo := OfferHasVideo (Some data), remoteVideo := OfferHasVideo (Some data)\<rparr>"
    define mm where "mm = (case findRelay (Some data) of None \<Rightarrow> Some m
       | Some r \<Rightarrow> map_option (\<lambda>rd. m\<lparr>relay := Some rd\<rparr>) (parseRelayData r))"
    define out where "out m1 = (let w3 = sendPreaccept env i from' cr (OfferHasVideo (Some data))
       (put i (applyVoipSettingsCodec env data m1) (w\<lparr>heap := heap w @ [c]\<rparr>))
       in case onIncomingCall w3 of None \<Rightarrow> w3 | Some fn \<Rightarrow> emit [IncomingCall fn (length (heap w))] w3)" for m1
    have "(case mm of None \<Rightarrow> None | Some m1 \<Rightarrow> Some (out m1)) = Some w'"
      using run False key unfolding onOffer_def out_def mm_def m_def c_def Let_def by simp
    then obtain m1 where m1: "mm = Some m1" "w' = out m1" by (cases mm) auto
    have fields: "abs_call_of m1 = abs_call_of m" "started m1 = started m"
      using m1(1) by (auto simp: mm_def abs_call_of_def split: option.splits)
    have "refines w (put i (applyVoipSettingsCodec env data m1) (w\<lparr>heap := heap w @ [c]\<rparr>))"
      by (rule refines_register; unfold codec_same fields)
        (simp_all add: m_def entry_def empty_call_def abs_call_of_def split: option.splits)
    moreover have "refines (put i (applyVoipSettingsCodec env data m1) (w\<lparr>heap := heap w @ [c]\<rparr>)) w'"
      unfolding m1(2) out_def sendPreaccept_def Let_def
      by (auto split: option.splits simp: map_filter_simps
          intro!: refines_transmit refines_trans [OF refines_transmit refines_emit])
    ultimately show ?thesis by (rule refines_trans)
  qed
qed

lemma refines_onPreAccept: "refines w (onPreAccept i w)"
  by (auto simp: onPreAccept_def intro: refines_refl refines_on_call split: option.splits)

lemma refines_case_none: "refines w (case x of None \<Rightarrow> w | Some a \<Rightarrow> f a)" if "\<And>a. refines w (f a)"
  using that by (simp add: refines_refl split: option.splits)

lemma refines_onAccept: "refines w (onAccept env i from' data w)"
proof (cases "\<exists>m. calls w i = Some m \<and> direction m = CallDirectionOutgoing \<and>
    \<not> (case ec_call m of None \<Rightarrow> False | Some a \<Rightarrow> state_at w a = CallPhaseEnded)")
  case False
  then have "onAccept env i from' data w = w" by (auto simp: onAccept_def split: option.splits)
  then show ?thesis by (simp add: refines_refl)
next
  case True
  then obtain m where m: "calls w i = Some m" "direction m = CallDirectionOutgoing"
      "\<not> (case ec_call m of None \<Rightarrow> False | Some a \<Rightarrow> state_at w a = CallPhaseEnded)" by blast
  define m1 where "m1 = applyVoipSettingsCodec env data m"
  define m2 where "m2 = (if \<not> jidEmpty env from' then m1\<lparr>fromJID := from'\<rparr> else m1)"
  define other where "other = (jidString env from' \<noteq> [] \<and> jidString env from' \<noteq> peerLID m2)"
  define m3 where "m3 = (if other then m2\<lparr>peerLID := jidString env from'\<rparr> else m2)"
  define w2 where "w2 = (if other \<and> rekeySet m2 then emit [Rekey i (jidString env from')] (put i m3 w) else put i m3 w)"
  define w3 where "w3 = (case ec_call m of None \<Rightarrow> w2 | Some a \<Rightarrow> on_call a markPeerAccepted
      (if state_at w2 a < CallPhaseConnecting then on_call a (\<lambda>c. setPhase c CallPhaseConnecting) w2 else w2))"
  have "onAccept env i from' data w = maybeStartMedia i w3"
    using m unfolding onAccept_def w3_def w2_def m3_def other_def m2_def m1_def Let_def by simp
  moreover have "abs_call_of m3 = abs_call_of m" "started m3 = started m"
    unfolding m3_def m2_def m1_def by (simp_all add: abs_call_of_def applyVoipSettingsCodec_def Let_def split: option.splits)
  then have put: "refines w (put i m3 w)" by (intro refines_put [OF m(1)])
  then have "refines w w2"
    by (auto simp: w2_def map_filter_simps intro!: refines_trans [OF put refines_emit])
  moreover have "refines w2 w3"
    unfolding w3_def by (intro refines_case_none refines_trans [OF _ refines_on_call])
      (auto intro: refines_refl refines_on_call)
  ultimately show ?thesis by (metis refines_trans refines_start)
qed

lemma refines_ackVideoStanza: "refines w (ackVideoStanza env v w)"
  by (auto simp: ackVideoStanza_def refines_refl dest: accept_id_ack intro: refines_transmit split: option.splits)

lemma peer_video_same: "abs_call_of (fst (peer_video st m)) = abs_call_of m" "started (fst (peer_video st m)) = started m"
  by (simp_all add: peer_video_def abs_call_of_def Let_def)

lemma refines_onVideoStanza: "refines w (onVideoStanza env v w)"
proof (cases "vstr v ''call-id'' = [] \<or> calls w (vstr v ''call-id'') = None")
  case True
  then have "onVideoStanza env v w = w" by (auto simp: onVideoStanza_def Let_def split: option.splits)
  then show ?thesis by (simp add: refines_refl)
next
  case False
  define i where "i = vstr v ''call-id''"
  define st where "st = atoi_value (vstr v ''state'')"
  obtain m where m: "calls w i = Some m" "i \<noteq> []" using False by (auto simp: i_def)
  obtain m1 todo where pv: "peer_video st m = (m1, todo)" by force
  define w1 where "w1 = put i m1 w"
  obtain m2 todo2 w2 where s: "(if todo = AnnounceEnabled then
       (case send_video_state env i m VideoStateEnabled [] (Some 0) w1 of
          (True, w') \<Rightarrow> (m1, EnableSender, w')
        | (False, w') \<Rightarrow> (m1\<lparr>localVideo := False, videoGate := False\<rparr>, DisableSender, w'))
     else (m1, todo, w1)) = (m2, todo2, w2)" by (rule prod_cases3)
  define m3 where "m3 = (if todo2 = EnableSender then m2\<lparr>videoTx := map_option (\<lambda>vs. enable vs False) (videoTx m2)\<rparr>
     else if todo2 = DisableSender then m2\<lparr>videoTx := map_option disable (videoTx m2)\<rparr> else m2)"
  define w3 where "w3 = put i m3 w2"
  have same: "abs_call_of m1 = abs_call_of m" "started m1 = started m"
    using peer_video_same [of st m] pv by simp_all
  then have same2: "abs_call_of m2 = abs_call_of m1" "started m2 = started m1"
    using s by (auto simp: abs_call_of_def split: if_splits prod.splits bool.splits)
  have "refines w w1" unfolding w1_def by (rule refines_put [OF m(1) same])
  moreover have "refines w1 w2" "calls w2 i = Some m1"
    using s refines_send [of w1 env i m VideoStateEnabled "[]" "Some 0"]
    by (auto simp: refines_refl w1_def send_video_state_def transmitCallNode_def Let_def split: if_splits prod.splits bool.splits)
  moreover have "abs_call_of m3 = abs_call_of m2" "started m3 = started m2"
    by (simp_all add: m3_def abs_call_of_def)
  then have "refines w2 w3"
    unfolding w3_def using same2 calculation(3) by (intro refines_put [of w2 i m1]) simp_all
  ultimately have "refines w w3" by (meson refines_trans)
  moreover have "refines w3 (onVideoStanza env v w)"
  proof -
    have "onVideoStanza env v w = (case ec_call m of None \<Rightarrow> w3
      | Some a \<Rightarrow> on_call a (\<lambda>c. (notify (onVideoState c) (VideoChanged
           \<lparr>Active = (st = VideoStateEnabled), Upgrade = (st = VideoStateUpgradeRequest \<or> st = VideoStateUpgradeRequestV2),
            Orientation = atoi_value (vstr v ''device_orientation''), Raw = st\<rparr>), c))
         (if todo2 = EnableSender then on_call a (\<lambda>c. (requestVideoKeyframe c, c)) w3 else w3))"
      using m s pv unfolding onVideoStanza_def Let_def i_def [symmetric] st_def [symmetric] w1_def w3_def m3_def by simp
    then show ?thesis
      by (auto simp: refines_refl notify_quiet quiet_note_def requestVideoKeyframe_def split: option.splits
          intro!: refines_on_call refines_trans [OF refines_on_call refines_on_call])
  qed
  ultimately show ?thesis by (rule refines_trans)
qed

lemma refines_notify: "(\<And>r. ev \<noteq> CallEnded r) \<Longrightarrow> refines w (on_call a (\<lambda>c. (notify (f c) ev, c)) w)"
  by (rule refines_on_call) (auto simp: notify_quiet quiet_note_def split: call_event.splits)

lemma refines_OnIncomingCall: "refines w (OnIncomingCall fn w)"
  by (rule refines_same) (simp_all add: OnIncomingCall_def abs_of_def life_log_def)

lemma onCallAck_refines:
  assumes "onCallAck env ack w = Some w'"
  shows "refines w w'"
proof (cases "vstr ack ''error'' \<noteq> []")
  case True
  then show ?thesis using assms by (auto simp: onCallAck_def Let_def refines_finish)
next
  case False
  show ?thesis
  proof (cases "w' = w")
    case True
    then show ?thesis by (simp add: refines_refl)
  next
    case more: False
    then obtain r where r: "findRelay (Some ack) = Some r" "vstr r ''call-id'' \<noteq> []"
      using assms False by (auto simp: onCallAck_def Let_def split: option.splits if_splits)
    then have run: "onRelay (vstr r ''call-id'') ack
        (case calls w (vstr r ''call-id'') of None \<Rightarrow> w
         | Some m \<Rightarrow> put (vstr r ''call-id'') (applyVoipSettingsCodec env ack m) w) = Some w'"
      using assms False by (simp add: onCallAck_def Let_def)
    show ?thesis
      by (rule refines_trans [OF _ onRelay_refines [OF run]])
        (auto simp: refines_refl intro: refines_put split: option.splits)
  qed
qed

lemma refines_onCallRaw: "refines w (snd (onCallRaw env v w))"
proof (cases "vkids v")
  case (Cons kid rest)
  then show ?thesis
    by (auto simp: onCallRaw_def Let_def refines_refl
        intro: refines_sendAccept refines_notify refines_trans [OF refines_notify refines_sendAccept]
          refines_trans [OF refines_ackVideoStanza refines_onVideoStanza] split: option.splits)
qed (simp add: onCallRaw_def refines_refl)

lemma refines_offer:
  assumes "abs_call_of m = (abs_call_of (entry env w i))\<lparr>a_handle := Some (length (heap w))\<rparr>" "started m = started (entry env w i)"
  shows "refines w (snd (transmitCallNode env (set_id j (BuildOffer p)) (put i m (w\<lparr>heap := heap w @ [c]\<rparr>))))"
proof -
  have "refines w (put i m (w\<lparr>heap := heap w @ [c]\<rparr>))"
    using assms by (intro refines_register) (simp_all add: entry_def empty_call_def abs_call_of_def split: option.splits)
  then show ?thesis by (rule refines_trans [OF _ refines_transmit]) simp
qed

lemma refines_placeCall: "refines w (snd (placeCall env target video w))"
  unfolding placeCall_def
  by (auto simp: Let_def split_beta refines_refl entry_def abs_call_of_def
      split: option.splits sum.splits intro!: refines_offer)

lemma refines_handle_step: "h \<noteq> Answer \<Longrightarrow> refines w (handle_step env a h w)"
  by (cases h) (simp_all add: refines_reject refines_hangup refines_transitionVideo refines_setVideoEnabled
      refines_setVideoOrientation refines_sendVideoFrame refines_sendReaction refines_media refines_on_call)

lemma install_refines: "install env ev w = Some w' \<Longrightarrow> refines w w'"
  by (cases ev) (auto simp: refines_onPreAccept refines_onAccept refines_onTerminate refines_onReject refines_onCallRaw
      refines_refl split: if_splits dest: onOffer_refines onRelay_refines onCallAck_refines
      intro: refines_trans [OF onRelay_refines refines_onRelayLatency])

text \<open>Answering marks the accept as owed, then runs as the other operations do.\<close>

definition answered :: "nat \<Rightarrow> 'j engine \<Rightarrow> 'j engine" where
  "answered a w = (let i = call_id (heap w ! a) in
     case calls w i of None \<Rightarrow> w | Some m \<Rightarrow> put i (m\<lparr>acceptPending := True\<rparr>) w)"

lemma answered_life:
  assumes "engine_ok w"
  shows "engine_ok (answered a w) \<and>
    (answered a w = w \<or> life (Some (call_id (heap w ! a))) (abs_of w) (abs_of (answered a w)))"
proof (cases "calls w (call_id (heap w ! a))")
  case None
  then show ?thesis using assms by (simp add: answered_def)
next
  case (Some m)
  let ?i = "call_id (heap w ! a)"
  have w: "answered a w = put ?i (m\<lparr>acceptPending := True\<rparr>) w" using Some by (simp add: answered_def Let_def)
  have "life (Some ?i) (abs_of w) ((abs_of w)\<lparr>a_calls := (a_calls (abs_of w))(?i \<mapsto> (abs_call_of m)\<lparr>a_pending := True\<rparr>)\<rparr>)"
    using Some by (intro l_answer) (simp add: abs_of_def)
  also have "(abs_of w)\<lparr>a_calls := (a_calls (abs_of w))(?i \<mapsto> (abs_call_of m)\<lparr>a_pending := True\<rparr>)\<rparr> = abs_of (answered a w)"
    by (simp add: w abs_of_def fun_eq_iff abs_call_of_def)
  finally show ?thesis using assms Some by (auto simp: w engine_ok_def)
qed

lemma refines_answer: "refines (answered a w) (snd (answer a w))"
  by (auto simp: answer_def answered_def Let_def refines_refl split: option.splits
      intro: refines_trans [OF refines_on_call refines_start])

text \<open>The labels of a run: the calls that are answered in it.\<close>

fun answers :: "'j op \<Rightarrow> 'j engine \<Rightarrow> string option" where
  "answers (OnHandle a Answer) w = (if a < length (heap w) then Some (call_id (heap w ! a)) else None)"
| "answers _ w = None"

lemma engine_step_life:
  assumes "engine_step env x w = Some w'" "engine_ok w"
  shows "engine_ok w' \<and> (\<exists>B. (abs_of w = B \<or> (answers x w \<noteq> None \<and> life (answers x w) (abs_of w) B)) \<and>
    (life None)\<^sup>*\<^sup>* B (abs_of w'))"
proof (cases "\<exists>a. x = OnHandle a Answer \<and> a < length (heap w)")
  case True
  then obtain a where x: "x = OnHandle a Answer" "a < length (heap w)" by blast
  then have w': "w' = snd (answer a w)" using assms(1) by simp
  show ?thesis
    using answered_life [OF assms(2), of a] refines_answer [of a w] x
    unfolding w' refines_def by auto
next
  case False
  then have "refines w w'"
    using assms(1)
    by (cases x) (auto simp: install_refines refines_placeCall refines_media refines_refl refines_handle_step refines_OnIncomingCall
        split: if_splits)
  then show ?thesis using assms(2) by (auto simp: refines_def)
qed

section \<open>Runs of the engine\<close>

lemma engine_run_life:
  "engine_run env ops w = Some w' \<Longrightarrow> engine_ok w \<Longrightarrow> engine_ok w' \<and> abs_life\<^sup>*\<^sup>* (abs_of w) (abs_of w')"
proof (induction ops arbitrary: w)
  case (Cons x xs)
  then obtain w1 where w1: "engine_step env x w = Some w1" "engine_run env xs w1 = Some w'" by (auto split: option.splits)
  have up: "(life None)\<^sup>*\<^sup>* A B \<Longrightarrow> abs_life\<^sup>*\<^sup>* A B" for A B
    by (erule rtranclp_mono [THEN predicate2D, rotated]) (auto simp: abs_life_def)
  obtain B where B: "abs_of w = B \<or> abs_life (abs_of w) B" "(life None)\<^sup>*\<^sup>* B (abs_of w1)" "engine_ok w1"
    using engine_step_life [OF w1(1) Cons.prems(2)] by (auto simp: abs_life_def)
  then have "abs_life\<^sup>*\<^sup>* (abs_of w) (abs_of w1)" using up [OF B(2)] by (auto intro: converse_rtranclp_into_rtranclp)
  then show ?case using Cons.IH [OF w1(2) B(3)] by auto
qed simp

lemma engine_ok_new [simp]: "engine_ok newEngine" "abs_of newEngine = abs_start"
  by (simp_all add: engine_ok_def newEngine_def life_log_def abs_of_def abs_start_def map_filter_simps fun_eq_iff)

fun answer_count :: "'j dial_env \<Rightarrow> string \<Rightarrow> 'j op list \<Rightarrow> 'j engine \<Rightarrow> nat" where
  "answer_count env i [] w = 0"
| "answer_count env i (x # xs) w = (if answers x w = Some i then 1 else 0) +
     (case engine_step env x w of None \<Rightarrow> 0 | Some w1 \<Rightarrow> answer_count env i xs w1)"

lemma accepts_engine_run:
  "engine_run env ops w = Some w' \<Longrightarrow> engine_ok w \<Longrightarrow> accepts i (abs_of w') \<le> accepts i (abs_of w) + answer_count env i ops w"
proof (induction ops arbitrary: w)
  case (Cons x xs)
  then obtain w1 where w1: "engine_step env x w = Some w1" "engine_run env xs w1 = Some w'" by (auto split: option.splits)
  obtain B where B: "abs_of w = B \<or> (answers x w \<noteq> None \<and> life (answers x w) (abs_of w) B)"
      "(life None)\<^sup>*\<^sup>* B (abs_of w1)" "engine_ok w1"
    using engine_step_life [OF w1(1) Cons.prems(2)] by auto
  have "accepts i B \<le> accepts i (abs_of w) + (if answers x w = Some i then 1 else 0)"
    using B(1) accepts_life [of "answers x w" "abs_of w" B i] by auto
  then show ?case using accepts_run [OF B(2), of i] Cons.IH [OF w1(2) B(3)] w1(1) by simp
qed simp

text \<open>C1: every run of the engine, however events, application calls and media goroutines interleave, is a run of the abstract life cycle: its calls, handles and media tasks change only by registering a call, answering, accepting, starting media once and finishing.\<close>

theorem engine_refines_life:
  assumes "engine_run env ops newEngine = Some w"
  shows "abs_life\<^sup>*\<^sup>* abs_start (abs_of w)"
  using engine_run_life [OF assms] by simp

text \<open>C2: in every run of the engine a handle is told of its end at most once, a media task is started at most once, and a started task has been cancelled exactly once unless an entry of the call map still holds its cancel function.\<close>

theorem engine_life:
  assumes "engine_run env ops newEngine = Some w"
  shows "count_list (life_log w) (AEnded a) \<le> 1 \<and> count_list (life_log w) (AStarted h) \<le> 1 \<and>
    count_list (life_log w) (ACancelled h) + (if \<exists>i m. calls w i = Some m \<and> cancel m = Some h then 1 else 0) =
      count_list (life_log w) (AStarted h)"
proof -
  have "abs_life\<^sup>*\<^sup>* abs_start (abs_of w)" using engine_run_life [OF assms] by simp
  then have inv: "handle_history (abs_of w)" "media_history (abs_of w)"
    using life_invariant [of abs_start "abs_of w"]
    by (simp_all add: abs_start_def owned_def handle_history_def media_history_def holds_media_def)
  have holds: "holds_media (abs_of w) h = (\<exists>i m. calls w i = Some m \<and> cancel m = Some h)"
    by (force simp: holds_media_def abs_of_def abs_call_of_def)
  have log: "a_log (abs_of w) = life_log w" by (simp add: abs_of_def)
  show ?thesis
    using inv(1) inv(2) [unfolded media_history_def, THEN spec, of h]
    unfolding handle_history_def log holds by blast
qed

text \<open>C4: however often the peer repeats the stanza that triggers it, the engine sends no more accepts for a call than the application answered it.\<close>

theorem accepts_answered:
  assumes "engine_run env ops newEngine = Some w"
  shows "count_list (life_log w) (AAccepted i) \<le> answer_count env i ops newEngine"
proof -
  have "count_list (a_log (abs_of w)) (AAccepted i) \<le> accepts i (abs_of w)" by (simp add: accepts_def)
  also have "\<dots> \<le> accepts i (abs_of newEngine) + answer_count env i ops newEngine"
    using accepts_engine_run [OF assms, of i] by simp
  finally show ?thesis by (simp add: accepts_def abs_start_def) (simp add: abs_of_def)
qed

text \<open>A call that is offered, answered, triggered twice and terminated.\<close>

definition example_env :: "nat dial_env" where
  "example_env = \<lparr>netOk = (\<lambda>n. True), freshID = (\<lambda>n. ''A''), zeroJID = 0, jidEmpty = (\<lambda>j. j = 0),
     jidString = (\<lambda>j. if j = 1 then ''1@lid'' else ''2@lid''), ownLID = 1, decryptDM = (\<lambda>v j b. Some [1]),
     callKeyOf = (\<lambda>b. Some [7]), jsonFields = (\<lambda>b. None), parseJID = (\<lambda>s. None), userJID = (\<lambda>s. 2), isHidden = (\<lambda>j. True),
     lidForPN = (\<lambda>b j. None), userInfo = (\<lambda>j. None), userDevices = (\<lambda>j. Some [2]), marshalCallKey = Some,
     encryptFor = (\<lambda>b j k. Some (Some [3], ''msg'', False)), accountIdentity = None, privacyToken = (\<lambda>j. None),
     randomKey = Some [9], newCallID = (\<lambda>n. ''D'')\<rparr>"

definition example_call_node :: "string \<Rightarrow> nat view list \<Rightarrow> nat view" where
  "example_call_node t kids = View t (\<lambda>k. if k = ''call-id'' then ''C'' else []) (\<lambda>k. 2) kids NoValue"

definition example_ops :: "nat op list" where
  "example_ops =
     [IncomingListener (Some 5),
      Event (CallOffer ''C'' 2 2 (example_call_node ''offer'' [View ''enc'' (\<lambda>k. []) (\<lambda>k. 0) [] (OctetValue [4]), View ''relay'' (\<lambda>k. []) (\<lambda>k. 0) [] NoValue])),
      OnHandle 0 (Listen (ListenEnd (Some 6))), OnHandle 0 Answer,
      Event (CallNode (View ''call'' (\<lambda>k. []) (\<lambda>k. 2) [example_call_node ''mute_v2'' []] NoValue)),
      Event (CallNode (View ''call'' (\<lambda>k. []) (\<lambda>k. 2) [example_call_node ''mute_v2'' []] NoValue)),
      Event (CallTerminate ''C'' ''timeout''), OnHandle 0 Hangup]"

lemma example_run:
  "map_option life_log (engine_run example_env example_ops newEngine) =
    Some [AStarted 2, AAccepted ''C'', ACancelled 2, AEnded 0]"
  by code_simp

lemma engine_refines_life_witness:
  "\<exists>w. engine_run example_env example_ops newEngine = Some w \<and> abs_life\<^sup>*\<^sup>* abs_start (abs_of w) \<and>
    life_log w = [AStarted 2, AAccepted ''C'', ACancelled 2, AEnded 0]"
  using example_run engine_refines_life [of example_env example_ops] by auto

lemma engine_life_witness:
  "\<exists>w. engine_run example_env example_ops newEngine = Some w \<and> life_log w \<noteq> [] \<and>
    count_list (life_log w) (AEnded 0) \<le> 1 \<and> count_list (life_log w) (AStarted 2) \<le> 1 \<and>
    count_list (life_log w) (ACancelled 2) + (if \<exists>i m. calls w i = Some m \<and> cancel m = Some 2 then 1 else 0) =
      count_list (life_log w) (AStarted 2)"
proof -
  obtain w where w: "engine_run example_env example_ops newEngine = Some w" "life_log w \<noteq> []"
    using example_run by auto
  show ?thesis using w engine_life [OF w(1), of 0 2] by blast
qed

lemma accepts_answered_witness:
  "\<exists>w. engine_run example_env example_ops newEngine = Some w \<and> 0 < count_list (life_log w) (AAccepted ''C'') \<and>
    count_list (life_log w) (AAccepted ''C'') \<le> answer_count example_env ''C'' example_ops newEngine"
proof -
  obtain w where w: "engine_run example_env example_ops newEngine = Some w" "0 < count_list (life_log w) (AAccepted ''C'')"
    using example_run by auto
  show ?thesis using w accepts_answered [OF w(1), of "''C''"] by blast
qed

end
