(* ===== verification/EngineGate.thy ===== *)
theory EngineGate
  imports EngineRefine
begin

text \<open>
  The video gate across the whole engine: once the application asked to upgrade a call, no video packet
  leaves for it until the peer or the application opens the gate.
\<close>

definition gated_call :: "'j engineCall \<Rightarrow> bool" where
  "gated_call m \<longleftrightarrow> (\<not> localVideo m \<or> videoGate m) \<and>
     (case videoTx m of None \<Rightarrow> True | Some vs \<Rightarrow> \<not> vActive vs \<or> vSendGated vs)"

definition gated :: "string \<Rightarrow> 'j engine \<Rightarrow> bool" where
  "gated i w \<longleftrightarrow> (case calls w i of None \<Rightarrow> True | Some m \<Rightarrow> gated_call m)"

text \<open>The frames of call \<open>i\<close> among some effects, without the calls that sent nothing.\<close>

definition frames_of :: "string \<Rightarrow> 'j effect list \<Rightarrow> bytes list" where
  "frames_of i es = concat (List.map_filter (\<lambda>e. case e of VideoPackets j ps \<Rightarrow> if j = i then Some ps else None | _ \<Rightarrow> None) es)"

definition shut :: "string \<Rightarrow> 'j engine \<Rightarrow> 'j engine \<Rightarrow> bool" where
  "shut i w w' \<longleftrightarrow> (gated i w \<longrightarrow> gated i w' \<and> (\<exists>es. trace w' = trace w @ es \<and> frames_of i es = []))"

lemma frames_of_append [simp]: "frames_of i (xs @ ys) = frames_of i xs @ frames_of i ys"
  by (simp add: frames_of_def map_filter_def)

lemma frames_of_simps [simp]: "frames_of i [] = []" "frames_of i (Sent ok n # es) = frames_of i es"
    "frames_of i (Notice a l ev # es) = frames_of i es" "frames_of i (IncomingCall l a # es) = frames_of i es"
    "frames_of i (StartMedia h j x key self peer rd # es) = frames_of i es"
    "frames_of i (CancelMedia h # es) = frames_of i es" "frames_of i (Rekey j p # es) = frames_of i es"
    "frames_of i (ReactionPackets j qs # es) = frames_of i es"
    "frames_of i (VideoPackets j ps # es) = (if j = i then ps else []) @ frames_of i es"
  by (simp_all add: frames_of_def map_filter_simps)

lemma shut_refl: "shut i w w"
  by (simp add: shut_def)

lemma shut_trans: "shut i w v \<Longrightarrow> shut i v u \<Longrightarrow> shut i w u"
  unfolding shut_def by (metis append.assoc append_is_Nil_conv frames_of_append)

lemma shut_put: "(j = i \<Longrightarrow> gated i w \<Longrightarrow> gated_call m) \<Longrightarrow> shut i w (put j m w)"
  by (auto simp: shut_def gated_def put_def)

lemma shut_put_same: "calls w j = Some m0 \<Longrightarrow> (j = i \<Longrightarrow> gated_call m0 \<Longrightarrow> gated_call m) \<Longrightarrow> shut i w (put j m w)"
  by (rule shut_put) (auto simp: gated_def)

lemma shut_emit: "frames_of i es = [] \<Longrightarrow> shut i w (emit es w)"
  by (auto simp: shut_def gated_def emit_def)

lemma notices_not_video [simp]: "frames_of i (map (\<lambda>n. Notice a (fst n) (snd n)) ns) = []"
  by (induction ns) simp_all

lemma shut_on_call: "shut i w (on_call a f w)"
  by (auto simp: on_call_def split_beta shut_def gated_def emit_def)

lemma shut_heap: "shut i w (w\<lparr>heap := h\<rparr>)"
  by (auto simp: shut_def gated_def)

lemma shut_transmit: "shut i w (snd (transmitCallNode env node w))"
  by (simp add: transmitCallNode_def Let_def shut_emit)

lemma shut_send: "shut i w (snd (send_video_state env j m st dec ori w))"
  by (simp add: send_video_state_def shut_transmit)

lemma shut_on_call_after: "shut i w v \<Longrightarrow> shut i w (on_call a f v)"
  by (rule shut_trans [OF _ shut_on_call])

lemma shut_emit_after: "shut i w v \<Longrightarrow> frames_of i es = [] \<Longrightarrow> shut i w (emit es v)"
  by (rule shut_trans [OF _ shut_emit])

lemma shut_transmit_after: "shut i w v \<Longrightarrow> shut i w (snd (transmitCallNode env node v))"
  by (rule shut_trans [OF _ shut_transmit])

lemmas shut_intros = shut_refl shut_on_call_after shut_emit_after shut_transmit_after

lemma gated_call_fields [simp]:
  "gated_call (m\<lparr>started := b, cancel := h\<rparr>) = gated_call m" "gated_call (m\<lparr>relay := rd\<rparr>) = gated_call m"
  "gated_call (m\<lparr>rekeySet := b\<rparr>) = gated_call m" "gated_call (m\<lparr>acceptPending := b\<rparr>) = gated_call m"
  "gated_call (m\<lparr>appDataTx := s\<rparr>) = gated_call m" "gated_call (m\<lparr>fromJID := f\<rparr>) = gated_call m"
  "gated_call (m\<lparr>peerLID := p\<rparr>) = gated_call m" "gated_call (m\<lparr>codec := c\<rparr>) = gated_call m"
  by (simp_all add: gated_call_def)

section \<open>Handlers that leave the gate alone\<close>

lemma shut_start: "shut i w (maybeStartMedia j w)"
proof (cases "\<exists>m key rd. calls w j = Some m \<and> callKey m = Some key \<and> relay m = Some rd \<and> \<not> started m")
  case False
  then have "maybeStartMedia j w = w" by (auto simp: maybeStartMedia_def split: option.splits)
  then show ?thesis by (simp add: shut_refl)
next
  case True
  then show ?thesis
    by (auto simp: maybeStartMedia_def Let_def split: option.splits intro!: shut_emit_after shut_on_call_after shut_put_same)
qed

lemma shut_finish: "shut i w (finishCall j reason w)"
proof -
  have "shut i w (w\<lparr>calls := (calls w)(j := None)\<rparr>)" by (auto simp: shut_def gated_def)
  then show ?thesis
    unfolding finishCall_def Let_def
    by (auto split: option.splits intro!: shut_intros)
qed

lemma shut_codec: "gated_call (applyVoipSettingsCodec env v m) = gated_call m"
  by (simp add: applyVoipSettingsCodec_def Let_def split: option.splits)

lemma onRelay_shut: "onRelay j data w = Some w' \<Longrightarrow> shut i w w'"
  by (auto simp: onRelay_def shut_refl split: option.splits intro!: shut_trans [OF shut_put_same shut_start])

lemma shut_answer_probes: "shut i w (answer_probes env j to cr ps w)"
proof (induction env j to cr ps w rule: answer_probes.induct)
  case (2 env j to cr latency name addr ps w)
  obtain ok w1 where t: "transmitCallNode env (set_id (freshID env (length (trace w)))
      (BuildRelayLatency \<lparr>rpCallID = j, rpTo = to, rpCallCreator = cr, rpLatencyMs = latency,
         rpRelayName = name, rpAddressBytes = addr, rpDevices = []\<rparr>)) w = (ok, w1)" by force
  then have "shut i w w1" using shut_transmit by (metis snd_conv)
  then show ?case using 2 t by (cases ok) (auto intro: shut_trans)
qed (simp add: shut_refl)

lemma shut_onRelayLatency: "shut i w (onRelayLatency env j from' cr data w)"
  by (simp add: onRelayLatency_def shut_refl shut_answer_probes split: option.splits)

lemma shut_onPreAccept: "shut i w (onPreAccept j w)"
  by (auto simp: onPreAccept_def intro!: shut_intros split: option.splits)

lemma shut_onAccept: "shut i w (onAccept env j from' data w)"
proof (cases "\<exists>m. calls w j = Some m \<and> direction m = CallDirectionOutgoing \<and>
    \<not> (case ec_call m of None \<Rightarrow> False | Some a \<Rightarrow> state_at w a = CallPhaseEnded)")
  case False
  then have "onAccept env j from' data w = w" by (auto simp: onAccept_def split: option.splits)
  then show ?thesis by (simp add: shut_refl)
next
  case True
  then obtain m where m: "calls w j = Some m" "direction m = CallDirectionOutgoing"
      "\<not> (case ec_call m of None \<Rightarrow> False | Some a \<Rightarrow> state_at w a = CallPhaseEnded)" by blast
  define m2 where "m2 = (let m1 = applyVoipSettingsCodec env data m in if \<not> jidEmpty env from' then m1\<lparr>fromJID := from'\<rparr> else m1)"
  define other where "other = (jidString env from' \<noteq> [] \<and> jidString env from' \<noteq> peerLID m2)"
  define m3 where "m3 = (if other then m2\<lparr>peerLID := jidString env from'\<rparr> else m2)"
  define w2 where "w2 = (if other \<and> rekeySet m2 then emit [Rekey j (jidString env from')] (put j m3 w) else put j m3 w)"
  define w3 where "w3 = (case ec_call m of None \<Rightarrow> w2 | Some a \<Rightarrow> on_call a markPeerAccepted
      (if state_at w2 a < CallPhaseConnecting then on_call a (\<lambda>c. setPhase c CallPhaseConnecting) w2 else w2))"
  have "onAccept env j from' data w = maybeStartMedia j w3"
    using m unfolding onAccept_def w3_def w2_def m3_def other_def m2_def Let_def by simp
  moreover have "gated_call m3 = gated_call m"
    unfolding m3_def m2_def Let_def by (simp add: shut_codec)
  then have put: "shut i w (put j m3 w)" by (intro shut_put_same [OF m(1)]) simp
  then have "shut i w w2" by (auto simp: w2_def intro: shut_emit_after)
  then have "shut i w w3" unfolding w3_def by (auto intro!: shut_on_call_after split: option.splits)
  ultimately show ?thesis by (metis shut_trans shut_start)
qed

lemma onCallAck_shut:
  assumes "onCallAck env ack w = Some w'"
  shows "shut i w w'"
proof (cases "vstr ack ''error'' \<noteq> [] \<or> w' = w")
  case True
  then show ?thesis using assms by (auto simp: onCallAck_def Let_def shut_finish shut_refl)
next
  case False
  then obtain r where r: "findRelay (Some ack) = Some r" "vstr r ''call-id'' \<noteq> []"
    using assms by (auto simp: onCallAck_def Let_def split: option.splits if_splits)
  then have run: "onRelay (vstr r ''call-id'') ack
      (case calls w (vstr r ''call-id'') of None \<Rightarrow> w
       | Some m \<Rightarrow> put (vstr r ''call-id'') (applyVoipSettingsCodec env ack m) w) = Some w'"
    using assms False by (simp add: onCallAck_def Let_def)
  show ?thesis
    by (rule shut_trans [OF _ onRelay_shut [OF run]])
      (auto simp: shut_refl shut_codec intro: shut_put_same split: option.splits)
qed

lemma shut_ackVideoStanza: "shut i w (ackVideoStanza env v w)"
  by (simp add: ackVideoStanza_def shut_refl shut_transmit split: option.splits)

lemma shut_sendAccept: "shut i w (sendAccept env j to cr w)"
  by (auto simp: sendAccept_def Let_def shut_refl intro!: shut_transmit_after shut_put_same split: option.splits)

lemma shut_answer: "shut i w (snd (answer a w))"
  by (auto simp: answer_def Let_def shut_refl intro!: shut_trans [OF shut_on_call_after shut_start] shut_put_same split: option.splits)

lemma shut_reject: "shut i w (snd (reject env a w))"
  by (auto simp: reject_def Let_def split_beta intro!: shut_transmit_after shut_finish)

lemma shut_hangup: "shut i w (snd (hangup env a w))"
  by (auto simp: hangup_def Let_def split_beta intro!: shut_transmit_after shut_finish)

lemma shut_onReject: "shut i w (onReject j w)"
  by (simp add: onReject_def shut_refl shut_finish split: option.splits)

lemma shut_onTerminate: "shut i w (onTerminate j reason w)"
  by (simp add: onTerminate_def shut_finish)

lemma shut_sendReaction: "shut i w (snd (engine_sendReaction pw capacity j e w))"
proof (cases "Option.bind (active_call w j) appDataTx")
  case None
  then show ?thesis by (auto simp: engine_sendReaction_def shut_refl split: option.splits)
next
  case (Some s)
  then obtain m where m: "active_call w j = Some m" "appDataTx m = Some s" by (auto simp: Option.bind_eq_Some_conv)
  then show ?thesis
    by (auto simp: engine_sendReaction_def Let_def split_beta intro!: shut_emit_after shut_put_same [OF active_callD])
qed

lemma shut_media: "shut i w (media_rekey j peer w)" "shut i w (media_senders j vp vs ap as w)"
    "shut i w (media_active a w)" "shut i w (media_end j w)"
proof -
  show "shut i w (media_rekey j peer w)"
    by (auto simp: media_rekey_def Let_def shut_refl split: option.splits intro!: shut_put_same shut_emit_after)
  show "shut i w (media_senders j vp vs ap as w)"
    by (auto simp: media_senders_def gated_call_def new_videoSender_def shut_refl split: option.splits intro!: shut_put_same)
  show "shut i w (media_active a w)"
    unfolding media_active_def by (intro shut_intros)
  show "shut i w (media_end j w)"
    by (auto simp: media_end_def gated_call_def shut_refl split: option.splits intro!: shut_put_same)
qed

section \<open>Handlers that move the gate\<close>

lemma video_send_gated: "\<not> vActive vs \<or> vSendGated vs \<Longrightarrow> video_send capacity vs au d = ([], vs)"
  by (simp add: video_send_def protectAccessUnitLocked_def Let_def)

lemma shut_sendVideoFrame: "shut i w (snd (sendVideoFrame capacity j au d w))"
proof (cases "Option.bind (calls w j) videoTx")
  case None
  then show ?thesis by (auto simp: sendVideoFrame_def shut_refl split: option.splits)
next
  case (Some vs)
  then obtain m where m: "calls w j = Some m" "videoTx m = Some vs" by (auto simp: Option.bind_eq_Some_conv)
  obtain ps vs1 where s: "video_send capacity vs au d = (ps, vs1)" by force
  have w': "snd (sendVideoFrame capacity j au d w) = emit [VideoPackets j ps] (put j (m\<lparr>videoTx := Some vs1\<rparr>) w)"
    using m s by (simp add: sendVideoFrame_def)
  show ?thesis
  proof (cases "j = i \<and> gated_call m")
    case True
    then have "ps = []" "vs1 = vs" using video_send_gated [of vs capacity au d] m s by (auto simp: gated_call_def)
    then show ?thesis unfolding w' using m True by (auto intro!: shut_emit_after shut_put simp: gated_call_def)
  next
    case False
    show ?thesis
    proof (cases "j = i")
      case True
      then show ?thesis using False m by (simp add: shut_def gated_def)
    next
      case False
      then show ?thesis unfolding w' by (intro shut_emit_after shut_put) simp_all
    qed
  qed
qed

lemma gated_disable: "gated_call (m\<lparr>localVideo := False, videoTx := map_option disable (videoTx m)\<rparr>)"
  by (simp add: gated_call_def disable_def split: option.splits)

lemma gated_off: "gated_call (video_off m)"
  by (simp add: gated_call_def video_off_def disable_def split: option.splits)

lemma shut_stanzas: "shut i w (snd (transition_stanzas env j t m w))"
proof -
  let ?s = "send_video_state env j m t VideoDecAccept None w"
  have "snd (transition_stanzas env j t m w) =
      (if t = VideoStateUpgradeRequestV2 then snd (send_video_state env j m t VideoDecRequest (Some 0) w)
       else if t = VideoStateUpgradeAccept then
         (if fst ?s then snd (send_video_state env j m VideoStateEnabled [] None (snd ?s)) else snd ?s)
       else snd (send_video_state env j m t [] (Some 0) w))"
    by (auto simp: transition_stanzas_def split: prod.splits bool.splits)
  then show ?thesis by (simp add: shut_send shut_trans [OF shut_send shut_send])
qed

text \<open>What the local transition leaves of the gate: any but an accept closes it.\<close>

lemma transition_gated:
  assumes "transition_flags t m = Some m1" "t \<noteq> VideoStateUpgradeAccept"
  shows "gated_call (m1\<lparr>videoTx := map_option (\<lambda>vs. if t = VideoStateStopped then disable vs
      else enable vs (t = VideoStateUpgradeRequestV2)) (videoTx m1)\<rparr>)"
  using assms by (auto simp: transition_flags_def gated_call_def enable_def disable_def Let_def VideoStateStopped_def
      VideoStateUpgradeRequestV2_def VideoStateUpgradeAccept_def split: if_splits option.splits)

lemma transition_result:
  fixes env :: "'j env"
  assumes "active_call w j = Some m" "transition_flags t m = Some m1"
  defines "m2 \<equiv> m1\<lparr>videoTx := map_option (\<lambda>vs. if t = VideoStateStopped then disable vs
      else enable vs (t = VideoStateUpgradeRequestV2)) (videoTx m1)\<rparr>"
  defines "w1 \<equiv> snd (transition_stanzas env j t m2 (put j m2 w))"
  shows "snd (transitionVideo env j t w) \<in> {w1, put j (video_off m2) w1}"
  using assms(1,2) by (simp add: transitionVideo_def Let_def split_beta w1_def m2_def)

lemma shut_transitionVideo:
  assumes "j = i \<Longrightarrow> t \<noteq> VideoStateUpgradeAccept"
  shows "shut i w (snd (transitionVideo env j t w))"
proof (cases "active_call w j")
  case None
  then show ?thesis by (simp add: transitionVideo_def shut_refl)
next
  case (Some m)
  show ?thesis
  proof (cases "transition_flags t m")
    case None
    with Some show ?thesis by (simp add: transitionVideo_def shut_refl)
  next
    case F: (Some m1)
    define m2 where "m2 = m1\<lparr>videoTx := map_option (\<lambda>vs. if t = VideoStateStopped then disable vs
        else enable vs (t = VideoStateUpgradeRequestV2)) (videoTx m1)\<rparr>"
    define w1 where "w1 = snd (transition_stanzas env j t m2 (put j m2 w))"
    have w1: "shut i w w1"
      unfolding w1_def by (rule shut_trans [OF shut_put shut_stanzas]) (simp add: m2_def transition_gated [OF F assms])
    moreover have "shut i w (put j (video_off m2) w1)"
      by (rule shut_trans [OF w1 shut_put]) (simp add: gated_off)
    ultimately show ?thesis
      using transition_result [OF Some F, of env] unfolding m2_def [symmetric] w1_def [symmetric] by auto
  qed
qed

text \<open>Asking for the upgrade shuts the gate, whether or not the request could be sent.\<close>

lemma start_video_gated:
  assumes "active_call w i = Some m"
  shows "gated i (snd (transitionVideo env i VideoStateUpgradeRequestV2 w))"
proof -
  let ?t = VideoStateUpgradeRequestV2
  obtain m1 where F: "transition_flags ?t m = Some m1" by (simp add: transition_flags_def)
  define m2 where "m2 = m1\<lparr>videoTx := map_option (\<lambda>vs. if ?t = VideoStateStopped then disable vs
      else enable vs (?t = VideoStateUpgradeRequestV2)) (videoTx m1)\<rparr>"
  define w1 where "w1 = snd (transition_stanzas env i ?t m2 (put i m2 w))"
  have "gated_call m2"
    unfolding m2_def by (rule transition_gated [OF F]) (simp add: VideoStateUpgradeRequestV2_def VideoStateUpgradeAccept_def)
  then have "gated i (put i m2 w)" by (simp add: gated_def put_def)
  then have "gated i w1" using shut_stanzas [of i "put i m2 w"] by (simp add: shut_def w1_def)
  moreover have "gated i (put i (video_off m2) w1)" by (simp add: gated_def put_def gated_off)
  ultimately show ?thesis
    using transition_result [OF assms F, of env] unfolding m2_def [symmetric] w1_def [symmetric] by auto
qed

lemma shut_setVideoEnabled:
  assumes "j = i \<Longrightarrow> \<not> b"
  shows "shut i w (snd (setVideoEnabled env j b w))"
proof (cases "active_call w j")
  case None
  then show ?thesis by (simp add: setVideoEnabled_def shut_refl)
next
  case (Some m)
  define m1 where "m1 = m\<lparr>localVideo := b, videoGate := False,
      videoTx := map_option (\<lambda>vs. if b then enable vs False else disable vs) (videoTx m)\<rparr>"
  define w1 where "w1 = snd (send_video_state env j m1 (fst (if b then (VideoStateEnabled, VideoStateDecH264) else (VideoStateDisabled, [])))
      (snd (if b then (VideoStateEnabled, VideoStateDecH264) else (VideoStateDisabled, []))) None (put j m1 w))"
  have "gated_call m1" if "j = i"
    using assms [OF that] by (simp add: m1_def gated_call_def disable_def split: option.splits)
  then have w1: "shut i w w1" unfolding w1_def by (intro shut_trans [OF shut_put shut_send])
  moreover have "shut i w (put j (m1\<lparr>localVideo := False, videoTx := map_option disable (videoTx m1)\<rparr>) w1)"
    by (rule shut_trans [OF w1 shut_put]) (rule gated_disable)
  moreover have "snd (setVideoEnabled env j b w) \<in> {w1, put j (m1\<lparr>localVideo := False, videoTx := map_option disable (videoTx m1)\<rparr>) w1}"
    using Some by (simp add: setVideoEnabled_def Let_def split_beta w1_def m1_def)
  ultimately show ?thesis by auto
qed

lemma shut_setVideoOrientation: "shut i w (snd (setVideoOrientation env j n w))"
  by (auto simp: setVideoOrientation_def split_beta intro: shut_refl shut_send split: option.splits)

text \<open>The peer opens the gate only with state 1 or state 4.\<close>

lemma peer_video_gated:
  assumes "st \<noteq> VideoStateEnabled" "st \<noteq> VideoStateUpgradeAccept"
  shows "(gated_call m \<longrightarrow> gated_call (fst (peer_video st m))) \<and> snd (peer_video st m) \<in> {LeaveSender, DisableSender}"
  using assms by (auto simp: peer_video_def gated_call_def)

lemma shut_onVideoStanza:
  assumes "vstr v ''call-id'' = i \<Longrightarrow> atoi_value (vstr v ''state'') \<notin> {VideoStateEnabled, VideoStateUpgradeAccept}"
  shows "shut i w (onVideoStanza env v w)"
proof (cases "vstr v ''call-id'' = [] \<or> calls w (vstr v ''call-id'') = None")
  case True
  then have "onVideoStanza env v w = w" by (auto simp: onVideoStanza_def Let_def split: option.splits)
  then show ?thesis by (simp add: shut_refl)
next
  case False
  define j where "j = vstr v ''call-id''"
  define st where "st = atoi_value (vstr v ''state'')"
  obtain m where m: "calls w j = Some m" "j \<noteq> []" using False by (auto simp: j_def)
  obtain m1 todo where pv: "peer_video st m = (m1, todo)" by force
  define w1 where "w1 = put j m1 w"
  obtain m2 todo2 w2 where s: "(if todo = AnnounceEnabled then
       (case send_video_state env j m VideoStateEnabled [] (Some 0) w1 of
          (True, w') \<Rightarrow> (m1, EnableSender, w')
        | (False, w') \<Rightarrow> (m1\<lparr>localVideo := False, videoGate := False\<rparr>, DisableSender, w'))
     else (m1, todo, w1)) = (m2, todo2, w2)" by (rule prod_cases3)
  define m3 where "m3 = (if todo2 = EnableSender then m2\<lparr>videoTx := map_option (\<lambda>vs. enable vs False) (videoTx m2)\<rparr>
     else if todo2 = DisableSender then m2\<lparr>videoTx := map_option disable (videoTx m2)\<rparr> else m2)"
  define w3 where "w3 = put j m3 w2"
  have safe: "(gated_call m \<longrightarrow> gated_call m1) \<and> todo \<in> {LeaveSender, DisableSender}" if "j = i"
    using peer_video_gated [of st m] assms that pv by (simp add: j_def st_def)
  have "shut i w w1" unfolding w1_def using safe by (intro shut_put_same [OF m(1)]) simp
  moreover have "shut i w1 w2"
    using s shut_send [of i w1 env j m VideoStateEnabled "[]" "Some 0"]
    by (auto simp: shut_refl split: if_splits prod.splits bool.splits)
  moreover have "gated_call m3" if "j = i" "gated i w"
  proof -
    have "m2 = m1" "todo2 = todo" using s safe [OF that(1)] by (auto split: if_splits)
    moreover have "gated_call m1" using safe that m by (simp add: gated_def)
    ultimately show ?thesis using safe [OF that(1)] by (auto simp: m3_def gated_call_def disable_def split: option.splits)
  qed
  ultimately have w3: "shut i w w3"
  proof (cases "gated i w")
    case True
    assume "shut i w w1" "shut i w1 w2" and m3: "j = i \<Longrightarrow> gated i w \<Longrightarrow> gated_call m3"
    moreover have "shut i w2 w3" unfolding w3_def using m3 True by (intro shut_put)
    ultimately show ?thesis by (meson shut_trans)
  qed (simp add: shut_def)
  have "onVideoStanza env v w = (case ec_call m of None \<Rightarrow> w3
    | Some a \<Rightarrow> on_call a (\<lambda>c. (notify (onVideoState c) (VideoChanged
         \<lparr>Active = (st = VideoStateEnabled), Upgrade = (st = VideoStateUpgradeRequest \<or> st = VideoStateUpgradeRequestV2),
          Orientation = atoi_value (vstr v ''device_orientation''), Raw = st\<rparr>), c))
       (if todo2 = EnableSender then on_call a (\<lambda>c. (requestVideoKeyframe c, c)) w3 else w3))"
    using m s pv unfolding onVideoStanza_def Let_def j_def [symmetric] st_def [symmetric] w1_def w3_def m3_def by simp
  then show ?thesis using w3 by (auto intro!: shut_on_call_after split: option.splits)
qed

lemma shut_onCallRaw:
  assumes "\<And>kid rest. vkids v = kid # rest \<Longrightarrow> vtag kid = ''video'' \<Longrightarrow> vstr kid ''call-id'' = i \<Longrightarrow>
    atoi_value (vstr kid ''state'') \<notin> {VideoStateEnabled, VideoStateUpgradeAccept}"
  shows "shut i w (snd (onCallRaw env v w))"
proof (cases "vkids v")
  case (Cons kid rest)
  have "shut i w (snd (onCallRaw env v w))" if "vtag kid = ''video''"
    using Cons that assms by (auto simp: onCallRaw_def Let_def intro!: shut_trans [OF shut_ackVideoStanza shut_onVideoStanza])
  moreover have "shut i w (snd (onCallRaw env v w))" if "vtag kid \<noteq> ''video''"
    using Cons that by (auto simp: onCallRaw_def Let_def
        intro!: shut_refl shut_on_call shut_sendAccept shut_trans [OF shut_on_call shut_sendAccept] split: option.splits)
  ultimately show ?thesis by blast
qed (simp add: onCallRaw_def shut_refl)

lemma onOffer_shut:
  assumes "onOffer env j from' cr data w = Some w'" "j \<noteq> i"
  shows "shut i w w'"
proof -
  have step: "shut i w (put j m (w\<lparr>heap := h\<rparr>))" for m h
    using assms(2) by (intro shut_trans [OF shut_heap shut_put]) simp
  show ?thesis
    using assms(1) unfolding onOffer_def Let_def sendPreaccept_def
    by (auto split: if_splits option.splits intro!: shut_refl shut_emit_after shut_transmit_after step)
qed

lemma shut_placeCall:
  assumes "newCallID env (length (trace w)) \<noteq> i"
  shows "shut i w (snd (placeCall env target video w))"
proof -
  have step: "shut i w (put (newCallID env (length (trace w))) m (w\<lparr>heap := h\<rparr>))" for m h
    using assms by (intro shut_trans [OF shut_heap shut_put]) simp
  show ?thesis
    unfolding placeCall_def Let_def split_beta
    by (auto split: option.splits sum.splits intro!: shut_refl shut_transmit_after step)
qed

section \<open>Runs\<close>

text \<open>The operations that may open the gate of call \<open>i\<close>.\<close>

fun opens :: "'j dial_env \<Rightarrow> string \<Rightarrow> 'j op \<Rightarrow> 'j engine \<Rightarrow> bool" where
  "opens env i (Event (CallOffer j from' cr data)) w = (j = i)"
| "opens env i (Event (CallNode v)) w =
     (case vkids v of
        [] \<Rightarrow> False
      | kid # rest \<Rightarrow> vtag kid = ''video'' \<and> vstr kid ''call-id'' = i \<and>
          atoi_value (vstr kid ''state'') \<in> {VideoStateEnabled, VideoStateUpgradeAccept})"
| "opens env i (Dial target video) w = (newCallID env (length (trace w)) = i)"
| "opens env i (OnHandle a AcceptVideo) w = (a < length (heap w) \<and> call_id (heap w ! a) = i)"
| "opens env i (OnHandle a (SetVideoEnabled b)) w = (a < length (heap w) \<and> call_id (heap w ! a) = i \<and> b)"
| "opens env i _ w = False"

fun stays_shut :: "'j dial_env \<Rightarrow> string \<Rightarrow> 'j op list \<Rightarrow> 'j engine \<Rightarrow> bool" where
  "stays_shut env i [] w = True"
| "stays_shut env i (x # xs) w =
     (\<not> opens env i x w \<and> (case engine_step env x w of None \<Rightarrow> True | Some w1 \<Rightarrow> stays_shut env i xs w1))"

lemma install_shut:
  assumes "install env' ev w = Some w'" "\<not> opens env i (Event ev) w"
  shows "shut i w w'"
proof (cases ev)
  case (CallNode v)
  have "shut i w (snd (onCallRaw env' v w))"
    by (rule shut_onCallRaw) (use assms(2) CallNode in auto)
  then show ?thesis using assms(1) CallNode by simp
qed (use assms in \<open>auto simp: shut_onPreAccept shut_onAccept shut_onTerminate shut_onReject shut_refl split: if_splits
      dest: onOffer_shut onRelay_shut onCallAck_shut intro: shut_trans [OF onRelay_shut shut_onRelayLatency]\<close>)

lemma shut_handle:
  assumes "\<not> opens env i (OnHandle a h) w" "a < length (heap w)"
  shows "shut i w (handle_step env' a h w)"
  using assms by (cases h) (auto intro!: shut_answer shut_reject shut_hangup shut_transitionVideo shut_setVideoEnabled
      shut_setVideoOrientation shut_sendVideoFrame shut_sendReaction shut_on_call shut_media
      simp: VideoStateUpgradeRequestV2_def VideoStateUpgradeAccept_def VideoStateStopped_def)

lemma step_shut:
  assumes "engine_step env x w = Some w'" "\<not> opens env i x w"
  shows "shut i w w'"
proof (cases x)
  case (Event ev)
  then show ?thesis using assms install_shut [of "env.truncate env" ev w w' env i] by simp
next
  case (OnHandle a h)
  then show ?thesis using assms shut_handle [of env i a h w "env.truncate env"] by (auto simp: shut_refl split: if_splits)
next
  case (IncomingListener fn)
  then show ?thesis using assms(1) by (auto simp: OnIncomingCall_def shut_def gated_def)
qed (use assms in \<open>auto intro: shut_media shut_placeCall\<close>)

lemma run_shut: "engine_run env ops w = Some w' \<Longrightarrow> stays_shut env i ops w \<Longrightarrow> shut i w w'"
proof (induction ops arbitrary: w)
  case (Cons x xs)
  then obtain w1 where "engine_step env x w = Some w1" "engine_run env xs w1 = Some w'" by (auto split: option.splits)
  then show ?case using Cons step_shut [of env x w w1 i] by (auto intro: shut_trans)
qed (simp add: shut_refl)

text \<open>C3: after \<open>StartVideo\<close> on a live call no video frame leaves the engine for that call, whatever the application sends, the peer says and the media goroutines do, until the peer's state 1 or 4, the application's own accept or enable, or a new offer or dial with the same id.\<close>

theorem video_gate_holds:
  assumes "active_call w i = Some m" "engine_run env ops (snd (transitionVideo (env.truncate env) i VideoStateUpgradeRequestV2 w)) = Some w'"
    "stays_shut env i ops (snd (transitionVideo (env.truncate env) i VideoStateUpgradeRequestV2 w))"
  shows "frames_of i (drop (length (trace (snd (transitionVideo (env.truncate env) i VideoStateUpgradeRequestV2 w)))) (trace w')) = []"
  using run_shut [OF assms(2,3)] start_video_gated [OF assms(1), of "env.truncate env"]
  by (auto simp: shut_def)

text \<open>An offered audio call, upgraded, whose media goroutine registers its senders before a frame is sent.\<close>

definition example_offer :: "nat op" where
  "example_offer = Event (CallOffer ''C'' 2 2 (example_call_node ''offer'' [View ''enc'' (\<lambda>k. []) (\<lambda>k. 0) [] (OctetValue [4])]))"

definition offered :: "nat engine" where
  "offered = the (engine_run example_env [example_offer] newEngine)"

definition example_pipe :: MediaPipeline where
  "example_pipe = (let ks = \<lparr>CipherKey = [], Salt = [], AuthKey = []\<rparr> in fresh_pipeline ks ks 1 960)"

definition example_upgrade :: "nat op list" where
  "example_upgrade = [MediaSenders ''C'' example_pipe 1 example_pipe 2, OnHandle 0 (SendVideo 10 [0, 0, 0, 1, 0x65, 7] 33),
     Event (CallAccept ''C'' 2 (example_call_node ''accept'' [])), OnHandle 0 (SendVideo 10 [0, 0, 0, 1, 0x65, 7] 33)]"

lemma example_upgrade_runs:
  "active_call offered ''C'' \<noteq> None \<and>
   stays_shut example_env ''C'' example_upgrade (snd (transitionVideo (env.truncate example_env) ''C'' VideoStateUpgradeRequestV2 offered)) \<and>
   engine_run example_env example_upgrade (snd (transitionVideo (env.truncate example_env) ''C'' VideoStateUpgradeRequestV2 offered)) \<noteq> None"
  by code_simp

lemma video_gate_holds_witness:
  "\<exists>w'. engine_run example_env example_upgrade (snd (transitionVideo (env.truncate example_env) ''C'' VideoStateUpgradeRequestV2 offered)) = Some w' \<and>
    frames_of ''C'' (drop (length (trace (snd (transitionVideo (env.truncate example_env) ''C'' VideoStateUpgradeRequestV2 offered)))) (trace w')) = []"
  using example_upgrade_runs video_gate_holds [of offered "''C''" _ example_env example_upgrade] by blast

section \<open>What the handlers do not ask for\<close>

text \<open>The peer's state 4 switches local video on also when no upgrade was requested, or after \<open>StopVideo\<close>.\<close>

lemma unsolicited_accept_opens:
  assumes "calls w (vstr v ''call-id'') = Some m" "vstr v ''call-id'' \<noteq> []" "videoTx m = Some vs"
    "atoi_value (vstr v ''state'') = VideoStateUpgradeAccept" "netOk env (length (trace w))"
  shows "\<exists>m'. calls (onVideoStanza env v w) (vstr v ''call-id'') = Some m' \<and> localVideo m' \<and> \<not> videoGate m' \<and>
    videoTx m' = Some (enable vs False)"
  using assms by (auto simp: onVideoStanza_def Let_def peer_video_def send_video_state_def transmitCallNode_def
      VideoStateUpgradeAccept_def VideoStateEnabled_def VideoStateDisabled_def VideoStateStopped_def split: option.splits)

text \<open>Relay data starts the media of a call in any phase, an incoming call that nobody answered included.\<close>

lemma unanswered_call_starts_media:
  assumes "calls w i = Some m" "callKey m = Some key" "\<not> started m" "findRelay (Some data) = Some r" "parseRelayData r = Some rd"
  shows "\<exists>w'. onRelay i data w = Some w' \<and>
    StartMedia (length (trace w)) i (ec_call m) key (selfLID m) (peerLID m) rd \<in> set (trace w')"
  using assms by (auto simp: onRelay_def maybeStartMedia_def Let_def split: option.splits)

end
