(* ===== verification/MlowTables.thy ===== *)
theory MlowTables
  imports RangeCoder "HOL-Library.Signed_Division" "HOL-Library.Monad_Syntax"
begin

text \<open>
  mlow/cc_tables.go, and the table builders of mlow/celp_enc.go, mlow/lsf_seed.go and mlow/pitch_seed.go:
  the cumulative tables of the MLow codec, expanded from the embedded seeds or computed.  An \<open>int32\<close> or
  \<open>int16\<close> is an integer kept in range by \<open>wrap32\<close> and \<open>wrap16\<close> wherever the code could leave it; \<open>int64\<close>
  sums stay far below their bound.  A panic (division by zero, an index out of range) is \<open>None\<close>.  The
  inflated seeds are parameters: they are binary assets.
\<close>

section \<open>Fixed-point primitives\<close>

definition wrap32 :: "int \<Rightarrow> int" where "wrap32 = signed_take_bit 31"
definition wrap16 :: "int \<Rightarrow> int" where "wrap16 = signed_take_bit 15"

definition ccMaxPulsesPerSf :: int where "ccMaxPulsesPerSf = 40"
definition ccRunlengthStep :: int where "ccRunlengthStep = 8"
definition ccNumRunlenCmfs :: int where "ccNumRunlenCmfs = 20"
definition ccSplitNumTables :: int where "ccSplitNumTables = ccMaxPulsesPerSf * 4 - 1"
definition ccFcbgOffsetSteps :: nat where "ccFcbgOffsetSteps = 176"
definition ccFcbgOffsetBuckets :: int where "ccFcbgOffsetBuckets = 4"
definition ccAcbgN :: nat where "ccAcbgN = 16"
definition ccFcbgVN :: int where "ccFcbgVN = 34"

definition ccSmulbb :: "int \<Rightarrow> int \<Rightarrow> int" where
  "ccSmulbb a b = wrap32 (wrap16 a * wrap16 b)"

definition ccSmlawb :: "int \<Rightarrow> int \<Rightarrow> int \<Rightarrow> int" where
  "ccSmlawb a b c = wrap32 (a + b * wrap16 c div 2 ^ 16)"

text \<open>\<open>bits.LeadingZeros32\<close>.\<close>

definition LeadingZeros32 :: "u32 \<Rightarrow> int" where
  "LeadingZeros32 u = int (length (takeWhile (\<lambda>i. \<not> bit u i) (rev [0..<32])))"

definition ccClzFrac :: "int \<Rightarrow> int \<times> int" where
  "ccClzFrac x =
     (let u = word_of_int x :: u32; lz = LeadingZeros32 u
      in (lz, uint (word_rotr (nat ((24 - lz) mod 32)) u AND 0x7f)))"

definition ccLin2log :: "int \<Rightarrow> int" where
  "ccLin2log x =
     (let (lz, fracQ7) = ccClzFrac x
      in wrap32 (ccSmlawb fracQ7 (wrap32 (fracQ7 * (128 - fracQ7))) 179 + (31 - lz) * 128))"

definition ccLog2lin :: "int \<Rightarrow> int" where
  "ccLog2lin inLogQ7 =
     (if inLogQ7 < 0 then 0
      else if 3967 \<le> inLogQ7 then 0x7fffffff
      else
        let out = 2 ^ nat (inLogQ7 div 128);
            fracQ7 = inLogQ7 mod 128;
            inner = ccSmlawb fracQ7 (ccSmulbb fracQ7 (128 - fracQ7)) (- 174)
        in if inLogQ7 < 2048 then wrap32 (out + wrap32 (out * inner) div 128)
           else wrap32 (out + wrap32 (out div 128 * inner)))"

definition ccSigmQ15 :: "int \<Rightarrow> int" where
  "ccSigmQ15 inQ5 =
     (let slope = [237, 153, 73, 30, 12, 7]; pos = [16384, 23955, 28861, 31213, 32178, 32548];
          neg = [16384, 8812, 3906, 1554, 589, 219]
      in if inQ5 < 0 then
           let v = wrap32 (- inQ5)
           in if 192 \<le> v then 0
              else let ind = nat (v div 32) in neg ! ind - ccSmulbb (slope ! ind) (v mod 32)
         else if 192 \<le> inQ5 then 32767
         else let ind = nat (inQ5 div 32) in pos ! ind + ccSmulbb (slope ! ind) (inQ5 mod 32))"

section \<open>Cumulative tables\<close>

fun pdf_loop :: "int \<Rightarrow> int \<Rightarrow> u16 \<Rightarrow> int list \<Rightarrow> u16 list" where
  "pdf_loop n sump prev [] = []"
| "pdf_loop n sump prev (x # xs) =
     (let c = word_of_int (wrap32 (uint prev + wrap32 (x * (32767 - n) sdiv sump + 1)))
      in c # pdf_loop n sump c xs)"

definition pdfToCmf :: "int list \<Rightarrow> u16 list option" where
  "pdfToCmf pdf =
     (let sump = sum_list pdf
      in if pdf \<noteq> [] \<and> sump = 0 then None else Some (0 # pdf_loop (int (length pdf)) sump 0 pdf))"

text \<open>The first loop of the DCMF expansions: a byte stands for the square of its successor, clipped.\<close>

definition dcmf_square :: "u8 \<Rightarrow> int" where
  "dcmf_square b = (let tmp = (uint b + 1) * (uint b + 1) in if 65535 < tmp then 65535 else tmp)"

fun celp_loop :: "int \<Rightarrow> int \<Rightarrow> u16 \<Rightarrow> u8 list \<Rightarrow> u16 list" where
  "celp_loop n s prev [] = []"
| "celp_loop n s prev (b # bs) =
     (let c = prev + word_of_int (wrap32 (dcmf_square b * (32767 - n)) sdiv s) + 1
      in c # celp_loop n s c bs)"

definition celpDcmfToCmf :: "bytes \<Rightarrow> u16 list option" where
  "celpDcmfToCmf dcmf =
     (let s = wrap32 (sum_list (map dcmf_square dcmf))
      in if dcmf \<noteq> [] \<and> s = 0 then None else Some (0 # celp_loop (int (length dcmf)) s 0 dcmf))"

fun lsf_loop :: "int \<Rightarrow> int \<Rightarrow> u16 \<Rightarrow> u8 list \<Rightarrow> u16 list" where
  "lsf_loop n s prev [] = []"
| "lsf_loop n s prev (b # bs) =
     (let c = word_of_int (uint prev + (dcmf_square b * (32767 - n) sdiv s + 1))
      in c # lsf_loop n s c bs)"

definition lsfDcmfToCmf :: "bytes \<Rightarrow> u16 list" where
  "lsfDcmfToCmf dcmf = 0 # lsf_loop (int (length dcmf)) (sum_list (map dcmf_square dcmf)) 0 dcmf"

fun pitch_loop :: "int \<Rightarrow> int \<Rightarrow> u32 \<Rightarrow> u8 list \<Rightarrow> u32 list" where
  "pitch_loop n s prev [] = []"
| "pitch_loop n s prev (b # bs) =
     (let c = word_of_int (uint prev + (dcmf_square b * (32767 - n) sdiv s + 1))
      in c # pitch_loop n s c bs)"

definition pitchDcmfToCmf :: "bytes \<Rightarrow> u32 list" where
  "pitchDcmfToCmf dcmf = 0 # pitch_loop (int (length dcmf)) (sum_list (map dcmf_square dcmf)) 0 dcmf"

section \<open>The pulse tables\<close>

definition ccStirling :: "int \<Rightarrow> int" where
  "ccStirling n =
     (if n = 0 then 0
      else
        let ret = wrap32 (wrap32 (n * 2 + 1) * wrap32 (ccLin2log n * 128));
            ret1 = wrap32 (ret - wrap32 (47274 * n));
            ret2 = wrap32 (ret1 + 43442)
        in wrap32 (ret2 + 47274 sdiv wrap32 (12 * n)))"

definition ccProbSplitFast :: "int \<Rightarrow> int \<Rightarrow> int option" where
  "ccProbSplitFast k n =
     (let tmp = wrap32 (wrap32 (wrap32 (ccStirling n - ccStirling k) - ccStirling (n - k)) - wrap32 (n * 32768))
      in if tmp = 0 then Some (2 ^ 30)
         else
           let ret = ccLog2lin (wrap32 (- tmp) div 256)
           in if ret = 0 then None else Some (2 ^ 30 sdiv ret))"

fun all_some :: "'a option list \<Rightarrow> 'a list option" where
  "all_some [] = Some []"
| "all_some (x # xs) = (case x of None \<Rightarrow> None | Some y \<Rightarrow> map_option ((#) y) (all_some xs))"

definition split_pdf :: "int \<Rightarrow> int list option" where
  "split_pdf numPulses =
     (let minSplit = max 0 (numPulses - ccMaxPulsesPerSf * 2); maxSplit = numPulses - minSplit
      in all_some (map (\<lambda>k. ccProbSplitFast k numPulses) [minSplit..maxSplit]))"

definition ccCreateSplitCmfs :: "u16 list list option" where
  "ccCreateSplitCmfs = all_some (map (\<lambda>n. Option.bind (split_pdf n) pdfToCmf) [1..ccSplitNumTables])"

record runlenCmfs =
  maxSamples :: int
  cmfs :: "u16 list list"

fun repeat_mul :: "nat \<Rightarrow> int \<Rightarrow> int \<Rightarrow> int" where
  "repeat_mul 0 tmp p = p"
| "repeat_mul (Suc n) tmp p = repeat_mul n tmp (p * tmp div 2 ^ 31)"

text \<open>The probability that a run ends at sample \<open>nums\<close>, of \<open>nump\<close> pulses in \<open>ms\<close> samples.\<close>

definition run_end :: "int \<Rightarrow> int \<Rightarrow> int \<Rightarrow> int" where
  "run_end ms nump nums =
     (let tmp = 2 ^ 31 - 2 ^ 31 sdiv (ms - nums + 1);
          p1 = min (2 ^ 31 - repeat_mul (nat (nump - 1)) tmp tmp) 2147376274;
          logOutQ7 =
            (if ms < nump then wrap32 (ccLin2log (wrap32 (nump * 1024) sdiv ms) - 10 * 128)
             else wrap32 (- (ccLin2log (wrap32 (ms * 1024) sdiv nump) - 10 * 128)));
          scaleFacQ15 = 36000 - wrap32 (10000 * ccSigmQ15 (logOutQ7 div 4 + 146)) div 32768;
          expo = wrap32 (scaleFacQ15 * (ccLin2log (wrap32 (2 ^ 31 - p1)) - 31 * 128)) div 32768 + 31 * 128
      in min (2 ^ 31 - ccLog2lin expo) 2147376274)"

fun run_pdf :: "int \<Rightarrow> int \<Rightarrow> int \<Rightarrow> int list \<Rightarrow> int list" where
  "run_pdf ms nump plonger [] = []"
| "run_pdf ms nump plonger (nums # r) =
     (let p1 = run_end ms nump nums
      in wrap32 (plonger * p1 div 2 ^ 31) # run_pdf ms nump (plonger * (2 ^ 31 - p1) div 2 ^ 31) r)"

definition ccCreateRunlenTable :: "int \<Rightarrow> runlenCmfs option" where
  "ccCreateRunlenTable ms =
     map_option (\<lambda>cs. \<lparr>maxSamples = ms, cmfs = cs\<rparr>)
       (all_some (map (\<lambda>nump. pdfToCmf (run_pdf ms nump (2 ^ 31) [1..ms])) [1..ccMaxPulsesPerSf]))"

section \<open>The packed seeds\<close>

text \<open>
  The protobuf reader of the seeds.  The rest of the input stands for the index \<open>i\<close>; a length that leaves
  the range of \<open>int\<close> makes the slice expression panic.
\<close>

record protoField =
  wire :: nat
  varint :: u64
  fieldBytes :: bytes

fun readVarint :: "u64 \<Rightarrow> nat \<Rightarrow> bytes \<Rightarrow> (u64 \<times> bytes) option" where
  "readVarint v shift [] = None"
| "readVarint v shift (c # b) =
     (let w = v OR push_bit shift (ucast (c AND 0x7f))
      in if c AND 0x80 = 0 then Some (w, b) else readVarint w (shift + 7) b)"

lemma readVarint_shorter: "readVarint v shift b = Some (w, r) \<Longrightarrow> length r < length b"
  by (induction v shift b rule: readVarint.induct) (fastforce simp: Let_def split: if_splits)+

function parse_fields :: "nat \<Rightarrow> bytes \<Rightarrow> (nat \<rightharpoonup> protoField) \<Rightarrow> (nat \<rightharpoonup> protoField) option" where
  "parse_fields n b out =
     (case readVarint 0 0 b of
        None \<Rightarrow> Some out
      | Some (key, r) \<Rightarrow>
          let field = unat (drop_bit 3 key); w = unat (key AND 7)
          in if w = 0 then
               (case readVarint 0 0 r of
                  None \<Rightarrow> Some out
                | Some (v, r1) \<Rightarrow> parse_fields n r1 (out(field \<mapsto> \<lparr>wire = 0, varint = v, fieldBytes = []\<rparr>)))
             else if w = 2 then
               (case readVarint 0 0 r of
                  None \<Rightarrow> Some out
                | Some (ln, r1) \<Rightarrow>
                    if 2 ^ 63 \<le> int (n - length r1) + uint ln then None
                    else if length r1 < unat ln then Some out
                    else parse_fields n (drop (unat ln) r1)
                           (out(field \<mapsto> \<lparr>wire = 2, varint = 0, fieldBytes = take (unat ln) r1\<rparr>)))
             else Some out)"
  by pat_completeness auto

termination
  by (relation "measure (\<lambda>(n, b, out). length b)") (auto dest!: readVarint_shorter)

declare parse_fields.simps [simp del]

definition parseProto :: "bytes \<Rightarrow> (nat \<rightharpoonup> protoField) option" where
  "parseProto b = parse_fields (length b) b Map.empty"

definition field_bytes :: "(nat \<rightharpoonup> protoField) \<Rightarrow> nat \<Rightarrow> bytes" where
  "field_bytes f k = (case f k of None \<Rightarrow> [] | Some p \<Rightarrow> fieldBytes p)"

definition field_varint :: "(nat \<rightharpoonup> protoField) \<Rightarrow> nat \<Rightarrow> u64" where
  "field_varint f k = (case f k of None \<Rightarrow> 0 | Some p \<Rightarrow> varint p)"

text \<open>A packed varint that the field cuts short still counts, with the bits read so far.\<close>

fun packed_varint :: "u64 \<Rightarrow> nat \<Rightarrow> bytes \<Rightarrow> u64 \<times> bytes" where
  "packed_varint v shift [] = (v, [])"
| "packed_varint v shift (c # b) =
     (let w = v OR push_bit shift (ucast (c AND 0x7f))
      in if c AND 0x80 = 0 then (w, b) else packed_varint w (shift + 7) b)"

lemma packed_varint_shorter: "length (snd (packed_varint v shift b)) \<le> length b - 1"
  by (induction v shift b rule: packed_varint.induct) (auto simp: Let_def)

function packed_varints :: "bytes \<Rightarrow> u64 list" where
  "packed_varints b = (if b = [] then [] else let (v, r) = packed_varint 0 0 b in v # packed_varints r)"
  by pat_completeness auto

termination
proof (relation "measure length", goal_cases)
  case (2 b p v r)
  then have "length r \<le> length b - 1" using packed_varint_shorter [of 0 0 b] by (metis snd_conv)
  with 2 show ?case by (cases b) auto
qed simp

declare packed_varints.simps [simp del]

definition decodeZigzagVarints :: "bytes \<Rightarrow> int list" where
  "decodeZigzagVarints b = map (\<lambda>v. sint (ucast (drop_bit 1 v XOR - (v AND 1)) :: 32 word)) (packed_varints b)"

definition decodeVarintsU32 :: "bytes \<Rightarrow> u32 list" where
  "decodeVarintsU32 b = map ucast (packed_varints b)"

record ccSeed =
  nrgresGain4Dcmf :: bytes
  nrgresShape4Dcmf :: bytes
  fcbgOffsetDcmf :: bytes
  acbgainsHrDcmf :: bytes
  fcbgainsVDcmf :: bytes
  fcbgainsVDeltaDcmf :: bytes
  seedCbHrQ14 :: "int list"
  seedReconBase :: u32
  seedRecon :: bytes
  nPulsesDcmfBgn :: bytes
  nPulsesDcmfUv :: bytes
  nPulsesDcmfV :: bytes

definition loadCcSeed :: "bytes \<Rightarrow> ccSeed option" where
  "loadCcSeed raw =
     map_option (\<lambda>f.
       \<lparr>nrgresGain4Dcmf = field_bytes f 1, nrgresShape4Dcmf = field_bytes f 2, fcbgOffsetDcmf = field_bytes f 3,
        acbgainsHrDcmf = field_bytes f 4, fcbgainsVDcmf = field_bytes f 5, fcbgainsVDeltaDcmf = field_bytes f 6,
        seedCbHrQ14 = decodeZigzagVarints (field_bytes f 7), seedReconBase = ucast (field_varint f 8),
        seedRecon = field_bytes f 9, nPulsesDcmfBgn = field_bytes f 10, nPulsesDcmfUv = field_bytes f 11,
        nPulsesDcmfV = field_bytes f 12\<rparr>)
     (parseProto raw)"

section \<open>The runtime tables\<close>

definition ccNrgresGain2Dcmf :: bytes where
  "ccNrgresGain2Dcmf =
    [139, 194, 196, 200, 209, 225, 239, 243, 246, 246, 253, 255, 253, 249, 244, 239, 233, 231, 230, 228, 219,
     216, 214, 214, 213, 211, 214, 215, 220, 223, 230, 234, 237, 240, 242, 244, 245, 245, 246, 242, 237, 230,
     220, 210, 190, 170, 148, 125, 104, 83, 64, 49, 36, 22, 14, 8, 8, 8, 8, 8, 8, 8, 8, 8, 8, 8, 8, 8, 8, 8, 8]"

definition ccNrgresShape2Dcmf :: bytes where
  "ccNrgresShape2Dcmf =
    [47, 52, 137, 58, 61, 21, 73, 240, 55, 95, 255, 68, 83, 108, 48, 50, 49, 45, 35, 155, 31, 41]"

definition celpAcbgainsDcmfLR :: bytes where
  "celpAcbgainsDcmfLR =
    [103, 70, 48, 3, 122, 135, 47, 192, 2, 255, 99, 96, 186, 194, 4, 28, 161, 90, 76, 3, 181, 60, 37, 219, 2,
     132, 81, 146, 255, 43, 3, 36, 114, 222, 55, 6, 203, 34, 42, 154, 6, 255, 33, 209, 225, 78, 6, 45, 198,
     161, 110, 8, 239, 26, 35, 162, 4, 117, 42, 214, 255, 33, 6, 72, 55, 255, 124, 55, 124, 55, 55, 55, 55,
     78, 55, 215, 111, 55, 55, 167, 154, 136, 77, 4, 220, 33, 38, 166, 2, 144, 50, 196, 255, 43, 4, 41, 56,
     21, 19, 3, 48, 255, 38, 220, 2, 225, 107, 31, 122, 227, 2, 11, 63, 38, 23, 4, 77, 85, 58, 190, 4, 255,
     53, 53, 145, 138, 4, 14, 95, 47, 33, 2, 110, 146, 53, 255, 2, 219, 79, 73, 198, 122, 2, 15, 84, 255, 84,
     84, 147, 84, 84, 84, 84, 120, 84, 120, 84, 84, 84, 84, 73, 58, 25, 1, 95, 99, 52, 175, 1, 255, 48, 69,
     151, 184, 1, 15, 105, 32, 43, 2, 84, 225, 34, 255, 2, 156, 129, 49, 189, 124, 3, 19, 152, 230, 89, 6,
     253, 28, 40, 153, 2, 195, 31, 255, 249, 58, 5, 61, 138, 84, 54, 3, 173, 96, 45, 247, 2, 176, 83, 128,
     255, 69, 2, 26, 22, 17, 8, 1, 23, 106, 26, 88, 1, 182, 37, 18, 50, 255, 1, 6, 218, 174, 228, 65, 186,
     65, 65, 92, 65, 65, 65, 255, 174, 65, 65, 174, 117, 255, 101, 16, 180, 20, 33, 94, 10, 131, 20, 222,
     143, 38, 15, 105]"

definition cbAcbgainsLRQ14 :: "int list" where
  "cbAcbgainsLRQ14 =
    [2812, 2484, 0, 0, - 362, 2465, - 337, 703, 3033, 1474, 13536, 220, - 2630, 9226, 6032, 3499, - 220, 441,
     7661, 4243, 11521, 0, 1430, 779, 4495, 2724, 15535, 343, - 779, 1559, 480, 481]"

definition ccDcmf :: "bytes \<Rightarrow> u16 list option" where
  "ccDcmf dcmf = celpDcmfToCmf dcmf"

text \<open>The slices \<open>b[i:i+step]\<close> of whole chunks.\<close>

definition chunks :: "nat \<Rightarrow> 'a list \<Rightarrow> 'a list list" where
  "chunks step b = map (\<lambda>i. take step (drop (i * step) b)) [0..<length b div step]"

definition ccDcmfChunks :: "bytes \<Rightarrow> nat \<Rightarrow> u16 list list option" where
  "ccDcmfChunks b step = all_some (map ccDcmf (chunks step b))"

record CcTables =
  nrgresGain2 :: "u16 list"
  nrgresShape2 :: "u16 list"
  nrgresGain4 :: "u16 list"
  nrgresShape4 :: "u16 list"
  fcbgOffset :: "u16 list list"
  acbgainsHr :: "u16 list"
  acbgainsLr :: "u16 list"
  fcbgainsV :: "u16 list"
  fcbgainsVDelta :: "u16 list"
  acbgainsCbHrQ14 :: "int list"
  acbgainsCbLrQ14 :: "int list"
  gainRecon :: "int list"
  gainReconBase :: u32
  nPulseCmfs :: "u16 list list"
  splitCmfs :: "u16 list list"
  runlen :: "runlenCmfs list"

fun int16_le :: "bytes \<Rightarrow> int list" where
  "int16_le (l # h # b) = sint (ucast l OR push_bit 8 (ucast h) :: 16 word) # int16_le b"
| "int16_le _ = []"

definition build :: "ccSeed \<Rightarrow> CcTables option" where
  "build s = do {
     gain2 \<leftarrow> ccDcmf ccNrgresGain2Dcmf;
     shape2 \<leftarrow> ccDcmf ccNrgresShape2Dcmf;
     gain4 \<leftarrow> ccDcmf (nrgresGain4Dcmf s);
     shape4 \<leftarrow> ccDcmf (nrgresShape4Dcmf s);
     offset \<leftarrow> ccDcmfChunks (fcbgOffsetDcmf s) ccFcbgOffsetSteps;
     gv \<leftarrow> ccDcmf (fcbgainsVDcmf s);
     gvd \<leftarrow> ccDcmf (fcbgainsVDeltaDcmf s);
     hr \<leftarrow> ccDcmfChunks (acbgainsHrDcmf s) ccAcbgN;
     lr \<leftarrow> ccDcmfChunks celpAcbgainsDcmfLR ccAcbgN;
     np \<leftarrow> all_some (map ccDcmf [nPulsesDcmfBgn s, nPulsesDcmfUv s, nPulsesDcmfV s]);
     sp \<leftarrow> ccCreateSplitCmfs;
     rl \<leftarrow> all_some (map (\<lambda>oct. ccCreateRunlenTable (oct * ccRunlengthStep)) [1..ccNumRunlenCmfs]);
     Some \<lparr>nrgresGain2 = gain2, nrgresShape2 = shape2, nrgresGain4 = gain4, nrgresShape4 = shape4,
       fcbgOffset = offset, acbgainsHr = concat hr, acbgainsLr = concat lr, fcbgainsV = gv, fcbgainsVDelta = gvd,
       acbgainsCbHrQ14 = map wrap16 (seedCbHrQ14 s), acbgainsCbLrQ14 = cbAcbgainsLRQ14,
       gainRecon = int16_le (seedRecon s), gainReconBase = seedReconBase s, nPulseCmfs = np, splitCmfs = sp,
       runlen = rl\<rparr>
   }"

section \<open>Access\<close>

text \<open>
  An index that may be negative, and the slice \<open>xs[a:b]\<close>; out of range is a panic (Go would still let a
  slice expression reach into spare capacity, which the tables of the code never need).
\<close>

definition at :: "'a list \<Rightarrow> int \<Rightarrow> 'a option" where
  "at xs i = (if 0 \<le> i \<and> i < int (length xs) then Some (xs ! nat i) else None)"

definition slice_at :: "'a list \<Rightarrow> int \<Rightarrow> int \<Rightarrow> 'a list option" where
  "slice_at xs a b = (if 0 \<le> a \<and> a \<le> b \<and> b \<le> int (length xs) then Some (slice xs (nat a) (nat b)) else None)"

definition NrgresGain :: "CcTables \<Rightarrow> int \<Rightarrow> u16 list" where
  "NrgresGain t numSubframes = (if numSubframes = 2 then nrgresGain2 t else nrgresGain4 t)"

definition NrgresShape :: "CcTables \<Rightarrow> int \<Rightarrow> u16 list" where
  "NrgresShape t numSubframes = (if numSubframes = 2 then nrgresShape2 t else nrgresShape4 t)"

definition FcbgOffset :: "CcTables \<Rightarrow> int \<Rightarrow> int \<Rightarrow> int \<Rightarrow> u16 list option" where
  "FcbgOffset t tableIx bucket minOffset =
     Option.bind (at (fcbgOffset t) (tableIx * ccFcbgOffsetBuckets + bucket)) (\<lambda>row. slice_at row minOffset (minOffset + 92))"

definition AcbgainRow :: "CcTables \<Rightarrow> int \<Rightarrow> u16 list option" where
  "AcbgainRow t prev =
     (let base = (prev + 1) * (int ccAcbgN + 1) in slice_at (acbgainsHr t) base (base + int ccAcbgN + 1))"

definition AcbgainRowLr :: "CcTables \<Rightarrow> int \<Rightarrow> u16 list option" where
  "AcbgainRowLr t prev =
     (let base = (prev + 1) * (int ccAcbgN + 1) in slice_at (acbgainsLr t) base (base + int ccAcbgN + 1))"

definition AcbgainWeights :: "CcTables \<Rightarrow> int \<Rightarrow> (int \<times> int) option" where
  "AcbgainWeights t gi =
     Option.bind (at (acbgainsCbHrQ14 t) (gi * 2)) (\<lambda>a. map_option (Pair a) (at (acbgainsCbHrQ14 t) (gi * 2 + 1)))"

definition AcbgainWeightsLr :: "CcTables \<Rightarrow> int \<Rightarrow> (int \<times> int) option" where
  "AcbgainWeightsLr t gi =
     Option.bind (at (acbgainsCbLrQ14 t) (gi * 2)) (\<lambda>a. map_option (Pair a) (at (acbgainsCbLrQ14 t) (gi * 2 + 1)))"

definition FcbgainV :: "CcTables \<Rightarrow> u16 list" where
  "FcbgainV t = fcbgainsV t"

definition FcbgainVDelta :: "CcTables \<Rightarrow> int \<Rightarrow> u16 list option" where
  "FcbgainVDelta t prevFilt = (let start = ccFcbgVN - 1 - prevFilt in slice_at (fcbgainsVDelta t) start (start + 35))"

definition gainReconAt :: "CcTables \<Rightarrow> u32 \<Rightarrow> int" where
  "gainReconAt t addr =
     (let off = unat (addr - gainReconBase t)
      in if off mod 2 = 0 \<and> off div 2 < length (gainRecon t) then gainRecon t ! (off div 2) else 0)"

definition NrgStep :: "CcTables \<Rightarrow> int \<Rightarrow> int" where
  "NrgStep t cfg = gainReconAt t (gainReconBase t + word_of_int cfg * 2)"

definition GainRecon :: "CcTables \<Rightarrow> bool \<Rightarrow> int \<Rightarrow> int" where
  "GainRecon t p4 idx = gainReconAt t ((if p4 then 0xf35f0 else 0xf3970) + word_of_int idx * 2)"

definition NPulseCount :: "CcTables \<Rightarrow> int \<Rightarrow> u16 list option" where
  "NPulseCount t idx = at (nPulseCmfs t) idx"

definition SplitCmf :: "CcTables \<Rightarrow> int \<Rightarrow> u16 list" where
  "SplitCmf t total' =
     (let i = total' - 1 in if i < 0 \<or> int (length (splitCmfs t)) \<le> i then [] else splitCmfs t ! nat i)"

definition Runlen :: "CcTables \<Rightarrow> int \<Rightarrow> runlenCmfs option" where
  "Runlen t oct = at (runlen t) (oct - 1)"

definition Cmf :: "runlenCmfs \<Rightarrow> int \<Rightarrow> u16 list option" where
  "Cmf r c = at (cmfs r) (c - 1)"

text \<open>A negative length makes \<open>make\<close> panic.\<close>

definition cdfWindow :: "u16 list \<Rightarrow> int \<Rightarrow> int \<Rightarrow> u16 list option" where
  "cdfWindow base start n =
     (if n < 0 then None
      else Some (map (\<lambda>i. let j = start + i in if 0 \<le> j \<and> j < int (length base) then base ! nat j else 0) [0..n - 1]))"

end
