(* ===== verification/MlowTablesOk.thy ===== *)
theory MlowTablesOk
  imports MlowTables RangeTotal
begin

text \<open>
  The tables of \<open>MlowTables\<close> are range coder tables: every expansion starts at 0 and grows strictly, so
  every symbol has a positive frequency, whatever the bytes of the seed are.
\<close>

section \<open>Tables and windows\<close>

definition cdf_table :: "u16 list \<Rightarrow> bool" where
  "cdf_table c \<longleftrightarrow> 2 \<le> length c \<and> length c \<le> 32768 \<and> sorted_wrt (<) c"

lemma cdf_table_sorted: "cdf_table c \<Longrightarrow> sorted c"
  by (auto simp: cdf_table_def intro: strict_sorted_imp_sorted)

lemma cdf_table_shape:
  assumes "cdf_table c"
  shows "shape_ok (CdfShape c)"
proof -
  have l: "2 \<le> length c" "sorted_wrt (<) c" using assms by (simp_all add: cdf_table_def)
  then have "c ! 0 < c ! (length c - 1)" by (intro sorted_wrt_nth_less [OF l(2)]) auto
  moreover have "c \<noteq> []" using l by auto
  ultimately show ?thesis
    using cdf_table_sorted [OF assms] assms by (simp add: hd_conv_nth last_conv_nth cdf_table_def)
qed

lemma cdf_table_symbol: "cdf_table c \<Longrightarrow> Suc k < length c \<Longrightarrow> cdf_ok (c, k)"
  using cdf_table_sorted [of c] by (auto simp: cdf_table_def cdf_ok_def sorted_wrt_iff_nth_less)

lemma cdf_table_slice: "cdf_table c \<Longrightarrow> a + 2 \<le> b \<Longrightarrow> b \<le> length c \<Longrightarrow> cdf_table (slice c a b)"
  by (auto simp: cdf_table_def slice_def intro!: sorted_wrt_take sorted_wrt_drop)

lemma slice_at_table:
  "cdf_table c \<Longrightarrow> 0 \<le> a \<Longrightarrow> a + 2 \<le> b \<Longrightarrow> b \<le> int (length c) \<Longrightarrow>
   \<exists>w. slice_at c a b = Some w \<and> cdf_table w \<and> int (length w) = b - a"
  using cdf_table_slice [of c "nat a" "nat b"] by (auto simp: slice_at_def)

lemma window_slice:
  assumes "0 \<le> start" "start + n \<le> int (length c)" "0 \<le> n"
  shows "cdfWindow c start n = Some (slice c (nat start) (nat (start + n)))"
proof -
  have "map (\<lambda>i. let j = start + i in if 0 \<le> j \<and> j < int (length c) then c ! nat j else 0) [0..n - 1] =
      slice c (nat start) (nat (start + n))"
  proof (rule nth_equalityI)
    fix i assume "i < length (map (\<lambda>i. let j = start + i in if 0 \<le> j \<and> j < int (length c) then c ! nat j else 0) [0..n - 1])"
    then have i: "int i < n" by simp
    then have "nat (start + int i) = nat start + i" using assms(1) by simp
    then show "map (\<lambda>i. let j = start + i in if 0 \<le> j \<and> j < int (length c) then c ! nat j else 0) [0..n - 1] ! i =
        slice c (nat start) (nat (start + n)) ! i"
      using assms i by (simp add: slice_def Let_def)
  qed (use assms in \<open>simp add: nat_add_distrib\<close>)
  then show ?thesis using assms by (simp add: cdfWindow_def)
qed

lemma window_table:
  assumes "cdf_table c" "0 \<le> start" "2 \<le> n" "start + n \<le> int (length c)"
  shows "\<exists>w. cdfWindow c start n = Some w \<and> cdf_table w \<and> int (length w) = n"
  using window_slice [of start n c] cdf_table_slice [of c "nat start" "nat (start + n)"] assms
  by (auto simp: nat_le_iff)

section \<open>Prefix sums\<close>

fun cums :: "nat \<Rightarrow> nat list \<Rightarrow> nat list" where
  "cums a [] = []"
| "cums a (p # ps) = (a + p) # cums (a + p) ps"

lemma cums_bound: "x \<in> set (cums a ps) \<Longrightarrow> x \<le> a + sum_list ps"
  by (induction a ps rule: cums.induct) auto

lemma length_cums [simp]: "length (cums a ps) = length ps"
  by (induction a ps rule: cums.induct) auto

lemma cums_above: "x \<in> set (cums a ps) \<Longrightarrow> list_all (\<lambda>p. 0 < p) ps \<Longrightarrow> a < x"
  by (induction a ps rule: cums.induct) (auto intro: less_trans)

lemma cums_sorted: "list_all (\<lambda>p. 0 < p) ps \<Longrightarrow> sorted_wrt (<) (a # cums a ps)"
  by (induction a ps rule: cums.induct) (auto dest: cums_above)

lemma share_sum: "sum_list (map (\<lambda>x. x * m div s) xs) * s \<le> sum_list xs * (m :: nat)"
proof (induction xs)
  case (Cons x xs)
  have "x * m div s * s \<le> x * m" by simp
  from add_mono [OF this Cons] have "x * m div s * s + (\<Sum>x\<leftarrow>xs. x * m div s) * s \<le> x * m + sum_list xs * m" .
  then show ?case by (simp only: list.map sum_list.Cons add_mult_distrib)
qed simp

definition shares :: "nat \<Rightarrow> nat list \<Rightarrow> nat list" where
  "shares n xs = map (\<lambda>x. x * (32767 - n) div sum_list xs + 1) xs"

lemma shares_total: "length xs \<le> 32767 \<Longrightarrow> sum_list (shares (length xs) xs) \<le> 32767"
proof -
  assume l: "length xs \<le> 32767"
  let ?q = "sum_list (map (\<lambda>x. x * (32767 - length xs) div sum_list xs) xs)"
  have "?q \<le> 32767 - length xs"
  proof (cases "sum_list xs = 0")
    case False
    have "?q * sum_list xs \<le> (32767 - length xs) * sum_list xs"
      using share_sum [of "32767 - length xs" "sum_list xs" xs] by (simp only: mult.commute)
    with False show ?thesis by (simp only: mult_le_cancel2)
  next
    case True
    then show ?thesis by (simp only: div_by_0 sum_list_0)
  qed
  moreover have "sum_list (shares (length xs) xs) = ?q + length xs"
    by (simp add: shares_def sum_list_Suc)
  ultimately show ?thesis using l by simp
qed

lemma cums_table:
  assumes "xs \<noteq> []" "length xs \<le> 32767"
  shows "cdf_table (map of_nat (0 # cums 0 (shares (length xs) xs)))"
proof -
  let ?c = "0 # cums 0 (shares (length xs) xs)"
  have s: "sorted_wrt (<) ?c" by (rule cums_sorted) (simp add: shares_def list.pred_map list_all_iff)
  have b: "x \<le> 32767" if "x \<in> set ?c" for x
    using that cums_bound [of x 0 "shares (length xs) xs"] shares_total [OF assms(2)] by auto
  have "sorted_wrt (\<lambda>x y. (of_nat x :: u16) < of_nat y) ?c"
  proof (rule sorted_wrt_mono_rel [OF _ s])
    fix x y assume "x \<in> set ?c" "y \<in> set ?c" "x < y"
    with b [of x] b [of y] show "(of_nat x :: u16) < of_nat y"
      by (simp add: word_less_nat_alt unat_of_nat)
  qed
  then show ?thesis using assms by (cases xs) (auto simp: cdf_table_def sorted_wrt_map shares_def)
qed

section \<open>The expansions\<close>

lemma sdiv_nat: "int a sdiv int b = int (a div b)"
  by (cases "a = 0 \<or> b = 0") (auto simp: signed_divide_int_def zdiv_int)

lemma wrap32_id: "- 2147483648 \<le> x \<Longrightarrow> x < 2147483648 \<Longrightarrow> wrap32 x = x"
  unfolding wrap32_def by (rule signed_take_bit_int_eq_self) simp_all

lemma wrap32_nat: "n < 2147483648 \<Longrightarrow> wrap32 (int n) = int n"
  unfolding wrap32_def by (intro signed_take_bit_int_eq_self) (auto intro: order_trans [of _ 0])

lemma unat_of_small: "n \<le> 32767 \<Longrightarrow> unat (of_nat n :: u16) = n" "n \<le> 32767 \<Longrightarrow> unat (of_nat n :: u32) = n"
  by (simp_all add: unat_of_nat)

definition square_nat :: "u8 \<Rightarrow> nat" where "square_nat b = min ((unat b + 1) * (unat b + 1)) 65535"

lemma dcmf_square_nat: "dcmf_square b = int (square_nat b)"
proof -
  have "(uint b + 1) * (uint b + 1) = int ((unat b + 1) * (unat b + 1))" by (simp add: algebra_simps)
  then show ?thesis unfolding dcmf_square_def square_nat_def Let_def by (simp only: of_nat_min) simp
qed

lemma square_nat_bounds: "0 < square_nat b" "square_nat b \<le> 65535"
  by (simp_all add: square_nat_def)

lemma share_int:
  assumes "n \<le> 32766"
  shows "dcmf_square b * (32767 - int n) = int (square_nat b * (32767 - n))" "square_nat b * (32767 - n) < 2147483648"
proof -
  show "dcmf_square b * (32767 - int n) = int (square_nat b * (32767 - n))"
    using assms by (simp add: dcmf_square_nat of_nat_diff)
  have "square_nat b * (32767 - n) \<le> 65535 * 32767"
    using square_nat_bounds [of b] by (intro mult_le_mono) simp_all
  then show "square_nat b * (32767 - n) < 2147483648" by simp
qed

lemma share_word: "n \<le> 32766 \<Longrightarrow> dcmf_square b * (32767 - int n) sdiv int s = int (square_nat b * (32767 - n) div s)"
  by (simp only: share_int sdiv_nat)

lemma celp_loop_cums:
  "n \<le> 32766 \<Longrightarrow> unat prev + sum_list (map (\<lambda>b. square_nat b * (32767 - n) div s + 1) bs) \<le> 32767 \<Longrightarrow>
   celp_loop (int n) (int s) prev bs = map of_nat (cums (unat prev) (map (\<lambda>b. square_nat b * (32767 - n) div s + 1) bs))"
proof (induction bs arbitrary: prev)
  case (Cons b bs)
  let ?q = "square_nat b * (32767 - n) div s"
  have "wrap32 (dcmf_square b * (32767 - int n)) sdiv int s = int ?q"
    using share_int [OF Cons.prems(1), of b] by (simp only: wrap32_nat sdiv_nat)
  then have c: "prev + word_of_int (wrap32 (dcmf_square b * (32767 - int n)) sdiv int s) + 1 = of_nat (unat prev + (?q + 1))"
    by (simp only: of_int_of_nat_eq) simp
  have "unat (of_nat (unat prev + (?q + 1)) :: u16) = unat prev + (?q + 1)"
    using Cons.prems by (intro unat_of_small) simp
  then show ?case
    using Cons.IH [of "of_nat (unat prev + (?q + 1))"] Cons.prems
    unfolding celp_loop.simps Let_def c by simp
qed simp

lemma lsf_loop_cums:
  "n \<le> 32766 \<Longrightarrow>
   unat prev + sum_list (map (\<lambda>b. square_nat b * (32767 - n) div s + 1) bs) \<le> 32767 \<Longrightarrow>
   lsf_loop (int n) (int s) prev bs = map of_nat (cums (unat prev) (map (\<lambda>b. square_nat b * (32767 - n) div s + 1) bs))"
proof (induction bs arbitrary: prev)
  case (Cons b bs)
  let ?q = "square_nat b * (32767 - n) div s"
  have c: "word_of_int (uint prev + (dcmf_square b * (32767 - int n) sdiv int s + 1)) = (of_nat (unat prev + (?q + 1)) :: u16)"
    unfolding share_word [OF Cons.prems(1)] by simp
  have "unat (of_nat (unat prev + (?q + 1)) :: u16) = unat prev + (?q + 1)"
    using Cons.prems(2) by (intro unat_of_small) simp
  then show ?case
    using Cons.IH [of "of_nat (unat prev + (?q + 1))"] Cons.prems unfolding lsf_loop.simps Let_def c by simp
qed simp

lemma pitch_loop_cums:
  "n \<le> 32766 \<Longrightarrow>
   unat prev + sum_list (map (\<lambda>b. square_nat b * (32767 - n) div s + 1) bs) \<le> 32767 \<Longrightarrow>
   pitch_loop (int n) (int s) prev bs = map of_nat (cums (unat prev) (map (\<lambda>b. square_nat b * (32767 - n) div s + 1) bs))"
proof (induction bs arbitrary: prev)
  case (Cons b bs)
  let ?q = "square_nat b * (32767 - n) div s"
  have c: "word_of_int (uint prev + (dcmf_square b * (32767 - int n) sdiv int s + 1)) = (of_nat (unat prev + (?q + 1)) :: u32)"
    unfolding share_word [OF Cons.prems(1)] by simp
  have "unat (of_nat (unat prev + (?q + 1)) :: u32) = unat prev + (?q + 1)"
    using Cons.prems(2) by (intro unat_of_small) simp
  then show ?case
    using Cons.IH [of "of_nat (unat prev + (?q + 1))"] Cons.prems unfolding pitch_loop.simps Let_def c by simp
qed simp

lemma pdf_loop_cums:
  "n \<le> 32766 \<Longrightarrow>
   unat prev + sum_list (map (\<lambda>x. x * (32767 - n) div s + 1) xs) \<le> 32767 \<Longrightarrow>
   pdf_loop (int n) (int s) prev (map int xs) = map of_nat (cums (unat prev) (map (\<lambda>x. x * (32767 - n) div s + 1) xs))"
proof (induction xs arbitrary: prev)
  case (Cons x xs)
  let ?q = "x * (32767 - n) div s"
  have q: "int x * (32767 - int n) sdiv int s + 1 = int (?q + 1)"
  proof -
    have "int x * (32767 - int n) = int (x * (32767 - n))" using Cons.prems(1) by (simp add: of_nat_diff)
    then show ?thesis by (simp only: sdiv_nat of_nat_add of_nat_1)
  qed
  have w: "wrap32 (int k) = int k" if "k \<le> 32767" for k
    using that by (simp add: wrap32_nat)
  have le: "?q + 1 \<le> 32767" "unat prev + (?q + 1) \<le> 32767" using Cons.prems(2) by simp_all
  have "uint prev + int (?q + 1) = int (unat prev + (?q + 1))" by simp
  then have c: "word_of_int (wrap32 (uint prev + wrap32 (int x * (32767 - int n) sdiv int s + 1))) =
      (of_nat (unat prev + (?q + 1)) :: u16)"
    using w [OF le(1)] w [OF le(2)] unfolding q by (simp only: of_int_of_nat_eq)
  have "unat (of_nat (unat prev + (?q + 1)) :: u16) = unat prev + (?q + 1)"
    using le(2) by (rule unat_of_small)
  then show ?case
    using Cons.IH [of "of_nat (unat prev + (?q + 1))"] Cons.prems
    unfolding list.map(2) pdf_loop.simps Let_def c by simp
qed simp

text \<open>The table every expansion of a DCMF amounts to.\<close>

definition dcmf_table :: "bytes \<Rightarrow> nat list" where
  "dcmf_table bs = 0 # cums 0 (shares (length bs) (map square_nat bs))"

lemma dcmf_sum: "sum_list (map dcmf_square bs) = int (sum_list (map square_nat bs))"
  by (induction bs) (simp_all add: dcmf_square_nat)

lemma dcmf_sum_pos: "bs \<noteq> [] \<Longrightarrow> 0 < sum_list (map square_nat bs)"
  using square_nat_bounds by (cases bs) simp_all

lemma dcmf_sum_bound: "sum_list (map square_nat bs) \<le> 65535 * length bs"
  using square_nat_bounds(2) by (induction bs) (simp_all add: add_mono)

lemma dcmf_shares: "map (\<lambda>b. square_nat b * (32767 - n) div sum_list (map square_nat bs) + 1) bs = shares n (map square_nat bs)"
  by (simp add: shares_def)

lemma dcmf_tables:
  assumes "length bs \<le> 32766"
  shows "celpDcmfToCmf bs = Some (map of_nat (dcmf_table bs))" "lsfDcmfToCmf bs = map of_nat (dcmf_table bs)"
    "pitchDcmfToCmf bs = map of_nat (dcmf_table bs)"
proof -
  have t: "unat (0 :: 'a::len word) + sum_list (shares (length bs) (map square_nat bs)) \<le> 32767"
    using shares_total [of "map square_nat bs"] assms by simp
  have "sum_list (map square_nat bs) < 2147483648" using dcmf_sum_bound [of bs] assms by simp
  then have w: "wrap32 (sum_list (map dcmf_square bs)) = int (sum_list (map square_nat bs))"
    unfolding dcmf_sum by (rule wrap32_nat)
  let ?s = "sum_list (map square_nat bs)"
  note L = celp_loop_cums [OF assms, of 0 ?s bs, unfolded dcmf_shares, OF t]
    lsf_loop_cums [OF assms, of 0 ?s bs, unfolded dcmf_shares, OF t]
    pitch_loop_cums [OF assms, of 0 ?s bs, unfolded dcmf_shares, OF t]
  have "\<not> (bs \<noteq> [] \<and> int ?s = 0)" using dcmf_sum_pos [of bs] by (metis less_irrefl of_nat_eq_0_iff)
  then show "celpDcmfToCmf bs = Some (map of_nat (dcmf_table bs))"
    unfolding celpDcmfToCmf_def w Let_def L(1) by (simp only: if_False) (simp add: dcmf_table_def)
  show "lsfDcmfToCmf bs = map of_nat (dcmf_table bs)" "pitchDcmfToCmf bs = map of_nat (dcmf_table bs)"
    unfolding lsfDcmfToCmf_def pitchDcmfToCmf_def dcmf_sum L(2,3) by (simp_all add: dcmf_table_def)
qed

lemma dcmf_table_ok: "bs \<noteq> [] \<Longrightarrow> length bs \<le> 32766 \<Longrightarrow> cdf_table (map of_nat (dcmf_table bs))"
  using cums_table [of "map square_nat bs"] by (simp add: dcmf_table_def)

lemma length_dcmf_table [simp]: "length (dcmf_table bs) = length bs + 1"
  by (simp add: dcmf_table_def shares_def)

lemma pdf_table:
  assumes "xs \<noteq> []" "length xs \<le> 32766" "0 < sum_list xs"
  shows "\<exists>c. pdfToCmf (map int xs) = Some c \<and> cdf_table c \<and> length c = length xs + 1"
proof -
  have "sum_list (map int xs) = int (sum_list xs)" by (induction xs) simp_all
  moreover have "unat (0 :: u16) + sum_list (shares (length xs) xs) \<le> 32767"
    using shares_total [of xs] assms by simp
  ultimately have "pdfToCmf (map int xs) = Some (map of_nat (0 # cums 0 (shares (length xs) xs)))"
    using pdf_loop_cums [OF assms(2), of 0 "sum_list xs" xs] assms(3)
    by (simp add: pdfToCmf_def Let_def shares_def del: sum_list_eq_0_iff)
  then show ?thesis using cums_table [OF assms(1)] assms(2) by (simp add: shares_def)
qed

section \<open>Run lengths\<close>

lemma log2lin_inner:
  "list_all (\<lambda>f. let inner = ccSmlawb f (ccSmulbb f (128 - f)) (- 174) in 0 \<le> inner \<and> inner \<le> 127) [0..127]"
  by code_simp

lemma log2lin_power:
  assumes "0 \<le> x" "x < 3967"
  shows "2 ^ nat (x div 128) \<le> ccLog2lin x \<and> ccLog2lin x < 2 * 2 ^ nat (x div 128)"
proof -
  define k where "k = nat (x div 128)"
  define inner where "inner = ccSmlawb (x mod 128) (ccSmulbb (x mod 128) (128 - x mod 128)) (- 174)"
  have "x mod 128 \<in> set [0..127]" by simp
  then have i: "0 \<le> inner" "inner \<le> 127"
    using log2lin_inner unfolding inner_def list_all_iff Let_def by blast+
  have "k \<le> 30" using assms by (auto simp: k_def)
  then have p: "(2 :: int) ^ k \<le> 2 ^ 30" by (intro power_increasing) simp_all
  have pos: "0 < (2 :: int) ^ k" by simp
  show ?thesis
  proof (cases "x < 2048")
    case True
    then have "k \<le> 15" using assms by (auto simp: k_def)
    then have p': "(2 :: int) ^ k \<le> 2 ^ 15" by (intro power_increasing) simp_all
    define y where "y = (2 :: int) ^ k * inner"
    have y: "0 \<le> y" "y \<le> 32768 * 127" "y \<le> 2 ^ k * 127"
      unfolding y_def using mult_mono [OF p' i(2)] mult_left_mono [OF i(2), of "2 ^ k"] i(1) pos by simp_all
    then have "wrap32 y = y" by (intro wrap32_id) simp_all
    moreover have q: "0 \<le> y div 128" "y div 128 \<le> 32768" "y div 128 < 2 ^ k"
      using y by (simp_all add: div_less_iff_less_mult) (use y(3) pos in linarith)
    then have "wrap32 (2 ^ k + y div 128) = 2 ^ k + y div 128"
      using p' pos by (intro wrap32_id; simp; linarith)
    ultimately show ?thesis
      using True assms q by (simp add: ccLog2lin_def Let_def flip: k_def inner_def y_def)
  next
    case False
    define y where "y = (2 :: int) ^ k div 128 * inner"
    have d: "0 \<le> (2 :: int) ^ k div 128" by (rule pos_imp_zdiv_nonneg_iff [THEN iffD2]) simp_all
    then have y0: "0 \<le> y" unfolding y_def using i(1) by (rule mult_nonneg_nonneg)
    have "y \<le> 2 ^ k div 128 * 127" unfolding y_def using i(2) d by (rule mult_left_mono)
    then have y: "2 ^ k + y < 2 * 2 ^ k" using pos by linarith
    then have s: "2 ^ k + y < 2147483648" using p by simp
    have "wrap32 y = y" "wrap32 (2 ^ k + y) = 2 ^ k + y"
      using y0 s pos by (intro wrap32_id; linarith)+
    then show ?thesis
      using False assms y0 y by (simp add: ccLog2lin_def Let_def flip: k_def inner_def y_def)
  qed
qed

lemma log2lin_range:
  assumes "0 \<le> x" "x < 3967" "int m \<le> 31" "x div 128 < int m"
  shows "ccLog2lin x < 2 ^ m"
proof -
  have "(2 :: int) * 2 ^ nat (x div 128) = 2 ^ Suc (nat (x div 128))" by simp
  also have "\<dots> \<le> 2 ^ m" using assms by (intro power_increasing) auto
  finally show ?thesis using log2lin_power [OF assms(1,2)] by linarith
qed

lemma log2lin_bounds: "0 \<le> ccLog2lin x \<and> ccLog2lin x < 2147483648"
proof (cases "x < 0 \<or> 3967 \<le> x")
  case False
  have "0 \<le> (2 :: int) ^ nat (x div 128)" by simp
  then show ?thesis using False log2lin_power [of x] log2lin_range [of x 31] by auto
qed (auto simp: ccLog2lin_def)

lemma log2lin_pos: "0 \<le> x \<Longrightarrow> 0 < ccLog2lin x"
proof (cases "3967 \<le> x")
  case False
  assume "0 \<le> x"
  have "0 < (2 :: int) ^ nat (x div 128)" by simp
  then show ?thesis using log2lin_power [OF \<open>0 \<le> x\<close>] False by linarith
qed (simp add: ccLog2lin_def)

lemma log2lin_small: "x < 3840 \<Longrightarrow> ccLog2lin x \<le> 1073741824"
proof (cases "x < 0")
  case False
  assume "x < 3840"
  then have "x div 128 < 30" by linarith
  then show ?thesis using log2lin_range [of x 30] \<open>x < 3840\<close> False by simp
qed (simp add: ccLog2lin_def)

lemma run_end_bounds: "0 < run_end ms nump nums \<and> run_end ms nump nums \<le> 2147376274"
  using log2lin_bounds by (auto simp: run_end_def Let_def)

lemma run_pdf_nat:
  "0 \<le> plonger \<Longrightarrow> plonger \<le> 2147483648 \<Longrightarrow>
   \<exists>xs. run_pdf ms nump plonger ns = map int xs \<and> length xs = length ns"
proof (induction ns arbitrary: plonger)
  case (Cons m ns)
  let ?p = "run_end ms nump m"
  note b = run_end_bounds [of ms nump m]
  have "plonger * ?p \<le> 2147483648 * 2147376274" "0 \<le> plonger * ?p"
    using b Cons.prems mult_mono [of plonger 2147483648 ?p 2147376274] by simp_all
  then have q: "0 \<le> plonger * ?p div 2 ^ 31" "plonger * ?p div 2 ^ 31 < 2147483648" by simp_all
  then have w: "wrap32 (plonger * ?p div 2 ^ 31) = int (nat (plonger * ?p div 2 ^ 31))"
    using wrap32_nat [of "nat (plonger * ?p div 2 ^ 31)"] by simp
  have "plonger * (2 ^ 31 - ?p) \<le> 2147483648 * 2147483648" "0 \<le> plonger * (2 ^ 31 - ?p)"
    using b Cons.prems mult_mono [of plonger 2147483648 "2 ^ 31 - ?p" 2147483648] by simp_all
  then have "0 \<le> plonger * (2 ^ 31 - ?p) div 2 ^ 31" "plonger * (2 ^ 31 - ?p) div 2 ^ 31 \<le> 2147483648" by simp_all
  from Cons.IH [OF this] obtain xs where "run_pdf ms nump (plonger * (2 ^ 31 - ?p) div 2 ^ 31) ns = map int xs" "length xs = length ns"
    by blast
  then show ?case using w by (intro exI [of _ "nat (plonger * ?p div 2 ^ 31) # xs"]) (simp add: Let_def)
qed simp

lemma run_table:
  assumes "1 \<le> ms" "ms \<le> 32766"
  shows "\<exists>c. pdfToCmf (run_pdf ms nump (2 ^ 31) [1..ms]) = Some c \<and> cdf_table c \<and> int (length c) = ms + 1"
proof -
  obtain xs where xs: "run_pdf ms nump (2 ^ 31) [1..ms] = map int xs" "length xs = length [1..ms]"
    using run_pdf_nat [of "2 ^ 31" ms nump "[1..ms]"] by auto
  have "[1..ms] = 1 # [2..ms]" using assms by (simp add: upto_rec1)
  moreover have "0 < wrap32 (2 ^ 31 * run_end ms nump 1 div 2 ^ 31)"
    using run_end_bounds [of ms nump 1] wrap32_nat [of "nat (run_end ms nump 1)"] by (auto simp: nat_less_iff)
  ultimately have "0 < hd (map int xs)" "xs \<noteq> []" using xs by (auto simp: Let_def) 
  then have "0 < sum_list xs" by (cases xs) simp_all
  then obtain c where "pdfToCmf (map int xs) = Some c" "cdf_table c" "length c = length xs + 1"
    using pdf_table [OF \<open>xs \<noteq> []\<close>] xs(2) assms by (auto simp: nat_le_iff)
  then show ?thesis using xs assms by (intro exI [of _ c]) simp
qed

lemma all_some_map: "(\<And>x. x \<in> set xs \<Longrightarrow> \<exists>y. f x = Some y \<and> P x y) \<Longrightarrow>
    \<exists>ys. all_some (map f xs) = Some ys \<and> list_all2 P xs ys"
  by (induction xs) fastforce+

definition runlen_ok :: "int \<Rightarrow> runlenCmfs \<Rightarrow> bool" where
  "runlen_ok ms r \<longleftrightarrow> maxSamples r = ms \<and> length (cmfs r) = 40 \<and>
     (\<forall>c\<in>set (cmfs r). cdf_table c \<and> int (length c) = ms + 1)"

lemma list_all2_set: "list_all2 P xs ys \<Longrightarrow> (\<And>x y. x \<in> set xs \<Longrightarrow> P x y \<Longrightarrow> Q y) \<Longrightarrow> y \<in> set ys \<Longrightarrow> Q y"
  by (induction rule: list_all2_induct) auto

lemma runlen_table:
  assumes "1 \<le> ms" "ms \<le> 32766"
  shows "\<exists>r. ccCreateRunlenTable ms = Some r \<and> runlen_ok ms r"
proof -
  have "\<exists>cs. all_some (map (\<lambda>nump. pdfToCmf (run_pdf ms nump (2 ^ 31) [1..ms])) [1..ccMaxPulsesPerSf]) = Some cs \<and>
      list_all2 (\<lambda>n c. cdf_table c \<and> int (length c) = ms + 1) [1..ccMaxPulsesPerSf] cs"
    by (rule all_some_map) (rule run_table [OF assms])
  then obtain cs where cs: "all_some (map (\<lambda>nump. pdfToCmf (run_pdf ms nump (2 ^ 31) [1..ms])) [1..ccMaxPulsesPerSf]) = Some cs"
      "list_all2 (\<lambda>n c. cdf_table c \<and> int (length c) = ms + 1) [1..ccMaxPulsesPerSf] cs"
    by blast
  then have "length cs = 40" by (auto dest!: list_all2_lengthD simp: ccMaxPulsesPerSf_def)
  moreover have "cdf_table c \<and> int (length c) = ms + 1" if "c \<in> set cs" for c
    by (rule list_all2_set [OF cs(2) _ that])
  ultimately show ?thesis using cs(1) by (simp add: ccCreateRunlenTable_def runlen_ok_def)
qed

end
