(* ===== verification/MlowSplits.thy ===== *)
theory MlowSplits
  imports MlowTablesOk
begin

section \<open>Splits\<close>

text \<open>
  A split table counts, for \<open>n\<close> pulses, the ways \<open>k\<close> of them fall into the first half; the tables hold
  approximations of binomial probabilities by Stirling's formula, in fixed point.  That the approximation
  never leaves the range the code relies on is a computation over the 160 values it is used for.
\<close>

definition stirling_values :: "int list" where
  "stirling_values = [0, 107, 32783, 84821, 150242, 224627, 311238, 404286, 501326, 600941, 710807, 825034, 945282, 1067327,
    1193343, 1318594, 1449992, 1578575, 1712280, 1851107, 1995054, 2138619, 2286793, 2439575, 2590694,
    2745909, 2898437, 3054549, 3214246, 3369975, 3528777, 3690651, 3855597, 4015039, 4177041, 4341604,
    4508727, 4678410, 4850653, 5025457, 5202820, 5382744, 5554347, 5739135, 5915091, 6093095, 6285051,
    6467407, 6651812, 6838264, 7026764, 7204129, 7396469, 7590858, 7773342, 7971571, 8157384, 8344733,
    8533617, 8724038, 8915995, 9109488, 9304517, 9501082, 9699183, 9882052, 10082969, 10268142, 10471875,
    10677145, 10865902, 11073987, 11265048, 11475949, 11669315, 11883032, 12078701, 12295235, 12493208,
    12712557, 12912835, 13114136, 13337582, 13541187, 13745816, 13951470, 14180291, 14388249, 14597230,
    14807236, 15018265, 15230319, 15467076, 15681434, 15896815, 16113221, 16330651, 16549104, 16768582,
    16989083, 17210609, 17407175, 17630492, 17854834, 18080199, 18306589, 18534003, 18734920, 18964126,
    19194356, 19425609, 19629343, 19862389, 20096458, 20302240, 20538102, 20745163, 20982817, 21191159,
    21430605, 21640226, 21881464, 22092366, 22335396, 22547577, 22760271, 23005861, 23219835, 23467216,
    23682470, 23898236, 24148178, 24365223, 24582781, 24800851, 25054121, 25273470, 25493332, 25749162,
    25970304, 26191958, 26450347, 26673281, 26896727, 27120685, 27382403, 27607640, 27833390, 28059652,
    28324698, 28552240, 28780294, 29008859, 29277233, 29507079, 29737437, 29968307, 30199689, 30472158,
    30704820]"

lemma stirling_values: "map ccStirling [0..159] = stirling_values"
  by code_simp

fun splits_below :: "int \<Rightarrow> int list \<Rightarrow> int list \<Rightarrow> bool" where
  "splits_below n before [] = True"
| "splits_below n before (v # vs) =
     (list_all2 (\<lambda>a b. v - a - b < n * 32768) (v # before) (rev (v # before)) \<and> splits_below (n + 1) (v # before) vs)"

lemma splits_below: "splits_below 1 [0] (tl stirling_values)"
  by code_simp

lemma middle_split: "list_all (\<lambda>n. - 983040 < stirling_values ! n - stirling_values ! (n div 2) -
    stirling_values ! (n - n div 2) - int n * 32768) [1..<160]"
  by code_simp

lemma stirling_small: "list_all (\<lambda>v. 0 \<le> v \<and> v < 100000000) stirling_values"
  by code_simp


lemma splits_below_pairs:
  "splits_below (int m) (rev (map f [0..<m])) (map f [m..<u]) \<Longrightarrow> m \<le> n \<Longrightarrow> n < u \<Longrightarrow> k \<le> n \<Longrightarrow>
   f n - f k - f (n - k) < int n * 32768"
proof (induction "u - m" arbitrary: m)
  case (Suc x)
  have u: "[m..<u] = m # [Suc m..<u]" using Suc.hyps(2) by (simp add: upt_conv_Cons)
  have r: "f m # rev (map f [0..<m]) = rev (map f [0..<Suc m])" by simp
  have S: "list_all2 (\<lambda>a b. f m - a - b < int m * 32768) (rev (map f [0..<Suc m])) (map f [0..<Suc m])"
      "splits_below (int (Suc m)) (rev (map f [0..<Suc m])) (map f [Suc m..<u])"
    using Suc.prems(1) unfolding u list.map(2) splits_below.simps r by (simp_all add: add.commute)
  show ?case
  proof (cases "n = m")
    case True
    have "(map f [0..<Suc m]) ! k = f k" "rev (map f [0..<Suc m]) ! k = f (m - k)"
      using Suc.prems(4) True by (simp_all add: rev_nth nth_append del: upt_Suc)
    then show ?thesis
      using list_all2_nthD [OF S(1), of k] Suc.prems(4) True by (simp del: upt_Suc)
  next
    case False
    then show ?thesis using Suc.hyps(1) [of "Suc m"] S(2) Suc.hyps(2) Suc.prems by simp
  qed
qed simp

lemma stirling_nth: "n < 160 \<Longrightarrow> stirling_values ! n = ccStirling (int n)"
  by (simp flip: stirling_values)

lemma stirling_map: "stirling_values = map (\<lambda>n. ccStirling (int n)) [0..<160]"
proof (rule nth_equalityI)
  show len: "length stirling_values = length (map (\<lambda>n. ccStirling (int n)) [0..<160])"
    by (simp flip: stirling_values)
  fix i assume "i < length stirling_values"
  then show "stirling_values ! i = map (\<lambda>n. ccStirling (int n)) [0..<160] ! i"
    using len by (simp add: stirling_nth)
qed

lemma stirling_split:
  assumes "1 \<le> n" "n < 160" "k \<le> n"
  shows "ccStirling (int n) - ccStirling (int k) - ccStirling (int (n - k)) < int n * 32768"
proof -
  have "[0..<160] = 0 # [1..<160]" by (simp add: upt_conv_Cons)
  then have "tl stirling_values = map (\<lambda>n. ccStirling (int n)) [1..<160]" "rev (map (\<lambda>n. ccStirling (int n)) [0..<1]) = [0]"
    by (simp_all add: stirling_map ccStirling_def)
  with splits_below have "splits_below (int 1) (rev (map (\<lambda>n. ccStirling (int n)) [0..<1])) (map (\<lambda>n. ccStirling (int n)) [1..<160])"
    by simp
  from splits_below_pairs [OF this assms] show ?thesis .
qed

lemma stirling_bounds: "n < 160 \<Longrightarrow> 0 \<le> ccStirling (int n) \<and> ccStirling (int n) < 100000000"
  using stirling_small unfolding stirling_map list_all_iff by auto

lemma prob_split:
  assumes "1 \<le> n" "n < 160" "k \<le> n"
  shows "\<exists>p. ccProbSplitFast (int k) (int n) = Some (int p) \<and> p \<le> 1073741824 \<and>
    (- 983040 < ccStirling (int n) - ccStirling (int k) - ccStirling (int (n - k)) - int n * 32768 \<longrightarrow> 0 < p)"
proof -
  define t where "t = ccStirling (int n) - ccStirling (int k) - ccStirling (int (n - k)) - int n * 32768"
  have "n - k < 160" "k < 160" using assms by simp_all
  note b = stirling_bounds [OF assms(2)] stirling_bounds [OF this(2)] stirling_bounds [OF this(1)]
  have t: "t < 0" "- 300000000 < t"
    using stirling_split [OF assms] b assms(2) unfolding t_def by linarith+
  have k: "int n - int k = int (n - k)" using assms(3) by simp
  have w: "wrap32 (wrap32 (wrap32 (ccStirling (int n) - ccStirling (int k)) - ccStirling (int n - int k)) - wrap32 (int n * 32768)) = t"
    unfolding k t_def using b assms(2) by (simp add: wrap32_id del: of_nat_diff)
  define x where "x = (- t) div 256"
  have x: "0 \<le> x" using t by (simp add: x_def pos_imp_zdiv_nonneg_iff)
  have w': "wrap32 (- t) = - t" using t by (intro wrap32_id) simp_all
  have l: "0 < ccLog2lin x" by (rule log2lin_pos [OF x])
  have P: "ccProbSplitFast (int k) (int n) = Some (2 ^ 30 div ccLog2lin x)"
    using t(1) l unfolding ccProbSplitFast_def w Let_def w' x_def [symmetric] by (simp add: signed_divide_int_def)
  have "0 < 2 ^ 30 div ccLog2lin x" if "- 983040 < t"
  proof -
    have "x < 3840" using that by (simp add: x_def)
    then have "ccLog2lin x \<le> 2 ^ 30" using log2lin_small [of x] by simp
    with l show ?thesis by (simp add: pos_imp_zdiv_pos_iff)
  qed
  moreover have "2 ^ 30 div ccLog2lin x \<le> 1073741824" "0 \<le> 2 ^ 30 div ccLog2lin x"
    using l zdiv_mono2 [of "2 ^ 30" 1 "ccLog2lin x"] by (simp_all add: pos_imp_zdiv_nonneg_iff)
  ultimately show ?thesis
    unfolding P t_def [symmetric] by (intro exI [of _ "nat (2 ^ 30 div ccLog2lin x)"]) (auto simp: nat_le_iff)
qed

lemma split_table:
  assumes "1 \<le> n" "n < 160"
  shows "\<exists>c. Option.bind (split_pdf (int n)) pdfToCmf = Some c \<and> cdf_table c \<and>
    int (length c) = int n - 2 * max 0 (int n - 80) + 2"
proof -
  define m where "m = n - 80"
  have m: "max 0 (int n - ccMaxPulsesPerSf * 2) = int m" "m \<le> n div 2" "n div 2 \<le> n - m"
    using assms by (auto simp: m_def ccMaxPulsesPerSf_def)
  have ks: "[int m..int (n - m)] = map int [m..<Suc (n - m)]"
    using m by (intro nth_equalityI) (simp_all del: upt_Suc)
  define p where "p k = nat (the (ccProbSplitFast (int k) (int n)))" for k
  have p: "ccProbSplitFast (int k) (int n) = Some (int (p k))" if "k \<le> n" for k
    using prob_split [OF assms that] by (auto simp: p_def)
  have A: "all_some (map (\<lambda>k. ccProbSplitFast k (int n)) (map int ks)) = Some (map int (map p ks))" if "\<forall>k\<in>set ks. k \<le> n" for ks
    using that by (induction ks) (simp_all add: p)
  have "int n - int m = int (n - m)" using m by simp
  then have "split_pdf (int n) = Some (map int (map p [m..<Suc (n - m)]))"
    unfolding split_pdf_def m(1) Let_def by (simp only: ks) (rule A, auto)
  moreover have "0 < p (n div 2)"
  proof -
    have "- 983040 < ccStirling (int n) - ccStirling (int (n div 2)) - ccStirling (int (n - n div 2)) - int n * 32768"
    proof -
      have lt: "n div 2 < 160" "n - n div 2 < 160" and mem: "n \<in> set [1..<160]" using assms by auto
      show ?thesis
        using bspec [OF middle_split [unfolded list_all_iff] mem]
        unfolding stirling_nth [OF lt(1)] stirling_nth [OF lt(2)] stirling_nth [OF assms(2)] .
    qed
    then show ?thesis using prob_split [OF assms, of "n div 2"] p [of "n div 2"] by auto
  qed
  moreover have "n div 2 \<in> set [m..<Suc (n - m)]" using m by auto
  then have "p (n div 2) \<in> set (map p [m..<Suc (n - m)])" by (simp del: upt_Suc)
  then have "p (n div 2) \<le> sum_list (map p [m..<Suc (n - m)])" by (rule member_le_sum_list) simp
  ultimately have "split_pdf (int n) = Some (map int (map p [m..<Suc (n - m)]))" "0 < sum_list (map p [m..<Suc (n - m)])"
    by linarith+
  then show ?thesis
  proof -
    assume sp: "split_pdf (int n) = Some (map int (map p [m..<Suc (n - m)]))" and "0 < sum_list (map p [m..<Suc (n - m)])"
    moreover have "[m..<Suc (n - m)] \<noteq> []" "Suc n - (m + m) \<le> 32766" using m assms by auto
    ultimately obtain c where "pdfToCmf (map int (map p [m..<Suc (n - m)])) = Some c" "cdf_table c" "length c = Suc (n - m) - m + 1"
      using pdf_table [of "map p [m..<Suc (n - m)]"] by (auto simp del: upt_Suc)
    moreover from this have "int (length c) = int n - 2 * max 0 (int n - 80) + 2"
      using assms(2) by (cases "n \<le> 80") (auto simp: m_def)
    ultimately show ?thesis unfolding sp by simp
  qed
qed

section \<open>The runtime tables\<close>

text \<open>A seed whose fields have the lengths the code indexes them with.\<close>

definition seed_ok :: "ccSeed \<Rightarrow> bool" where
  "seed_ok s \<longleftrightarrow> nrgresGain4Dcmf s \<noteq> [] \<and> length (nrgresGain4Dcmf s) \<le> 32766 \<and>
     nrgresShape4Dcmf s \<noteq> [] \<and> length (nrgresShape4Dcmf s) \<le> 32766 \<and>
     length (fcbgOffsetDcmf s) = 2112 \<and> length (acbgainsHrDcmf s) = 272 \<and>
     length (fcbgainsVDcmf s) = 34 \<and> length (fcbgainsVDeltaDcmf s) = 67 \<and> length (seedCbHrQ14 s) = 32 \<and>
     nPulsesDcmfBgn s \<noteq> [] \<and> length (nPulsesDcmfBgn s) \<le> 33 \<and>
     nPulsesDcmfUv s \<noteq> [] \<and> length (nPulsesDcmfUv s) \<le> 33 \<and>
     nPulsesDcmfV s \<noteq> [] \<and> length (nPulsesDcmfV s) \<le> 33"

text \<open>What the symbol decoders rely on.\<close>

definition tables_ok :: "CcTables \<Rightarrow> bool" where
  "tables_ok t \<longleftrightarrow> (\<forall>n. cdf_table (NrgresGain t n) \<and> cdf_table (NrgresShape t n)) \<and>
     length (fcbgOffset t) = 12 \<and> (\<forall>row\<in>set (fcbgOffset t). cdf_table row \<and> length row = 177) \<and>
     (\<forall>prev. - 1 \<le> prev \<and> prev < 16 \<longrightarrow>
        (\<exists>c. AcbgainRow t prev = Some c \<and> cdf_table c \<and> length c = 17) \<and>
        (\<exists>c. AcbgainRowLr t prev = Some c \<and> cdf_table c \<and> length c = 17)) \<and>
     length (acbgainsCbHrQ14 t) = 32 \<and> length (acbgainsCbLrQ14 t) = 32 \<and>
     cdf_table (fcbgainsV t) \<and> length (fcbgainsV t) = 35 \<and>
     cdf_table (fcbgainsVDelta t) \<and> length (fcbgainsVDelta t) = 68 \<and>
     length (nPulseCmfs t) = 3 \<and> (\<forall>c\<in>set (nPulseCmfs t). cdf_table c \<and> length c \<le> 34) \<and>
     (\<forall>n. 1 \<le> n \<and> n < 160 \<longrightarrow>
        cdf_table (SplitCmf t n) \<and> int (length (SplitCmf t n)) = n - 2 * max 0 (n - 80) + 2) \<and>
     (\<forall>oct. 1 \<le> oct \<and> oct \<le> 20 \<longrightarrow> (\<exists>r. Runlen t oct = Some r \<and> runlen_ok (oct * 8) r))"

lemma ccDcmf_table: "bs \<noteq> [] \<Longrightarrow> length bs \<le> 32766 \<Longrightarrow>
    \<exists>c. ccDcmf bs = Some c \<and> cdf_table c \<and> length c = length bs + 1"
  by (simp add: ccDcmf_def dcmf_tables dcmf_table_ok)

lemma chunk_tables:
  assumes "0 < step" "step \<le> 32766" "length b = m * step"
  shows "\<exists>cs. ccDcmfChunks b step = Some cs \<and> length cs = m \<and> (\<forall>c\<in>set cs. cdf_table c \<and> length c = step + 1)"
proof -
  have "\<exists>cs. all_some (map ccDcmf (chunks step b)) = Some cs \<and>
      list_all2 (\<lambda>ch c. cdf_table c \<and> length c = step + 1) (chunks step b) cs"
  proof (rule all_some_map)
    fix ch assume "ch \<in> set (chunks step b)"
    then obtain i where i: "i < m" "ch = take step (drop (i * step) b)" using assms by (auto simp: chunks_def)
    have "i * step + step \<le> m * step" using i(1) by (metis Suc_leI add.commute mult_Suc mult_le_mono1)
    then have "length ch = step" using i(2) assms(3) by simp
    then show "\<exists>c. ccDcmf ch = Some c \<and> cdf_table c \<and> length c = step + 1"
      using ccDcmf_table [of ch] assms by auto
  qed
  then obtain cs where cs: "ccDcmfChunks b step = Some cs"
      "list_all2 (\<lambda>ch c. cdf_table c \<and> length c = step + 1) (chunks step b) cs"
    by (auto simp: ccDcmfChunks_def)
  moreover have "length cs = m" using list_all2_lengthD [OF cs(2)] assms by (simp add: chunks_def)
  moreover have "cdf_table c \<and> length c = step + 1" if "c \<in> set cs" for c
    by (rule list_all2_set [OF cs(2) _ that])
  ultimately show ?thesis by blast
qed

lemma concat_slice:
  "(\<forall>c\<in>set cs. length c = w) \<Longrightarrow> i < length cs \<Longrightarrow> slice (concat cs) (i * w) (i * w + w) = cs ! i"
proof (induction cs arbitrary: i)
  case (Cons c cs)
  then show ?case by (cases i) (simp_all add: slice_def)
qed simp

lemma row_table:
  assumes "\<forall>c\<in>set cs. cdf_table c \<and> length c = 17" "length cs = 17" "- 1 \<le> prev" "prev < 16"
  shows "\<exists>c. slice_at (concat cs) ((prev + 1) * 17) ((prev + 1) * 17 + 17) = Some c \<and> cdf_table c \<and> length c = 17"
proof -
  define i where "i = nat (prev + 1)"
  have i: "prev + 1 = int i" "i < 17" using assms by (auto simp: i_def)
  have "length (concat cs) = 289" using assms(1,2) by (simp add: length_concat cong: map_cong) (simp add: map_replicate_const sum_list_replicate)
  then have "slice_at (concat cs) ((prev + 1) * 17) ((prev + 1) * 17 + 17) = Some (slice (concat cs) (i * 17) (i * 17 + 17))"
    using i(2) unfolding i(1) slice_at_def by (simp add: nat_add_distrib nat_mult_distrib)
  then show ?thesis using concat_slice [of cs 17 i] assms i by simp
qed

lemma lr_length: "length celpAcbgainsDcmfLR = 17 * 16" "length cbAcbgainsLRQ14 = 32"
  by (simp_all add: celpAcbgainsDcmfLR_def cbAcbgainsLRQ14_def)

lemma shape2_length: "length ccNrgresGain2Dcmf = 71" "length ccNrgresShape2Dcmf = 22"
  by (simp_all add: ccNrgresGain2Dcmf_def ccNrgresShape2Dcmf_def)

lemma seeds_table: "bs \<noteq> [] \<and> length bs \<le> 33 \<Longrightarrow> \<exists>c. ccDcmf bs = Some c \<and> cdf_table c \<and> length c \<le> 34"
  using ccDcmf_table [of bs] by auto

lemma build_splits:
  "\<exists>cs. ccCreateSplitCmfs = Some cs \<and> length cs = 159 \<and>
     (\<forall>i<159. cdf_table (cs ! i) \<and> int (length (cs ! i)) = int i + 1 - 2 * max 0 (int i + 1 - 80) + 2)"
proof -
  have "\<exists>cs. all_some (map (\<lambda>n. Option.bind (split_pdf n) pdfToCmf) [1..159]) = Some cs \<and>
      list_all2 (\<lambda>n c. cdf_table c \<and> int (length c) = n - 2 * max 0 (n - 80) + 2) [1..159] cs"
  proof (rule all_some_map)
    fix n :: int assume "n \<in> set [1..159]"
    then show "\<exists>c. Option.bind (split_pdf n) pdfToCmf = Some c \<and> cdf_table c \<and> int (length c) = n - 2 * max 0 (n - 80) + 2"
      using split_table [of "nat n"] by auto
  qed
  then obtain cs where cs: "ccCreateSplitCmfs = Some cs"
      "list_all2 (\<lambda>n c. cdf_table c \<and> int (length c) = n - 2 * max 0 (n - 80) + 2) [1..159] cs"
    by (auto simp: ccCreateSplitCmfs_def ccSplitNumTables_def ccMaxPulsesPerSf_def)
  have "length cs = 159" using list_all2_lengthD [OF cs(2)] by simp
  moreover have "cdf_table (cs ! i) \<and> int (length (cs ! i)) = int i + 1 - 2 * max 0 (int i + 1 - 80) + 2" if "i < 159" for i
    using list_all2_nthD [OF cs(2), of i] that by (simp add: add.commute)
  ultimately show ?thesis using cs(1) by blast
qed

lemma build_runs:
  "\<exists>rs. all_some (map (\<lambda>oct. ccCreateRunlenTable (oct * ccRunlengthStep)) [1..ccNumRunlenCmfs]) = Some rs \<and>
     length rs = 20 \<and> (\<forall>i<20. runlen_ok ((int i + 1) * 8) (rs ! i))"
proof -
  have "\<exists>rs. all_some (map (\<lambda>oct. ccCreateRunlenTable (oct * ccRunlengthStep)) [1..ccNumRunlenCmfs]) = Some rs \<and>
      list_all2 (\<lambda>oct r. runlen_ok (oct * 8) r) [1..ccNumRunlenCmfs] rs"
  proof (rule all_some_map)
    fix n :: int assume "n \<in> set [1..ccNumRunlenCmfs]"
    then show "\<exists>r. ccCreateRunlenTable (n * ccRunlengthStep) = Some r \<and> runlen_ok (n * 8) r"
      using runlen_table [of "n * 8"] by (auto simp: ccRunlengthStep_def ccNumRunlenCmfs_def)
  qed
  then obtain rs where rs: "all_some (map (\<lambda>oct. ccCreateRunlenTable (oct * ccRunlengthStep)) [1..ccNumRunlenCmfs]) = Some rs"
      "list_all2 (\<lambda>oct r. runlen_ok (oct * 8) r) [1..ccNumRunlenCmfs] rs" by blast
  have "length rs = 20" using list_all2_lengthD [OF rs(2)] by (simp add: ccNumRunlenCmfs_def)
  moreover have "runlen_ok ((int i + 1) * 8) (rs ! i)" if "i < 20" for i
    using list_all2_nthD [OF rs(2), of i] that by (simp add: ccNumRunlenCmfs_def add.commute)
  ultimately show ?thesis using rs(1) by blast
qed

text \<open>Tables of the right parts are tables the symbol decoders can rely on.\<close>

lemma tables_of_parts:
  assumes "\<forall>c\<in>set [nrgresGain2 t, nrgresShape2 t, nrgresGain4 t, nrgresShape4 t]. cdf_table c"
    and "length (fcbgOffset t) = 12" "\<forall>c\<in>set (fcbgOffset t). cdf_table c \<and> length c = 177"
    and hr: "acbgainsHr t = concat hr" "length hr = 17" "\<forall>c\<in>set hr. cdf_table c \<and> length c = 17"
    and lr: "acbgainsLr t = concat lr" "length lr = 17" "\<forall>c\<in>set lr. cdf_table c \<and> length c = 17"
    and "length (acbgainsCbHrQ14 t) = 32" "length (acbgainsCbLrQ14 t) = 32"
    and "cdf_table (fcbgainsV t)" "length (fcbgainsV t) = 35" "cdf_table (fcbgainsVDelta t)" "length (fcbgainsVDelta t) = 68"
    and "length (nPulseCmfs t) = 3" "\<forall>c\<in>set (nPulseCmfs t). cdf_table c \<and> length c \<le> 34"
    and sp: "length (splitCmfs t) = 159"
      "\<forall>i<159. cdf_table (splitCmfs t ! i) \<and> int (length (splitCmfs t ! i)) = int i + 1 - 2 * max 0 (int i + 1 - 80) + 2"
    and rl: "length (runlen t) = 20" "\<forall>i<20. runlen_ok ((int i + 1) * 8) (runlen t ! i)"
  shows "tables_ok t"
proof -
  have "cdf_table (SplitCmf t n) \<and> int (length (SplitCmf t n)) = n - 2 * max 0 (n - 80) + 2" if "1 \<le> n \<and> n < 160" for n
  proof -
    have i: "nat (n - 1) < 159" "int (nat (n - 1)) + 1 = n" using that by auto
    have "SplitCmf t n = splitCmfs t ! nat (n - 1)" using that sp(1) by (simp add: SplitCmf_def)
    then show ?thesis using sp(2) i by metis
  qed
  moreover have "\<exists>r. Runlen t oct = Some r \<and> runlen_ok (oct * 8) r" if "1 \<le> oct \<and> oct \<le> 20" for oct
  proof -
    have i: "nat (oct - 1) < 20" "int (nat (oct - 1)) + 1 = oct" using that by auto
    have "Runlen t oct = Some (runlen t ! nat (oct - 1))" using that rl(1) by (simp add: Runlen_def at_def)
    then show ?thesis using rl(2) i by metis
  qed
  moreover have "(\<exists>c. AcbgainRow t prev = Some c \<and> cdf_table c \<and> length c = 17) \<and>
      (\<exists>c. AcbgainRowLr t prev = Some c \<and> cdf_table c \<and> length c = 17)" if "- 1 \<le> prev \<and> prev < 16" for prev
    using row_table [OF hr(3,2)] row_table [OF lr(3,2)] that
    by (simp add: AcbgainRow_def AcbgainRowLr_def Let_def hr(1) lr(1) ccAcbgN_def)
  ultimately show ?thesis using assms by (simp add: tables_ok_def NrgresGain_def NrgresShape_def)
qed

lemma tables_built:
  assumes "seed_ok s"
  shows "\<exists>t. build s = Some t \<and> tables_ok t"
proof -
  obtain g2 where g2: "ccDcmf ccNrgresGain2Dcmf = Some g2" "cdf_table g2"
    using ccDcmf_table [of ccNrgresGain2Dcmf] shape2_length by fastforce
  obtain s2 where s2: "ccDcmf ccNrgresShape2Dcmf = Some s2" "cdf_table s2"
    using ccDcmf_table [of ccNrgresShape2Dcmf] shape2_length by fastforce
  obtain g4 where g4: "ccDcmf (nrgresGain4Dcmf s) = Some g4" "cdf_table g4"
    using ccDcmf_table [of "nrgresGain4Dcmf s"] assms by (auto simp: seed_ok_def)
  obtain s4 where s4: "ccDcmf (nrgresShape4Dcmf s) = Some s4" "cdf_table s4"
    using ccDcmf_table [of "nrgresShape4Dcmf s"] assms by (auto simp: seed_ok_def)
  obtain off where off: "ccDcmfChunks (fcbgOffsetDcmf s) ccFcbgOffsetSteps = Some off" "length off = 12"
      "\<forall>c\<in>set off. cdf_table c \<and> length c = 177"
    using chunk_tables [of ccFcbgOffsetSteps "fcbgOffsetDcmf s" 12] assms by (auto simp: seed_ok_def ccFcbgOffsetSteps_def)
  obtain gv where gv: "ccDcmf (fcbgainsVDcmf s) = Some gv" "cdf_table gv" "length gv = 35"
    using ccDcmf_table [of "fcbgainsVDcmf s"] assms by (fastforce simp: seed_ok_def)
  obtain gd where gd: "ccDcmf (fcbgainsVDeltaDcmf s) = Some gd" "cdf_table gd" "length gd = 68"
    using ccDcmf_table [of "fcbgainsVDeltaDcmf s"] assms by (fastforce simp: seed_ok_def)
  obtain hr where hr: "ccDcmfChunks (acbgainsHrDcmf s) ccAcbgN = Some hr" "length hr = 17"
      "\<forall>c\<in>set hr. cdf_table c \<and> length c = 17"
    using chunk_tables [of ccAcbgN "acbgainsHrDcmf s" 17] assms by (auto simp: seed_ok_def ccAcbgN_def)
  obtain lr where lr: "ccDcmfChunks celpAcbgainsDcmfLR ccAcbgN = Some lr" "length lr = 17"
      "\<forall>c\<in>set lr. cdf_table c \<and> length c = 17"
    using chunk_tables [of ccAcbgN celpAcbgainsDcmfLR 17] lr_length by (auto simp: ccAcbgN_def)
  obtain b u v where np: "ccDcmf (nPulsesDcmfBgn s) = Some b" "ccDcmf (nPulsesDcmfUv s) = Some u" "ccDcmf (nPulsesDcmfV s) = Some v"
      "\<forall>c\<in>set [b, u, v]. cdf_table c \<and> length c \<le> 34"
    using seeds_table [of "nPulsesDcmfBgn s"] seeds_table [of "nPulsesDcmfUv s"] seeds_table [of "nPulsesDcmfV s"] assms
    by (auto simp: seed_ok_def)
  obtain sp where sp: "ccCreateSplitCmfs = Some sp" "length sp = 159"
      "\<forall>i<159. cdf_table (sp ! i) \<and> int (length (sp ! i)) = int i + 1 - 2 * max 0 (int i + 1 - 80) + 2"
    using build_splits by blast
  obtain rl where rl: "all_some (map (\<lambda>oct. ccCreateRunlenTable (oct * ccRunlengthStep)) [1..ccNumRunlenCmfs]) = Some rl"
      "length rl = 20" "\<forall>i<20. runlen_ok ((int i + 1) * 8) (rl ! i)"
    using build_runs by blast
  define t where "t = \<lparr>nrgresGain2 = g2, nrgresShape2 = s2, nrgresGain4 = g4, nrgresShape4 = s4,
       fcbgOffset = off, acbgainsHr = concat hr, acbgainsLr = concat lr, fcbgainsV = gv, fcbgainsVDelta = gd,
       acbgainsCbHrQ14 = map wrap16 (seedCbHrQ14 s), acbgainsCbLrQ14 = cbAcbgainsLRQ14,
       gainRecon = int16_le (seedRecon s), gainReconBase = seedReconBase s, nPulseCmfs = [b, u, v], splitCmfs = sp,
       runlen = rl\<rparr>"
  have n: "all_some (map ccDcmf [nPulsesDcmfBgn s, nPulsesDcmfUv s, nPulsesDcmfV s]) = Some [b, u, v]" using np(1-3) by simp
  have "build s = Some t"
    unfolding build_def t_def g2(1) s2(1) g4(1) s4(1) off(1) gv(1) gd(1) hr(1) lr(1) n sp(1) rl(1) bind.bind_lunit ..
  moreover have "length (seedCbHrQ14 s) = 32" using assms by (simp add: seed_ok_def)
  then have "tables_ok t"
    using g2(2) s2(2) g4(2) s4(2) off(2,3) gv(2,3) gd(2,3) np(4) sp(2,3) rl(2,3) lr_length(2)
    by (intro tables_of_parts [OF _ _ _ _ hr(2,3) _ lr(2,3)]) (simp_all add: t_def)
  ultimately show ?thesis by blast
qed

text \<open>C9: whatever bytes the packed seed holds, as long as its fields have the lengths the code indexes them with,
  building the runtime tables does not panic and every table the symbol decoders read is a range coder
  table of the size they rely on: it starts at 0 and grows strictly, so every symbol can be coded.\<close>

theorem build_tables:
  assumes "seed_ok s"
  shows "\<exists>t. build s = Some t \<and> tables_ok t"
  by (rule tables_built [OF assms])

theorem build_tables_witness:
  "\<exists>t. build \<lparr>nrgresGain4Dcmf = [7], nrgresShape4Dcmf = [7, 255], fcbgOffsetDcmf = replicate 2112 200,
      acbgainsHrDcmf = replicate 272 0, fcbgainsVDcmf = replicate 34 1, fcbgainsVDeltaDcmf = replicate 67 255,
      seedCbHrQ14 = replicate 32 0, seedReconBase = 0xf35e0, seedRecon = [], nPulsesDcmfBgn = [1, 2],
      nPulsesDcmfUv = [3], nPulsesDcmfV = [0]\<rparr> = Some t \<and> tables_ok t"
  by (rule build_tables) (simp add: seed_ok_def)

text \<open>C14: the three expansions of delta tables in the code (\<open>celpDcmfToCmf\<close>, \<open>lsfDcmfToCmf\<close> and
  \<open>pitchDcmfToCmf\<close>, with 32-bit, 64-bit and 16-bit intermediate values) compute the same table, for any
  delta table short enough for a 15-bit frequency per entry.\<close>

theorem dcmf_expansions_agree:
  assumes "length bs \<le> 32766"
  shows "celpDcmfToCmf bs = Some (lsfDcmfToCmf bs) \<and> pitchDcmfToCmf bs = map ucast (lsfDcmfToCmf bs)"
proof -
  have "x \<le> 32767" if "x \<in> set (dcmf_table bs)" for x
    using that cums_bound [of x 0 "shares (length bs) (map square_nat bs)"] shares_total [of "map square_nat bs"] assms
    by (auto simp: dcmf_table_def)
  then have "map (\<lambda>x. of_nat x :: u32) (dcmf_table bs) = map (\<lambda>x. ucast (of_nat x :: u16)) (dcmf_table bs)"
    by (auto simp: word_unat_eq_iff unat_of_small)
  then show ?thesis using dcmf_tables [OF assms] by (simp add: comp_def)
qed

theorem dcmf_expansions_agree_witness:
  "celpDcmfToCmf [3, 200, 255, 0] = Some (lsfDcmfToCmf [3, 200, 255, 0]) \<and>
   pitchDcmfToCmf [3, 200, 255, 0] = map ucast (lsfDcmfToCmf [3, 200, 255, 0])"
  by (rule dcmf_expansions_agree) simp

end
