(* ===== verification/MlowSymbols.thy ===== *)
theory MlowSymbols
  imports MlowSplits
begin

text \<open>
  mlow/lsf.go, mlow/pulse.go and mlow/gains.go with their inverses in mlow/encoder.go: the LSF, pulse and
  gain blocks of an internal frame.  The tables are parameters, \<open>LoadSmplTables\<close> and \<open>LoadCcTables\<close> in the
  code.  An \<open>int32\<close> is an integer, kept in range by \<open>wrap32\<close> where the code could leave it; \<open>None\<close> is a
  panic, or a normalization loop of the range coder that does not end.
\<close>

section \<open>Symbols of the range coder\<close>

definition read_cdf :: "RangeDecoder \<Rightarrow> u16 list \<Rightarrow> (int \<times> RangeDecoder) option" where
  "read_cdf d cdf = map_option (\<lambda>(v, d1). (sint v, d1)) (DecodeCDF d cdf)"

definition write_cdf :: "RangeEncoder \<Rightarrow> int \<Rightarrow> u16 list \<Rightarrow> RangeEncoder option" where
  "write_cdf e v cdf = EncodeCDF e (word_of_int v) cdf"

section \<open>The LSF block\<close>

record SmplTables =
  LsfSel :: "u16 list list"
  Match1 :: "u16 list"
  Match1Alt :: "u16 list"
  Match0 :: "u16 list"
  Match0Alt :: "u16 list"
  LsfStage2 :: "u16 list list list list list"
  LsfExtra :: "u16 list"

record SmplLsfState =
  PrevStage1 :: int
  PrevMatch :: bool
  HavePrev :: bool
  PrevGainIdx :: int
  PrevFiltIdx :: int
  PrevLag :: int
  PrevFracLag :: int
  PrevLagblk :: int
  PrevLagidx :: int

definition SmplAdvanceLsfState :: "SmplLsfState \<Rightarrow> int \<Rightarrow> int \<Rightarrow> SmplLsfState" where
  "SmplAdvanceLsfState st intf stage1 =
     (let m = (intf \<noteq> 0 \<and> stage1 = PrevStage1 st);
          st1 = (if m then st else st\<lparr>PrevGainIdx := - 1, PrevFiltIdx := - 1, PrevLag := - 1, PrevFracLag := - 1,
                   PrevLagblk := - 1, PrevLagidx := - 1\<rparr>)
      in st1\<lparr>PrevStage1 := stage1, PrevMatch := m, HavePrev := True\<rparr>)"

record SmplLsfIndices =
  idxStage1 :: int
  idxGrid :: int
  idxStage2 :: "int list"
  idxNraw :: "int list"
  idxExtra :: int

record SmplLsfParams =
  Stage1 :: int
  Grid :: int
  Stage2 :: "int list"
  Extra :: int

text \<open>The row of the stage-1 selector, the grid table, and the reset of the predictors of the decoder.\<close>

definition lsf_row :: "SmplLsfState \<Rightarrow> int \<Rightarrow> int" where
  "lsf_row st intf = (if intf \<noteq> 0 then (if PrevStage1 st \<noteq> 0 then 2 else 1) else 0)"

definition grid_cdf :: "SmplTables \<Rightarrow> bool \<Rightarrow> int \<Rightarrow> u16 list" where
  "grid_cdf t m stage1 =
     (if m \<and> stage1 \<noteq> 0 then Match1 t
      else if m then Match1Alt t
      else if stage1 \<noteq> 0 then Match0Alt t
      else Match0 t)"

definition lsf_advance :: "SmplLsfState \<Rightarrow> int \<Rightarrow> int \<Rightarrow> bool \<times> SmplLsfState" where
  "lsf_advance st intf stage1 =
     (let m = (intf \<noteq> 0 \<and> stage1 = PrevStage1 st);
          st1 = (if m then st
                 else st\<lparr>PrevGainIdx := - 1, PrevFiltIdx := - 1, PrevLag := - 1, PrevFracLag := - 1\<rparr>)
      in (m, st1\<lparr>PrevStage1 := stage1\<rparr>))"

fun read_residuals :: "RangeDecoder \<Rightarrow> u16 list list \<Rightarrow> int list \<Rightarrow> (int list \<times> int list \<times> RangeDecoder) option" where
  "read_residuals d rows [] = Some ([], [], d)"
| "read_residuals d rows (k # ks) = do {
     c \<leftarrow> at rows k;
     (v, d1) \<leftarrow> read_cdf d c;
     (vs, ns, d2) \<leftarrow> read_residuals d1 rows ks;
     Some (v # vs, (int (length c) - 2) # ns, d2)
   }"

definition DecodeSmplLsf ::
  "RangeDecoder \<Rightarrow> SmplTables \<Rightarrow> SmplLsfState \<Rightarrow> int \<Rightarrow> int \<Rightarrow> (SmplLsfIndices \<times> SmplLsfState \<times> RangeDecoder) option" where
  "DecodeSmplLsf d t st config intf = do {
     sel \<leftarrow> at (LsfSel t) (lsf_row st intf);
     (stage1, d1) \<leftarrow> read_cdf d sel;
     let (m, st1) = lsf_advance st intf stage1;
     (grid, d2) \<leftarrow> read_cdf d1 (grid_cdf t m stage1);
     let st2 = st1\<lparr>PrevMatch := m, HavePrev := True\<rparr>;
     configs \<leftarrow> at (LsfStage2 t) stage1;
     grids \<leftarrow> at configs config;
     rows \<leftarrow> at grids grid;
     (stage2, nraw, d3) \<leftarrow> read_residuals d2 rows [0..15];
     (extra, d4) \<leftarrow> read_cdf d3 (LsfExtra t);
     Some (\<lparr>idxStage1 = stage1, idxGrid = grid, idxStage2 = stage2, idxNraw = nraw, idxExtra = extra\<rparr>, st2, d4)
   }"

definition enc_advance :: "SmplLsfState \<Rightarrow> int \<Rightarrow> int \<Rightarrow> bool \<times> SmplLsfState" where
  "enc_advance st intf stage1 =
     (let m = (intf \<noteq> 0 \<and> stage1 = PrevStage1 st);
          st1 = (if m then st
                 else st\<lparr>PrevGainIdx := - 1, PrevFiltIdx := - 1, PrevLag := - 1, PrevFracLag := - 1,
                   PrevLagblk := - 1, PrevLagidx := - 1\<rparr>)
      in (m, st1\<lparr>PrevStage1 := stage1\<rparr>))"

fun write_residuals :: "RangeEncoder \<Rightarrow> u16 list list \<Rightarrow> int list \<Rightarrow> int list \<Rightarrow> RangeEncoder option" where
  "write_residuals e rows vs [] = Some e"
| "write_residuals e rows vs (k # ks) = do {
     v \<leftarrow> at vs k;
     c \<leftarrow> at rows k;
     e1 \<leftarrow> write_cdf e v c;
     write_residuals e1 rows vs ks
   }"

definition encodeSmplLsf ::
  "RangeEncoder \<Rightarrow> SmplTables \<Rightarrow> SmplLsfState \<Rightarrow> int \<Rightarrow> int \<Rightarrow> SmplLsfParams \<Rightarrow> (SmplLsfState \<times> RangeEncoder) option" where
  "encodeSmplLsf e t st config intf lsf = do {
     sel \<leftarrow> at (LsfSel t) (lsf_row st intf);
     e1 \<leftarrow> write_cdf e (Stage1 lsf) sel;
     let (m, st1) = enc_advance st intf (Stage1 lsf);
     e2 \<leftarrow> write_cdf e1 (Grid lsf) (grid_cdf t m (Stage1 lsf));
     let st2 = st1\<lparr>PrevMatch := m, HavePrev := True\<rparr>;
     configs \<leftarrow> at (LsfStage2 t) (Stage1 lsf);
     grids \<leftarrow> at configs config;
     rows \<leftarrow> at grids (Grid lsf);
     e3 \<leftarrow> write_residuals e2 rows (Stage2 lsf) [0..15];
     e4 \<leftarrow> write_cdf e3 (Extra lsf) (LsfExtra t);
     Some (st2, e4)
   }"

section \<open>The pulse block\<close>

definition smplPulseCountByte :: bytes where
  "smplPulseCountByte = [80, 160, 160, 16, 32, 32, 0, 0]"

definition Mem8Static :: "u32 \<Rightarrow> u8" where
  "Mem8Static addr =
     (if 0xe8990 \<le> addr \<and> addr < 0xe8998 then smplPulseCountByte ! unat (addr - 0xe8990) else 0)"

record SmplPulseResult =
  pulseVector :: "int list"
  subfr :: "int list"
  magRuns :: "int list"
  signSyms :: "(u32 \<times> u32) list"

record SmplPulseParams =
  Total :: int
  Subfr :: "int list"
  MagRuns :: "int list"
  SignSyms :: "(u32 \<times> u32) list"

text \<open>The triangular prior of the pulse count: the cumulative frequency up to \<open>k\<close>, and the search.\<close>

definition triT :: "u32 \<Rightarrow> u32 \<Rightarrow> u32" where
  "triT l k = ((k + 2) * (l + 1) - drop_bit 1 ((k - 1) * (k + 131070))) AND 0xffff"

fun tri_search :: "nat \<Rightarrow> u32 \<Rightarrow> u32 \<Rightarrow> u32 \<Rightarrow> u32 \<Rightarrow> u32 \<Rightarrow> RangeDecoder \<Rightarrow> (u32 \<times> RangeDecoder) option" where
  "tri_search 0 l val ft prevCum k d = Some (k, d)"
| "tri_search (Suc n) l val ft prevCum k d =
     (let cum = triT l k
      in if prevCum \<le> val \<and> val < cum then map_option (Pair k) (Update d prevCum cum ft)
         else tri_search n l val ft cum (k + 1) d)"

definition decode_count :: "RangeDecoder \<Rightarrow> int \<Rightarrow> (int \<times> RangeDecoder) option" where
  "decode_count d frameLen4k =
     (let l = word_of_int frameLen4k;
          ft = (if triT l l = 0 then 1 else triT l l);
          (val, d1) = Decode d ft
      in map_option (\<lambda>(k, d2). (sint k, d2)) (tri_search (unat (l + 1)) l val ft 0 0 d1))"

text \<open>\<open>smplSplit3537\<close> returns \<open>-1\<close> for counts that cannot be split.\<close>

definition smplSplit3537 :: "RangeDecoder \<Rightarrow> CcTables \<Rightarrow> int \<Rightarrow> int \<Rightarrow> (int \<times> RangeDecoder) option" where
  "smplSplit3537 d cc count granularity =
     (let lo = min count granularity; minSplit = max 0 (count - granularity)
      in if lo < minSplit then Some (- 1, d)
         else if minSplit = lo then Some (minSplit, d)
         else do {
           w \<leftarrow> cdfWindow (SplitCmf cc count) minSplit (lo - minSplit + 2);
           (v, d1) \<leftarrow> read_cdf d w;
           Some (v + minSplit, d1)
         })"

definition decodePulseSubframeCounts ::
  "RangeDecoder \<Rightarrow> CcTables \<Rightarrow> int \<Rightarrow> int \<Rightarrow> int \<Rightarrow> ((int list \<times> bool) \<times> RangeDecoder) option" where
  "decodePulseSubframeCounts d cc total' subfrLen16 p3 =
     (if total' = 0 then Some ((replicate 8 0, True), d)
      else if p3 = 2 then do {
        (s0, d1) \<leftarrow> smplSplit3537 d cc total' subfrLen16;
        Some (if s0 < 0 then (replicate 8 0, False) else ([s0, total' - s0, 0, 0, 0, 0, 0, 0], True), d1)
      }
      else
        let sum0 = max 0 (total' - subfrLen16 * 2); lo = max 0 (total' - 80); hiBound = total' - lo
        in if sum0 < lo then Some ((replicate 8 0, False), d)
           else do {
             (s, d1) \<leftarrow> (if sum0 < hiBound then do {
                 w \<leftarrow> cdfWindow (SplitCmf cc total') (sum0 - lo) (hiBound - sum0 + 2);
                 (v, d1) \<leftarrow> read_cdf d w;
                 Some (sum0 + v, d1)
               } else Some (sum0, d));
             (a0, a1, d2) \<leftarrow> (if 0 < s then do {
                 (s0, d2) \<leftarrow> smplSplit3537 d1 cc s subfrLen16;
                 Some (s0, s - s0, d2)
               } else Some (0, 0, d1));
             (a2, a3, d3) \<leftarrow> (if s < total' then do {
                 (s2, d3) \<leftarrow> smplSplit3537 d2 cc (total' - s) subfrLen16;
                 Some (s2, total' - s - s2, d3)
               } else Some (0, 0, d2));
             Some (if a0 = - 1 \<or> a2 = - 1 then (replicate 8 0, True) else ([a0, a1, a2, a3, 0, 0, 0, 0], True), d3)
           })"

text \<open>
  The run lengths of one subframe: positions, magnitudes and raw runs are collected, \<open>pulseIdx\<close> is the
  index of the last position; \<open>n\<close> is what is left of the count, \<open>first\<close> stands for \<open>k = 0\<close>.
\<close>

type_synonym mags = "int list \<times> int list \<times> int list"

fun mag_loop :: "CcTables \<Rightarrow> nat \<Rightarrow> bool \<Rightarrow> int \<Rightarrow> int \<Rightarrow> int \<Rightarrow> mags \<Rightarrow> RangeDecoder \<Rightarrow> (mags \<times> RangeDecoder) option" where
  "mag_loop cc 0 first runPos pos c acc d = Some (acc, d)"
| "mag_loop cc (Suc n) first runPos pos c (posList, magList, runs) d =
     (if pos < 0 then Some ((posList, magList, runs), d)
      else do {
        bucket \<leftarrow> Runlen cc ((pos + 7) div 8);
        row \<leftarrow> Cmf bucket c;
        w \<leftarrow> cdfWindow row (maxSamples bucket - pos) (pos + 1);
        (m, d1) \<leftarrow> read_cdf d w;
        (if 0 < m \<or> first then
           mag_loop cc n False (runPos + m) (pos - m) (c - 1) (posList @ [runPos + m], magList @ [1], runs @ [m]) d1
         else
           mag_loop cc n False runPos pos (c - 1)
             (posList, if magList = [] then magList else butlast magList @ [last magList + 1], runs @ [m]) d1)
      })"

fun mag_subframes :: "CcTables \<Rightarrow> int \<Rightarrow> int \<Rightarrow> int list \<Rightarrow> mags \<Rightarrow> RangeDecoder \<Rightarrow> (mags \<times> RangeDecoder) option" where
  "mag_subframes cc posPer basePos [] acc d = Some (acc, d)"
| "mag_subframes cc posPer basePos (cnt # cnts) acc d =
     (if cnt \<le> 0 then mag_subframes cc posPer (basePos + posPer) cnts acc d
      else do {
        (acc1, d1) \<leftarrow> mag_loop cc (nat cnt) True basePos posPer cnt acc d;
        mag_subframes cc posPer (basePos + posPer) cnts acc1 d1
      })"

text \<open>The signs, at most 15 in a raw symbol, the first position in the highest bit.\<close>

fun apply_signs :: "u32 \<Rightarrow> int list \<Rightarrow> int list" where
  "apply_signs bitfield [] = []"
| "apply_signs bitfield (m # ms) = m * (uint (drop_bit 14 bitfield AND 2) - 1) # apply_signs (push_bit 1 bitfield) ms"

function sign_loop :: "int list \<Rightarrow> RangeDecoder \<Rightarrow> (int list \<times> (u32 \<times> u32) list \<times> RangeDecoder) option" where
  "sign_loop mags d =
     (if mags = [] then Some ([], [], d)
      else
        let nbits = min (length mags) 15
        in do {
          (s, d1) \<leftarrow> DecodeRawSymbol d (of_nat nbits);
          (ms, syms, d2) \<leftarrow> sign_loop (drop nbits mags) d1;
          Some (apply_signs (push_bit (16 - nbits) s) (take nbits mags) @ ms, (s, of_nat nbits) # syms, d2)
        })"
  by pat_completeness auto

termination
  by (relation "measure (\<lambda>(mags, d). length mags)") auto

declare sign_loop.simps [simp del]

fun scatter :: "int list \<Rightarrow> int list \<Rightarrow> int list \<Rightarrow> int list" where
  "scatter (p # ps) (m # ms) xs =
     scatter ps ms (if 0 \<le> p \<and> p < int (length xs) then xs[nat p := m] else xs)"
| "scatter _ _ xs = xs"

text \<open>The sizes of a frame: the pulses it may hold, the pulses of a subframe, the positions of a subframe.\<close>

definition pulse_sizes :: "int \<Rightarrow> int \<Rightarrow> int \<Rightarrow> int \<Rightarrow> int \<Rightarrow> (int \<times> int \<times> int) option" where
  "pulse_sizes p2 p3 p4 p6 s1 =
     (if p3 = 0 then None
      else
        let idx = p4 + s1;
            bByte = uint (Mem8Static (0xe8990 + word_of_int (p6 * 3 + idx)));
            frameLen4k = wrap32 (bByte * p2) sdiv 320
        in Some (frameLen4k, frameLen4k sdiv p3, p2 sdiv p3))"

definition DecodeSmplPulses ::
  "RangeDecoder \<Rightarrow> CcTables \<Rightarrow> int \<Rightarrow> int \<Rightarrow> int \<Rightarrow> int \<Rightarrow> int \<Rightarrow> (SmplPulseResult \<times> RangeDecoder) option" where
  "DecodeSmplPulses d cc p2 p3 p4 p6 s1 = do {
     (frameLen4k, subfrLen16, posPer) \<leftarrow> pulse_sizes p2 p3 p4 p6 s1;
     let zero = replicate (nat (max p2 0)) 0;
     (total', d1) \<leftarrow> (if p6 \<noteq> 0 then do {
         cdf \<leftarrow> NPulseCount cc (p4 + s1);
         read_cdf d cdf
       } else decode_count d frameLen4k);
     ((split, ok), d2) \<leftarrow> decodePulseSubframeCounts d1 cc total' subfrLen16 p3;
     (if \<not> ok then
        Some (\<lparr>pulseVector = zero, subfr = [0, 0, 0, 0], magRuns = [], signSyms = []\<rparr>, d2)
      else if 8 < p3 then None
      else do {
        let n = nat (min 4 (max 0 p3));
        ((posList, magList, runs), d3) \<leftarrow> mag_subframes cc posPer 0 (take (nat p3) split) ([], [], []) d2;
        (mags, syms, d4) \<leftarrow> sign_loop magList d3;
        Some (\<lparr>pulseVector = scatter posList mags zero, subfr = take n split @ replicate (4 - n) 0,
               magRuns = runs, signSyms = syms\<rparr>, d4)
      })
   }"

definition encodeSplit3537 :: "RangeEncoder \<Rightarrow> CcTables \<Rightarrow> int \<Rightarrow> int \<Rightarrow> int \<Rightarrow> RangeEncoder option" where
  "encodeSplit3537 e cc count granularity s0 =
     (let lo = min count granularity; minSplit = max 0 (count - granularity)
      in if lo < minSplit \<or> minSplit = lo then Some e
         else do {
           w \<leftarrow> cdfWindow (SplitCmf cc count) minSplit (lo - minSplit + 2);
           write_cdf e (s0 - minSplit) w
         })"

fun mag_replay :: "CcTables \<Rightarrow> nat \<Rightarrow> bool \<Rightarrow> int \<Rightarrow> int \<Rightarrow> int list \<Rightarrow> RangeEncoder \<Rightarrow> (int list \<times> RangeEncoder) option" where
  "mag_replay cc 0 first pos c runs e = Some (runs, e)"
| "mag_replay cc (Suc n) first pos c [] e = None"
| "mag_replay cc (Suc n) first pos c (m # runs) e = do {
     bucket \<leftarrow> Runlen cc ((pos + 7) sdiv 8);
     row \<leftarrow> Cmf bucket c;
     w \<leftarrow> cdfWindow row (maxSamples bucket - pos) (pos + 1);
     e1 \<leftarrow> write_cdf e m w;
     mag_replay cc n False (if 0 < m \<or> first then pos - m else pos) (c - 1) runs e1
   }"

fun mag_replays :: "CcTables \<Rightarrow> int \<Rightarrow> int list \<Rightarrow> int list \<Rightarrow> RangeEncoder \<Rightarrow> RangeEncoder option" where
  "mag_replays cc posPer [] runs e = Some e"
| "mag_replays cc posPer (cnt # cnts) runs e =
     (if cnt \<le> 0 then mag_replays cc posPer cnts runs e
      else do {
        (runs1, e1) \<leftarrow> mag_replay cc (nat cnt) True posPer cnt runs e;
        mag_replays cc posPer cnts runs1 e1
      })"

fun sign_replay :: "(u32 \<times> u32) list \<Rightarrow> RangeEncoder \<Rightarrow> RangeEncoder option" where
  "sign_replay [] e = Some e"
| "sign_replay ((s, nbits) # syms) e = do {
     e1 \<leftarrow> EncodeRawSymbol e s nbits;
     sign_replay syms e1
   }"

text \<open>The subframe counts are an array of four.\<close>

definition encodeSmplPulses ::
  "RangeEncoder \<Rightarrow> CcTables \<Rightarrow> int \<Rightarrow> int \<Rightarrow> int \<Rightarrow> int \<Rightarrow> int \<Rightarrow> SmplPulseParams \<Rightarrow> RangeEncoder option" where
  "encodeSmplPulses e cc p2 p3 p4 p6 s1 pp = do {
     (frameLen4k, subfrLen16, posPer) \<leftarrow> pulse_sizes p2 p3 p4 p6 s1;
     let l = word_of_int frameLen4k;
     let ft = (if triT l l = 0 then 1 else triT l l);
     let fl = (if 0 < Total pp then triT l (word_of_int (Total pp - 1)) else 0);
     e1 \<leftarrow> Encode e fl (triT l (word_of_int (Total pp))) ft;
     (if Total pp = 0 then Some e1
      else
        let finalSum = Subfr pp ! 0 + Subfr pp ! 1; initSum = max 0 (Total pp - subfrLen16 * 2);
            lo = max 0 (Total pp - 80); hiBound = Total pp - lo
        in if initSum < lo then Some e1
           else do {
             e2 \<leftarrow> (if initSum < hiBound then do {
                 w \<leftarrow> cdfWindow (SplitCmf cc (Total pp)) (initSum - lo) (hiBound - initSum + 2);
                 write_cdf e1 (finalSum - initSum) w
               } else Some e1);
             e3 \<leftarrow> (if 0 < finalSum then encodeSplit3537 e2 cc finalSum subfrLen16 (Subfr pp ! 0) else Some e2);
             e4 \<leftarrow> (if finalSum < Total pp
                then encodeSplit3537 e3 cc (Total pp - finalSum) subfrLen16 (Subfr pp ! 2) else Some e3);
             (if 4 < p3 then None
              else do {
                e5 \<leftarrow> mag_replays cc posPer (take (nat p3) (Subfr pp)) (MagRuns pp) e4;
                sign_replay (SignSyms pp) e5
              })
           })
   }"

section \<open>The gain block\<close>

record SmplGainResult =
  GainQ :: "int list"
  nrgRes :: "int list"
  gainMain :: int
  gainDelta :: int

record SmplGainParams =
  GainMain :: int
  GainDelta :: int
  NrgRes :: "int list"

definition cfg_sel :: "int \<Rightarrow> int" where "cfg_sel p3 = (if p3 = 2 then 1 else 2)"

definition subframes :: "int \<Rightarrow> int list" where "subframes p3 = [0..min p3 4 - 1]"

text \<open>The reconstructed gains of the subframes, and the table of the residual energy of one.\<close>

definition gain_levels :: "CcTables \<Rightarrow> int \<Rightarrow> int \<Rightarrow> int \<Rightarrow> int list" where
  "gain_levels cc p3 main delta =
     (let off6 = wrap32 (p3 * delta);
          base7 = wrap32 (wrap32 (main * NrgStep cc (cfg_sel p3)) - 0x154000);
          gains = map (\<lambda>sf. wrap32 (base7 + wrap32 (GainRecon cc (p3 = 4) (wrap32 (sf + off6)) * 16))) (subframes p3)
      in gains @ replicate (4 - length gains) 0)"

definition nrg_row :: "CcTables \<Rightarrow> int \<Rightarrow> int \<Rightarrow> int \<Rightarrow> u16 list option" where
  "nrg_row cc p3 cnt gainq =
     (let bucket = (if 30 \<le> cnt then 3 else (cnt AND 0xffff) div 10);
          g0 = wrap32 (gainq + 8192) div 2 ^ 14;
          g = (if g0 < - 85 then - 85 else g0);
          negPart = (g div 2 ^ 31) AND g
      in FcbgOffset cc (cfg_sel p3) bucket (- negPart))"

fun read_energies ::
  "RangeDecoder \<Rightarrow> CcTables \<Rightarrow> int \<Rightarrow> int list \<Rightarrow> int list \<Rightarrow> int list \<Rightarrow> (int list \<times> RangeDecoder) option" where
  "read_energies d cc p3 counts gains [] = Some ([], d)"
| "read_energies d cc p3 counts gains (sf # sfs) =
     (if counts ! nat sf \<le> 0 then do {
        (vs, d1) \<leftarrow> read_energies d cc p3 counts gains sfs;
        Some (0 # vs, d1)
      } else do {
        row \<leftarrow> nrg_row cc p3 (counts ! nat sf) (gains ! nat sf);
        (v, d1) \<leftarrow> read_cdf d row;
        (vs, d2) \<leftarrow> read_energies d1 cc p3 counts gains sfs;
        Some (v # vs, d2)
      })"

definition DecodeSmplGains :: "RangeDecoder \<Rightarrow> CcTables \<Rightarrow> int \<Rightarrow> int list \<Rightarrow> (SmplGainResult \<times> RangeDecoder) option" where
  "DecodeSmplGains d cc p3 subfrCounts = do {
     (main, d1) \<leftarrow> read_cdf d (NrgresGain cc p3);
     (delta, d2) \<leftarrow> read_cdf d1 (NrgresShape cc p3);
     let gains = gain_levels cc p3 main delta;
     (vs, d3) \<leftarrow> read_energies d2 cc p3 subfrCounts gains (subframes p3);
     Some (\<lparr>GainQ = gains, nrgRes = vs @ replicate (4 - length vs) 0, gainMain = main, gainDelta = delta\<rparr>, d3)
   }"

fun write_energies ::
  "RangeEncoder \<Rightarrow> CcTables \<Rightarrow> int \<Rightarrow> int list \<Rightarrow> int list \<Rightarrow> int list \<Rightarrow> int list \<Rightarrow> RangeEncoder option" where
  "write_energies e cc p3 counts gains vs [] = Some e"
| "write_energies e cc p3 counts gains vs (sf # sfs) =
     (if counts ! nat sf \<le> 0 then write_energies e cc p3 counts gains vs sfs
      else do {
        row \<leftarrow> nrg_row cc p3 (counts ! nat sf) (gains ! nat sf);
        e1 \<leftarrow> write_cdf e (vs ! nat sf) row;
        write_energies e1 cc p3 counts gains vs sfs
      })"

definition encodeSmplGains :: "RangeEncoder \<Rightarrow> CcTables \<Rightarrow> int \<Rightarrow> int list \<Rightarrow> SmplGainParams \<Rightarrow> RangeEncoder option" where
  "encodeSmplGains e cc p3 subfrCounts gp = do {
     e1 \<leftarrow> write_cdf e (GainMain gp) (NrgresGain cc p3);
     e2 \<leftarrow> write_cdf e1 (GainDelta gp) (NrgresShape cc p3);
     write_energies e2 cc p3 subfrCounts (gain_levels cc p3 (GainMain gp) (GainDelta gp)) (NrgRes gp) (subframes p3)
   }"

end
