(* ===== verification/MlowBlocks.thy ===== *)
theory MlowBlocks
  imports MlowSymbols
begin

text \<open>
  The blocks of an internal frame as lists of range coder symbols: what a decoder returns when its bytes
  hold such a list, that any bytes whatever hold one, and that the encoders write it.
\<close>

section \<open>Bytes that hold symbols\<close>

definition holds :: "symbol list \<Rightarrow> RangeDecoder \<Rightarrow> RangeDecoder \<Rightarrow> bool" where
  "holds ss d d' \<longleftrightarrow> list_all symbol_ok ss \<and> decode_all (map shape_of ss) d = Some (map value_of ss, d')"

lemma holds_Nil [simp]: "holds [] d d' \<longleftrightarrow> d' = d"
  by (auto simp: holds_def)

lemma holds_Cons: "holds (s # ss) d d' \<longleftrightarrow>
    symbol_ok s \<and> (\<exists>d1. decode_shape (shape_of s) d = Some (value_of s, d1) \<and> holds ss d1 d')"
  by (auto simp: holds_def split: option.splits)

lemma holds_append: "holds (xs @ ys) d d' \<longleftrightarrow> (\<exists>d1. holds xs d d1 \<and> holds ys d1 d')"
  by (induction xs arbitrary: d) (auto simp: holds_Cons)

lemma holds_one: "holds [s] d d' \<longleftrightarrow> symbol_ok s \<and> decode_shape (shape_of s) d = Some (value_of s, d')"
  by (auto simp: holds_Cons)

lemma holds_split: "holds (s # ss) d d' \<longleftrightarrow> (\<exists>d1. holds [s] d d1 \<and> holds ss d1 d')"
  using holds_append [of "[s]" ss] by simp

lemma holds_cdf: "holds [CdfSym c k] d d' \<Longrightarrow> read_cdf d c = Some (int k, d')"
  by (auto simp: holds_one read_cdf_def cdf_ok_def sint_of_nat_small)

lemma holds_cdf_index: "holds [CdfSym c k] d d' \<Longrightarrow> Suc k < length c"
  by (simp add: holds_one cdf_ok_def)

lemma holds_raw: "holds [RawSym v n] d d' \<Longrightarrow> DecodeRawSymbol d n = Some (v, d')"
  by (simp add: holds_one)

lemma holds_fine: "holds [FineSym v] d d' \<Longrightarrow> Decode64FineSym d = Some (v, d')"
  by (simp add: holds_one)

lemma any_symbol:
  assumes "shape_ok h" "dec_ready d"
  shows "\<exists>s d'. shape_of s = h \<and> holds [s] d d' \<and> dec_ready d'"
  using all_symbols.dec_total [OF assms] by (auto simp: holds_one)

lemma any_cdf:
  assumes "cdf_table c" "dec_ready d"
  shows "\<exists>k d'. k < length c - 1 \<and> holds [CdfSym c k] d d' \<and> dec_ready d'"
proof -
  obtain s d' where s: "shape_of s = CdfShape c" "holds [s] d d'" "dec_ready d'"
    using any_symbol [OF cdf_table_shape [OF assms(1)] assms(2)] by blast
  then obtain k where "s = CdfSym c k" by (cases s) auto
  then show ?thesis using s holds_cdf_index [of c k d d'] by (intro exI [of _ k] exI [of _ d']) auto
qed

lemma any_raw:
  assumes "unat n \<le> 23" "dec_ready d"
  shows "\<exists>v d'. unat v < 2 ^ unat n \<and> holds [RawSym v n] d d' \<and> dec_ready d'"
proof -
  obtain s d' where s: "shape_of s = RawShape n" "holds [s] d d'" "dec_ready d'"
    using any_symbol [of "RawShape n" d] assms by auto
  then obtain v where "s = RawSym v n" by (cases s) auto
  then show ?thesis using s by (auto simp: holds_one raw_ok_def)
qed

lemma encode_all_append: "encode_all (xs @ ys) e = Option.bind (encode_all xs e) (encode_all ys)"
  by (induction xs arbitrary: e) (auto split: option.splits)

lemma write_cdf_symbol: "0 \<le> v \<Longrightarrow> write_cdf e v c = encode_symbol (CdfSym c (nat v)) e"
  by (simp add: write_cdf_def flip: of_nat_nat)

lemma encode_one: "encode_symbol s e = encode_all [s] e"
  by (auto split: option.splits)

lemma at_nat: "0 \<le> i \<Longrightarrow> i < int (length xs) \<Longrightarrow> at xs i = Some (xs ! nat i)"
  by (simp add: at_def)

section \<open>The LSF block\<close>

definition lsf_match :: "SmplLsfState \<Rightarrow> int \<Rightarrow> int \<Rightarrow> bool" where
  "lsf_match st intf stage1 \<longleftrightarrow> intf \<noteq> 0 \<and> stage1 = PrevStage1 st"

definition lsf_rows :: "SmplTables \<Rightarrow> int \<Rightarrow> SmplLsfParams \<Rightarrow> u16 list list" where
  "lsf_rows t config p = LsfStage2 t ! nat (Stage1 p) ! nat config ! nat (Grid p)"

definition lsf_symbols :: "SmplTables \<Rightarrow> SmplLsfState \<Rightarrow> int \<Rightarrow> int \<Rightarrow> SmplLsfParams \<Rightarrow> symbol list" where
  "lsf_symbols t st config intf p =
     [CdfSym (LsfSel t ! nat (lsf_row st intf)) (nat (Stage1 p)),
      CdfSym (grid_cdf t (lsf_match st intf (Stage1 p)) (Stage1 p)) (nat (Grid p))] @
     map (\<lambda>k. CdfSym (lsf_rows t config p ! k) (nat (Stage2 p ! k))) [0..<16] @
     [CdfSym (LsfExtra t) (nat (Extra p))]"

text \<open>Tables of the shape the LSF decoder indexes.\<close>

definition lsf_tables_ok :: "SmplTables \<Rightarrow> bool" where
  "lsf_tables_ok t \<longleftrightarrow> length (LsfSel t) = 3 \<and> (\<forall>c\<in>set (LsfSel t). cdf_table c \<and> length c = 3) \<and>
     (\<forall>m s. cdf_table (grid_cdf t m s) \<and> length (grid_cdf t m s) \<le> 18) \<and>
     length (LsfStage2 t) = 2 \<and> (\<forall>configs\<in>set (LsfStage2 t). length configs = 2 \<and>
       (\<forall>grids\<in>set configs. length grids = 17 \<and>
         (\<forall>rows\<in>set grids. length rows = 16 \<and> (\<forall>c\<in>set rows. cdf_table c)))) \<and>
     cdf_table (LsfExtra t)"

definition index_in :: "int \<Rightarrow> 'a list \<Rightarrow> bool" where
  "index_in v c \<longleftrightarrow> 0 \<le> v \<and> v < int (length c) - 1"

definition lsf_params_ok :: "SmplTables \<Rightarrow> SmplLsfState \<Rightarrow> int \<Rightarrow> int \<Rightarrow> SmplLsfParams \<Rightarrow> bool" where
  "lsf_params_ok t st config intf p \<longleftrightarrow> Stage1 p \<in> {0, 1} \<and>
     index_in (Grid p) (grid_cdf t (lsf_match st intf (Stage1 p)) (Stage1 p)) \<and>
     length (Stage2 p) = 16 \<and> (\<forall>k<16. index_in (Stage2 p ! k) (lsf_rows t config p ! k)) \<and>
     index_in (Extra p) (LsfExtra t)"

lemma lsf_row_range: "0 \<le> lsf_row st intf \<and> lsf_row st intf < 3"
  by (simp add: lsf_row_def)

lemma sel_table:
  assumes "lsf_tables_ok t"
  shows "at (LsfSel t) (lsf_row st intf) = Some (LsfSel t ! nat (lsf_row st intf))"
    "cdf_table (LsfSel t ! nat (lsf_row st intf))" "length (LsfSel t ! nat (lsf_row st intf)) = 3"
proof -
  have "nat (lsf_row st intf) < length (LsfSel t)" using assms lsf_row_range [of st intf] by (simp add: lsf_tables_ok_def nat_less_iff)
  then have "LsfSel t ! nat (lsf_row st intf) \<in> set (LsfSel t)" by simp
  then show "cdf_table (LsfSel t ! nat (lsf_row st intf))" "length (LsfSel t ! nat (lsf_row st intf)) = 3"
    using assms by (auto simp: lsf_tables_ok_def)
  show "at (LsfSel t) (lsf_row st intf) = Some (LsfSel t ! nat (lsf_row st intf))"
    using assms lsf_row_range [of st intf] by (intro at_nat) (auto simp: lsf_tables_ok_def)
qed

lemma rows_table:
  assumes "lsf_tables_ok t" "Stage1 p \<in> {0, 1}" "config \<in> {0, 1}"
    "index_in (Grid p) (grid_cdf t (lsf_match st intf (Stage1 p)) (Stage1 p))"
  shows "at (LsfStage2 t) (Stage1 p) = Some (LsfStage2 t ! nat (Stage1 p))"
    "at (LsfStage2 t ! nat (Stage1 p)) config = Some (LsfStage2 t ! nat (Stage1 p) ! nat config)"
    "at (LsfStage2 t ! nat (Stage1 p) ! nat config) (Grid p) = Some (lsf_rows t config p)"
    "length (lsf_rows t config p) = 16" "\<And>k. k < 16 \<Longrightarrow> cdf_table (lsf_rows t config p ! k)"
proof -
  let ?cs = "LsfStage2 t ! nat (Stage1 p)"
  have cs: "?cs \<in> set (LsfStage2 t)" "at (LsfStage2 t) (Stage1 p) = Some ?cs"
    using assms(1,2) by (auto simp: lsf_tables_ok_def at_def)
  then have l: "length ?cs = 2" using assms(1) by (auto simp: lsf_tables_ok_def)
  then have gs: "?cs ! nat config \<in> set ?cs" "at ?cs config = Some (?cs ! nat config)"
    using assms(3) by (auto simp: at_def)
  then have l': "length (?cs ! nat config) = 17" using assms(1) cs by (auto simp: lsf_tables_ok_def)
  have "length (grid_cdf t (lsf_match st intf (Stage1 p)) (Stage1 p)) \<le> 18"
    using assms(1) unfolding lsf_tables_ok_def by blast
  then have g: "0 \<le> Grid p" "Grid p < 17" using assms(4) by (auto simp: index_in_def)
  then have r: "lsf_rows t config p \<in> set (?cs ! nat config)" "at (?cs ! nat config) (Grid p) = Some (lsf_rows t config p)"
    using l' by (auto simp: lsf_rows_def at_def)
  show "at (LsfStage2 t) (Stage1 p) = Some ?cs" "at ?cs config = Some (?cs ! nat config)"
    "at (?cs ! nat config) (Grid p) = Some (lsf_rows t config p)" using cs(2) gs(2) r(2) by simp_all
  have "length (lsf_rows t config p) = 16 \<and> (\<forall>c\<in>set (lsf_rows t config p). cdf_table c)"
    using assms(1) cs(1) gs(1) r(1) unfolding lsf_tables_ok_def by blast
  then show "length (lsf_rows t config p) = 16" "\<And>k. k < 16 \<Longrightarrow> cdf_table (lsf_rows t config p ! k)"
    by (auto intro: nth_mem)
qed

lemma residuals_read:
  "holds (map (\<lambda>k. CdfSym (rows ! k) (nat (vs ! k))) ks) d d' \<Longrightarrow> \<forall>k\<in>set ks. k < length rows \<and> 0 \<le> vs ! k \<Longrightarrow>
   read_residuals d rows (map int ks) = Some (map ((!) vs) ks, map (\<lambda>k. int (length (rows ! k)) - 2) ks, d')"
proof (induction ks arbitrary: d)
  case (Cons k ks)
  then obtain d1 where d1: "holds [CdfSym (rows ! k) (nat (vs ! k))] d d1"
      "holds (map (\<lambda>k. CdfSym (rows ! k) (nat (vs ! k))) ks) d1 d'"
    by (subst (asm) list.map, subst (asm) holds_split) blast
  then show ?case using Cons.IH [OF d1(2)] Cons.prems(2) holds_cdf [OF d1(1)] by (simp add: at_nat)
qed simp

lemma upto_16: "[0..15] = map int [0..<16]"
  by (simp add: upto.simps upt_conv_Cons)

lemma lsf_read:
  assumes "holds (lsf_symbols t st config intf p) d d'" "lsf_tables_ok t" "config \<in> {0, 1}" "lsf_params_ok t st config intf p"
  shows "DecodeSmplLsf d t st config intf =
    Some (\<lparr>idxStage1 = Stage1 p, idxGrid = Grid p, idxStage2 = Stage2 p,
            idxNraw = map (\<lambda>c. int (length c) - 2) (lsf_rows t config p), idxExtra = Extra p\<rparr>,
          (snd (lsf_advance st intf (Stage1 p)))\<lparr>PrevMatch := lsf_match st intf (Stage1 p), HavePrev := True\<rparr>, d')"
proof -
  let ?rows = "lsf_rows t config p"
  obtain d1 d2 d3 where h: "holds [CdfSym (LsfSel t ! nat (lsf_row st intf)) (nat (Stage1 p))] d d1"
      "holds [CdfSym (grid_cdf t (lsf_match st intf (Stage1 p)) (Stage1 p)) (nat (Grid p))] d1 d2"
      "holds (map (\<lambda>k. CdfSym (?rows ! k) (nat (Stage2 p ! k))) [0..<16]) d2 d3"
      "holds [CdfSym (LsfExtra t) (nat (Extra p))] d3 d'"
    using assms(1) unfolding lsf_symbols_def holds_append
    by (subst (asm) holds_split) blast
  have p: "Stage1 p \<in> {0, 1}" "0 \<le> Grid p" "0 \<le> Extra p" "\<forall>k<16. 0 \<le> Stage2 p ! k" "length (Stage2 p) = 16"
      "index_in (Grid p) (grid_cdf t (lsf_match st intf (Stage1 p)) (Stage1 p))"
    using assms(4) by (auto simp: lsf_params_ok_def index_in_def)
  note R = rows_table [OF assms(2) p(1) assms(3) p(6)]
  have r: "read_residuals d2 ?rows [0..15] =
      Some (map ((!) (Stage2 p)) [0..<16], map (\<lambda>k. int (length (?rows ! k)) - 2) [0..<16], d3)"
    unfolding upto_16 using h(3) p(4) R(4) by (intro residuals_read) auto
  have s: "map ((!) (Stage2 p)) [0..<16] = Stage2 p" "map (\<lambda>k. int (length (?rows ! k)) - 2) [0..<16] = map (\<lambda>c. int (length c) - 2) ?rows"
    using p(5) R(4) by (intro nth_equalityI; simp)+
  have a: "fst (lsf_advance st intf (Stage1 p)) = lsf_match st intf (Stage1 p)"
    by (simp add: lsf_advance_def lsf_match_def Let_def)
  have "0 \<le> Stage1 p" using p(1) by auto
  then show ?thesis
    using R(1-3) p(2,3) unfolding DecodeSmplLsf_def sel_table(1) [OF assms(2)]
    by (simp add: holds_cdf [OF h(1)] holds_cdf [OF h(2)] holds_cdf [OF h(4)] r s a split_beta Let_def del: upto_rec_numeral)
qed

lemma residuals_any:
  assumes "\<forall>k\<in>set ks. cdf_table (rows ! k)" "dec_ready d"
  shows "\<exists>ix d'. length ix = length ks \<and> (\<forall>j<length ks. ix ! j < length (rows ! (ks ! j)) - 1) \<and>
    holds (map (\<lambda>j. CdfSym (rows ! (ks ! j)) (ix ! j)) [0..<length ks]) d d' \<and> dec_ready d'"
  using assms
proof (induction ks arbitrary: d)
  case (Cons k ks)
  obtain i d1 where i: "i < length (rows ! k) - 1" "holds [CdfSym (rows ! k) i] d d1" "dec_ready d1"
    using any_cdf [of "rows ! k" d] Cons.prems by auto
  obtain js d' where js: "length js = length ks" "\<forall>j<length ks. js ! j < length (rows ! (ks ! j)) - 1"
      "holds (map (\<lambda>j. CdfSym (rows ! (ks ! j)) (js ! j)) [0..<length ks]) d1 d'" "dec_ready d'"
    using Cons.IH [OF _ i(3)] Cons.prems(1) by auto
  have "map (\<lambda>j. CdfSym (rows ! ((k # ks) ! j)) ((i # js) ! j)) [0..<length (k # ks)] =
      CdfSym (rows ! k) i # map (\<lambda>j. CdfSym (rows ! (ks ! j)) (js ! j)) [0..<length ks]"
    by (simp add: upt_conv_Cons del: upt_Suc flip: map_Suc_upt)
  then show ?case
    using i js by (intro exI [of _ "i # js"] exI [of _ d']) (auto simp: holds_split [of _ "_ # _"] holds_Cons nth_Cons split: nat.split)
qed simp

lemma lsf_any:
  assumes "lsf_tables_ok t" "config \<in> {0, 1}" "dec_ready d"
  shows "\<exists>p d'. lsf_params_ok t st config intf p \<and> holds (lsf_symbols t st config intf p) d d' \<and> dec_ready d'"
proof -
  obtain s1 d1 where s1: "s1 < 2" "holds [CdfSym (LsfSel t ! nat (lsf_row st intf)) s1] d d1" "dec_ready d1"
    using any_cdf [OF sel_table(2) [OF assms(1)] assms(3), of st intf] sel_table(3) [OF assms(1), of st intf] by auto
  let ?grid = "grid_cdf t (lsf_match st intf (int s1)) (int s1)"
  have "cdf_table ?grid" using assms(1) by (simp add: lsf_tables_ok_def)
  then obtain g d2 where g: "g < length ?grid - 1" "holds [CdfSym ?grid g] d1 d2" "dec_ready d2"
    using any_cdf [OF _ s1(3)] by blast
  define q where "q = \<lparr>Stage1 = int s1, Grid = int g, Stage2 = [], Extra = 0\<rparr>"
  let ?rows = "lsf_rows t config q"
  have q: "Stage1 q \<in> {0, 1}" "index_in (Grid q) (grid_cdf t (lsf_match st intf (Stage1 q)) (Stage1 q))"
    using s1(1) g(1) by (auto simp: q_def index_in_def)
  note R = rows_table [OF assms(1) q(1) assms(2) q(2)]
  have e: "map (\<lambda>j. CdfSym (rs ! ([0..<16] ! j)) (ix ! j)) [0..<16] = map (\<lambda>j. CdfSym (rs ! j) (ix ! j)) [0..<16]"
    for rs :: "u16 list list" and ix by (rule map_cong) auto
  obtain ix d3 where ix: "length ix = 16" "\<forall>j<16. ix ! j < length (?rows ! j) - 1"
      "holds (map (\<lambda>j. CdfSym (?rows ! j) (ix ! j)) [0..<16]) d2 d3" "dec_ready d3"
    using residuals_any [of "[0..<16]" ?rows, OF _ g(3)] R(5) by (auto simp: e)
  have "cdf_table (LsfExtra t)" using assms(1) by (simp add: lsf_tables_ok_def)
  then obtain x d4 where x: "x < length (LsfExtra t) - 1" "holds [CdfSym (LsfExtra t) x] d3 d4" "dec_ready d4"
    using any_cdf [OF _ ix(4)] by blast
  define p where "p = \<lparr>Stage1 = int s1, Grid = int g, Stage2 = map int ix, Extra = int x\<rparr>"
  have rows: "lsf_rows t config p = ?rows" by (simp add: lsf_rows_def p_def q_def)
  have "lsf_params_ok t st config intf p"
    using q ix(1,2) x(1) rows by (auto simp: lsf_params_ok_def p_def q_def index_in_def)
  moreover have e2: "map (\<lambda>k. CdfSym (?rows ! k) (nat (Stage2 p ! k))) [0..<16] = map (\<lambda>j. CdfSym (?rows ! j) (ix ! j)) [0..<16]"
    using ix(1) by (simp add: p_def)
  have "holds [CdfSym (LsfSel t ! nat (lsf_row st intf)) s1, CdfSym ?grid g] d d2"
    using s1(2) g(2) by (subst holds_split) blast
  then have "holds (lsf_symbols t st config intf p) d d4"
    unfolding lsf_symbols_def rows holds_append e2 using ix(3) x(2) by (auto simp: p_def)
  ultimately show ?thesis using x(3) by blast
qed

lemma residuals_written:
  "\<forall>k\<in>set ks. k < length rows \<and> k < length vs \<and> 0 \<le> vs ! k \<Longrightarrow>
   write_residuals e rows vs (map int ks) = encode_all (map (\<lambda>k. CdfSym (rows ! k) (nat (vs ! k))) ks) e"
proof (induction ks arbitrary: e)
  case (Cons k ks)
  then show ?case by (auto simp: at_nat write_cdf_symbol split: option.splits)
qed simp

lemma lsf_written:
  assumes "lsf_tables_ok t" "config \<in> {0, 1}" "lsf_params_ok t st config intf p"
  shows "encodeSmplLsf e t st config intf p = map_option
    (Pair ((snd (enc_advance st intf (Stage1 p)))\<lparr>PrevMatch := lsf_match st intf (Stage1 p), HavePrev := True\<rparr>))
    (encode_all (lsf_symbols t st config intf p) e)"
proof -
  have p: "Stage1 p \<in> {0, 1}" "0 \<le> Grid p" "0 \<le> Extra p" "\<forall>k<16. 0 \<le> Stage2 p ! k" "length (Stage2 p) = 16"
      "index_in (Grid p) (grid_cdf t (lsf_match st intf (Stage1 p)) (Stage1 p))"
    using assms(3) by (auto simp: lsf_params_ok_def index_in_def)
  note R = rows_table [OF assms(1) p(1) assms(2) p(6)]
  have r: "write_residuals e (lsf_rows t config p) (Stage2 p) [0..15] =
      encode_all (map (\<lambda>k. CdfSym (lsf_rows t config p ! k) (nat (Stage2 p ! k))) [0..<16]) e" for e
    unfolding upto_16 using p(4,5) R(4) by (intro residuals_written) auto
  have a: "fst (enc_advance st intf (Stage1 p)) = lsf_match st intf (Stage1 p)"
    by (simp add: enc_advance_def lsf_match_def Let_def)
  have "0 \<le> Stage1 p" using p(1) by auto
  then show ?thesis
    using p(2,3) unfolding encodeSmplLsf_def sel_table(1) [OF assms(1)]
    by (simp add: R(1-3) r a split_beta Let_def write_cdf_symbol lsf_symbols_def encode_all_append
        del: upto_rec_numeral encode_symbol.simps split: option.splits bind_splits)
qed

end
