(* ===== verification/MlowPulses.thy ===== *)
theory MlowPulses
  imports MlowBlocks
begin

text \<open>The pulse block: the count, its split over the subframes, the run lengths and the signs.\<close>

section \<open>The pulse count\<close>

definition tri_cdf :: "u16 list" where
  "tri_cdf = 0 # map (\<lambda>k. ucast (triT 160 (of_nat k))) [0..<161]"

lemma triT_u16: "ucast (ucast (triT l k) :: u16) = triT l k"
proof -
  have m: "(0xffff :: u32) = mask 16" by (simp add: mask_eq_exp_minus_1)
  show ?thesis unfolding triT_def m by (intro bit_word_eqI) (auto simp: bit_simps)
qed

lemma tri_steps: "list_all (\<lambda>k. triT 160 (word_of_int k) < triT 160 (word_of_int (k + 1))) [0..159]"
  by code_simp

lemma tri_ends: "0 < triT 160 0" "triT 160 160 = 13521"
  by code_simp+

lemma length_tri_cdf [simp]: "length tri_cdf = 162"
  by (simp add: tri_cdf_def)

lemma tri_cdf_nth: "k < 161 \<Longrightarrow> tri_cdf ! Suc k = ucast (triT 160 (of_nat k))"
  by (simp add: tri_cdf_def)

lemma tri_cdf_0: "tri_cdf ! 0 = 0"
  by (simp add: tri_cdf_def)

lemma ucast_less_u16: "ucast (a :: u16) < (ucast b :: u32) \<Longrightarrow> a < b"
  by (simp add: word_less_nat_alt)

lemma tri_table: "cdf_table tri_cdf"
proof -
  have "tri_cdf ! i < tri_cdf ! Suc i" if "Suc i < length tri_cdf" for i
  proof (cases i)
    case 0
    have "(ucast (0 :: u16) :: u32) < ucast (ucast (triT 160 0) :: u16)" unfolding triT_u16 using tri_ends(1) by simp
    then have "(0 :: u16) < ucast (triT 160 0)" by (rule ucast_less_u16)
    then show ?thesis using 0 tri_cdf_nth [of 0] by (simp add: tri_cdf_0)
  next
    case (Suc j)
    then have "int j \<in> set [0..159]" using that by simp
    then have "triT 160 (of_nat j) < triT 160 (of_nat (Suc j))"
      using tri_steps unfolding list_all_iff by (metis of_int_of_nat_eq of_nat_Suc add.commute)
    then have "(ucast (ucast (triT 160 (of_nat j)) :: u16) :: u32) < ucast (ucast (triT 160 (of_nat (Suc j))) :: u16)"
      by (simp only: triT_u16)
    then show ?thesis using Suc that by (simp add: tri_cdf_nth ucast_less_u16 del: of_nat_Suc)
  qed
  then show ?thesis by (simp add: cdf_table_def sorted_wrt_iff_nth_Suc_transp [OF transp_on_less])
qed

lemma tri_search_found:
  "cdf_search val (map (\<lambda>i. ucast (triT l (of_nat i))) [k..<k + n]) = j \<Longrightarrow> j < n \<Longrightarrow>
   prev = (if k = 0 then 0 else triT l (of_nat (k - 1))) \<Longrightarrow> prev \<le> val \<Longrightarrow>
   tri_search n l val ft prev (of_nat k) d = map_option (Pair (of_nat (k + j)))
     (Update d (if k + j = 0 then 0 else triT l (of_nat (k + j - 1))) (triT l (of_nat (k + j))) ft)"
proof (induction n arbitrary: k prev j)
  case (Suc n)
  have u: "[k..<k + Suc n] = k # [Suc k..<Suc k + n]" by (simp add: upt_conv_Cons)
  show ?case
  proof (cases "val < triT l (of_nat k)")
    case True
    then have "j = 0" using Suc.prems(1) unfolding u list.map cdf_search.simps triT_u16 by simp
    then show ?thesis using True Suc.prems(3,4) by (simp add: Let_def)
  next
    case False
    then obtain i where i: "j = Suc i" "cdf_search val (map (\<lambda>i. ucast (triT l (of_nat i))) [Suc k..<Suc k + n]) = i"
      using Suc.prems(1) unfolding u list.map cdf_search.simps triT_u16 by simp
    have "i < n" using Suc.prems(2) i(1) by simp
    from Suc.IH [OF i(2) this, of "triT l (of_nat k)"] False show ?thesis
      using i(1) by (simp add: Let_def add.commute)
  qed
qed simp

lemma cdf_search_le: "cdf_search v xs \<le> length xs"
  by (induction xs) auto

lemma tri_read:
  assumes "holds [CdfSym tri_cdf k] d d'"
  shows "decode_count d 160 = Some (int k, d')"
proof -
  have k: "Suc k < 162" and D: "DecodeCDF d tri_cdf = Some (of_nat k, d')"
    using assms holds_cdf_index [OF assms] by (simp_all add: holds_one)
  have top: "ucast (tri_cdf ! 161) = (13521 :: u32)"
    using tri_cdf_nth [of 160] triT_u16 [of 160 160] tri_ends(2) by simp
  obtain fs d1 where fs: "Decode d 13521 = (fs, d1)" by (cases "Decode d 13521")
  define j where "j = cdf_search fs (tl tri_cdf)"
  have j: "j \<le> 161" using cdf_search_le [of fs "tl tri_cdf"] by (simp add: j_def)
  have D': "map_option (Pair (of_nat j :: 32 word)) (Update d1 (ucast (tri_cdf ! j)) (ucast (tri_cdf ! (j + 1))) 13521) = Some (of_nat k, d')"
    using D fs by (simp add: DecodeCDF_def tri_cdf_0 top Let_def j_def)
  then have "(of_nat j :: i32) = of_nat k" by auto
  then have "unat (of_nat j :: i32) = unat (of_nat k :: i32)" by simp
  then have jk: "j = k" using j k by (simp add: unat_of_nat_small)
  have s: "cdf_search fs (map (\<lambda>i. ucast (triT 160 (of_nat i))) [0..<0 + 161]) = k"
    using jk by (simp add: j_def tri_cdf_def del: upt_rec_numeral)
  have c: "(ucast (tri_cdf ! k) :: u32) = (if k = 0 then 0 else triT 160 (of_nat (k - 1)))"
    "(ucast (tri_cdf ! Suc k) :: u32) = triT 160 (of_nat k)"
    using k tri_cdf_nth [of "k - 1"] tri_cdf_nth [of k] by (cases k; simp add: tri_cdf_0 triT_u16)+
  have "tri_search 161 160 fs 13521 0 (of_nat 0) d1 = Some (of_nat k, d')"
  proof -
    have "tri_search 161 160 fs 13521 0 (of_nat 0) d1 = map_option (Pair (of_nat (0 + k)))
        (Update d1 (if 0 + k = 0 then 0 else triT 160 (of_nat (0 + k - 1))) (triT 160 (of_nat (0 + k))) 13521)"
      using k by (intro tri_search_found [OF s]) simp_all
    then show ?thesis using D' unfolding jk Suc_eq_plus1 [symmetric] c by (simp only: add_0)
  qed
  then show ?thesis
    using k by (simp add: decode_count_def Let_def tri_ends(2) fs sint_of_nat_small)
qed

lemma tri_written:
  assumes "0 \<le> n" "n \<le> 160"
  shows "Encode e (if 0 < n then triT 160 (word_of_int (n - 1)) else 0) (triT 160 (word_of_int n)) 13521 =
    encode_symbol (CdfSym tri_cdf (nat n)) e"
proof -
  define k where "k = nat n"
  have k: "n = int k" "k < 161" using assms by (auto simp: k_def)
  have top: "ucast (tri_cdf ! 161) = (13521 :: u32)"
    using tri_cdf_nth [of 160] triT_u16 [of 160 160] tri_ends(2) by simp
  have c: "(ucast (tri_cdf ! k) :: u32) = (if 0 < n then triT 160 (word_of_int (n - 1)) else 0)"
    using k tri_cdf_nth [of "k - 1"] by (cases k) (simp_all add: tri_cdf_0 triT_u16)
  have c': "(ucast (tri_cdf ! Suc k) :: u32) = triT 160 (word_of_int n)"
    using k tri_cdf_nth [of k] by (simp add: triT_u16)
  have "(of_nat k :: i32) + 1 = of_nat (Suc k)" by simp
  then show ?thesis
    using k(2) unfolding c [symmetric] c' [symmetric] k_def [symmetric]
    by (simp add: EncodeCDF_def Let_def tri_cdf_0 top sint_of_nat_small unat_of_nat_small del: of_nat_Suc)
qed

end
