(* ===== verification/MlowRuns.thy ===== *)
theory MlowRuns
  imports MlowPulses
begin

text \<open>The split of the pulse count over the subframes, the run lengths and the signs.\<close>

section \<open>Splits\<close>

definition split_window :: "CcTables \<Rightarrow> int \<Rightarrow> int \<Rightarrow> u16 list" where
  "split_window cc count g =
     (let lo = min count g; minSplit = max 0 (count - g)
      in the (cdfWindow (SplitCmf cc count) minSplit (lo - minSplit + 2)))"

text \<open>How \<open>s0\<close> of \<open>count\<close> pulses in the first half are coded, at most \<open>g\<close> in each half.\<close>

definition split_symbols :: "CcTables \<Rightarrow> int \<Rightarrow> int \<Rightarrow> int \<Rightarrow> symbol list" where
  "split_symbols cc count g s0 =
     (if max 0 (count - g) = min count g then []
      else [CdfSym (split_window cc count g) (nat (s0 - max 0 (count - g)))])"

definition split_fits :: "int \<Rightarrow> int \<Rightarrow> int \<Rightarrow> bool" where
  "split_fits count g s0 \<longleftrightarrow> 0 \<le> s0 \<and> s0 \<le> g \<and> 0 \<le> count - s0 \<and> count - s0 \<le> g"

lemma split_window_table:
  assumes "tables_ok cc" "1 \<le> count" "count \<le> 80" "max 0 (count - g) < min count g"
  shows "cdfWindow (SplitCmf cc count) (max 0 (count - g)) (min count g - max 0 (count - g) + 2) = Some (split_window cc count g)"
    "cdf_table (split_window cc count g)"
    "int (length (split_window cc count g)) = min count g - max 0 (count - g) + 2"
proof -
  have "cdf_table (SplitCmf cc count)" "int (length (SplitCmf cc count)) = count + 2"
    using assms(1-3) unfolding tables_ok_def by auto
  then obtain w where "cdfWindow (SplitCmf cc count) (max 0 (count - g)) (min count g - max 0 (count - g) + 2) = Some w"
      "cdf_table w" "int (length w) = min count g - max 0 (count - g) + 2"
    using window_table [of "SplitCmf cc count" "max 0 (count - g)" "min count g - max 0 (count - g) + 2"] assms(4) by auto
  then show "cdfWindow (SplitCmf cc count) (max 0 (count - g)) (min count g - max 0 (count - g) + 2) = Some (split_window cc count g)"
    "cdf_table (split_window cc count g)"
    "int (length (split_window cc count g)) = min count g - max 0 (count - g) + 2"
    by (simp_all add: split_window_def Let_def)
qed

lemma split_read:
  assumes "holds (split_symbols cc count g s0) d d'" "tables_ok cc" "0 \<le> count" "count \<le> 80" "split_fits count g s0"
  shows "smplSplit3537 d cc count g = Some (s0, d')"
proof (cases "max 0 (count - g) = min count g")
  case True
  then have "s0 = min count g" using assms(5) by (auto simp: split_fits_def)
  moreover have "d' = d" using assms(1) True by (simp add: split_symbols_def)
  ultimately show ?thesis unfolding smplSplit3537_def Let_def True by simp
next
  case False
  then have lt: "max 0 (count - g) < min count g" using assms(5) by (auto simp: split_fits_def)
  then have "1 \<le> count" using assms(3) by auto
  note W = split_window_table [OF assms(2) this assms(4) lt]
  have "0 \<le> s0 - max 0 (count - g)" using assms(5) by (auto simp: split_fits_def)
  moreover have "holds [CdfSym (split_window cc count g) (nat (s0 - max 0 (count - g)))] d d'"
    using assms(1) False by (simp add: split_symbols_def)
  moreover have "\<not> min count g < max 0 (count - g)" using lt by (rule less_not_sym)
  ultimately show ?thesis
    using W(1) False unfolding smplSplit3537_def Let_def by (simp only: if_False) (simp add: holds_cdf)
qed

lemma split_any:
  assumes "tables_ok cc" "0 \<le> count" "count \<le> 80" "count \<le> 2 * g" "dec_ready d"
  shows "\<exists>s0 d'. split_fits count g s0 \<and> holds (split_symbols cc count g s0) d d' \<and> dec_ready d'"
proof (cases "max 0 (count - g) = min count g")
  case True
  have "split_fits count g (min count g)" using True assms(2,4) by (auto simp: split_fits_def)
  then show ?thesis using True assms(5) by (intro exI [of _ "min count g"] exI [of _ d]) (simp add: split_symbols_def)
next
  case False
  then have lt: "max 0 (count - g) < min count g" using assms(2,4) by auto
  then have "1 \<le> count" by auto
  note W = split_window_table [OF assms(1) this assms(3) lt]
  obtain k d' where k: "k < length (split_window cc count g) - 1" "holds [CdfSym (split_window cc count g) k] d d'" "dec_ready d'"
    using any_cdf [OF W(2) assms(5)] by blast
  have "int k \<le> min count g - max 0 (count - g)" using k(1) W(3) by linarith
  then have "split_fits count g (int k + max 0 (count - g))" using assms(4) by (auto simp: split_fits_def)
  then show ?thesis
    using k(2,3) False by (intro exI [of _ "int k + max 0 (count - g)"] exI [of _ d']) (simp add: split_symbols_def)
qed

lemma split_written:
  assumes "tables_ok cc" "0 \<le> count" "count \<le> 80" "split_fits count g s0"
  shows "encodeSplit3537 e cc count g s0 = encode_all (split_symbols cc count g s0) e"
proof (cases "max 0 (count - g) = min count g")
  case False
  then have lt: "max 0 (count - g) < min count g" using assms(4) by (auto simp: split_fits_def)
  then have "1 \<le> count" using assms(2) by auto
  note W = split_window_table [OF assms(1) this assms(3) lt]
  have "0 \<le> s0 - max 0 (count - g)" using assms(4) by (auto simp: split_fits_def)
  moreover have n: "\<not> (min count g < max 0 (count - g) \<or> max 0 (count - g) = min count g)" using lt by linarith
  ultimately show ?thesis
    using W(1) False unfolding encodeSplit3537_def Let_def if_not_P [OF n] split_symbols_def if_not_P [OF False]
    by (simp only: bind.bind_lunit write_cdf_symbol encode_one)
qed (simp add: encodeSplit3537_def split_symbols_def)

section \<open>Run lengths\<close>

definition mag_cdf :: "CcTables \<Rightarrow> int \<Rightarrow> int \<Rightarrow> u16 list" where
  "mag_cdf cc pos c =
     (let r = the (Runlen cc ((pos + 7) div 8)) in the (cdfWindow (the (Cmf r c)) (maxSamples r - pos) (pos + 1)))"

lemma mag_table:
  assumes "tables_ok cc" "1 \<le> pos" "pos \<le> 160" "1 \<le> c" "c \<le> 40"
  shows "\<exists>r row. Runlen cc ((pos + 7) div 8) = Some r \<and> Cmf r c = Some row \<and>
    cdfWindow row (maxSamples r - pos) (pos + 1) = Some (mag_cdf cc pos c) \<and>
    cdf_table (mag_cdf cc pos c) \<and> int (length (mag_cdf cc pos c)) = pos + 1"
proof -
  let ?o = "(pos + 7) div 8"
  have o': "1 \<le> ?o" "?o \<le> 20" "pos \<le> ?o * 8" using assms(2,3) by auto
  then obtain r where r: "Runlen cc ?o = Some r" "runlen_ok (?o * 8) r"
    using assms(1) unfolding tables_ok_def by blast
  have row: "Cmf r c = Some (cmfs r ! nat (c - 1))" "cmfs r ! nat (c - 1) \<in> set (cmfs r)"
    using r(2) assms(4,5) by (auto simp: Cmf_def at_def runlen_ok_def)
  then have t: "cdf_table (cmfs r ! nat (c - 1))" "int (length (cmfs r ! nat (c - 1))) = ?o * 8 + 1"
    using r(2) by (auto simp: runlen_ok_def)
  have m: "maxSamples r = ?o * 8" using r(2) by (simp add: runlen_ok_def)
  obtain w where "cdfWindow (cmfs r ! nat (c - 1)) (?o * 8 - pos) (pos + 1) = Some w" "cdf_table w" "int (length w) = pos + 1"
    using window_table [OF t(1), of "?o * 8 - pos" "pos + 1"] t(2) o' assms(2) by auto
  then show ?thesis using r(1) row(1) m by (simp add: mag_cdf_def)
qed

fun mag_symbols :: "CcTables \<Rightarrow> bool \<Rightarrow> int \<Rightarrow> int list \<Rightarrow> symbol list" where
  "mag_symbols cc first pos [] = []"
| "mag_symbols cc first pos (m # ms) =
     CdfSym (mag_cdf cc pos (int (length (m # ms)))) (nat m) #
     mag_symbols cc False (if 0 < m \<or> first then pos - m else pos) ms"

text \<open>Runs that stay inside what is left of the subframe, and the positions they mean.\<close>

fun runs_ok :: "bool \<Rightarrow> int \<Rightarrow> int list \<Rightarrow> bool" where
  "runs_ok first pos [] \<longleftrightarrow> True"
| "runs_ok first pos (m # ms) \<longleftrightarrow> 0 \<le> m \<and> m < pos \<and> runs_ok False (if 0 < m \<or> first then pos - m else pos) ms"

fun collect_runs :: "bool \<Rightarrow> int \<Rightarrow> int list \<Rightarrow> mags \<Rightarrow> mags" where
  "collect_runs first runPos [] acc = acc"
| "collect_runs first runPos (m # ms) (posList, magList, runs) =
     (if 0 < m \<or> first
      then collect_runs False (runPos + m) ms (posList @ [runPos + m], magList @ [1], runs @ [m])
      else collect_runs False runPos ms
             (posList, if magList = [] then magList else butlast magList @ [last magList + 1], runs @ [m]))"

lemma mags_read:
  "holds (mag_symbols cc first pos ms) d d' \<Longrightarrow> tables_ok cc \<Longrightarrow> 1 \<le> pos \<Longrightarrow> pos \<le> 160 \<Longrightarrow> length ms \<le> 40 \<Longrightarrow>
   runs_ok first pos ms \<Longrightarrow>
   mag_loop cc (length ms) first runPos pos (int (length ms)) acc d = Some (collect_runs first runPos ms acc, d')"
proof (induction ms arbitrary: first pos runPos acc d)
  case (Cons m ms)
  obtain posList magList runs where acc: "acc = (posList, magList, runs)" by (rule prod_cases3)
  have c: "1 \<le> int (length (m # ms))" "int (length (m # ms)) \<le> 40" using Cons.prems(5) by simp_all
  obtain r row where T: "Runlen cc ((pos + 7) div 8) = Some r" "Cmf r (int (length (m # ms))) = Some row"
      "cdfWindow row (maxSamples r - pos) (pos + 1) = Some (mag_cdf cc pos (int (length (m # ms))))"
    using mag_table [OF Cons.prems(2-4) c] by blast
  obtain d1 where d1: "holds [CdfSym (mag_cdf cc pos (int (length (m # ms)))) (nat m)] d d1"
      "holds (mag_symbols cc False (if 0 < m \<or> first then pos - m else pos) ms) d1 d'"
    using Cons.prems(1) unfolding mag_symbols.simps by (subst (asm) holds_split) blast
  have m: "0 \<le> m" "m < pos" "runs_ok False (if 0 < m \<or> first then pos - m else pos) ms" using Cons.prems(6) by simp_all
  have IH: "mag_loop cc (length ms) False p (if 0 < m \<or> first then pos - m else pos) (int (length ms)) a d1 =
      Some (collect_runs False p ms a, d')" for p a
    using m Cons.prems(3-5) by (intro Cons.IH [OF d1(2) Cons.prems(2)]) (auto simp del: runs_ok.simps)
  show ?case
    using T holds_cdf [OF d1(1)] m(1) Cons.prems(3) IH by (auto simp: acc)
qed simp

lemma mags_any:
  "tables_ok cc \<Longrightarrow> 1 \<le> pos \<Longrightarrow> pos \<le> 160 \<Longrightarrow> n \<le> 40 \<Longrightarrow> dec_ready d \<Longrightarrow>
   \<exists>ms d'. length ms = n \<and> runs_ok first pos ms \<and> holds (mag_symbols cc first pos ms) d d' \<and> dec_ready d'"
proof (induction n arbitrary: first pos d)
  case 0
  then show ?case by (intro exI [of _ "[]"] exI [of _ d]) simp
next
  case (Suc n)
  have c: "1 \<le> int (Suc n)" "int (Suc n) \<le> 40" using Suc.prems(4) by simp_all
  have T: "cdf_table (mag_cdf cc pos (int (Suc n)))" "int (length (mag_cdf cc pos (int (Suc n)))) = pos + 1"
    using mag_table [OF Suc.prems(1-3) c] by blast+
  obtain k d1 where k: "k < length (mag_cdf cc pos (int (Suc n))) - 1"
      "holds [CdfSym (mag_cdf cc pos (int (Suc n))) k] d d1" "dec_ready d1"
    using any_cdf [OF T(1) Suc.prems(5)] by blast
  have kp: "int k < pos" using k(1) T(2) by linarith
  obtain ms d' where ms: "length ms = n" "runs_ok False (if 0 < int k \<or> first then pos - int k else pos) ms"
      "holds (mag_symbols cc False (if 0 < int k \<or> first then pos - int k else pos) ms) d1 d'" "dec_ready d'"
  proof -
    have "1 \<le> (if 0 < int k \<or> first then pos - int k else pos)" "(if 0 < int k \<or> first then pos - int k else pos) \<le> 160" "n \<le> 40"
      using kp Suc.prems(2-4) by auto
    from Suc.IH [OF Suc.prems(1) this k(3), of False] show ?thesis using that by blast
  qed
  have "holds (mag_symbols cc first pos (int k # ms)) d d'"
    unfolding mag_symbols.simps using k(2) ms(1,3) by (subst holds_split) auto
  then show ?case using ms kp by (intro exI [of _ "int k # ms"] exI [of _ d']) (simp add: ms(1))
qed

lemma mags_written:
  "tables_ok cc \<Longrightarrow> 1 \<le> pos \<Longrightarrow> pos \<le> 160 \<Longrightarrow> length ms \<le> 40 \<Longrightarrow> runs_ok first pos ms \<Longrightarrow>
   mag_replay cc (length ms) first pos (int (length ms)) (ms @ rest) e =
     map_option (Pair rest) (encode_all (mag_symbols cc first pos ms) e)"
proof (induction ms arbitrary: first pos e)
  case (Cons m ms)
  have c: "1 \<le> int (length (m # ms))" "int (length (m # ms)) \<le> 40" using Cons.prems(4) by simp_all
  obtain r row where T: "Runlen cc ((pos + 7) div 8) = Some r" "Cmf r (int (length (m # ms))) = Some row"
      "cdfWindow row (maxSamples r - pos) (pos + 1) = Some (mag_cdf cc pos (int (length (m # ms))))"
    using mag_table [OF Cons.prems(1-3) c] by blast
  have q: "(pos + 7) sdiv 8 = (pos + 7) div 8" using Cons.prems(2) by (simp add: signed_divide_int_def)
  have m: "0 \<le> m" "m < pos" "runs_ok False (if 0 < m \<or> first then pos - m else pos) ms" using Cons.prems(5) by simp_all
  have IH: "mag_replay cc (length ms) False (if 0 < m \<or> first then pos - m else pos) (int (length ms)) (ms @ rest) e1 =
      map_option (Pair rest) (encode_all (mag_symbols cc False (if 0 < m \<or> first then pos - m else pos) ms) e1)" for e1
    using m Cons.prems(2-4) by (intro Cons.IH [OF Cons.prems(1)]) (auto simp del: runs_ok.simps)
  define C where "C = int (length (m # ms))"
  have C: "C - 1 = int (length ms)" by (simp add: C_def)
  note T' = T [folded C_def]
  have "mag_replay cc (Suc (length ms)) first pos C (m # ms @ rest) e =
      Option.bind (encode_symbol (CdfSym (mag_cdf cc pos C) (nat m)) e)
        (\<lambda>e1. mag_replay cc (length ms) False (if 0 < m \<or> first then pos - m else pos) (int (length ms)) (ms @ rest) e1)"
    unfolding mag_replay.simps q T'(1) bind.bind_lunit T'(2) T'(3) write_cdf_symbol [OF m(1)] C ..
  also have "\<dots> = map_option (Pair rest) (encode_all (mag_symbols cc first pos (m # ms)) e)"
    unfolding IH mag_symbols.simps encode_all.simps C_def [symmetric] by (simp split: option.splits)
  finally show ?case unfolding C_def by simp
qed simp

section \<open>All subframes\<close>

fun frame_symbols :: "CcTables \<Rightarrow> int \<Rightarrow> int list \<Rightarrow> int list \<Rightarrow> symbol list" where
  "frame_symbols cc posPer [] runs = []"
| "frame_symbols cc posPer (cnt # cnts) runs =
     mag_symbols cc True posPer (take (nat cnt) runs) @ frame_symbols cc posPer cnts (drop (nat cnt) runs)"

fun frame_runs_ok :: "int \<Rightarrow> int list \<Rightarrow> int list \<Rightarrow> bool" where
  "frame_runs_ok posPer [] runs \<longleftrightarrow> runs = []"
| "frame_runs_ok posPer (cnt # cnts) runs \<longleftrightarrow> 0 \<le> cnt \<and> cnt \<le> 40 \<and> cnt \<le> int (length runs) \<and>
     runs_ok True posPer (take (nat cnt) runs) \<and> frame_runs_ok posPer cnts (drop (nat cnt) runs)"

fun collect_frame :: "int \<Rightarrow> int \<Rightarrow> int list \<Rightarrow> int list \<Rightarrow> mags \<Rightarrow> mags" where
  "collect_frame posPer basePos [] runs acc = acc"
| "collect_frame posPer basePos (cnt # cnts) runs acc =
     collect_frame posPer (basePos + posPer) cnts (drop (nat cnt) runs)
       (collect_runs True basePos (take (nat cnt) runs) acc)"

lemma frame_read:
  "holds (frame_symbols cc posPer cnts runs) d d' \<Longrightarrow> tables_ok cc \<Longrightarrow> 1 \<le> posPer \<Longrightarrow> posPer \<le> 160 \<Longrightarrow>
   frame_runs_ok posPer cnts runs \<Longrightarrow>
   mag_subframes cc posPer basePos cnts acc d = Some (collect_frame posPer basePos cnts runs acc, d')"
proof (induction cnts arbitrary: runs basePos acc d)
  case (Cons cnt cnts)
  have c: "0 \<le> cnt" "cnt \<le> 40" "cnt \<le> int (length runs)" "runs_ok True posPer (take (nat cnt) runs)"
      "frame_runs_ok posPer cnts (drop (nat cnt) runs)"
    using Cons.prems(5) by simp_all
  obtain d1 where d1: "holds (mag_symbols cc True posPer (take (nat cnt) runs)) d d1"
      "holds (frame_symbols cc posPer cnts (drop (nat cnt) runs)) d1 d'"
    using Cons.prems(1) by (auto simp: holds_append)
  have l: "length (take (nat cnt) runs) = nat cnt" "int (length (take (nat cnt) runs)) = cnt" using c(1,3) by simp_all
  have "mag_loop cc (nat cnt) True basePos posPer cnt acc d = Some (collect_runs True basePos (take (nat cnt) runs) acc, d1)"
    using mags_read [OF d1(1) Cons.prems(2-4) _ c(4), unfolded l] c(1,2) by (simp add: nat_le_iff)
  then show ?case
    using Cons.IH [OF d1(2) Cons.prems(2-4) c(5)] c(1) d1(1) by (cases "cnt = 0") auto
qed simp

lemma frame_any:
  "tables_ok cc \<Longrightarrow> 1 \<le> posPer \<Longrightarrow> posPer \<le> 160 \<Longrightarrow> \<forall>c\<in>set cnts. 0 \<le> c \<and> c \<le> 40 \<Longrightarrow> dec_ready d \<Longrightarrow>
   \<exists>runs d'. frame_runs_ok posPer cnts runs \<and> int (length runs) = sum_list cnts \<and>
     holds (frame_symbols cc posPer cnts runs) d d' \<and> dec_ready d'"
proof (induction cnts arbitrary: d)
  case Nil
  then show ?case by (intro exI [of _ "[]"] exI [of _ d]) simp
next
  case (Cons cnt cnts)
  obtain ms d1 where ms: "length ms = nat cnt" "runs_ok True posPer ms" "holds (mag_symbols cc True posPer ms) d d1" "dec_ready d1"
    using mags_any [OF Cons.prems(1-3) _ Cons.prems(5), of "nat cnt" True] Cons.prems(4) by (auto simp: nat_le_iff)
  obtain runs d' where runs: "frame_runs_ok posPer cnts runs" "int (length runs) = sum_list cnts"
      "holds (frame_symbols cc posPer cnts runs) d1 d'" "dec_ready d'"
    using Cons.IH [OF Cons.prems(1-3) _ ms(4)] Cons.prems(4) by auto
  have "holds (frame_symbols cc posPer (cnt # cnts) (ms @ runs)) d d'"
    using ms(1,3) runs(3) by (auto simp: holds_append)
  then show ?case
    using ms runs Cons.prems(4) by (intro exI [of _ "ms @ runs"] exI [of _ d']) simp
qed

lemma frame_written:
  "tables_ok cc \<Longrightarrow> 1 \<le> posPer \<Longrightarrow> posPer \<le> 160 \<Longrightarrow> frame_runs_ok posPer cnts runs \<Longrightarrow>
   mag_replays cc posPer cnts runs e = encode_all (frame_symbols cc posPer cnts runs) e"
proof (induction cnts arbitrary: runs e)
  case (Cons cnt cnts)
  have c: "0 \<le> cnt" "cnt \<le> 40" "cnt \<le> int (length runs)" "runs_ok True posPer (take (nat cnt) runs)"
      "frame_runs_ok posPer cnts (drop (nat cnt) runs)"
    using Cons.prems(4) by simp_all
  have l: "length (take (nat cnt) runs) = nat cnt" "int (length (take (nat cnt) runs)) = cnt" using c(1,3) by simp_all
  have "mag_replay cc (nat cnt) True posPer cnt runs e =
      map_option (Pair (drop (nat cnt) runs)) (encode_all (mag_symbols cc True posPer (take (nat cnt) runs)) e)"
    using mags_written [OF Cons.prems(1-3) _ c(4), of "drop (nat cnt) runs" e, unfolded l] c(1,2) by (simp add: nat_le_iff)
  then show ?case
    using Cons.IH [OF Cons.prems(1-3) c(5)] c(1)
    by (cases "cnt = 0"; cases "encode_all (mag_symbols cc True posPer (take (nat cnt) runs)) e")
      (auto simp: encode_all_append)
qed simp

section \<open>Signs\<close>

function sign_shape :: "nat \<Rightarrow> nat list" where
  "sign_shape n = (if n = 0 then [] else min n 15 # sign_shape (n - min n 15))"
  by pat_completeness auto

termination
  by (relation "measure id") auto

declare sign_shape.simps [simp del]

definition signs_ok :: "nat \<Rightarrow> (u32 \<times> u32) list \<Rightarrow> bool" where
  "signs_ok n syms \<longleftrightarrow> map snd syms = map of_nat (sign_shape n) \<and> (\<forall>(s, b)\<in>set syms. unat s < 2 ^ unat b)"

definition sign_symbols :: "(u32 \<times> u32) list \<Rightarrow> symbol list" where
  "sign_symbols syms = map (\<lambda>(s, b). RawSym s b) syms"

fun give_signs :: "int list \<Rightarrow> (u32 \<times> u32) list \<Rightarrow> int list" where
  "give_signs mags [] = []"
| "give_signs mags ((s, b) # syms) =
     apply_signs (push_bit (16 - unat b) s) (take (unat b) mags) @ give_signs (drop (unat b) mags) syms"

lemma unat_chunk: "unat (of_nat (min n 15) :: u32) = min n 15"
  by (intro unat_of_nat_small) simp

lemma signs_read:
  "holds (sign_symbols syms) d d' \<Longrightarrow> signs_ok (length mags) syms \<Longrightarrow> sign_loop mags d = Some (give_signs mags syms, syms, d')"
proof (induction syms arbitrary: mags d)
  case Nil
  then have "mags = []" by (auto simp: signs_ok_def sign_shape.simps [of "length mags"] split: if_splits)
  then show ?case using Nil by (simp add: sign_loop.simps sign_symbols_def)
next
  case (Cons sb syms)
  obtain s b where sb: "sb = (s, b)" by (cases sb)
  let ?n = "min (length mags) 15"
  have m: "mags \<noteq> []" "b = of_nat ?n" "signs_ok (length (drop ?n mags)) syms"
    using Cons.prems(2) by (auto simp: signs_ok_def sign_shape.simps [of "length mags"] sb split: if_splits)
  obtain d1 where d1: "holds [RawSym s b] d d1" "holds (sign_symbols syms) d1 d'"
    using Cons.prems(1) unfolding sign_symbols_def sb list.map prod.case by (subst (asm) holds_split) blast
  show ?case
    using m(1) holds_raw [OF d1(1)] Cons.IH [OF d1(2) m(3)] unat_chunk [of "length mags"]
    by (subst sign_loop.simps) (simp add: sb m(2) Let_def)
qed

lemma signs_any:
  "dec_ready d \<Longrightarrow> \<exists>syms d'. signs_ok n syms \<and> holds (sign_symbols syms) d d' \<and> dec_ready d'"
proof (induction n arbitrary: d rule: sign_shape.induct)
  case (1 n)
  show ?case
  proof (cases "n = 0")
    case True
    then show ?thesis using 1(2) by (intro exI [of _ "[]"] exI [of _ d]) (simp add: signs_ok_def sign_shape.simps sign_symbols_def)
  next
    case False
    let ?b = "of_nat (min n 15) :: u32"
    have "unat ?b \<le> 23" unfolding unat_chunk by simp
    from any_raw [OF this 1(2)] obtain s d1 where s: "unat s < 2 ^ unat ?b" "holds [RawSym s ?b] d d1" "dec_ready d1" by blast
    obtain syms d' where r: "signs_ok (n - min n 15) syms" "holds (sign_symbols syms) d1 d'" "dec_ready d'"
      using 1(1) [OF False s(3)] by blast
    have "signs_ok n ((s, ?b) # syms)"
      using r(1) s(1) False by (simp add: signs_ok_def sign_shape.simps [of n])
    moreover have "holds (sign_symbols ((s, ?b) # syms)) d d'"
      unfolding sign_symbols_def list.map prod.case using s(2) r(2) by (subst holds_split) (auto simp: sign_symbols_def)
    ultimately show ?thesis using r(3) by blast
  qed
qed

lemma signs_written: "sign_replay syms e = encode_all (sign_symbols syms) e"
proof (induction syms arbitrary: e)
  case (Cons sb syms)
  then show ?case by (cases sb) (simp add: sign_symbols_def split: option.splits)
qed (simp add: sign_symbols_def)

end
