(* ===== verification/MlowVectors.thy ===== *)
theory MlowVectors
  imports MlowRuns
begin

text \<open>
  The pulse and the gain block as a whole.  \<open>low\<close> chooses the operating point: the low rate codes two
  subframes of 160 positions with at most 16 pulses, the other four of 80 with at most 40.
\<close>

definition rate_p3 :: "bool \<Rightarrow> int" where "rate_p3 low = (if low then 2 else 4)"
definition rate_p6 :: "bool \<Rightarrow> int" where "rate_p6 low = (if low then 1 else 0)"
definition rate_most :: "bool \<Rightarrow> int" where "rate_most low = (if low then 16 else 40)"
definition rate_pos :: "bool \<Rightarrow> int" where "rate_pos low = (if low then 160 else 80)"

lemma rate_sizes:
  assumes "s1 \<in> {0, 1}"
  shows "pulse_sizes 320 (rate_p3 low) 1 (rate_p6 low) s1 =
    Some (if low then 32 else 160, rate_most low, rate_pos low)"
proof -
  have "pulse_sizes 320 2 1 1 0 = Some (32, 16, 160)" "pulse_sizes 320 2 1 1 1 = Some (32, 16, 160)"
    "pulse_sizes 320 4 1 0 0 = Some (160, 40, 80)" "pulse_sizes 320 4 1 0 1 = Some (160, 40, 80)"
    by code_simp+
  then show ?thesis using assms by (auto simp: rate_p3_def rate_p6_def rate_most_def rate_pos_def)
qed

section \<open>The pulse block\<close>

definition count_cdf :: "CcTables \<Rightarrow> bool \<Rightarrow> int \<Rightarrow> u16 list" where
  "count_cdf cc low s1 = (if low then the (NPulseCount cc (1 + s1)) else tri_cdf)"

definition pair_window :: "CcTables \<Rightarrow> int \<Rightarrow> u16 list" where
  "pair_window cc n = the (cdfWindow (SplitCmf cc n) 0 (n - 2 * max 0 (n - 80) + 2))"

definition pair_symbols :: "CcTables \<Rightarrow> int \<Rightarrow> int \<Rightarrow> symbol list" where
  "pair_symbols cc n s =
     (if max 0 (n - 80) < n - max 0 (n - 80) then [CdfSym (pair_window cc n) (nat (s - max 0 (n - 80)))] else [])"

definition split_block :: "CcTables \<Rightarrow> bool \<Rightarrow> SmplPulseParams \<Rightarrow> symbol list" where
  "split_block cc low p =
     (if Total p = 0 then []
      else if low then split_symbols cc (Total p) 16 (Subfr p ! 0)
      else
        let s = Subfr p ! 0 + Subfr p ! 1
        in pair_symbols cc (Total p) s @ (if 0 < s then split_symbols cc s 40 (Subfr p ! 0) else []) @
           (if s < Total p then split_symbols cc (Total p - s) 40 (Subfr p ! 2) else []))"

definition rate_counts :: "bool \<Rightarrow> SmplPulseParams \<Rightarrow> int list" where
  "rate_counts low p = take (nat (rate_p3 low)) (Subfr p)"

definition pulse_places :: "bool \<Rightarrow> SmplPulseParams \<Rightarrow> mags" where
  "pulse_places low p = collect_frame (rate_pos low) 0 (rate_counts low p) (MagRuns p) ([], [], [])"

definition pulse_symbols :: "CcTables \<Rightarrow> bool \<Rightarrow> int \<Rightarrow> SmplPulseParams \<Rightarrow> symbol list" where
  "pulse_symbols cc low s1 p =
     [CdfSym (count_cdf cc low s1) (nat (Total p))] @ split_block cc low p @
     frame_symbols cc (rate_pos low) (rate_counts low p) (MagRuns p) @ sign_symbols (SignSyms p)"

text \<open>Parameters that make sense: the counts add up, the runs stay inside the subframes, one sign per position.\<close>

definition counts_ok :: "bool \<Rightarrow> int \<Rightarrow> int list \<Rightarrow> bool" where
  "counts_ok low n cs \<longleftrightarrow> length cs = 4 \<and> (\<forall>c\<in>set cs. 0 \<le> c \<and> c \<le> rate_most low) \<and> sum_list cs = n \<and>
     (low \<longrightarrow> cs ! 2 = 0 \<and> cs ! 3 = 0)"

definition pulse_params_ok :: "CcTables \<Rightarrow> bool \<Rightarrow> int \<Rightarrow> SmplPulseParams \<Rightarrow> bool" where
  "pulse_params_ok cc low s1 p \<longleftrightarrow> index_in (Total p) (count_cdf cc low s1) \<and> counts_ok low (Total p) (Subfr p) \<and>
     frame_runs_ok (rate_pos low) (rate_counts low p) (MagRuns p) \<and>
     signs_ok (length (fst (snd (pulse_places low p)))) (SignSyms p)"

definition pulse_result :: "bool \<Rightarrow> SmplPulseParams \<Rightarrow> SmplPulseResult" where
  "pulse_result low p =
     (case pulse_places low p of (posList, magList, runs) \<Rightarrow>
        \<lparr>pulseVector = scatter posList (give_signs magList (SignSyms p)) (replicate 320 0), subfr = Subfr p,
         magRuns = MagRuns p, signSyms = SignSyms p\<rparr>)"

lemma four_counts: "length xs = 4 \<Longrightarrow> \<exists>a b c e. xs = [a, b, c, e]"
  by (auto simp: length_Suc_conv numeral_eq_Suc)

lemma pair_window_table:
  assumes "tables_ok cc" "1 \<le> n" "n < 160"
  shows "cdfWindow (SplitCmf cc n) 0 (n - 2 * max 0 (n - 80) + 2) = Some (pair_window cc n)" "cdf_table (pair_window cc n)"
    "int (length (pair_window cc n)) = n - 2 * max 0 (n - 80) + 2"
proof -
  have "cdf_table (SplitCmf cc n)" "int (length (SplitCmf cc n)) = n - 2 * max 0 (n - 80) + 2"
    using assms unfolding tables_ok_def by auto
  then obtain w where "cdfWindow (SplitCmf cc n) 0 (n - 2 * max 0 (n - 80) + 2) = Some w" "cdf_table w"
      "int (length w) = n - 2 * max 0 (n - 80) + 2"
  proof -
    have "2 \<le> n - 2 * max 0 (n - 80) + 2" using assms(2,3) by (simp add: max_def)
    then show ?thesis using window_table [of "SplitCmf cc n" 0 "n - 2 * max 0 (n - 80) + 2"] that
        \<open>cdf_table (SplitCmf cc n)\<close> \<open>int (length (SplitCmf cc n)) = _\<close> by auto
  qed
  then show "cdfWindow (SplitCmf cc n) 0 (n - 2 * max 0 (n - 80) + 2) = Some (pair_window cc n)" "cdf_table (pair_window cc n)"
    "int (length (pair_window cc n)) = n - 2 * max 0 (n - 80) + 2"
    by (simp_all add: pair_window_def)
qed

lemma counts_read_low:
  assumes "holds (split_symbols cc n 16 a) d d'" "tables_ok cc" "split_fits n 16 a" "n \<noteq> 0"
  shows "decodePulseSubframeCounts d cc n 16 2 = Some (([a, n - a, 0, 0, 0, 0, 0, 0], True), d')"
proof -
  have "0 \<le> n" "n \<le> 80" "0 \<le> a" using assms(3) by (auto simp: split_fits_def)
  then show ?thesis
    using split_read [OF assms(1,2) _ _ assms(3)] assms(4) by (simp add: decodePulseSubframeCounts_def)
qed

lemma counts_read_four:
  assumes "holds (pair_symbols cc n (a + b) @ (if 0 < a + b then split_symbols cc (a + b) 40 a else []) @
      (if a + b < n then split_symbols cc (n - (a + b)) 40 c else [])) d d'"
    and "tables_ok cc" "split_fits (a + b) 40 a" "split_fits (n - (a + b)) 40 c" "n \<noteq> 0"
  shows "decodePulseSubframeCounts d cc n 40 4 = Some (([a, b, c, n - (a + b) - c, 0, 0, 0, 0], True), d')"
proof -
  define s where "s = a + b"
  define lo where "lo = max 0 (n - 80)"
  have r: "0 \<le> s" "s \<le> 80" "0 \<le> n - s" "n - s \<le> 80" "0 \<le> a" "0 \<le> c" "lo \<le> s" "s \<le> n - lo"
    using assms(3,4) by (auto simp: split_fits_def s_def lo_def)
  obtain d1 d2 where h: "holds (pair_symbols cc n s) d d1" "holds (if 0 < s then split_symbols cc s 40 a else []) d1 d2"
      "holds (if s < n then split_symbols cc (n - s) 40 c else []) d2 d'"
    using assms(1) unfolding s_def [symmetric] by (auto simp: holds_append)
  have e1: "(if lo < n - lo then Option.bind (cdfWindow (SplitCmf cc n) (lo - lo) (n - lo - lo + 2))
        (\<lambda>w. Option.bind (read_cdf d w) (\<lambda>(v, d1). Some (lo + v, d1))) else Some (lo, d)) = Some (s, d1)"
  proof (cases "lo < n - lo")
    case True
    then have "1 \<le> n" "n < 160" by (auto simp: lo_def)
    note W = pair_window_table [OF assms(2) this, folded lo_def]
    have "holds [CdfSym (pair_window cc n) (nat (s - lo))] d d1" using h(1) True by (simp add: pair_symbols_def lo_def)
    moreover have "n - lo - lo + 2 = n - 2 * lo + 2" by simp
    ultimately show ?thesis using True W(1) r(7) by (simp add: holds_cdf)
  next
    case False
    then have "s = lo" "d1 = d" using r h(1) by (auto simp: pair_symbols_def lo_def)
    then show ?thesis using False by simp
  qed
  have e2: "(if 0 < s then Option.bind (smplSplit3537 d1 cc s 40) (\<lambda>(s0, d2). Some (s0, s - s0, d2)) else Some (0, 0, d1)) = Some (a, b, d2)"
  proof (cases "0 < s")
    case True
    then show ?thesis using split_read [of cc s 40 a d1 d2] h(2) assms(2,3) r by (simp add: s_def)
  next
    case False
    then have "s = 0" using r by simp
    then show ?thesis using h(2) assms(3) by (auto simp: s_def split_fits_def)
  qed
  have e3: "(if s < n then Option.bind (smplSplit3537 d2 cc (n - s) 40) (\<lambda>(s2, d3). Some (s2, n - s - s2, d3)) else Some (0, 0, d2)) =
      Some (c, n - s - c, d')"
  proof (cases "s < n")
    case True
    then show ?thesis using split_read [of cc "n - s" 40 c d2 d'] h(3) assms(2,4) r by (simp add: s_def)
  next
    case False
    then show ?thesis using h(3) assms(4) r by (auto simp: s_def split_fits_def)
  qed
  have l: "max 0 (n - 40 * 2) = lo" by (simp add: lo_def)
  have no: "(n = 0) = False" "((4 :: int) = 2) = False" "(lo < lo) = False" "(a = - 1 \<or> c = - 1) = False"
    using assms(5) r(5,6) by auto
  show ?thesis
    unfolding decodePulseSubframeCounts_def Let_def l lo_def [symmetric] no(1-3) if_False e1 bind.bind_lunit prod.case e2 e3 no(4)
    by (simp add: s_def)
qed

lemma rate_simps [simp]:
  "rate_p3 False = 4" "rate_p3 True = 2" "rate_p6 False = 0" "rate_p6 True = 1" "rate_most False = 40" "rate_most True = 16"
  "rate_pos False = 80" "rate_pos True = 160"
  by (simp_all add: rate_p3_def rate_p6_def rate_most_def rate_pos_def)

lemma counts_four:
  assumes "counts_ok low n cs"
  obtains a b c where "cs = [a, b, c, n - (a + b) - c]" "split_fits (a + b) (rate_most low) a"
    "split_fits (n - (a + b)) (rate_most low) c" "0 \<le> n" "low \<Longrightarrow> c = 0 \<and> n = a + b"
proof -
  obtain a b c e where cs: "cs = [a, b, c, e]" using assms four_counts unfolding counts_ok_def by blast
  then have "e = n - (a + b) - c" using assms by (auto simp: counts_ok_def)
  then show ?thesis using assms cs that [of a b c] by (auto simp: counts_ok_def split_fits_def)
qed

lemma counts_read:
  assumes "holds (split_block cc low p) d d'" "tables_ok cc" "counts_ok low (Total p) (Subfr p)"
  shows "decodePulseSubframeCounts d cc (Total p) (rate_most low) (rate_p3 low) = Some ((Subfr p @ [0, 0, 0, 0], True), d')"
proof (rule counts_four [OF assms(3)])
  fix a b c
  assume cs: "Subfr p = [a, b, c, Total p - (a + b) - c]" and f: "split_fits (a + b) (rate_most low) a"
      "split_fits (Total p - (a + b)) (rate_most low) c" and n: "0 \<le> Total p" and low: "low \<Longrightarrow> c = 0 \<and> Total p = a + b"
  have cs0: "Subfr p ! 0 = a" "Subfr p ! 1 = b" "Subfr p ! 2 = c" using cs by simp_all
  show ?thesis
  proof (cases "Total p = 0")
    case True
    then have "a = 0" "b = 0" "c = 0" using f by (auto simp: split_fits_def)
    then show ?thesis
      using True assms(1) cs by (simp add: split_block_def decodePulseSubframeCounts_def numeral_eq_Suc)
  next
    case False
    show ?thesis
    proof (cases low)
      case True
      then show ?thesis
        using counts_read_low [of cc "Total p" a d d'] assms(1,2) f(1) low cs False by (simp add: split_block_def)
    next
      case l: False
      have h: "holds (pair_symbols cc (Total p) (a + b) @ (if 0 < a + b then split_symbols cc (a + b) 40 a else []) @
          (if a + b < Total p then split_symbols cc (Total p - (a + b)) 40 c else [])) d d'"
        using assms(1) l False unfolding split_block_def Let_def cs0 by simp
      show ?thesis using counts_read_four [OF h assms(2)] f l False cs by simp
    qed
  qed
qed

lemma collect_runs_runs: "snd (snd (collect_runs first p ms (a, b, c))) = c @ ms"
  by (induction first p ms "(a, b, c)" arbitrary: a b c rule: collect_runs.induct) auto

lemma collect_frame_runs:
  "frame_runs_ok posPer cnts runs \<Longrightarrow> snd (snd (collect_frame posPer base cnts runs (a, b, c))) = c @ runs"
proof (induction cnts arbitrary: base runs a b c)
  case (Cons cnt cnts)
  obtain a1 b1 c1 where r: "collect_runs True base (take (nat cnt) runs) (a, b, c) = (a1, b1, c1)" by (rule prod_cases3)
  then have "c1 = c @ take (nat cnt) runs" using collect_runs_runs [of True base "take (nat cnt) runs" a b c] by simp
  then show ?case using Cons.IH [of "drop (nat cnt) runs"] Cons.prems by (simp add: r)
qed simp

lemma rate_pos_range: "1 \<le> rate_pos low" "rate_pos low \<le> 160"
  by (simp_all add: rate_pos_def)

lemma count_table:
  assumes "tables_ok cc" "s1 \<in> {0, 1}"
  shows "cdf_table (count_cdf cc low s1)" "length (count_cdf cc low s1) \<le> (if low then 34 else 162)"
    "low \<Longrightarrow> NPulseCount cc (1 + s1) = Some (count_cdf cc low s1)"
proof -
  have n: "NPulseCount cc (1 + s1) = Some (nPulseCmfs cc ! nat (1 + s1))" "nPulseCmfs cc ! nat (1 + s1) \<in> set (nPulseCmfs cc)"
    using assms by (auto simp: NPulseCount_def at_def tables_ok_def)
  then have "cdf_table (nPulseCmfs cc ! nat (1 + s1)) \<and> length (nPulseCmfs cc ! nat (1 + s1)) \<le> 34"
    using assms(1) unfolding tables_ok_def by blast
  then show "cdf_table (count_cdf cc low s1)" "length (count_cdf cc low s1) \<le> (if low then 34 else 162)"
    "low \<Longrightarrow> NPulseCount cc (1 + s1) = Some (count_cdf cc low s1)"
    using n(1) tri_table by (auto simp: count_cdf_def)
qed

lemma take_counts: "length cs = 4 \<Longrightarrow> take (nat (rate_p3 low)) (cs @ [0, 0, 0, 0]) = take (nat (rate_p3 low)) cs"
  by (simp add: rate_p3_def)

lemma pad_counts:
  assumes "counts_ok low n cs"
  shows "take (nat (min 4 (max 0 (rate_p3 low)))) (cs @ [0, 0, 0, 0]) @ replicate (4 - nat (min 4 (max 0 (rate_p3 low)))) 0 = cs"
proof -
  obtain a b c e where cs: "cs = [a, b, c, e]" using assms four_counts unfolding counts_ok_def by blast
  then show ?thesis using assms by (auto simp: counts_ok_def rate_p3_def numeral_2_eq_2)
qed

lemma pulses_read:
  assumes "holds (pulse_symbols cc low s1 p) d d'" "tables_ok cc" "s1 \<in> {0, 1}" "pulse_params_ok cc low s1 p"
  shows "DecodeSmplPulses d cc 320 (rate_p3 low) 1 (rate_p6 low) s1 = Some (pulse_result low p, d')"
proof -
  have ok: "counts_ok low (Total p) (Subfr p)" "frame_runs_ok (rate_pos low) (rate_counts low p) (MagRuns p)"
      "signs_ok (length (fst (snd (pulse_places low p)))) (SignSyms p)" "0 \<le> Total p"
    using assms(4) by (simp_all add: pulse_params_ok_def index_in_def)
  obtain d1 d2 d3 where h: "holds [CdfSym (count_cdf cc low s1) (nat (Total p))] d d1" "holds (split_block cc low p) d1 d2"
      "holds (frame_symbols cc (rate_pos low) (rate_counts low p) (MagRuns p)) d2 d3" "holds (sign_symbols (SignSyms p)) d3 d'"
    using assms(1) unfolding pulse_symbols_def holds_append by blast
  have c: "(if rate_p6 low \<noteq> 0 then Option.bind (NPulseCount cc (1 + s1)) (read_cdf d)
      else decode_count d (if low then 32 else 160)) = Some (Total p, d1)"
  proof (cases low)
    case True
    then show ?thesis using count_table(3) [OF assms(2,3) True] holds_cdf [OF h(1)] ok(4) by simp
  next
    case False
    then show ?thesis using tri_read [of "nat (Total p)" d d1] h(1) ok(4) by (simp add: count_cdf_def)
  qed
  obtain posList magList runs where places: "pulse_places low p = (posList, magList, runs)" by (rule prod_cases3)
  have f: "mag_subframes cc (rate_pos low) 0 (take (nat (rate_p3 low)) (Subfr p @ [0, 0, 0, 0])) ([], [], []) d2 =
      Some ((posList, magList, runs), d3)"
  proof -
    have l: "length (Subfr p) = 4" using ok(1) by (simp add: counts_ok_def)
    show ?thesis
      using frame_read [OF h(3) assms(2) rate_pos_range ok(2), of 0 "([], [], [])"] places
      unfolding take_counts [OF l] by (simp add: pulse_places_def rate_counts_def)
  qed
  have r: "runs = MagRuns p"
    using collect_frame_runs [OF ok(2), of 0 "[]" "[]" "[]"] places by (simp add: pulse_places_def)
  have s: "sign_loop magList d3 = Some (give_signs magList (SignSyms p), SignSyms p, d')"
    using signs_read [OF h(4)] ok(3) places by simp
  have p3: "\<not> 8 < rate_p3 low" by (simp add: rate_p3_def)
  show ?thesis
    unfolding DecodeSmplPulses_def rate_sizes [OF assms(3)] bind.bind_lunit prod.case Let_def c counts_read [OF h(2) assms(2) ok(1)]
    by (simp only: not_True_eq_False if_False p3 f bind.bind_lunit prod.case s r pad_counts [OF ok(1)] pulse_result_def places) simp
qed

lemma counts_any:
  assumes "tables_ok cc" "0 \<le> n" "n \<le> (if low then 32 else 160)" "dec_ready d"
  shows "\<exists>cs d'. counts_ok low n cs \<and>
    (\<forall>p. Total p = n \<longrightarrow> Subfr p = cs \<longrightarrow> holds (split_block cc low p) d d') \<and> dec_ready d'"
proof (cases "n = 0")
  case True
  then show ?thesis
    using assms(4) by (intro exI [of _ "[0, 0, 0, 0]"] exI [of _ d]) (simp add: counts_ok_def split_block_def rate_most_def)
next
  case n0: False
  show ?thesis
  proof (cases low)
    case True
    then obtain a d1 where a: "split_fits n 16 a" "holds (split_symbols cc n 16 a) d d1" "dec_ready d1"
      using split_any [OF assms(1,2) _ _ assms(4), of 16] assms(3) by auto
    then have "counts_ok low n [a, n - a, 0, 0]" using True by (auto simp: counts_ok_def split_fits_def)
    then show ?thesis
      using a True n0 by (intro exI [of _ "[a, n - a, 0, 0]"] exI [of _ d1]) (auto simp: split_block_def)
  next
    case low: False
    define lo where "lo = max 0 (n - 80)"
    obtain s d1 where s: "lo \<le> s" "s \<le> n - lo" "holds (pair_symbols cc n s) d d1" "dec_ready d1"
    proof (cases "lo < n - lo")
      case True
      then have "1 \<le> n" "n < 160" by (auto simp: lo_def)
      note W = pair_window_table [OF assms(1) this, folded lo_def]
      obtain k d1 where k: "k < length (pair_window cc n) - 1" "holds [CdfSym (pair_window cc n) k] d d1" "dec_ready d1"
        using any_cdf [OF W(2) assms(4)] by blast
      have "int k \<le> n - 2 * lo" using k(1) W(3) by linarith
      then show ?thesis using that [of "lo + int k" d1] k(2,3) True by (simp add: pair_symbols_def flip: lo_def)
    next
      case False
      then show ?thesis using that [of lo d] assms(2-4) low by (auto simp: pair_symbols_def lo_def)
    qed
    have r: "0 \<le> s" "s \<le> 80" "0 \<le> n - s" "n - s \<le> 80" using s(1,2) assms(2,3) low by (auto simp: lo_def)
    obtain a d2 where a: "split_fits s 40 a" "holds (if 0 < s then split_symbols cc s 40 a else []) d1 d2" "dec_ready d2"
    proof (cases "0 < s")
      case True
      then show ?thesis using split_any [OF assms(1) r(1,2) _ s(4), of 40] r that by auto
    next
      case False
      then show ?thesis using that [of 0 d1] r s(4) by (simp add: split_fits_def)
    qed
    obtain c d3 where c: "split_fits (n - s) 40 c" "holds (if s < n then split_symbols cc (n - s) 40 c else []) d2 d3" "dec_ready d3"
    proof (cases "s < n")
      case True
      then show ?thesis using split_any [OF assms(1) r(3,4) _ a(3), of 40] r that by auto
    next
      case False
      then show ?thesis using that [of 0 d2] r a(3) by (simp add: split_fits_def)
    qed
    have "counts_ok low n [a, s - a, c, n - s - c]" using a(1) c(1) low by (auto simp: counts_ok_def split_fits_def)
    moreover have "holds (split_block cc low p) d d3" if "Total p = n" "Subfr p = [a, s - a, c, n - s - c]" for p :: SmplPulseParams
    proof -
      have "Subfr p ! 0 + Subfr p ! 1 = s" "Subfr p ! 0 = a" "Subfr p ! 2 = c" using that(2) by simp_all
      then show ?thesis
        using s(3) a(2) c(2) that(1) n0 low unfolding split_block_def Let_def by (simp only: if_False holds_append) blast
    qed
    ultimately show ?thesis using c(3) by blast
  qed
qed

lemma pulses_any:
  assumes "tables_ok cc" "s1 \<in> {0, 1}" "dec_ready d"
  shows "\<exists>p d'. pulse_params_ok cc low s1 p \<and> holds (pulse_symbols cc low s1 p) d d' \<and> dec_ready d'"
proof -
  obtain k d1 where k: "k < length (count_cdf cc low s1) - 1" "holds [CdfSym (count_cdf cc low s1) k] d d1" "dec_ready d1"
    using any_cdf [OF count_table(1) [OF assms(1,2)] assms(3)] by blast
  have "int k \<le> (if low then 32 else 160)" using k(1) count_table(2) [OF assms(1,2), of low] by (auto split: if_splits)
  then obtain cs d2 where cs: "counts_ok low (int k) cs"
      "\<And>p. Total p = int k \<Longrightarrow> Subfr p = cs \<Longrightarrow> holds (split_block cc low p) d1 d2" "dec_ready d2"
    using counts_any [OF assms(1) _ _ k(3), of "int k" low] by auto
  let ?cnts = "take (nat (rate_p3 low)) cs"
  have "\<forall>c\<in>set cs. 0 \<le> c \<and> c \<le> 40" using cs(1) by (auto simp: counts_ok_def rate_most_def split: if_splits)
  then have "\<forall>c\<in>set ?cnts. 0 \<le> c \<and> c \<le> 40" by (meson in_set_takeD)
  from frame_any [OF assms(1) rate_pos_range [of low] this cs(3)]
  obtain runs d3 where runs: "frame_runs_ok (rate_pos low) ?cnts runs"
      "holds (frame_symbols cc (rate_pos low) ?cnts runs) d2 d3" "dec_ready d3" by blast
  let ?n = "length (fst (snd (collect_frame (rate_pos low) 0 ?cnts runs ([], [], []))))"
  obtain syms d4 where syms: "signs_ok ?n syms" "holds (sign_symbols syms) d3 d4" "dec_ready d4"
    using signs_any [OF runs(3)] by blast
  define p where "p = \<lparr>Total = int k, Subfr = cs, MagRuns = runs, SignSyms = syms\<rparr>"
  have "pulse_params_ok cc low s1 p"
    using k(1) cs(1) runs(1) syms(1) by (simp add: pulse_params_ok_def p_def index_in_def rate_counts_def pulse_places_def)
  moreover have "holds (split_block cc low p) d1 d2" by (rule cs(2)) (simp_all add: p_def)
  then have "holds (pulse_symbols cc low s1 p) d d4"
    using k(2) runs(2) syms(2) unfolding pulse_symbols_def holds_append by (auto simp: p_def rate_counts_def)
  ultimately show ?thesis using syms(3) by blast
qed

lemma pulses_written:
  assumes "tables_ok cc" "s1 \<in> {0, 1}" "pulse_params_ok cc False s1 p"
  shows "encodeSmplPulses e cc 320 4 1 0 s1 p = encode_all (pulse_symbols cc False s1 p) e"
proof -
  have ok: "counts_ok False (Total p) (Subfr p)" "frame_runs_ok 80 (rate_counts False p) (MagRuns p)"
      "signs_ok (length (fst (snd (pulse_places False p)))) (SignSyms p)" "0 \<le> Total p" "Total p \<le> 160"
    using assms(3) by (auto simp: pulse_params_ok_def index_in_def count_cdf_def)
  have sizes: "pulse_sizes 320 4 1 0 s1 = Some (160, 40, 80)" using rate_sizes [OF assms(2), of False] by simp
  have l: "(word_of_int 160 :: u32) = 160" by simp
  have ft: "(if triT 160 160 = 0 then 1 else triT 160 160) = 13521" by (simp add: tri_ends(2))
  have t: "Encode e (if 0 < Total p then triT 160 (word_of_int (Total p - 1)) else 0)
      (triT 160 (word_of_int (Total p))) 13521 = encode_symbol (CdfSym (count_cdf cc False s1) (nat (Total p))) e"
    using tri_written [OF ok(4,5), of e] unfolding count_cdf_def by (simp only: if_False)
  note S = encodeSmplPulses_def sizes bind.bind_lunit prod.case Let_def l ft t
  show ?thesis
  proof (cases "Total p = 0")
    case True
    have z: "Subfr p = [0, 0, 0, 0]"
      using ok(1) True by (rule_tac counts_four [OF ok(1)]) (auto simp: split_fits_def)
    then have m: "MagRuns p = []" using ok(2) by (simp add: rate_counts_def)
    then have "SignSyms p = []"
      using ok(3) z by (simp add: pulse_places_def rate_counts_def signs_ok_def sign_shape.simps)
    then have "pulse_symbols cc False s1 p = [CdfSym (count_cdf cc False s1) (nat (Total p))]"
      using True z m by (simp add: pulse_symbols_def split_block_def rate_counts_def sign_symbols_def)
    then show ?thesis unfolding S using True by (simp only: if_True encode_one) (simp split: option.splits)
  next
    case False
    show ?thesis
    proof (rule counts_four [OF ok(1)])
      fix a b c
      assume cs: "Subfr p = [a, b, c, Total p - (a + b) - c]" and f: "split_fits (a + b) (rate_most False) a"
        "split_fits (Total p - (a + b)) (rate_most False) c"
      have cs0: "Subfr p ! 0 = a" "Subfr p ! 1 = b" "Subfr p ! 2 = c" using cs by simp_all
      define s where "s = a + b"
      define lo where "lo = max 0 (Total p - 80)"
      have r: "0 \<le> s" "s \<le> 80" "0 \<le> Total p - s" "Total p - s \<le> 80" "lo \<le> s" "s \<le> Total p - lo"
        using f by (auto simp: split_fits_def s_def lo_def)
      have p: "(if lo < Total p - lo then Option.bind (cdfWindow (SplitCmf cc (Total p)) (lo - lo) (Total p - lo - lo + 2))
          (write_cdf e1 (s - lo)) else Some e1) = encode_all (pair_symbols cc (Total p) s) e1" for e1
      proof (cases "lo < Total p - lo")
        case True
        then have "1 \<le> Total p" "Total p < 160" by (auto simp: lo_def)
        note W = pair_window_table [OF assms(1) this, folded lo_def]
        have q: "Total p - lo - lo + 2 = Total p - 2 * lo + 2" "0 \<le> s - lo" using r(5) by simp_all
        show ?thesis using True unfolding pair_symbols_def lo_def [symmetric] q(1)
          by (simp only: if_True diff_self W(1) bind.bind_lunit write_cdf_symbol [OF q(2)] encode_one)
      next
        case False
        then show ?thesis unfolding pair_symbols_def lo_def [symmetric] by simp
      qed
      have fits: "split_fits s 40 a" "split_fits (Total p - s) 40 c" using f by (simp_all add: s_def)
      have x: "(if 0 < s then encodeSplit3537 e2 cc s 40 a else Some e2) =
          encode_all (if 0 < s then split_symbols cc s 40 a else []) e2"
        "(if s < Total p then encodeSplit3537 e2 cc (Total p - s) 40 c else Some e2) =
          encode_all (if s < Total p then split_symbols cc (Total p - s) 40 c else []) e2" for e2
        using split_written [OF assms(1) r(1,2) fits(1)] split_written [OF assms(1) r(3,4) fits(2)] by simp_all
      have m: "mag_replays cc 80 (take (nat 4) (Subfr p)) (MagRuns p) e4 =
          encode_all (frame_symbols cc 80 (rate_counts False p) (MagRuns p)) e4" for e4
        using frame_written [OF assms(1) _ _ ok(2)] by (simp add: rate_counts_def)
      have i: "max 0 (Total p - 40 * 2) = lo" by (simp add: lo_def)
      have no: "(Total p = 0) = False" "(lo < lo) = False" "((4 :: int) < 4) = False" using False by simp_all
      show ?thesis
        unfolding S cs0 s_def [symmetric] i lo_def [symmetric] no if_False p x m signs_written
        unfolding pulse_symbols_def split_block_def Let_def cs0 s_def [symmetric] no if_False encode_all_append encode_one rate_simps
        by (simp add: bind_assoc)
    qed
  qed
qed

end
