(* ===== verification/MlowGains.thy ===== *)
theory MlowGains
  imports MlowVectors
begin

text \<open>The gain block of an unvoiced frame.\<close>

definition energy_cdf :: "CcTables \<Rightarrow> int \<Rightarrow> int \<Rightarrow> int \<Rightarrow> u16 list" where
  "energy_cdf cc p3 cnt gainq = the (nrg_row cc p3 cnt gainq)"

lemma wrap32_range: "- 2147483648 \<le> wrap32 x \<and> wrap32 x < 2147483648"
  using signed_take_bit_int_greater_eq_minus_exp [of 31 x] signed_take_bit_int_less_exp [of 31 x] by (simp add: wrap32_def)

lemma sign_mask: "- 2147483648 \<le> (g :: int) \<Longrightarrow> g < 2147483648 \<Longrightarrow> (g div 2 ^ 31) AND g = min g 0"
proof (cases "g < 0")
  case True
  assume "- 2147483648 \<le> g"
  then have "g div 2 ^ 31 = - 1" using True by (intro int_div_pos_eq [of _ _ "- 1" "g + 2147483648"]) simp_all
  then show ?thesis using True by simp
next
  case False
  assume "g < 2147483648"
  then have "g div 2 ^ 31 = 0" using False by simp
  then show ?thesis using False by simp
qed

lemma energy_table:
  assumes "tables_ok cc" "0 < cnt" "cnt \<le> 40"
  shows "nrg_row cc p3 cnt q = Some (energy_cdf cc p3 cnt q)" "cdf_table (energy_cdf cc p3 cnt q)"
    "length (energy_cdf cc p3 cnt q) = 92"
proof -
  define bucket where "bucket = (if 30 \<le> cnt then 3 else (cnt AND 0xffff) div 10)"
  define g where "g = (if wrap32 (q + 8192) div 2 ^ 14 < - 85 then - 85 else wrap32 (q + 8192) div 2 ^ 14)"
  have "cnt AND 0xffff = cnt" if "cnt < 30"
  proof -
    have "(0xffff :: int) = mask 16" by (simp add: mask_eq_exp_minus_1)
    then have "cnt AND 0xffff = take_bit 16 cnt" by (simp only: take_bit_eq_mask)
    then show ?thesis using that assms(2) by (simp add: take_bit_int_eq_self)
  qed
  then have b: "0 \<le> bucket" "bucket \<le> 3" using assms(2) by (auto simp: bucket_def)
  have w: "wrap32 (q + 8192) div 2 ^ 14 < 2147483648"   proof -
    have "y div 16384 < 2147483648" if "y < 2147483648" for y :: int using that by linarith
    then show ?thesis using wrap32_range [of "q + 8192"] by simp
  qed
  then have g: "- 85 \<le> g" "g < 2147483648" by (auto simp: g_def)
  then have m: "- ((g div 2 ^ 31) AND g) = max (- g) 0" by (subst sign_mask) auto
  let ?i = "nat (cfg_sel p3 * 4 + bucket)"
  have i: "0 \<le> cfg_sel p3 * 4 + bucket" "cfg_sel p3 * 4 + bucket < 12" using b by (auto simp: cfg_sel_def)
  then have row: "at (fcbgOffset cc) (cfg_sel p3 * 4 + bucket) = Some (fcbgOffset cc ! ?i)" "?i < length (fcbgOffset cc)"
    using assms(1) by (auto simp: tables_ok_def at_def)
  then have "fcbgOffset cc ! ?i \<in> set (fcbgOffset cc)" by simp
  then have t: "cdf_table (fcbgOffset cc ! ?i)" "length (fcbgOffset cc ! ?i) = 177"
    using assms(1) unfolding tables_ok_def by blast+
  obtain c where c: "slice_at (fcbgOffset cc ! ?i) (max (- g) 0) (max (- g) 0 + 92) = Some c" "cdf_table c" "int (length c) = 92"
    using slice_at_table [OF t(1), of "max (- g) 0" "max (- g) 0 + 92"] t(2) g by auto
  have "nrg_row cc p3 cnt q = Some c"
    using row(1) c(1) unfolding nrg_row_def FcbgOffset_def Let_def bucket_def [symmetric] g_def [symmetric] m ccFcbgOffsetBuckets_def
    by simp
  then show "nrg_row cc p3 cnt q = Some (energy_cdf cc p3 cnt q)" "cdf_table (energy_cdf cc p3 cnt q)"
    "length (energy_cdf cc p3 cnt q) = 92"
    using c by (simp_all add: energy_cdf_def)
qed

definition energy_symbols :: "CcTables \<Rightarrow> int \<Rightarrow> int list \<Rightarrow> int list \<Rightarrow> int list \<Rightarrow> nat list \<Rightarrow> symbol list" where
  "energy_symbols cc p3 counts gains vs ks =
     concat (map (\<lambda>k. if counts ! k \<le> 0 then [] else [CdfSym (energy_cdf cc p3 (counts ! k) (gains ! k)) (nat (vs ! k))]) ks)"

definition energy_ok :: "int list \<Rightarrow> int list \<Rightarrow> nat \<Rightarrow> bool" where
  "energy_ok counts vs k \<longleftrightarrow> k < length vs \<and> (if counts ! k \<le> 0 then vs ! k = 0 else 0 \<le> vs ! k \<and> vs ! k < 91)"

lemma energies_read:
  "holds (energy_symbols cc p3 counts gains vs ks) d d' \<Longrightarrow> tables_ok cc \<Longrightarrow>
   \<forall>k\<in>set ks. counts ! k \<le> 40 \<and> energy_ok counts vs k \<Longrightarrow>
   read_energies d cc p3 counts gains (map int ks) = Some (map ((!) vs) ks, d')"
proof (induction ks arbitrary: d)
  case (Cons k ks)
  have k: "counts ! k \<le> 40" "energy_ok counts vs k" using Cons.prems(3) by simp_all
  show ?case
  proof (cases "counts ! k \<le> 0")
    case True
    then have "holds (energy_symbols cc p3 counts gains vs ks) d d'" using Cons.prems(1) by (simp add: energy_symbols_def)
    from Cons.IH [OF this Cons.prems(2)] show ?thesis using True k(2) Cons.prems(3) by (simp add: energy_ok_def)
  next
    case False
    then obtain d1 where d1: "holds [CdfSym (energy_cdf cc p3 (counts ! k) (gains ! k)) (nat (vs ! k))] d d1"
        "holds (energy_symbols cc p3 counts gains vs ks) d1 d'"
      using Cons.prems(1) by (auto simp: energy_symbols_def holds_split [of _ "concat _"])
    have v: "0 \<le> vs ! k" using False k(2) by (simp add: energy_ok_def)
    show ?thesis
      using Cons.IH [OF d1(2) Cons.prems(2)] Cons.prems(3) False energy_table(1) [OF Cons.prems(2), of "counts ! k" p3 "gains ! k"] k(1)
        holds_cdf [OF d1(1)] v by simp
  qed
qed (simp add: energy_symbols_def)

lemma energies_any:
  "tables_ok cc \<Longrightarrow> \<forall>k\<in>set ks. counts ! k \<le> 40 \<Longrightarrow> distinct ks \<Longrightarrow> dec_ready d \<Longrightarrow>
   \<exists>v d'. (\<forall>k\<in>set ks. if counts ! k \<le> 0 then v k = 0 else 0 \<le> v k \<and> v k < 91) \<and>
     (\<forall>vs. (\<forall>k\<in>set ks. vs ! k = v k) \<longrightarrow> holds (energy_symbols cc p3 counts gains vs ks) d d') \<and> dec_ready d'"
proof (induction ks arbitrary: d)
  case Nil
  then show ?case by (intro exI [of _ d] exI) (simp add: energy_symbols_def)
next
  case (Cons k ks)
  have k: "counts ! k \<le> 40" "k \<notin> set ks" using Cons.prems by simp_all
  show ?case
  proof (cases "counts ! k \<le> 0")
    case True
    obtain v :: "nat \<Rightarrow> int" and d' where v: "\<forall>k\<in>set ks. if counts ! k \<le> 0 then v k = 0 else 0 \<le> v k \<and> v k < 91"
        "\<forall>vs. (\<forall>k\<in>set ks. vs ! k = v k) \<longrightarrow> holds (energy_symbols cc p3 counts gains vs ks) d d'" "dec_ready d'"
      using Cons.IH [OF Cons.prems(1) _ _ Cons.prems(4)] Cons.prems(2,3) by auto
    then show ?thesis
      using True k(2) by (intro exI [of _ "v(k := 0)"] exI [of _ d']) (auto simp: energy_symbols_def)
  next
    case False
    then have c: "0 < counts ! k" by simp
    note T = energy_table [OF Cons.prems(1) c k(1), of p3 "gains ! k"]
    obtain x d1 where x: "x < 91" "holds [CdfSym (energy_cdf cc p3 (counts ! k) (gains ! k)) x] d d1" "dec_ready d1"
      using any_cdf [OF T(2) Cons.prems(4)] T(3) by auto
    obtain v :: "nat \<Rightarrow> int" and d' where v: "\<forall>k\<in>set ks. if counts ! k \<le> 0 then v k = 0 else 0 \<le> v k \<and> v k < 91"
        "\<forall>vs. (\<forall>k\<in>set ks. vs ! k = v k) \<longrightarrow> holds (energy_symbols cc p3 counts gains vs ks) d1 d'" "dec_ready d'"
      using Cons.IH [OF Cons.prems(1) _ _ x(3)] Cons.prems(2,3) by auto
    have "holds (energy_symbols cc p3 counts gains vs (k # ks)) d d'" if "\<forall>j\<in>set (k # ks). vs ! j = (v(k := int x)) j" for vs
    proof -
      have "vs ! k = int x" "holds (energy_symbols cc p3 counts gains vs ks) d1 d'" using that v(2) k(2) by (auto split: if_splits)
      then show ?thesis using False x(2) by (auto simp: energy_symbols_def holds_split [of _ "concat _"])
    qed
    then show ?thesis
      using v(1,3) x(1) False k(2) by (intro exI [of _ "v(k := int x)"] exI [of _ d']) auto
  qed
qed

lemma energies_written:
  "tables_ok cc \<Longrightarrow> \<forall>k\<in>set ks. counts ! k \<le> 40 \<and> energy_ok counts vs k \<Longrightarrow>
   write_energies e cc p3 counts gains vs (map int ks) = encode_all (energy_symbols cc p3 counts gains vs ks) e"
proof (induction ks arbitrary: e)
  case (Cons k ks)
  have k: "counts ! k \<le> 40" "energy_ok counts vs k" using Cons.prems(2) by simp_all
  show ?case
  proof (cases "counts ! k \<le> 0")
    case True
    then show ?thesis using Cons by (simp add: energy_symbols_def)
  next
    case False
    then have "0 \<le> vs ! k" using k(2) by (simp add: energy_ok_def)
    then show ?thesis
      using Cons False energy_table(1) [OF Cons.prems(1), of "counts ! k" p3 "gains ! k"] k(1)
      by (simp add: energy_symbols_def write_cdf_symbol split: option.splits)
  qed
qed (simp add: energy_symbols_def)

section \<open>The gain block\<close>

definition gain_symbols :: "CcTables \<Rightarrow> bool \<Rightarrow> int list \<Rightarrow> SmplGainParams \<Rightarrow> symbol list" where
  "gain_symbols cc low counts gp =
     [CdfSym (NrgresGain cc (rate_p3 low)) (nat (GainMain gp)), CdfSym (NrgresShape cc (rate_p3 low)) (nat (GainDelta gp))] @
     energy_symbols cc (rate_p3 low) counts (gain_levels cc (rate_p3 low) (GainMain gp) (GainDelta gp)) (NrgRes gp)
       [0..<nat (rate_p3 low)]"

definition gain_params_ok :: "CcTables \<Rightarrow> bool \<Rightarrow> int list \<Rightarrow> SmplGainParams \<Rightarrow> bool" where
  "gain_params_ok cc low counts gp \<longleftrightarrow> index_in (GainMain gp) (NrgresGain cc (rate_p3 low)) \<and>
     index_in (GainDelta gp) (NrgresShape cc (rate_p3 low)) \<and> length (NrgRes gp) = 4 \<and>
     (\<forall>k<4. if k < nat (rate_p3 low) then energy_ok counts (NrgRes gp) k else NrgRes gp ! k = 0)"

definition gain_result :: "CcTables \<Rightarrow> bool \<Rightarrow> SmplGainParams \<Rightarrow> SmplGainResult" where
  "gain_result cc low gp = \<lparr>GainQ = gain_levels cc (rate_p3 low) (GainMain gp) (GainDelta gp), nrgRes = NrgRes gp,
     gainMain = GainMain gp, gainDelta = GainDelta gp\<rparr>"

lemma subframes_rate: "subframes (rate_p3 low) = map int [0..<nat (rate_p3 low)]"
  by (simp add: subframes_def rate_p3_def upto.simps upt_conv_Cons)

lemma counts_le: "counts_ok low n cs \<Longrightarrow> k < 4 \<Longrightarrow> 0 \<le> cs ! k \<and> cs ! k \<le> 40"
  by (auto simp: counts_ok_def rate_most_def split: if_splits dest!: bspec [of _ _ "cs ! k"])

lemma rate_nat: "nat (rate_p3 low) \<le> 4" "2 \<le> nat (rate_p3 low)"
  by (simp_all add: rate_p3_def)

lemma gains_read:
  assumes "holds (gain_symbols cc low cs gp) d d'" "tables_ok cc" "counts_ok low n cs" "gain_params_ok cc low cs gp"
  shows "DecodeSmplGains d cc (rate_p3 low) cs = Some (gain_result cc low gp, d')"
proof -
  let ?p3 = "rate_p3 low"
  let ?g = "gain_levels cc ?p3 (GainMain gp) (GainDelta gp)"
  obtain d1 d2 where h: "holds [CdfSym (NrgresGain cc ?p3) (nat (GainMain gp))] d d1"
      "holds [CdfSym (NrgresShape cc ?p3) (nat (GainDelta gp))] d1 d2"
      "holds (energy_symbols cc ?p3 cs ?g (NrgRes gp) [0..<nat ?p3]) d2 d'"
    using assms(1) unfolding gain_symbols_def holds_append by (subst (asm) holds_split) blast
  have p: "0 \<le> GainMain gp" "0 \<le> GainDelta gp" "length (NrgRes gp) = 4"
      "\<And>k. k < nat ?p3 \<Longrightarrow> energy_ok cs (NrgRes gp) k" "\<And>k. k < 4 \<Longrightarrow> \<not> k < nat ?p3 \<Longrightarrow> NrgRes gp ! k = 0"
    using assms(4) rate_nat [of low] by (auto simp: gain_params_ok_def index_in_def)
  have r: "read_energies d2 cc ?p3 cs ?g (subframes ?p3) = Some (map ((!) (NrgRes gp)) [0..<nat ?p3], d')"
    unfolding subframes_rate using p(4) counts_le [OF assms(3)] rate_nat(1) [of low]
    by (intro energies_read [OF h(3) assms(2)]) auto
  have "map ((!) (NrgRes gp)) [0..<nat ?p3] @ replicate (4 - nat ?p3) 0 = NrgRes gp"
    using p(3,5) rate_nat(1) [of low] by (intro nth_equalityI) (auto simp: nth_append)
  then show ?thesis
    using p(1,2) by (simp add: DecodeSmplGains_def holds_cdf [OF h(1)] holds_cdf [OF h(2)] Let_def r gain_result_def)
qed

lemma gains_any:
  assumes "tables_ok cc" "counts_ok low n cs" "dec_ready d"
  shows "\<exists>gp d'. gain_params_ok cc low cs gp \<and> holds (gain_symbols cc low cs gp) d d' \<and> dec_ready d'"
proof -
  let ?p3 = "rate_p3 low"
  have t: "cdf_table (NrgresGain cc ?p3)" "cdf_table (NrgresShape cc ?p3)" using assms(1) by (simp_all add: tables_ok_def)
  obtain a d1 where a: "a < length (NrgresGain cc ?p3) - 1" "holds [CdfSym (NrgresGain cc ?p3) a] d d1" "dec_ready d1"
    using any_cdf [OF t(1) assms(3)] by blast
  obtain b d2 where b: "b < length (NrgresShape cc ?p3) - 1" "holds [CdfSym (NrgresShape cc ?p3) b] d1 d2" "dec_ready d2"
    using any_cdf [OF t(2) a(3)] by blast
  have l: "\<forall>k\<in>set [0..<nat ?p3]. cs ! k \<le> 40" using counts_le [OF assms(2)] rate_nat(1) [of low] by auto
  obtain v :: "nat \<Rightarrow> int" and d3 where v: "\<forall>k\<in>set [0..<nat ?p3]. if cs ! k \<le> 0 then v k = 0 else 0 \<le> v k \<and> v k < 91"
      "\<And>vs. \<forall>k\<in>set [0..<nat ?p3]. vs ! k = v k \<Longrightarrow>
         holds (energy_symbols cc ?p3 cs (gain_levels cc ?p3 (int a) (int b)) vs [0..<nat ?p3]) d2 d3" "dec_ready d3"
    using energies_any [OF assms(1) l _ b(3), of ?p3 "gain_levels cc ?p3 (int a) (int b)"] by auto
  define vs where "vs = map (\<lambda>k. if k < nat ?p3 then v k else 0) [0..<4]"
  define gp where "gp = \<lparr>GainMain = int a, GainDelta = int b, NrgRes = vs\<rparr>"
  have "gain_params_ok cc low cs gp"
    using a(1) b(1) v(1) rate_nat(1) [of low]
    by (auto simp: gain_params_ok_def gp_def index_in_def energy_ok_def vs_def)
  moreover have "holds (energy_symbols cc ?p3 cs (gain_levels cc ?p3 (int a) (int b)) vs [0..<nat ?p3]) d2 d3"
    using rate_nat(1) [of low] by (intro v(2)) (auto simp: vs_def)
  then have "holds (gain_symbols cc low cs gp) d d3"
    unfolding gain_symbols_def holds_append using a(2) b(2) holds_split [of _ "[CdfSym (NrgresShape cc ?p3) b]"]
    by (auto simp: gp_def)
  ultimately show ?thesis using v(3) by blast
qed

lemma gains_written:
  assumes "tables_ok cc" "counts_ok low n cs" "gain_params_ok cc low cs gp"
  shows "encodeSmplGains e cc (rate_p3 low) cs gp = encode_all (gain_symbols cc low cs gp) e"
proof -
  let ?p3 = "rate_p3 low"
  have p: "0 \<le> GainMain gp" "0 \<le> GainDelta gp" "\<And>k. k < nat ?p3 \<Longrightarrow> energy_ok cs (NrgRes gp) k"
    using assms(3) rate_nat [of low] by (auto simp: gain_params_ok_def index_in_def)
  have w: "write_energies e2 cc ?p3 cs g (NrgRes gp) (subframes ?p3) = encode_all (energy_symbols cc ?p3 cs g (NrgRes gp) [0..<nat ?p3]) e2"
    for e2 g
    unfolding subframes_rate using p(3) counts_le [OF assms(2)] rate_nat(1) [of low]
    by (intro energies_written [OF assms(1)]) auto
  show ?thesis
    unfolding encodeSmplGains_def gain_symbols_def encode_all_append w write_cdf_symbol [OF p(1)] write_cdf_symbol [OF p(2)]
    by (simp split: option.splits)
qed

end
