(* ===== verification/MlowPitch.thy ===== *)
theory MlowPitch
  imports MlowGains
begin

text \<open>
  mlow/pitch_seed.go, mlow/mem.go, mlow/pitch.go and \<open>encodeSmplPitch\<close> of mlow/encoder.go: the pitch block
  of a voiced frame.  The decoder reads its tables through a window of the codec's heap at fixed
  addresses, the encoder through tables built from the same seed.  The inflated bytes of the seed are a
  parameter.  The mean of a block track, a \<open>float32\<close> that is an exact multiple of one eighth, is kept as the
  number of eighths.
\<close>

section \<open>The pitch seed\<close>

definition pitchNumBlocksegs :: nat where "pitchNumBlocksegs = 217"
definition pitchNumBlocktracks :: nat where "pitchNumBlocktracks = 187"
definition pitchBlocksize :: int where "pitchBlocksize = 64"
definition pitchNumBlocks :: nat where "pitchNumBlocks = 9"
definition NumSubframes :: nat where "NumSubframes = 8"

record pitchSeed =
  blocksegsBitstream :: bytes
  blocksegs2idx :: bytes
  blocksegsIx :: bytes
  firstblockRange :: bytes
  blocksegIdxDcmf :: bytes
  deltaLagDcmfs :: bytes
  blockTransitionDcmf :: bytes

text \<open>\<open>n\<close> is the length of the input; an index that leaves the range of \<open>int\<close> makes the slice panic.\<close>

function parse_byte_fields :: "nat \<Rightarrow> bytes \<Rightarrow> (nat \<rightharpoonup> bytes) \<Rightarrow> (nat \<rightharpoonup> bytes) option" where
  "parse_byte_fields n b out =
     (case readVarint 0 0 b of
        None \<Rightarrow> Some out
      | Some (key, r) \<Rightarrow>
          if key AND 7 \<noteq> 2 then Some out
          else case readVarint 0 0 r of
            None \<Rightarrow> Some out
          | Some (n1, r1) \<Rightarrow>
              if 2 ^ 63 \<le> int (n - length r1) + uint n1 then None
              else if length r1 < unat n1 then Some out
              else parse_byte_fields n (drop (unat n1) r1) (out(unat (drop_bit 3 key) \<mapsto> take (unat n1) r1)))"
  by pat_completeness auto

termination
  by (relation "measure (\<lambda>(n, b, out). length b)") (auto dest!: readVarint_shorter)

declare parse_byte_fields.simps [simp del]

definition parseProtoBytes :: "bytes \<Rightarrow> (nat \<rightharpoonup> bytes) option" where
  "parseProtoBytes b = parse_byte_fields (length b) b Map.empty"

definition loadPitchSeed :: "bytes \<Rightarrow> pitchSeed option" where
  "loadPitchSeed raw =
     map_option (\<lambda>f. let field = (\<lambda>k. case f k of None \<Rightarrow> [] | Some b \<Rightarrow> b)
       in \<lparr>blocksegsBitstream = field 1, blocksegs2idx = field 2, blocksegsIx = field 3, firstblockRange = field 4,
           blocksegIdxDcmf = field 5, deltaLagDcmfs = field 6, blockTransitionDcmf = field 7\<rparr>)
     (parseProtoBytes raw)"

record pitchBlockSeg =
  Nblocks :: nat
  Blocks :: "int list"
  Seglens :: "int list"

record pitchBlockTrack =
  Track :: "int list"
  Meanblock :: int
  Trackdeltas :: int

definition ecDecodeUniform :: "RangeDecoder \<Rightarrow> u32 \<Rightarrow> (u32 \<times> RangeDecoder) option" where
  "ecDecodeUniform d n = (let (v, d1) = Decode d n in map_option (Pair v) (Update d1 v (v + 1) n))"

fun decode_blocks :: "nat \<Rightarrow> RangeDecoder \<Rightarrow> (int list \<times> int list \<times> RangeDecoder) option" where
  "decode_blocks 0 d = Some ([], [], d)"
| "decode_blocks (Suc n) d = do {
     (b, d1) \<leftarrow> ecDecodeUniform d 9;
     (l, d2) \<leftarrow> ecDecodeUniform d1 4;
     (bs, ls, d3) \<leftarrow> decode_blocks n d2;
     Some (uint b # bs, uint (l + 1) # ls, d3)
   }"

definition decodeBlockseg :: "RangeDecoder \<Rightarrow> (pitchBlockSeg \<times> RangeDecoder) option" where
  "decodeBlockseg d = do {
     (l, d1) \<leftarrow> ecDecodeUniform d 6;
     (bs, ls, d2) \<leftarrow> decode_blocks (unat (l + 1)) d1;
     Some (\<lparr>Nblocks = unat (l + 1), Blocks = bs, Seglens = ls\<rparr>, d2)
   }"

fun decode_blocksegs :: "nat \<Rightarrow> RangeDecoder \<Rightarrow> pitchBlockSeg list option" where
  "decode_blocksegs 0 d = Some []"
| "decode_blocksegs (Suc n) d = do {
     (s, d1) \<leftarrow> decodeBlockseg d;
     ss \<leftarrow> decode_blocksegs n d1;
     Some (s # ss)
   }"

text \<open>A track has room for eight sub-blocks; the ninth is an index out of range.\<close>

definition gen_track :: "pitchBlockSeg \<Rightarrow> pitchBlockTrack option" where
  "gen_track seg =
     (let cells = concat (map2 (\<lambda>b l. replicate (nat l) b) (Blocks seg) (Seglens seg))
      in if NumSubframes < length cells then None
         else Some \<lparr>Track = cells @ replicate (NumSubframes - length cells) 0,
           Meanblock = sum_list (map2 (*) (Blocks seg) (Seglens seg)),
           Trackdeltas = sum_list (map2 (\<lambda>a b. \<bar>a - b\<bar>) (Blocks seg) (tl (Blocks seg)))\<rparr>)"

definition genBlocktracks :: "pitchBlockSeg list \<Rightarrow> (int \<times> int) list \<Rightarrow> pitchBlockTrack list option" where
  "genBlocktracks segs ix =
     all_some (map (\<lambda>k. Option.bind (at ix (int k)) (\<lambda>p. Option.bind (at segs (fst p)) gen_track)) [0..<pitchNumBlocktracks])"

fun chunkPairs :: "bytes \<Rightarrow> (int \<times> int) list" where
  "chunkPairs (a # b # r) = (uint a, uint b) # chunkPairs r"
| "chunkPairs _ = []"

record contourWindowParts =
  records :: "(int list \<times> int list) list"
  contourMap :: bytes
  windowRange :: "(int \<times> int) list"
  lagCdf :: "u32 list"
  fracCmfs :: "u32 list list"
  deltaCmfs :: "u32 list list"

definition buildContourWindow :: "pitchSeed \<Rightarrow> contourWindowParts option" where
  "buildContourWindow s = do {
     dec \<leftarrow> NewRangeDecoder (blocksegsBitstream s);
     segs \<leftarrow> decode_blocksegs pitchNumBlocksegs dec;
     Some \<lparr>records = map (\<lambda>bs. (Blocks bs, Seglens bs)) segs, contourMap = blocksegs2idx s,
       windowRange = chunkPairs (firstblockRange s), lagCdf = pitchDcmfToCmf (blocksegIdxDcmf s),
       fracCmfs = map pitchDcmfToCmf (chunks 319 (deltaLagDcmfs s)),
       deltaCmfs = map pitchDcmfToCmf (chunks pitchNumBlocks (blockTransitionDcmf s))\<rparr>
   }"

record PitchTables =
  Blocksegs :: "pitchBlockSeg list"
  Blocktracks :: "pitchBlockTrack list"
  Blocksegs2idx :: "int list"
  BlocksegIdxCmf :: "u32 list"
  DeltaLagCmfs :: "u32 list list"
  BlocksegsIx :: "(int \<times> int) list"
  FirstblockRange :: "(int \<times> int) list"
  BlockTransitionCmf :: "u32 list list"

definition buildPitchTablesFromSeed :: "pitchSeed \<Rightarrow> PitchTables option" where
  "buildPitchTablesFromSeed s = do {
     dec \<leftarrow> NewRangeDecoder (blocksegsBitstream s);
     segs \<leftarrow> decode_blocksegs pitchNumBlocksegs dec;
     tracks \<leftarrow> genBlocktracks segs (chunkPairs (blocksegsIx s));
     Some \<lparr>Blocksegs = segs, Blocktracks = tracks, Blocksegs2idx = map uint (blocksegs2idx s),
       BlocksegIdxCmf = pitchDcmfToCmf (blocksegIdxDcmf s),
       DeltaLagCmfs = map pitchDcmfToCmf (chunks 319 (deltaLagDcmfs s)),
       BlocksegsIx = chunkPairs (blocksegsIx s), FirstblockRange = chunkPairs (firstblockRange s),
       BlockTransitionCmf = map pitchDcmfToCmf (chunks pitchNumBlocks (blockTransitionDcmf s))\<rparr>
   }"

section \<open>The window of the heap\<close>

record smplMemRegion =
  base :: u32
  regionData :: bytes

record SmplMem =
  regions :: "smplMemRegion list"
  GCC :: u32
  GNrg :: u32
  GPitch :: u32
  GClk :: u32

definition memGClk :: u32 where "memGClk = 0xb9f9a8"
definition memGPitch :: u32 where "memGPitch = 0xb9d378"
definition memPcfg :: u32 where "memPcfg = memGClk + 0x5704"
definition memHdrContourMap :: u32 where "memHdrContourMap = 0xe7c10"
definition memHdrLagCdf :: u32 where "memHdrLagCdf = 0xbaa7b0"
definition memHdrFracBase :: u32 where "memHdrFracBase = 0xbaa9be"
definition memHdrDeltaCdf :: u32 where "memHdrDeltaCdf = 0xbab13e"
definition memDeltaBounds :: u32 where "memDeltaBounds = 0xe7ef0"
definition memNumContours :: u32 where "memNumContours = 217"
definition memHdrUnused :: "u32 list" where "memHdrUnused = [0xe7d20, 0xe7ef0, 0xe8096]"

text \<open>\<open>binary.LittleEndian\<close>, written and read.\<close>

definition put_le :: "nat \<Rightarrow> u32 \<Rightarrow> bytes" where
  "put_le n x = map (\<lambda>i. ucast (drop_bit (8 * i) x)) [0..<n]"

fun get_le :: "bytes \<Rightarrow> u32" where
  "get_le [] = 0"
| "get_le (b # bs) = ucast b OR push_bit 8 (get_le bs)"

definition u16Bytes :: "u32 list \<Rightarrow> bytes" where
  "u16Bytes v = concat (map (put_le 2) v)"

definition record_bytes :: "int list \<times> int list \<Rightarrow> bytes" where
  "record_bytes rec =
     (let row = (\<lambda>xs. concat (map (\<lambda>i. put_le 4 (if i < length xs then word_of_int (xs ! i) else 0)) [0..<8]))
      in row (fst rec) @ row (snd rec) @ put_le 4 (of_nat (length (fst rec))))"

definition buildSmplMemFromSeed :: "contourWindowParts \<Rightarrow> SmplMem" where
  "buildSmplMemFromSeed w =
     (let header = [memNumContours, memHdrContourMap, memHdrLagCdf, memHdrFracBase] @ memHdrUnused @ [memHdrDeltaCdf];
          r0 = concat (map record_bytes (records w)) @ put_le 4 187 @ concat (map (put_le 4) header);
          bounds = concat (map (\<lambda>p. [word_of_int (fst p), word_of_int (snd p)]) (windowRange w)) @ [0, 0]
      in \<lparr>regions =
            [\<lparr>base = memPcfg + 0x1d38, regionData = r0\<rparr>,
             \<lparr>base = memHdrLagCdf, regionData = u16Bytes (lagCdf w)\<rparr>,
             \<lparr>base = memHdrFracBase, regionData = u16Bytes (concat (fracCmfs w))\<rparr>,
             \<lparr>base = memHdrDeltaCdf, regionData = u16Bytes (concat (deltaCmfs w))\<rparr>,
             \<lparr>base = memHdrContourMap, regionData = contourMap w\<rparr>,
             \<lparr>base = memDeltaBounds, regionData = bounds\<rparr>],
          GCC = 0, GNrg = 0, GPitch = memGPitch, GClk = memGClk\<rparr>)"

definition regionFor :: "SmplMem \<Rightarrow> u32 \<Rightarrow> nat \<Rightarrow> (bytes \<times> nat) option" where
  "regionFor m addr n =
     map_option (\<lambda>r. (regionData r, unat (addr - base r)))
       (find (\<lambda>r. base r \<le> addr \<and> unat (addr - base r) + n \<le> length (regionData r)) (regions m))"

definition U8 :: "SmplMem \<Rightarrow> u32 \<Rightarrow> u8" where
  "U8 m addr = (case regionFor m addr 1 of None \<Rightarrow> 0 | Some (dat, off) \<Rightarrow> dat ! off)"

definition U16 :: "SmplMem \<Rightarrow> u32 \<Rightarrow> u16" where
  "U16 m addr = (case regionFor m addr 2 of None \<Rightarrow> 0 | Some (dat, off) \<Rightarrow> ucast (get_le (take 2 (drop off dat))))"

definition I16 :: "SmplMem \<Rightarrow> u32 \<Rightarrow> int" where "I16 m addr = sint (U16 m addr)"

definition U32 :: "SmplMem \<Rightarrow> u32 \<Rightarrow> u32" where
  "U32 m addr = (case regionFor m addr 4 of None \<Rightarrow> 0 | Some (dat, off) \<Rightarrow> get_le (take 4 (drop off dat)))"

definition I32 :: "SmplMem \<Rightarrow> u32 \<Rightarrow> int" where "I32 m addr = sint (U32 m addr)"

definition CDFAt :: "SmplMem \<Rightarrow> u32 \<Rightarrow> nat \<Rightarrow> u16 list" where
  "CDFAt m addr n = map (\<lambda>i. U16 m (addr + of_nat i * 2)) [0..<n]"

section \<open>The pitch block, decoder\<close>

record SmplPitchResult =
  gainIdx :: "int list"
  filtIdx :: "int list"
  resLag :: int
  resContour :: int
  SampleLagQ6 :: "int list"
  NumSeg :: int
  IntLagQ6 :: "int list"
  BlockLags :: "int list"
  NumSubfr :: int

text \<open>The tables of the LTP gain and filter, and the weights of a gain.\<close>

definition ltp_row :: "CcTables \<Rightarrow> int \<Rightarrow> int \<Rightarrow> u16 list option" where
  "ltp_row cc p6 prev = (if p6 \<noteq> 0 then AcbgainRowLr cc prev else AcbgainRow cc prev)"

definition ltp_weights :: "CcTables \<Rightarrow> int \<Rightarrow> int \<Rightarrow> (int \<times> int) option" where
  "ltp_weights cc p6 gi = (if p6 \<noteq> 0 then AcbgainWeightsLr cc gi else AcbgainWeights cc gi)"

definition filter_row :: "CcTables \<Rightarrow> int \<Rightarrow> u16 list option" where
  "filter_row cc prev = (if prev = - 1 then Some (FcbgainV cc) else FcbgainVDelta cc prev)"

fun read_ltp ::
  "RangeDecoder \<Rightarrow> CcTables \<Rightarrow> int \<Rightarrow> int list \<Rightarrow> int list \<Rightarrow> SmplLsfState \<Rightarrow> int \<Rightarrow>
   (int list \<times> int list \<times> int \<times> SmplLsfState \<times> RangeDecoder) option" where
  "read_ltp d cc p6 counts [] st gain = Some ([], [], gain, st, d)"
| "read_ltp d cc p6 counts (sf # sfs) st gain = do {
     row \<leftarrow> ltp_row cc p6 (PrevGainIdx st);
     (gi, d1) \<leftarrow> read_cdf d row;
     (w0, w2) \<leftarrow> ltp_weights cc p6 gi;
     (fi, st1, d2) \<leftarrow> (if 0 < counts ! nat sf then do {
         row \<leftarrow> filter_row cc (PrevFiltIdx st);
         (fi, d2) \<leftarrow> read_cdf d1 row;
         Some (fi, st\<lparr>PrevGainIdx := gi, PrevFiltIdx := fi\<rparr>, d2)
       } else Some (- 1, st\<lparr>PrevGainIdx := gi\<rparr>, d1));
     (gs, fs, gain1, st2, d3) \<leftarrow> read_ltp d2 cc p6 counts sfs st1 (wrap32 (gain + (w0 + 2 * w2)));
     Some (gi # gs, fi # fs, gain1, st2, d3)
   }"

text \<open>The delta table by the mean gain.\<close>

definition seg_sel :: "int \<Rightarrow> int" where
  "seg_sel avgGain = (if 10007 \<le> avgGain then (if avgGain < 14085 then 1 else 2) else 0)"

text \<open>The primary lag; \<open>None\<close> inside is the malformed interval.\<close>

definition read_lag :: "RangeDecoder \<Rightarrow> SmplMem \<Rightarrow> SmplLsfState \<Rightarrow> (int option \<times> RangeDecoder) option" where
  "read_lag d mem st =
     (let pcfg = GClk mem + 0x5704; numContours = I32 mem (pcfg + 22240);
          lagTab = U32 mem (pcfg + 22248); deltaTab = U32 mem (pcfg + 22268)
      in if PrevLag st < 0 then do {
           (lag, d1) \<leftarrow> read_cdf d (CDFAt mem lagTab (nat (wrap32 (numContours + 1))));
           Some (Some lag, d1)
         } else do {
           (di, d1) \<leftarrow> read_cdf d (CDFAt mem (deltaTab + word_of_int (PrevLag st) * 20) 10);
           let lo = uint (U8 mem (0xe7ef0 + word_of_int di * 2)); hi = uint (U8 mem (0xe7ef0 + word_of_int di * 2 + 1));
               rN = (hi - lo) + 2
           in if rN < 2 then Some (None, d1)
              else do {
                (s, d2) \<leftarrow> read_cdf d1 (CDFAt mem (lagTab + word_of_int lo * 2) (nat rN));
                Some (Some (s + lo), d2)
              }
         })"

definition find_contour :: "SmplMem \<Rightarrow> u32 \<Rightarrow> int \<Rightarrow> int" where
  "find_contour mem contourTab target =
     (case find (\<lambda>i. uint (U8 mem (contourTab + of_nat i)) = target) [0..<217] of None \<Rightarrow> - 1 | Some i \<Rightarrow> int i)"

text \<open>
  The lags written so far: the next sub-block, and the arrays of four and eight.  An update past the end
  leaves a list as it is, which is the guard of the code.
\<close>

type_synonym lag_fill = "nat \<times> int list \<times> int list"

fun put_lag :: "int \<Rightarrow> lag_fill \<Rightarrow> lag_fill" where
  "put_lag v (w, il, bl) = (w, il[w := v], bl[w := v])"

fun fill_lags :: "nat \<Rightarrow> int \<Rightarrow> lag_fill \<Rightarrow> lag_fill" where
  "fill_lags 0 v f = f"
| "fill_lags (Suc n) v f = (case put_lag v f of (w, il, bl) \<Rightarrow> fill_lags n v (w + 1, il, bl))"

fun read_segments ::
  "RangeDecoder \<Rightarrow> SmplMem \<Rightarrow> u32 \<Rightarrow> u32 \<Rightarrow> int list \<Rightarrow> int \<Rightarrow> int \<Rightarrow> SmplLsfState \<Rightarrow> int list \<Rightarrow> lag_fill \<Rightarrow>
   (int list \<times> lag_fill \<times> SmplLsfState \<times> RangeDecoder) option" where
  "read_segments d mem ctrBase fracSegBase [] l3 l2 st samples fills = Some (samples, fills, st, d)"
| "read_segments d mem ctrBase fracSegBase (seg # segs) l3 l2 st samples fills =
     (let segLag = I32 mem (ctrBase + 0x1d38 + word_of_int seg * 4);
          nl2 = wrap32 ((l2 * 64 - l3) + (segLag - l2) * 64);
          off = fracSegBase + word_of_int (nl2 * 2) + 0xfe
      in do {
           (s, d1) \<leftarrow> read_cdf d (CDFAt mem off 65);
           let l3' = wrap32 (s + PrevFracLag st + nl2); segLen = I32 mem (ctrBase + 0x1d58 + word_of_int seg * 4)
           in read_segments d1 mem ctrBase fracSegBase segs l3' segLag (st\<lparr>PrevFracLag := l3', PrevLag := segLag\<rparr>)
                (samples[nat seg := l3']) (fill_lags (nat segLen) l3' fills)
         })"

text \<open>The 64-symbol fine lag of the first segment, with its trailing write.\<close>

definition read_fine ::
  "RangeDecoder \<Rightarrow> SmplMem \<Rightarrow> u32 \<Rightarrow> int \<Rightarrow> SmplLsfState \<Rightarrow> (int \<times> lag_fill \<times> SmplLsfState \<times> RangeDecoder) option" where
  "read_fine d mem ctrBase baseLag st = do {
     (v, d1) \<leftarrow> Decode64FineSym d;
     let curLag2 = wrap32 (baseLag * 64 + sint v);
         fills = put_lag curLag2 (fill_lags (nat (I32 mem (ctrBase + 0x1d58))) curLag2 (0, replicate 4 0, replicate 8 0))
     in Some (curLag2, fills, st\<lparr>PrevFracLag := curLag2, PrevLag := baseLag\<rparr>, d1)
   }"

definition DecodeSmplPitch ::
  "RangeDecoder \<Rightarrow> CcTables \<Rightarrow> SmplMem \<Rightarrow> SmplLsfState \<Rightarrow> int \<Rightarrow> int \<Rightarrow> int \<Rightarrow> int list \<Rightarrow>
   (SmplPitchResult \<times> SmplLsfState \<times> RangeDecoder) option" where
  "DecodeSmplPitch d cc mem st p2 p3 p6 subfrCounts = do {
     (gs, fs, gainAccum, st1, d1) \<leftarrow> read_ltp d cc p6 subfrCounts (subframes p3) st 0;
     (if p3 = 0 then None
      else
        let res = \<lparr>gainIdx = gs @ replicate (4 - length gs) 0, filtIdx = fs @ replicate (4 - length fs) (- 1),
              resLag = 0, resContour = 0, SampleLagQ6 = replicate 8 0, NumSeg = 0, IntLagQ6 = replicate 4 0,
              BlockLags = replicate 8 0, NumSubfr = 0\<rparr>;
            avgGain = gainAccum sdiv p3;
            pcfg = GClk mem + 0x5704; numContours = I32 mem (pcfg + 22240);
            contourTab = U32 mem (pcfg + 22244); fracBase = U32 mem (pcfg + 22252)
        in do {
             (found, d2) \<leftarrow> read_lag d1 mem st1;
             (case found of
                None \<Rightarrow> Some (res\<lparr>resLag := - 1\<rparr>, st1, d2)
              | Some lag \<Rightarrow>
                  let contour = find_contour mem contourTab (wrap32 (lag + 1));
                      res1 = res\<lparr>resLag := lag, resContour := contour\<rparr>
                  in if contour < 0 \<or> numContours \<le> contour then Some (res1, st1, d2)
                     else
                       let ctrBase = pcfg + word_of_int contour * 0x44; baseLag = I32 mem (ctrBase + 0x1d38);
                           cnt2 = I32 mem (ctrBase + 0x1d78); fracSegBase = fracBase + word_of_int (seg_sel avgGain) * 0x280;
                           \<delta> = wrap32 (baseLag - PrevLag st1);
                           readFine = (\<not> (0 \<le> PrevLag st1 \<and> - 1 \<le> \<delta> \<and> \<delta> < 3))
                       in do {
                            (curLag2, fills, st2, d3) \<leftarrow>
                              (if readFine then read_fine d2 mem ctrBase baseLag st1
                               else Some (baseLag, (0, replicate 4 0, replicate 8 0), st1, d2));
                            (samples, (subfrW, il, bl), st3, d4) \<leftarrow>
                              read_segments d3 mem ctrBase fracSegBase [if readFine then 1 else 0..cnt2 - 1]
                                (PrevFracLag st2) curLag2 st2 (replicate 8 0) fills;
                            Some (res1\<lparr>NumSeg := cnt2, SampleLagQ6 := samples, IntLagQ6 := il, BlockLags := bl,
                                    NumSubfr := int subfrW\<rparr>, st3, d4)
                          })
           })
   }"

section \<open>The pitch block, encoder\<close>

record SmplPitchParams =
  GainIdx :: "int list"
  FiltIdx :: "int list"
  BlocksegIdx :: int
  Laginds :: "int list"

fun write_segments ::
  "RangeEncoder \<Rightarrow> pitchBlockSeg \<Rightarrow> int list \<Rightarrow> u32 list \<Rightarrow> int list \<Rightarrow> int \<Rightarrow> int \<Rightarrow> int \<Rightarrow> RangeEncoder option" where
  "write_segments e seg laginds deltaLagCmf [] lagindsIx prevLagblk prevLagidx = Some e"
| "write_segments e seg laginds deltaLagCmf (k # ks) lagindsIx prevLagblk prevLagidx = do {
     blk \<leftarrow> at (Blocks seg) k;
     idx \<leftarrow> at laginds lagindsIx;
     seglen \<leftarrow> at (Seglens seg) k;
     let deltaRangeStart = wrap32 (- (prevLagidx - prevLagblk * pitchBlocksize) + (blk - prevLagblk) * pitchBlocksize);
         cmfBase = wrap32 (deltaRangeStart + 2 * pitchBlocksize - 1);
         ix = wrap32 ((idx - prevLagidx) - deltaRangeStart)
     in do {
          p0 \<leftarrow> at deltaLagCmf cmfBase;
          a \<leftarrow> at deltaLagCmf (cmfBase + ix);
          b \<leftarrow> at deltaLagCmf (cmfBase + ix + 1);
          c \<leftarrow> at deltaLagCmf (cmfBase + pitchBlocksize);
          e1 \<leftarrow> Encode e (a - p0) (b - p0) (c - p0);
          write_segments e1 seg laginds deltaLagCmf ks (lagindsIx + seglen) blk idx
        }
   }"

text \<open>The selector of the contour, from the start of a packet or after a block.\<close>

definition write_selector :: "PitchTables \<Rightarrow> RangeEncoder \<Rightarrow> int \<Rightarrow> int \<Rightarrow> int \<Rightarrow> RangeEncoder option" where
  "write_selector tab e ixJulia b0 prevLagblk =
     (if prevLagblk < 0 then do {
        a \<leftarrow> at (BlocksegIdxCmf tab) (ixJulia - 1);
        b \<leftarrow> at (BlocksegIdxCmf tab) ixJulia;
        c \<leftarrow> at (BlocksegIdxCmf tab) (int (length (Blocksegs tab)));
        Encode e a b c
      } else do {
        cmf \<leftarrow> at (BlockTransitionCmf tab) prevLagblk;
        a \<leftarrow> at cmf b0;
        b \<leftarrow> at cmf (b0 + 1);
        c \<leftarrow> at cmf (int pitchNumBlocks);
        e1 \<leftarrow> Encode e a b c;
        (startIx, endIx) \<leftarrow> at (FirstblockRange tab) b0;
        cmf2 \<leftarrow> slice_at (BlocksegIdxCmf tab) startIx (int (length (BlocksegIdxCmf tab)));
        lo \<leftarrow> at cmf2 (ixJulia - startIx - 1);
        hi \<leftarrow> at cmf2 (ixJulia - startIx);
        p0 \<leftarrow> at cmf2 0;
        top \<leftarrow> at cmf2 (endIx - startIx + 1);
        Encode e1 (lo - p0) (hi - p0) (top - p0)
      })"

definition encodeLagsWire ::
  "PitchTables \<Rightarrow> RangeEncoder \<Rightarrow> int \<Rightarrow> int list \<Rightarrow> int \<Rightarrow> int \<Rightarrow> int \<Rightarrow> RangeEncoder option" where
  "encodeLagsWire tab e ix laginds prevLagblk prevLagidx mode = do {
     ixJulia \<leftarrow> at (Blocksegs2idx tab) ix;
     seg \<leftarrow> at (Blocksegs tab) ix;
     blk \<leftarrow> at (Blocks seg) 0;
     e1 \<leftarrow> write_selector tab e ixJulia blk prevLagblk;
     let deltaBlk = wrap32 (blk - prevLagblk);
         fine = (\<not> (- 1 < prevLagblk \<and> - 1 \<le> deltaBlk \<and> deltaBlk \<le> 2))
     in do {
          (e2, startSeg, lagindsIx, blk1, idx1) \<leftarrow>
            (if fine then do {
               idx \<leftarrow> at laginds 0;
               len0 \<leftarrow> at (Seglens seg) 0;
               let idxMod = word_of_int (idx - blk * pitchBlocksize)
               in do { e2 \<leftarrow> Encode e1 idxMod (idxMod + 1) (word_of_int pitchBlocksize); Some (e2, 1, len0, blk, idx) }
             } else Some (e1, 0, 0, prevLagblk, prevLagidx));
          deltaLagCmf \<leftarrow> at (DeltaLagCmfs tab) mode;
          write_segments e2 seg laginds deltaLagCmf [startSeg..int (Nblocks seg) - 1] lagindsIx blk1 idx1
        }
   }"

definition smplLagsPredictorAfter :: "PitchTables \<Rightarrow> int \<Rightarrow> int list \<Rightarrow> (int \<times> int) option" where
  "smplLagsPredictorAfter tab ix laginds = do {
     seg \<leftarrow> at (Blocksegs tab) ix;
     blk \<leftarrow> at (Blocks seg) (int (Nblocks seg) - 1);
     idx \<leftarrow> at laginds (int NumSubframes - 1);
     Some (blk, idx)
   }"

fun write_ltp ::
  "RangeEncoder \<Rightarrow> CcTables \<Rightarrow> int \<Rightarrow> int list \<Rightarrow> int list \<Rightarrow> SmplPitchParams \<Rightarrow> SmplLsfState \<Rightarrow> int \<Rightarrow>
   (int \<times> SmplLsfState \<times> RangeEncoder) option" where
  "write_ltp e cc p6 counts [] pp st gain = Some (gain, st, e)"
| "write_ltp e cc p6 counts (sf # sfs) pp st gain = do {
     row \<leftarrow> ltp_row cc p6 (PrevGainIdx st);
     e1 \<leftarrow> write_cdf e (GainIdx pp ! nat sf) row;
     (w0, w2) \<leftarrow> ltp_weights cc p6 (GainIdx pp ! nat sf);
     (st1, e2) \<leftarrow> (if 0 < counts ! nat sf then do {
         row \<leftarrow> filter_row cc (PrevFiltIdx st);
         e2 \<leftarrow> write_cdf e1 (FiltIdx pp ! nat sf) row;
         Some (st\<lparr>PrevGainIdx := GainIdx pp ! nat sf, PrevFiltIdx := FiltIdx pp ! nat sf\<rparr>, e2)
       } else Some (st\<lparr>PrevGainIdx := GainIdx pp ! nat sf\<rparr>, e1));
     write_ltp e2 cc p6 counts sfs pp st1 (wrap32 (gain + (w0 + 2 * w2)))
   }"

text \<open>The gain and filter indices are arrays of four, the lag indices of eight.\<close>

definition encodeSmplPitch ::
  "RangeEncoder \<Rightarrow> CcTables \<Rightarrow> PitchTables \<Rightarrow> SmplLsfState \<Rightarrow> int \<Rightarrow> int \<Rightarrow> int \<Rightarrow> int list \<Rightarrow> SmplPitchParams \<Rightarrow>
   (SmplLsfState \<times> RangeEncoder) option" where
  "encodeSmplPitch e cc tab st p2 p3 p6 subfrCounts pp = do {
     (gainAccum, st1, e1) \<leftarrow> write_ltp e cc p6 subfrCounts (subframes p3) pp st 0;
     (if p3 = 0 then None
      else do {
        e2 \<leftarrow> encodeLagsWire tab e1 (BlocksegIdx pp) (Laginds pp) (PrevLagblk st1) (PrevLagidx st1)
          (seg_sel (gainAccum sdiv p3));
        (nblk, nidx) \<leftarrow> smplLagsPredictorAfter tab (BlocksegIdx pp) (Laginds pp);
        Some (st1\<lparr>PrevLagblk := nblk, PrevLagidx := nidx\<rparr>, e2)
      })
   }"

end
