(* ===== verification/MlowWindow.thy ===== *)
theory MlowWindow
  imports MlowPitch
begin

text \<open>
  The heap window of mlow/mem.go as an interface: what the pitch decoder reads through absolute addresses
  is exactly the contour window that was laid out.
\<close>

section \<open>Well-formed contour windows\<close>

text \<open>
  A contour is a run of one to eight blocks with the number of sub-blocks of each, eight in all, where the
  block goes down by at most one and up by at most two.
\<close>

definition record_ok :: "int list \<times> int list \<Rightarrow> bool" where
  "record_ok r \<longleftrightarrow> (let (bs, ls) = r
     in length bs = length ls \<and> bs \<noteq> [] \<and> length bs \<le> 8 \<and> (\<forall>b\<in>set bs. 0 \<le> b \<and> b < 9) \<and>
        (\<forall>l\<in>set ls. 1 \<le> l) \<and> sum_list ls = 8 \<and>
        (\<forall>k<length bs - 1. - 1 \<le> bs ! Suc k - bs ! k \<and> bs ! Suc k - bs ! k \<le> 2))"

definition wide_table :: "u32 list \<Rightarrow> nat \<Rightarrow> bool" where
  "wide_table c n \<longleftrightarrow> length c = n \<and> c ! 0 = 0 \<and> sorted_wrt (<) c \<and> (\<forall>x\<in>set c. x < 65536)"

text \<open>
  The index map is a permutation of 1 to 217, and the contours that start in a block are those whose index
  lies in the range of the block.
\<close>

definition window_ok :: "contourWindowParts \<Rightarrow> bool" where
  "window_ok w \<longleftrightarrow> length (records w) = 217 \<and> (\<forall>r\<in>set (records w). record_ok r) \<and>
     length (contourMap w) = 217 \<and> unat ` set (contourMap w) = {1..217} \<and>
     length (windowRange w) = 9 \<and> (\<forall>(lo, hi)\<in>set (windowRange w). 0 \<le> lo \<and> lo \<le> hi \<and> hi \<le> 216) \<and>
     (\<forall>c<217. \<forall>b<9. (fst (windowRange w ! b) \<le> uint (contourMap w ! c) - 1 \<and>
        uint (contourMap w ! c) - 1 \<le> snd (windowRange w ! b)) = (fst (records w ! c) ! 0 = int b)) \<and>
     wide_table (lagCdf w) 218 \<and> length (fracCmfs w) = 3 \<and> (\<forall>c\<in>set (fracCmfs w). wide_table c 320) \<and>
     length (deltaCmfs w) = 9 \<and> (\<forall>c\<in>set (deltaCmfs w). wide_table c 10)"

lemma wide_table_slice:
  assumes "wide_table c n" "a + 2 \<le> b" "b \<le> n" "n \<le> 32768"
  shows "cdf_table (map ucast (slice c a b))"
proof -
  have s: "sorted_wrt (<) (slice c a b)" "\<forall>x\<in>set (slice c a b). x < 65536"
    using assms(1) by (auto simp: wide_table_def slice_def intro!: sorted_wrt_take sorted_wrt_drop dest!: in_set_takeD in_set_dropD)
  have m: "(ucast x :: u16) < ucast y" if "x < y" "y < 65536" for x y :: u32
  proof -
    have "unat x < unat y" "unat y < 65536" using that by (simp_all add: word_less_nat_alt)
    then show ?thesis by (simp add: word_less_nat_alt unsigned_ucast_eq take_bit_nat_eq_self)
  qed
  have "sorted_wrt (\<lambda>x y. (ucast x :: u16) < ucast y) (slice c a b)"
    using s(2) by (intro sorted_wrt_mono_rel [OF _ s(1)]) (auto intro: m)
  moreover have "length (slice c a b) = b - a" using assms by (simp add: wide_table_def)
  moreover have "2 \<le> b - a" "b - a \<le> 32768" using assms(2-4) by linarith+
  ultimately show ?thesis by (simp add: cdf_table_def sorted_wrt_map)
qed

section \<open>Little-endian words\<close>

lemma bit_get_le: "bit (get_le bs) n \<longleftrightarrow> n < 32 \<and> n div 8 < length bs \<and> bit (bs ! (n div 8)) (n mod 8)"
proof (induction bs arbitrary: n)
  case (Cons b bs)
  show ?case
  proof (cases "n < 8")
    case True
    then show ?thesis by (simp add: bit_simps)
  next
    case False
    then have "n div 8 = Suc ((n - 8) div 8)" "n mod 8 = (n - 8) mod 8" by (simp_all add: le_div_geq le_mod_geq)
    moreover have "\<not> bit b n" using False bit_imp_le_length [of b n] by auto
    ultimately show ?thesis using Cons.IH [of "n - 8"] False by (auto simp: bit_simps)
  qed
qed simp

lemma length_put_le [simp]: "length (put_le k x) = k"
  by (simp add: put_le_def)

lemma bit_put_le: "n div 8 < k \<Longrightarrow> bit (put_le k x ! (n div 8)) (n mod 8) \<longleftrightarrow> bit x n"
proof -
  assume "n div 8 < k"
  moreover have "8 * (n div 8) + n mod 8 = n" by simp
  ultimately show ?thesis by (simp add: put_le_def bit_simps)
qed

lemma get_put_4: "get_le (put_le 4 x) = x"
proof (rule bit_word_eqI)
  fix n assume "n < LENGTH(32)"
  then have "n div 8 < 4" by simp
  then show "bit (get_le (put_le 4 x)) n \<longleftrightarrow> bit x n" using bit_put_le [of n 4 x] \<open>n < LENGTH(32)\<close> by (simp add: bit_get_le)
qed

lemma get_put_2: "(ucast (get_le (put_le 2 x)) :: u16) = ucast x"
proof (rule bit_word_eqI)
  fix n assume "n < LENGTH(16)"
  then have "n div 8 < 2" "n < 16" by simp_all
  then show "bit (ucast (get_le (put_le 2 x)) :: u16) n \<longleftrightarrow> bit (ucast x :: u16) n"
    using bit_put_le [of n 2 x] by (simp add: bit_simps bit_get_le)
qed

lemma take_drop_cells:
  "i < length xs \<Longrightarrow> \<forall>x\<in>set xs. length (f x) = k \<Longrightarrow> take k (drop (k * i) (concat (map f xs))) = f (xs ! i)"
proof (induction xs arbitrary: i)
  case (Cons x xs)
  then show ?case by (cases i) auto
qed simp

lemma length_cells: "\<forall>x\<in>set xs. length (f x) = k \<Longrightarrow> length (concat (map f xs)) = k * length xs"
  by (induction xs) auto

lemma nth_rows: "i < length xs \<Longrightarrow> j < k \<Longrightarrow> \<forall>x\<in>set xs. length x = k \<Longrightarrow> concat xs ! (k * i + j) = xs ! i ! j"
proof (induction xs arbitrary: i)
  case (Cons x xs)
  then show ?case by (cases i) (auto simp: nth_append)
qed simp

section \<open>The regions\<close>

definition record_words :: "int list \<times> int list \<Rightarrow> u32 list" where
  "record_words r = map (\<lambda>i. if i < length (fst r) then word_of_int (fst r ! i) else 0) [0..<8] @
     map (\<lambda>i. if i < length (snd r) then word_of_int (snd r ! i) else 0) [0..<8] @ [of_nat (length (fst r))]"

lemma length_record_words [simp]: "length (record_words r) = 17"
  by (simp add: record_words_def)

lemma record_bytes_words: "record_bytes r = concat (map (put_le 4) (record_words r))"
  by (simp add: record_bytes_def record_words_def comp_def del: upt_Suc)

text \<open>The first region in words, and the regions by base and data.\<close>

definition header_words :: "u32 list" where
  "header_words = [187, memNumContours, memHdrContourMap, memHdrLagCdf, memHdrFracBase] @ memHdrUnused @ [memHdrDeltaCdf]"

definition table_words :: "contourWindowParts \<Rightarrow> u32 list" where
  "table_words w = concat (map record_words (records w)) @ header_words"

definition bound_bytes :: "contourWindowParts \<Rightarrow> bytes" where
  "bound_bytes w = concat (map (\<lambda>p. [word_of_int (fst p), word_of_int (snd p)]) (windowRange w)) @ [0, 0]"

lemma built_regions: "regions (buildSmplMemFromSeed w) =
   [\<lparr>base = 0xba6de4, regionData = concat (map (put_le 4) (table_words w))\<rparr>,
    \<lparr>base = 0xbaa7b0, regionData = u16Bytes (lagCdf w)\<rparr>,
    \<lparr>base = 0xbaa9be, regionData = u16Bytes (concat (fracCmfs w))\<rparr>,
    \<lparr>base = 0xbab13e, regionData = u16Bytes (concat (deltaCmfs w))\<rparr>,
    \<lparr>base = 0xe7c10, regionData = contourMap w\<rparr>,
    \<lparr>base = 0xe7ef0, regionData = bound_bytes w\<rparr>]"
proof -
  have "concat (map record_bytes xs) = concat (map (put_le 4) (concat (map record_words xs)))" for xs
    by (induction xs) (simp_all add: record_bytes_words)
  then show ?thesis
    by (simp add: buildSmplMemFromSeed_def table_words_def header_words_def bound_bytes_def memPcfg_def memGClk_def
        memHdrLagCdf_def memHdrFracBase_def memHdrDeltaCdf_def memHdrContourMap_def memDeltaBounds_def)
qed

lemma window_lengths:
  assumes "window_ok w"
  shows "length (table_words w) = 3698" "length (u16Bytes (lagCdf w)) = 436"
    "length (concat (fracCmfs w)) = 960" "length (concat (deltaCmfs w)) = 90" "length (bound_bytes w) = 20"
    "length (contourMap w) = 217"
proof -
  have c: "length (concat xs) = length xs * k" if "\<forall>x\<in>set xs. length x = k" for xs :: "u32 list list" and k
    using that by (induction xs) auto
  have "length (concat (map record_words (records w))) = 17 * 217"
    using assms length_cells [of "records w" record_words 17] by (simp add: window_ok_def)
  then show "length (table_words w) = 3698" by (simp add: table_words_def header_words_def memHdrUnused_def)
  have u: "length (u16Bytes v) = 2 * length v" for v
    using length_cells [of v "put_le 2" 2] by (simp add: u16Bytes_def)
  show "length (u16Bytes (lagCdf w)) = 436" using assms by (simp add: u window_ok_def wide_table_def)
  show "length (concat (fracCmfs w)) = 960" "length (concat (deltaCmfs w)) = 90"
    using assms c [of "fracCmfs w" 320] c [of "deltaCmfs w" 10] by (simp_all add: window_ok_def wide_table_def)
  show "length (bound_bytes w) = 20"
    using assms length_cells [of "windowRange w" "\<lambda>p. [word_of_int (fst p), word_of_int (snd p)] :: bytes" 2]
    by (simp add: bound_bytes_def window_ok_def)
  show "length (contourMap w) = 217" using assms by (simp add: window_ok_def)
qed

lemma length_u16Bytes: "length (u16Bytes v) = 2 * length v"
  using length_cells [of v "put_le 2" 2] by (simp add: u16Bytes_def)

lemma address_cases:
  assumes "N < 4294967296"
  shows "b \<le> (of_nat N :: u32) \<longleftrightarrow> unat b \<le> N" "b \<le> (of_nat N :: u32) \<Longrightarrow> unat (of_nat N - b) = N - unat b"
  using assms by (simp_all add: word_le_nat_alt unat_of_nat_small unat_sub)

lemma region_found:
  assumes "N < 4294967296"
  shows "regionFor m (of_nat N) n =
    map_option (\<lambda>r. (regionData r, N - unat (base r)))
      (find (\<lambda>r. unat (base r) \<le> N \<and> N - unat (base r) + n \<le> length (regionData r)) (regions m))"
proof -
  have p: "(\<lambda>r. base r \<le> of_nat N \<and> unat (of_nat N - base r) + n \<le> length (regionData r)) =
      (\<lambda>r. unat (base r) \<le> N \<and> N - unat (base r) + n \<le> length (regionData r))"
    using address_cases [OF assms] by fastforce
  have "unat (of_nat N - base r) = N - unat (base r)" if "base r \<le> of_nat N" for r
    using address_cases(2) [OF assms that] .
  then show ?thesis unfolding regionFor_def p using address_cases(1) [OF assms]
    by (auto simp: find_Some_iff split: option.split intro!: option.map_cong)
qed


lemma table_word:
  assumes "window_ok w" "i < 3698"
  shows "U32 (buildSmplMemFromSeed w) (of_nat (0xba6de4 + 4 * i)) = table_words w ! i"
proof -
  have l: "length (concat (map (put_le 4) (table_words w))) = 14792"
    using length_cells [of "table_words w" "put_le 4" 4] window_lengths(1) [OF assms(1)] by simp
  have "regionFor (buildSmplMemFromSeed w) (of_nat (0xba6de4 + 4 * i)) 4 = Some (concat (map (put_le 4) (table_words w)), 4 * i)"
    using assms(2) by (subst region_found) (simp_all add: built_regions l)
  moreover have "take 4 (drop (4 * i) (concat (map (put_le 4) (table_words w)))) = put_le 4 (table_words w ! i)"
    using assms(2) window_lengths(1) [OF assms(1)] by (intro take_drop_cells) auto
  ultimately show ?thesis by (simp add: U32_def get_put_4)
qed

text \<open>The three regions of 16-bit tables.\<close>

lemma u16_cell:
  assumes "regionFor m (of_nat (b + 2 * i)) 2 = Some (u16Bytes v, 2 * i)" "i < length v"
  shows "U16 m (of_nat (b + 2 * i)) = ucast (v ! i)"
proof -
  have "take 2 (drop (2 * i) (u16Bytes v)) = put_le 2 (v ! i)"
    unfolding u16Bytes_def using assms(2) by (intro take_drop_cells) auto
  then show ?thesis using assms(1) by (simp add: U16_def get_put_2)
qed

lemma lag_cell:
  assumes "window_ok w" "i < 218"
  shows "U16 (buildSmplMemFromSeed w) (of_nat (0xbaa7b0 + 2 * i)) = ucast (lagCdf w ! i)"
proof (rule u16_cell)
  have l: "length (lagCdf w) = 218" "length (concat (map (put_le 4) (table_words w))) = 14792"
    using assms(1) length_cells [of "table_words w" "put_le 4" 4] window_lengths(1) [OF assms(1)]
    by (simp_all add: window_ok_def wide_table_def)
  show "i < length (lagCdf w)" using l(1) assms(2) by simp
  show "regionFor (buildSmplMemFromSeed w) (of_nat (0xbaa7b0 + 2 * i)) 2 = Some (u16Bytes (lagCdf w), 2 * i)"
    using assms(2) by (subst region_found) (simp_all add: built_regions l length_u16Bytes)
qed

lemma frac_cell:
  assumes "window_ok w" "i < 960"
  shows "U16 (buildSmplMemFromSeed w) (of_nat (0xbaa9be + 2 * i)) = ucast (concat (fracCmfs w) ! i)"
proof (rule u16_cell)
  have l: "length (lagCdf w) = 218" "length (concat (map (put_le 4) (table_words w))) = 14792" "length (concat (fracCmfs w)) = 960"
    using assms(1) length_cells [of "table_words w" "put_le 4" 4] window_lengths(1,3) [OF assms(1)]
    by (simp_all add: window_ok_def wide_table_def)
  show "i < length (concat (fracCmfs w))" using l(3) assms(2) by simp
  show "regionFor (buildSmplMemFromSeed w) (of_nat (0xbaa9be + 2 * i)) 2 = Some (u16Bytes (concat (fracCmfs w)), 2 * i)"
    using assms(2) by (subst region_found) (simp_all add: built_regions l length_u16Bytes)
qed

lemma delta_cell:
  assumes "window_ok w" "i < 90"
  shows "U16 (buildSmplMemFromSeed w) (of_nat (0xbab13e + 2 * i)) = ucast (concat (deltaCmfs w) ! i)"
proof (rule u16_cell)
  have l: "length (lagCdf w) = 218" "length (concat (map (put_le 4) (table_words w))) = 14792"
      "length (concat (fracCmfs w)) = 960" "length (concat (deltaCmfs w)) = 90"
    using assms(1) length_cells [of "table_words w" "put_le 4" 4] window_lengths(1,3,4) [OF assms(1)]
    by (simp_all add: window_ok_def wide_table_def)
  show "i < length (concat (deltaCmfs w))" using l(4) assms(2) by simp
  show "regionFor (buildSmplMemFromSeed w) (of_nat (0xbab13e + 2 * i)) 2 = Some (u16Bytes (concat (deltaCmfs w)), 2 * i)"
    using assms(2) by (subst region_found) (simp_all add: built_regions l length_u16Bytes)
qed

lemma contour_cell:
  assumes "window_ok w" "c < 217"
  shows "U8 (buildSmplMemFromSeed w) (of_nat (0xe7c10 + c)) = contourMap w ! c"
  using assms(2) unfolding U8_def
  by (subst region_found) (simp_all add: built_regions window_lengths [OF assms(1)])

lemma bound_cell:
  assumes "window_ok w" "i < 20"
  shows "U8 (buildSmplMemFromSeed w) (of_nat (0xe7ef0 + i)) = bound_bytes w ! i"
  using assms(2) unfolding U8_def
  by (subst region_found) (simp_all add: built_regions window_lengths [OF assms(1)])

section \<open>The window as an interface\<close>

text \<open>What the pitch decoder relies on, in the addresses it computes.\<close>

locale contour_memory =
  fixes mem :: "contourWindowParts \<Rightarrow> SmplMem"
  assumes clock: "window_ok w \<Longrightarrow> GClk (mem w) = memGClk"
    and contours: "window_ok w \<Longrightarrow> I32 (mem w) (memPcfg + 22240) = 217"
    and pointers: "window_ok w \<Longrightarrow> U32 (mem w) (memPcfg + 22244) = memHdrContourMap"
      "window_ok w \<Longrightarrow> U32 (mem w) (memPcfg + 22248) = memHdrLagCdf"
      "window_ok w \<Longrightarrow> U32 (mem w) (memPcfg + 22252) = memHdrFracBase"
      "window_ok w \<Longrightarrow> U32 (mem w) (memPcfg + 22268) = memHdrDeltaCdf"
    and index_of: "window_ok w \<Longrightarrow> c < 217 \<Longrightarrow> U8 (mem w) (memHdrContourMap + of_nat c) = contourMap w ! c"
    and range_of: "window_ok w \<Longrightarrow> b < 9 \<Longrightarrow> uint (U8 (mem w) (memDeltaBounds + of_nat b * 2)) = fst (windowRange w ! b)"
      "window_ok w \<Longrightarrow> b < 9 \<Longrightarrow> uint (U8 (mem w) (memDeltaBounds + of_nat b * 2 + 1)) = snd (windowRange w ! b)"
    and lag_window: "window_ok w \<Longrightarrow> k + n \<le> 218 \<Longrightarrow>
      CDFAt (mem w) (memHdrLagCdf + of_nat k * 2) n = map ucast (slice (lagCdf w) k (k + n))"
    and delta_table: "window_ok w \<Longrightarrow> b < 9 \<Longrightarrow> CDFAt (mem w) (memHdrDeltaCdf + of_nat b * 20) 10 = map ucast (deltaCmfs w ! b)"
    and frac_window: "window_ok w \<Longrightarrow> s < 3 \<Longrightarrow> k + n \<le> 320 \<Longrightarrow>
      CDFAt (mem w) (memHdrFracBase + of_nat s * 0x280 + of_nat k * 2) n = map ucast (slice (fracCmfs w ! s) k (k + n))"
    and block_of: "window_ok w \<Longrightarrow> c < 217 \<Longrightarrow> k < length (fst (records w ! c)) \<Longrightarrow>
      I32 (mem w) (memPcfg + of_nat c * 0x44 + 0x1d38 + of_nat k * 4) = fst (records w ! c) ! k"
    and seglen_of: "window_ok w \<Longrightarrow> c < 217 \<Longrightarrow> k < length (fst (records w ! c)) \<Longrightarrow>
      I32 (mem w) (memPcfg + of_nat c * 0x44 + 0x1d58 + of_nat k * 4) = snd (records w ! c) ! k"
    and blocks_of: "window_ok w \<Longrightarrow> c < 217 \<Longrightarrow>
      I32 (mem w) (memPcfg + of_nat c * 0x44 + 0x1d78) = int (length (fst (records w ! c)))"

lemma record_cell:
  assumes "window_ok w" "c < 217" "j < 17"
  shows "U32 (buildSmplMemFromSeed w) (memPcfg + of_nat c * 0x44 + 0x1d38 + of_nat j * 4) = record_words (records w ! c) ! j"
proof -
  have "memPcfg + of_nat c * 0x44 + 0x1d38 + of_nat j * 4 = of_nat (0xba6de4 + 4 * (17 * c + j))"
    by (simp add: memPcfg_def memGClk_def algebra_simps)
  then have a: "U32 (buildSmplMemFromSeed w) (memPcfg + of_nat c * 0x44 + 0x1d38 + of_nat j * 4) = table_words w ! (17 * c + j)"
    using table_word [OF assms(1), of "17 * c + j"] assms(2,3) by (simp only:)
  have "table_words w ! (17 * c + j) = record_words (records w ! c) ! j"
  proof -
    have l: "length (records w) = 217" using assms(1) by (simp add: window_ok_def)
    have "17 * c + j < length (concat (map record_words (records w)))"
      using assms(2,3) l length_cells [of "records w" record_words 17] by simp
    then show ?thesis
      using nth_rows [of c "map record_words (records w)" j 17] assms(2,3) l by (simp add: table_words_def nth_append)
  qed
  then show ?thesis using a by simp
qed

lemma header_cell:
  assumes "window_ok w" "j < 9"
  shows "U32 (buildSmplMemFromSeed w) (memPcfg + of_nat (22236 + 4 * j)) = header_words ! j"
proof -
  have "memPcfg + of_nat (22236 + 4 * j) = of_nat (0xba6de4 + 4 * (3689 + j))"
    by (simp add: memPcfg_def memGClk_def algebra_simps)
  then have a: "U32 (buildSmplMemFromSeed w) (memPcfg + of_nat (22236 + 4 * j)) = table_words w ! (3689 + j)"
    using table_word [OF assms(1), of "3689 + j"] assms(2) by (simp only:)
  have "length (concat (map record_words (records w))) = 3689"
    using assms(1) length_cells [of "records w" record_words 17] by (simp add: window_ok_def)
  then show ?thesis unfolding a by (simp add: table_words_def nth_append)
qed


lemma sint_small: "- 2147483648 \<le> v \<Longrightarrow> v < 2147483648 \<Longrightarrow> sint (word_of_int v :: u32) = v"
  by (simp add: signed_of_int signed_take_bit_int_eq_self)

lemma record_of: "window_ok w \<Longrightarrow> c < 217 \<Longrightarrow> record_ok (records w ! c)"
  by (simp add: window_ok_def)

lemma record_values:
  assumes "record_ok r" "k < length (fst r)"
  shows "0 \<le> fst r ! k" "fst r ! k < 9" "1 \<le> snd r ! k" "snd r ! k \<le> 8" "k < 8" "length (snd r) = length (fst r)"
proof -
  have r: "length (snd r) = length (fst r)" "length (fst r) \<le> 8" "\<forall>b\<in>set (fst r). 0 \<le> b \<and> b < 9"
      "\<forall>l\<in>set (snd r). 1 \<le> l" "sum_list (snd r) = 8"
    using assms(1) by (auto simp: record_ok_def split: prod.splits)
  then have m: "fst r ! k \<in> set (fst r)" "snd r ! k \<in> set (snd r)" using assms(2) by auto
  then show "0 \<le> fst r ! k" "fst r ! k < 9" "1 \<le> snd r ! k" using r by auto
  have "snd r ! k \<le> sum_list (snd r)" using m(2) r(4) by (intro member_le_sum_list) auto
  then show "snd r ! k \<le> 8" using r(5) by simp
  show "k < 8" "length (snd r) = length (fst r)" using assms(2) r by auto
qed

lemma range_bytes:
  assumes "window_ok w" "b < 9"
  shows "uint (bound_bytes w ! (2 * b)) = fst (windowRange w ! b)" "uint (bound_bytes w ! (2 * b + 1)) = snd (windowRange w ! b)"
    "0 \<le> fst (windowRange w ! b)" "fst (windowRange w ! b) \<le> snd (windowRange w ! b)" "snd (windowRange w ! b) \<le> 216"
proof -
  have l: "length (windowRange w) = 9" using assms(1) by (simp add: window_ok_def)
  then have "windowRange w ! b \<in> set (windowRange w)" using assms(2) by simp
  then have v: "0 \<le> fst (windowRange w ! b)" "fst (windowRange w ! b) \<le> snd (windowRange w ! b)" "snd (windowRange w ! b) \<le> 216"
    using assms(1) by (auto simp: window_ok_def)
  then show "0 \<le> fst (windowRange w ! b)" "fst (windowRange w ! b) \<le> snd (windowRange w ! b)" "snd (windowRange w ! b) \<le> 216"
    by simp_all
  let ?xs = "map (\<lambda>p. [word_of_int (fst p), word_of_int (snd p)] :: bytes) (windowRange w)"
  have n: "bound_bytes w ! (2 * b + j) = ?xs ! b ! j" if "j < 2" for j
  proof -
    have "2 * b + j < length (concat ?xs)"
      using length_cells [of "windowRange w" "\<lambda>p. [word_of_int (fst p), word_of_int (snd p)] :: bytes" 2] that l assms(2) by simp
    then show ?thesis using nth_rows [of b ?xs j 2] that l assms(2) by (simp add: bound_bytes_def nth_append)
  qed
  have u: "uint (word_of_int x :: u8) = x" if "0 \<le> x" "x \<le> 216" for x
    using that by (simp add: unsigned_of_int take_bit_int_eq_self)
  show "uint (bound_bytes w ! (2 * b)) = fst (windowRange w ! b)" "uint (bound_bytes w ! (2 * b + 1)) = snd (windowRange w ! b)"
    using n [of 0] n [of 1] l assms(2) v by (simp_all add: u)
qed

interpretation seed_memory: contour_memory buildSmplMemFromSeed
proof
  fix w assume w: "window_ok w"
  let ?m = "buildSmplMemFromSeed w"
  show "GClk ?m = memGClk" by (simp add: buildSmplMemFromSeed_def Let_def)
  show "I32 ?m (memPcfg + 22240) = 217" "U32 ?m (memPcfg + 22244) = memHdrContourMap"
    "U32 ?m (memPcfg + 22248) = memHdrLagCdf" "U32 ?m (memPcfg + 22252) = memHdrFracBase"
    "U32 ?m (memPcfg + 22268) = memHdrDeltaCdf"
    using header_cell [OF w, of 1] header_cell [OF w, of 2] header_cell [OF w, of 3] header_cell [OF w, of 4]
      header_cell [OF w, of 8]
    by (simp_all add: I32_def header_words_def memHdrUnused_def memNumContours_def)
next
  fix w and c :: nat assume w: "window_ok w" and c: "c < 217"
  show "U8 (buildSmplMemFromSeed w) (memHdrContourMap + of_nat c) = contourMap w ! c"
    using contour_cell [OF w c] by (simp add: memHdrContourMap_def)
next
  fix w and b :: nat assume w: "window_ok w" and b: "b < 9"
  show "uint (U8 (buildSmplMemFromSeed w) (memDeltaBounds + of_nat b * 2)) = fst (windowRange w ! b)"
    "uint (U8 (buildSmplMemFromSeed w) (memDeltaBounds + of_nat b * 2 + 1)) = snd (windowRange w ! b)"
    using bound_cell [OF w, of "2 * b"] bound_cell [OF w, of "2 * b + 1"] b range_bytes(1,2) [OF w b]
    by (simp_all add: memDeltaBounds_def mult.commute add.assoc)
next
  fix w and k n :: nat assume w: "window_ok w" and k: "k + n \<le> 218"
  have "U16 (buildSmplMemFromSeed w) (memHdrLagCdf + of_nat k * 2 + of_nat i * 2) = ucast (lagCdf w ! (k + i))" if "i < n" for i
    using lag_cell [OF w, of "k + i"] that k by (simp add: memHdrLagCdf_def algebra_simps)
  then show "CDFAt (buildSmplMemFromSeed w) (memHdrLagCdf + of_nat k * 2) n = map ucast (slice (lagCdf w) k (k + n))"
    using w k by (intro nth_equalityI) (auto simp: CDFAt_def slice_def window_ok_def wide_table_def)
next
  fix w and b :: nat assume w: "window_ok w" and b: "b < 9"
  have l: "length (deltaCmfs w) = 9" "\<forall>c\<in>set (deltaCmfs w). length c = 10" using w by (auto simp: window_ok_def wide_table_def)
  have "U16 (buildSmplMemFromSeed w) (memHdrDeltaCdf + of_nat b * 20 + of_nat i * 2) = ucast (deltaCmfs w ! b ! i)" if "i < 10" for i
    using delta_cell [OF w, of "10 * b + i"] that b l nth_rows [of b "deltaCmfs w" i 10] by (simp add: memHdrDeltaCdf_def algebra_simps)
  then show "CDFAt (buildSmplMemFromSeed w) (memHdrDeltaCdf + of_nat b * 20) 10 = map ucast (deltaCmfs w ! b)"
    using b l by (intro nth_equalityI) (auto simp: CDFAt_def)
next
  fix w and s k n :: nat assume w: "window_ok w" and s: "s < 3" and k: "k + n \<le> 320"
  have l: "length (fracCmfs w) = 3" "\<forall>c\<in>set (fracCmfs w). length c = 320" using w by (auto simp: window_ok_def wide_table_def)
  have "U16 (buildSmplMemFromSeed w) (memHdrFracBase + of_nat s * 0x280 + of_nat k * 2 + of_nat i * 2) = ucast (fracCmfs w ! s ! (k + i))" if "i < n" for i
    using frac_cell [OF w, of "320 * s + (k + i)"] that s k l nth_rows [of s "fracCmfs w" "k + i" 320] by (simp add: memHdrFracBase_def algebra_simps)
  then show "CDFAt (buildSmplMemFromSeed w) (memHdrFracBase + of_nat s * 0x280 + of_nat k * 2) n = map ucast (slice (fracCmfs w ! s) k (k + n))"
    using s k l by (intro nth_equalityI) (auto simp: CDFAt_def slice_def)
next
  fix w and c k :: nat assume w: "window_ok w" and c: "c < 217" and k: "k < length (fst (records w ! c))"
  note V = record_values [OF record_of [OF w c] k]
  show "I32 (buildSmplMemFromSeed w) (memPcfg + of_nat c * 0x44 + 0x1d38 + of_nat k * 4) = fst (records w ! c) ! k"
    using record_cell [OF w c, of k] V k by (simp add: I32_def record_words_def nth_append sint_small)
  have "memPcfg + of_nat c * 0x44 + 0x1d58 + of_nat k * 4 = memPcfg + of_nat c * 0x44 + 0x1d38 + of_nat (8 + k) * 4"
    by (simp add: algebra_simps)
  then show "I32 (buildSmplMemFromSeed w) (memPcfg + of_nat c * 0x44 + 0x1d58 + of_nat k * 4) = snd (records w ! c) ! k"
    using record_cell [OF w c, of "8 + k"] V k by (simp only: I32_def) (simp add: record_words_def nth_append sint_small)
next
  fix w and c :: nat assume w: "window_ok w" and c: "c < 217"
  have "length (fst (records w ! c)) \<le> 8" using record_of [OF w c] by (auto simp: record_ok_def split: prod.splits)
  then show "I32 (buildSmplMemFromSeed w) (memPcfg + of_nat c * 0x44 + 0x1d78) = int (length (fst (records w ! c)))"
    using record_cell [OF w c, of 16] by (simp add: I32_def record_words_def nth_append sint_of_nat_small ac_simps)
qed

end
