(* ===== verification/MlowLtp.thy ===== *)
theory MlowLtp
  imports MlowWindow
begin

text \<open>The LTP gains and filters at the head of a pitch block, as symbols.\<close>

definition ltp_cdf :: "CcTables \<Rightarrow> bool \<Rightarrow> int \<Rightarrow> u16 list" where
  "ltp_cdf cc low prev = the (ltp_row cc (rate_p6 low) prev)"

definition filter_cdf :: "CcTables \<Rightarrow> int \<Rightarrow> u16 list" where
  "filter_cdf cc prev = the (filter_row cc prev)"

lemma ltp_table:
  assumes "tables_ok cc" "- 1 \<le> prev" "prev < 16"
  shows "ltp_row cc (rate_p6 low) prev = Some (ltp_cdf cc low prev)" "cdf_table (ltp_cdf cc low prev)"
    "length (ltp_cdf cc low prev) = 17"
proof -
  obtain a b where "AcbgainRow cc prev = Some a" "cdf_table a" "length a = 17"
      "AcbgainRowLr cc prev = Some b" "cdf_table b" "length b = 17"
    using assms unfolding tables_ok_def by blast
  then show "ltp_row cc (rate_p6 low) prev = Some (ltp_cdf cc low prev)" "cdf_table (ltp_cdf cc low prev)"
    "length (ltp_cdf cc low prev) = 17"
    by (auto simp: ltp_cdf_def ltp_row_def)
qed

lemma filter_table:
  assumes "tables_ok cc" "- 1 \<le> prev" "prev < 34"
  shows "filter_row cc prev = Some (filter_cdf cc prev)" "cdf_table (filter_cdf cc prev)"
    "length (filter_cdf cc prev) = 35"
proof -
  have t: "cdf_table (fcbgainsV cc)" "length (fcbgainsV cc) = 35" "cdf_table (fcbgainsVDelta cc)" "length (fcbgainsVDelta cc) = 68"
    using assms(1) by (simp_all add: tables_ok_def)
  obtain w where w: "prev \<noteq> - 1 \<longrightarrow> slice_at (fcbgainsVDelta cc) (33 - prev) (33 - prev + 35) = Some w \<and> cdf_table w \<and> int (length w) = 35"
    using slice_at_table [OF t(3), of "33 - prev" "33 - prev + 35"] t(4) assms(2,3) by (cases "prev = - 1") auto
  then show "filter_row cc prev = Some (filter_cdf cc prev)" "cdf_table (filter_cdf cc prev)" "length (filter_cdf cc prev) = 35"
    using t by (auto simp: filter_cdf_def filter_row_def FcbgainV_def FcbgainVDelta_def ccFcbgVN_def Let_def)
qed

lemma weights_some: "tables_ok cc \<Longrightarrow> 0 \<le> gi \<Longrightarrow> gi < 16 \<Longrightarrow> \<exists>w. ltp_weights cc p6 gi = Some w"
  by (auto simp: tables_ok_def ltp_weights_def AcbgainWeights_def AcbgainWeightsLr_def at_def)

text \<open>The symbols, the predictors and the gain sum after them.\<close>

fun ltp_symbols :: "CcTables \<Rightarrow> bool \<Rightarrow> int list \<Rightarrow> int list \<Rightarrow> int list \<Rightarrow> nat list \<Rightarrow> int \<Rightarrow> int \<Rightarrow> symbol list" where
  "ltp_symbols cc low counts gs fs [] g f = []"
| "ltp_symbols cc low counts gs fs (k # ks) g f =
     CdfSym (ltp_cdf cc low g) (nat (gs ! k)) #
     (if 0 < counts ! k then CdfSym (filter_cdf cc f) (nat (fs ! k)) # ltp_symbols cc low counts gs fs ks (gs ! k) (fs ! k)
      else ltp_symbols cc low counts gs fs ks (gs ! k) f)"

fun ltp_end :: "int list \<Rightarrow> int list \<Rightarrow> int list \<Rightarrow> nat list \<Rightarrow> int \<Rightarrow> int \<Rightarrow> int \<times> int" where
  "ltp_end counts gs fs [] g f = (g, f)"
| "ltp_end counts gs fs (k # ks) g f = ltp_end counts gs fs ks (gs ! k) (if 0 < counts ! k then fs ! k else f)"

fun ltp_gain :: "CcTables \<Rightarrow> int \<Rightarrow> int list \<Rightarrow> nat list \<Rightarrow> int \<Rightarrow> int" where
  "ltp_gain cc p6 gs [] gain = gain"
| "ltp_gain cc p6 gs (k # ks) gain =
     (case the (ltp_weights cc p6 (gs ! k)) of (w0, w2) \<Rightarrow> ltp_gain cc p6 gs ks (wrap32 (gain + (w0 + 2 * w2))))"

definition ltp_ok :: "int list \<Rightarrow> int list \<Rightarrow> int list \<Rightarrow> nat \<Rightarrow> bool" where
  "ltp_ok counts gs fs k \<longleftrightarrow> 0 \<le> gs ! k \<and> gs ! k < 16 \<and> (if 0 < counts ! k then 0 \<le> fs ! k \<and> fs ! k < 34 else fs ! k = - 1)"

definition ltp_pred_ok :: "int \<Rightarrow> int \<Rightarrow> bool" where
  "ltp_pred_ok g f \<longleftrightarrow> - 1 \<le> g \<and> g < 16 \<and> - 1 \<le> f \<and> f < 34"

lemma ltp_pred_step: "ltp_ok counts gs fs k \<Longrightarrow> ltp_pred_ok g f \<Longrightarrow> ltp_pred_ok (gs ! k) (if 0 < counts ! k then fs ! k else f)"
  by (auto simp: ltp_ok_def ltp_pred_ok_def)

lemma ltp_pred_end:
  "\<forall>k\<in>set ks. ltp_ok counts gs fs k \<Longrightarrow> ltp_pred_ok g f \<Longrightarrow> case ltp_end counts gs fs ks g f of (g', f') \<Rightarrow> ltp_pred_ok g' f'"
proof (induction ks arbitrary: g f)
  case (Cons k ks)
  then show ?case using Cons.IH [OF _ ltp_pred_step [of counts gs fs k g f]] by simp
qed simp

lemma ltp_read:
  "holds (ltp_symbols cc low counts gs fs ks (PrevGainIdx st) (PrevFiltIdx st)) d d' \<Longrightarrow> tables_ok cc \<Longrightarrow>
   \<forall>k\<in>set ks. ltp_ok counts gs fs k \<Longrightarrow> ltp_pred_ok (PrevGainIdx st) (PrevFiltIdx st) \<Longrightarrow>
   read_ltp d cc (rate_p6 low) counts (map int ks) st gain =
     Some (map ((!) gs) ks, map ((!) fs) ks, ltp_gain cc (rate_p6 low) gs ks gain,
       st\<lparr>PrevGainIdx := fst (ltp_end counts gs fs ks (PrevGainIdx st) (PrevFiltIdx st)),
          PrevFiltIdx := snd (ltp_end counts gs fs ks (PrevGainIdx st) (PrevFiltIdx st))\<rparr>, d')"
proof (induction ks arbitrary: d st gain)
  case (Cons k ks)
  let ?g = "PrevGainIdx st" and ?f = "PrevFiltIdx st"
  have ok: "ltp_ok counts gs fs k" and ks: "\<forall>k\<in>set ks. ltp_ok counts gs fs k" using Cons.prems(3) by simp_all
  have pred: "- 1 \<le> ?g" "?g < 16" "- 1 \<le> ?f" "?f < 34" using Cons.prems(4) by (simp_all add: ltp_pred_ok_def)
  have g: "0 \<le> gs ! k" "gs ! k < 16" using ok by (simp_all add: ltp_ok_def)
  obtain w0 w2 where w: "ltp_weights cc (rate_p6 low) (gs ! k) = Some (w0, w2)"
    using weights_some [OF Cons.prems(2) g, of "rate_p6 low"] by auto
  obtain d1 where d1: "holds [CdfSym (ltp_cdf cc low ?g) (nat (gs ! k))] d d1"
      "holds (if 0 < counts ! k then CdfSym (filter_cdf cc ?f) (nat (fs ! k)) # ltp_symbols cc low counts gs fs ks (gs ! k) (fs ! k)
        else ltp_symbols cc low counts gs fs ks (gs ! k) ?f) d1 d'"
    using Cons.prems(1) by (subst (asm) ltp_symbols.simps, subst (asm) holds_split) blast
  note head = ltp_table(1) [OF Cons.prems(2) pred(1,2), of low] holds_cdf [OF d1(1)] w
  show ?case
  proof (cases "0 < counts ! k")
    case True
    then obtain d2 where d2: "holds [CdfSym (filter_cdf cc ?f) (nat (fs ! k))] d1 d2"
        "holds (ltp_symbols cc low counts gs fs ks (gs ! k) (fs ! k)) d2 d'"
      using d1(2) by (simp add: holds_split [of _ "ltp_symbols cc low counts gs fs ks (gs ! k) (fs ! k)"]) blast
    have f: "0 \<le> fs ! k" using ok True by (simp add: ltp_ok_def)
    let ?st = "st\<lparr>PrevGainIdx := gs ! k, PrevFiltIdx := fs ! k\<rparr>"
    have "ltp_pred_ok (PrevGainIdx ?st) (PrevFiltIdx ?st)" using ltp_pred_step [OF ok Cons.prems(4)] True by simp
    then show ?thesis
      using Cons.IH [of ?st d2 "wrap32 (gain + (w0 + 2 * w2))"] d2(2) Cons.prems(2) ks True g f
      by (simp add: head filter_table(1) [OF Cons.prems(2) pred(3,4)] holds_cdf [OF d2(1)])
  next
    case False
    let ?st = "st\<lparr>PrevGainIdx := gs ! k\<rparr>"
    have "ltp_pred_ok (PrevGainIdx ?st) (PrevFiltIdx ?st)" using ltp_pred_step [OF ok Cons.prems(4)] False by simp
    then show ?thesis
      using Cons.IH [of ?st d1 "wrap32 (gain + (w0 + 2 * w2))"] d1(2) Cons.prems(2) ks False g ok
      by (simp add: head ltp_ok_def)
  qed
qed simp

lemma ltp_written:
  "tables_ok cc \<Longrightarrow> \<forall>k\<in>set ks. ltp_ok counts (GainIdx pp) (FiltIdx pp) k \<Longrightarrow> ltp_pred_ok (PrevGainIdx st) (PrevFiltIdx st) \<Longrightarrow>
   write_ltp e cc (rate_p6 low) counts (map int ks) pp st gain =
     map_option (\<lambda>e'. (ltp_gain cc (rate_p6 low) (GainIdx pp) ks gain,
       st\<lparr>PrevGainIdx := fst (ltp_end counts (GainIdx pp) (FiltIdx pp) ks (PrevGainIdx st) (PrevFiltIdx st)),
          PrevFiltIdx := snd (ltp_end counts (GainIdx pp) (FiltIdx pp) ks (PrevGainIdx st) (PrevFiltIdx st))\<rparr>, e'))
     (encode_all (ltp_symbols cc low counts (GainIdx pp) (FiltIdx pp) ks (PrevGainIdx st) (PrevFiltIdx st)) e)"
proof (induction ks arbitrary: e st gain)
  case (Cons k ks)
  let ?g = "PrevGainIdx st" and ?f = "PrevFiltIdx st" and ?gs = "GainIdx pp" and ?fs = "FiltIdx pp"
  have ok: "ltp_ok counts ?gs ?fs k" and ks: "\<forall>k\<in>set ks. ltp_ok counts ?gs ?fs k" using Cons.prems(2) by simp_all
  have pred: "- 1 \<le> ?g" "?g < 16" "- 1 \<le> ?f" "?f < 34" using Cons.prems(3) by (simp_all add: ltp_pred_ok_def)
  have g: "0 \<le> ?gs ! k" "?gs ! k < 16" using ok by (simp_all add: ltp_ok_def)
  obtain w0 w2 where w: "ltp_weights cc (rate_p6 low) (?gs ! k) = Some (w0, w2)"
    using weights_some [OF Cons.prems(1) g, of "rate_p6 low"] by auto
  note head = ltp_table(1) [OF Cons.prems(1) pred(1,2), of low] w write_cdf_symbol [OF g(1)]
  have after: "ltp_pred_ok (?gs ! k) (if 0 < counts ! k then ?fs ! k else ?f)" using ltp_pred_step [OF ok Cons.prems(3)] .
  show ?case
  proof (cases "0 < counts ! k")
    case True
    then have f: "0 \<le> ?fs ! k" using ok by (simp add: ltp_ok_def)
    show ?thesis
      using Cons.IH [OF Cons.prems(1) ks, of "st\<lparr>PrevGainIdx := ?gs ! k, PrevFiltIdx := ?fs ! k\<rparr>"] after True
      by (simp add: head filter_table(1) [OF Cons.prems(1) pred(3,4)] write_cdf_symbol [OF f] split: option.split bind_split)
  next
    case False
    then show ?thesis
      using Cons.IH [OF Cons.prems(1) ks, of "st\<lparr>PrevGainIdx := ?gs ! k\<rparr>"] after
      by (simp add: head split: option.split bind_split)
  qed
qed simp

lemma holds_ConsI: "holds [s] d d1 \<Longrightarrow> holds ss d1 d' \<Longrightarrow> holds (s # ss) d d'"
  by (subst holds_split) blast

lemma ltp_any:
  "tables_ok cc \<Longrightarrow> distinct ks \<Longrightarrow> ltp_pred_ok g f \<Longrightarrow> dec_ready d \<Longrightarrow>
   \<exists>gv fv d'. (\<forall>k\<in>set ks. 0 \<le> gv k \<and> gv k < 16 \<and> (if 0 < counts ! k then 0 \<le> fv k \<and> fv k < 34 else fv k = - 1)) \<and>
     (\<forall>gs fs. (\<forall>k\<in>set ks. gs ! k = gv k \<and> fs ! k = fv k) \<longrightarrow> holds (ltp_symbols cc low counts gs fs ks g f) d d') \<and> dec_ready d'"
proof (induction ks arbitrary: g f d)
  case Nil
  then show ?case by (intro exI [of _ "\<lambda>_. 0"] exI [of _ d]) simp
next
  case (Cons k ks)
  have pred: "- 1 \<le> g" "g < 16" "- 1 \<le> f" "f < 34" using Cons.prems(3) by (simp_all add: ltp_pred_ok_def)
  have k: "k \<notin> set ks" "distinct ks" using Cons.prems(2) by simp_all
  obtain i d1 where i: "i < 16" "holds [CdfSym (ltp_cdf cc low g) i] d d1" "dec_ready d1"
    using any_cdf [OF ltp_table(2) [OF Cons.prems(1) pred(1,2)] Cons.prems(4), of low]
      ltp_table(3) [OF Cons.prems(1) pred(1,2), of low] by auto
  show ?case
  proof (cases "0 < counts ! k")
    case True
    obtain j d2 where j: "j < 34" "holds [CdfSym (filter_cdf cc f) j] d1 d2" "dec_ready d2"
      using any_cdf [OF filter_table(2) [OF Cons.prems(1) pred(3,4)] i(3)] filter_table(3) [OF Cons.prems(1) pred(3,4)] by auto
    have p: "ltp_pred_ok (int i) (int j)" using i(1) j(1) by (simp add: ltp_pred_ok_def)
    obtain gv fv d' where r: "\<forall>k\<in>set ks. 0 \<le> gv k \<and> gv k < 16 \<and> (if 0 < counts ! k then 0 \<le> fv k \<and> fv k < 34 else fv k = - 1)"
        "\<forall>gs fs. (\<forall>k\<in>set ks. gs ! k = gv k \<and> fs ! k = fv k) \<longrightarrow> holds (ltp_symbols cc low counts gs fs ks (int i) (int j)) d2 d'"
        "dec_ready d'"
      using Cons.IH [OF Cons.prems(1) k(2) p j(3)] by (elim exE conjE) (rule that)
    have "holds (ltp_symbols cc low counts gs fs (k # ks) g f) d d'"
      if "\<forall>x\<in>set (k # ks). gs ! x = (gv(k := int i)) x \<and> fs ! x = (fv(k := int j)) x" for gs fs
    proof -
      have h: "holds (ltp_symbols cc low counts gs fs ks (int i) (int j)) d2 d'" "gs ! k = int i" "fs ! k = int j"
        using that r(2) k(1) by (auto split: if_splits)
      have "holds (CdfSym (filter_cdf cc f) j # ltp_symbols cc low counts gs fs ks (int i) (int j)) d1 d'"
        using holds_ConsI [OF j(2) h(1)] .
      from holds_ConsI [OF i(2) this] show ?thesis using h(2,3) True by simp
    qed
    then show ?thesis
      using r(1,3) i(1) j(1) True k(1)
      by (intro exI [of _ "gv(k := int i)"] exI [of _ "fv(k := int j)"] exI [of _ d']) auto
  next
    case False
    have p: "ltp_pred_ok (int i) f" using i(1) pred by (simp add: ltp_pred_ok_def)
    obtain gv fv d' where r: "\<forall>k\<in>set ks. 0 \<le> gv k \<and> gv k < 16 \<and> (if 0 < counts ! k then 0 \<le> fv k \<and> fv k < 34 else fv k = - 1)"
        "\<forall>gs fs. (\<forall>k\<in>set ks. gs ! k = gv k \<and> fs ! k = fv k) \<longrightarrow> holds (ltp_symbols cc low counts gs fs ks (int i) f) d1 d'"
        "dec_ready d'"
      using Cons.IH [OF Cons.prems(1) k(2) p i(3)] by (elim exE conjE) (rule that)
    have "holds (ltp_symbols cc low counts gs fs (k # ks) g f) d d'"
      if "\<forall>x\<in>set (k # ks). gs ! x = (gv(k := int i)) x \<and> fs ! x = (fv(k := - 1)) x" for gs fs
    proof -
      have h: "holds (ltp_symbols cc low counts gs fs ks (int i) f) d1 d'" "gs ! k = int i"
        using that r(2) k(1) by (auto split: if_splits)
      from holds_ConsI [OF i(2) h(1)] show ?thesis using h(2) False by simp
    qed
    then show ?thesis
      using r(1,3) i(1) False k(1)
      by (intro exI [of _ "gv(k := int i)"] exI [of _ "fv(k := - 1)"] exI [of _ d']) auto
  qed
qed

end
