(* ===== verification/MlowContour.thy ===== *)
theory MlowContour
  imports MlowLtp
begin

text \<open>The lag contour of a pitch block, as symbols of the contour window.\<close>

section \<open>Lags of a contour\<close>

text \<open>One lag per segment, spread over the sub-blocks of the segment.\<close>

fun seg_lags :: "int list \<Rightarrow> int list \<Rightarrow> int list" where
  "seg_lags [] xs = []"
| "seg_lags (l # ls) xs = hd xs # seg_lags ls (drop (nat l) xs)"

fun spread :: "int list \<Rightarrow> int list \<Rightarrow> int list" where
  "spread (l # ls) (v # vs) = replicate (nat l) v @ spread ls vs"
| "spread _ _ = []"

lemma length_seg_lags [simp]: "length (seg_lags ls xs) = length ls"
  by (induction ls xs rule: seg_lags.induct) auto

lemma seg_lags_spread: "length vs = length ls \<Longrightarrow> \<forall>l\<in>set ls. 1 \<le> l \<Longrightarrow> seg_lags ls (spread ls vs) = vs"
proof (induction ls vs rule: spread.induct)
  case (1 l ls v vs)
  then have "1 \<le> l" by simp
  then obtain n where "nat l = Suc n" by (cases "nat l") auto
  then show ?case using 1 by simp
qed auto

lemma length_spread: "length vs = length ls \<Longrightarrow> \<forall>l\<in>set ls. 0 \<le> l \<Longrightarrow> length (spread ls vs) = nat (sum_list ls)"
proof (induction ls vs rule: spread.induct)
  case (1 l ls v vs)
  then show ?case by (simp add: nat_add_distrib sum_list_nonneg)
qed auto

definition lags_ok :: "int list \<times> int list \<Rightarrow> int list \<Rightarrow> bool" where
  "lags_ok r xs \<longleftrightarrow> spread (snd r) (seg_lags (snd r) xs) = xs \<and>
     (\<forall>k<length (fst r). seg_lags (snd r) xs ! k div 64 = fst r ! k)"

definition lag_pred_ok :: "int \<Rightarrow> int \<Rightarrow> bool" where
  "lag_pred_ok blk prev \<longleftrightarrow> blk = - 1 \<and> prev = - 1 \<or> 0 \<le> blk \<and> blk < 9 \<and> prev div 64 = blk"

section \<open>Symbols\<close>

definition contour_index :: "contourWindowParts \<Rightarrow> nat \<Rightarrow> int" where
  "contour_index w c = uint (contourMap w ! c) - 1"

definition first_block :: "contourWindowParts \<Rightarrow> nat \<Rightarrow> int" where
  "first_block w c = fst (records w ! c) ! 0"

definition lag_cdf :: "contourWindowParts \<Rightarrow> u16 list" where
  "lag_cdf w = map ucast (slice (lagCdf w) 0 218)"

definition delta_cdf :: "contourWindowParts \<Rightarrow> int \<Rightarrow> u16 list" where
  "delta_cdf w blk = map ucast (slice (deltaCmfs w ! nat blk) 0 10)"

definition range_cdf :: "contourWindowParts \<Rightarrow> int \<Rightarrow> u16 list" where
  "range_cdf w b = map ucast (slice (lagCdf w) (nat (fst (windowRange w ! nat b))) (nat (snd (windowRange w ! nat b)) + 2))"

definition frac_cdf :: "contourWindowParts \<Rightarrow> nat \<Rightarrow> int \<Rightarrow> int \<Rightarrow> u16 list" where
  "frac_cdf w s prev b = (let k = nat (64 * b - prev + 127) in map ucast (slice (fracCmfs w ! s) k (k + 65)))"

definition selector_symbols :: "contourWindowParts \<Rightarrow> nat \<Rightarrow> int \<Rightarrow> symbol list" where
  "selector_symbols w c blk =
     (if blk < 0 then [CdfSym (lag_cdf w) (nat (contour_index w c))]
      else [CdfSym (delta_cdf w blk) (nat (first_block w c)),
            CdfSym (range_cdf w (first_block w c)) (nat (contour_index w c - fst (windowRange w ! nat (first_block w c))))])"

fun segment_symbols :: "contourWindowParts \<Rightarrow> nat \<Rightarrow> int \<Rightarrow> int list \<Rightarrow> int list \<Rightarrow> symbol list" where
  "segment_symbols w s prev (b # bs) (v # vs) =
     CdfSym (frac_cdf w s prev b) (nat (v - 64 * b)) # segment_symbols w s v bs vs"
| "segment_symbols w s prev _ _ = []"

definition fine_lag :: "int \<Rightarrow> int \<Rightarrow> bool" where
  "fine_lag blk b0 \<longleftrightarrow> \<not> (0 \<le> blk \<and> - 1 \<le> b0 - blk \<and> b0 - blk \<le> 2)"

definition lag_symbols :: "contourWindowParts \<Rightarrow> nat \<Rightarrow> nat \<Rightarrow> int \<Rightarrow> int \<Rightarrow> int list \<Rightarrow> symbol list" where
  "lag_symbols w s c blk prev xs =
     (let (bs, ls) = records w ! c; vs = seg_lags ls xs
      in selector_symbols w c blk @
         (if fine_lag blk (bs ! 0) then FineSym (word_of_int (vs ! 0 - 64 * bs ! 0)) # segment_symbols w s (vs ! 0) (tl bs) (tl vs)
          else segment_symbols w s prev bs vs))"

section \<open>Tables\<close>

lemma window_tables:
  assumes "window_ok w"
  shows "wide_table (lagCdf w) 218" "s < 3 \<Longrightarrow> wide_table (fracCmfs w ! s) 320" "b < 9 \<Longrightarrow> wide_table (deltaCmfs w ! b) 10"
  using assms by (auto simp: window_ok_def)

lemma lag_table: "window_ok w \<Longrightarrow> cdf_table (lag_cdf w)" "window_ok w \<Longrightarrow> length (lag_cdf w) = 218"
  using window_tables(1) [of w] wide_table_slice [of "lagCdf w" 218 0 218] by (auto simp: lag_cdf_def wide_table_def)

lemma delta_cdf_table:
  assumes "window_ok w" "0 \<le> blk" "blk < 9"
  shows "cdf_table (delta_cdf w blk)" "length (delta_cdf w blk) = 10"
  using window_tables(3) [OF assms(1), of "nat blk"] assms wide_table_slice [of "deltaCmfs w ! nat blk" 10 0 10]
  by (auto simp: delta_cdf_def wide_table_def)

lemma range_table:
  assumes "window_ok w" "0 \<le> b" "b < 9"
  shows "cdf_table (range_cdf w b)"
    "int (length (range_cdf w b)) = snd (windowRange w ! nat b) - fst (windowRange w ! nat b) + 2"
proof -
  obtain x y where r: "windowRange w ! nat b = (x, y)" by fastforce
  have "0 \<le> x" "x \<le> y" "y \<le> 216" using range_bytes(3-5) [OF assms(1), of "nat b"] assms(2,3) r by simp_all
  then show "cdf_table (range_cdf w b)"
    "int (length (range_cdf w b)) = snd (windowRange w ! nat b) - fst (windowRange w ! nat b) + 2"
    using window_tables(1) [OF assms(1)] wide_table_slice [of "lagCdf w" 218 "nat x" "nat y + 2"] r
    by (simp_all add: range_cdf_def wide_table_def)
qed

lemma frac_table:
  assumes "window_ok w" "s < 3" "- 127 \<le> 64 * b - prev" "64 * b - prev \<le> 128"
  shows "cdf_table (frac_cdf w s prev b)" "length (frac_cdf w s prev b) = 65"
  using window_tables(2) [OF assms(1,2)] assms wide_table_slice [of "fracCmfs w ! s" 320 "nat (64 * b - prev + 127)" "nat (64 * b - prev + 127) + 65"]
  by (auto simp: frac_cdf_def wide_table_def Let_def)

lemma step_range:
  assumes "prev div 64 = p" "- 1 \<le> b - p" "b - p \<le> (2 :: int)"
  shows "- 127 \<le> 64 * b - prev" "64 * b - prev \<le> 128"
  using assms by presburger+

section \<open>Any bytes hold the lags of a contour\<close>

lemma segments_any:
  assumes "window_ok w" "s < 3"
  shows "prev div 64 = p \<Longrightarrow> \<forall>k<length bs. - 1 \<le> bs ! k - (p # bs) ! k \<and> bs ! k - (p # bs) ! k \<le> 2 \<Longrightarrow> dec_ready d \<Longrightarrow>
    \<exists>vs d'. length vs = length bs \<and> (\<forall>k<length bs. vs ! k div 64 = bs ! k) \<and> holds (segment_symbols w s prev bs vs) d d' \<and> dec_ready d'"
proof (induction bs arbitrary: prev p d)
  case Nil
  then show ?case by (intro exI [of _ "[]"] exI [of _ d]) simp
next
  case (Cons b bs)
  have "- 1 \<le> b - p" "b - p \<le> 2" using Cons.prems(2) by (auto dest!: spec [of _ 0])
  note T = frac_table [OF assms step_range [OF Cons.prems(1) this]]
  obtain i d1 where i: "i < 64" "holds [CdfSym (frac_cdf w s prev b) i] d d1" "dec_ready d1"
    using any_cdf [OF T(1) Cons.prems(3)] T(2) by auto
  let ?v = "64 * b + int i"
  have v: "?v div 64 = b" using i(1) by simp
  have "\<forall>k<length bs. - 1 \<le> bs ! k - (b # bs) ! k \<and> bs ! k - (b # bs) ! k \<le> 2"
  proof (intro allI impI)
    fix k assume "k < length bs"
    then show "- 1 \<le> bs ! k - (b # bs) ! k \<and> bs ! k - (b # bs) ! k \<le> 2"
      using Cons.prems(2) [rule_format, of "Suc k"] by simp
  qed
  from Cons.IH [OF v this i(3)] obtain vs d' where vs: "length vs = length bs" "\<forall>k<length bs. vs ! k div 64 = bs ! k"
      "holds (segment_symbols w s ?v bs vs) d1 d'" "dec_ready d'" by blast
  have "holds (segment_symbols w s prev (b # bs) (?v # vs)) d d'"
    using holds_ConsI [OF i(2) vs(3)] by simp
  moreover have "\<forall>k<length (b # bs). (?v # vs) ! k div 64 = (b # bs) ! k" using vs(2) v by (auto simp: nth_Cons split: nat.split)
  ultimately show ?case using vs(1,4) by (intro exI [of _ "?v # vs"] exI [of _ d']) simp
qed


lemma contour_of:
  assumes "window_ok w" "0 \<le> i" "i \<le> 216"
  shows "\<exists>c<217. contour_index w c = i"
proof -
  have "nat (i + 1) \<in> unat ` set (contourMap w)" "length (contourMap w) = 217" using assms by (auto simp: window_ok_def)
  then obtain c where "c < 217" "unat (contourMap w ! c) = nat (i + 1)" by (auto simp: in_set_conv_nth)
  then show ?thesis using assms(2) by (intro exI [of _ c]) (auto simp: contour_index_def uint_nat)
qed

lemma window_map:
  assumes "window_ok w"
  shows "length (contourMap w) = 217" "unat ` set (contourMap w) = {1..217}"
  using assms unfolding window_ok_def by blast+

lemma contour_range:
  assumes "window_ok w" "c < 217"
  shows "0 \<le> contour_index w c" "contour_index w c \<le> 216"
proof -
  have "contourMap w ! c \<in> set (contourMap w)" using window_map(1) [OF assms(1)] assms(2) by simp
  then have "unat (contourMap w ! c) \<in> unat ` set (contourMap w)" by (rule imageI)
  then have "1 \<le> unat (contourMap w ! c) \<and> unat (contourMap w ! c) \<le> 217"
    unfolding window_map(2) [OF assms(1)] by (simp only: atLeastAtMost_iff)
  then show "0 \<le> contour_index w c" "contour_index w c \<le> 216" 
    unfolding contour_index_def uint_nat by linarith+
qed

lemma contour_unique:
  assumes "window_ok w" "c < 217" "c' < 217" "contour_index w c = contour_index w c'"
  shows "c = c'"
proof -
  have l: "length (contourMap w) = 217" "unat ` set (contourMap w) = {1..217}" using assms(1) by (simp_all add: window_ok_def)
  have "card (set (map unat (contourMap w))) = length (map unat (contourMap w))" using l by simp
  then have "distinct (contourMap w)" using card_distinct distinct_map by blast
  moreover have "contourMap w ! c = contourMap w ! c'" using assms(4) by (simp add: contour_index_def word_uint_eq_iff)
  ultimately show ?thesis using assms(2,3) l(1) by (simp add: nth_eq_iff_index_eq)
qed

lemma first_block_range:
  assumes "window_ok w" "c < 217"
  shows "0 \<le> first_block w c" "first_block w c < 9"
    "fst (windowRange w ! nat (first_block w c)) \<le> contour_index w c" "contour_index w c \<le> snd (windowRange w ! nat (first_block w c))"
proof -
  have "fst (records w ! c) \<noteq> []" using record_of [OF assms] by (auto simp: record_ok_def split: prod.splits)
  then show b: "0 \<le> first_block w c" "first_block w c < 9"
    using record_values(1,2) [OF record_of [OF assms], of 0] by (simp_all add: first_block_def)
  have "\<forall>b<9. (fst (windowRange w ! b) \<le> uint (contourMap w ! c) - 1 \<and> uint (contourMap w ! c) - 1 \<le> snd (windowRange w ! b)) =
      (fst (records w ! c) ! 0 = int b)"
    using assms unfolding window_ok_def by blast
  from this [rule_format, of "nat (first_block w c)"] b
  show "fst (windowRange w ! nat (first_block w c)) \<le> contour_index w c"
    "contour_index w c \<le> snd (windowRange w ! nat (first_block w c))"
    by (simp_all add: first_block_def contour_index_def)
qed

lemma first_block_in_range:
  assumes "window_ok w" "c < 217" "b < 9" "fst (windowRange w ! b) \<le> contour_index w c" "contour_index w c \<le> snd (windowRange w ! b)"
  shows "first_block w c = int b"
  using assms unfolding window_ok_def first_block_def contour_index_def by blast

lemma selector_any:
  assumes "window_ok w" "lag_pred_ok blk prev" "dec_ready d"
  shows "\<exists>c d'. c < 217 \<and> holds (selector_symbols w c blk) d d' \<and> dec_ready d'"
proof (cases "blk < 0")
  case True
  obtain k d' where k: "k < 217" "holds [CdfSym (lag_cdf w) k] d d'" "dec_ready d'"
    using any_cdf [OF lag_table(1) [OF assms(1)] assms(3)] lag_table(2) [OF assms(1)] by auto
  obtain c where "c < 217" "contour_index w c = int k" using contour_of [OF assms(1), of "int k"] k(1) by auto
  then show ?thesis using k True by (intro exI [of _ c] exI [of _ d']) (simp add: selector_symbols_def)
next
  case False
  then have blk: "0 \<le> blk" "blk < 9" using assms(2) by (auto simp: lag_pred_ok_def)
  obtain b d1 where b: "b < 9" "holds [CdfSym (delta_cdf w blk) b] d d1" "dec_ready d1"
    using any_cdf [OF delta_cdf_table(1) [OF assms(1) blk] assms(3)] delta_cdf_table(2) [OF assms(1) blk] by auto
  have r: "0 \<le> fst (windowRange w ! b)" "snd (windowRange w ! b) \<le> 216" using range_bytes(3-5) [OF assms(1) b(1)] by simp_all
  have i: "0 \<le> int b" "int b < 9" using b(1) by simp_all
  obtain k d2 where k: "k < length (range_cdf w (int b)) - 1" "holds [CdfSym (range_cdf w (int b)) k] d1 d2" "dec_ready d2"
    using any_cdf [OF range_table(1) [OF assms(1) i] b(3)] by blast
  then have "int k < int (length (range_cdf w (int b))) - 1" by linarith
  then have kr: "fst (windowRange w ! b) + int k \<le> snd (windowRange w ! b)" using range_table(2) [OF assms(1) i] by simp
  obtain c where c: "c < 217" "contour_index w c = fst (windowRange w ! b) + int k"
    using contour_of [OF assms(1), of "fst (windowRange w ! b) + int k"] kr r by auto
  then have "first_block w c = int b" using first_block_in_range [OF assms(1) c(1) b(1)] kr by simp
  then have "holds (selector_symbols w c blk) d d2"
    using holds_ConsI [OF b(2) k(2)] False c(2) by (simp add: selector_symbols_def)
  then show ?thesis using c(1) k(3) by blast
qed

text \<open>The transitions of a record.\<close>

lemma record_steps:
  assumes "record_ok r" "k < length (fst r) - 1"
  shows "- 1 \<le> fst r ! Suc k - fst r ! k" "fst r ! Suc k - fst r ! k \<le> 2"
  using assms by (auto simp: record_ok_def split: prod.splits)

lemma record_shape:
  assumes "record_ok r"
  shows "fst r \<noteq> []" "length (snd r) = length (fst r)" "length (fst r) \<le> 8" "\<forall>l\<in>set (snd r). 1 \<le> l" "sum_list (snd r) = 8"
  using assms by (auto simp: record_ok_def split: prod.splits)

lemma lags_spread:
  assumes "record_ok r" "length vs = length (fst r)" "\<forall>k<length (fst r). vs ! k div 64 = fst r ! k"
  shows "lags_ok r (spread (snd r) vs)" "seg_lags (snd r) (spread (snd r) vs) = vs"
  using record_shape [OF assms(1)] seg_lags_spread [of vs "snd r"] assms(2,3) by (simp_all add: lags_ok_def)

text \<open>The lags of a contour, from the fine lag on.\<close>

definition contour_lags :: "contourWindowParts \<Rightarrow> nat \<Rightarrow> int \<Rightarrow> int \<Rightarrow> int list \<Rightarrow> int list \<Rightarrow> symbol list" where
  "contour_lags w s blk prev bs vs =
     (if fine_lag blk (bs ! 0) then FineSym (word_of_int (vs ! 0 - 64 * bs ! 0)) # segment_symbols w s (vs ! 0) (tl bs) (tl vs)
      else segment_symbols w s prev bs vs)"

lemma lag_symbols_split:
  "lag_symbols w s c blk prev xs = selector_symbols w c blk @
     contour_lags w s blk prev (fst (records w ! c)) (seg_lags (snd (records w ! c)) xs)"
  by (simp add: lag_symbols_def contour_lags_def split_beta Let_def)

lemma any_fine:
  assumes "dec_ready d"
  shows "\<exists>i d'. unat i < 64 \<and> holds [FineSym i] d d' \<and> dec_ready d'"
proof -
  obtain y d' where y: "shape_of y = FineShape" "holds [y] d d'" "dec_ready d'"
    using any_symbol [of FineShape d] assms by (auto simp only: shape_ok.simps)
  then obtain i where "y = FineSym i" by (cases y) simp_all
  then show ?thesis using y(2,3) by (intro exI [of _ i] exI [of _ d']) (simp add: holds_one fine_ok_def)
qed

lemma contour_lags_any:
  assumes "window_ok w" "s < 3" "lag_pred_ok blk prev" "dec_ready d" "record_ok (bs, ls)"
  shows "\<exists>vs d'. length vs = length bs \<and> (\<forall>k<length bs. vs ! k div 64 = bs ! k) \<and>
    holds (contour_lags w s blk prev bs vs) d d' \<and> dec_ready d'"
proof -
  obtain b bt where bs: "bs = b # bt" using record_shape(1) [OF assms(5)] by (cases bs) auto
  have steps: "\<forall>k<length bt. - 1 \<le> bt ! k - (b # bt) ! k \<and> bt ! k - (b # bt) ! k \<le> 2"
  proof (intro allI impI)
    fix k assume "k < length bt"
    then show "- 1 \<le> bt ! k - (b # bt) ! k \<and> bt ! k - (b # bt) ! k \<le> 2" using record_steps [OF assms(5), of k] bs by simp
  qed
  show ?thesis
  proof (cases "fine_lag blk b")
    case True
    obtain i d2 where i: "unat i < 64" "holds [FineSym i] d d2" "dec_ready d2" using any_fine [OF assms(4)] by blast
    let ?v = "64 * b + uint i"
    have "uint i < 64" using i(1) by (simp add: unat_less_iff)
    then have v: "?v div 64 = b" by simp
    obtain vs d' where vs: "length vs = length bt" "\<forall>k<length bt. vs ! k div 64 = bt ! k"
        "holds (segment_symbols w s ?v bt vs) d2 d'" "dec_ready d'"
      using segments_any [OF assms(1,2) v steps i(3)] by blast
    have "holds (contour_lags w s blk prev bs (?v # vs)) d d'"
      using holds_ConsI [OF i(2) vs(3)] True bs by (simp add: contour_lags_def)
    moreover have "\<forall>k<length bs. (?v # vs) ! k div 64 = bs ! k"
    proof (intro allI impI)
      fix k assume "k < length bs"
      then show "(?v # vs) ! k div 64 = bs ! k" using vs(2) v bs by (cases k) simp_all
    qed
    ultimately show ?thesis using vs(1,4) bs by (intro exI [of _ "?v # vs"] exI [of _ d']) simp
  next
    case False
    then have near: "0 \<le> blk" "- 1 \<le> b - blk" "b - blk \<le> 2" by (simp_all add: fine_lag_def)
    then have p: "prev div 64 = blk" using assms(3) by (auto simp: lag_pred_ok_def)
    have "\<forall>k<length bs. - 1 \<le> bs ! k - (blk # bs) ! k \<and> bs ! k - (blk # bs) ! k \<le> 2"
    proof (intro allI impI)
      fix k assume "k < length bs"
      then show "- 1 \<le> bs ! k - (blk # bs) ! k \<and> bs ! k - (blk # bs) ! k \<le> 2"
        using near steps bs by (cases k) simp_all
    qed
    from segments_any [OF assms(1,2) p this assms(4)] show ?thesis using False bs by (simp add: contour_lags_def)
  qed
qed

lemma lags_any:
  assumes "window_ok w" "s < 3" "lag_pred_ok blk prev" "dec_ready d"
  shows "\<exists>c xs d'. c < 217 \<and> lags_ok (records w ! c) xs \<and> holds (lag_symbols w s c blk prev xs) d d' \<and> dec_ready d'"
proof -
  obtain c d1 where c: "c < 217" "holds (selector_symbols w c blk) d d1" "dec_ready d1"
    using selector_any [OF assms(1,3,4)] by blast
  let ?r = "records w ! c"
  have ok: "record_ok (fst ?r, snd ?r)" using record_of [OF assms(1) c(1)] by simp
  obtain vs d' where vs: "length vs = length (fst ?r)" "\<forall>k<length (fst ?r). vs ! k div 64 = fst ?r ! k"
      "holds (contour_lags w s blk prev (fst ?r) vs) d1 d'" "dec_ready d'"
    using contour_lags_any [OF assms(1-3) c(3) ok] by blast
  have s: "lags_ok ?r (spread (snd ?r) vs)" "seg_lags (snd ?r) (spread (snd ?r) vs) = vs"
    using lags_spread [OF record_of [OF assms(1) c(1)] vs(1,2)] .
  have "holds (lag_symbols w s c blk prev (spread (snd ?r) vs)) d d'"
    unfolding lag_symbols_split s(2) holds_append using c(2) vs(3) by blast
  then show ?thesis using c(1) s(1) vs(4) by blast
qed

end
