(* ===== verification/MlowLags.thy ===== *)
theory MlowLags
  imports MlowContour
begin

text \<open>Reading and writing a lag contour.\<close>

section \<open>The lag arrays\<close>

definition fill_ok :: "int list \<Rightarrow> lag_fill \<Rightarrow> bool" where
  "fill_ok xs f \<longleftrightarrow> (case f of (w, il, bl) \<Rightarrow>
     w = length xs \<and> w \<le> 8 \<and> length il = 4 \<and> length bl = 8 \<and> take w bl = xs \<and> take w il = take 4 xs)"

lemma put_lag_ok: "fill_ok xs f \<Longrightarrow> fill_ok xs (put_lag v f)"
  by (cases f) (auto simp: fill_ok_def take_update_cancel)

lemma fill_lags_ok: "fill_ok xs f \<Longrightarrow> length xs + n \<le> 8 \<Longrightarrow> fill_ok (xs @ replicate n v) (fill_lags n v f)"
proof (induction n arbitrary: xs f)
  case (Suc n)
  obtain w il bl where f: "f = (w, il, bl)" by (cases f)
  have ok: "w = length xs" "w < 8" "length il = 4" "length bl = 8" "take w bl = xs" "take w il = take 4 xs"
    using Suc.prems by (auto simp: fill_ok_def f)
  have "take (w + 1) (bl[w := v]) = xs @ [v]" using ok by (simp add: take_Suc_conv_app_nth)
  moreover have "take (w + 1) (il[w := v]) = take 4 (xs @ [v])"
  proof (cases "w < 4")
    case True
    then show ?thesis using ok by (simp add: take_Suc_conv_app_nth)
  next
    case False
    then show ?thesis using ok by (simp add: list_update_beyond)
  qed
  ultimately have "fill_ok (xs @ [v]) (w + 1, il[w := v], bl[w := v])" using ok by (simp add: fill_ok_def)
  from Suc.IH [OF this] show ?case using Suc.prems by (simp add: f)
qed simp

lemma fill_full: "fill_ok xs f \<Longrightarrow> length xs = 8 \<Longrightarrow> f = (8, take 4 xs, xs)"
  by (cases f) (auto simp: fill_ok_def)

lemma fill_start: "fill_ok [] (0, replicate 4 0, replicate 8 0)"
  by (simp add: fill_ok_def)

text \<open>The arrays after the segments from \<open>j\<close> on.\<close>

fun fill_segments :: "int list \<Rightarrow> int list \<Rightarrow> lag_fill \<Rightarrow> lag_fill" where
  "fill_segments (l # ls) (v # vs) f = fill_segments ls vs (fill_lags (nat l) v f)"
| "fill_segments _ _ f = f"

lemma fill_segments_ok:
  "fill_ok xs f \<Longrightarrow> length vs = length ls \<Longrightarrow> \<forall>l\<in>set ls. 1 \<le> l \<Longrightarrow> length xs + nat (sum_list ls) \<le> 8 \<Longrightarrow>
   fill_ok (xs @ spread ls vs) (fill_segments ls vs f)"
proof (induction ls vs f arbitrary: xs rule: fill_segments.induct)
  case (1 l ls v vs f)
  have s: "0 \<le> sum_list ls" using 1(4) by (intro sum_list_nonneg) auto
  have l: "1 \<le> l" using 1(4) by simp
  have "length xs + nat l \<le> 8" using 1(5) l s by (simp add: nat_add_distrib)
  from fill_lags_ok [OF 1(2) this] 1(1) [of "xs @ replicate (nat l) v"] show ?case using 1(3-5) l s by (simp add: nat_add_distrib)
qed auto

fun put_samples :: "nat \<Rightarrow> int list \<Rightarrow> int list \<Rightarrow> int list" where
  "put_samples j [] xs = xs"
| "put_samples j (v # vs) xs = put_samples (Suc j) vs (xs[j := v])"

section \<open>Reading\<close>

lemma frac_lag_read:
  assumes "prev div 64 = p" "- 1 \<le> b - p" "b - p \<le> 2" "0 \<le> b" "b < 9" "v div 64 = b"
  shows "wrap32 ((l2 * 64 - prev) + (b - l2) * 64) = 64 * b - prev" "int (nat (v - 64 * b)) = v - 64 * b"
    "wrap32 (v - 64 * b + prev + (64 * b - prev)) = v" "0 \<le> 64 * b - prev + 127" "nat (64 * b - prev + 127) + 65 \<le> 320"
proof -
  have r: "- 127 \<le> 64 * b - prev" "64 * b - prev \<le> 128" using step_range [OF assms(1-3)] .
  have v: "64 * b \<le> v" "v < 64 * b + 64" using assms(6) by presburger+
  have "(l2 * 64 - prev) + (b - l2) * 64 = 64 * b - prev" by (simp add: algebra_simps)
  then show "wrap32 ((l2 * 64 - prev) + (b - l2) * 64) = 64 * b - prev" using r by (simp add: wrap32_id)
  show "int (nat (v - 64 * b)) = v - 64 * b" using v by simp
  show "wrap32 (v - 64 * b + prev + (64 * b - prev)) = v" using v assms(4,5) by (simp add: wrap32_id)
  show "0 \<le> 64 * b - prev + 127" "nat (64 * b - prev + 127) + 65 \<le> 320" using r by simp_all
qed


text \<open>The window the decoder reads at the address it computes.\<close>

context contour_memory
begin

lemma frac_at:
  assumes "window_ok w" "s < 3" "0 \<le> nl + 127" "nat (nl + 127) + 65 \<le> 320"
  shows "CDFAt (mem w) (memHdrFracBase + of_nat s * 0x280 + word_of_int (nl * 2) + 0xfe) 65 =
    map ucast (slice (fracCmfs w ! s) (nat (nl + 127)) (nat (nl + 127) + 65))"
proof -
  have "nl * 2 + 254 = int (nat (nl + 127)) * 2" using assms(3) by simp
  then have "word_of_int (nl * 2) + 254 = (of_nat (nat (nl + 127)) * 2 :: u32)"
    by (metis of_int_add of_int_mult of_int_numeral of_int_of_nat_eq)
  then have "memHdrFracBase + of_nat s * 0x280 + word_of_int (nl * 2) + 0xfe =
      memHdrFracBase + of_nat s * 0x280 + of_nat (nat (nl + 127)) * 2" by (simp only: add.assoc)
  then show ?thesis by (simp only: frac_window [OF assms(1,2,4)])
qed

lemma segments_read:
  assumes w: "window_ok w" "c < 217" "s < 3"
    and vs: "length vs = length (fst (records w ! c))" "\<forall>k<length (fst (records w ! c)). vs ! k div 64 = fst (records w ! c) ! k"
  shows "holds (segment_symbols w s (PrevFracLag st) (drop j (fst (records w ! c))) (drop j vs)) d d' \<Longrightarrow>
    j < length (fst (records w ! c)) \<Longrightarrow> PrevFracLag st div 64 = p \<Longrightarrow>
    - 1 \<le> fst (records w ! c) ! j - p \<Longrightarrow> fst (records w ! c) ! j - p \<le> 2 \<Longrightarrow>
    read_segments d (mem w) (memPcfg + of_nat c * 0x44) (memHdrFracBase + of_nat s * 0x280)
      [int j..int (length (fst (records w ! c))) - 1] (PrevFracLag st) l2 st samples fills =
    Some (put_samples j (drop j vs) samples, fill_segments (drop j (snd (records w ! c))) (drop j vs) fills,
      st\<lparr>PrevFracLag := last vs, PrevLag := last (fst (records w ! c))\<rparr>, d')"
proof (induction "length (fst (records w ! c)) - j" arbitrary: j d st l2 samples fills p)
  case (Suc n)
  let ?bs = "fst (records w ! c)" and ?ls = "snd (records w ! c)"
  note ok = record_of [OF w(1,2)]
  note V = record_values [OF ok Suc.prems(2)]
  have d: "drop j ?bs = ?bs ! j # drop (Suc j) ?bs" "drop j vs = vs ! j # drop (Suc j) vs" "drop j ?ls = ?ls ! j # drop (Suc j) ?ls"
    using Suc.prems(2) vs(1) V(6) by (simp_all add: Cons_nth_drop_Suc)
  have v: "vs ! j div 64 = ?bs ! j" using vs(2) Suc.prems(2) by simp
  note F = frac_lag_read [OF Suc.prems(3,4,5) V(1,2) v]
  have up: "[int j..int (length ?bs) - 1] = int j # [int (Suc j)..int (length ?bs) - 1]"
    using Suc.prems(2) by (simp add: upto_rec1 add.commute)
  obtain d1 where d1: "holds [CdfSym (frac_cdf w s (PrevFracLag st) (?bs ! j)) (nat (vs ! j - 64 * ?bs ! j))] d d1"
      "holds (segment_symbols w s (vs ! j) (drop (Suc j) ?bs) (drop (Suc j) vs)) d1 d'"
    using Suc.prems(1) unfolding d by (subst (asm) segment_symbols.simps, subst (asm) holds_split) blast
  have r: "read_cdf d (CDFAt (mem w) (memHdrFracBase + of_nat s * 0x280 + word_of_int ((64 * ?bs ! j - PrevFracLag st) * 2) + 0xfe) 65) =
      Some (vs ! j - 64 * ?bs ! j, d1)"
    using holds_cdf [OF d1(1)] F(2) by (simp only: frac_at [OF w(1,3) F(4,5)] frac_cdf_def Let_def)
  let ?st = "st\<lparr>PrevFracLag := vs ! j, PrevLag := ?bs ! j\<rparr>"
  have step: "read_segments d (mem w) (memPcfg + of_nat c * 0x44) (memHdrFracBase + of_nat s * 0x280)
      [int j..int (length ?bs) - 1] (PrevFracLag st) l2 st samples fills =
    read_segments d1 (mem w) (memPcfg + of_nat c * 0x44) (memHdrFracBase + of_nat s * 0x280)
      [int (Suc j)..int (length ?bs) - 1] (vs ! j) (?bs ! j) ?st (samples[j := vs ! j]) (fill_lags (nat (?ls ! j)) (vs ! j) fills)"
    unfolding up read_segments.simps Let_def of_int_of_nat_eq block_of [OF w(1,2) Suc.prems(2)] seglen_of [OF w(1,2) Suc.prems(2)] F(1) r
    by (simp add: F(3) [simplified] del: upto_rec_numeral)
  show ?case
  proof (cases "Suc j < length ?bs")
    case True
    have n: "n = length ?bs - Suc j" using Suc.hyps(2) by simp
    have t: "- 1 \<le> ?bs ! Suc j - ?bs ! j" "?bs ! Suc j - ?bs ! j \<le> 2" using record_steps [OF ok, of j] True by simp_all
    have h: "holds (segment_symbols w s (PrevFracLag ?st) (drop (Suc j) ?bs) (drop (Suc j) vs)) d1 d'" using d1(2) by simp
    have p: "PrevFracLag ?st div 64 = ?bs ! j" using v by simp
    show ?thesis
      using Suc.hyps(1) [OF n h True p t, of "?bs ! j" "samples[j := vs ! j]" "fill_lags (nat (?ls ! j)) (vs ! j) fills"]
      unfolding step d by simp
  next
    case False
    then have e: "length ?bs = Suc j" using Suc.prems(2) by simp
    then have "last vs = vs ! j" "last ?bs = ?bs ! j" using vs(1) by (simp_all add: last_conv_nth flip: length_0_conv)
    moreover have "d' = d1" "drop (Suc j) ?bs = []" "drop (Suc j) vs = []" "drop (Suc j) ?ls = []"
      using d1(2) e vs(1) V(6) by simp_all
    moreover have "[int (Suc j)..int (length ?bs) - 1] = []" using e by simp
    ultimately show ?thesis unfolding step d by simp
  qed
qed simp


lemma contour_found:
  assumes "window_ok w" "c < 217"
  shows "find_contour (mem w) memHdrContourMap (contour_index w c + 1) = int c"
proof -
  have t: "uint (U8 (mem w) (memHdrContourMap + of_nat i)) = contour_index w i + 1" if "i < 217" for i
    using index_of [OF assms(1) that] by (simp add: contour_index_def)
  obtain i where i: "find (\<lambda>i. uint (U8 (mem w) (memHdrContourMap + of_nat i)) = contour_index w c + 1) [0..<217] = Some i"
    using t [OF assms(2)] assms(2) find_None_iff [of "\<lambda>i. uint (U8 (mem w) (memHdrContourMap + of_nat i)) = contour_index w c + 1" "[0..<217]"]
    by (metis atLeastLessThan_iff bot_nat_0.extremum not_None_eq set_upt)
  then have "i < 217" "contour_index w i = contour_index w c"
    using t by (auto simp: find_Some_iff simp del: upt_Suc upt_rec_numeral)
  then have "i = c" using contour_unique [OF assms(1) _ assms(2)] by blast
  then show ?thesis using i by (simp add: find_contour_def del: upt_Suc upt_rec_numeral)
qed

lemma selector_read:
  assumes "window_ok w" "c < 217" "lag_pred_ok (PrevLag st) (PrevFracLag st)" "holds (selector_symbols w c (PrevLag st)) d d'"
  shows "read_lag d (mem w) st = Some (Some (contour_index w c), d')"
proof (cases "PrevLag st < 0")
  case True
  have "CDFAt (mem w) memHdrLagCdf 218 = lag_cdf w" using lag_window [OF assms(1), of 0 218] by (simp add: lag_cdf_def)
  moreover have "nat (wrap32 (217 + 1)) = 218" by (simp add: wrap32_id)
  moreover have "holds [CdfSym (lag_cdf w) (nat (contour_index w c))] d d'" using assms(4) True by (simp add: selector_symbols_def)
  ultimately show ?thesis
    using True holds_cdf contour_range(1) [OF assms(1,2)]
    by (simp add: read_lag_def clock [OF assms(1)] contours [OF assms(1)] pointers [OF assms(1)] Let_def flip: memPcfg_def)
next
  case False
  then have blk: "0 \<le> PrevLag st" "PrevLag st < 9" using assms(3) by (auto simp: lag_pred_ok_def)
  let ?b = "first_block w c" and ?i = "contour_index w c"
  let ?lo = "fst (windowRange w ! nat ?b)" and ?hi = "snd (windowRange w ! nat ?b)"
  note B = first_block_range [OF assms(1,2)]
  have n: "nat ?b < 9" using B(2) by simp
  note R = range_of [OF assms(1) n] range_bytes(3-5) [OF assms(1) n]
  obtain d1 where d1: "holds [CdfSym (delta_cdf w (PrevLag st)) (nat ?b)] d d1" "holds [CdfSym (range_cdf w ?b) (nat (?i - ?lo))] d1 d'"
    using assms(4) False by (simp add: selector_symbols_def holds_split [of _ "[_]"]) blast
  have wd: "CDFAt (mem w) (memHdrDeltaCdf + word_of_int (PrevLag st) * 20) 10 = delta_cdf w (PrevLag st)"
  proof -
    have "(word_of_int (PrevLag st) :: u32) = of_nat (nat (PrevLag st))" using blk(1) by simp
    moreover have "length (deltaCmfs w ! nat (PrevLag st)) = 10"
      using window_tables(3) [OF assms(1), of "nat (PrevLag st)"] blk by (simp add: wide_table_def)
    ultimately show ?thesis using delta_table [OF assms(1), of "nat (PrevLag st)"] blk
      by (simp add: delta_cdf_def slice_def)
  qed
  have wl: "CDFAt (mem w) (memHdrLagCdf + word_of_int ?lo * 2) (nat ((?hi - ?lo) + 2)) = range_cdf w ?b"
  proof -
    have x: "(word_of_int ?lo :: u32) = of_nat (nat ?lo)" using R(3) by simp
    have y: "nat ?lo + nat ((?hi - ?lo) + 2) = nat ?hi + 2" using R(3,4) by (simp add: nat_add_distrib nat_diff_distrib)
    have z: "nat ?hi + 2 \<le> 218" using R(5) by linarith
    show ?thesis unfolding x range_cdf_def using lag_window [OF assms(1), of "nat ?lo" "nat ((?hi - ?lo) + 2)", unfolded y, OF z] .
  qed
  have b: "word_of_int ?b = (of_nat (nat ?b) :: u32)" using B(1) by simp
  have "uint (U8 (mem w) (memDeltaBounds + word_of_int ?b * 2)) = ?lo" "uint (U8 (mem w) (memDeltaBounds + word_of_int ?b * 2 + 1)) = ?hi"
    unfolding b by (rule R(1), rule R(2))
  then show ?thesis
    using False wd wl holds_cdf [OF d1(1)] holds_cdf [OF d1(2)] B R(3-5)
    by (simp add: read_lag_def clock [OF assms(1)] contours [OF assms(1)] pointers [OF assms(1)] Let_def
        flip: memPcfg_def memDeltaBounds_def)
qed


lemma fine_read:
  assumes "window_ok w" "c < 217" "holds [FineSym (word_of_int (v - 64 * first_block w c))] d d'" "v div 64 = first_block w c"
  shows "read_fine d (mem w) (memPcfg + of_nat c * 0x44) (first_block w c) st =
    Some (v, put_lag v (fill_lags (nat (snd (records w ! c) ! 0)) v (0, replicate 4 0, replicate 8 0)),
      st\<lparr>PrevFracLag := v, PrevLag := first_block w c\<rparr>, d')"
proof -
  have b: "0 \<le> first_block w c" "first_block w c < 9" using first_block_range(1,2) [OF assms(1,2)] .
  have v: "0 \<le> v - 64 * first_block w c" "v - 64 * first_block w c < 64" using assms(4) by presburger+
  have "sint (word_of_int (v - 64 * first_block w c) :: u32) = v - 64 * first_block w c" using v by (intro sint_small) simp_all
  moreover have "wrap32 (first_block w c * 64 + (v - 64 * first_block w c)) = v" using v b by (simp add: wrap32_id)
  moreover have "0 < length (fst (records w ! c))" using record_shape(1) [OF record_of [OF assms(1,2)]] by simp
  ultimately show ?thesis
    using seglen_of [OF assms(1,2), of 0] by (simp add: read_fine_def holds_fine [OF assms(3)] Let_def)
qed

end

end
