(* ===== verification/MlowPitchBlock.thy ===== *)
theory MlowPitchBlock
  imports MlowLags
begin

text \<open>The pitch block of a voiced frame as symbols: read, present in any bytes, and written.\<close>

definition pitch_mode :: "CcTables \<Rightarrow> bool \<Rightarrow> SmplPitchParams \<Rightarrow> nat" where
  "pitch_mode cc low pp =
     nat (seg_sel (ltp_gain cc (rate_p6 low) (GainIdx pp) [0..<nat (rate_p3 low)] 0 sdiv rate_p3 low))"

definition pitch_symbols :: "CcTables \<Rightarrow> contourWindowParts \<Rightarrow> bool \<Rightarrow> int list \<Rightarrow> SmplLsfState \<Rightarrow> SmplPitchParams \<Rightarrow> symbol list" where
  "pitch_symbols cc w low cs st pp =
     ltp_symbols cc low cs (GainIdx pp) (FiltIdx pp) [0..<nat (rate_p3 low)] (PrevGainIdx st) (PrevFiltIdx st) @
     lag_symbols w (pitch_mode cc low pp) (nat (BlocksegIdx pp)) (PrevLag st) (PrevFracLag st) (Laginds pp)"

definition pitch_params_ok :: "contourWindowParts \<Rightarrow> bool \<Rightarrow> int list \<Rightarrow> SmplPitchParams \<Rightarrow> bool" where
  "pitch_params_ok w low cs pp \<longleftrightarrow> length (GainIdx pp) = 4 \<and> length (FiltIdx pp) = 4 \<and>
     (\<forall>k<4. if k < nat (rate_p3 low) then ltp_ok cs (GainIdx pp) (FiltIdx pp) k else GainIdx pp ! k = 0 \<and> FiltIdx pp ! k = - 1) \<and>
     0 \<le> BlocksegIdx pp \<and> BlocksegIdx pp < 217 \<and> lags_ok (records w ! nat (BlocksegIdx pp)) (Laginds pp)"

text \<open>The predictors after the block, and what the decoder returns.\<close>

definition pitch_after :: "contourWindowParts \<Rightarrow> bool \<Rightarrow> int list \<Rightarrow> SmplLsfState \<Rightarrow> SmplPitchParams \<Rightarrow> SmplLsfState" where
  "pitch_after w low cs st pp =
     (let (g, f) = ltp_end cs (GainIdx pp) (FiltIdx pp) [0..<nat (rate_p3 low)] (PrevGainIdx st) (PrevFiltIdx st);
          r = records w ! nat (BlocksegIdx pp)
      in st\<lparr>PrevGainIdx := g, PrevFiltIdx := f, PrevFracLag := last (seg_lags (snd r) (Laginds pp)), PrevLag := last (fst r)\<rparr>)"

definition pitch_result :: "contourWindowParts \<Rightarrow> SmplLsfState \<Rightarrow> SmplPitchParams \<Rightarrow> SmplPitchResult" where
  "pitch_result w st pp =
     (let c = nat (BlocksegIdx pp); r = records w ! c; j = (if fine_lag (PrevLag st) (fst r ! 0) then 1 else 0)
      in \<lparr>gainIdx = GainIdx pp, filtIdx = FiltIdx pp, resLag = contour_index w c, resContour = int c,
          SampleLagQ6 = put_samples j (drop j (seg_lags (snd r) (Laginds pp))) (replicate 8 0),
          NumSeg = int (length (fst r)), IntLagQ6 = take 4 (Laginds pp), BlockLags = Laginds pp, NumSubfr = 8\<rparr>)"

lemma seg_sel_range: "0 \<le> seg_sel x" "seg_sel x < 3" "int (nat (seg_sel x)) = seg_sel x"
  by (simp_all add: seg_sel_def)

lemma spread_full:
  assumes "record_ok r" "length vs = length (fst r)" "fill_ok [] f"
  shows "fill_segments (snd r) vs f = (8, take 4 (spread (snd r) vs), spread (snd r) vs)"
proof -
  note R = record_shape [OF assms(1)]
  have z: "\<forall>l\<in>set (snd r). 0 \<le> l" using R(4) by auto
  have "fill_ok ([] @ spread (snd r) vs) (fill_segments (snd r) vs f)"
    using assms(2) R(2,4,5) by (intro fill_segments_ok [OF assms(3)]) simp_all
  moreover have "length (spread (snd r) vs) = 8" using length_spread [OF _ z, of vs] assms(2) R(2,5) by simp
  ultimately show ?thesis by (intro fill_full) simp_all
qed

lemma spread_full_put:
  assumes "record_ok r" "length vs = length (fst r)" "fill_ok [] f"
  shows "fill_segments (tl (snd r)) (tl vs) (put_lag (vs ! 0) (fill_lags (nat (snd r ! 0)) (vs ! 0) f)) =
    (8, take 4 (spread (snd r) vs), spread (snd r) vs)"
proof -
  note R = record_shape [OF assms(1)]
  obtain l ls v vt where e: "snd r = l # ls" "vs = v # vt"
    using R(1,2) assms(2) by (cases "snd r"; cases vs) auto
  have z: "\<forall>l\<in>set (snd r). 0 \<le> l" using R(4) by auto
  have m: "\<forall>l\<in>set ls. 1 \<le> l" using R(4) e(1) by simp
  then have "0 \<le> sum_list ls" by (intro sum_list_nonneg) force
  then have l: "1 \<le> l" "\<forall>l\<in>set ls. 1 \<le> l" "0 \<le> sum_list ls" "l + sum_list ls = 8" using R(4,5) e(1) m by simp_all
  have "nat l + nat (sum_list ls) \<le> 8" using l by linarith
  then have "fill_ok ((replicate (nat l) v) @ spread ls vt) (fill_segments ls vt (put_lag v (fill_lags (nat l) v f)))"
    using fill_lags_ok [OF assms(3), of "nat l" v] l assms(2) R(2) e
    by (intro fill_segments_ok put_lag_ok) simp_all
  moreover have "length (spread (snd r) vs) = 8" using length_spread [OF _ z, of vs] assms(2) R(2,5) by simp
  ultimately show ?thesis by (intro fill_full) (simp_all add: e)
qed

context contour_memory
begin

lemma contour_lags_read:
  assumes w: "window_ok w" "c < 217" "s < 3" and pred: "lag_pred_ok (PrevLag st) (PrevFracLag st)"
    and vs: "length vs = length (fst (records w ! c))" "\<forall>k<length (fst (records w ! c)). vs ! k div 64 = fst (records w ! c) ! k"
    and h: "holds (contour_lags w s (PrevLag st) (PrevFracLag st) (fst (records w ! c)) vs) d d'"
  defines "fine \<equiv> fine_lag (PrevLag st) (first_block w c)"
  shows "Option.bind
      (if fine then read_fine d (mem w) (memPcfg + of_nat c * 0x44) (first_block w c) st
       else Some (first_block w c, (0, replicate 4 0, replicate 8 0), st, d))
      (\<lambda>(curLag2, fills, st2, d3). read_segments d3 (mem w) (memPcfg + of_nat c * 0x44) (memHdrFracBase + of_nat s * 0x280)
         [if fine then 1 else 0..int (length (fst (records w ! c))) - 1] (PrevFracLag st2) curLag2 st2 (replicate 8 0) fills) =
    Some (put_samples (if fine then 1 else 0) (drop (if fine then 1 else 0) vs) (replicate 8 0),
      (8, take 4 (spread (snd (records w ! c)) vs), spread (snd (records w ! c)) vs),
      st\<lparr>PrevFracLag := last vs, PrevLag := last (fst (records w ! c))\<rparr>, d')"
proof -
  let ?r = "records w ! c"
  note ok = record_of [OF w(1,2)]
  note R = record_shape [OF ok]
  have v0: "vs ! 0 div 64 = first_block w c" using vs(2) R(1) by (simp add: first_block_def)
  show ?thesis
  proof (cases fine)
    case True
    then obtain d1 where d1: "holds [FineSym (word_of_int (vs ! 0 - 64 * first_block w c))] d d1"
        "holds (segment_symbols w s (vs ! 0) (tl (fst ?r)) (tl vs)) d1 d'"
      using h unfolding contour_lags_def fine_def first_block_def by (simp add: holds_split [of _ "segment_symbols _ _ _ _ _"]) blast
    note F = fine_read [OF w(1,2) d1(1) v0, of st]
    let ?st = "st\<lparr>PrevFracLag := vs ! 0, PrevLag := first_block w c\<rparr>"
    let ?f = "put_lag (vs ! 0) (fill_lags (nat (snd ?r ! 0)) (vs ! 0) (0, replicate 4 0, replicate 8 0))"
    note S = spread_full_put [OF ok vs(1) fill_start]
    show ?thesis
    proof (cases "1 < length (fst ?r)")
      case True
      have h1: "holds (segment_symbols w s (PrevFracLag ?st) (drop 1 (fst ?r)) (drop 1 vs)) d1 d'" using d1(2) by (simp add: drop_Suc)
      have "0 < length (fst ?r) - 1" using True by simp
      from record_steps [OF ok this] have t: "- 1 \<le> fst ?r ! 1 - first_block w c" "fst ?r ! 1 - first_block w c \<le> 2" by (simp_all add: first_block_def)
      have p: "PrevFracLag ?st div 64 = first_block w c" using v0 by simp
      show ?thesis
        using segments_read [OF w vs h1 True p t, of "vs ! 0" "replicate 8 0" ?f] \<open>fine\<close> S
        by (simp add: F drop_Suc del: upto_rec_numeral)
    next
      case False
      then have e: "length (fst ?r) = 1" using R(1) by (cases "fst ?r") auto
      then have "d1 = d'" "last vs = vs ! 0" "last (fst ?r) = first_block w c" "drop 1 vs = []" "tl (snd ?r) = []"
        using d1(2) vs(1) R(2) by (auto simp: last_conv_nth first_block_def length_Suc_conv)
      then show ?thesis using S \<open>fine\<close> e by (simp add: F)
    qed
  next
    case False
    then have near: "0 \<le> PrevLag st" "- 1 \<le> fst ?r ! 0 - PrevLag st" "fst ?r ! 0 - PrevLag st \<le> 2"
      by (simp_all add: fine_def fine_lag_def first_block_def)
    have p: "PrevFracLag st div 64 = PrevLag st" using pred near(1) by (auto simp: lag_pred_ok_def)
    have h0: "holds (segment_symbols w s (PrevFracLag st) (drop 0 (fst ?r)) (drop 0 vs)) d d'"
      using h False by (simp add: contour_lags_def fine_def first_block_def)
    have l: "0 < length (fst ?r)" using R(1) by simp
    show ?thesis
      using segments_read [OF w vs h0 l p near(2,3), of "first_block w c" "replicate 8 0" "(0, replicate 4 0, replicate 8 0)"]
        spread_full [OF ok vs(1) fill_start] False
      by (simp del: upto_rec_numeral)
  qed
qed


lemma pitch_read:
  assumes "holds (pitch_symbols cc w low cs st pp) d d'" "tables_ok cc" "window_ok w" "pitch_params_ok w low cs pp"
    "ltp_pred_ok (PrevGainIdx st) (PrevFiltIdx st)" "lag_pred_ok (PrevLag st) (PrevFracLag st)"
  shows "DecodeSmplPitch d cc (mem w) st 320 (rate_p3 low) (rate_p6 low) cs =
    Some (pitch_result w st pp, pitch_after w low cs st pp, d')"
proof -
  let ?c = "nat (BlocksegIdx pp)" and ?s = "pitch_mode cc low pp" and ?ks = "[0..<nat (rate_p3 low)]"
  let ?r = "records w ! ?c"
  let ?vs = "seg_lags (snd ?r) (Laginds pp)"
  let ?e = "ltp_end cs (GainIdx pp) (FiltIdx pp) ?ks (PrevGainIdx st) (PrevFiltIdx st)"
  let ?gain = "ltp_gain cc (rate_p6 low) (GainIdx pp) ?ks 0"
  let ?st = "st\<lparr>PrevGainIdx := fst ?e, PrevFiltIdx := snd ?e\<rparr>"
  have P: "length (GainIdx pp) = 4" "length (FiltIdx pp) = 4" "?c < 217" "lags_ok ?r (Laginds pp)"
      "\<forall>k\<in>set ?ks. ltp_ok cs (GainIdx pp) (FiltIdx pp) k"
      "\<And>k. k < 4 \<Longrightarrow> \<not> k < nat (rate_p3 low) \<Longrightarrow> GainIdx pp ! k = 0 \<and> FiltIdx pp ! k = - 1"
    using assms(4) rate_nat(1) [of low] by (auto simp: pitch_params_ok_def)
  have s: "?s < 3" "word_of_int (seg_sel (?gain sdiv rate_p3 low)) = (of_nat ?s :: u32)"
    using seg_sel_range(1,2) [of "?gain sdiv rate_p3 low"] by (simp_all add: pitch_mode_def nat_less_iff)
  obtain d1 d2 where h: "holds (ltp_symbols cc low cs (GainIdx pp) (FiltIdx pp) ?ks (PrevGainIdx st) (PrevFiltIdx st)) d d1"
      "holds (selector_symbols w ?c (PrevLag st)) d1 d2"
      "holds (contour_lags w ?s (PrevLag st) (PrevFracLag st) (fst ?r) ?vs) d2 d'"
    using assms(1) unfolding pitch_symbols_def lag_symbols_split holds_append by blast
  note L = ltp_read [OF h(1) assms(2) P(5) assms(5), of 0]
  have pads: "map ((!) (GainIdx pp)) ?ks @ replicate (4 - nat (rate_p3 low)) 0 = GainIdx pp"
    "map ((!) (FiltIdx pp)) ?ks @ replicate (4 - nat (rate_p3 low)) (- 1) = FiltIdx pp"
    using P(1,2,6) rate_nat(1) [of low] by (intro nth_equalityI; auto simp: nth_append)+
  have ok: "record_ok ?r" using record_of [OF assms(3) P(3)] .
  have vs: "length ?vs = length (fst ?r)" "\<forall>k<length (fst ?r). ?vs ! k div 64 = fst ?r ! k" "spread (snd ?r) ?vs = Laginds pp"
    using P(4) record_shape(2) [OF ok] by (simp_all add: lags_ok_def)
  have b0: "0 < length (fst ?r)" using record_shape(1) [OF ok] by simp
  have base: "I32 (mem w) (memPcfg + of_nat ?c * 0x44 + 0x1d38) = first_block w ?c"
    using block_of [OF assms(3) P(3) b0] by (simp add: first_block_def)
  note C = contour_range [OF assms(3) P(3)]
  have pl: "- 1 \<le> PrevLag st" "PrevLag st < 9" using assms(6) by (auto simp: lag_pred_ok_def)
  have fb: "0 \<le> first_block w ?c" "first_block w ?c < 9" using first_block_range(1,2) [OF assms(3) P(3)] .
  have \<delta>: "wrap32 (first_block w ?c - PrevLag st) = first_block w ?c - PrevLag st" "wrap32 (contour_index w ?c + 1) = contour_index w ?c + 1"
    using pl fb C by (simp_all add: wrap32_id)
  have fine: "(\<not> (0 \<le> PrevLag st \<and> - 1 \<le> first_block w ?c - PrevLag st \<and> first_block w ?c - PrevLag st < 3)) =
      fine_lag (PrevLag st) (first_block w ?c)"
    by (auto simp: fine_lag_def)
  have sel: "read_lag d1 (mem w) ?st = Some (Some (contour_index w ?c), d2)"
    using h(2) assms(6) by (intro selector_read [OF assms(3) P(3)]) simp_all
  have "lag_pred_ok (PrevLag ?st) (PrevFracLag ?st)" using assms(6) by simp
  from contour_lags_read [OF assms(3) P(3) s(1) this vs(1,2), of d2 d'] h(3)
  obtain cur fills st2 d3 where
    x: "(if fine_lag (PrevLag st) (first_block w ?c)
         then read_fine d2 (mem w) (memPcfg + of_nat ?c * 0x44) (first_block w ?c) ?st
         else Some (first_block w ?c, (0, replicate 4 0, replicate 8 0), ?st, d2)) = Some (cur, fills, st2, d3)" and
    y: "read_segments d3 (mem w) (memPcfg + of_nat ?c * 0x44) (memHdrFracBase + of_nat ?s * 0x280)
         [if fine_lag (PrevLag st) (first_block w ?c) then 1 else 0..int (length (fst ?r)) - 1] (PrevFracLag st2) cur st2 (replicate 8 0) fills =
       Some (put_samples (if fine_lag (PrevLag st) (first_block w ?c) then 1 else 0)
           (drop (if fine_lag (PrevLag st) (first_block w ?c) then 1 else 0) ?vs) (replicate 8 0),
         (8, take 4 (Laginds pp), Laginds pp), ?st\<lparr>PrevFracLag := last ?vs, PrevLag := last (fst ?r)\<rparr>, d')"
    by (simp add: bind_eq_Some_conv vs(3) del: upto_rec_numeral) blast
  have p3: "rate_p3 low \<noteq> 0" by (simp add: rate_p3_def)
  have in_range: "\<not> (int ?c < 0 \<or> 217 \<le> int ?c)" using P(3) by linarith
  have st: "PrevLag ?st = PrevLag st" by simp
  show ?thesis
    unfolding DecodeSmplPitch_def subframes_rate L bind.bind_lunit prod.case if_not_P [OF p3] Let_def clock [OF assms(3)]
      memPcfg_def [symmetric] sel option.case contours [OF assms(3)] pointers [OF assms(3)] \<delta> contour_found [OF assms(3) P(3)]
      if_not_P [OF in_range] of_int_of_nat_eq base s(2) st fine blocks_of [OF assms(3) P(3)] x y
    by (simp add: pads pitch_result_def pitch_after_def Let_def first_block_def split_beta)
qed

end

end
