(* ===== verification/MlowPitchWrite.thy ===== *)
theory MlowPitchWrite
  imports MlowPitchBlock
begin

text \<open>Every payload holds a pitch block, and the encoder writes the one it is given.\<close>

lemma pitch_mode_range: "pitch_mode cc low pp < 3"
  using seg_sel_range(1,2) by (simp add: pitch_mode_def nat_less_iff)

lemma pitch_any:
  assumes "tables_ok cc" "window_ok w" "ltp_pred_ok (PrevGainIdx st) (PrevFiltIdx st)"
    "lag_pred_ok (PrevLag st) (PrevFracLag st)" "dec_ready d"
  shows "\<exists>pp d'. pitch_params_ok w low cs pp \<and> holds (pitch_symbols cc w low cs st pp) d d' \<and> dec_ready d'"
proof -
  let ?ks = "[0..<nat (rate_p3 low)]"
  obtain gv fv :: "nat \<Rightarrow> int" and d1 where g: "\<forall>k\<in>set ?ks. 0 \<le> gv k \<and> gv k < 16 \<and> (if 0 < cs ! k then 0 \<le> fv k \<and> fv k < 34 else fv k = - 1)"
      "\<And>gs fs. \<forall>k\<in>set ?ks. gs ! k = gv k \<and> fs ! k = fv k \<Longrightarrow>
         holds (ltp_symbols cc low cs gs fs ?ks (PrevGainIdx st) (PrevFiltIdx st)) d d1" "dec_ready d1"
    using ltp_any [OF assms(1) distinct_upt assms(3,5), of 0 "nat (rate_p3 low)" cs low] by blast
  define gs where "gs = map (\<lambda>k. if k < nat (rate_p3 low) then gv k else 0) [0..<4]"
  define fs where "fs = map (\<lambda>k. if k < nat (rate_p3 low) then fv k else - 1) [0..<4]"
  have n: "gs ! k = (if k < nat (rate_p3 low) then gv k else 0)" "fs ! k = (if k < nat (rate_p3 low) then fv k else - 1)" if "k < 4" for k
    using that by (simp_all add: gs_def fs_def del: upt_Suc upt_rec_numeral)
  have l: "length gs = 4" "length fs = 4" by (simp_all add: gs_def fs_def)
  have k4: "k < 4" if "k \<in> set ?ks" for k using that rate_nat(1) [of low] by simp
  have h1: "holds (ltp_symbols cc low cs gs fs ?ks (PrevGainIdx st) (PrevFiltIdx st)) d d1"
    using n k4 by (intro g(2)) simp
  define m where "m = pitch_mode cc low \<lparr>GainIdx = gs, FiltIdx = fs, BlocksegIdx = 0, Laginds = []\<rparr>"
  have "m < 3" by (simp add: m_def pitch_mode_range)
  from lags_any [OF assms(2) this assms(4) g(3)] obtain c xs d2 where c: "c < 217" "lags_ok (records w ! c) xs"
      "holds (lag_symbols w m c (PrevLag st) (PrevFracLag st) xs) d1 d2" "dec_ready d2" by blast
  define pp where "pp = \<lparr>GainIdx = gs, FiltIdx = fs, BlocksegIdx = int c, Laginds = xs\<rparr>"
  have "ltp_ok cs gs fs k" if "k < nat (rate_p3 low)" "k < 4" for k
    using g(1) n [OF that(2)] that(1) by (simp add: ltp_ok_def)
  then have "pitch_params_ok w low cs pp"
    using c(1,2) l n by (simp add: pitch_params_ok_def pp_def)
  moreover have "pitch_mode cc low pp = m" by (simp add: m_def pitch_mode_def pp_def)
  then have "holds (pitch_symbols cc w low cs st pp) d d2"
    unfolding pitch_symbols_def holds_append using h1 c(3) by (auto simp: pp_def)
  ultimately show ?thesis using c(4) by blast
qed

section \<open>Writing\<close>

definition tables_match :: "PitchTables \<Rightarrow> contourWindowParts \<Rightarrow> bool" where
  "tables_match tab w \<longleftrightarrow>
     Blocksegs tab = map (\<lambda>r. \<lparr>Nblocks = length (fst r), Blocks = fst r, Seglens = snd r\<rparr>) (records w) \<and>
     Blocksegs2idx tab = map uint (contourMap w) \<and> BlocksegIdxCmf tab = lagCdf w \<and> DeltaLagCmfs tab = fracCmfs w \<and>
     FirstblockRange tab = windowRange w \<and> BlockTransitionCmf tab = deltaCmfs w"

lemma wide_value: "wide_table c n \<Longrightarrow> i < n \<Longrightarrow> ucast (ucast (c ! i) :: u16) = c ! i"
proof -
  assume "wide_table c n" "i < n"
  then have "c ! i < 65536" by (simp add: wide_table_def)
  then have "unat (c ! i) < 65536" by (simp add: word_less_nat_alt)
  then show ?thesis by (simp add: word_unat_eq_iff unat_ucast_mod)
qed

lemma table_written:
  assumes "wide_table c n" "n \<le> 32768" "i + m \<le> n" "2 \<le> m" "Suc k < m"
  shows "encode_symbol (CdfSym (map ucast (slice c i (i + m))) k) e =
    Encode e (c ! (i + k) - c ! i) (c ! (i + k + 1) - c ! i) (c ! (i + m - 1) - c ! i)"
proof -
  let ?s = "map ucast (slice c i (i + m)) :: u16 list"
  have l: "length ?s = m" "length c = n" using assms(1,3) by (simp_all add: wide_table_def)
  have v: "ucast (?s ! j) = c ! (i + j)" if "j < m" for j
    using that l wide_value [OF assms(1), of "i + j"] assms(3) by (simp add: slice_def)
  have "c ! i < c ! (i + (m - 1))"
    using assms l by (intro sorted_wrt_nth_less [of "(<)"]) (auto simp: wide_table_def)
  then have o: "\<not> ucast (?s ! (m - 1)) \<le> (ucast (?s ! 0) :: u32)" using v [of 0] v [of "m - 1"] assms(4) by simp
  have n: "sint (of_nat k :: i32) = int k" "sint (of_nat (Suc k) :: i32) = int (Suc k)"
    "unat (of_nat k :: i32) = k" "unat (of_nat (Suc k) :: i32) = Suc k" "(of_nat k :: i32) + 1 = of_nat (Suc k)"
    using assms by (intro sint_of_nat_small unat_of_nat_small; simp)+ simp
  have c: "\<not> (m < 2 \<or> int k < 0 \<or> int m \<le> int (Suc k))" using assms(4,5) by linarith
  have i: "i + (m - 1) = i + m - 1" "i + Suc k = i + k + 1" using assms(4) by simp_all
  show ?thesis
    unfolding encode_symbol.simps EncodeCDF_def Let_def l(1) n if_not_P [OF c] if_not_P [OF o]
    using v [of 0] v [of k] v [of "Suc k"] v [of "m - 1"] assms(4,5) by (simp add: i del: One_nat_def add_Suc_right nth_map)
qed


lemma spread_at:
  "length vs = length ls \<Longrightarrow> \<forall>l\<in>set ls. 1 \<le> l \<Longrightarrow> j < length ls \<Longrightarrow>
   0 \<le> sum_list (take j ls) \<and> at (spread ls vs) (sum_list (take j ls)) = Some (vs ! j)"
proof (induction ls vs arbitrary: j rule: spread.induct)
  case (1 l ls v vs)
  have l: "1 \<le> l" "\<forall>l\<in>set ls. 1 \<le> l" using "1.prems"(2) by simp_all
  show ?case
  proof (cases j)
    case 0
    then show ?thesis using l(1) by (simp add: at_def nth_append)
  next
    case (Suc i)
    then have "0 \<le> sum_list (take i ls) \<and> at (spread ls vs) (sum_list (take i ls)) = Some (vs ! i)"
      using "1.IH" [of i] "1.prems" l by simp
    then show ?thesis using Suc l(1) by (auto simp: at_def nth_append nat_add_distrib split: if_splits)
  qed
qed auto

lemma at_int: "i < length xs \<Longrightarrow> at xs (int i) = Some (xs ! i)"
  by (simp add: at_def)

lemma at_windows:
  assumes "a = int k" "x = int i" "k + 65 \<le> length c" "i < 64"
  shows "at c a = Some (c ! k)" "at c (a + x) = Some (c ! (k + i))" "at c (a + x + 1) = Some (c ! (k + i + 1))"
    "at c (a + 64) = Some (c ! (k + 64))"
  using at_int [of k c] at_int [of "k + i" c] at_int [of "k + i + 1" c] at_int [of "k + 64" c] assms
  by (simp_all add: add.commute)

lemma lag_wraps:
  assumes "- 1 \<le> prev" "prev < 576" "0 \<le> b" "b < 9" "64 * b \<le> v" "v < 64 * b + 64" "0 \<le> p" "p < 9"
  shows "wrap32 (- (prev - p * 64) + (b - p) * 64) = 64 * b - prev" "wrap32 (64 * b - prev + 2 * 64 - 1) = 64 * b - prev + 127"
    "wrap32 ((v - prev) - (64 * b - prev)) = v - 64 * b"
proof -
  have "- (prev - p * 64) + (b - p) * 64 = 64 * b - prev" by (simp add: algebra_simps)
  then show "wrap32 (- (prev - p * 64) + (b - p) * 64) = 64 * b - prev" using assms by (simp only: wrap32_id)
  show "wrap32 (64 * b - prev + 2 * 64 - 1) = 64 * b - prev + 127" using assms by (subst wrap32_id) linarith+
  show "wrap32 ((v - prev) - (64 * b - prev)) = v - 64 * b" using assms by (subst wrap32_id) linarith+
qed

lemma frac_symbol_written:
  assumes "window_ok w" "s < 3" "prev div 64 = p" "- 1 \<le> b - p" "b - p \<le> 2" "0 \<le> b" "b < 9" "v div 64 = b"
  defines "k \<equiv> nat (64 * b - prev + 127)" and "c \<equiv> fracCmfs w ! s"
  shows "encode_symbol (CdfSym (frac_cdf w s prev b) (nat (v - 64 * b))) e =
    Encode e (c ! (k + nat (v - 64 * b)) - c ! k) (c ! (k + nat (v - 64 * b) + 1) - c ! k) (c ! (k + 64) - c ! k)"
proof -
  note F = frac_lag_read [OF assms(3-8)]
  have "v < 64 * b + 64" using assms(8) by presburger
  then have "nat (v - 64 * b) < 64" by linarith
  then show ?thesis
    using table_written [OF window_tables(2) [OF assms(1,2)], of k 65 "nat (v - 64 * b)" e] F(5)
    by (simp add: frac_cdf_def Let_def k_def c_def add.commute)
qed

lemma segments_written:
  assumes w: "window_ok w" "c < 217" "s < 3"
    and vs: "length vs = length (fst (records w ! c))" "\<forall>k<length (fst (records w ! c)). vs ! k div 64 = fst (records w ! c) ! k"
  defines "seg \<equiv> \<lparr>Nblocks = length (fst (records w ! c)), Blocks = fst (records w ! c), Seglens = snd (records w ! c)\<rparr>"
  shows "j < length (fst (records w ! c)) \<Longrightarrow> prev div 64 = p \<Longrightarrow>
    - 1 \<le> fst (records w ! c) ! j - p \<Longrightarrow> fst (records w ! c) ! j - p \<le> 2 \<Longrightarrow> 0 \<le> p \<Longrightarrow> p < 9 \<Longrightarrow>
    write_segments e seg (spread (snd (records w ! c)) vs) (fracCmfs w ! s) [int j..int (length (fst (records w ! c))) - 1]
      (sum_list (take j (snd (records w ! c)))) p prev =
    encode_all (segment_symbols w s prev (drop j (fst (records w ! c))) (drop j vs)) e"
proof (induction "length (fst (records w ! c)) - j" arbitrary: j e prev p)
  case (Suc n)
  let ?bs = "fst (records w ! c)" and ?ls = "snd (records w ! c)"
  let ?b = "?bs ! j" and ?v = "vs ! j"
  note ok = record_of [OF w(1,2)]
  note V = record_values [OF ok Suc.prems(1)]
  have v: "?v div 64 = ?b" using vs(2) Suc.prems(1) by simp
  have vr: "64 * ?b \<le> ?v" "?v < 64 * ?b + 64" using v by presburger+
  note F = frac_lag_read [OF Suc.prems(2,3,4) V(1,2) v]
  note W = frac_symbol_written [OF w(1,3) Suc.prems(2,3,4) V(1,2) v]
  have d: "drop j ?bs = ?b # drop (Suc j) ?bs" "drop j vs = ?v # drop (Suc j) vs"
    using Suc.prems(1) vs(1) by (simp_all add: Cons_nth_drop_Suc)
  have up: "[int j..int (length ?bs) - 1] = int j # [int (Suc j)..int (length ?bs) - 1]"
    using Suc.prems(1) by (simp add: upto_rec1 add.commute)
  have l: "length (fracCmfs w ! s) = 320" using window_tables(2) [OF w(1,3)] by (simp add: wide_table_def)
  have pr: "- 1 \<le> prev" "prev < 576" using Suc.prems(2,5,6) by presburger+
  note wraps = lag_wraps [OF pr V(1,2) vr Suc.prems(5,6)]
  let ?k = "nat (64 * ?b - prev + 127)" and ?i = "nat (?v - 64 * ?b)"
  have k: "64 * ?b - prev + 127 = int ?k" "?v - 64 * ?b = int ?i" "?k + 65 \<le> length (fracCmfs w ! s)" "?i < 64"
    using F(4,5) vr l by linarith+
  note ats = at_windows [OF k]
  have sa: "at ?bs (int j) = Some ?b" "at ?ls (int j) = Some (?ls ! j)" "at (spread ?ls vs) (sum_list (take j ?ls)) = Some ?v"
    using Suc.prems(1) V(6) spread_at [OF _ record_shape(4) [OF ok], of vs j] vs(1) by (simp_all add: at_int)
  have next_ix: "sum_list (take j ?ls) + ?ls ! j = sum_list (take (Suc j) ?ls)"
    using Suc.prems(1) V(6) by (simp add: take_Suc_conv_app_nth)
  have step: "write_segments e seg (spread ?ls vs) (fracCmfs w ! s) [int j..int (length ?bs) - 1] (sum_list (take j ?ls)) p prev =
      Option.bind (encode_symbol (CdfSym (frac_cdf w s prev ?b) ?i) e) (\<lambda>e1.
        write_segments e1 seg (spread ?ls vs) (fracCmfs w ! s) [int (Suc j)..int (length ?bs) - 1] (sum_list (take (Suc j) ?ls)) ?b ?v)"
    unfolding up write_segments.simps seg_def pitchBlockSeg.simps sa bind.bind_lunit pitchBlocksize_def wraps Let_def ats W next_ix ..
  show ?case
  proof (cases "Suc j < length ?bs")
    case True
    have n: "n = length ?bs - Suc j" using Suc.hyps(2) by simp
    have t: "- 1 \<le> ?bs ! Suc j - ?b" "?bs ! Suc j - ?b \<le> 2" using record_steps [OF ok, of j] True by simp_all
    show ?thesis unfolding step Suc.hyps(1) [OF n True v t V(1,2)] d segment_symbols.simps by (simp split: option.split bind_split)
  next
    case False
    then have e: "length ?bs = Suc j" using Suc.prems(1) by simp
    then have "drop (Suc j) ?bs = []" "[int (Suc j)..int (length ?bs) - 1] = []" by simp_all
    then show ?thesis unfolding step d segment_symbols.simps by (simp split: option.split bind_split)
  qed
qed simp


lemma selector_written:
  assumes "tables_match tab w" "window_ok w" "c < 217" "lag_pred_ok blk prev"
  shows "write_selector tab e (contour_index w c + 1) (first_block w c) blk = encode_all (selector_symbols w c blk) e"
proof -
  let ?i = "contour_index w c" and ?b = "first_block w c" and ?t = "lagCdf w"
  note M = assms(1) [unfolded tables_match_def]
  note C = contour_range [OF assms(2,3)]
  note B = first_block_range [OF assms(2,3)]
  note T = window_tables(1) [OF assms(2)]
  have t: "length ?t = 218" "?t ! 0 = 0" "length (Blocksegs tab) = 217"
    using T M assms(2) by (simp_all add: wide_table_def window_ok_def)
  obtain n where n: "?i = int n" using nonneg_int_cases [OF C(1)] by blast
  have n217: "n < 217" using C(2) n by simp
  show ?thesis
  proof (cases "blk < 0")
    case True
    have "at ?t (int n + 1 - 1) = Some (?t ! n)" "at ?t (int n + 1) = Some (?t ! Suc n)" "at ?t (int 217) = Some (?t ! 217)"
      using at_int [of n ?t] at_int [of "Suc n" ?t] at_int [of 217 ?t] t(1) n217 by (simp_all add: add.commute)
    moreover have "encode_symbol (CdfSym (lag_cdf w) n) e = Encode e (?t ! n) (?t ! Suc n) (?t ! 217)"
      using table_written [OF T, of 0 218 n e] t n217 by (simp add: lag_cdf_def)
    ultimately show ?thesis
      using True M t(3) by (simp add: write_selector_def selector_symbols_def n del: encode_symbol.simps split: option.split)
  next
    case False
    then have "0 \<le> blk" "blk < 9" using assms(4) by (auto simp: lag_pred_ok_def)
    then obtain p where p: "blk = int p" "p < 9" by (metis nonneg_int_cases of_nat_less_iff of_nat_numeral)
    obtain b where b: "?b = int b" "b < 9" using B(1,2) by (metis nonneg_int_cases of_nat_less_iff of_nat_numeral)
    let ?d = "deltaCmfs w ! p" and ?u = "slice ?t"
    have d: "length (deltaCmfs w) = 9" "length ?d = 10" "?d ! 0 = 0" "wide_table ?d 10"
      using window_tables(3) [OF assms(2) p(2)] assms(2) by (auto simp: wide_table_def window_ok_def)
    note R = range_bytes(3-5) [OF assms(2) b(2)]
    obtain x where x: "fst (windowRange w ! b) = int x" using nonneg_int_cases [OF R(1)] by blast
    obtain y where y: "snd (windowRange w ! b) = int y" using nonneg_int_cases [OF order_trans [OF R(1,2)]] by blast
    have xy: "windowRange w ! b = (int x, int y)" using x y by (simp add: prod_eq_iff)
    have o: "x \<le> y" "y \<le> 216" "x \<le> n" "n \<le> y" using R x y B(3,4) b n by simp_all
    have r: "length (windowRange w) = 9" using assms(2) by (simp add: window_ok_def)
    let ?u = "slice ?t x 218"
    have u: "length ?u = 218 - x" "\<And>j. x + j < 218 \<Longrightarrow> ?u ! j = ?t ! (x + j)"
      using o t(1) by (simp_all add: slice_def)
    have A: "at (deltaCmfs w) (int p) = Some ?d" "at ?d (int b) = Some (?d ! b)" "at ?d (int b + 1) = Some (?d ! Suc b)"
      "at ?d (int pitchNumBlocks) = Some (?d ! 9)" "at (windowRange w) (int b) = Some (int x, int y)"
      "slice_at ?t (int x) (int (length ?t)) = Some ?u"
      using at_int [of p "deltaCmfs w"] at_int [of b ?d] at_int [of "Suc b" ?d] at_int [of 9 ?d] at_int [of b "windowRange w"]
        d(1,2) p(2) b(2) r xy o t(1)
      by (simp_all add: pitchNumBlocks_def add.commute slice_at_def)
    have ix: "int n + 1 - int x - 1 = int (n - x)" "int n + 1 - int x = int (n - x + 1)" "0 = int 0" "int y - int x + 1 = int (y - x + 1)"
      using o by simp_all
    have bounds: "n - x < length ?u" "n - x + 1 < length ?u" "0 < length ?u" "y - x + 1 < length ?u" using o u(1) by linarith+
    have sums: "x + (n - x) = n" "x + (n - x + 1) = n + 1" "x + (y - x + 1) = y + 1" using o by simp_all
    have U: "at ?u (int n + 1 - int x - 1) = Some (?t ! n)" "at ?u (int n + 1 - int x) = Some (?t ! (n + 1))"
      "at ?u 0 = Some (?t ! x)" "at ?u (int y - int x + 1) = Some (?t ! (y + 1))"
      unfolding ix(1,2,4) using at_int [OF bounds(1)] at_int [OF bounds(2)] at_int [OF bounds(3)] at_int [OF bounds(4)]
        u(2) [of "n - x"] u(2) [of "n - x + 1"] u(2) [of 0] u(2) [of "y - x + 1"] sums o by simp_all
    have E1: "encode_symbol (CdfSym (delta_cdf w blk) b) e = Encode e (?d ! b) (?d ! Suc b) (?d ! 9)" for e
      using table_written [OF d(4), of 0 10 b e] d(3) b(2) p(1) by (simp add: delta_cdf_def)
    have "x + (y - x + 2) = y + 2" "x + (y - x + 2) - 1 = y + 1" using o by simp_all
    then have E2: "encode_symbol (CdfSym (range_cdf w (int b)) (n - x)) e = Encode e (?t ! n - ?t ! x) (?t ! (n + 1) - ?t ! x) (?t ! (y + 1) - ?t ! x)" for e
      using table_written [OF T, of x "y - x + 2" "n - x" e] o xy by (simp add: range_cdf_def)
    have "nat (int n - int x) = n - x" by simp
    then show ?thesis
      using False M
      by (simp add: write_selector_def selector_symbols_def n b(1) p(1) A U U(1) [simplified] xy E1 [unfolded p(1)] E2
          del: encode_symbol.simps split: option.split bind_split)
  qed
qed


lemma contour_lags_written:
  assumes w: "window_ok w" "c < 217" "s < 3" and pred: "lag_pred_ok blk prev"
    and vs: "length vs = length (fst (records w ! c))" "\<forall>k<length (fst (records w ! c)). vs ! k div 64 = fst (records w ! c) ! k"
  defines "seg \<equiv> \<lparr>Nblocks = length (fst (records w ! c)), Blocks = fst (records w ! c), Seglens = snd (records w ! c)\<rparr>"
    and "laginds \<equiv> spread (snd (records w ! c)) vs" and "fine \<equiv> fine_lag blk (first_block w c)"
  shows "Option.bind
      (if fine then do {
         idx \<leftarrow> at laginds 0;
         len0 \<leftarrow> at (Seglens seg) 0;
         let idxMod = word_of_int (idx - first_block w c * pitchBlocksize)
         in do { e2 \<leftarrow> Encode e idxMod (idxMod + 1) (word_of_int pitchBlocksize); Some (e2, 1, len0, first_block w c, idx) }
       } else Some (e, 0, 0, blk, prev))
      (\<lambda>(e2, startSeg, lagindsIx, blk1, idx1).
        write_segments e2 seg laginds (fracCmfs w ! s) [startSeg..int (length (fst (records w ! c))) - 1] lagindsIx blk1 idx1) =
    encode_all (contour_lags w s blk prev (fst (records w ! c)) vs) e"
proof -
  let ?r = "records w ! c"
  note ok = record_of [OF w(1,2)]
  note R = record_shape [OF ok]
  have v0: "vs ! 0 div 64 = first_block w c" using vs(2) R(1) by (simp add: first_block_def)
  have l0: "0 < length (fst ?r)" "0 < length (snd ?r)" using R(1,2) by simp_all
  note fb = first_block_range(1,2) [OF w(1,2)]
  show ?thesis
  proof (cases fine)
    case True
    have a: "at laginds 0 = Some (vs ! 0)" "at (snd ?r) 0 = Some (snd ?r ! 0)"
      using spread_at [OF _ R(4), of vs 0] vs(1) R(2) l0(2) by (simp_all add: laginds_def at_def)
    have E: "Encode e (word_of_int (vs ! 0 - first_block w c * 64)) (word_of_int (vs ! 0 - first_block w c * 64) + 1) (word_of_int 64) =
        encode_symbol (FineSym (word_of_int (vs ! 0 - 64 * fst ?r ! 0))) e"
      by (simp add: Encode64FineSym_def first_block_def mult.commute)
    have "write_segments e2 seg laginds (fracCmfs w ! s) [1..int (length (fst ?r)) - 1] (snd ?r ! 0) (first_block w c) (vs ! 0) =
        encode_all (segment_symbols w s (vs ! 0) (tl (fst ?r)) (tl vs)) e2" for e2
    proof (cases "1 < length (fst ?r)")
      case True
      have "0 < length (fst ?r) - 1" using True by simp
      from record_steps [OF ok this] have t: "- 1 \<le> fst ?r ! 1 - first_block w c" "fst ?r ! 1 - first_block w c \<le> 2" by (simp_all add: first_block_def)
      have "sum_list (take 1 (snd ?r)) = snd ?r ! 0" using l0(2) by (cases "snd ?r") auto
      then show ?thesis
        using segments_written [OF w vs True v0 t fb, of e2] by (simp add: seg_def laginds_def drop_Suc del: upto_rec_numeral)
    next
      case False
      then have e: "length (fst ?r) = 1" using R(1) by (cases "fst ?r") auto
      then have "tl (fst ?r) = []" by (cases "fst ?r") auto
      then show ?thesis using e by simp
    qed
    then show ?thesis
      using \<open>fine\<close> a E
      by (simp add: contour_lags_def fine_def seg_def pitchBlocksize_def Let_def flip: first_block_def
          del: encode_symbol.simps upto_rec_numeral split: option.split bind_split)
  next
    case False
    then have near: "0 \<le> blk" "- 1 \<le> fst ?r ! 0 - blk" "fst ?r ! 0 - blk \<le> 2"
      by (simp_all add: fine_def fine_lag_def first_block_def)
    have p: "prev div 64 = blk" "blk < 9" using pred near(1) by (auto simp: lag_pred_ok_def)
    show ?thesis
      using segments_written [OF w vs l0(1) p(1) near(2,3,1) p(2), of e] False
      by (simp add: contour_lags_def fine_def seg_def laginds_def flip: first_block_def del: upto_rec_numeral)
  qed
qed

lemma lags_written:
  assumes "tables_match tab w" "window_ok w" "c < 217" "s < 3" "lag_pred_ok blk prev" "lags_ok (records w ! c) xs"
  shows "encodeLagsWire tab e (int c) xs blk prev (int s) = encode_all (lag_symbols w s c blk prev xs) e"
proof -
  let ?r = "records w ! c"
  let ?vs = "seg_lags (snd ?r) xs"
  note M = assms(1) [unfolded tables_match_def]
  have ok: "record_ok ?r" using record_of [OF assms(2,3)] .
  note R = record_shape [OF ok]
  have vs: "length ?vs = length (fst ?r)" "\<forall>k<length (fst ?r). ?vs ! k div 64 = fst ?r ! k" "spread (snd ?r) ?vs = xs"
    using assms(6) R(2) by (simp_all add: lags_ok_def)
  have l: "length (contourMap w) = 217" "length (records w) = 217" "length (fracCmfs w) = 3"
    using assms(2) by (simp_all add: window_ok_def)
  have a: "at (Blocksegs2idx tab) (int c) = Some (contour_index w c + 1)"
    "at (Blocksegs tab) (int c) = Some \<lparr>Nblocks = length (fst ?r), Blocks = fst ?r, Seglens = snd ?r\<rparr>"
    "at (DeltaLagCmfs tab) (int s) = Some (fracCmfs w ! s)" "at (fst ?r) 0 = Some (first_block w c)"
    using M l assms(3,4) R(1) by (simp_all add: at_int contour_index_def) (simp add: at_def first_block_def)
  have b: "- 1 \<le> blk" "blk < 9" using assms(5) by (auto simp: lag_pred_ok_def)
  have \<delta>: "wrap32 (first_block w c - blk) = first_block w c - blk"
    using b first_block_range(1,2) [OF assms(2,3)] by (simp add: wrap32_id)
  have fine: "(\<not> (- 1 < blk \<and> - 1 \<le> first_block w c - blk \<and> first_block w c - blk \<le> 2)) = fine_lag blk (first_block w c)"
    by (auto simp: fine_lag_def)
  show ?thesis
    unfolding encodeLagsWire_def a bind.bind_lunit pitchBlockSeg.simps selector_written [OF assms(1-3,5)] Let_def \<delta> fine
      lag_symbols_split encode_all_append
    using contour_lags_written [OF assms(2-5) vs(1,2), unfolded vs(3) Let_def pitchBlockSeg.simps]
    by (cases "encode_all (selector_symbols w c blk) e") simp_all
qed


lemma last_spread: "length vs = length ls \<Longrightarrow> \<forall>l\<in>set ls. 1 \<le> l \<Longrightarrow> ls \<noteq> [] \<Longrightarrow> last (spread ls vs) = last vs"
proof (induction ls vs rule: spread.induct)
  case (1 l ls v vs)
  have l: "nat l \<noteq> 0" using 1(3) by simp
  show ?case
  proof (cases ls)
    case Nil
    then show ?thesis using l 1(2) by simp
  next
    case (Cons a b)
    then obtain x y where "vs = x # y" using 1(2) by (cases vs) auto
    moreover have "spread ls vs \<noteq> []" using 1(3) Cons calculation by simp
    ultimately show ?thesis using 1 Cons by simp
  qed
qed auto

text \<open>The encoder keeps the lag predictor in its own two fields.\<close>

definition same_predictors :: "SmplLsfState \<Rightarrow> SmplLsfState \<Rightarrow> bool" where
  "same_predictors d e \<longleftrightarrow> PrevGainIdx d = PrevGainIdx e \<and> PrevFiltIdx d = PrevFiltIdx e \<and>
     PrevLag d = PrevLagblk e \<and> PrevFracLag d = PrevLagidx e"

lemma pitch_written:
  assumes "tables_ok cc" "tables_match tab w" "window_ok w" "pitch_params_ok w low cs pp"
    "ltp_pred_ok (PrevGainIdx sd) (PrevFiltIdx sd)" "lag_pred_ok (PrevLag sd) (PrevFracLag sd)" "same_predictors sd se"
  shows "\<exists>se'. (\<forall>e. encodeSmplPitch e cc tab se 320 (rate_p3 low) (rate_p6 low) cs pp =
      map_option (Pair se') (encode_all (pitch_symbols cc w low cs sd pp) e)) \<and>
    same_predictors (pitch_after w low cs sd pp) se' \<and> PrevStage1 se' = PrevStage1 se"
proof -
  let ?c = "nat (BlocksegIdx pp)" and ?s = "pitch_mode cc low pp" and ?ks = "[0..<nat (rate_p3 low)]"
  let ?r = "records w ! ?c"
  let ?vs = "seg_lags (snd ?r) (Laginds pp)"
  let ?e = "ltp_end cs (GainIdx pp) (FiltIdx pp) ?ks (PrevGainIdx sd) (PrevFiltIdx sd)"
  have sp: "PrevGainIdx se = PrevGainIdx sd" "PrevFiltIdx se = PrevFiltIdx sd" "PrevLagblk se = PrevLag sd" "PrevLagidx se = PrevFracLag sd"
    using assms(7) by (simp_all add: same_predictors_def)
  have P: "?c < 217" "lags_ok ?r (Laginds pp)" "\<forall>k\<in>set ?ks. ltp_ok cs (GainIdx pp) (FiltIdx pp) k" "BlocksegIdx pp = int ?c"
    using assms(4) rate_nat(1) [of low] by (auto simp: pitch_params_ok_def)
  have pred: "ltp_pred_ok (PrevGainIdx se) (PrevFiltIdx se)" using assms(5) sp by simp
  note L = ltp_written [OF assms(1) P(3) pred, unfolded sp]
  have m: "seg_sel (ltp_gain cc (rate_p6 low) (GainIdx pp) ?ks 0 sdiv rate_p3 low) = int ?s"
    using seg_sel_range(1) by (simp add: pitch_mode_def)
  have ok: "record_ok ?r" using record_of [OF assms(3) P(1)] .
  note R = record_shape [OF ok]
  have vs: "length ?vs = length (fst ?r)" "spread (snd ?r) ?vs = Laginds pp" using P(2) R(2) by (simp_all add: lags_ok_def)
  have last8: "at (Laginds pp) 7 = Some (last ?vs)"
  proof -
    have z: "\<forall>l\<in>set (snd ?r). 0 \<le> l" using R(4) by auto
    have l8: "length (Laginds pp) = 8" using length_spread [OF _ z, of ?vs] vs R(5) by simp
    have "snd ?r \<noteq> []" using R(1,2) by auto
    from last_spread [OF _ R(4) this, of ?vs] have "last (Laginds pp) = last ?vs" using vs R(2) by simp
    moreover have "Laginds pp \<noteq> []" using l8 by auto
    ultimately show ?thesis using l8 by (simp add: at_def last_conv_nth)
  qed
  have after: "smplLagsPredictorAfter tab (BlocksegIdx pp) (Laginds pp) = Some (last (fst ?r), last ?vs)"
  proof -
    have "length (records w) = 217" using assms(3) by (simp add: window_ok_def)
    then have "at (Blocksegs tab) (int ?c) = Some \<lparr>Nblocks = length (fst ?r), Blocks = fst ?r, Seglens = snd ?r\<rparr>"
      using assms(2) P(1) at_int [of ?c "Blocksegs tab"] by (simp add: tables_match_def del: int_nat_eq)
    then have "at (Blocksegs tab) (BlocksegIdx pp) = Some \<lparr>Nblocks = length (fst ?r), Blocks = fst ?r, Seglens = snd ?r\<rparr>"
      by (simp only: P(4) [symmetric])
    moreover have "at (fst ?r) (int (length (fst ?r)) - 1) = Some (last (fst ?r))"
    proof -
      have e: "int (length (fst ?r)) - 1 = int (length (fst ?r) - 1)" using R(1) by (cases "fst ?r") simp_all
      have "length (fst ?r) - 1 < length (fst ?r)" using R(1) by simp
      from at_int [OF this] show ?thesis unfolding e last_conv_nth [OF R(1)] .
    qed
    ultimately show ?thesis using last8 by (simp add: smplLagsPredictorAfter_def NumSubframes_def)
  qed
  note W = lags_written [OF assms(2,3) P(1) pitch_mode_range assms(6) P(2), folded P(4)]
  have p3: "rate_p3 low \<noteq> 0" by (simp add: rate_p3_def)
  define se' where "se' = se\<lparr>PrevGainIdx := fst ?e, PrevFiltIdx := snd ?e, PrevLagblk := last (fst ?r), PrevLagidx := last ?vs\<rparr>"
  have "encodeSmplPitch e cc tab se 320 (rate_p3 low) (rate_p6 low) cs pp =
      map_option (Pair se') (encode_all (pitch_symbols cc w low cs sd pp) e)" for e
    unfolding encodeSmplPitch_def subframes_rate L pitch_symbols_def encode_all_append
    using p3 by (simp add: m W sp after se'_def split: option.split bind_split)
  moreover have "same_predictors (pitch_after w low cs sd pp) se'"
    by (simp add: same_predictors_def pitch_after_def se'_def Let_def split_beta)
  moreover have "PrevStage1 se' = PrevStage1 se" by (simp add: se'_def)
  ultimately show ?thesis by blast
qed

end
