(* ===== verification/MlowFraming.thy ===== *)
theory MlowFraming
  imports Prelude "HOL-Library.Sublist"
begin

text \<open>
  mlow/toc.go, mlow/red.go and the routing of mlow/decoder.go: the framing of MLow payloads.  Offsets and
  lengths are natural numbers, an index or slice out of range (a panic) is \<open>None\<close>.  What an active frame
  decodes to is not part of this theory: decoding yields, per frame, silence of some length or the active
  frame with the length asked for.
\<close>

section \<open>The table of contents\<close>

record SmplTOC =
  StdOpus :: bool
  SID :: bool
  VAD :: bool
  tocSampleRate :: nat
  FrameMs :: nat
  Voiced :: bool
  tocActive :: bool
  Flag2 :: bool
  Flag0 :: bool

definition standardOpusFrameMs :: "u8 \<Rightarrow> nat" where
  "standardOpusFrameMs b =
     (let config = unat (drop_bit 3 b)
      in if config < 12 then [10, 20, 40, 60] ! (config mod 4)
         else if config < 16 then [10, 20] ! ((config - 12) mod 2)
         else if config mod 4 = 0 then 3
         else if config mod 4 = 1 then 5
         else if config mod 4 = 2 then 10
         else 20)"

definition ParseSmplTOC :: "u8 \<Rightarrow> SmplTOC" where
  "ParseSmplTOC b =
     (if b AND 0xC0 = 0xC0 then
        \<lparr>StdOpus = True, SID = False, VAD = False, tocSampleRate = 16000, FrameMs = standardOpusFrameMs b,
         Voiced = False, tocActive = False, Flag2 = False, Flag0 = False\<rparr>
      else
        let bit1 = (drop_bit 1 b AND 1 \<noteq> 0); vad = (drop_bit 6 b AND 1 \<noteq> 0)
        in \<lparr>StdOpus = False, SID = (drop_bit 7 b \<noteq> 0), VAD = vad,
            tocSampleRate = (if b AND 0x20 \<noteq> 0 then 32000 else 16000),
            FrameMs = [10, 20, 60, 120] ! unat (drop_bit 3 b AND 3),
            Voiced = (vad \<and> bit1), tocActive = (vad \<or> bit1),
            Flag2 = (drop_bit 2 b AND 1 \<noteq> 0), Flag0 = (b AND 1 \<noteq> 0)\<rparr>)"

section \<open>Redundancy\<close>

record MlowFrame =
  frameData :: bytes
  TimeCode :: u8
  IsMain :: bool

datatype red_error = ErrPktSizeZero | ErrHeaderTooShort | ErrRedundantTooShort | ErrMainTooShort

definition index :: "'a list \<Rightarrow> nat \<Rightarrow> 'a option" where
  "index xs i = (if i < length xs then Some (xs ! i) else None)"

definition slice_in :: "'a list \<Rightarrow> nat \<Rightarrow> nat \<Rightarrow> 'a list option" where
  "slice_in xs a b = (if a \<le> b \<and> b \<le> length xs then Some (slice xs a b) else None)"

text \<open>The run of headers: codes and sizes of the redundant blocks, the offset and what remains.\<close>

function red_headers :: "bytes \<Rightarrow> nat \<Rightarrow> nat \<Rightarrow> (red_error + (u8 \<times> nat) list \<times> nat \<times> nat) option" where
  "red_headers p cur rem =
     (if rem = 0 then Some (Inl ErrHeaderTooShort)
      else case index p cur of
        None \<Rightarrow> None
      | Some b0 \<Rightarrow>
          if b0 < 0x80 then Some (if rem \<le> 1 then Inl ErrMainTooShort else Inr ([], cur, rem))
          else if rem \<le> 2 then Some (Inl ErrRedundantTooShort)
          else case index p (cur + 1) of
            None \<Rightarrow> None
          | Some s \<Rightarrow>
              let size' = unat s
              in if rem \<le> size' + 2 then Some (Inl ErrRedundantTooShort)
                 else map_option (map_sum id (\<lambda>(red, c, r). ((b0 AND 0x7f, size') # red, c, r)))
                        (red_headers p (cur + 2) (rem - (size' + 2))))"
  by pat_completeness auto
termination
  by (relation "measure (\<lambda>(p, cur, rem). rem)") auto

fun red_blocks :: "bytes \<Rightarrow> nat \<Rightarrow> (u8 \<times> nat) list \<Rightarrow> (MlowFrame list \<times> nat) option" where
  "red_blocks p cur [] = Some ([], cur)"
| "red_blocks p cur ((code, size') # red) =
     (case slice_in p cur (cur + size') of
        None \<Rightarrow> None
      | Some dat \<Rightarrow>
          map_option (\<lambda>(fs, c). (\<lparr>frameData = dat, TimeCode = code, IsMain = False\<rparr> # fs, c))
            (red_blocks p (cur + size') red))"

definition DepackSplitRed :: "bytes \<Rightarrow> (red_error + MlowFrame list) option" where
  "DepackSplitRed p =
     (if p = [] then Some (Inl ErrPktSizeZero)
      else case red_headers p 0 (length p) of
        None \<Rightarrow> None
      | Some (Inl e) \<Rightarrow> Some (Inl e)
      | Some (Inr (red, cur, rem)) \<Rightarrow>
          (case index p cur of
             None \<Rightarrow> None
           | Some b \<Rightarrow>
               (case red_blocks p (cur + 1) red of
                  None \<Rightarrow> None
                | Some (frames, c) \<Rightarrow>
                    (case slice_in p c (c + (rem - 1)) of
                       None \<Rightarrow> None
                     | Some dat \<Rightarrow>
                         Some (Inr (frames @ [\<lparr>frameData = dat, TimeCode = b AND 0x7f, IsMain = True\<rparr>]))))))"

section \<open>The container\<close>

fun container_frames :: "bytes \<Rightarrow> nat \<Rightarrow> nat \<Rightarrow> bytes list option" where
  "container_frames p off 0 = (if length p \<le> off then None else Some [drop off p])"
| "container_frames p off (Suc n) =
     (if length p \<le> off then None
      else
        let flen = unat (p ! off)
        in if length p < off + 1 + flen then None
           else map_option ((#) (slice p (off + 1) (off + 1 + flen))) (container_frames p (off + 1 + flen) n))"

definition splitContainer :: "bytes \<Rightarrow> bytes list option" where
  "splitContainer p =
     (if length p < 3 \<or> p ! 0 \<noteq> 0x92 then None
      else
        let count = unat (p ! 1)
        in if count < 2 \<or> 8 < count then None else container_frames p 2 (count - 1))"

section \<open>Routing\<close>

definition opusFrameSamps :: nat where "opusFrameSamps = 960"

datatype segment = Silence nat | ActiveFrame bytes nat

record MlowDecoder =
  redundancy :: int
  droppedUnsupported :: u32

definition decodeFrame :: "MlowDecoder \<Rightarrow> bytes \<Rightarrow> segment \<times> MlowDecoder" where
  "decodeFrame d frame =
     (if frame = [] then (Silence opusFrameSamps, d)
      else
        let toc = ParseSmplTOC (frame ! 0);
            outLen = (if StdOpus toc then 16000 div 1000 * FrameMs toc else tocSampleRate toc div 1000 * FrameMs toc)
        in if StdOpus toc then (Silence outLen, d)
           else if SID toc \<or> \<not> tocActive toc then (Silence outLen, d)
           else if tocSampleRate toc \<noteq> 16000 \<or> FrameMs toc \<noteq> 60 then
             (Silence opusFrameSamps, d\<lparr>droppedUnsupported := droppedUnsupported d + 1\<rparr>)
           else (ActiveFrame frame outLen, d))"

fun decode_frames :: "MlowDecoder \<Rightarrow> bytes list \<Rightarrow> segment list \<times> MlowDecoder" where
  "decode_frames d [] = ([], d)"
| "decode_frames d (f # fs) =
     (let (s, d1) = decodeFrame d f; (ss, d2) = decode_frames d1 fs in (s # ss, d2))"

definition mlow_Decode :: "MlowDecoder \<Rightarrow> bytes \<Rightarrow> (segment list \<times> MlowDecoder) option" where
  "mlow_Decode d payload =
     (if payload = [] then Some ([Silence opusFrameSamps], d)
      else case splitContainer payload of
        Some subs \<Rightarrow> Some (decode_frames d subs)
      | None \<Rightarrow>
          if 0 < redundancy d then
            (case DepackSplitRed payload of
               None \<Rightarrow> None
             | Some (Inl e) \<Rightarrow> Some ([Silence opusFrameSamps], d)
             | Some (Inr frames) \<Rightarrow>
                 Some (decode_frames d [if frames = [] then [] else frameData (last frames)]))
          else Some (decode_frames d [payload]))"

declare red_headers.simps [simp del]

section \<open>Redundant payloads\<close>

definition red_header :: "u8 \<times> nat \<Rightarrow> bytes" where
  "red_header b = [0x80 OR fst b, of_nat (snd b)]"

definition red_pack :: "MlowFrame list \<Rightarrow> bytes" where
  "red_pack fs = concat (map (\<lambda>f. red_header (TimeCode f, length (frameData f))) (butlast fs)) @
     [TimeCode (last fs)] @ concat (map frameData fs)"

definition red_valid :: "MlowFrame list \<Rightarrow> bool" where
  "red_valid fs \<longleftrightarrow> fs \<noteq> [] \<and> (\<forall>f\<in>set fs. TimeCode f < 0x80) \<and>
     (\<forall>f\<in>set (butlast fs). \<not> IsMain f \<and> length (frameData f) < 256) \<and> IsMain (last fs) \<and> frameData (last fs) \<noteq> []"

definition blocks_size :: "(u8 \<times> nat) list \<Rightarrow> nat" where
  "blocks_size red = sum_list (map snd red)"

lemma blocks_size_simps [simp]: "blocks_size [] = 0" "blocks_size (b # red) = snd b + blocks_size red"
  by (simp_all add: blocks_size_def)

lemma high_bit: "\<not> b < 0x80 \<Longrightarrow> 0x80 OR (b AND 0x7f) = (b :: u8)" "(b AND 0x7f :: u8) < 0x80"
proof -
  have "bit b 7" if "\<not> b < 0x80"
  proof -
    have "128 \<le> unat b" using that by (simp add: word_less_nat_alt)
    moreover have "unat b < 256" using unsigned_less [of b, where ?'a = nat] by simp
    ultimately have "unat b div 2 ^ 7 = 1" by (intro div_nat_eqI) simp_all
    then have "bit (unat b) 7" by (simp add: bit_iff_odd)
    then show ?thesis by (simp add: bit_unsigned_iff)
  qed
  then show "\<not> b < 0x80 \<Longrightarrow> 0x80 OR (b AND 0x7f) = b"
    by (intro bit_word_eqI) (auto simp: bit_simps mask_7f less_Suc_eq numeral_eq_Suc)
  show "(b AND 0x7f :: u8) < 0x80"
    by (simp add: mask_7f word_less_nat_alt unsigned_take_bit_eq flip: take_bit_eq_mask) (simp add: take_bit_eq_mod)
qed

lemma red_headers_sound:
  "cur + rem \<le> length p \<Longrightarrow> \<exists>x. red_headers p cur rem = Some x \<and> (\<forall>red c r. x = Inr (red, c, r) \<longrightarrow>
    c = cur + 2 * length red \<and> rem = r + 2 * length red + blocks_size red \<and> 2 \<le> r \<and> p ! c < 0x80 \<and>
    drop cur p = concat (map red_header red) @ drop c p \<and> (\<forall>b\<in>set red. fst b < 0x80 \<and> snd b < 256))"
proof (induction p cur rem rule: red_headers.induct)
  case (1 p cur rem)
  show ?case
  proof (cases "rem = 0 \<or> p ! cur < 0x80 \<or> rem \<le> 2 \<or> rem \<le> unat (p ! (cur + 1)) + 2")
    case True
    then show ?thesis using 1(2) by (subst red_headers.simps) (auto simp: index_def)
  next
    case False
    let ?s = "unat (p ! (cur + 1))"
    have ix: "index p cur = Some (p ! cur)" "index p (cur + 1) = Some (p ! (cur + 1))"
      using False 1(2) by (simp_all add: index_def)
    have le: "cur + 2 + (rem - (?s + 2)) \<le> length p" using False 1(2) by linarith
    obtain x where x: "red_headers p (cur + 2) (rem - (?s + 2)) = Some x" "\<forall>red c r. x = Inr (red, c, r) \<longrightarrow>
        c = cur + 2 + 2 * length red \<and> rem - (?s + 2) = r + 2 * length red + blocks_size red \<and> 2 \<le> r \<and> p ! c < 0x80 \<and>
        drop (cur + 2) p = concat (map red_header red) @ drop c p \<and> (\<forall>b\<in>set red. fst b < 0x80 \<and> snd b < 256)"
      using 1(1) [OF _ ix(1) _ _ ix(2) refl _ le] False by auto
    have s: "?s < 256" using unsigned_less [of "p ! (cur + 1)", where ?'a = nat] by simp
    have "drop cur p = p ! cur # p ! (cur + 1) # drop (cur + 2) p"
      using False 1(2) by (simp add: Cons_nth_drop_Suc numeral_2_eq_2)
    then have "drop cur p = red_header (p ! cur AND 0x7f, ?s) @ drop (cur + 2) p"
      using False by (simp add: red_header_def high_bit)
    then show ?thesis
      using x s False high_bit(2) ix by (subst red_headers.simps) (auto simp: Let_def map_sum_def split: sum.splits)
  qed
qed

lemma red_headers_pack:
  "drop cur p = concat (map red_header red) @ b # rest \<Longrightarrow> b < 0x80 \<Longrightarrow> \<forall>b\<in>set red. fst b < 0x80 \<and> snd b < 256 \<Longrightarrow>
   2 \<le> r \<Longrightarrow> red_headers p cur (r + 2 * length red + blocks_size red) = Some (Inr (red, cur + 2 * length red, r))"
proof (induction red arbitrary: cur)
  case Nil
  then have "index p cur = Some b"
    by (auto simp: index_def nth_via_drop dest: arg_cong [of _ _ length])
  then show ?case using Nil by (subst red_headers.simps) simp
next
  case (Cons h red)
  obtain c s where h: "h = (c, s)" by force
  have ok: "c < 0x80" "s < 256" using Cons.prems(3) h by auto
  have d: "drop cur p = (0x80 OR c) # of_nat s # concat (map red_header red) @ b # rest"
    using Cons.prems(1) h by (simp add: red_header_def [of "(c, s)"])
  then have ix: "index p cur = Some (0x80 OR c)" "index p (cur + 1) = Some (of_nat s)"
    using nth_drop [of cur p 1] by (auto simp: index_def nth_via_drop dest: arg_cong [of _ _ length])
  have "drop (cur + 2) p = drop 2 (drop cur p)" by (simp add: add.commute)
  then have "drop (cur + 2) p = concat (map red_header red) @ b # rest" by (simp add: d)
  then have IH: "red_headers p (cur + 2) (r + 2 * length red + blocks_size red) = Some (Inr (red, cur + 2 + 2 * length red, r))"
    using Cons by simp
  have "\<not> (0x80 OR c :: u8) < 0x80" using cont_bit_ge_80 [of c] by (simp add: or.commute)
  moreover have "(0x80 OR c) AND 0x7f = c"
    using ok(1) by (intro word_unat_eq_iff [THEN iffD2])
      (simp add: mask_7f word_less_nat_alt unsigned_take_bit_eq unsigned_or_eq take_bit_nat_eq_self flip: take_bit_eq_mask)
  moreover have "unat (of_nat s :: u8) = s" using ok(2) by (simp add: unat_of_nat)
  ultimately show ?case
    using h ix IH Cons.prems(4) by (subst red_headers.simps) (simp add: Let_def add.assoc)
qed

lemma red_blocks_sound:
  "cur + blocks_size red \<le> length p \<Longrightarrow> \<exists>fs. red_blocks p cur red = Some (fs, cur + blocks_size red) \<and>
    map (\<lambda>f. (TimeCode f, length (frameData f))) fs = red \<and> (\<forall>f\<in>set fs. \<not> IsMain f) \<and>
    drop cur p = concat (map frameData fs) @ drop (cur + blocks_size red) p"
proof (induction red arbitrary: cur)
  case (Cons b red)
  obtain c s where b: "b = (c, s)" by force
  obtain fs where fs: "red_blocks p (cur + s) red = Some (fs, cur + s + blocks_size red)"
      "map (\<lambda>f. (TimeCode f, length (frameData f))) fs = red" "\<forall>f\<in>set fs. \<not> IsMain f"
      "drop (cur + s) p = concat (map frameData fs) @ drop (cur + s + blocks_size red) p"
    using Cons.IH [of "cur + s"] Cons.prems b by (auto simp: add.assoc)
  have "slice_in p cur (cur + s) = Some (slice p cur (cur + s))" using Cons.prems b by (simp add: slice_in_def)
  moreover have "drop cur p = slice p cur (cur + s) @ drop (cur + s) p"
    by (simp add: slice_def) (metis add.commute append_take_drop_id drop_drop)
  ultimately show ?case
    using fs b Cons.prems by (intro exI [of _ "\<lparr>frameData = slice p cur (cur + s), TimeCode = c, IsMain = False\<rparr> # fs"])
      (simp add: add.assoc)
qed simp

lemma red_blocks_pack:
  assumes "drop cur p = concat (map frameData fs) @ rest" "\<forall>f\<in>set fs. \<not> IsMain f" "cur \<le> length p"
  shows "red_blocks p cur (map (\<lambda>f. (TimeCode f, length (frameData f))) fs) = Some (fs, cur + length (concat (map frameData fs)))"
  using assms
proof (induction fs arbitrary: cur)
  case (Cons f fs)
  have d: "drop cur p = frameData f @ concat (map frameData fs) @ rest" using Cons.prems(1) by simp
  then have "length p - cur = length (frameData f) + length (concat (map frameData fs) @ rest)"
    by (metis length_append length_drop)
  then have "cur + length (frameData f) \<le> length p" using Cons.prems(3) by linarith
  then have "slice_in p cur (cur + length (frameData f)) = Some (frameData f)"
    using d by (simp add: slice_in_def slice_def)
  moreover have me: "\<lparr>frameData = frameData f, TimeCode = TimeCode f, IsMain = False\<rparr> = f"
    using Cons.prems(2) by (cases f) simp
  moreover have "drop (cur + length (frameData f)) p = drop (length (frameData f)) (drop cur p)"
    by (simp add: add.commute)
  then have "drop (cur + length (frameData f)) p = concat (map frameData fs) @ rest" by (simp add: d)
  ultimately show ?case
    using Cons.IH [of "cur + length (frameData f)"] Cons.prems(2) \<open>cur + length (frameData f) \<le> length p\<close> me
    by (simp add: add.assoc del: length_concat)
qed simp

lemma valid_split:
  "red_valid fs \<Longrightarrow> \<exists>gs g. fs = gs @ [g] \<and> (\<forall>f\<in>set gs. \<not> IsMain f \<and> TimeCode f < 0x80 \<and> length (frameData f) < 256) \<and>
    IsMain g \<and> TimeCode g < 0x80 \<and> frameData g \<noteq> []"
  unfolding red_valid_def by (rule exI [of _ "butlast fs"], rule exI [of _ "last fs"]) (auto dest: in_set_butlastD)

lemma DepackSplitRed_pack:
  assumes "red_valid fs"
  shows "DepackSplitRed (red_pack fs) = Some (Inr fs)"
proof -
  obtain gs g where fs: "fs = gs @ [g]" "\<forall>f\<in>set gs. \<not> IsMain f \<and> TimeCode f < 0x80 \<and> length (frameData f) < 256"
      "IsMain g" "TimeCode g < 0x80" "frameData g \<noteq> []" using valid_split [OF assms] by blast
  define red where "red = map (\<lambda>f. (TimeCode f, length (frameData f))) gs"
  define p where "p = concat (map red_header red) @ TimeCode g # concat (map frameData gs) @ frameData g"
  define r where "r = length (frameData g) + 1"
  have p: "red_pack fs = p" by (simp add: red_pack_def p_def fs red_def comp_def)
  have hl: "length (concat (map red_header red)) = 2 * length red" for red
    by (induction red) (simp_all add: red_header_def)
  have size': "blocks_size red = length (concat (map frameData gs))"
    by (simp add: red_def blocks_size_def length_concat comp_def)
  have len: "length p = r + 2 * length red + blocks_size red"
    by (simp add: p_def hl size' r_def del: length_concat)
  have "red_headers p 0 (r + 2 * length red + blocks_size red) = Some (Inr (red, 0 + 2 * length red, r))"
    using fs by (intro red_headers_pack [where rest = "concat (map frameData gs) @ frameData g"])
      (auto simp: p_def red_def r_def Suc_le_eq)
  moreover have ix: "index p (2 * length red) = Some (TimeCode g)"
    using nth_append_length [of "concat (map red_header red)" "TimeCode g" "concat (map frameData gs) @ frameData g", unfolded hl] len
    by (simp add: index_def r_def p_def)
  moreover have d1: "drop (2 * length red + 1) p = concat (map frameData gs) @ frameData g"
    using hl [of red] by (simp add: p_def del: length_concat)
  then have "red_blocks p (2 * length red + 1) red = Some (gs, 2 * length red + 1 + blocks_size red)"
    using red_blocks_pack [of "2 * length red + 1" p gs "frameData g"] fs(2) len
    by (simp add: size' r_def del: length_concat flip: red_def)
  moreover have "drop (2 * length red + 1 + blocks_size red) p = drop (blocks_size red) (drop (2 * length red + 1) p)"
    by (simp add: add.commute)
  then have "drop (2 * length red + 1 + blocks_size red) p = frameData g" by (simp only: d1) (simp add: size' del: length_concat)
  then have "slice_in p (2 * length red + 1 + blocks_size red) (2 * length red + 1 + blocks_size red + (r - 1)) = Some (frameData g)"
    using len by (simp add: slice_in_def slice_def r_def)
  moreover have "TimeCode g AND 0x7f = TimeCode g"
    using fs(4) by (intro word_unat_eq_iff [THEN iffD2])
      (simp add: mask_7f word_less_nat_alt unsigned_take_bit_eq take_bit_nat_eq_self flip: take_bit_eq_mask)
  moreover have "p \<noteq> []" by (simp add: p_def)
  ultimately show ?thesis
    unfolding p using fs(1,3) by (simp add: DepackSplitRed_def len)
qed

lemma DepackSplitRed_sound:
  "\<exists>x. DepackSplitRed p = Some x \<and> (\<forall>fs. x = Inr fs \<longrightarrow> red_valid fs \<and> p = red_pack fs)"
proof (cases "p = []")
  case True
  then show ?thesis by (simp add: DepackSplitRed_def)
next
  case False
  obtain x where x: "red_headers p 0 (length p) = Some x" "\<forall>red c r. x = Inr (red, c, r) \<longrightarrow>
      c = 2 * length red \<and> length p = r + 2 * length red + blocks_size red \<and> 2 \<le> r \<and> p ! c < 0x80 \<and>
      p = concat (map red_header red) @ drop c p \<and> (\<forall>b\<in>set red. fst b < 0x80 \<and> snd b < 256)"
    using red_headers_sound [of 0 "length p" p] by auto
  show ?thesis
  proof (cases x)
    case (Inl e)
    then show ?thesis using x False by (simp add: DepackSplitRed_def)
  next
    case (Inr y)
    obtain red c r where y: "y = (red, c, r)" by (rule prod_cases3)
    then have h: "c = 2 * length red" "length p = r + 2 * length red + blocks_size red" "2 \<le> r" "p ! c < 0x80"
        "p = concat (map red_header red) @ drop c p" "\<forall>b\<in>set red. fst b < 0x80 \<and> snd b < 256"
      using x(2) Inr by blast+
    have ix: "index p c = Some (p ! c)" using h(1-3) by (simp add: index_def)
    obtain fs where fs: "red_blocks p (c + 1) red = Some (fs, c + 1 + blocks_size red)"
        "map (\<lambda>f. (TimeCode f, length (frameData f))) fs = red" "\<forall>f\<in>set fs. \<not> IsMain f"
        "drop (c + 1) p = concat (map frameData fs) @ drop (c + 1 + blocks_size red) p"
      using red_blocks_sound [of "c + 1" red p] h(1-3) by auto
    let ?d = "drop (c + 1 + blocks_size red) p"
    let ?g = "\<lparr>frameData = ?d, TimeCode = p ! c AND 0x7f, IsMain = True\<rparr>"
    have l: "length ?d = r - 1" using h(1-3) by simp
    then have "slice_in p (c + 1 + blocks_size red) (c + 1 + blocks_size red + (r - 1)) = Some ?d"
      using h(1-3) by (simp add: slice_in_def slice_def)
    then have run: "DepackSplitRed p = Some (Inr (fs @ [?g]))"
      using False x(1) Inr y ix fs(1) by (simp add: DepackSplitRed_def)
    have code: "p ! c AND 0x7f = p ! c"
      using h(4) by (intro word_unat_eq_iff [THEN iffD2])
        (simp add: mask_7f word_less_nat_alt unsigned_take_bit_eq take_bit_nat_eq_self flip: take_bit_eq_mask)
    have "drop c p = p ! c # drop (c + 1) p" using h(1-3) by (simp add: Cons_nth_drop_Suc)
    then have "p = concat (map red_header red) @ (p ! c AND 0x7f) # concat (map frameData fs) @ ?d"
      using h(5) fs(4) code by simp
    also have "\<dots> = red_pack (fs @ [?g])"
      unfolding fs(2) [symmetric] by (simp add: red_pack_def comp_def)
    finally have "p = red_pack (fs @ [?g])" .
    moreover have "red_valid (fs @ [?g])"
      using fs(2,3) h(4,6) l h(3) code by (auto simp: red_valid_def)
    ultimately show ?thesis using run by auto
  qed
qed

text \<open>C11: splitting a redundant payload never reads out of bounds, and it succeeds exactly on the packings: the headers of the redundant blocks, the main header, the blocks and a non-empty main frame, in that order, with nothing left over.\<close>

theorem DepackSplitRed_exact:
  "DepackSplitRed p \<noteq> None \<and> (DepackSplitRed p = Some (Inr fs) \<longleftrightarrow> red_valid fs \<and> p = red_pack fs)"
  using DepackSplitRed_sound [of p] DepackSplitRed_pack [of fs] by auto

section \<open>Containers\<close>

definition container :: "bytes list \<Rightarrow> bytes" where
  "container fs = [0x92, of_nat (length fs)] @ concat (map (\<lambda>f. of_nat (length f) # f) (butlast fs)) @ last fs"

definition container_valid :: "bytes list \<Rightarrow> bool" where
  "container_valid fs \<longleftrightarrow> 2 \<le> length fs \<and> length fs \<le> 8 \<and> (\<forall>f\<in>set (butlast fs). length f < 256) \<and> last fs \<noteq> []"

lemma container_frames_iff:
  "off \<le> length p \<Longrightarrow> container_frames p off n = Some fs \<longleftrightarrow> length fs = Suc n \<and> (\<forall>f\<in>set (butlast fs). length f < 256) \<and>
     last fs \<noteq> [] \<and> drop off p = concat (map (\<lambda>f. of_nat (length f) # f) (butlast fs)) @ last fs"
proof (induction n arbitrary: off fs)
  case 0
  show ?case
    by (cases fs; cases "tl fs") auto
next
  case (Suc n)
  show ?case
  proof (cases "length p \<le> off")
    case True
    then have "drop off p = []" by simp
    then show ?thesis using True by (cases fs) (auto split: if_splits)
  next
    case False
    let ?l = "unat (p ! off)"
    have d: "drop off p = p ! off # drop (off + 1) p" using False by (simp add: Cons_nth_drop_Suc)
    have l: "?l < 256" using unsigned_less [of "p ! off", where ?'a = nat] by simp
    show ?thesis
    proof (cases "length p < off + 1 + ?l")
      case True
      have "False" if T: "length fs = Suc (Suc n)" "\<forall>f\<in>set (butlast fs). length f < 256"
          "drop off p = concat (map (\<lambda>f. of_nat (length f) # f) (butlast fs)) @ last fs"
      proof -
        obtain f gs where f: "fs = f # gs" "gs \<noteq> []" using T(1) by (cases fs; cases "tl fs") auto
        then have "p ! off = of_nat (length f)" "drop (off + 1) p = f @ concat (map (\<lambda>f. of_nat (length f) # f) (butlast gs)) @ last gs"
          using T(3) d f by auto
        moreover from this have "?l = length f" using T(2) f by (simp add: unat_of_nat)
        moreover have "length f \<le> length p - (off + 1)" using arg_cong [OF calculation(2), of length] by simp
        ultimately show False using True \<open>\<not> length p \<le> off\<close> by linarith
      qed
      then show ?thesis using True False by auto
    next
      case ok: False
      let ?f = "slice p (off + 1) (off + 1 + ?l)"
      have "drop (off + 1 + ?l) p = drop ?l (drop (off + 1) p)" by (simp only: drop_drop add.commute)
      then have f: "length ?f = ?l" "drop (off + 1) p = ?f @ drop (off + 1 + ?l) p"
        using ok by (simp_all only: slice_def append_take_drop_id add_diff_cancel_left') simp
      have IH: "container_frames p (off + 1 + ?l) n = Some gs \<longleftrightarrow> length gs = Suc n \<and> (\<forall>f\<in>set (butlast gs). length f < 256) \<and>
          last gs \<noteq> [] \<and> drop (off + 1 + ?l) p = concat (map (\<lambda>f. of_nat (length f) # f) (butlast gs)) @ last gs" for gs
        using ok by (intro Suc.IH) simp
      have "container_frames p off (Suc n) = map_option ((#) ?f) (container_frames p (off + 1 + ?l) n)"
        using False ok by (simp add: Let_def)
      then have "container_frames p off (Suc n) = Some fs \<longleftrightarrow>
          (\<exists>gs. fs = ?f # gs \<and> container_frames p (off + 1 + ?l) n = Some gs)" by auto
      also have "\<dots> \<longleftrightarrow> length fs = Suc (Suc n) \<and> (\<forall>f\<in>set (butlast fs). length f < 256) \<and> last fs \<noteq> [] \<and>
          drop off p = concat (map (\<lambda>f. of_nat (length f) # f) (butlast fs)) @ last fs" (is "?L \<longleftrightarrow> ?R")
      proof
        assume ?L
        then obtain gs where g: "fs = ?f # gs" "container_frames p (off + 1 + ?l) n = Some gs" by blast
        then have G: "length gs = Suc n" "\<forall>f\<in>set (butlast gs). length f < 256" "last gs \<noteq> []"
            "drop (off + 1 + ?l) p = concat (map (\<lambda>f. of_nat (length f) # f) (butlast gs)) @ last gs" using IH by blast+
        then have "gs \<noteq> []" "of_nat (length ?f) = p ! off" using f(1) by auto
        then show ?R using g(1) G f l by (simp add: d)
      next
        assume R: ?R
        then obtain g gs where g: "fs = g # gs" "length gs = Suc n" by (cases fs) auto
        then have gs: "gs \<noteq> []" by auto
        then have "p ! off = of_nat (length g)" "drop (off + 1) p = g @ concat (map (\<lambda>f. of_nat (length f) # f) (butlast gs)) @ last gs"
          using R d g by auto
        moreover from this have "?l = length g" using R g gs by (simp add: unat_of_nat)
        ultimately have "g = ?f" "drop (off + 1 + ?l) p = concat (map (\<lambda>f. of_nat (length f) # f) (butlast gs)) @ last gs"
          using f by (auto simp: append_eq_append_conv)
        then show ?L using R g gs IH [of gs] by auto
      qed
      finally show ?thesis .
    qed
  qed
qed

text \<open>C12: a payload is read as a container exactly when it is one: the marker, a count of two to eight, every frame but the last behind its length byte, and a non-empty last frame up to the end.\<close>

theorem splitContainer_exact:
  "splitContainer p = Some fs \<longleftrightarrow> container_valid fs \<and> p = container fs"
proof (cases "length p < 3 \<or> p ! 0 \<noteq> 0x92 \<or> unat (p ! 1) < 2 \<or> 8 < unat (p ! 1)")
  case True
  have "p \<noteq> container fs" if "container_valid fs"
  proof
    assume p: "p = container fs"
    have "unat (of_nat (length fs) :: u8) = length fs" using that by (simp add: container_valid_def unat_of_nat)
    then show False
      using True that p by (auto simp: container_def container_valid_def simp flip: length_greater_0_conv)
  qed
  then show ?thesis using True by (auto simp: splitContainer_def Let_def)
next
  case False
  let ?c = "unat (p ! 1)"
  have p: "p = [p ! 0, p ! 1] @ drop 2 p" using False by (cases p; cases "tl p") auto
  have "splitContainer p = container_frames p 2 (?c - 1)" using False by (simp add: splitContainer_def Let_def)
  then have "splitContainer p = Some fs \<longleftrightarrow> length fs = ?c \<and> (\<forall>f\<in>set (butlast fs). length f < 256) \<and> last fs \<noteq> [] \<and>
      drop 2 p = concat (map (\<lambda>f. of_nat (length f) # f) (butlast fs)) @ last fs"
    using container_frames_iff [of 2 p "?c - 1" fs] False by simp
  also have "\<dots> \<longleftrightarrow> container_valid fs \<and> p = container fs"
  proof
    assume R: "length fs = ?c \<and> (\<forall>f\<in>set (butlast fs). length f < 256) \<and> last fs \<noteq> [] \<and>
        drop 2 p = concat (map (\<lambda>f. of_nat (length f) # f) (butlast fs)) @ last fs"
    then have "of_nat (length fs) = p ! 1" by simp
    then show "container_valid fs \<and> p = container fs"
      using R False p by (simp add: container_valid_def container_def)
  next
    assume C: "container_valid fs \<and> p = container fs"
    then have "p ! 1 = of_nat (length fs)" "drop 2 p = concat (map (\<lambda>f. of_nat (length f) # f) (butlast fs)) @ last fs"
      by (simp_all add: container_def)
    then show "length fs = ?c \<and> (\<forall>f\<in>set (butlast fs). length f < 256) \<and> last fs \<noteq> [] \<and>
        drop 2 p = concat (map (\<lambda>f. of_nat (length f) # f) (butlast fs)) @ last fs"
      using C by (simp add: container_valid_def unat_of_nat)
  qed
  finally show ?thesis .
qed

section \<open>Routing\<close>

lemma ms_table: "[10, 20, 60, 120] ! unat (drop_bit 3 (b :: u8) AND 3) \<in> {10, 20, 60, 120 :: nat}"
proof -
  have "drop_bit 3 b AND 3 = take_bit 2 (drop_bit 3 b)" by (simp add: take_bit_eq_mask mask_eq_exp_minus_1)
  then have "unat (drop_bit 3 b AND 3) = unat (drop_bit 3 b) mod 4"
    by (simp only: unsigned_take_bit_eq) (simp add: take_bit_eq_mod)
  moreover have "unat (drop_bit 3 b) mod 4 \<in> {0, 1, 2, 3}" by auto
  ultimately show ?thesis by auto
qed

fun segment_len :: "segment \<Rightarrow> nat" where
  "segment_len (Silence n) = n"
| "segment_len (ActiveFrame f n) = n"

lemma standardOpusFrameMs_bounds: "3 \<le> standardOpusFrameMs b \<and> standardOpusFrameMs b \<le> 60"
proof -
  let ?c = "unat (drop_bit 3 b)"
  have "?c mod 4 \<in> {0, 1, 2, 3}" "(?c - 12) mod 2 \<in> {0, 1}" by auto
  then show ?thesis by (auto simp: standardOpusFrameMs_def Let_def)
qed

text \<open>Every frame gives between 48 and 3840 samples, and an active one exactly a packet of 960.\<close>

lemma decodeFrame_segment:
  "48 \<le> segment_len (fst (decodeFrame d f)) \<and> segment_len (fst (decodeFrame d f)) \<le> 3840 \<and>
   (\<forall>g n. fst (decodeFrame d f) = ActiveFrame g n \<longrightarrow> g = f \<and> n = 960 \<and> f \<noteq> [])"
proof -
  have "FrameMs (ParseSmplTOC (f ! 0)) \<in> {10, 20, 60, 120} \<or>
      StdOpus (ParseSmplTOC (f ! 0)) \<and> 3 \<le> FrameMs (ParseSmplTOC (f ! 0)) \<and> FrameMs (ParseSmplTOC (f ! 0)) \<le> 60"
    using ms_table [of "f ! 0"] standardOpusFrameMs_bounds [of "f ! 0"] by (simp add: ParseSmplTOC_def Let_def)
  moreover have "StdOpus (ParseSmplTOC (f ! 0)) \<or> tocSampleRate (ParseSmplTOC (f ! 0)) \<in> {16000, 32000}"
    by (simp add: ParseSmplTOC_def Let_def)
  ultimately show ?thesis
    by (auto simp: decodeFrame_def Let_def opusFrameSamps_def)
qed

lemma decode_frames_map: "\<exists>ds. length ds = length fs \<and> fst (decode_frames d fs) = map2 (\<lambda>e f. fst (decodeFrame e f)) ds fs"
proof (induction fs arbitrary: d)
  case (Cons f fs)
  obtain ds where "length ds = length fs" "fst (decode_frames (snd (decodeFrame d f)) fs) = map2 (\<lambda>e f. fst (decodeFrame e f)) ds fs"
    using Cons.IH by blast
  then show ?case by (intro exI [of _ "d # ds"]) (simp add: split_beta Let_def)
qed simp

text \<open>C13: routing a payload returns on every input, with or without negotiated redundancy: between one and eight frames, each of at most 3840 samples, and every frame handed to the active decoder is a non-empty piece of the payload asked for exactly 960 samples.\<close>

theorem Decode_routes:
  "\<exists>segs d'. mlow_Decode d payload = Some (segs, d') \<and> 1 \<le> length segs \<and> length segs \<le> 8 \<and>
     list_all (\<lambda>s. 48 \<le> segment_len s \<and> segment_len s \<le> 3840) segs \<and>
     list_all (\<lambda>s. case s of Silence n \<Rightarrow> True | ActiveFrame f n \<Rightarrow> n = 960 \<and> f \<noteq> [] \<and> sublist f payload) segs"
proof -
  have one: "mlow_Decode d payload = Some (decode_frames d fs) \<Longrightarrow> 1 \<le> length fs \<Longrightarrow> length fs \<le> 8 \<Longrightarrow>
      (\<And>f. f \<in> set fs \<Longrightarrow> sublist f payload) \<Longrightarrow> ?thesis" for fs
  proof -
    assume A: "mlow_Decode d payload = Some (decode_frames d fs)" "1 \<le> length fs" "length fs \<le> 8"
      "\<And>f. f \<in> set fs \<Longrightarrow> sublist f payload"
    obtain ds where ds: "length ds = length fs" "fst (decode_frames d fs) = map2 (\<lambda>e f. fst (decodeFrame e f)) ds fs"
      using decode_frames_map by blast
    have "48 \<le> segment_len s \<and> segment_len s \<le> 3840 \<and>
        (case s of Silence n \<Rightarrow> True | ActiveFrame f n \<Rightarrow> n = 960 \<and> f \<noteq> [] \<and> sublist f payload)"
      if "s \<in> set (fst (decode_frames d fs))" for s
    proof -
      obtain e f where "s = fst (decodeFrame e f)" "f \<in> set fs" using \<open>s \<in> _\<close> ds by (auto dest: set_zip_rightD)
      then show ?thesis using decodeFrame_segment [of e f] A(4) by (auto split: segment.splits)
    qed
    moreover have "length (fst (decode_frames d fs)) = length fs" using ds by simp
    ultimately show ?thesis using A(1-3)
      by (intro exI [of _ "fst (decode_frames d fs)"] exI [of _ "snd (decode_frames d fs)"]) (simp add: list_all_iff)
  qed
  consider (empty) "payload = []" | (parts) fs where "payload \<noteq> []" "splitContainer payload = Some fs"
    | (bare) "payload \<noteq> []" "splitContainer payload = None" "redundancy d \<le> 0"
    | (red) "payload \<noteq> []" "splitContainer payload = None" "0 < redundancy d" by fastforce
  then show ?thesis
  proof cases
    case empty
    then show ?thesis by (simp add: mlow_Decode_def opusFrameSamps_def)
  next
    case parts
    then have c: "container_valid fs" "payload = container fs" by (simp_all add: splitContainer_exact)
    have "sublist f payload" if "f \<in> set fs" for f
    proof -
      obtain as bs where "fs = as @ f # bs" using \<open>f \<in> set fs\<close> by (auto simp: in_set_conv_decomp)
      then obtain pre post where "container fs = pre @ f @ post"
      proof (cases bs)
        case Nil
        then show thesis using \<open>fs = as @ f # bs\<close>
          by (intro that [of "[0x92, of_nat (length fs)] @ concat (map (\<lambda>f. of_nat (length f) # f) as)" "[]"]) (simp add: container_def)
      next
        case (Cons b cs)
        then show thesis using \<open>fs = as @ f # bs\<close>
          by (intro that [of "[0x92, of_nat (length fs)] @ concat (map (\<lambda>f. of_nat (length f) # f) as) @ [of_nat (length f)]"
              "concat (map (\<lambda>f. of_nat (length f) # f) (butlast bs)) @ last bs"]) (simp add: container_def butlast_append)
      qed
      then show ?thesis by (simp add: c(2) sublist_appendI)
    qed
    then show ?thesis using parts c(1) by (intro one) (auto simp: mlow_Decode_def container_valid_def)
  next
    case bare
    then show ?thesis by (intro one [of "[payload]"]) (auto simp: mlow_Decode_def)
  next
    case red
    obtain x where x: "DepackSplitRed payload = Some x" "\<forall>fs. x = Inr fs \<longrightarrow> red_valid fs \<and> payload = red_pack fs"
      using DepackSplitRed_sound [of payload] by blast
    show ?thesis
    proof (cases x)
      case (Inl e)
      then show ?thesis using red x by (simp add: mlow_Decode_def opusFrameSamps_def)
    next
      case (Inr fs)
      then have v: "fs \<noteq> []" "payload = red_pack fs" using x(2) by (auto simp: red_valid_def)
      then have "payload = (concat (map (\<lambda>f. red_header (TimeCode f, length (frameData f))) (butlast fs)) @ [TimeCode (last fs)] @
          concat (map frameData (butlast fs))) @ frameData (last fs) @ []"
        by (cases fs rule: rev_cases) (simp_all add: red_pack_def)
      then have "sublist (frameData (last fs)) payload" by (rule ssubst) (rule sublist_appendI)
      then show ?thesis using red x v(1) Inr by (intro one [of "[frameData (last fs)]"]) (auto simp: mlow_Decode_def)
    qed
  qed
qed

end
