(* ===== verification/MlowFrame.thy ===== *)
theory MlowFrame
  imports MlowPitchWrite MlowFraming
begin

text \<open>
  \<open>EncodeSmplFrame\<close> of mlow/encoder.go and the parameter loop of \<open>decodeActiveFrame\<close> of mlow/decoder.go: three
  internal frames of LSF, pulse and pitch or gain blocks in one range-coded body.  The decoder's output
  here is what it hands to the synthesis: the LSF indices, the pulse vector and the CELP parameters; block
  lags, which are multiples of one half, are in half samples.
\<close>

section \<open>The encoder\<close>

record SmplInternalParams =
  Lsf :: SmplLsfParams
  Pulses :: SmplPulseParams
  HasPitch :: bool
  Pitch :: SmplPitchParams
  Gains :: SmplGainParams

record SmplFrameParams =
  TOC :: u8
  Config :: int
  Internal :: "SmplInternalParams list"

definition SmplEncodeBufBytes :: nat where "SmplEncodeBufBytes = 512"

text \<open>The zero value of the state.\<close>

definition zero_lsf_state :: SmplLsfState where
  "zero_lsf_state = \<lparr>PrevStage1 = 0, PrevMatch = False, HavePrev = False, PrevGainIdx = 0, PrevFiltIdx = 0,
     PrevLag = 0, PrevFracLag = 0, PrevLagblk = 0, PrevLagidx = 0\<rparr>"

definition encode_internal ::
  "RangeEncoder \<Rightarrow> SmplTables \<Rightarrow> CcTables \<Rightarrow> PitchTables \<Rightarrow> SmplLsfState \<Rightarrow> int \<Rightarrow> int \<Rightarrow> SmplInternalParams \<Rightarrow>
   (SmplLsfState \<times> RangeEncoder) option" where
  "encode_internal e t cc tab st config f ip = do {
     (st1, e1) \<leftarrow> encodeSmplLsf e t st config f (Lsf ip);
     e2 \<leftarrow> encodeSmplPulses e1 cc 320 4 1 (wrap32 config) (Stage1 (Lsf ip)) (Pulses ip);
     (if Stage1 (Lsf ip) = 1 then encodeSmplPitch e2 cc tab st1 320 4 (wrap32 config) (Subfr (Pulses ip)) (Pitch ip)
      else map_option (Pair st1) (encodeSmplGains e2 cc 4 (Subfr (Pulses ip)) (Gains ip)))
   }"

fun encode_internals ::
  "RangeEncoder \<Rightarrow> SmplTables \<Rightarrow> CcTables \<Rightarrow> PitchTables \<Rightarrow> SmplLsfState \<Rightarrow> int \<Rightarrow> int \<Rightarrow> SmplInternalParams list \<Rightarrow>
   RangeEncoder option" where
  "encode_internals e t cc tab st config f [] = Some e"
| "encode_internals e t cc tab st config f (ip # ips) = do {
     (st1, e1) \<leftarrow> encode_internal e t cc tab st config f ip;
     encode_internals e1 t cc tab st1 config (f + 1) ips
   }"

text \<open>\<open>Inl\<close> is the error, \<open>None\<close> a panic.  The slice of the body panics past the capacity of the buffer.\<close>

definition EncodeSmplFrame ::
  "SmplTables \<Rightarrow> CcTables \<Rightarrow> PitchTables \<Rightarrow> SmplFrameParams \<Rightarrow> (string + bytes) option" where
  "EncodeSmplFrame t cc tab fp = do {
     e \<leftarrow> encode_internals (NewRangeEncoder (1 + SmplEncodeBufBytes)) t cc tab zero_lsf_state (Config fp) 0 (Internal fp);
     let e1 = Done e
     in if eErr e1 \<noteq> 0 then Some (Inl ''mlow encode: range-encoder buffer overflow'')
        else if length (eBuf e1) < ConsumedLen e1 then None
        else Some (Inr (TOC fp # take (ConsumedLen e1) (eBuf e1)))
   }"

section \<open>The decoder\<close>

record CelpDecParams =
  CelpVoiced :: bool
  SfPulses :: "int list"
  FcbgIdx :: "int list"
  NrgresDbqQ14 :: "int list"
  AcbgIdx :: "int list"
  CelpLags :: "int list"
  TotalPulses :: int

definition celp_unvoiced :: "int list \<Rightarrow> SmplGainResult \<Rightarrow> CelpDecParams" where
  "celp_unvoiced counts g =
     \<lparr>CelpVoiced = False, SfPulses = counts, FcbgIdx = nrgRes g, NrgresDbqQ14 = GainQ g, AcbgIdx = replicate 4 0,
      CelpLags = replicate 8 0, TotalPulses = wrap32 (sum_list counts)\<rparr>"

definition celp_voiced :: "int list \<Rightarrow> int \<Rightarrow> SmplPitchResult \<Rightarrow> CelpDecParams" where
  "celp_voiced counts p3 pr =
     (let n = nat p3
      in \<lparr>CelpVoiced = True, SfPulses = counts,
          FcbgIdx = map (\<lambda>v. if 0 < v then v else 0) (take n (filtIdx pr)) @ replicate (4 - n) 0,
          NrgresDbqQ14 = replicate 4 0, AcbgIdx = take n (gainIdx pr) @ replicate (4 - n) 0,
          CelpLags = map (\<lambda>v. if 640 < v + 64 then 640 else v + 64) (BlockLags pr),
          TotalPulses = wrap32 (sum_list counts)\<rparr>)"

type_synonym internal = "SmplLsfIndices \<times> int list \<times> CelpDecParams"

definition decode_internal ::
  "RangeDecoder \<Rightarrow> SmplTables \<Rightarrow> CcTables \<Rightarrow> SmplMem \<Rightarrow> SmplLsfState \<Rightarrow> int \<Rightarrow> int \<Rightarrow> int \<Rightarrow>
   (internal \<times> SmplLsfState \<times> RangeDecoder) option" where
  "decode_internal d t cc mem st config p3 f = do {
     (lsf, st1, d1) \<leftarrow> DecodeSmplLsf d t st config f;
     (pulses, d2) \<leftarrow> DecodeSmplPulses d1 cc 320 p3 1 config (idxStage1 lsf);
     (if idxStage1 lsf = 1 then do {
        (pr, st2, d3) \<leftarrow> DecodeSmplPitch d2 cc mem st1 320 p3 config (subfr pulses);
        Some ((lsf, pulseVector pulses, celp_voiced (subfr pulses) p3 pr), st2, d3)
      } else do {
        (g, d3) \<leftarrow> DecodeSmplGains d2 cc p3 (subfr pulses);
        Some ((lsf, pulseVector pulses, celp_unvoiced (subfr pulses) g), st1, d3)
      })
   }"

fun decode_internals ::
  "nat \<Rightarrow> RangeDecoder \<Rightarrow> SmplTables \<Rightarrow> CcTables \<Rightarrow> SmplMem \<Rightarrow> SmplLsfState \<Rightarrow> int \<Rightarrow> int \<Rightarrow> int \<Rightarrow>
   (internal list \<times> SmplLsfState \<times> RangeDecoder) option" where
  "decode_internals 0 d t cc mem st config p3 f = Some ([], st, d)"
| "decode_internals (Suc n) d t cc mem st config p3 f = do {
     (x, st1, d1) \<leftarrow> decode_internal d t cc mem st config p3 f;
     (xs, st2, d2) \<leftarrow> decode_internals n d1 t cc mem st1 config p3 (f + 1);
     Some (x # xs, st2, d2)
   }"

text \<open>The state persists over the frames of a stream.\<close>

definition decodeActiveFrame ::
  "SmplTables \<Rightarrow> CcTables \<Rightarrow> SmplMem \<Rightarrow> SmplLsfState \<Rightarrow> bytes \<Rightarrow> (internal list \<times> SmplLsfState) option" where
  "decodeActiveFrame t cc mem st frame =
     (case frame of
        [] \<Rightarrow> None
      | b # body \<Rightarrow> do {
          let low = (drop_bit 2 b AND 1 \<noteq> 0);
          d \<leftarrow> NewRangeDecoder body;
          (xs, st1, d1) \<leftarrow> decode_internals 3 d t cc mem st (if low then 1 else 0) (if low then 2 else 4) 0;
          Some (xs, st1)
        })"

section \<open>Internal frames as symbols\<close>

definition lsf_after :: "SmplLsfState \<Rightarrow> int \<Rightarrow> SmplLsfParams \<Rightarrow> SmplLsfState" where
  "lsf_after st f p = (snd (lsf_advance st f (Stage1 p)))\<lparr>PrevMatch := lsf_match st f (Stage1 p), HavePrev := True\<rparr>"

definition internal_symbols ::
  "SmplTables \<Rightarrow> CcTables \<Rightarrow> contourWindowParts \<Rightarrow> bool \<Rightarrow> SmplLsfState \<Rightarrow> int \<Rightarrow> SmplInternalParams \<Rightarrow> symbol list" where
  "internal_symbols t cc w low st f ip =
     lsf_symbols t st (rate_p6 low) f (Lsf ip) @ pulse_symbols cc low (Stage1 (Lsf ip)) (Pulses ip) @
     (if Stage1 (Lsf ip) = 1 then pitch_symbols cc w low (Subfr (Pulses ip)) (lsf_after st f (Lsf ip)) (Pitch ip)
      else gain_symbols cc low (Subfr (Pulses ip)) (Gains ip))"

definition internal_after :: "contourWindowParts \<Rightarrow> bool \<Rightarrow> SmplLsfState \<Rightarrow> int \<Rightarrow> SmplInternalParams \<Rightarrow> SmplLsfState" where
  "internal_after w low st f ip =
     (if Stage1 (Lsf ip) = 1 then pitch_after w low (Subfr (Pulses ip)) (lsf_after st f (Lsf ip)) (Pitch ip)
      else lsf_after st f (Lsf ip))"

definition internal_ok ::
  "SmplTables \<Rightarrow> CcTables \<Rightarrow> contourWindowParts \<Rightarrow> bool \<Rightarrow> SmplLsfState \<Rightarrow> int \<Rightarrow> SmplInternalParams \<Rightarrow> bool" where
  "internal_ok t cc w low st f ip \<longleftrightarrow> lsf_params_ok t st (rate_p6 low) f (Lsf ip) \<and>
     pulse_params_ok cc low (Stage1 (Lsf ip)) (Pulses ip) \<and>
     (if Stage1 (Lsf ip) = 1 then pitch_params_ok w low (Subfr (Pulses ip)) (Pitch ip)
      else gain_params_ok cc low (Subfr (Pulses ip)) (Gains ip))"

text \<open>What the synthesis receives for the parameters of an internal frame.\<close>

definition lsf_view :: "SmplTables \<Rightarrow> bool \<Rightarrow> SmplLsfParams \<Rightarrow> SmplLsfIndices" where
  "lsf_view t low p = \<lparr>idxStage1 = Stage1 p, idxGrid = Grid p, idxStage2 = Stage2 p,
     idxNraw = map (\<lambda>c. int (length c) - 2) (lsf_rows t (rate_p6 low) p), idxExtra = Extra p\<rparr>"

definition pitch_view :: "bool \<Rightarrow> int list \<Rightarrow> SmplPitchParams \<Rightarrow> CelpDecParams" where
  "pitch_view low counts pp =
     \<lparr>CelpVoiced = True, SfPulses = counts, FcbgIdx = map (max 0) (FiltIdx pp), NrgresDbqQ14 = replicate 4 0,
      AcbgIdx = GainIdx pp, CelpLags = map (\<lambda>v. min 640 (v + 64)) (Laginds pp), TotalPulses = sum_list counts\<rparr>"

definition gain_view :: "CcTables \<Rightarrow> bool \<Rightarrow> int list \<Rightarrow> SmplGainParams \<Rightarrow> CelpDecParams" where
  "gain_view cc low counts gp =
     \<lparr>CelpVoiced = False, SfPulses = counts, FcbgIdx = NrgRes gp,
      NrgresDbqQ14 = gain_levels cc (rate_p3 low) (GainMain gp) (GainDelta gp),
      AcbgIdx = replicate 4 0, CelpLags = replicate 8 0, TotalPulses = sum_list counts\<rparr>"

definition internal_view :: "SmplTables \<Rightarrow> CcTables \<Rightarrow> bool \<Rightarrow> SmplInternalParams \<Rightarrow> internal" where
  "internal_view t cc low ip =
     (lsf_view t low (Lsf ip), pulseVector (pulse_result low (Pulses ip)),
      if Stage1 (Lsf ip) = 1 then pitch_view low (Subfr (Pulses ip)) (Pitch ip)
      else gain_view cc low (Subfr (Pulses ip)) (Gains ip))"

fun frame_body ::
  "SmplTables \<Rightarrow> CcTables \<Rightarrow> contourWindowParts \<Rightarrow> bool \<Rightarrow> SmplLsfState \<Rightarrow> int \<Rightarrow> SmplInternalParams list \<Rightarrow> symbol list" where
  "frame_body t cc w low st f [] = []"
| "frame_body t cc w low st f (ip # ips) =
     internal_symbols t cc w low st f ip @ frame_body t cc w low (internal_after w low st f ip) (f + 1) ips"

fun frame_ok ::
  "SmplTables \<Rightarrow> CcTables \<Rightarrow> contourWindowParts \<Rightarrow> bool \<Rightarrow> SmplLsfState \<Rightarrow> int \<Rightarrow> SmplInternalParams list \<Rightarrow> bool" where
  "frame_ok t cc w low st f [] = True"
| "frame_ok t cc w low st f (ip # ips) =
     (internal_ok t cc w low st f ip \<and> frame_ok t cc w low (internal_after w low st f ip) (f + 1) ips)"

section \<open>The predictors\<close>

definition state_ok :: "SmplLsfState \<Rightarrow> bool" where
  "state_ok st \<longleftrightarrow> ltp_pred_ok (PrevGainIdx st) (PrevFiltIdx st) \<and> lag_pred_ok (PrevLag st) (PrevFracLag st)"

lemma lsf_after_ok: "f = 0 \<or> state_ok st \<Longrightarrow> state_ok (lsf_after st f p)"
  by (auto simp: lsf_after_def lsf_advance_def Let_def state_ok_def ltp_pred_ok_def lag_pred_ok_def)

lemma pitch_after_ok:
  assumes "window_ok w" "pitch_params_ok w low cs pp" "state_ok st"
  shows "state_ok (pitch_after w low cs st pp)"
proof -
  let ?r = "records w ! nat (BlocksegIdx pp)" and ?ks = "[0..<nat (rate_p3 low)]"
  let ?vs = "seg_lags (snd ?r) (Laginds pp)"
  have c: "nat (BlocksegIdx pp) < 217" and l: "lags_ok ?r (Laginds pp)"
    and k: "\<forall>k\<in>set ?ks. ltp_ok cs (GainIdx pp) (FiltIdx pp) k"
    using assms(2) rate_nat(1) [of low] by (auto simp: pitch_params_ok_def)
  have ok: "record_ok ?r" using record_of [OF assms(1) c] .
  note R = record_shape [OF ok]
  have n: "length ?vs = length (fst ?r)" "fst ?r \<noteq> []" using R(1,2) by simp_all
  then have n': "?vs \<noteq> []" by (metis length_0_conv)
  have b: "last (fst ?r) = fst ?r ! (length (fst ?r) - 1)" "last ?vs = ?vs ! (length (fst ?r) - 1)"
    using last_conv_nth [OF n(2)] last_conv_nth [OF n'] n(1) by simp_all
  have "?vs ! (length (fst ?r) - 1) div 64 = fst ?r ! (length (fst ?r) - 1)"
    using l n(2) by (auto simp: lags_ok_def)
  moreover have "0 \<le> fst ?r ! (length (fst ?r) - 1)" "fst ?r ! (length (fst ?r) - 1) < 9"
    using record_values(1,2) [OF ok, of "length (fst ?r) - 1"] n(2) by simp_all
  ultimately have "lag_pred_ok (last (fst ?r)) (last ?vs)" unfolding b lag_pred_ok_def by simp
  moreover have "case ltp_end cs (GainIdx pp) (FiltIdx pp) ?ks (PrevGainIdx st) (PrevFiltIdx st) of (g, f) \<Rightarrow> ltp_pred_ok g f"
    using assms(3) by (intro ltp_pred_end [OF k]) (simp add: state_ok_def)
  ultimately show ?thesis by (simp add: pitch_after_def state_ok_def Let_def split_beta)
qed

lemma internal_after_ok:
  "window_ok w \<Longrightarrow> internal_ok t cc w low st f ip \<Longrightarrow> f = 0 \<or> state_ok st \<Longrightarrow> state_ok (internal_after w low st f ip)"
  using lsf_after_ok [of f st "Lsf ip"] pitch_after_ok [of w low "Subfr (Pulses ip)" "Pitch ip" "lsf_after st f (Lsf ip)"]
  by (auto simp: internal_after_def internal_ok_def)

text \<open>The first internal frame resets the predictors, so a frame does not depend on the frames before it.\<close>

definition agree :: "SmplLsfState \<Rightarrow> SmplLsfState \<Rightarrow> bool" where
  "agree st st' \<longleftrightarrow> PrevStage1 st = PrevStage1 st' \<and> PrevGainIdx st = PrevGainIdx st' \<and> PrevFiltIdx st = PrevFiltIdx st' \<and>
     PrevLag st = PrevLag st' \<and> PrevFracLag st = PrevFracLag st'"

lemma lsf_agree:
  assumes "f = 0 \<or> agree st st'"
  shows "lsf_symbols t st config f p = lsf_symbols t st' config f p"
    "lsf_params_ok t st config f p = lsf_params_ok t st' config f p" "agree (lsf_after st f p) (lsf_after st' f p)"
  using assms
  by (auto simp: agree_def lsf_symbols_def lsf_params_ok_def lsf_after_def lsf_advance_def lsf_match_def lsf_row_def Let_def)

lemma pitch_agree:
  assumes "agree st st'"
  shows "pitch_symbols cc w low cs st pp = pitch_symbols cc w low cs st' pp"
    "agree (pitch_after w low cs st pp) (pitch_after w low cs st' pp)"
  using assms by (auto simp: agree_def pitch_symbols_def pitch_after_def Let_def split_beta)

lemma internal_agree:
  assumes "f = 0 \<or> agree st st'"
  shows "internal_symbols t cc w low st f ip = internal_symbols t cc w low st' f ip"
    "internal_ok t cc w low st f ip = internal_ok t cc w low st' f ip"
    "agree (internal_after w low st f ip) (internal_after w low st' f ip)"
  using lsf_agree [OF assms] pitch_agree [OF lsf_agree(3) [OF assms]]
  by (simp_all add: internal_symbols_def internal_ok_def internal_after_def)

lemma frame_agree:
  "f = 0 \<or> agree st st' \<Longrightarrow> frame_body t cc w low st f ips = frame_body t cc w low st' f ips \<and>
     frame_ok t cc w low st f ips = frame_ok t cc w low st' f ips"
proof (induction ips arbitrary: st st' f)
  case (Cons ip ips)
  note a = internal_agree [OF Cons.prems, where w = w and low = low and ip = ip]
  show ?case using a Cons.IH [OF disjI2 [OF a(3)]] by simp
qed simp

section \<open>Reading\<close>

lemma pulses_counts: "pulse_params_ok cc low s1 p \<Longrightarrow> counts_ok low (Total p) (Subfr p)"
  by (simp add: pulse_params_ok_def)

lemma counts_total: "counts_ok low n cs \<Longrightarrow> wrap32 (sum_list cs) = sum_list cs"
proof -
  assume c: "counts_ok low n cs"
  then obtain a b x y where "cs = [a, b, x, y]" using four_counts [of cs] by (auto simp: counts_ok_def)
  then show ?thesis using c by (intro wrap32_id) (auto simp: counts_ok_def rate_most_def split: if_splits)
qed

lemma voiced_view:
  assumes "pitch_params_ok w low cs pp" "counts_ok low n cs"
  shows "celp_voiced cs (rate_p3 low) (pitch_result w st pp) = pitch_view low cs pp"
proof -
  let ?n = "nat (rate_p3 low)"
  have p: "length (GainIdx pp) = 4" "length (FiltIdx pp) = 4"
      "\<And>k. k < 4 \<Longrightarrow> \<not> k < ?n \<Longrightarrow> GainIdx pp ! k = 0 \<and> FiltIdx pp ! k = - 1"
    using assms(1) by (auto simp: pitch_params_ok_def)
  have g: "take ?n (GainIdx pp) @ replicate (4 - ?n) 0 = GainIdx pp"
    using p rate_nat(1) [of low] by (intro nth_equalityI) (auto simp: nth_append)
  have f: "map (\<lambda>v. if 0 < v then v else 0) (take ?n (FiltIdx pp)) @ replicate (4 - ?n) 0 = map (max 0) (FiltIdx pp)"
    using p rate_nat(1) [of low] by (intro nth_equalityI) (auto simp: nth_append max_def)
  have l: "map (\<lambda>v. if 576 < v then 640 else v + 64) xs = map (\<lambda>v. min 640 (v + 64)) xs" for xs :: "int list"
    by (auto simp: min_def)
  show ?thesis
    by (simp add: celp_voiced_def pitch_view_def pitch_result_def Let_def g f l counts_total [OF assms(2)] del: map_eq_conv)
qed

lemma unvoiced_view:
  "counts_ok low n cs \<Longrightarrow> celp_unvoiced cs (gain_result cc low gp) = gain_view cc low cs gp"
  by (simp add: celp_unvoiced_def gain_view_def gain_result_def counts_total)

lemma internal_read:
  assumes "holds (internal_symbols t cc w low st f ip) d d'" "lsf_tables_ok t" "tables_ok cc" "window_ok w"
    "internal_ok t cc w low st f ip" "f = 0 \<or> state_ok st"
  shows "decode_internal d t cc (buildSmplMemFromSeed w) st (rate_p6 low) (rate_p3 low) f =
    Some (internal_view t cc low ip, internal_after w low st f ip, d')"
proof -
  let ?s1 = "Stage1 (Lsf ip)" and ?cs = "Subfr (Pulses ip)"
  have ok: "lsf_params_ok t st (rate_p6 low) f (Lsf ip)" "pulse_params_ok cc low ?s1 (Pulses ip)" "?s1 \<in> {0, 1}"
    using assms(5) by (auto simp: internal_ok_def lsf_params_ok_def)
  have cfg: "rate_p6 low \<in> {0, 1}" by (simp add: rate_p6_def)
  obtain d1 d2 where h: "holds (lsf_symbols t st (rate_p6 low) f (Lsf ip)) d d1" "holds (pulse_symbols cc low ?s1 (Pulses ip)) d1 d2"
      "holds (if ?s1 = 1 then pitch_symbols cc w low ?cs (lsf_after st f (Lsf ip)) (Pitch ip) else gain_symbols cc low ?cs (Gains ip)) d2 d'"
    using assms(1) unfolding internal_symbols_def holds_append by blast
  have L: "DecodeSmplLsf d t st (rate_p6 low) f = Some (lsf_view t low (Lsf ip), lsf_after st f (Lsf ip), d1)"
    using lsf_read [OF h(1) assms(2) cfg ok(1)] by (simp add: lsf_view_def lsf_after_def)
  have P: "DecodeSmplPulses d1 cc 320 (rate_p3 low) 1 (rate_p6 low) ?s1 = Some (pulse_result low (Pulses ip), d2)"
    using pulses_read [OF h(2) assms(3) ok(3,2)] .
  have c: "subfr (pulse_result low (Pulses ip)) = ?cs" "idxStage1 (lsf_view t low (Lsf ip)) = ?s1"
    by (simp_all add: pulse_result_def lsf_view_def split_beta)
  note counts = pulses_counts [OF ok(2)]
  show ?thesis
  proof (cases "?s1 = 1")
    case True
    have pp: "pitch_params_ok w low ?cs (Pitch ip)" using assms(5) True by (simp add: internal_ok_def)
    have "state_ok (lsf_after st f (Lsf ip))" using lsf_after_ok [OF assms(6)] .
    then have D: "DecodeSmplPitch d2 cc (buildSmplMemFromSeed w) (lsf_after st f (Lsf ip)) 320 (rate_p3 low) (rate_p6 low) ?cs =
        Some (pitch_result w (lsf_after st f (Lsf ip)) (Pitch ip), pitch_after w low ?cs (lsf_after st f (Lsf ip)) (Pitch ip), d')"
      using h(3) True by (intro seed_memory.pitch_read [OF _ assms(3,4) pp]) (simp_all add: state_ok_def)
    show ?thesis
      using True by (simp add: decode_internal_def L P [unfolded True] c D internal_view_def internal_after_def voiced_view [OF pp counts])
  next
    case False
    have gp: "gain_params_ok cc low ?cs (Gains ip)" using assms(5) False by (simp add: internal_ok_def)
    have G: "DecodeSmplGains d2 cc (rate_p3 low) ?cs = Some (gain_result cc low (Gains ip), d')"
      using h(3) False by (intro gains_read [OF _ assms(3) counts gp]) simp
    show ?thesis
      using False by (simp add: decode_internal_def L P c G internal_view_def internal_after_def unvoiced_view [OF counts])
  qed
qed

fun states_after :: "contourWindowParts \<Rightarrow> bool \<Rightarrow> SmplLsfState \<Rightarrow> int \<Rightarrow> SmplInternalParams list \<Rightarrow> SmplLsfState" where
  "states_after w low st f [] = st"
| "states_after w low st f (ip # ips) = states_after w low (internal_after w low st f ip) (f + 1) ips"

lemma frame_body_read:
  "holds (frame_body t cc w low st f ips) d d' \<Longrightarrow> lsf_tables_ok t \<Longrightarrow> tables_ok cc \<Longrightarrow> window_ok w \<Longrightarrow>
   frame_ok t cc w low st f ips \<Longrightarrow> f = 0 \<or> state_ok st \<Longrightarrow>
   decode_internals (length ips) d t cc (buildSmplMemFromSeed w) st (rate_p6 low) (rate_p3 low) f =
     Some (map (internal_view t cc low) ips, states_after w low st f ips, d')"
proof (induction ips arbitrary: st f d)
  case (Cons ip ips)
  obtain d1 where d1: "holds (internal_symbols t cc w low st f ip) d d1"
      "holds (frame_body t cc w low (internal_after w low st f ip) (f + 1) ips) d1 d'"
    using Cons.prems(1) by (auto simp: holds_append)
  have ok: "internal_ok t cc w low st f ip" "frame_ok t cc w low (internal_after w low st f ip) (f + 1) ips"
    using Cons.prems(5) by simp_all
  have s: "state_ok (internal_after w low st f ip)" using internal_after_ok [OF Cons.prems(4) ok(1) Cons.prems(6)] .
  show ?case
    using internal_read [OF d1(1) Cons.prems(2-4) ok(1) Cons.prems(6)]
      Cons.IH [OF d1(2) Cons.prems(2-4) ok(2) disjI2 [OF s]] by simp
qed simp

section \<open>Any body\<close>

lemma internal_any:
  assumes "lsf_tables_ok t" "tables_ok cc" "window_ok w" "f = 0 \<or> state_ok st" "dec_ready d"
  shows "\<exists>ip d'. internal_ok t cc w low st f ip \<and> holds (internal_symbols t cc w low st f ip) d d' \<and> dec_ready d'"
proof -
  have cfg: "rate_p6 low \<in> {0, 1}" by (simp add: rate_p6_def)
  obtain l d1 where l: "lsf_params_ok t st (rate_p6 low) f l" "holds (lsf_symbols t st (rate_p6 low) f l) d d1" "dec_ready d1"
    using lsf_any [OF assms(1) cfg assms(5)] by blast
  have s1: "Stage1 l \<in> {0, 1}" using l(1) by (simp add: lsf_params_ok_def)
  obtain p d2 where p: "pulse_params_ok cc low (Stage1 l) p" "holds (pulse_symbols cc low (Stage1 l) p) d1 d2" "dec_ready d2"
    using pulses_any [OF assms(2) s1 l(3)] by blast
  have st: "state_ok (lsf_after st f l)" using lsf_after_ok [OF assms(4)] .
  show ?thesis
  proof (cases "Stage1 l = 1")
    case True
    obtain pp d3 where pp: "pitch_params_ok w low (Subfr p) pp"
        "holds (pitch_symbols cc w low (Subfr p) (lsf_after st f l) pp) d2 d3" "dec_ready d3"
      using pitch_any [OF assms(2,3) _ _ p(3)] st unfolding state_ok_def by blast
    let ?ip = "\<lparr>Lsf = l, Pulses = p, HasPitch = True, Pitch = pp, Gains = \<lparr>GainMain = 0, GainDelta = 0, NrgRes = []\<rparr>\<rparr>"
    have "internal_ok t cc w low st f ?ip" using l(1) p(1) pp(1) True by (simp add: internal_ok_def)
    moreover have "holds (internal_symbols t cc w low st f ?ip) d d3"
      using l(2) p(2) pp(2) True unfolding internal_symbols_def holds_append by auto
    ultimately show ?thesis using pp(3) by blast
  next
    case False
    obtain gp d3 where gp: "gain_params_ok cc low (Subfr p) gp" "holds (gain_symbols cc low (Subfr p) gp) d2 d3" "dec_ready d3"
      using gains_any [OF assms(2) pulses_counts [OF p(1)] p(3)] by blast
    let ?pp = "\<lparr>GainIdx = [], FiltIdx = [], BlocksegIdx = 0, Laginds = []\<rparr>"
    let ?ip = "\<lparr>Lsf = l, Pulses = p, HasPitch = False, Pitch = ?pp, Gains = gp\<rparr>"
    have "internal_ok t cc w low st f ?ip" using l(1) p(1) gp(1) False by (simp add: internal_ok_def)
    moreover have "holds (internal_symbols t cc w low st f ?ip) d d3"
      using l(2) p(2) gp(2) False unfolding internal_symbols_def holds_append by auto
    ultimately show ?thesis using gp(3) by blast
  qed
qed

lemma frame_any_body:
  "lsf_tables_ok t \<Longrightarrow> tables_ok cc \<Longrightarrow> window_ok w \<Longrightarrow> f = 0 \<or> state_ok st \<Longrightarrow> dec_ready d \<Longrightarrow>
   \<exists>ips d'. length ips = n \<and> frame_ok t cc w low st f ips \<and> holds (frame_body t cc w low st f ips) d d'"
proof (induction n arbitrary: st f d)
  case (Suc n)
  obtain ip d1 where ip: "internal_ok t cc w low st f ip" "holds (internal_symbols t cc w low st f ip) d d1" "dec_ready d1"
    using internal_any [OF Suc.prems] by blast
  have s: "state_ok (internal_after w low st f ip)" using internal_after_ok [OF Suc.prems(3) ip(1) Suc.prems(4)] .
  obtain ips d' where "length ips = n" "frame_ok t cc w low (internal_after w low st f ip) (f + 1) ips"
      "holds (frame_body t cc w low (internal_after w low st f ip) (f + 1) ips) d1 d'"
    using Suc.IH [OF Suc.prems(1-3) disjI2 [OF s] ip(3)] by blast
  then show ?case using ip by (intro exI [of _ "ip # ips"] exI [of _ d']) (auto simp: holds_append)
qed auto

end
