(* ===== verification/MlowValid.thy ===== *)
theory MlowValid
  imports MlowFrame
begin

text \<open>
  The symbols of parameters in range are symbols the range coder can code, and there are few of them: at
  most 19 for the LSF block, 324 for the pulses, 19 for a pitch block and 6 for a gain block.
\<close>

definition codable :: "nat \<Rightarrow> symbol list \<Rightarrow> bool" where
  "codable n ss \<longleftrightarrow> list_all symbol_ok ss \<and> length ss \<le> n"

lemma codable_append: "codable m xs \<Longrightarrow> codable n ys \<Longrightarrow> codable (m + n) (xs @ ys)"
  by (simp add: codable_def)

lemma codable_Nil [simp]: "codable n []"
  by (simp add: codable_def)

lemma codable_Cons: "symbol_ok s \<Longrightarrow> codable n ss \<Longrightarrow> codable (Suc n) (s # ss)"
  by (simp add: codable_def)

lemma codable_le: "codable m xs \<Longrightarrow> m \<le> n \<Longrightarrow> codable n xs"
  by (simp add: codable_def)

lemma cdf_symbol: "cdf_table c \<Longrightarrow> Suc k < length c \<Longrightarrow> symbol_ok (CdfSym c k)"
  by (simp add: cdf_table_symbol)

lemma cdf_index: "cdf_table c \<Longrightarrow> index_in v c \<Longrightarrow> symbol_ok (CdfSym c (nat v))"
  by (intro cdf_symbol) (auto simp: index_in_def)

section \<open>The LSF block\<close>

lemma lsf_codable:
  assumes "lsf_tables_ok t" "config \<in> {0, 1}" "lsf_params_ok t st config f p"
  shows "codable 19 (lsf_symbols t st config f p)"
proof -
  have p: "Stage1 p \<in> {0, 1}" "index_in (Grid p) (grid_cdf t (lsf_match st f (Stage1 p)) (Stage1 p))"
      "\<forall>k<16. index_in (Stage2 p ! k) (lsf_rows t config p ! k)" "index_in (Extra p) (LsfExtra t)"
    using assms(3) by (simp_all add: lsf_params_ok_def)
  note R = rows_table [OF assms(1) p(1) assms(2) p(2)]
  have "symbol_ok (CdfSym (LsfSel t ! nat (lsf_row st f)) (nat (Stage1 p)))"
    using sel_table [OF assms(1), of st f] p(1) by (intro cdf_symbol) auto
  moreover have "cdf_table (grid_cdf t (lsf_match st f (Stage1 p)) (Stage1 p))" "cdf_table (LsfExtra t)"
    using assms(1) by (simp_all add: lsf_tables_ok_def)
  then have "symbol_ok (CdfSym (grid_cdf t (lsf_match st f (Stage1 p)) (Stage1 p)) (nat (Grid p)))"
      "symbol_ok (CdfSym (LsfExtra t) (nat (Extra p)))"
    using p(2,4) by (auto intro: cdf_index simp del: symbol_ok.simps)
  moreover have "symbol_ok (CdfSym (lsf_rows t config p ! k) (nat (Stage2 p ! k)))" if "k < 16" for k
    using R(5) [OF that] p(3) that by (intro cdf_index) auto
  ultimately show ?thesis by (simp add: codable_def lsf_symbols_def list_all_iff del: symbol_ok.simps)
qed

section \<open>The pulse block\<close>

lemma split_codable:
  assumes "tables_ok cc" "0 \<le> count" "count \<le> 80" "split_fits count g s0"
  shows "codable 1 (split_symbols cc count g s0)"
proof (cases "max 0 (count - g) = min count g")
  case False
  then have lt: "max 0 (count - g) < min count g" using assms(4) by (auto simp: split_fits_def)
  then have "1 \<le> count" using assms(2) by auto
  note W = split_window_table [OF assms(1) this assms(3) lt]
  have "Suc (nat (s0 - max 0 (count - g))) < length (split_window cc count g)"
    using W(3) assms(4) by (auto simp: split_fits_def)
  then show ?thesis
    using False cdf_symbol [OF W(2)] by (simp add: split_symbols_def codable_def del: symbol_ok.simps)
qed (simp add: split_symbols_def)

lemma split_block_codable:
  assumes "tables_ok cc" "counts_ok low (Total p) (Subfr p)"
  shows "codable 3 (split_block cc low p)"
proof (rule counts_four [OF assms(2)])
  fix a b c
  assume cs: "Subfr p = [a, b, c, Total p - (a + b) - c]" and s: "split_fits (a + b) (rate_most low) a"
    "split_fits (Total p - (a + b)) (rate_most low) c" and n: "0 \<le> Total p" and l: "low \<Longrightarrow> c = 0 \<and> Total p = a + b"
  show ?thesis
  proof (cases low)
    case True
    then have "codable 1 (split_symbols cc (Total p) 16 a)"
      using s(1) l [OF True] n by (intro split_codable [OF assms(1)]) (auto simp: split_fits_def rate_most_def)
    then show ?thesis using True cs by (auto simp: split_block_def intro: codable_le)
  next
    case False
    let ?s = "a + b"
    have r: "0 \<le> ?s" "?s \<le> 80" "0 \<le> Total p - ?s" "Total p - ?s \<le> 80"
      using s False by (auto simp: split_fits_def rate_most_def)
    have "codable 1 (pair_symbols cc (Total p) ?s)"
    proof (cases "max 0 (Total p - 80) < Total p - max 0 (Total p - 80)")
      case True
      then have "1 \<le> Total p" "Total p < 160" by (auto simp: max_def split: if_splits)
      note W = pair_window_table [OF assms(1) this]
      have "Suc (nat (?s - max 0 (Total p - 80))) < length (pair_window cc (Total p))"
        using W(3) r by (auto simp: max_def split: if_splits)
      then show ?thesis using True cdf_symbol [OF W(2)] by (simp add: pair_symbols_def codable_def del: symbol_ok.simps)
    next
      case False
      then show ?thesis unfolding pair_symbols_def by (simp only: if_False codable_Nil)
    qed
    moreover have "codable 1 (if 0 < ?s then split_symbols cc ?s 40 a else [])"
      using s(1) False r split_codable [OF assms(1) r(1,2)] by (simp add: rate_most_def)
    moreover have "codable 1 (if ?s < Total p then split_symbols cc (Total p - ?s) 40 c else [])"
      using s(2) False r split_codable [OF assms(1) r(3,4)] by (simp add: rate_most_def)
    ultimately have "codable (1 + (1 + 1)) (pair_symbols cc (Total p) ?s @ (if 0 < ?s then split_symbols cc ?s 40 a else []) @
        (if ?s < Total p then split_symbols cc (Total p - ?s) 40 c else []))"
      by (intro codable_append)
    moreover have "Subfr p ! 0 = a" "Subfr p ! 1 = b" "Subfr p ! 2 = c" using cs by simp_all
    ultimately show ?thesis
      unfolding split_block_def Let_def if_not_P [OF False]
      by (cases "Total p = 0") (simp_all add: numeral_3_eq_3 split del: if_split cong: if_cong)
  qed
qed

lemma mags_codable:
  "tables_ok cc \<Longrightarrow> 1 \<le> pos \<Longrightarrow> pos \<le> 160 \<Longrightarrow> length ms \<le> 40 \<Longrightarrow> runs_ok first pos ms \<Longrightarrow>
   codable (length ms) (mag_symbols cc first pos ms)"
proof (induction ms arbitrary: first pos)
  case (Cons m ms)
  have c: "1 \<le> int (length (m # ms))" "int (length (m # ms)) \<le> 40" using Cons.prems(4) by simp_all
  have T: "cdf_table (mag_cdf cc pos (int (length (m # ms))))" "int (length (mag_cdf cc pos (int (length (m # ms))))) = pos + 1"
    using mag_table [OF Cons.prems(1-3) c] by blast+
  have m: "0 \<le> m" "m < pos" "runs_ok False (if 0 < m \<or> first then pos - m else pos) ms" using Cons.prems(5) by simp_all
  have "symbol_ok (CdfSym (mag_cdf cc pos (int (length (m # ms)))) (nat m))" using T m by (intro cdf_symbol) auto
  moreover have "codable (length ms) (mag_symbols cc False (if 0 < m \<or> first then pos - m else pos) ms)"
    using Cons.prems m by (intro Cons.IH) auto
  ultimately show ?case by (simp add: codable_def del: symbol_ok.simps)
qed simp

lemma frame_codable:
  "tables_ok cc \<Longrightarrow> 1 \<le> posPer \<Longrightarrow> posPer \<le> 160 \<Longrightarrow> frame_runs_ok posPer cnts runs \<Longrightarrow>
   codable (40 * length cnts) (frame_symbols cc posPer cnts runs) \<and> length runs \<le> 40 * length cnts"
proof (induction cnts arbitrary: runs)
  case (Cons cnt cnts)
  have c: "0 \<le> cnt" "cnt \<le> 40" "cnt \<le> int (length runs)" "runs_ok True posPer (take (nat cnt) runs)"
      "frame_runs_ok posPer cnts (drop (nat cnt) runs)"
    using Cons.prems(4) by simp_all
  have l: "length (take (nat cnt) runs) \<le> 40" using c(1,2) by simp
  have "codable (40 + 40 * length cnts) (frame_symbols cc posPer (cnt # cnts) runs)"
    using codable_append [OF codable_le [OF mags_codable [OF Cons.prems(1-3) l c(4)] l]] Cons.IH [OF Cons.prems(1-3) c(5)]
    by simp
  moreover have "length runs \<le> 40 * length cnts + nat cnt" "nat cnt \<le> 40"
    using Cons.IH [OF Cons.prems(1-3) c(5)] c(2) by (simp_all add: le_diff_conv)
  ultimately show ?case by simp
qed simp

lemma collect_runs_length: "length (fst (snd (collect_runs first p ms (a, b, c)))) \<le> length b + length ms"
proof (induction ms arbitrary: first p a b c)
  case (Cons m ms)
  show ?case
    using Cons.IH [of False "p + m" "a @ [p + m]" "b @ [1]" "c @ [m]"]
      Cons.IH [of False p a "if b = [] then b else butlast b @ [last b + 1]" "c @ [m]"]
    by (auto split: if_splits)
qed simp

lemma collect_frame_length:
  "length (fst (snd (collect_frame posPer start cnts runs acc))) \<le> length (fst (snd acc)) + length runs"
proof (induction cnts arbitrary: start runs acc)
  case (Cons cnt cnts)
  have "length (fst (snd (collect_runs True start (take (nat cnt) runs) acc))) \<le>
      length (fst (snd acc)) + length (take (nat cnt) runs)"
    using collect_runs_length [of True start "take (nat cnt) runs" "fst acc" "fst (snd acc)" "snd (snd acc)"] by simp
  moreover have "length (take (nat cnt) runs) + length (drop (nat cnt) runs) = length runs" by simp
  ultimately show ?case
    using Cons.IH [of "start + posPer" "drop (nat cnt) runs" "collect_runs True start (take (nat cnt) runs) acc"]
    unfolding collect_frame.simps by linarith
qed simp

lemma sign_shape_bounds: "length (sign_shape n) \<le> n \<and> (\<forall>b\<in>set (sign_shape n). b \<le> 15)"
proof (induction n rule: less_induct)
  case (less n)
  show ?case
  proof (cases "n = 0")
    case False
    then obtain k where "sign_shape n = min n 15 # sign_shape k" "k < n"
      using sign_shape.simps [of n] by (intro that [of "n - min n 15"]) auto
    then show ?thesis using less.IH [of k] by simp
  qed (simp add: sign_shape.simps [of 0])
qed

lemma signs_codable:
  assumes "signs_ok n syms"
  shows "codable n (sign_symbols syms)"
proof -
  have e: "map snd syms = map of_nat (sign_shape n)" "\<forall>(s, b)\<in>set syms. unat s < 2 ^ unat b"
    using assms by (simp_all add: signs_ok_def)
  have "length (map snd syms) = length (map of_nat (sign_shape n) :: u32 list)" by (simp only: e(1))
  then have l: "length syms \<le> n" using sign_shape_bounds [of n] by simp
  have "symbol_ok (RawSym s b)" if "(s, b) \<in> set syms" for s b
  proof -
    have "b \<in> set (map snd syms)" using that by force
    then obtain k where k: "k \<in> set (sign_shape n)" "b = of_nat k" unfolding e(1) by auto
    then have "k \<le> 15" using sign_shape_bounds by blast
    then have "unat b \<le> 23" using k(2) by (simp add: unat_of_nat_small)
    then show ?thesis using e(2) that by (auto simp: raw_ok_def)
  qed
  then show ?thesis using l by (auto simp: codable_def sign_symbols_def list_all_iff simp del: symbol_ok.simps)
qed

lemma pulses_codable:
  assumes "tables_ok cc" "s1 \<in> {0, 1}" "pulse_params_ok cc low s1 p"
  shows "codable 324 (pulse_symbols cc low s1 p)"
proof -
  have ok: "index_in (Total p) (count_cdf cc low s1)" "counts_ok low (Total p) (Subfr p)"
      "frame_runs_ok (rate_pos low) (rate_counts low p) (MagRuns p)"
      "signs_ok (length (fst (snd (pulse_places low p)))) (SignSyms p)"
    using assms(3) by (simp_all add: pulse_params_ok_def)
  have n: "40 * length (rate_counts low p) \<le> 160" using rate_nat(1) [of low] by (simp add: rate_counts_def)
  note F = frame_codable [OF assms(1) rate_pos_range ok(3)]
  have "length (fst (snd (pulse_places low p))) \<le> 160"
    using F n collect_frame_length [of "rate_pos low" 0 "rate_counts low p" "MagRuns p" "([], [], [])"]
    by (simp add: pulse_places_def)
  then have s: "codable 160 (sign_symbols (SignSyms p))" by (rule codable_le [OF signs_codable [OF ok(4)]])
  have f: "codable 160 (frame_symbols cc (rate_pos low) (rate_counts low p) (MagRuns p))" using F n codable_le by blast
  have "codable 1 [CdfSym (count_cdf cc low s1) (nat (Total p))]"
    using cdf_index [OF count_table(1) [OF assms(1,2)] ok(1)] by (simp add: codable_def del: symbol_ok.simps)
  from codable_append [OF this codable_append [OF split_block_codable [OF assms(1) ok(2)] codable_append [OF f s]]]
  show ?thesis by (simp add: pulse_symbols_def)
qed

section \<open>The gain block\<close>

lemma energies_codable:
  "tables_ok cc \<Longrightarrow> \<forall>k\<in>set ks. counts ! k \<le> 40 \<and> energy_ok counts vs k \<Longrightarrow>
   codable (length ks) (energy_symbols cc p3 counts gains vs ks)"
proof (induction ks)
  case (Cons k ks)
  have IH: "codable (length ks) (energy_symbols cc p3 counts gains vs ks)" using Cons by simp
  show ?case
  proof (cases "counts ! k \<le> 0")
    case True
    then show ?thesis using codable_le [OF IH, of "Suc (length ks)"] by (simp add: energy_symbols_def)
  next
    case False
    then have k: "0 < counts ! k" "counts ! k \<le> 40" using Cons.prems(2) by simp_all
    note T = energy_table [OF Cons.prems(1) k, of p3 "gains ! k"]
    have "Suc (nat (vs ! k)) < length (energy_cdf cc p3 (counts ! k) (gains ! k))"
      using Cons.prems(2) False T(3) by (auto simp: energy_ok_def)
    from codable_Cons [OF cdf_symbol [OF T(2) this] IH] False show ?thesis by (simp add: energy_symbols_def)
  qed
qed (simp add: energy_symbols_def)

lemma gains_codable:
  assumes "tables_ok cc" "counts_ok low n cs" "gain_params_ok cc low cs gp"
  shows "codable 6 (gain_symbols cc low cs gp)"
proof -
  let ?p3 = "rate_p3 low"
  have t: "cdf_table (NrgresGain cc ?p3)" "cdf_table (NrgresShape cc ?p3)" using assms(1) by (simp_all add: tables_ok_def)
  have p: "index_in (GainMain gp) (NrgresGain cc ?p3)" "index_in (GainDelta gp) (NrgresShape cc ?p3)"
      "\<forall>k\<in>set [0..<nat ?p3]. cs ! k \<le> 40 \<and> energy_ok cs (NrgRes gp) k"
    using assms(3) rate_nat(1) [of low] counts_le [OF assms(2)] by (auto simp: gain_params_ok_def)
  have "codable 4 (energy_symbols cc ?p3 cs (gain_levels cc ?p3 (GainMain gp) (GainDelta gp)) (NrgRes gp) [0..<nat ?p3])"
    using rate_nat(1) [of low] by (intro codable_le [OF energies_codable [OF assms(1) p(3)]]) simp
  from codable_Cons [OF cdf_index [OF t(1) p(1)] codable_Cons [OF cdf_index [OF t(2) p(2)] this]]
  show ?thesis by (simp add: gain_symbols_def)
qed

section \<open>The pitch block\<close>

lemma ltp_codable:
  "tables_ok cc \<Longrightarrow> \<forall>k\<in>set ks. ltp_ok cs gs fs k \<Longrightarrow> ltp_pred_ok g f \<Longrightarrow>
   codable (2 * length ks) (ltp_symbols cc low cs gs fs ks g f)"
proof (induction ks arbitrary: g f)
  case (Cons k ks)
  have ok: "ltp_ok cs gs fs k" and ks: "\<forall>k\<in>set ks. ltp_ok cs gs fs k" using Cons.prems(2) by simp_all
  have pred: "- 1 \<le> g" "g < 16" "- 1 \<le> f" "f < 34" using Cons.prems(3) by (simp_all add: ltp_pred_ok_def)
  note T = ltp_table [OF Cons.prems(1) pred(1,2)] filter_table [OF Cons.prems(1) pred(3,4)]
  have a: "symbol_ok (CdfSym (ltp_cdf cc low g) (nat (gs ! k)))"
    using T(2,3) [of low] ok by (intro cdf_symbol) (auto simp: ltp_ok_def)
  have b: "symbol_ok (CdfSym (filter_cdf cc f) (nat (fs ! k)))" if "0 < cs ! k"
    using T(5,6) ok that by (intro cdf_symbol) (auto simp: ltp_ok_def)
  have IH: "codable (2 * length ks) (ltp_symbols cc low cs gs fs ks (gs ! k) (if 0 < cs ! k then fs ! k else f))"
    using Cons.IH [OF Cons.prems(1) ks ltp_pred_step [OF ok Cons.prems(3)]] .
  show ?case
  proof (cases "0 < cs ! k")
    case True
    then show ?thesis using codable_Cons [OF a codable_Cons [OF b [OF True] IH]] by simp
  next
    case False
    then show ?thesis using codable_le [OF codable_Cons [OF a IH], of "2 * length (k # ks)"] by simp
  qed
qed simp

lemma segments_codable:
  assumes "window_ok w" "s < 3"
  shows "prev div 64 = p \<Longrightarrow> \<forall>k<length bs. - 1 \<le> bs ! k - (p # bs) ! k \<and> bs ! k - (p # bs) ! k \<le> 2 \<Longrightarrow>
    length vs = length bs \<Longrightarrow> \<forall>k<length bs. vs ! k div 64 = bs ! k \<Longrightarrow> codable (length bs) (segment_symbols w s prev bs vs)"
proof (induction bs arbitrary: prev p vs)
  case (Cons b bs)
  obtain v vt where vs: "vs = v # vt" using Cons.prems(3) by (cases vs) auto
  have "- 1 \<le> b - p" "b - p \<le> 2" using Cons.prems(2) by (auto dest!: spec [of _ 0])
  note T = frac_table [OF assms step_range [OF Cons.prems(1) this]]
  have v: "v div 64 = b" using Cons.prems(4) vs by (auto dest!: spec [of _ 0])
  then have "0 \<le> v - 64 * b" "v - 64 * b < 64" by presburger+
  then have a: "symbol_ok (CdfSym (frac_cdf w s prev b) (nat (v - 64 * b)))" using T(2) by (intro cdf_symbol [OF T(1)]) simp
  have "\<forall>k<length bs. - 1 \<le> bs ! k - (b # bs) ! k \<and> bs ! k - (b # bs) ! k \<le> 2"
  proof (intro allI impI)
    fix k assume "k < length bs"
    then show "- 1 \<le> bs ! k - (b # bs) ! k \<and> bs ! k - (b # bs) ! k \<le> 2"
      using Cons.prems(2) [rule_format, of "Suc k"] by simp
  qed
  moreover have "\<forall>k<length bs. vt ! k div 64 = bs ! k" using Cons.prems(4) vs by auto
  ultimately have "codable (length bs) (segment_symbols w s v bs vt)"
    using Cons.prems(3) vs by (intro Cons.IH [OF v]) auto
  then show ?case using codable_Cons [OF a] vs by simp
qed simp

lemma selector_codable:
  assumes "window_ok w" "c < 217" "lag_pred_ok blk prev"
  shows "codable 2 (selector_symbols w c blk)"
proof (cases "blk < 0")
  case True
  have "Suc (nat (contour_index w c)) < length (lag_cdf w)"
    using contour_range [OF assms(1,2)] lag_table(2) [OF assms(1)] by simp
  from cdf_symbol [OF lag_table(1) [OF assms(1)] this] True show ?thesis
    by (simp add: selector_symbols_def codable_def del: symbol_ok.simps)
next
  case False
  then have blk: "0 \<le> blk" "blk < 9" using assms(3) by (auto simp: lag_pred_ok_def)
  note F = first_block_range [OF assms(1,2)]
  note D = delta_cdf_table [OF assms(1) blk] and R = range_table [OF assms(1) F(1,2)]
  have "symbol_ok (CdfSym (delta_cdf w blk) (nat (first_block w c)))" using D F(1,2) by (intro cdf_symbol) auto
  moreover have "Suc (nat (contour_index w c - fst (windowRange w ! nat (first_block w c)))) < length (range_cdf w (first_block w c))"
    using R(2) F(3,4) by linarith
  then have "symbol_ok (CdfSym (range_cdf w (first_block w c)) (nat (contour_index w c - fst (windowRange w ! nat (first_block w c)))))"
    by (rule cdf_symbol [OF R(1)])
  ultimately show ?thesis using False by (simp add: selector_symbols_def codable_def del: symbol_ok.simps)
qed

lemma contour_codable:
  assumes "window_ok w" "s < 3" "lag_pred_ok blk prev" "record_ok (bs, ls)" "length vs = length bs"
    "\<forall>k<length bs. vs ! k div 64 = bs ! k"
  shows "codable 9 (contour_lags w s blk prev bs vs)"
proof -
  obtain b bt where bs: "bs = b # bt" using record_shape(1) [OF assms(4)] by (cases bs) auto
  obtain v vt where vs: "vs = v # vt" using assms(5) bs by (cases vs) auto
  have l: "length bs \<le> 8" using assms(4) by (simp add: record_ok_def)
  have v: "v div 64 = b" using assms(6) bs vs by (auto dest!: spec [of _ 0])
  have steps: "\<forall>k<length bt. - 1 \<le> bt ! k - (b # bt) ! k \<and> bt ! k - (b # bt) ! k \<le> 2"
  proof (intro allI impI)
    fix k assume "k < length bt"
    then show "- 1 \<le> bt ! k - (b # bt) ! k \<and> bt ! k - (b # bt) ! k \<le> 2" using record_steps [OF assms(4), of k] bs by simp
  qed
  have vt: "length vt = length bt" "\<forall>k<length bt. vt ! k div 64 = bt ! k" using assms(5,6) bs vs by auto
  show ?thesis
  proof (cases "fine_lag blk b")
    case True
    have "0 \<le> v - 64 * b" "v - 64 * b < 64" using v by presburger+
    then obtain n where n: "v - 64 * b = int n" "n < 64" by (metis nonneg_int_cases of_nat_less_iff of_nat_numeral)
    have "symbol_ok (FineSym (word_of_int (v - 64 * b)))" using n by (simp add: fine_ok_def unat_of_nat_small)
    from codable_le [OF codable_Cons [OF this segments_codable [OF assms(1,2) v steps vt]], of 9] show ?thesis
      using True bs vs l by (simp add: contour_lags_def)
  next
    case False
    then have d: "0 \<le> blk" "- 1 \<le> b - blk" "b - blk \<le> 2" by (auto simp: fine_lag_def)
    then have p: "prev div 64 = blk" using assms(3) by (auto simp: lag_pred_ok_def)
    have "\<forall>k<length bs. - 1 \<le> bs ! k - (blk # bs) ! k \<and> bs ! k - (blk # bs) ! k \<le> 2"
      using steps d bs by (auto simp: nth_Cons split: nat.splits)
    from codable_le [OF segments_codable [OF assms(1,2) p this assms(5,6)], of 9] show ?thesis
      using False bs l by (simp add: contour_lags_def)
  qed
qed

lemma pitch_codable:
  assumes "tables_ok cc" "window_ok w" "pitch_params_ok w low cs pp" "state_ok st"
  shows "codable 19 (pitch_symbols cc w low cs st pp)"
proof -
  let ?c = "nat (BlocksegIdx pp)" and ?s = "pitch_mode cc low pp" and ?ks = "[0..<nat (rate_p3 low)]"
  let ?r = "records w ! ?c"
  have P: "?c < 217" "lags_ok ?r (Laginds pp)" "\<forall>k\<in>set ?ks. ltp_ok cs (GainIdx pp) (FiltIdx pp) k"
    using assms(3) rate_nat(1) [of low] by (auto simp: pitch_params_ok_def)
  have st: "ltp_pred_ok (PrevGainIdx st) (PrevFiltIdx st)" "lag_pred_ok (PrevLag st) (PrevFracLag st)"
    using assms(4) by (simp_all add: state_ok_def)
  have ok: "record_ok (fst ?r, snd ?r)" using record_of [OF assms(2) P(1)] by simp
  have n: "length (seg_lags (snd ?r) (Laginds pp)) = length (fst ?r)" using record_shape [OF record_of [OF assms(2) P(1)]] by simp
  have "codable 8 (ltp_symbols cc low cs (GainIdx pp) (FiltIdx pp) ?ks (PrevGainIdx st) (PrevFiltIdx st))"
    using rate_nat(1) [of low] by (intro codable_le [OF ltp_codable [OF assms(1) P(3) st(1)]]) simp
  moreover have "\<forall>k<length (fst ?r). seg_lags (snd ?r) (Laginds pp) ! k div 64 = fst ?r ! k" using P(2) by (simp add: lags_ok_def)
  ultimately have "codable (8 + (2 + 9)) (pitch_symbols cc w low cs st pp)"
    unfolding pitch_symbols_def lag_symbols_split
    using selector_codable [OF assms(2) P(1) st(2)] contour_codable [OF assms(2) pitch_mode_range st(2) ok n]
    by (intro codable_append) auto
  then show ?thesis by simp
qed

section \<open>Internal frames\<close>

lemma internal_codable:
  assumes "lsf_tables_ok t" "tables_ok cc" "window_ok w" "internal_ok t cc w low st f ip" "f = 0 \<or> state_ok st"
  shows "codable 400 (internal_symbols t cc w low st f ip)"
proof -
  let ?s1 = "Stage1 (Lsf ip)" and ?cs = "Subfr (Pulses ip)"
  have ok: "lsf_params_ok t st (rate_p6 low) f (Lsf ip)" "pulse_params_ok cc low ?s1 (Pulses ip)" "?s1 \<in> {0, 1}"
    using assms(4) by (auto simp: internal_ok_def lsf_params_ok_def)
  have cfg: "rate_p6 low \<in> {0, 1}" by (simp add: rate_p6_def)
  have "codable 19 (if ?s1 = 1 then pitch_symbols cc w low ?cs (lsf_after st f (Lsf ip)) (Pitch ip) else gain_symbols cc low ?cs (Gains ip))"
    using assms(4) pitch_codable [OF assms(2,3) _ lsf_after_ok [OF assms(5)], of low ?cs "Pitch ip" "Lsf ip"]
      codable_le [OF gains_codable [OF assms(2) pulses_counts [OF ok(2)], of "Gains ip"], of 19]
    by (simp add: internal_ok_def split: if_splits)
  from codable_append [OF lsf_codable [OF assms(1) cfg ok(1)] codable_append [OF pulses_codable [OF assms(2) ok(3,2)] this]]
  show ?thesis unfolding internal_symbols_def by (rule codable_le) simp
qed

lemma frame_body_codable:
  "lsf_tables_ok t \<Longrightarrow> tables_ok cc \<Longrightarrow> window_ok w \<Longrightarrow> frame_ok t cc w low st f ips \<Longrightarrow> f = 0 \<or> state_ok st \<Longrightarrow>
   codable (400 * length ips) (frame_body t cc w low st f ips)"
proof (induction ips arbitrary: st f)
  case (Cons ip ips)
  have ok: "internal_ok t cc w low st f ip" "frame_ok t cc w low (internal_after w low st f ip) (f + 1) ips"
    using Cons.prems(4) by simp_all
  have "codable (400 + 400 * length ips) (frame_body t cc w low st f (ip # ips))"
    using codable_append [OF internal_codable [OF Cons.prems(1-3) ok(1) Cons.prems(5)]
        Cons.IH [OF Cons.prems(1-3) ok(2) disjI2 [OF internal_after_ok [OF Cons.prems(3) ok(1) Cons.prems(5)]]]] by simp
  then show ?case by simp
qed simp

end
