(* ===== verification/MlowExample.thy ===== *)
theory MlowExample
  imports MlowValid
begin

text \<open>
  Small tables of the shape the symbol decoders ask for and a frame of parameters in range: unvoiced with
  one pulse, voiced with one pulse, voiced without.  The theorems on frames are applied to them.
\<close>

definition example_tables :: SmplTables where
  "example_tables = \<lparr>LsfSel = replicate 3 [0, 1, 2], Match1 = [0, 1], Match1Alt = [0, 1], Match0 = [0, 1], Match0Alt = [0, 1],
     LsfStage2 = replicate 2 (replicate 2 (replicate 17 (replicate 16 [0, 1]))), LsfExtra = [0, 1]\<rparr>"

definition example_window :: contourWindowParts where
  "example_window = \<lparr>records = map (\<lambda>c. ([int (min (c div 24) 8), int (min (c div 24) 8)], [4, 4])) [0..<217],
     contourMap = map (\<lambda>c. of_nat (Suc c)) [0..<217],
     windowRange = map (\<lambda>b. (24 * int b, if b = 8 then 216 else 24 * int b + 23)) [0..<9],
     lagCdf = map of_nat [0..<218], fracCmfs = replicate 3 (map of_nat [0..<320]),
     deltaCmfs = replicate 9 (map of_nat [0..<10])\<rparr>"

definition example_pitch_tables :: PitchTables where
  "example_pitch_tables =
     \<lparr>Blocksegs = map (\<lambda>r. \<lparr>Nblocks = length (fst r), Blocks = fst r, Seglens = snd r\<rparr>) (records example_window),
      Blocktracks = [], Blocksegs2idx = map uint (contourMap example_window), BlocksegIdxCmf = lagCdf example_window,
      DeltaLagCmfs = fracCmfs example_window, BlocksegsIx = [], FirstblockRange = windowRange example_window,
      BlockTransitionCmf = deltaCmfs example_window\<rparr>"

definition example_frame :: SmplFrameParams where
  "example_frame =
     (let lsf = (\<lambda>s. \<lparr>Stage1 = s, Grid = 0, Stage2 = replicate 16 0, Extra = 0\<rparr>);
          pulse = \<lparr>Total = 1, Subfr = [1, 0, 0, 0], MagRuns = [3], SignSyms = [(1, 1)]\<rparr>;
          none = \<lparr>Total = 0, Subfr = [0, 0, 0, 0], MagRuns = [], SignSyms = []\<rparr>;
          pitch = (\<lambda>f. \<lparr>GainIdx = [0, 9, 15, 1], FiltIdx = [f, - 1, - 1, - 1], BlocksegIdx = 30,
            Laginds = [70, 70, 70, 70, 127, 127, 127, 127]\<rparr>);
          gain = \<lparr>GainMain = 0, GainDelta = 0, NrgRes = [5, 0, 0, 0]\<rparr>
      in \<lparr>TOC = 0x50, Config = 0, Internal =
           [\<lparr>Lsf = lsf 0, Pulses = pulse, HasPitch = False, Pitch = pitch 0, Gains = gain\<rparr>,
            \<lparr>Lsf = lsf 1, Pulses = pulse, HasPitch = True, Pitch = pitch 7, Gains = gain\<rparr>,
            \<lparr>Lsf = lsf 1, Pulses = none, HasPitch = True, Pitch = pitch (- 1), Gains = gain\<rparr>]\<rparr>)"

lemma example_tables_ok: "lsf_tables_ok example_tables"
proof -
  have "cdf_table [0, 1]" "cdf_table [0, 1, 2]" by (simp_all add: cdf_table_def)
  moreover have "grid_cdf example_tables m s = [0, 1]" for m s by (simp add: grid_cdf_def example_tables_def)
  ultimately show ?thesis by (simp add: lsf_tables_ok_def, simp add: example_tables_def)
qed

lemma wide_count: "n \<le> 65536 \<Longrightarrow> 0 < n \<Longrightarrow> wide_table (map of_nat [0..<n]) n"
  by (auto simp: wide_table_def sorted_wrt_iff_nth_less word_less_nat_alt unat_of_nat_small)

lemma example_window_ok: "window_ok example_window"
proof -
  have r: "record_ok ([b, b], [4, 4])" if "0 \<le> b" "b < 9" for b :: int
    using that by (simp add: record_ok_def)
  have u: "unat (of_nat (Suc c) :: u8) = Suc c" if "c < 217" for c
    using that by (simp only: unat_of_nat) simp
  have v: "uint (of_nat (Suc c) :: u8) = int (Suc c)" if "c < 217" for c
    by (simp only: uint_nat u [OF that])
  have "unat ` set (contourMap example_window) = (\<lambda>c. Suc c) ` {0..<217}"
    using u unfolding example_window_def contourWindowParts.simps set_map set_upt image_image by (intro image_cong) auto
  also have "\<dots> = {1..217}" by (simp only: image_Suc_atLeastLessThan) auto
  finally have m: "unat ` set (contourMap example_window) = {1..217}" .
  have b: "(fst (windowRange example_window ! b) \<le> uint (contourMap example_window ! c) - 1 \<and>
      uint (contourMap example_window ! c) - 1 \<le> snd (windowRange example_window ! b)) =
      (fst (records example_window ! c) ! 0 = int b)" if "c < 217" "b < 9" for c b
  proof -
    have "windowRange example_window ! b = (24 * int b, if b = 8 then 216 else 24 * int b + 23)"
      "contourMap example_window ! c = of_nat (Suc c)" "fst (records example_window ! c) ! 0 = int (min (c div 24) 8)"
      using that by (simp_all add: example_window_def del: upt_Suc upt_rec_numeral of_nat_Suc)
    moreover have "(24 * int b \<le> int c \<and> int c \<le> (if b = 8 then 216 else 24 * int b + 23)) = (int (min (c div 24) 8) = int b)"
      using that by (cases "b = 8") (auto simp: min_def)
    ultimately show ?thesis using v [OF that(1)] by simp
  qed
  have w: "\<forall>r\<in>set (records example_window). record_ok r"
    unfolding example_window_def contourWindowParts.simps by (auto intro!: r simp del: upt_rec_numeral)
  have l: "\<forall>(lo, hi)\<in>set (windowRange example_window). 0 \<le> lo \<and> lo \<le> hi \<and> hi \<le> 216"
    unfolding example_window_def contourWindowParts.simps by (auto simp del: upt_rec_numeral split: if_splits)
  show ?thesis
    unfolding window_ok_def using m b w l
    by (simp add: example_window_def wide_count del: upt_Suc upt_rec_numeral)
qed

lemma example_match: "tables_match example_pitch_tables example_window"
  by (simp add: tables_match_def example_pitch_tables_def)

lemma example_frame_ok:
  assumes "tables_ok cc"
  shows "frame_ok example_tables cc example_window False zero_lsf_state 0 (Internal example_frame)"
    "length (frame_body example_tables cc example_window False zero_lsf_state 0 (Internal example_frame)) \<le> 169"
proof -
  let ?t = "example_tables" and ?w = "example_window"
  have grid: "grid_cdf ?t m s = [0, 1]" for m s by (simp add: grid_cdf_def example_tables_def)
  have rows: "lsf_rows ?t 0 p ! k = [0, 1]" if "Stage1 p \<in> {0, 1}" "Grid p = 0" "k < 16" for p k
    using that by (auto simp: lsf_rows_def example_tables_def)
  have extra: "LsfExtra ?t = [0, 1]" by (simp add: example_tables_def)
  have lsf: "lsf_params_ok ?t st 0 f \<lparr>Stage1 = s, Grid = 0, Stage2 = replicate 16 0, Extra = 0\<rparr>" if "s \<in> {0, 1}" for st f s
    using that rows by (auto simp: lsf_params_ok_def grid extra index_in_def)
  have lsf_length: "length (lsf_symbols ?t st 0 f p) = 19" for st f p by (simp add: lsf_symbols_def)
  let ?one = "\<lparr>Total = 1, Subfr = [1, 0, 0, 0], MagRuns = [3], SignSyms = [(1, 1)]\<rparr>"
  let ?none = "\<lparr>Total = 0, Subfr = [0, 0, 0, 0], MagRuns = [], SignSyms = []\<rparr>"
  have tri: "length tri_cdf = 162" by (simp add: tri_cdf_def)
  have shapes: "sign_shape 0 = []" "sign_shape (Suc 0) = [1]" by (simp_all add: sign_shape.simps)
  have one: "pulse_params_ok cc False s ?one" for s
    by (simp add: pulse_params_ok_def index_in_def count_cdf_def tri counts_ok_def rate_most_def rate_counts_def rate_p3_def
        rate_pos_def pulse_places_def signs_ok_def shapes)
  have none: "pulse_params_ok cc False s ?none" for s
    by (simp add: pulse_params_ok_def index_in_def count_cdf_def tri counts_ok_def rate_most_def rate_counts_def rate_p3_def
        rate_pos_def pulse_places_def signs_ok_def shapes)
  have pulse_length: "length (pulse_symbols cc False s ?one) \<le> 6" "length (pulse_symbols cc False s ?none) \<le> 6" for s
    by (simp_all add: pulse_symbols_def split_block_def pair_symbols_def split_symbols_def rate_counts_def rate_p3_def sign_symbols_def
        Let_def)
  let ?gain = "\<lparr>GainMain = 0, GainDelta = 0, NrgRes = [5, 0, 0, 0]\<rparr>"
  let ?pitch = "\<lambda>f. \<lparr>GainIdx = [0, 9, 15, 1], FiltIdx = [f, - 1, - 1, - 1], BlocksegIdx = 30,
    Laginds = [70, 70, 70, 70, 127, 127, 127, 127]\<rparr>"
  have four: "(\<forall>k<4. Q k) = (Q 0 \<and> Q 1 \<and> Q 2 \<and> Q 3)" for Q :: "nat \<Rightarrow> bool"
    by (simp add: numeral_eq_Suc All_less_Suc) blast
  have "cdf_table (NrgresGain cc 4)" "cdf_table (NrgresShape cc 4)" using assms by (simp_all add: tables_ok_def)
  then have "index_in 0 (NrgresGain cc 4)" "index_in 0 (NrgresShape cc 4)" by (auto simp: cdf_table_def index_in_def)
  then have gain: "gain_params_ok cc False [1, 0, 0, 0] ?gain"
    by (simp add: gain_params_ok_def energy_ok_def rate_p3_def four)
  have r30: "records ?w ! 30 = ([1, 1], [4, 4])" by (simp add: example_window_def del: upt_Suc upt_rec_numeral)
  have rep: "replicate 4 x = [x, x, x, x]" for x :: int by (simp add: numeral_eq_Suc)
  have pitch: "pitch_params_ok ?w False [1, 0, 0, 0] (?pitch 7)" "pitch_params_ok ?w False [0, 0, 0, 0] (?pitch (- 1))"
    by (simp_all add: pitch_params_ok_def r30 lags_ok_def ltp_ok_def rate_p3_def four rep All_less_Suc)
  have gain_length: "length (gain_symbols cc False cs ?gain) \<le> 6" for cs
    by (simp add: gain_symbols_def energy_symbols_def rate_p3_def upt_conv_Cons)
  have pitch_length: "length (pitch_symbols cc ?w False cs st (?pitch f)) \<le> 19" for cs st f
    by (simp add: pitch_symbols_def rate_p3_def upt_conv_Cons lag_symbols_def r30 selector_symbols_def Let_def)
  show "frame_ok ?t cc ?w False zero_lsf_state 0 (Internal example_frame)"
    using lsf one none gain pitch by (simp add: example_frame_def internal_ok_def Let_def rate_p6_def)
  have m: "x = 19 \<Longrightarrow> y \<le> 6 \<Longrightarrow> z \<le> 19 \<Longrightarrow> x + (y + z) \<le> 44" for x y z :: nat by simp
  have i: "length (internal_symbols ?t cc ?w False st f ip) \<le> 44" if "ip \<in> set (Internal example_frame)" for st f ip
    using that pulse_length gain_length pitch_length
    by (auto simp: example_frame_def internal_symbols_def Let_def rate_p6_def intro!: m lsf_length intro: order_trans [of _ 6 19])
  have "length (frame_body ?t cc ?w False st f ips) \<le> 44 * length ips" if "set ips \<subseteq> set (Internal example_frame)" for st f ips
    using that
  proof (induction ips arbitrary: st f)
    case (Cons ip ips)
    then show ?case using add_mono [OF i [of ip st f] Cons.IH [of "internal_after ?w False st f ip" "f + 1"]] by simp
  qed simp
  from this [of "Internal example_frame" zero_lsf_state 0]
  show "length (frame_body ?t cc ?w False zero_lsf_state 0 (Internal example_frame)) \<le> 169"
    by (simp add: example_frame_def Let_def)
qed

lemma tables_exist: "\<exists>cc. tables_ok cc"
proof -
  have "seed_ok \<lparr>nrgresGain4Dcmf = [7], nrgresShape4Dcmf = [7, 255], fcbgOffsetDcmf = replicate 2112 200,
      acbgainsHrDcmf = replicate 272 0, fcbgainsVDcmf = replicate 34 1, fcbgainsVDeltaDcmf = replicate 67 255,
      seedCbHrQ14 = replicate 32 0, seedReconBase = 0xf35e0, seedRecon = [], nPulsesDcmfBgn = [1, 2],
      nPulsesDcmfUv = [3], nPulsesDcmfV = [0]\<rparr>"
    by (simp add: seed_ok_def)
  from tables_built [OF this] show ?thesis by blast
qed

end
