(* ===== verification/RangeFits.thy ===== *)
theory RangeFits
  imports RangeTotal
begin

text \<open>
  The encoder never reports an error while its buffer has room for three bytes a symbol and six for
  \<open>Done\<close>.  What counts is the bytes written, the byte held back and the run of 255s behind it.
\<close>

definition pending :: "RangeEncoder \<Rightarrow> nat" where
  "pending e = unat (eOffs e) + (if 0 \<le> sint (eRem e) then 1 else 0) + unat (eExt e)"

definition clean :: "RangeEncoder \<Rightarrow> bool" where
  "clean e \<longleftrightarrow> eErr e = 0 \<and> eEndOffs e = 0"

lemma writeByte_fits:
  assumes "clean e" "unat (eOffs e) < unat (eStorage e)"
  shows "clean (writeByte e b)" "unat (eOffs (writeByte e b)) = Suc (unat (eOffs e))"
proof -
  have "eOffs e < eStorage e" "unat (eOffs e + 1) = Suc (unat (eOffs e))"
    using assms(2) unat_lt_u32 [of "eStorage e"] by (simp_all add: word_less_nat_alt unat_plus)
  then show "clean (writeByte e b)" "unat (eOffs (writeByte e b)) = Suc (unat (eOffs e))"
    using assms(1) by (simp_all add: writeByte_def clean_def)
qed

lemma write_run_fits:
  "clean e \<Longrightarrow> unat (eOffs e) + n \<le> unat (eStorage e) \<Longrightarrow> n \<le> unat (eExt e) \<Longrightarrow>
   clean (write_run n b e) \<and> unat (eOffs (write_run n b e)) = unat (eOffs e) + n \<and>
   unat (eExt (write_run n b e)) = unat (eExt e) - n"
proof (induction n arbitrary: e)
  case (Suc n)
  define e1 where "e1 = (writeByte e b)\<lparr>eExt := eExt e - 1\<rparr>"
  have W: "clean (writeByte e b)" "unat (eOffs (writeByte e b)) = Suc (unat (eOffs e))"
    using writeByte_fits [of e b] Suc.prems(1,2) by simp_all
  have e1: "clean e1" "unat (eOffs e1) = Suc (unat (eOffs e))" "eStorage e1 = eStorage e" "unat (eExt e1) = unat (eExt e) - 1"
    using W Suc.prems(3) by (simp_all add: e1_def clean_def unat_minus)
  have "write_run (Suc n) b e = write_run n b e1" by (simp add: e1_def Let_def)
  then show ?case using Suc.IH [OF e1(1)] e1(2-4) Suc.prems(2,3) by simp
qed simp

lemma carryOut_fits:
  assumes "clean e" "pending e \<le> unat (eStorage e)" "pending e < 4294967295"
  shows "clean (carryOut e c) \<and> pending (carryOut e c) \<le> Suc (pending e)"
proof (cases "c = 255")
  case True
  have "unat (eExt e + 1) = unat (eExt e) + 1" using assms(3) by (subst unat_plus) (simp_all add: pending_def)
  then show ?thesis using True assms(1) by (simp add: carryOut_def clean_def pending_def)
next
  case False
  define carry where "carry = signed_drop_bit ecSymBits c"
  define e1 where "e1 = (if 0 \<le> sint (eRem e) then writeByte e (eRem e + carry) else e)"
  define e2 where "e2 = (if 0 < eExt e1 then write_run (unat (eExt e1)) ((ecSymMax + carry) AND ecSymMax) e1 else e1)"
  have out: "carryOut e c = e2\<lparr>eRem := c AND ecSymMax\<rparr>"
    unfolding e2_def e1_def carry_def using False by (simp add: carryOut_def Let_def)
  have 1: "clean e1" "unat (eOffs e1) = unat (eOffs e) + (if 0 \<le> sint (eRem e) then 1 else 0)"
      "eStorage e1 = eStorage e" "eExt e1 = eExt e"
    using writeByte_fits [OF assms(1), of "eRem e + carry"] assms(1,2) by (auto simp: e1_def pending_def)
  have s: "unat (eOffs e1) + unat (eExt e1) = pending e" using 1(2,4) by (simp add: pending_def)
  have 2: "clean e2" "unat (eOffs e2) = unat (eOffs e1) + unat (eExt e1)" "unat (eExt e2) = 0"
  proof -
    have "clean e2 \<and> unat (eOffs e2) = unat (eOffs e1) + unat (eExt e1) \<and> unat (eExt e2) = 0"
    proof (cases "0 < eExt e1")
      case True
      then show ?thesis
        using write_run_fits [OF 1(1), of "unat (eExt e1)"] s assms(2) 1(3) by (simp add: e2_def)
    next
      case False
      then have "eExt e1 = 0" by (simp add: word_gt_0)
      then show ?thesis using 1(1) by (simp add: e2_def)
    qed
    then show "clean e2" "unat (eOffs e2) = unat (eOffs e1) + unat (eExt e1)" "unat (eExt e2) = 0" by simp_all
  qed
  then show ?thesis using s unfolding out by (simp add: clean_def pending_def)
qed

lemma carryOut_storage [simp]: "eStorage (carryOut e c) = eStorage e"
  by (simp add: carryOut_def Let_def)

lemma shift_fits:
  "clean e \<Longrightarrow> pending e \<le> unat (eStorage e) \<Longrightarrow> pending e < 4294967295 \<Longrightarrow>
   clean (enc_shift e) \<and> pending (enc_shift e) \<le> Suc (pending e)"
  using carryOut_fits [of e "drop_bit 23 (eVal e)"] by (simp add: enc_shift_def Let_def clean_def pending_def)

lemma normalize_fits:
  "enc_normalize e = Some e' \<Longrightarrow> 8388608 < unat (eRng e) * 256 ^ n \<Longrightarrow> clean e \<Longrightarrow>
   pending e + n \<le> unat (eStorage e) \<Longrightarrow> clean e' \<and> pending e' \<le> pending e + n \<and> eStorage e' = eStorage e"
proof (induction n arbitrary: e)
  case 0
  then show ?case by (subst (asm) enc_normalize.simps) (simp add: word_le_nat_alt)
next
  case (Suc n)
  show ?case
  proof (cases "unat (eRng e) \<le> 8388608")
    case True
    have e': "enc_normalize (enc_shift e) = Some e'"
      using Suc.prems(1) True by (subst (asm) enc_normalize.simps) (simp add: word_le_nat_alt)
    have "8388608 < unat (eRng (enc_shift e)) * 256 ^ n"
      using Suc.prems(2) by (simp add: unat_shift_rng [OF True] algebra_simps)
    moreover have "clean (enc_shift e)" "pending (enc_shift e) \<le> Suc (pending e)"
      using shift_fits [OF Suc.prems(3)] Suc.prems(4) unat_lt_u32 [of "eStorage e"] by simp_all
    ultimately show ?thesis using Suc.IH [OF e'] Suc.prems(4) by simp
  next
    case False
    then have "e' = e" using Suc.prems(1) by (subst (asm) enc_normalize.simps) (simp add: word_le_nat_alt)
    then show ?thesis using Suc.prems(3) by simp
  qed
qed

lemma narrow_pending [simp]: "pending (narrow e c) = pending e" "clean (narrow e c) = clean e"
  by (simp_all add: pending_def clean_def narrow_def)

context range_symbol
begin

lemma fits:
  assumes "ok s" "enc_ready e" "enc s e = Some e'" "clean e" "pending e + 3 \<le> unat (eStorage e)"
  shows "clean e' \<and> pending e' \<le> pending e + 3 \<and> eStorage e' = eStorage e"
proof -
  have "enc_normalize (narrow e (cut s (eRng e))) = Some e'" using assms(3) narrowed(4) [OF assms(1,2)] by simp
  from normalize_fits [OF this narrowed(3) [OF assms(1,2)]] show ?thesis using assms(4,5) by simp
qed

end

lemma encode_all_fits:
  "list_all symbol_ok ss \<Longrightarrow> enc_ready e \<Longrightarrow> encode_all ss e = Some e' \<Longrightarrow> clean e \<Longrightarrow>
   pending e + 3 * length ss \<le> unat (eStorage e) \<Longrightarrow> clean e' \<and> pending e' \<le> pending e + 3 * length ss \<and> eStorage e' = eStorage e"
proof (induction ss arbitrary: e)
  case (Cons s ss)
  have ok: "symbol_ok s" "list_all symbol_ok ss" using Cons.prems(1) by simp_all
  obtain e1 where e1: "encode_symbol s e = Some e1" "enc_ready e1"
    using symbol_code.enc_returns [OF ok(1) Cons.prems(2)] by blast
  have rest: "encode_all ss e1 = Some e'" using Cons.prems(3) e1 by simp
  have "clean e1 \<and> pending e1 \<le> pending e + 3 \<and> eStorage e1 = eStorage e"
    using symbol_code.fits [OF ok(1) Cons.prems(2) e1(1) Cons.prems(4)] Cons.prems(5) by simp
  then show ?case using Cons.IH [OF ok(2) e1(2) rest] Cons.prems(5) by simp
qed simp

lemma flush_front_fits:
  "clean e \<Longrightarrow> pending e + n \<le> unat (eStorage e) \<Longrightarrow>
   clean (flush_front n e l x) \<and> pending (flush_front n e l x) \<le> pending e + n"
proof (induction n arbitrary: e l x)
  case (Suc n)
  show ?case
  proof (cases "0 < sint l")
    case True
    let ?e = "carryOut e (drop_bit 23 x)"
    have "clean ?e" "pending ?e \<le> Suc (pending e)"
      using carryOut_fits [OF Suc.prems(1)] Suc.prems(2) unat_lt_u32 [of "eStorage e"] by simp_all
    then show ?thesis
      using Suc.IH [of ?e "l - 8" "push_bit 8 x AND 2147483647"] Suc.prems(2) True by simp
  next
    case False
    then show ?thesis using Suc.prems(1) by simp
  qed
qed simp

lemma Done_fits:
  assumes "clean e" "eNendBits e = 0" "pending e + 6 \<le> unat (eStorage e)"
  shows "eErr (Done e) = 0"
proof -
  obtain l x where plan: "flush_plan e = (l, x)" by (cases "flush_plan e")
  define e1 where "e1 = flush_front 5 e l x"
  define e2 where "e2 = (if 0 \<le> sint (eRem e1) \<or> 0 < eExt e1 then carryOut e1 0 else e1)"
  have 1: "clean e1" "pending e1 \<le> pending e + 5" "eStorage e1 = eStorage e"
    using flush_front_fits [OF assms(1), of 5 l x] assms(3) by (simp_all add: e1_def)
  have "clean e2"
    using carryOut_fits [OF 1(1), of 0] 1 assms(3) unat_lt_u32 [of "eStorage e"] by (simp add: e2_def)
  then have err: "eErr e2 = 0" by (simp add: clean_def)
  have "eNendBits e2 = 0" using assms(2) by (simp add: e2_def e1_def)
  then have "Done e = (if eErr e2 \<noteq> 0 then e2 else e2\<lparr>eBuf := zero_fill e2\<rparr>)"
    unfolding Done_def plan Let_def prod.case by (fold e1_def, fold e2_def, simp add: flush_back_none)
  then show ?thesis using err by simp
qed

lemma short_code_fits:
  assumes "list_all symbol_ok ss" "3 * length ss + 6 \<le> n" "n < 4294967296"
  shows "\<exists>e. encode_all ss (NewRangeEncoder n) = Some e \<and> eErr (Done e) = 0"
proof -
  let ?e0 = "NewRangeEncoder n"
  obtain e where e: "encode_all ss ?e0 = Some e" "eNendBits e = 0"
    using encode_all_returns [OF assms(1) start_ready(1)] by (auto simp: NewRangeEncoder_def)
  have "clean ?e0" "pending ?e0 = 0" "unat (eStorage ?e0) = n"
    using assms(3) by (simp_all add: clean_def pending_def NewRangeEncoder_def unat_of_nat_small)
  then have "clean e \<and> pending e \<le> 3 * length ss \<and> unat (eStorage e) = n"
    using encode_all_fits [OF assms(1) start_ready(1) e(1)] assms(2) by simp
  then show ?thesis using Done_fits [of e] e assms(2) by auto
qed

section \<open>The bytes kept\<close>
text \<open>The buffer keeps its length.\<close>

lemma buffer_kept [simp]:
  "length (eBuf (writeByte e b)) = length (eBuf e)" "length (eBuf (write_run n b e)) = length (eBuf e)"
  "length (eBuf (carryOut e c)) = length (eBuf e)" "length (eBuf (flush_front n e l x)) = length (eBuf e)"
proof -
  show w: "length (eBuf (writeByte e b)) = length (eBuf e)" for e b by (simp add: writeByte_def)
  show r: "length (eBuf (write_run n b e)) = length (eBuf e)" for n b e
    by (induction n arbitrary: e) (simp_all add: Let_def w)
  show c: "length (eBuf (carryOut e c)) = length (eBuf e)" for e c by (simp add: carryOut_def Let_def w r)
  show "length (eBuf (flush_front n e l x)) = length (eBuf e)" by (induction n arbitrary: e l x) (simp_all add: c)
qed

lemma zero_fill_length: "length (eBuf e) \<le> length (zero_fill e)"
  by (auto simp: zero_fill_def Let_def)

lemma coded_length:
  assumes ss: "list_all symbol_ok ss" "length ss < 268435456" "encode_all ss (NewRangeEncoder n) = Some e"
    and err: "eErr (Done e) = 0" and n: "n < 4294967296"
  shows "ConsumedLen (Done e) \<le> length (eBuf (Done e))"
proof -
  have e: "enc_ready e" "eEndOffs e = 0" "eNendBits e = 0" "eStorage e = of_nat n"
    using encode_all_returns [OF ss(1) start_ready(1), of n] ss(3) by (auto simp: NewRangeEncoder_def)
  have "length (digits (NewRangeEncoder n)) + 3 * length ss < 4294967296" using ss(2) by (simp add: start_ready)
  from encode_all_exact [OF ss(1) start_ready(1) ss(3) Done_err [OF e(3) err] this, of undefined undefined]
  have "length (digits e) + 5 < 4294967295" using ss(2) by (simp add: start_ready)
  from Done_exact [OF e(1,3,2) err this] have "ConsumedLen (Done e) \<le> unat (eStorage e)" by blast
  also have "\<dots> \<le> length (eBuf e)" using e(1) by (simp add: enc_ready_def enc_geo_def)
  also have "\<dots> \<le> length (eBuf (Done e))"
  proof -
    obtain l x where plan: "flush_plan e = (l, x)" by (cases "flush_plan e")
    show ?thesis using Done_plain(1) [OF e(3) err plan] zero_fill_length by (simp, metis buffer_kept(3,4) order_trans)
  qed
  finally show ?thesis .
qed

end
