(* ===== verification/MlowPitchBuilt.thy ===== *)
theory MlowPitchBuilt
  imports MlowPitchWrite
begin

text \<open>
  The tables of the encoder and the window of the decoder, built from one pitch seed, hold the same contours
  and cumulative tables, and the cumulative tables are ones the range coder can use.
\<close>

lemma decode_blocks_length: "decode_blocks n d = Some (bs, ls, d') \<Longrightarrow> length bs = n \<and> length ls = n"
proof (induction n arbitrary: d bs ls d')
  case (Suc n)
  then show ?case by (auto split: bind_splits)
qed simp

lemma decode_blocksegs_sizes: "decode_blocksegs n d = Some segs \<Longrightarrow> \<forall>s\<in>set segs. Nblocks s = length (Blocks s)"
proof (induction n arbitrary: d segs)
  case (Suc n)
  then show ?case by (auto simp: decodeBlockseg_def dest!: decode_blocks_length split: bind_splits)
qed simp

lemma seed_tables_match:
  assumes "buildContourWindow s = Some w" "buildPitchTablesFromSeed s = Some tab"
  shows "tables_match tab w"
proof -
  obtain d segs tracks where d: "NewRangeDecoder (blocksegsBitstream s) = Some d" "decode_blocksegs pitchNumBlocksegs d = Some segs"
      "genBlocktracks segs (chunkPairs (blocksegsIx s)) = Some tracks"
    using assms(2) by (auto simp: buildPitchTablesFromSeed_def split: bind_splits)
  have "map (\<lambda>bs. \<lparr>Nblocks = length (Blocks bs), Blocks = Blocks bs, Seglens = Seglens bs\<rparr>) segs = segs"
    using decode_blocksegs_sizes [OF d(2)] by (intro map_idI) simp
  then show ?thesis
    using assms d by (auto simp: tables_match_def buildPitchTablesFromSeed_def buildContourWindow_def comp_def)
qed

lemma wide_dcmf:
  assumes "bs \<noteq> []" "length bs \<le> 32766"
  shows "wide_table (pitchDcmfToCmf bs) (length bs + 1)"
proof -
  have s: "sorted_wrt (<) (dcmf_table bs)"
    unfolding dcmf_table_def by (rule cums_sorted) (simp add: shares_def list.pred_map list_all_iff)
  have b: "x \<le> 32767" if "x \<in> set (dcmf_table bs)" for x
    using that cums_bound [of x 0 "shares (length bs) (map square_nat bs)"] shares_total [of "map square_nat bs"] assms(2)
    by (auto simp: dcmf_table_def)
  have m: "(of_nat x :: u32) < of_nat y" if "x < y" "y \<le> 32767" for x y
    using that by (simp add: word_less_nat_alt unat_of_nat_small)
  have "sorted_wrt (\<lambda>x y. (of_nat x :: u32) < of_nat y) (dcmf_table bs)"
    using b by (intro sorted_wrt_mono_rel [OF _ s]) (auto intro: m)
  moreover have "(of_nat x :: u32) < 65536" if "x \<in> set (dcmf_table bs)" for x
    using b [OF that] by (simp add: word_less_nat_alt unat_of_nat_small)
  moreover have "dcmf_table bs ! 0 = 0" by (simp add: dcmf_table_def)
  ultimately show ?thesis
    by (simp add: wide_table_def dcmf_tables(3) [OF assms(2)] sorted_wrt_map nth_map)
qed

lemma wide_chunks:
  assumes "0 < step" "step \<le> 32766" "length b = n * step"
  shows "length (map pitchDcmfToCmf (chunks step b)) = n" "\<forall>c\<in>set (map pitchDcmfToCmf (chunks step b)). wide_table c (step + 1)"
proof -
  show "length (map pitchDcmfToCmf (chunks step b)) = n" using assms by (simp add: chunks_def)
  show "\<forall>c\<in>set (map pitchDcmfToCmf (chunks step b)). wide_table c (step + 1)"
  proof
    fix c assume "c \<in> set (map pitchDcmfToCmf (chunks step b))"
    then obtain i where i: "i < n" "c = pitchDcmfToCmf (take step (drop (i * step) b))" using assms by (auto simp: chunks_def)
    have "i * step + step \<le> n * step" using i(1) mult_le_mono1 [of "Suc i" n step] by simp
    then have "length (take step (drop (i * step) b)) = step" using assms(3) by simp
    then show "wide_table c (step + 1)" using wide_dcmf [of "take step (drop (i * step) b)"] assms(1,2) i(2) by fastforce
  qed
qed

text \<open>What is left to the contents of the seed: the contours, their indices and the ranges of the first blocks.\<close>

definition contours_ok :: "contourWindowParts \<Rightarrow> bool" where
  "contours_ok w \<longleftrightarrow> (\<forall>r\<in>set (records w). record_ok r) \<and> length (contourMap w) = 217 \<and> unat ` set (contourMap w) = {1..217} \<and>
     length (windowRange w) = 9 \<and> (\<forall>(lo, hi)\<in>set (windowRange w). 0 \<le> lo \<and> lo \<le> hi \<and> hi \<le> 216) \<and>
     (\<forall>c<217. \<forall>b<9. (fst (windowRange w ! b) \<le> uint (contourMap w ! c) - 1 \<and>
        uint (contourMap w ! c) - 1 \<le> snd (windowRange w ! b)) = (fst (records w ! c) ! 0 = int b))"

lemma decode_blocksegs_length: "decode_blocksegs n d = Some segs \<Longrightarrow> length segs = n"
proof (induction n arbitrary: d segs)
  case (Suc n)
  then show ?case by (auto split: bind_splits)
qed simp

lemma window_built:
  assumes "buildContourWindow s = Some w" "contours_ok w"
    and "length (blocksegIdxDcmf s) = 217" "length (deltaLagDcmfs s) = 957" "length (blockTransitionDcmf s) = 81"
  shows "window_ok w"
proof -
  obtain d segs where d: "decode_blocksegs pitchNumBlocksegs d = Some segs" "records w = map (\<lambda>bs. (Blocks bs, Seglens bs)) segs"
      "lagCdf w = pitchDcmfToCmf (blocksegIdxDcmf s)" "fracCmfs w = map pitchDcmfToCmf (chunks 319 (deltaLagDcmfs s))"
      "deltaCmfs w = map pitchDcmfToCmf (chunks pitchNumBlocks (blockTransitionDcmf s))"
    using assms(1) by (auto simp: buildContourWindow_def split: bind_splits)
  have "length (records w) = 217" using decode_blocksegs_length [OF d(1)] by (simp add: d(2) pitchNumBlocksegs_def)
  moreover have "wide_table (lagCdf w) 218" using wide_dcmf [of "blocksegIdxDcmf s"] assms(3) d(3) by force
  moreover have "length (fracCmfs w) = 3" "\<forall>c\<in>set (fracCmfs w). wide_table c 320"
    using wide_chunks [of 319 "deltaLagDcmfs s" 3] assms(4) d(4) by simp_all
  moreover have "length (deltaCmfs w) = 9" "\<forall>c\<in>set (deltaCmfs w). wide_table c 10"
    using wide_chunks [of 9 "blockTransitionDcmf s" 9] assms(5) d(5) by (simp_all add: pitchNumBlocks_def)
  ultimately show ?thesis using assms(2) unfolding window_ok_def contours_ok_def by blast
qed

end
