(* ===== verification/MlowLsfSeed.thy ===== *)
theory MlowLsfSeed
  imports MlowPitch
begin

text \<open>
  mlow/lsf_seed.go: the packed seed of the LSF tables and the cumulative tables of the LSF decoder built
  from it.  A \<open>float32\<close> of the seed is kept as its bit pattern; the tables of floating-point numbers that
  \<open>buildLsfFromSeed\<close> computes beside these are not modelled.  Arrays are filled in row-major order; an index
  past a field is a panic, \<open>None\<close>.
\<close>

section \<open>The seed\<close>

definition lsfOrder :: nat where "lsfOrder = 16"
definition lsfCentroids :: nat where "lsfCentroids = 16"
definition lsfST2Len :: nat where "lsfST2Len = 9593"

record lsfSeed =
  cb16 :: "u16 list list list"
  cinv16 :: "u16 list list"
  rot8 :: "bytes list list list"
  rotCond8 :: "bytes list list list"
  seedMean :: "u32 list list"
  seedCmf :: "u16 list list"
  seedCmfCond :: "u16 list list"
  minDist :: "u32 list list"
  regCond :: "u32 list"
  minQi :: "int list list list list"
  maxQi :: "int list list list list"
  seedQstep :: "u32 list list"
  st2Qlvls8 :: bytes
  st2Dcmfs :: bytes
  lsfSel :: "u16 list list"
  lsfExtra :: "u16 list"

definition decodeFloats :: "bytes \<Rightarrow> u32 list" where
  "decodeFloats b = map get_le (chunks 4 b)"

text \<open>\<open>n\<close> rows of \<open>k\<close>, and the first \<open>n\<close> cells of a field.\<close>

definition rows_of :: "nat \<Rightarrow> nat \<Rightarrow> 'a list \<Rightarrow> 'a list list" where
  "rows_of n k xs = map (\<lambda>i. take k (drop (i * k) xs)) [0..<n]"

definition fill_from :: "nat \<Rightarrow> 'a list \<Rightarrow> 'a list option" where
  "fill_from n xs = (if length xs < n then None else Some (take n xs))"

definition qi_array :: "bytes \<Rightarrow> int list list list list" where
  "qi_array xs = map (\<lambda>a. map (rows_of 17 16) (rows_of 2 272 a)) (rows_of 2 544 (map sint xs))"

definition loadLsfSeed :: "bytes \<Rightarrow> lsfSeed option" where
  "loadLsfSeed raw = do {
     f \<leftarrow> parseProto raw;
     rot \<leftarrow> fill_from 8192 (field_bytes f 1);
     rotc \<leftarrow> fill_from 1024 (field_bytes f 2);
     mn \<leftarrow> fill_from 1088 (field_bytes f 5);
     mx \<leftarrow> fill_from 1088 (field_bytes f 6);
     cb \<leftarrow> fill_from 512 (decodeVarintsU32 (field_bytes f 7));
     cinv \<leftarrow> fill_from 272 (decodeVarintsU32 (field_bytes f 8));
     cmf \<leftarrow> fill_from 34 (decodeVarintsU32 (field_bytes f 9));
     cmfc \<leftarrow> fill_from 36 (decodeVarintsU32 (field_bytes f 10));
     sel \<leftarrow> fill_from 9 (decodeVarintsU32 (field_bytes f 11));
     ex \<leftarrow> fill_from 3 (decodeVarintsU32 (field_bytes f 12));
     mean \<leftarrow> fill_from 32 (decodeFloats (field_bytes f 13));
     md \<leftarrow> fill_from 34 (decodeFloats (field_bytes f 14));
     rc \<leftarrow> fill_from 2 (decodeFloats (field_bytes f 15));
     qs \<leftarrow> fill_from 4 (decodeFloats (field_bytes f 16));
     Some \<lparr>cb16 = map (rows_of 16 16) (rows_of 2 256 (map ucast cb)), cinv16 = rows_of 2 136 (map ucast cinv),
       rot8 = map (\<lambda>a. map (rows_of 16 16) (rows_of 16 256 a)) (rows_of 2 4096 rot),
       rotCond8 = map (\<lambda>a. map (rows_of 16 16) (rows_of 2 256 a)) (rows_of 2 512 rotc),
       seedMean = rows_of 2 16 mean, seedCmf = rows_of 2 17 (map ucast cmf), seedCmfCond = rows_of 2 18 (map ucast cmfc),
       minDist = rows_of 2 17 md, regCond = rc, minQi = qi_array mn, maxQi = qi_array mx, seedQstep = rows_of 2 2 qs,
       st2Qlvls8 = field_bytes f 3, st2Dcmfs = field_bytes f 4, lsfSel = rows_of 3 3 (map ucast sel),
       lsfExtra = map ucast ex\<rparr>
   }"

section \<open>The tables\<close>

text \<open>
  The three pointers into the flat arrays: the levels written, the level bytes and the delta tables read.
  One cell of the second stage takes as many levels as its bounds say, at each pointer.  The delta tables
  are sliced, and a slice may reach into the capacity of its array: \<open>spare\<close> is what the run-time left
  there behind the copied bytes.
\<close>

record pointers =
  qPtr :: nat
  q8Ptr :: nat
  dcmfPtr :: nat

definition stage2_cell :: "bytes \<Rightarrow> lsfSeed \<Rightarrow> int \<times> int \<Rightarrow> pointers \<Rightarrow> (u16 list \<times> pointers) option" where
  "stage2_cell spare s bounds p =
     (let numQlvls = snd bounds - fst bounds + 1; n = nat numQlvls
      in if 0 < numQlvls \<and> (lsfST2Len < qPtr p + n \<or> length (st2Qlvls8 s) < q8Ptr p + n) then None
         else if numQlvls < 0 \<or> length (st2Dcmfs s @ spare) < dcmfPtr p + n then None
         else Some (lsfDcmfToCmf (take n (drop (dcmfPtr p) (st2Dcmfs s @ spare))),
           \<lparr>qPtr = qPtr p + n, q8Ptr = q8Ptr p + n, dcmfPtr = dcmfPtr p + n\<rparr>))"

text \<open>A loop that passes the pointers on.\<close>

fun walk :: "('a \<Rightarrow> 'p \<Rightarrow> ('b \<times> 'p) option) \<Rightarrow> 'a list \<Rightarrow> 'p \<Rightarrow> ('b list \<times> 'p) option" where
  "walk f [] p = Some ([], p)"
| "walk f (x # xs) p = do {
     (y, p1) \<leftarrow> f x p;
     (ys, p2) \<leftarrow> walk f xs p1;
     Some (y # ys, p2)
   }"

definition buildLsfTables :: "bytes \<Rightarrow> lsfSeed \<Rightarrow> SmplTables option" where
  "buildLsfTables spare s = do {
     (rows, p) \<leftarrow> walk (walk (walk (walk (stage2_cell spare s)))) (map2 (map2 (map2 zip)) (minQi s) (maxQi s))
       \<lparr>qPtr = 0, q8Ptr = 0, dcmfPtr = 0\<rparr>;
     (if qPtr p \<noteq> lsfST2Len \<or> q8Ptr p \<noteq> lsfST2Len \<or> dcmfPtr p \<noteq> lsfST2Len then None
      else Some \<lparr>LsfSel = lsfSel s, Match1 = seedCmfCond s ! 1, Match1Alt = seedCmfCond s ! 0, Match0 = seedCmf s ! 0,
        Match0Alt = seedCmf s ! 1, LsfStage2 = rows, LsfExtra = lsfExtra s\<rparr>)
   }"

end
