(* ===== verification/MlowLsfBuilt.thy ===== *)
theory MlowLsfBuilt
  imports MlowLsfSeed
begin

text \<open>The LSF tables built from a seed of the right shape are tables the LSF decoder can rely on.\<close>

section \<open>The shape of a seed\<close>

definition qi_shape :: "'a list list list list \<Rightarrow> bool" where
  "qi_shape q \<longleftrightarrow> length q = 2 \<and> (\<forall>a\<in>set q. length a = 2 \<and> (\<forall>b\<in>set a. length b = 17 \<and> (\<forall>c\<in>set b. length c = 16)))"

text \<open>What the types of the fields say: the lengths of the arrays, and bounds of type \<open>int8\<close>.\<close>

definition int8_cells :: "int list list list list \<Rightarrow> bool" where
  "int8_cells q \<longleftrightarrow> (\<forall>a\<in>set q. \<forall>b\<in>set a. \<forall>c\<in>set b. \<forall>v\<in>set c. - 128 \<le> v \<and> v < 128)"

definition seed_shape :: "lsfSeed \<Rightarrow> bool" where
  "seed_shape s \<longleftrightarrow> qi_shape (minQi s) \<and> qi_shape (maxQi s) \<and> int8_cells (minQi s) \<and> int8_cells (maxQi s) \<and>
     length (seedCmf s) = 2 \<and> (\<forall>c\<in>set (seedCmf s). length c = 17) \<and>
     length (seedCmfCond s) = 2 \<and> (\<forall>c\<in>set (seedCmfCond s). length c = 18) \<and>
     length (lsfSel s) = 3 \<and> (\<forall>c\<in>set (lsfSel s). length c = 3) \<and> length (lsfExtra s) = 3"

lemma rows_of_shape: "n * k \<le> length xs \<Longrightarrow> length (rows_of n k xs) = n \<and> (\<forall>r\<in>set (rows_of n k xs). length r = k)"
proof -
  assume l: "n * k \<le> length xs"
  have "min (length xs - i * k) k = k" if "i < n" for i
    using that l mult_le_mono1 [of "Suc i" n k] by simp
  then show ?thesis by (auto simp: rows_of_def)
qed

lemma ball_map: "\<forall>x\<in>set xs. P x \<Longrightarrow> (\<And>x. P x \<Longrightarrow> R (f x)) \<Longrightarrow> \<forall>z\<in>set (map f xs). R z"
  by simp

lemma ball_map2:
  assumes "\<forall>x\<in>set xs. P x" "\<forall>y\<in>set ys. Q y" "\<And>x y. P x \<Longrightarrow> Q y \<Longrightarrow> R (f x y)"
  shows "\<forall>z\<in>set (map2 f xs ys). R z"
proof
  fix z assume "z \<in> set (map2 f xs ys)"
  then obtain a b where ab: "(a, b) \<in> set (zip xs ys)" "z = f a b" by auto
  show "R z" unfolding ab(2) using assms set_zip_leftD [OF ab(1)] set_zip_rightD [OF ab(1)] by blast
qed

lemma qi_array_shape:
  assumes "length xs = 1088"
  shows "qi_shape (qi_array xs)"
proof -
  let ?P1 = "\<lambda>c. length c = 16" and ?P2 = "\<lambda>b. length b = 17 \<and> (\<forall>c\<in>set b. length c = 16)"
  let ?P3 = "\<lambda>a. length a = 2 \<and> (\<forall>b\<in>set a. length b = 17 \<and> (\<forall>c\<in>set b. length c = 16))"
  have a: "?P2 (rows_of 17 16 b)" if "length b = 272" for b :: "int list"
    using that by (intro rows_of_shape) simp
  have b: "?P3 (map (rows_of 17 16) (rows_of 2 272 x))" if "length x = 544" for x :: "int list"
  proof
    have r: "length (rows_of 2 272 x) = 2 \<and> (\<forall>b\<in>set (rows_of 2 272 x). length b = 272)" using that by (intro rows_of_shape) simp
    then show "length (map (rows_of 17 16) (rows_of 2 272 x)) = 2" by simp
    show "\<forall>b\<in>set (map (rows_of 17 16) (rows_of 2 272 x)). ?P2 b" using r a by (intro ball_map [where P = "\<lambda>b. length b = 272"]) blast+
  qed
  have r: "length (rows_of 2 544 (map sint xs)) = 2 \<and> (\<forall>a\<in>set (rows_of 2 544 (map sint xs)). length a = 544)"
    using assms by (intro rows_of_shape) simp
  show ?thesis
    unfolding qi_shape_def qi_array_def
  proof
    show "length (map (\<lambda>a. map (rows_of 17 16) (rows_of 2 272 a)) (rows_of 2 544 (map sint xs))) = 2" using r by simp
    show "\<forall>a\<in>set (map (\<lambda>a. map (rows_of 17 16) (rows_of 2 272 a)) (rows_of 2 544 (map sint xs))). ?P3 a"
      using r b by (intro ball_map [where P = "\<lambda>x. length x = 544"]) blast+
  qed
qed

lemma set_rows_of: "r \<in> set (rows_of n k xs) \<Longrightarrow> set r \<subseteq> set xs"
  by (auto simp: rows_of_def dest: in_set_takeD in_set_dropD)

lemma qi_array_int8: "int8_cells (qi_array xs)"
proof -
  have "- 128 \<le> v \<and> v < 128" if "a \<in> set (rows_of 2 544 (map sint xs))" "b \<in> set (rows_of 2 272 a)" "c \<in> set (rows_of 17 16 b)" "v \<in> set c"
    for a b c and v
  proof -
    have "v \<in> set (map sint xs)" using set_rows_of that by blast
    then obtain x :: u8 where "v = sint x" by auto
    then show ?thesis using sint_range_size [of x] by (simp add: word_size)
  qed
  then show ?thesis by (auto simp: int8_cells_def qi_array_def)
qed

lemma fill_from_length: "fill_from n xs = Some ys \<Longrightarrow> length ys = n"
  by (auto simp: fill_from_def split: if_splits)

lemma loadLsfSeed_shape:
  assumes "loadLsfSeed raw = Some s"
  shows "seed_shape s"
proof -
  obtain mn mx :: bytes and cmf cmfc sel ex :: "u32 list" where l: "length mn = 1088" "length mx = 1088" "length cmf = 34"
      "length cmfc = 36" "length sel = 9" "length ex = 3"
    and s: "minQi s = qi_array mn" "maxQi s = qi_array mx" "seedCmf s = rows_of 2 17 (map ucast cmf)"
      "seedCmfCond s = rows_of 2 18 (map ucast cmfc)" "lsfSel s = rows_of 3 3 (map ucast sel)" "lsfExtra s = map ucast ex"
    using assms by (auto simp: loadLsfSeed_def dest!: fill_from_length split: bind_splits)
  show ?thesis
    using rows_of_shape [of 2 17 "map ucast cmf :: u16 list"] rows_of_shape [of 2 18 "map ucast cmfc :: u16 list"]
      rows_of_shape [of 3 3 "map ucast sel :: u16 list"] l
    by (simp add: seed_shape_def s qi_array_shape qi_array_int8)
qed

section \<open>The walk\<close>

text \<open>
  A step advances all three pointers alike, by the width of its argument, and fails exactly when the
  argument is not allowed or does not fit below \<open>N\<close>.  So does the loop over it.
\<close>

definition level :: "nat \<Rightarrow> pointers" where
  "level p = \<lparr>qPtr = p, q8Ptr = p, dcmfPtr = p\<rparr>"

definition advances :: "nat \<Rightarrow> (pointers \<Rightarrow> ('b \<times> pointers) option) \<Rightarrow> bool \<Rightarrow> nat \<Rightarrow> ('b \<Rightarrow> bool) \<Rightarrow> bool" where
  "advances N f allowed width Q \<longleftrightarrow> (\<forall>p\<le>N.
     case f (level p) of
       None \<Rightarrow> \<not> (allowed \<and> p + width \<le> N)
     | Some (y, p') \<Rightarrow> allowed \<and> p + width \<le> N \<and> p' = level (p + width) \<and> Q y)"

lemma advancesE:
  assumes "advances N f a w Q" "p \<le> N"
  obtains "f (level p) = None" "\<not> (a \<and> p + w \<le> N)"
  | y where "f (level p) = Some (y, level (p + w))" "a" "p + w \<le> N" "Q y"
proof -
  have c: "case f (level p) of None \<Rightarrow> \<not> (a \<and> p + w \<le> N)
      | Some (y, p') \<Rightarrow> a \<and> p + w \<le> N \<and> p' = level (p + w) \<and> Q y"
    using assms by (simp add: advances_def)
  show thesis
  proof (cases "f (level p)")
    case None
    then have "\<not> (a \<and> p + w \<le> N)" using c by simp
    then show thesis using None that(1) by blast
  next
    case (Some yp)
    then show thesis using c that(2) [of "fst yp"] by (cases yp) simp
  qed
qed

lemma walk_advances:
  "\<forall>x\<in>set xs. advances N (f x) (ok x) (w x) (Q x) \<Longrightarrow>
   advances N (walk f xs) (list_all ok xs) (sum_list (map w xs)) (list_all2 Q xs)"
proof (induction xs)
  case Nil
  then show ?case by (simp add: advances_def)
next
  case (Cons x xs)
  have x: "advances N (f x) (ok x) (w x) (Q x)" using Cons.prems by simp
  have xs: "advances N (walk f xs) (list_all ok xs) (sum_list (map w xs)) (list_all2 Q xs)" using Cons by simp
  show ?case
    unfolding advances_def
  proof (intro allI impI)
    fix p assume "p \<le> N"
    with x show "case walk f (x # xs) (level p) of
        None \<Rightarrow> \<not> (list_all ok (x # xs) \<and> p + sum_list (map w (x # xs)) \<le> N)
      | Some (y, p') \<Rightarrow> list_all ok (x # xs) \<and> p + sum_list (map w (x # xs)) \<le> N \<and>
          p' = level (p + sum_list (map w (x # xs))) \<and> list_all2 Q (x # xs) y"
    proof (cases rule: advancesE)
      case 1
      then show ?thesis by auto
    next
      case (2 y)
      from xs 2(3) show ?thesis
        by (cases rule: advancesE) (use 2 in \<open>auto simp: add.assoc\<close>)
    qed
  qed
qed

definition levels :: "int \<times> int \<Rightarrow> nat" where "levels b = nat (snd b - fst b + 1)"

definition row_levels :: "(int \<times> int) list \<Rightarrow> nat" where "row_levels r = sum_list (map levels r)"
definition grid_levels :: "(int \<times> int) list list \<Rightarrow> nat" where "grid_levels g = sum_list (map row_levels g)"
definition rate_levels :: "(int \<times> int) list list list \<Rightarrow> nat" where "rate_levels q = sum_list (map grid_levels q)"
definition all_levels :: "(int \<times> int) list list list list \<Rightarrow> nat" where "all_levels q = sum_list (map rate_levels q)"

definition qi_bounds :: "lsfSeed \<Rightarrow> (int \<times> int) list list list list" where
  "qi_bounds s = map2 (map2 (map2 zip)) (minQi s) (maxQi s)"

abbreviation cells_all :: "('a \<Rightarrow> bool) \<Rightarrow> 'a list list list list \<Rightarrow> bool" where
  "cells_all P \<equiv> list_all (list_all (list_all (list_all P)))"

abbreviation cells_all2 :: "('a \<Rightarrow> 'b \<Rightarrow> bool) \<Rightarrow> 'a list list list list \<Rightarrow> 'b list list list list \<Rightarrow> bool" where
  "cells_all2 P \<equiv> list_all2 (list_all2 (list_all2 (list_all2 P)))"

text \<open>
  When the walk fits: no cell has a negative number of levels, the numbers of levels add up to the length
  of the flat arrays, and the arrays of the seed are at least that long.
\<close>

definition seed_fits :: "bytes \<Rightarrow> lsfSeed \<Rightarrow> bool" where
  "seed_fits spare s \<longleftrightarrow> cells_all (\<lambda>(l, h). l \<le> h + 1) (qi_bounds s) \<and> all_levels (qi_bounds s) = lsfST2Len \<and>
     lsfST2Len \<le> length (st2Qlvls8 s) \<and> lsfST2Len \<le> length (st2Dcmfs s) + length spare"

text \<open>When the tables can be used: those the seed holds grow strictly, and no cell is without levels.\<close>

definition seed_usable :: "lsfSeed \<Rightarrow> bool" where
  "seed_usable s \<longleftrightarrow>
     (\<forall>c\<in>set (seedCmf s) \<union> set (seedCmfCond s) \<union> set (lsfSel s) \<union> {lsfExtra s}. cdf_table c) \<and>
     cells_all (\<lambda>(l, h). l \<le> h) (qi_bounds s)"

text \<open>A stage-2 table has one entry more than levels, and with a level it is a range coder table.\<close>

definition cell_table :: "int \<times> int \<Rightarrow> u16 list \<Rightarrow> bool" where
  "cell_table b c \<longleftrightarrow> length c = levels b + 1 \<and> (cdf_table c \<longleftrightarrow> 0 < levels b)"

lemma cell_table_of:
  assumes "length bs = levels b" "levels b \<le> 256"
  shows "cell_table b (lsfDcmfToCmf bs)"
proof -
  have e: "lsfDcmfToCmf bs = map of_nat (dcmf_table bs)" using dcmf_tables(2) [of bs] assms by simp
  then have l: "length (lsfDcmfToCmf bs) = length bs + 1" by simp
  have "cdf_table (lsfDcmfToCmf bs) \<longleftrightarrow> bs \<noteq> []"
  proof
    assume "cdf_table (lsfDcmfToCmf bs)"
    then have "2 \<le> length bs + 1" using l by (simp add: cdf_table_def)
    then show "bs \<noteq> []" by auto
  next
    assume "bs \<noteq> []"
    then show "cdf_table (lsfDcmfToCmf bs)" using dcmf_table_ok [of bs] assms by (simp add: e)
  qed
  then show ?thesis using l assms(1) by (simp add: cell_table_def flip: length_greater_0_conv)
qed

lemma cell_advances:
  assumes "- 128 \<le> l" "h < 128" "N = min lsfST2Len (min (length (st2Qlvls8 s)) (length (st2Dcmfs s) + length spare))"
  shows "advances N (stage2_cell spare s (l, h)) (l \<le> h + 1) (levels (l, h)) (cell_table (l, h))"
proof -
  have n: "levels (l, h) \<le> 256" using assms(1,2) by (simp add: levels_def)
  have c: "cell_table (l, h) (lsfDcmfToCmf (take (levels (l, h)) (drop p (st2Dcmfs s @ spare))))"
    if "p + levels (l, h) \<le> N" for p
  proof (rule cell_table_of [OF _ n])
    have "p + levels (l, h) \<le> length (st2Dcmfs s @ spare)" using that assms(3) by simp
    then have "levels (l, h) \<le> length (drop p (st2Dcmfs s @ spare))" unfolding length_drop by linarith
    then show "length (take (levels (l, h)) (drop p (st2Dcmfs s @ spare))) = levels (l, h)"
      by (simp only: length_take min_absorb2)
  qed
  have neg: "\<not> l \<le> h + 1 \<longleftrightarrow> h - l + 1 < 0" by linarith
  show ?thesis
    unfolding advances_def
  proof (intro allI impI)
    fix p assume p: "p \<le> N"
    show "case stage2_cell spare s (l, h) (level p) of
        None \<Rightarrow> \<not> (l \<le> h + 1 \<and> p + levels (l, h) \<le> N)
      | Some (y, p') \<Rightarrow> l \<le> h + 1 \<and> p + levels (l, h) \<le> N \<and> p' = level (p + levels (l, h)) \<and> cell_table (l, h) y"
      using c [of p] p assms(3) by (auto simp: stage2_cell_def level_def levels_def Let_def)
  qed
qed

lemma zip_cells:
  assumes "\<And>u v. P u \<Longrightarrow> Q v \<Longrightarrow> R (u, v)"
    and "\<forall>a\<in>set x. \<forall>b\<in>set a. \<forall>c\<in>set b. \<forall>v\<in>set c. P v" "\<forall>a\<in>set y. \<forall>b\<in>set a. \<forall>c\<in>set b. \<forall>v\<in>set c. Q v"
  shows "\<forall>a\<in>set (map2 (map2 (map2 zip)) x y). \<forall>b\<in>set a. \<forall>r\<in>set b. \<forall>c\<in>set r. R c"
proof -
  have 1: "\<forall>v\<in>set x. P v \<Longrightarrow> \<forall>v\<in>set y. Q v \<Longrightarrow> \<forall>c\<in>set (zip x y). R c" for x y
    using assms(1) by clarsimp (blast dest: set_zip_leftD set_zip_rightD)
  let ?p1 = "\<lambda>x. \<forall>v\<in>set x. P v" and ?q1 = "\<lambda>y. \<forall>v\<in>set y. Q v" and ?r1 = "\<lambda>z. \<forall>c\<in>set z. R c"
  let ?p2 = "\<lambda>x. \<forall>v\<in>set x. ?p1 v" and ?q2 = "\<lambda>y. \<forall>v\<in>set y. ?q1 v" and ?r2 = "\<lambda>z. \<forall>c\<in>set z. ?r1 c"
  let ?p3 = "\<lambda>x. \<forall>v\<in>set x. ?p2 v" and ?q3 = "\<lambda>y. \<forall>v\<in>set y. ?q2 v" and ?r3 = "\<lambda>z. \<forall>c\<in>set z. ?r2 c"
  have 2: "?r2 (map2 zip x y)" if "?p2 x" "?q2 y" for x y by (rule ball_map2 [OF that, of ?r1]) (rule 1)
  have 3: "?r3 (map2 (map2 zip) x y)" if "?p3 x" "?q3 y" for x y by (rule ball_map2 [OF that, of ?r2]) (rule 2)
  show ?thesis by (rule ball_map2 [OF assms(2,3), of ?r3]) (rule 3)
qed

lemma qi_bounds_range:
  assumes "seed_shape s"
  shows "\<forall>a\<in>set (qi_bounds s). \<forall>b\<in>set a. \<forall>r\<in>set b. \<forall>c\<in>set r. - 128 \<le> fst c \<and> snd c < 128"
  unfolding qi_bounds_def
  by (rule zip_cells [where P = "\<lambda>v. - 128 \<le> v \<and> v < 128" and Q = "\<lambda>v. - 128 \<le> v \<and> v < 128"])
    (use assms in \<open>simp_all add: seed_shape_def int8_cells_def\<close>)

lemma walks_advance:
  assumes "seed_shape s" "N = min lsfST2Len (min (length (st2Qlvls8 s)) (length (st2Dcmfs s) + length spare))"
  shows "advances N (walk (walk (walk (walk (stage2_cell spare s)))) (qi_bounds s))
    (cells_all (\<lambda>(l, h). l \<le> h + 1) (qi_bounds s)) (all_levels (qi_bounds s)) (cells_all2 cell_table (qi_bounds s))"
  unfolding all_levels_def rate_levels_def [abs_def] grid_levels_def [abs_def] row_levels_def [abs_def]
proof (intro walk_advances ballI)
  fix a b r c assume "a \<in> set (qi_bounds s)" "b \<in> set a" "r \<in> set b" "c \<in> set r"
  then have "- 128 \<le> fst c" "snd c < 128" using qi_bounds_range [OF assms(1)] by blast+
  from cell_advances [OF this assms(2)]
  show "advances N (stage2_cell spare s c) (case c of (l, h) \<Rightarrow> l \<le> h + 1) (levels c) (cell_table c)"
    by (simp add: split_beta)
qed

lemma walk_iff:
  assumes "seed_shape s"
  shows "case walk (walk (walk (walk (stage2_cell spare s)))) (qi_bounds s) (level 0) of
      None \<Rightarrow> \<not> seed_fits spare s
    | Some (rows, p) \<Rightarrow> (seed_fits spare s \<longleftrightarrow> p = level lsfST2Len) \<and> p = level (qPtr p) \<and>
        cells_all2 cell_table (qi_bounds s) rows"
  using walks_advance [OF assms refl, of spare]
  by (cases rule: advancesE [of _ _ _ _ _ 0]) (auto simp: seed_fits_def level_def)

section \<open>The tables\<close>

lemma qi_bounds_shape: "seed_shape s \<Longrightarrow> qi_shape (qi_bounds s)"
proof -
  assume "seed_shape s"
  then have q: "qi_shape (minQi s)" "qi_shape (maxQi s)" by (simp_all add: seed_shape_def)
  let ?P1 = "\<lambda>c. length c = 16" and ?P2 = "\<lambda>b. length b = 17 \<and> (\<forall>c\<in>set b. length c = 16)"
  let ?P3 = "\<lambda>a. length a = 2 \<and> (\<forall>b\<in>set a. length b = 17 \<and> (\<forall>c\<in>set b. length c = 16))"
  have 2: "length (map2 zip x y) = 17 \<and> (\<forall>c\<in>set (map2 zip x y). length c = 16)" if "?P2 x" "?P2 y" for x y :: "int list list"
    using that ball_map2 [of x ?P1 y ?P1 ?P1 zip] by simp
  have 3: "length (map2 (map2 zip) x y) = 2 \<and> (\<forall>b\<in>set (map2 (map2 zip) x y). ?P2 b)" if "?P3 x" "?P3 y"
    for x y :: "int list list list"
    using that ball_map2 [of x ?P2 y ?P2 ?P2 "map2 zip"] 2 by simp
  show ?thesis
    using q ball_map2 [of "minQi s" ?P3 "maxQi s" ?P3 ?P3 "map2 (map2 zip)"] 3 by (simp add: qi_shape_def qi_bounds_def)
qed

lemma ball_all2: "list_all2 R xs ys \<Longrightarrow> (\<And>x y. R x y \<Longrightarrow> S x \<longleftrightarrow> T y) \<Longrightarrow> (\<forall>x\<in>set xs. S x) \<longleftrightarrow> (\<forall>y\<in>set ys. T y)"
  by (induction rule: list_all2_induct) auto

lemma qi_shape_same:
  assumes "cells_all2 P q rows"
  shows "qi_shape q \<longleftrightarrow> qi_shape rows"
proof -
  have 2: "(\<forall>c\<in>set b. length c = 16) \<longleftrightarrow> (\<forall>c\<in>set b'. length c = 16)" if "list_all2 (list_all2 P) b b'" for b b'
    by (rule ball_all2 [OF that]) (simp add: list_all2_lengthD)
  have 3: "(\<forall>b\<in>set a. length b = 17 \<and> (\<forall>c\<in>set b. length c = 16)) \<longleftrightarrow> (\<forall>b\<in>set a'. length b = 17 \<and> (\<forall>c\<in>set b. length c = 16))"
    if "list_all2 (list_all2 (list_all2 P)) a a'" for a a'
    by (rule ball_all2 [OF that]) (simp_all add: 2 list_all2_lengthD)
  have "(\<forall>a\<in>set q. length a = 2 \<and> (\<forall>b\<in>set a. length b = 17 \<and> (\<forall>c\<in>set b. length c = 16))) \<longleftrightarrow>
      (\<forall>a\<in>set rows. length a = 2 \<and> (\<forall>b\<in>set a. length b = 17 \<and> (\<forall>c\<in>set b. length c = 16)))"
    by (rule ball_all2 [OF assms]) (simp_all add: 3 list_all2_lengthD)
  then show ?thesis using list_all2_lengthD [OF assms] by (simp add: qi_shape_def)
qed

lemma cells_usable:
  assumes "cells_all2 cell_table q rows"
  shows "cells_all (\<lambda>(l, h). l \<le> h) q \<longleftrightarrow> cells_all cdf_table rows"
proof -
  let ?P = "\<lambda>(l, h). l \<le> (h :: int)"
  have 1: "list_all ?P x \<longleftrightarrow> list_all cdf_table y" if "list_all2 cell_table x y" for x y
    unfolding list_all_iff by (rule ball_all2 [OF that]) (auto simp: cell_table_def levels_def)
  have 2: "list_all (list_all ?P) x \<longleftrightarrow> list_all (list_all cdf_table) y" if "list_all2 (list_all2 cell_table) x y" for x y
    unfolding list_all_iff [of "list_all ?P"] list_all_iff [of "list_all cdf_table"] by (rule ball_all2 [OF that 1])
  have 3: "list_all (list_all (list_all ?P)) x \<longleftrightarrow> list_all (list_all (list_all cdf_table)) y"
    if "list_all2 (list_all2 (list_all2 cell_table)) x y" for x y
    unfolding list_all_iff [of "list_all (list_all ?P)"] list_all_iff [of "list_all (list_all cdf_table)"] by (rule ball_all2 [OF that 2])
  show ?thesis
    unfolding list_all_iff [of "list_all (list_all (list_all ?P))"] list_all_iff [of "list_all (list_all (list_all cdf_table))"]
    by (rule ball_all2 [OF assms 3])
qed

definition seed_tables :: "lsfSeed \<Rightarrow> u16 list list list list list \<Rightarrow> SmplTables" where
  "seed_tables s rows = \<lparr>LsfSel = lsfSel s, Match1 = seedCmfCond s ! 1, Match1Alt = seedCmfCond s ! 0, Match0 = seedCmf s ! 0,
     Match0Alt = seedCmf s ! 1, LsfStage2 = rows, LsfExtra = lsfExtra s\<rparr>"

lemma two: "length xs = 2 \<Longrightarrow> xs = [xs ! 0, xs ! 1]"
  by (intro nth_equalityI) (auto simp: less_Suc_eq numeral_2_eq_2)

lemma stage1_usable:
  assumes "seed_shape s"
  shows "(\<forall>m k. cdf_table (grid_cdf (seed_tables s rows) m k) \<and> length (grid_cdf (seed_tables s rows) m k) \<le> 18) \<longleftrightarrow>
    (\<forall>c\<in>set (seedCmf s) \<union> set (seedCmfCond s). cdf_table c)"
proof -
  have e: "seedCmf s = [seedCmf s ! 0, seedCmf s ! 1]" "seedCmfCond s = [seedCmfCond s ! 0, seedCmfCond s ! 1]"
    by (rule two, use assms in \<open>simp add: seed_shape_def\<close>)+
  have l: "\<forall>c\<in>{seedCmf s ! 0, seedCmf s ! 1, seedCmfCond s ! 0, seedCmfCond s ! 1}. length c \<le> 18"
    using assms by (auto simp: seed_shape_def)
  have sets: "set (seedCmf s) \<union> set (seedCmfCond s) = {seedCmf s ! 0, seedCmf s ! 1, seedCmfCond s ! 0, seedCmfCond s ! 1}"
    by (subst (1) e(1), subst (1) e(2)) auto
  have all: "(\<forall>m k. R (grid_cdf (seed_tables s rows) m k)) \<longleftrightarrow>
      R (seedCmf s ! 0) \<and> R (seedCmf s ! 1) \<and> R (seedCmfCond s ! 0) \<and> R (seedCmfCond s ! 1)" for R
  proof
    assume a: "\<forall>m k. R (grid_cdf (seed_tables s rows) m k)"
    show "R (seedCmf s ! 0) \<and> R (seedCmf s ! 1) \<and> R (seedCmfCond s ! 0) \<and> R (seedCmfCond s ! 1)"
      using a [rule_format, of False 0] a [rule_format, of False 1] a [rule_format, of True 0] a [rule_format, of True 1]
      by (simp add: grid_cdf_def seed_tables_def)
  qed (simp add: grid_cdf_def seed_tables_def)
  show ?thesis using l unfolding all [of "\<lambda>c. cdf_table c \<and> length c \<le> 18"] sets by simp
qed

lemma seed_tables_ok:
  assumes "seed_shape s" "cells_all2 cell_table (qi_bounds s) rows"
  shows "lsf_tables_ok (seed_tables s rows) \<longleftrightarrow> seed_usable s"
proof -
  have "qi_shape rows" using qi_shape_same [OF assms(2)] qi_bounds_shape [OF assms(1)] by simp
  then have r: "length rows = 2" "\<forall>a\<in>set rows. length a = 2 \<and> (\<forall>b\<in>set a. length b = 17 \<and> (\<forall>c\<in>set b. length c = 16))"
    by (simp_all add: qi_shape_def)
  have t: "LsfSel (seed_tables s rows) = lsfSel s" "LsfStage2 (seed_tables s rows) = rows" "LsfExtra (seed_tables s rows) = lsfExtra s"
    by (simp_all add: seed_tables_def)
  have sel: "length (lsfSel s) = 3" "\<forall>c\<in>set (lsfSel s). length c = 3" using assms(1) by (simp_all add: seed_shape_def)
  have cells: "cells_all cdf_table rows \<longleftrightarrow> (\<forall>a\<in>set rows. length a = 2 \<and> (\<forall>b\<in>set a. length b = 17 \<and>
      (\<forall>r\<in>set b. length r = 16 \<and> (\<forall>c\<in>set r. cdf_table c))))"
    using r(2) by (auto simp: list_all_iff)
  show ?thesis
    unfolding lsf_tables_ok_def t stage1_usable [OF assms(1)] seed_usable_def cells_usable [OF assms(2)] cells
    using r(1) sel by auto
qed

text \<open>C10: Building the LSF tables from a seed panics exactly when its walk does not fit: a cell with a negative
  number of levels, level counts that do not add up to the length of the flat arrays, or arrays that are
  too short.  Otherwise all three pointers end at that length, and the tables have the sizes the LSF
  decoder indexes them with and are ones the range coder can use if and only if the tables taken over
  from the seed grow strictly and every cell has a level.\<close>

theorem lsf_seed_builds:
  assumes "seed_shape s"
  shows "case buildLsfTables spare s of
      None \<Rightarrow> \<not> seed_fits spare s
    | Some t \<Rightarrow> seed_fits spare s \<and> (lsf_tables_ok t \<longleftrightarrow> seed_usable s)"
proof -
  note w = walk_iff [OF assms, of spare]
  show ?thesis
  proof (cases "walk (walk (walk (walk (stage2_cell spare s)))) (qi_bounds s) (level 0)")
    case None
    then show ?thesis using w by (simp add: buildLsfTables_def flip: qi_bounds_def level_def)
  next
    case (Some rp)
    obtain rows p where rp: "rp = (rows, p)" by (cases rp)
    have f: "seed_fits spare s \<longleftrightarrow> p = level lsfST2Len" "p = level (qPtr p)" "cells_all2 cell_table (qi_bounds s) rows"
      using w Some rp by auto
    have "buildLsfTables spare s = (if p = level lsfST2Len then Some (seed_tables s rows) else None)"
      using Some rp by (auto simp: buildLsfTables_def seed_tables_def level_def simp flip: qi_bounds_def)
    then show ?thesis using f(1) seed_tables_ok [OF assms f(3)] by simp
  qed
qed

text \<open>A seed with eight or nine levels in every cell.\<close>

definition example_seed :: lsfSeed where
  "example_seed =
     \<lparr>cb16 = [], cinv16 = [], rot8 = [], rotCond8 = [], seedMean = [], seedCmf = replicate 2 (map of_nat [0..<17]),
      seedCmfCond = replicate 2 (map of_nat [0..<18]), minDist = [], regCond = [],
      minQi = [replicate 2 (replicate 17 (replicate 16 (- 3))), [replicate 17 (replicate 16 (- 3)),
        replicate 4 (replicate 16 (- 3)) @ [replicate 9 (- 3) @ replicate 7 (- 3)] @ replicate 12 (replicate 16 (- 3))]],
      maxQi = [replicate 2 (replicate 17 (replicate 16 5)), [replicate 17 (replicate 16 5),
        replicate 4 (replicate 16 5) @ [replicate 9 5 @ replicate 7 4] @ replicate 12 (replicate 16 4)]],
      seedQstep = [], st2Qlvls8 = replicate 9593 0, st2Dcmfs = replicate 9593 7,
      lsfSel = replicate 3 [0, 9, 65535], lsfExtra = [0, 1, 2]\<rparr>"

lemma example_seed_ok: "seed_shape example_seed" "seed_fits [] example_seed" "seed_usable example_seed"
proof -
  have n: "cdf_table (map of_nat [0..<n])" if "2 \<le> n" "n \<le> 32768" for n
    using that by (auto simp: cdf_table_def sorted_wrt_iff_nth_less word_less_nat_alt unat_of_nat take_bit_nat_eq_self)
  have c: "cdf_table (map of_nat [0..<17])" "cdf_table (map of_nat [0..<18])" by (rule n; simp)+
  have c2: "cdf_table [0, 9, 65535]" "cdf_table [0, 1, 2]" by (simp_all add: cdf_table_def)
  show "seed_shape example_seed" by (auto simp: seed_shape_def qi_shape_def int8_cells_def example_seed_def)
  have q: "qi_bounds example_seed = [replicate 2 (replicate 17 (replicate 16 (- 3, 5))), [replicate 17 (replicate 16 (- 3, 5)),
      replicate 4 (replicate 16 (- 3, 5)) @ [replicate 9 (- 3, 5) @ replicate 7 (- 3, 4)] @ replicate 12 (replicate 16 (- 3, 4))]]"
    unfolding qi_bounds_def example_seed_def by (simp add: zip_replicate)
  have total': "all_levels (qi_bounds example_seed) = lsfST2Len"
    unfolding q by (simp add: all_levels_def rate_levels_def grid_levels_def row_levels_def levels_def lsfST2Len_def sum_list_replicate)
  have f: "seedCmf example_seed = replicate 2 (map of_nat [0..<17])" "seedCmfCond example_seed = replicate 2 (map of_nat [0..<18])"
      "lsfSel example_seed = replicate 3 [0, 9, 65535]" "lsfExtra example_seed = [0, 1, 2]"
      "length (st2Qlvls8 example_seed) = lsfST2Len" "length (st2Dcmfs example_seed) = lsfST2Len"
    by (simp_all only: example_seed_def lsfSeed.simps length_replicate lsfST2Len_def)
  show "seed_fits [] example_seed" unfolding seed_fits_def total' f by (simp add: q list_all_iff)
  have "\<forall>x\<in>set (seedCmf example_seed) \<union> set (seedCmfCond example_seed) \<union> set (lsfSel example_seed) \<union> {lsfExtra example_seed}. cdf_table x"
    unfolding f set_replicate_conv_if using c c2 by (auto simp del: upt_rec_numeral)
  then show "seed_usable example_seed" by (simp add: seed_usable_def q list_all_iff)
qed

theorem lsf_seed_builds_witness: "\<exists>t. buildLsfTables [] example_seed = Some t \<and> lsf_tables_ok t"
  using lsf_seed_builds [OF example_seed_ok(1), of "[]"] example_seed_ok(2,3) by (auto split: option.splits)

end
