(* ===== verification/MlowFrameTrip.thy ===== *)
theory MlowFrameTrip
  imports MlowExample RangeFits MlowPitchBuilt MlowLsfBuilt
begin

text \<open>
  Whole frames: what \<open>EncodeSmplFrame\<close> writes is what \<open>decodeActiveFrame\<close> reads, and any bytes decode to
  parameters in range.
\<close>

section \<open>Writing\<close>

text \<open>The encoder's state beside the decoder's.\<close>

definition in_step :: "SmplLsfState \<Rightarrow> SmplLsfState \<Rightarrow> bool" where
  "in_step sd se \<longleftrightarrow> same_predictors sd se \<and> PrevStage1 sd = PrevStage1 se"

lemma lsf_in_step:
  assumes "f = 0 \<or> in_step sd se"
  shows "lsf_symbols t se config f p = lsf_symbols t sd config f p"
    "lsf_params_ok t se config f p = lsf_params_ok t sd config f p" "lsf_match se f x = lsf_match sd f x"
    "in_step (lsf_after sd f p) ((snd (enc_advance se f (Stage1 p)))\<lparr>PrevMatch := lsf_match sd f (Stage1 p), HavePrev := True\<rparr>)"
  using assms
  by (auto simp: in_step_def same_predictors_def lsf_symbols_def lsf_params_ok_def lsf_after_def lsf_advance_def enc_advance_def
      lsf_match_def lsf_row_def Let_def)

lemma internal_written:
  assumes "lsf_tables_ok t" "tables_ok cc" "window_ok w" "tables_match tab w" "internal_ok t cc w False sd f ip"
    "f = 0 \<or> state_ok sd \<and> in_step sd se"
  shows "\<exists>se'. encode_internal e t cc tab se 0 f ip = map_option (Pair se') (encode_all (internal_symbols t cc w False sd f ip) e) \<and>
    in_step (internal_after w False sd f ip) se'"
proof -
  let ?s1 = "Stage1 (Lsf ip)" and ?cs = "Subfr (Pulses ip)" and ?sd = "lsf_after sd f (Lsf ip)"
  have r: "rate_p3 False = 4" "rate_p6 False = 0" "wrap32 0 = 0" by (simp_all add: rate_p3_def rate_p6_def wrap32_id)
  have ok: "lsf_params_ok t sd 0 f (Lsf ip)" "pulse_params_ok cc False ?s1 (Pulses ip)" "?s1 \<in> {0, 1}"
    using assms(5) by (auto simp: internal_ok_def lsf_params_ok_def rate_p6_def)
  have step: "f = 0 \<or> in_step sd se" using assms(6) by blast
  note S = lsf_in_step [OF step]
  define se1 where "se1 = (snd (enc_advance se f ?s1))\<lparr>PrevMatch := lsf_match sd f ?s1, HavePrev := True\<rparr>"
  have L: "encodeSmplLsf e t se 0 f (Lsf ip) = map_option (Pair se1) (encode_all (lsf_symbols t sd 0 f (Lsf ip)) e)"
    using lsf_written [OF assms(1), of 0 se f "Lsf ip" e] ok(1) by (simp add: S(1-3) se1_def)
  have se1: "in_step ?sd se1" using S(4) [of "Lsf ip"] by (simp add: se1_def)
  have P: "encodeSmplPulses e1 cc 320 4 1 0 ?s1 (Pulses ip) = encode_all (pulse_symbols cc False ?s1 (Pulses ip)) e1" for e1
    using pulses_written [OF assms(2) ok(3,2)] .
  have st: "state_ok ?sd" using lsf_after_ok [of f sd] assms(6) by blast
  show ?thesis
  proof (cases "?s1 = 1")
    case True
    have pp: "pitch_params_ok w False ?cs (Pitch ip)" using assms(5) True by (simp add: internal_ok_def)
    have sp: "same_predictors ?sd se1" using se1 by (simp add: in_step_def)
    obtain se' where se': "\<forall>e2. encodeSmplPitch e2 cc tab se1 320 4 0 ?cs (Pitch ip) =
        map_option (Pair se') (encode_all (pitch_symbols cc w False ?cs ?sd (Pitch ip)) e2)"
        "same_predictors (pitch_after w False ?cs ?sd (Pitch ip)) se'" "PrevStage1 se' = PrevStage1 se1"
      using pitch_written [OF assms(2,4,3) pp _ _ sp] st unfolding state_ok_def r by blast
    have "PrevStage1 (pitch_after w False ?cs ?sd (Pitch ip)) = PrevStage1 ?sd"
      by (simp add: pitch_after_def Let_def split_beta)
    then have "in_step (pitch_after w False ?cs ?sd (Pitch ip)) se'" using se'(2,3) se1 by (simp add: in_step_def)
    then show ?thesis
      using True by (intro exI [of _ se'])
        (simp add: encode_internal_def L P [unfolded True] internal_symbols_def internal_after_def encode_all_append r se'(1)
          split: option.split bind_split)
  next
    case False
    have gp: "gain_params_ok cc False ?cs (Gains ip)" using assms(5) False by (simp add: internal_ok_def)
    have G: "encodeSmplGains e2 cc 4 ?cs (Gains ip) = encode_all (gain_symbols cc False ?cs (Gains ip)) e2" for e2
      using gains_written [OF assms(2) pulses_counts [OF ok(2)] gp] by (simp add: r)
    show ?thesis
      using False se1 by (intro exI [of _ se1])
        (simp add: encode_internal_def L P G internal_symbols_def internal_after_def encode_all_append r
          split: option.split bind_split)
  qed
qed

lemma frame_encoded:
  "lsf_tables_ok t \<Longrightarrow> tables_ok cc \<Longrightarrow> window_ok w \<Longrightarrow> tables_match tab w \<Longrightarrow> frame_ok t cc w False sd f ips \<Longrightarrow>
   f = 0 \<or> state_ok sd \<and> in_step sd se \<Longrightarrow>
   encode_internals e t cc tab se 0 f ips = encode_all (frame_body t cc w False sd f ips) e"
proof (induction ips arbitrary: sd se f e)
  case (Cons ip ips)
  have ok: "internal_ok t cc w False sd f ip" "frame_ok t cc w False (internal_after w False sd f ip) (f + 1) ips"
    using Cons.prems(5) by simp_all
  obtain se' where se': "encode_internal e t cc tab se 0 f ip = map_option (Pair se') (encode_all (internal_symbols t cc w False sd f ip) e)"
      "in_step (internal_after w False sd f ip) se'"
    using internal_written [OF Cons.prems(1-4) ok(1) Cons.prems(6)] by blast
  have "state_ok (internal_after w False sd f ip)" using internal_after_ok [OF Cons.prems(3) ok(1)] Cons.prems(6) by blast
  then have next_ok: "f + 1 = 0 \<or> state_ok (internal_after w False sd f ip) \<and> in_step (internal_after w False sd f ip) se'"
    using se'(2) by blast
  note IH = Cons.IH [OF Cons.prems(1-4) ok(2) next_ok]
  show ?case by (simp add: se'(1) IH encode_all_append split: option.split bind_split)
qed simp

section \<open>Round trip\<close>

lemma decode_frame_of:
  assumes "lsf_tables_ok t" "tables_ok cc" "window_ok w" "frame_ok t cc w low zero_lsf_state 0 ips" "length ips = 3"
    and "NewRangeDecoder body = Some d" "holds (frame_body t cc w low zero_lsf_state 0 ips) d d'" "low = (drop_bit 2 b AND 1 \<noteq> 0)"
  shows "\<exists>st'. decodeActiveFrame t cc (buildSmplMemFromSeed w) st (b # body) = Some (map (internal_view t cc low) ips, st')"
proof -
  have "frame_body t cc w low st 0 ips = frame_body t cc w low zero_lsf_state 0 ips \<and>
      frame_ok t cc w low st 0 ips = frame_ok t cc w low zero_lsf_state 0 ips"
    by (rule frame_agree) simp
  then have h: "holds (frame_body t cc w low st 0 ips) d d'" "frame_ok t cc w low st 0 ips" using assms(4,7) by simp_all
  have "decode_internals 3 d t cc (buildSmplMemFromSeed w) st (rate_p6 low) (rate_p3 low) 0 =
      Some (map (internal_view t cc low) ips, states_after w low st 0 ips, d')"
    using frame_body_read [OF h(1) assms(1-3) h(2)] assms(5) by simp
  then show ?thesis
    using assms(6) by (cases low) (simp_all add: decodeActiveFrame_def rate_p6_def rate_p3_def flip: assms(8))
qed

lemma frame_routed:
  assumes "redundancy md \<le> 0"
  shows "mlow_Decode md (0x50 # body) = Some ([ActiveFrame (0x50 # body) 960], md)"
proof -
  have "ParseSmplTOC 0x50 = \<lparr>StdOpus = False, SID = False, VAD = True, tocSampleRate = 16000, FrameMs = 60,
      Voiced = False, tocActive = True, Flag2 = False, Flag0 = False\<rparr>"
    by (simp add: ParseSmplTOC_def Let_def)
  then show ?thesis using assms by (simp add: mlow_Decode_def splitContainer_def decodeFrame_def Let_def)
qed

text \<open>
  At the low rate the encoder is not the inverse: it codes the pulse count with the triangular table, where
  the decoder reads the count table of the rate.
\<close>

lemma low_rate_count_triangular:
  assumes "s1 \<in> {0, 1}"
  shows "encodeSmplPulses e cc 320 4 1 1 s1 \<lparr>Total = 0, Subfr = [0, 0, 0, 0], MagRuns = [], SignSyms = []\<rparr> =
    Encode e 0 (triT 32 0) (triT 32 32)"
proof -
  have s: "pulse_sizes 320 4 1 1 0 = Some (32, 8, 80)" "pulse_sizes 320 4 1 1 1 = Some (32, 8, 80)" by code_simp+
  have "pulse_sizes 320 4 1 1 s1 = Some (32, 8, 80)" using assms s by auto
  moreover have "triT 32 32 \<noteq> 0" by code_simp
  ultimately show ?thesis by (simp add: encodeSmplPulses_def Let_def)
qed

text \<open>C5: A frame of parameters in range never makes the encoder panic.  It overflows only when the body takes
  more than 169 symbols; otherwise the bytes, with anything behind them, are routed as one active frame by a
  decoder without redundancy and decode, whatever the decoder's state, to exactly the parameters encoded:
  LSF indices, pulse positions with signs, gains, filters and lags of the three internal frames.\<close>

theorem frame_round_trip:
  assumes "lsf_tables_ok t" "tables_ok cc" "window_ok w" "tables_match tab w"
    and "Config fp = 0" "TOC fp = 0x50" "length (Internal fp) = 3" "frame_ok t cc w False zero_lsf_state 0 (Internal fp)"
    and "length rest < 4294966783" "redundancy md \<le> 0"
  shows "case EncodeSmplFrame t cc tab fp of
      None \<Rightarrow> False
    | Some (Inl err) \<Rightarrow> 169 < length (frame_body t cc w False zero_lsf_state 0 (Internal fp))
    | Some (Inr frame) \<Rightarrow> mlow_Decode md (frame @ rest) = Some ([ActiveFrame (frame @ rest) 960], md) \<and>
        (\<exists>st'. decodeActiveFrame t cc (buildSmplMemFromSeed w) st (frame @ rest) =
           Some (map (internal_view t cc False) (Internal fp), st'))"
proof -
  let ?ss = "frame_body t cc w False zero_lsf_state 0 (Internal fp)" and ?e0 = "NewRangeEncoder 513"
  have "codable (400 * 3) ?ss"
    using frame_body_codable [OF assms(1-3,8)] assms(7) by simp
  then have ss: "list_all symbol_ok ?ss" "length ?ss < 268435456" by (simp_all add: codable_def)
  obtain e where e: "encode_all ?ss ?e0 = Some e" "enc_ready e" "eEndOffs e = 0" "eNendBits e = 0" "eStorage e = 513"
    using encode_all_returns [OF ss(1) start_ready(1), of 513] by (auto simp: NewRangeEncoder_def)
  have enc: "encode_internals (NewRangeEncoder (1 + SmplEncodeBufBytes)) t cc tab zero_lsf_state (Config fp) 0 (Internal fp) = Some e"
    using frame_encoded [OF assms(1-4,8), of zero_lsf_state] e(1) assms(5) by (simp add: SmplEncodeBufBytes_def)
  have run: "EncodeSmplFrame t cc tab fp =
      (if eErr (Done e) \<noteq> 0 then Some (Inl ''mlow encode: range-encoder buffer overflow'')
       else if length (eBuf (Done e)) < ConsumedLen (Done e) then None
       else Some (Inr (TOC fp # take (ConsumedLen (Done e)) (eBuf (Done e)))))"
    unfolding EncodeSmplFrame_def enc bind.bind_lunit Let_def ..
  have fit: "eErr (Done e) = 0" if "length ?ss \<le> 169"
    using short_code_fits [OF ss(1), of 513] e(1) that by auto
  show ?thesis
  proof (cases "eErr (Done e) = 0")
    case True
    let ?n = "ConsumedLen (Done e)" and ?buf = "eBuf (Done e)"
    have n: "?n \<le> length ?buf" by (rule coded_length [OF ss e(1) True]) simp
    obtain d d' where d: "NewRangeDecoder (take ?n ?buf @ rest) = Some d"
        "decode_all (map shape_of ?ss) d = Some (map value_of ?ss, d')"
      using coded_read_back [OF ss e(1) True, of rest] assms(9) by auto
    then have "holds ?ss d d'" using ss(1) by (simp add: holds_def)
    from decode_frame_of [OF assms(1-3,8,7) d(1) this, of "0x50" st]
    obtain st' where "decodeActiveFrame t cc (buildSmplMemFromSeed w) st (0x50 # take ?n ?buf @ rest) =
        Some (map (internal_view t cc False) (Internal fp), st')" by auto
    then show ?thesis
      using frame_routed [OF assms(10)] True n assms(6) by (simp add: run)
  next
    case False
    then have "169 < length ?ss" using fit by (meson not_less)
    then show ?thesis using False by (simp add: run)
  qed
qed

theorem frame_round_trip_witness:
  "\<exists>cc. case EncodeSmplFrame example_tables cc example_pitch_tables example_frame of
      Some (Inr frame) \<Rightarrow>
        mlow_Decode \<lparr>redundancy = 0, droppedUnsupported = 0\<rparr> (frame @ [1, 2]) =
          Some ([ActiveFrame (frame @ [1, 2]) 960], \<lparr>redundancy = 0, droppedUnsupported = 0\<rparr>) \<and>
        (\<exists>st'. decodeActiveFrame example_tables cc (buildSmplMemFromSeed example_window) zero_lsf_state (frame @ [1, 2]) =
           Some (map (internal_view example_tables cc False) (Internal example_frame), st'))
    | _ \<Rightarrow> False"
proof -
  obtain cc where cc: "tables_ok cc" using tables_exist by blast
  have f: "Config example_frame = 0" "TOC example_frame = 0x50" "length (Internal example_frame) = 3"
    by (simp_all add: example_frame_def Let_def)
  show ?thesis
    using frame_round_trip [OF example_tables_ok cc example_window_ok example_match f example_frame_ok(1) [OF cc],
        of "[1, 2]" "\<lparr>redundancy = 0, droppedUnsupported = 0\<rparr>" zero_lsf_state] example_frame_ok(2) [OF cc]
    by (intro exI [of _ cc]) (simp split: option.splits sum.splits)
qed

text \<open>C6: Any body whatever, at either rate and in any state, decodes without a panic to three internal frames of
  parameters in range: the decoder always returns, and every index it hands to the synthesis is one the
  encoder could have sent.\<close>

theorem active_frame_total:
  assumes "lsf_tables_ok t" "tables_ok cc" "window_ok w"
  shows "\<exists>ips st'. length ips = 3 \<and> frame_ok t cc w (drop_bit 2 toc AND 1 \<noteq> 0) zero_lsf_state 0 ips \<and>
    decodeActiveFrame t cc (buildSmplMemFromSeed w) st (toc # body) =
      Some (map (internal_view t cc (drop_bit 2 toc AND 1 \<noteq> 0)) ips, st')"
proof -
  obtain d where d: "NewRangeDecoder body = Some d" "dec_ready d" using NewRangeDecoder_ready by blast
  obtain ips d' where "length ips = 3" "frame_ok t cc w (drop_bit 2 toc AND 1 \<noteq> 0) zero_lsf_state 0 ips"
      "holds (frame_body t cc w (drop_bit 2 toc AND 1 \<noteq> 0) zero_lsf_state 0 ips) d d'"
    using frame_any_body [OF assms _ d(2), of 0 zero_lsf_state 3 "drop_bit 2 toc AND 1 \<noteq> 0"] by blast
  then show ?thesis using decode_frame_of [OF assms _ _ d(1)] by blast
qed

theorem active_frame_total_witness:
  "\<exists>cc ips st'. length ips = 3 \<and> frame_ok example_tables cc example_window True zero_lsf_state 0 ips \<and>
    decodeActiveFrame example_tables cc (buildSmplMemFromSeed example_window) zero_lsf_state [0x54, 255, 0, 1] =
      Some (map (internal_view example_tables cc True) ips, st')"
proof -
  obtain cc where cc: "tables_ok cc" using tables_exist by blast
  show ?thesis
    using active_frame_total [OF example_tables_ok cc example_window_ok, of "0x54" zero_lsf_state "[255, 0, 1]"]
    by (intro exI [of _ cc]) simp
qed

end
