(* ===== verification/Spec2Isabelle.thy ===== *)
theory Spec2Isabelle
  imports Prelude Crypto Participant Warp Hbh E2e Sframe Rtp RtpStreams H264 Rtcp Ssrc Stun Relay
    Signaling Session Registry Pipeline VideoSender AppData MediaLoop Player Playout RangeTotal EngineGate
    MlowFrameTrip
begin

text \<open>
  meowcaller is a WhatsApp VoIP stack in Go: it places and answers calls over a logged-in whatsmeow client,
  allocates a relay, and sends and receives protected audio, video and app data.  This library models the
  part of it that decides and computes over integers, bytes and states; a Go panic is \<open>None\<close> throughout, an
  error a value of a sum or option type, a fixed-width integer a word (or an \<open>int\<close> with the wrap-around
  written out), a method on a pointer a function that returns the changed record.

  How the parts interact.  An event of whatsmeow or a method of \<open>Call\<close> reaches the engine (engine.go), which
  keeps an entry per call, answers with stanzas (signaling/) and starts one media task per call
  (engine_media.go).  The task connects to a relay (relay/, stun/), derives the keys of the participants
  (srtp/, util/), and runs two loops: frames are coded (mlow/), numbered and packetized (rtp/), protected
  (session.go, srtp/) and sent; packets received are classified, opened, reassembled and handed to sinks.

  From the code to the theories, in the order of import:

  \<^item> \<open>Prelude\<close>: words, byte slices, big- and little-endian and LEB128 codes (locale \<open>field_code\<close>, interpreted
    for each), the generic facts about lists.  \<open>Crypto\<close>: AES-128, CTR, GCM, SHA-1, SHA-256, HMAC and HKDF of
    Go's standard library, executable.
  \<^item> Keys and packet protection.  \<open>Participant\<close> (util/participant.go, util/hkdf.go), \<open>Warp\<close> (srtp/warp.go), \<open>Hbh\<close>
    (srtp/hbh.go; locale \<open>packet_cipher\<close> for the three ciphers), \<open>E2e\<close> (srtp/e2e.go: session keys, payload cipher,
    SRTCP, the rollover trackers), \<open>Sframe\<close> (srtp/sframe.go).  Their lemmas show round trips, authenticity of
    what SRTCP accepts, that nonces and counter blocks do not repeat, and that \<open>GuessRoc\<close> is exact in its window.
  \<^item> Packets.  \<open>Rtp\<close>, \<open>RtpStreams\<close> (rtp/rtp.go; locale \<open>sequencer\<close>), \<open>H264\<close> (rtp/h264.go), \<open>Rtcp\<close> (rtp/rtcp.go),
    \<open>Ssrc\<close> (rtp/ssrc.go), \<open>Stun\<close> (stun/stun.go), \<open>Relay\<close> (relay/relay.go: construction, tear-down, classification).
    They show round trips, the reception statistics in closed form, and that a failed connection leaks nothing.
  \<^item> Calls.  \<open>Signaling\<close> (signaling/stanza.go, signaling/video.go), \<open>Session\<close> (the phases in session.go; the relation
    \<open>phase_step\<close> is the life cycle they refine), \<open>Registry\<close> (call.go; locale \<open>entry_map\<close>; it refines a
    map of sessions), \<open>LiveCall\<close> (livecall.go,
    codec.go, signaling/voipsettings.go), \<open>RelayData\<close> (relay data, the choice of an endpoint and \<open>connectAndAllocate\<close>
    in engine.go and engine_media.go).
  \<^item> Media.  \<open>Pipeline\<close> (the media pipeline of session.go; locale \<open>media_channel\<close>, which extends \<open>sequencer\<close> and is
    interpreted for audio, video and app data), \<open>VideoSender\<close> and \<open>MediaLoop\<close> (engine_media.go: the gated video
    sender, the receive loop, the SRTCP ends), \<open>AppData\<close> (appdata.go), \<open>Player\<close> (player.go), \<open>Playout\<close>
    (audio_playout.go, audio.go).  The theorems compose sender, network and receiver: under loss and reordering
    the payloads, access units and reactions sent are what is delivered.
  \<^item> The engine.  \<open>Engine\<close> (the state, the effects and the operations of engine.go), \<open>EngineEvents\<close> (its handlers of
    events), \<open>EngineRun\<close> (dispatch and runs, in which events, application calls and media goroutines interleave
    freely), \<open>EngineLife\<close> (an abstract life of calls and media tasks, an \<open>inductive\<close> relation), \<open>EngineRefine\<close>
    (every run of the engine is one of it), \<open>EngineGate\<close> (the video gate).
  \<^item> The range coder (mlow/rangecoder.go).  \<open>RangeCoder\<close> holds both directions; \<open>RangeTrip\<close> reads the encoder's state
    as an interval of numbers and states the contract of a symbol, the locale \<open>range_symbol\<close>; \<open>RangeSymbols\<close>
    interprets it for each kind of symbol; \<open>RangeRound\<close> shows that what \<open>Done\<close> flushes is read back; \<open>RangeTotal\<close>
    that any bytes decode; \<open>RangeFits\<close> that the buffer suffices for three bytes a symbol and six more.
  \<^item> The frames of the MLow codec.  \<open>MlowFraming\<close> (mlow/toc.go, mlow/red.go, the routing of mlow/decoder.go: a payload is
    split into redundant blocks, containers and frames).  \<open>MlowTables\<close>, \<open>MlowTablesOk\<close> and \<open>MlowSplits\<close> (mlow/cc_tables.go
    and the expansions of delta tables), \<open>MlowLsfSeed\<close> and \<open>MlowLsfBuilt\<close> (mlow/lsf_seed.go), \<open>MlowPitch\<close> with
    \<open>MlowWindow\<close> and \<open>MlowPitchBuilt\<close> (mlow/pitch_seed.go, mlow/mem.go; locale \<open>contour_memory\<close>: what the decoder
    reads through absolute addresses of the heap window is what was laid out) build the cumulative tables from
    the packed seeds and show that each is one the range coder can use.  \<open>MlowSymbols\<close> (mlow/lsf.go, mlow/pulse.go,
    mlow/gains.go and their inverses in mlow/encoder.go) and \<open>MlowPitch\<close> (mlow/pitch.go and its inverse) hold the
    blocks of an internal frame.
  \<^item> Every block is described by the list of range coder symbols it consists of (\<open>lsf_symbols\<close>, \<open>pulse_symbols\<close>,
    \<open>gain_symbols\<close>, \<open>pitch_symbols\<close>), the specification between both directions: the encoder writes that list, a
    decoder whose bytes hold it returns the parameters, and any bytes hold one.  \<open>MlowBlocks\<close>, \<open>MlowPulses\<close>,
    \<open>MlowRuns\<close>, \<open>MlowVectors\<close>, \<open>MlowGains\<close>, \<open>MlowLtp\<close>, \<open>MlowContour\<close>, \<open>MlowLags\<close>, \<open>MlowPitchBlock\<close> and
    \<open>MlowPitchWrite\<close> prove the three facts block by block; \<open>MlowFrame\<close> composes them as \<open>EncodeSmplFrame\<close>
    (mlow/encoder.go) and \<open>decodeActiveFrame\<close> (mlow/decoder.go) do; \<open>MlowValid\<close> shows that the symbols can be coded
    and counts them; \<open>MlowFrameTrip\<close> has the theorems on whole frames, \<open>MlowExample\<close> the tables they are applied to.

  Parameters of the model.  Code outside the repository is an argument with documented behaviour as a
  hypothesis: whatsmeow (sending, identifiers, key encryption), \<open>encoding/json\<close>, \<open>protowire\<close>, the UDP, DTLS,
  SCTP and data channel libraries under relay/, and random sources.  The three seeds of the codec are embedded
  files inflated by \<open>compress/zlib\<close>; their bytes are arguments, and what the theorems need of them (field
  lengths, growing tables, level counts) is stated as \<open>seed_ok\<close>, \<open>window_ok\<close>, \<open>contours_ok\<close>, \<open>seed_fits\<close>
  and \<open>seed_usable\<close>; for the LSF seed the theorem says that building panics exactly when \<open>seed_fits\<close> fails.

  Bounds and fuel.  Loops are structural or come with a measure.  The only fuel is in \<open>flush_front\<close>, which
  flushes at most five bytes, the most a 32-bit range leaves.  The buffer of \<open>EncodeSmplFrame\<close> has 513 bytes;
  \<open>RangeFits\<close> needs three bytes a symbol and six more, so a frame of at most 169 symbols never overflows it.  A
  range coder run is taken to have fewer than 2 to the 28 symbols and bytes fewer than 2 to the 32, which keeps
  the 32-bit counters from wrapping; the window of \<open>GuessRoc\<close> is 32768 packets.

  Not modelled.  The signal processing of mlow/ (analysis, synthesis, LPC, FFT, noise, post filter, VAD, the
  pitch and CELP searches) and its tables are \<open>float32\<close> and \<open>float64\<close> arithmetic with rounding; the HOL
  library has no IEEE arithmetic, and reals would not be the code.  Sources and sinks (source.go, sink.go) and
  the sound devices are file and device access over third-party codecs; logging and diagnostics have no effect
  on a call; examples/ are front ends.  Of the engine, \<open>installCallAckHook\<close> works by reflection on whatsmeow and
  two handlers never interleave inside one another (they hold the engine mutex for their decisions); of the
  media loop, the ticker-driven send tick and the goroutines of \<open>startMedia\<close> are left out.  The phases of a
  call are a datatype: other values of the Go type, an \<open>int\<close>, never occur in the code.
\<close>

end
